(* ===== verification/RT_Prelude.thy ===== *)
theory RT_Prelude
  imports Main "HOL-Library.Word" "HOL-Library.Monad_Syntax"
begin

text \<open>
  What every theory of this library shares: the machine integers of \<^verbatim>\<open>include/rtdef.h\<close>, its error
  codes, the result type of an operation that may never return to its caller, and the lemma
  collections the component proofs are run with.

  An operation of the kernel is a function into \<^typ>\<open>'a option\<close>. \<^const>\<open>None\<close> is the run that
  never comes back to its caller: a failed \<^verbatim>\<open>RT_ASSERT\<close> (which spins forever), the endless loop of
  the stack check, or an access the C code leaves undefined (an array index out of range, the
  container of an empty list). \<^const>\<open>Some\<close> carries the state after the call. \<open>returns m Q\<close> says
  that \<open>m\<close> does come back and that what it returns satisfies \<open>Q\<close>; every statement about an
  operation is made with it, so none holds only because the operation hangs.
\<close>

unbundle bit_operations_syntax

section \<open>Machine integers and error codes\<close>

type_synonym u8 = "8 word"
type_synonym u16 = "16 word"
type_synonym u32 = "32 word"

type_synonym rt_err = int

definition RT_EOK :: rt_err where "RT_EOK = 0"
definition RT_ERROR :: rt_err where "RT_ERROR = 1"
definition RT_ETIMEOUT :: rt_err where "RT_ETIMEOUT = 2"
definition RT_EFULL :: rt_err where "RT_EFULL = 3"
definition RT_EEMPTY :: rt_err where "RT_EEMPTY = 4"
definition RT_ENOMEM :: rt_err where "RT_ENOMEM = 5"

lemmas rt_err_defs = RT_EOK_def RT_ERROR_def RT_ETIMEOUT_def RT_EFULL_def RT_EEMPTY_def
  RT_ENOMEM_def

definition RT_TICK_MAX :: u32 where "RT_TICK_MAX = 0xffffffff"

definition RT_ALIGN :: "u32 \<Rightarrow> u32 \<Rightarrow> u32" where
  "RT_ALIGN sz align = (sz + align - 1) AND NOT (align - 1)"

definition RT_ALIGN_DOWN :: "u32 \<Rightarrow> u32 \<Rightarrow> u32" where
  "RT_ALIGN_DOWN sz align = sz AND NOT (align - 1)"

text \<open>The build's value of \<^verbatim>\<open>RT_ALIGN_SIZE\<close> (bsp/stm32f10x/rtconfig.h).\<close>

definition RT_ALIGN_SIZE :: u32 where "RT_ALIGN_SIZE = 4"

lemma tick_half: "RT_TICK_MAX div 2 = 0x7fffffff"
  by (simp add: RT_TICK_MAX_def)

section \<open>Operations that may not return\<close>

definition rt_assert :: "bool \<Rightarrow> unit option" where
  "rt_assert b = (if b then Some () else None)"

definition returns :: "'a option \<Rightarrow> ('a \<Rightarrow> bool) \<Rightarrow> bool" where
  "returns m Q = (case m of None \<Rightarrow> False | Some x \<Rightarrow> Q x)"

lemma returns_simps [simp]:
  "returns (Some x) Q = Q x"
  "returns None Q = False"
  by (simp_all add: returns_def)

lemma returns_bind [simp]: "returns (m \<bind> f) Q = returns m (\<lambda>x. returns (f x) Q)"
  by (cases m) simp_all

lemma returns_assert [simp]: "returns (rt_assert b) Q = (b \<and> Q ())"
  by (simp add: rt_assert_def)

lemma rt_assert_simps [simp]: "rt_assert True = Some ()" "rt_assert False = None"
  by (simp_all add: rt_assert_def)

lemma returns_if [simp]:
  "returns (if b then m else m') Q = (if b then returns m Q else returns m' Q)"
  by simp

lemma returns_mono: "returns m P \<Longrightarrow> (\<And>x. P x \<Longrightarrow> Q x) \<Longrightarrow> returns m Q"
  by (cases m) auto

lemma returns_conj: "returns m (\<lambda>x. P x \<and> Q x) \<longleftrightarrow> returns m P \<and> returns m Q"
  by (cases m) auto

lemma returns_iff: "returns m Q \<longleftrightarrow> (\<exists>x. m = Some x \<and> Q x)"
  by (cases m) auto

lemma returns_SomeI: "m = Some x \<Longrightarrow> Q x \<Longrightarrow> returns m Q"
  by simp

lemma returnsE:
  assumes "returns m Q"
  obtains x where "m = Some x" and "Q x"
  using assms by (cases m) auto

section \<open>Lists\<close>

lemma distinct_removeAll' [simp]: "distinct xs \<Longrightarrow> distinct (removeAll x xs)"
  by (simp add: distinct_removeAll)

lemma removeAll_Cons_distinct: "distinct (x # xs) \<Longrightarrow> removeAll x (x # xs) = xs"
  by (simp add: removeAll_id)

lemma removeAll_filter: "removeAll x xs = filter (\<lambda>y. y \<noteq> x) xs"
  by (induction xs) auto

lemma sorted_wrt_removeAll: "sorted_wrt P xs \<Longrightarrow> sorted_wrt P (removeAll x xs)"
  by (simp add: removeAll_filter sorted_wrt_filter)

lemma sorted_map_removeAll: "sorted (map f xs) \<Longrightarrow> sorted (map f (removeAll x xs))"
  by (simp add: sorted_map sorted_wrt_removeAll)

lemma removeAll_eq_Nil_conv: "removeAll x xs = [] \<longleftrightarrow> set xs \<subseteq> {x}"
  by (induction xs) auto

lemma drop_nth:
  assumes "i < length xs" and "distinct xs"
  shows "distinct (take i xs @ drop (Suc i) xs)" and "set (take i xs @ drop (Suc i) xs) = set xs - {xs ! i}"
proof -
  have e: "take i xs @ xs ! i # drop (Suc i) xs = xs" using id_take_nth_drop [OF assms(1)] by (rule sym)
  have d: "distinct (take i xs @ xs ! i # drop (Suc i) xs)" unfolding e by (rule assms(2))
  have s: "set xs = set (take i xs @ xs ! i # drop (Suc i) xs)" unfolding e by (rule refl)
  show "distinct (take i xs @ drop (Suc i) xs)" using d by auto
  show "set (take i xs @ drop (Suc i) xs) = set xs - {xs ! i}" unfolding s using d by auto
qed

lemma take_take_prefix:
  assumes "take (length a) d = a" and "n \<le> length d"
  shows "take (length a) (take n d) = take (length (take n d)) a"
proof -
  have "take n a = take n (take (length a) d)" by (simp add: assms(1))
  then show ?thesis using assms(2) by (simp add: take_take min.commute min.absorb2)
qed

section \<open>Words\<close>

lemma bit_and_not_push_bit:
  fixes w :: "'a::len word"
  assumes "m < LENGTH('a)"
  shows "bit (w AND NOT (push_bit m 1)) n \<longleftrightarrow> bit w n \<and> n \<noteq> m"
  using assms bit_imp_le_length [of w n] by (auto simp: bit_simps)

lemma bit_or_push_bit:
  fixes w :: "'a::len word"
  assumes "m < LENGTH('a)"
  shows "bit (w OR push_bit m 1) n \<longleftrightarrow> bit w n \<or> n = m"
  using assms by (auto simp: bit_simps)

lemma word_and_1_bit: "(w AND 1 \<noteq> 0) = bit (w :: 'a::len word) 0"
  by (simp add: bit_0 and_one_eq odd_iff_mod_2_eq_one)

lemma unat_sub_of_le: "(b :: 'a::len word) \<le> a \<Longrightarrow> unat (a - b) = unat a - unat b"
  by (simp add: unat_sub)

lemma unat_u16: "unat (w :: u16) < 2 ^ 16"
proof -
  have "unat w < 2 ^ LENGTH(16)" by (rule unsigned_less)
  then show ?thesis by simp
qed

lemma unat_u16_u32 [simp]: "unat (ucast (w :: u16) :: u32) = unat w"
proof -
  have "unat w < 2 ^ 32" using unat_u16 [of w] by simp
  then show ?thesis by (simp add: unsigned_ucast_eq take_bit_nat_eq_self)
qed

end
