(* ===== verification/RT_List.thy ===== *)
theory RT_List
  imports RT_Prelude
begin

text \<open>
  The intrusive doubly linked lists of \<^verbatim>\<open>include/rtservice.h\<close>, on which every queue of the kernel
  is built: the ready queues, the queues of threads waiting for an IPC object, the defunct list,
  the timer list and the object containers.

  The first half is the code: a heap of nodes with a \<open>next\<close> and a \<open>prev\<close> pointer, and the five
  inline functions that read and write it. A node is either the head of a list or the link field
  embedded in an item. The second half is what the rest of the kernel model uses: a table that
  gives, for each head, the list of its items, with the operations of the kernel on such tables.
  \<open>rep L T\<close> relates the two, and every pointer operation is shown to implement its table
  operation under it. The contract is the locale \<open>intrusive_lists\<close>; the pointer implementation is
  one interpretation, the tables of the kernel record are another (theory RT_State).
\<close>

section \<open>The code: circular lists of nodes\<close>

datatype ('h, 't) lnode = Head 'h | Item 't

record ('h, 't) links =
  lnext :: "('h, 't) lnode \<Rightarrow> ('h, 't) lnode"
  lprev :: "('h, 't) lnode \<Rightarrow> ('h, 't) lnode"

definition rt_list_init :: "('h, 't) lnode \<Rightarrow> ('h, 't) links \<Rightarrow> ('h, 't) links" where
  "rt_list_init l L = L\<lparr>lnext := (lnext L)(l := l), lprev := (lprev L)(l := l)\<rparr>"

definition rt_list_insert_after ::
  "('h, 't) lnode \<Rightarrow> ('h, 't) lnode \<Rightarrow> ('h, 't) links \<Rightarrow> ('h, 't) links" where
  "rt_list_insert_after l n L =
     (let L1 = L\<lparr>lprev := (lprev L)(lnext L l := n)\<rparr>;
          L2 = L1\<lparr>lnext := (lnext L1)(n := lnext L1 l)\<rparr>;
          L3 = L2\<lparr>lnext := (lnext L2)(l := n)\<rparr>
      in L3\<lparr>lprev := (lprev L3)(n := l)\<rparr>)"

definition rt_list_insert_before ::
  "('h, 't) lnode \<Rightarrow> ('h, 't) lnode \<Rightarrow> ('h, 't) links \<Rightarrow> ('h, 't) links" where
  "rt_list_insert_before l n L =
     (let L1 = L\<lparr>lnext := (lnext L)(lprev L l := n)\<rparr>;
          L2 = L1\<lparr>lprev := (lprev L1)(n := lprev L1 l)\<rparr>;
          L3 = L2\<lparr>lprev := (lprev L2)(l := n)\<rparr>
      in L3\<lparr>lnext := (lnext L3)(n := l)\<rparr>)"

definition rt_list_remove :: "('h, 't) lnode \<Rightarrow> ('h, 't) links \<Rightarrow> ('h, 't) links" where
  "rt_list_remove n L =
     (let L1 = L\<lparr>lprev := (lprev L)(lnext L n := lprev L n)\<rparr>;
          L2 = L1\<lparr>lnext := (lnext L1)(lprev L1 n := lnext L1 n)\<rparr>
      in L2\<lparr>lnext := (lnext L2)(n := n), lprev := (lprev L2)(n := n)\<rparr>)"

definition rt_list_isempty :: "('h, 't) lnode \<Rightarrow> ('h, 't) links \<Rightarrow> bool" where
  "rt_list_isempty l L \<longleftrightarrow> lnext L l = l"

section \<open>Tables of lists\<close>

type_synonym ('h, 't) ltab = "'h \<Rightarrow> 't list"

definition ins_tail :: "'h \<Rightarrow> 't \<Rightarrow> ('h, 't) ltab \<Rightarrow> ('h, 't) ltab" where
  "ins_tail h n T = T(h := T h @ [n])"

definition ins_head :: "'h \<Rightarrow> 't \<Rightarrow> ('h, 't) ltab \<Rightarrow> ('h, 't) ltab" where
  "ins_head h n T = T(h := n # T h)"

definition unlink :: "'t \<Rightarrow> ('h, 't) ltab \<Rightarrow> ('h, 't) ltab" where
  "unlink n T = (\<lambda>h. removeAll n (T h))"

text \<open>\<^verbatim>\<open>rt_list_insert_before(&m, &n)\<close> for an item \<open>m\<close> of the list.\<close>

fun before_item :: "'t \<Rightarrow> 't \<Rightarrow> 't list \<Rightarrow> 't list" where
  "before_item m n [] = []"
| "before_item m n (x # xs) = (if x = m then n # x # xs else x # before_item m n xs)"

fun after_item :: "'t \<Rightarrow> 't \<Rightarrow> 't list \<Rightarrow> 't list" where
  "after_item m n [] = []"
| "after_item m n (x # xs) = (if x = m then x # n # xs else x # after_item m n xs)"

text \<open>An item is on one list at most, and once: the well-formedness of a table.\<close>

definition wf_ltab :: "('h, 't) ltab \<Rightarrow> bool" where
  "wf_ltab T \<longleftrightarrow>
     (\<forall>h. distinct (T h)) \<and> (\<forall>h h' n. n \<in> set (T h) \<longrightarrow> n \<in> set (T h') \<longrightarrow> h = h')"

definition unlinked :: "'t \<Rightarrow> ('h, 't) ltab \<Rightarrow> bool" where
  "unlinked n T \<longleftrightarrow> (\<forall>h. n \<notin> set (T h))"

lemma ins_tail_apply [simp]: "ins_tail h n T h' = (if h' = h then T h @ [n] else T h')"
  by (simp add: ins_tail_def)

lemma ins_head_apply [simp]: "ins_head h n T h' = (if h' = h then n # T h else T h')"
  by (simp add: ins_head_def)

lemma unlink_apply [simp]: "unlink n T h = removeAll n (T h)"
  by (simp add: unlink_def)

lemma unlinked_unlink [simp]: "unlinked n (unlink n T)"
  by (simp add: unlinked_def)

lemma unlink_unlinked: "unlinked n T \<Longrightarrow> unlink n T = T"
  by (auto simp: unlinked_def unlink_def removeAll_id)

lemma wf_ltab_unlink: "wf_ltab T \<Longrightarrow> wf_ltab (unlink n T)"
  by (auto simp: wf_ltab_def)

lemma unlink_eta [simp]:
  "unlinked n (\<lambda>h. removeAll n (T h))" "wf_ltab T \<Longrightarrow> wf_ltab (\<lambda>h. removeAll n (T h))"
  using unlinked_unlink [of n T] wf_ltab_unlink [of T n] by (simp_all add: unlink_def)

lemma wf_ltab_ins_tail: "wf_ltab T \<Longrightarrow> unlinked n T \<Longrightarrow> wf_ltab (ins_tail h n T)"
  by (auto simp: wf_ltab_def unlinked_def split: if_splits)

lemma wf_ltab_ins_head: "wf_ltab T \<Longrightarrow> unlinked n T \<Longrightarrow> wf_ltab (ins_head h n T)"
  by (auto simp: wf_ltab_def unlinked_def split: if_splits)

lemma set_before_item [simp]:
  "set (before_item m n xs) = (if m \<in> set xs then insert n (set xs) else set xs)"
  by (induction xs) auto

lemma set_after_item [simp]:
  "set (after_item m n xs) = (if m \<in> set xs then insert n (set xs) else set xs)"
  by (induction xs) auto

lemma distinct_before_item: "distinct xs \<Longrightarrow> n \<notin> set xs \<Longrightarrow> distinct (before_item m n xs)"
  by (induction xs) auto

lemma distinct_after_item: "distinct xs \<Longrightarrow> n \<notin> set xs \<Longrightarrow> distinct (after_item m n xs)"
  by (induction xs) auto

lemma before_item_split: "m \<notin> set xs \<Longrightarrow> before_item m n (xs @ m # ys) = xs @ n # m # ys"
  by (induction xs) auto

lemma after_item_split: "m \<notin> set xs \<Longrightarrow> after_item m n (xs @ m # ys) = xs @ m # n # ys"
  by (induction xs) auto

lemma wf_ltab_upd:
  assumes "wf_ltab T" and "unlinked n T" and "distinct xs" and "set xs \<subseteq> insert n (set (T h))"
  shows "wf_ltab (T(h := xs))"
  using assms by (fastforce simp: wf_ltab_def unlinked_def split: if_splits)


section \<open>The pointers represent the table\<close>

fun seg :: "('h, 't) links \<Rightarrow> ('h, 't) lnode \<Rightarrow> ('h, 't) lnode list \<Rightarrow> ('h, 't) lnode \<Rightarrow> bool" where
  "seg L a [] b \<longleftrightarrow> lnext L a = b \<and> lprev L b = a"
| "seg L a (x # xs) b \<longleftrightarrow> lnext L a = x \<and> lprev L x = a \<and> seg L x xs b"

definition rep :: "('h, 't) links \<Rightarrow> ('h, 't) ltab \<Rightarrow> bool" where
  "rep L T \<longleftrightarrow> wf_ltab T \<and> (\<forall>h. seg L (Head h) (map Item (T h)) (Head h)) \<and>
     (\<forall>n. unlinked n T \<longrightarrow> lnext L (Item n) = Item n \<and> lprev L (Item n) = Item n)"

lemma seg_append [simp]: "seg L a (us @ y # ys) b \<longleftrightarrow> seg L a us y \<and> seg L y ys b"
  by (induction us arbitrary: a) auto

lemma seg_cong:
  assumes "\<And>x. x \<in> set (a # xs) \<Longrightarrow> lnext L' x = lnext L x"
    and "\<And>x. x \<in> set (xs @ [b]) \<Longrightarrow> lprev L' x = lprev L x"
  shows "seg L' a xs b = seg L a xs b"
  using assms by (induction xs arbitrary: a) auto

lemma seg_first: "seg L a xs b \<Longrightarrow> lnext L a = hd (xs @ [b])"
  by (cases xs) auto

lemma seg_last: "seg L a xs b \<Longrightarrow> lprev L b = last (a # xs)"
  by (induction xs arbitrary: a) auto

lemma rt_list_remove_segs:
  assumes "seg L a us n" and "seg L n vs b" and "distinct (a # us @ n # vs)" and "b \<notin> set (us @ n # vs)"
  shows "seg (rt_list_remove n L) a (us @ vs) b"
proof -
  have n: "lnext L n = hd (vs @ [b])" "lprev L n = last (a # us)"
    using assms(1,2) by (simp_all add: seg_first seg_last)
  let ?L = "rt_list_remove n L"
  have nx: "lnext ?L x = (if x = n then n else if x = last (a # us) then hd (vs @ [b]) else lnext L x)" for x
    using assms(3,4) by (cases vs) (auto simp: rt_list_remove_def Let_def n)
  have pv: "lprev ?L x = (if x = n then n else if x = hd (vs @ [b]) then last (a # us) else lprev L x)" for x
    using assms(3,4) by (auto simp: rt_list_remove_def Let_def n)
  show ?thesis
  proof (cases us rule: rev_cases)
    case Nil
    show ?thesis
    proof (cases vs)
      case Nil' : Nil
      with \<open>us = []\<close> assms show ?thesis by (auto simp: nx pv)
    next
      case (Cons v vs')
      have "seg ?L v vs' b = seg L v vs' b"
        by (rule seg_cong) (use assms(3,4) Nil Cons in \<open>auto simp: nx pv\<close>)
      with Nil Cons assms show ?thesis by (auto simp: nx pv)
    qed
  next
    case (snoc us' u)
    have 1: "seg ?L a us' u"
    proof -
      have "seg ?L a us' u = seg L a us' u"
        by (rule seg_cong) (use assms(3,4) snoc in \<open>cases vs; auto simp: nx pv\<close>)+
      with assms(1) snoc show ?thesis by simp
    qed
    have 2: "seg ?L u vs b"
    proof (cases vs)
      case Nil
      with snoc assms show ?thesis by (auto simp: nx pv)
    next
      case (Cons v vs')
      have "seg ?L v vs' b = seg L v vs' b"
        by (rule seg_cong) (use assms(3,4) snoc Cons in \<open>auto simp: nx pv\<close>)
      with Cons assms snoc show ?thesis by (auto simp: nx pv)
    qed
    from 1 2 snoc show ?thesis by simp
  qed
qed


lemma rt_list_insert_after_segs:
  assumes "seg L a (us @ vs) b" and "p = last (a # us)" and "n \<notin> set (a # us @ vs @ [b])"
    and "distinct (a # us @ vs)" and "b \<notin> set (us @ vs)"
  shows "seg (rt_list_insert_after p n L) a (us @ n # vs) b"
proof -
  have p: "lnext L p = hd (vs @ [b])"
  proof (cases us rule: rev_cases)
    case Nil
    with assms(1,2) show ?thesis by (simp add: seg_first)
  next
    case (snoc us' u)
    with assms(1,2) show ?thesis by (simp add: seg_first)
  qed
  have pn: "p \<noteq> n" and hn: "hd (vs @ [b]) \<noteq> n"
    using assms(2,3) by (cases vs; auto)+
  have pvs: "p \<notin> set vs"
    using assms(2,4) by (cases us rule: rev_cases) auto
  let ?L = "rt_list_insert_after p n L"
  have nx: "lnext ?L x = (if x = p then n else if x = n then hd (vs @ [b]) else lnext L x)" for x
    using pn by (auto simp: rt_list_insert_after_def Let_def p)
  have pv: "lprev ?L x = (if x = n then p else if x = hd (vs @ [b]) then n else lprev L x)" for x
    using pn by (auto simp: rt_list_insert_after_def Let_def p)
  have 2: "seg ?L n vs b"
  proof (cases vs)
    case Nil
    with pn hn show ?thesis by (simp add: nx pv)
  next
    case (Cons v vs')
    have "seg ?L v vs' b = seg L v vs' b"
      by (rule seg_cong) (use pvs assms(3-5) Cons in \<open>auto simp: nx pv split: if_splits\<close>)
    moreover have "seg L v vs' b" using assms(1) Cons by simp
    ultimately show ?thesis using Cons pn hn by (auto simp: nx pv)
  qed
  show ?thesis
  proof (cases us rule: rev_cases)
    case Nil
    then have "a = p" using assms(2) by simp
    with 2 Nil pn show ?thesis by (simp add: nx pv)
  next
    case (snoc us' u)
    then have u: "u = p" using assms(2) by simp
    have "seg ?L a us' p = seg L a us' p"
      by (rule seg_cong) (use assms(3-5) snoc u in \<open>cases vs; auto simp: nx pv\<close>)+
    with 2 snoc assms(1) u pn show ?thesis by (cases us') (auto simp: nx pv)
  qed
qed

text \<open>Inserting before \<open>l\<close> is inserting after its predecessor.\<close>

lemma rt_list_insert_before_after:
  assumes "lnext L (lprev L l) = l" and "n \<noteq> l" and "n \<noteq> lprev L l"
  shows "rt_list_insert_before l n L = rt_list_insert_after (lprev L l) n L"
  using assms
  by (auto simp: rt_list_insert_before_def rt_list_insert_after_def Let_def fun_eq_iff)

section \<open>Every pointer operation implements its table operation\<close>

lemma repD:
  assumes "rep L T"
  shows "wf_ltab T" and "seg L (Head h) (map Item (T h)) (Head h)"
    and "unlinked n T \<Longrightarrow> lnext L (Item n) = Item n" and "unlinked n T \<Longrightarrow> lprev L (Item n) = Item n"
  using assms by (auto simp: rep_def)

text \<open>A change confined to the ring of \<open>h\<close> and to \<open>n\<close> leaves every other ring alone.\<close>

lemma rep_frame:
  assumes "rep L T" and "wf_ltab (T(h := xs))" and "seg L' (Head h) (map Item xs) (Head h)"
    and "\<And>x. x \<notin> insert (Item n) (insert (Head h) (Item ` set (T h))) \<Longrightarrow>
           lnext L' x = lnext L x \<and> lprev L' x = lprev L x"
    and "set xs \<union> {n} = set (T h) \<union> {n}"
    and "\<And>h'. h' \<noteq> h \<Longrightarrow> n \<notin> set (T h')"
    and "n \<notin> set xs \<Longrightarrow> lnext L' (Item n) = Item n \<and> lprev L' (Item n) = Item n"
  shows "rep L' (T(h := xs))"
  unfolding rep_def
proof (intro conjI allI impI)
  show "wf_ltab (T(h := xs))" by fact
next
  fix h'
  show "seg L' (Head h') (map Item ((T(h := xs)) h')) (Head h')"
  proof (cases "h' = h")
    case True
    with assms(3) show ?thesis by simp
  next
    case False
    have disj: "m \<notin> set (T h)" if "m \<in> set (T h')" for m
      using repD(1)[OF assms(1)] that False by (auto simp: wf_ltab_def)
    have "seg L' (Head h') (map Item (T h')) (Head h') = seg L (Head h') (map Item (T h')) (Head h')"
      by (rule seg_cong; rule conjunct1 [OF assms(4)] conjunct2 [OF assms(4)])
        (use disj assms(6) [OF False] False in auto)
    with False repD(2)[OF assms(1)] show ?thesis by simp
  qed
next
  fix m assume m: "unlinked m (T(h := xs))"
  then have mx: "m \<notin> set xs" by (auto simp: unlinked_def dest: spec [of _ h])
  have *: "lnext L' (Item m) = Item m \<and> lprev L' (Item m) = Item m"
  proof (cases "m = n")
    case True
    with mx assms(7) show ?thesis by simp
  next
    case False
    with mx assms(5) have "m \<notin> set (T h)" by blast
    with m have "unlinked m T" by (auto simp: unlinked_def split: if_splits)
    with False \<open>m \<notin> set (T h)\<close> assms(4) [of "Item m"] repD(3,4)[OF assms(1)] show ?thesis by auto
  qed
  then show "lnext L' (Item m) = Item m" and "lprev L' (Item m) = Item m" by auto
qed


lemma rt_list_insert_after_frame:
  assumes "x \<noteq> n" and "x \<noteq> p" and "x \<noteq> lnext L p"
  shows "lnext (rt_list_insert_after p n L) x = lnext L x"
    and "lprev (rt_list_insert_after p n L) x = lprev L x"
  using assms by (auto simp: rt_list_insert_after_def Let_def)

text \<open>Insertion of an unlinked item between two neighbours of the ring of \<open>h\<close>.\<close>

lemma rep_insert_between:
  assumes "rep L T" and "unlinked n T" and "T h = us @ vs" and "p = last (Head h # map Item us)"
  shows "rep (rt_list_insert_after p (Item n) L) (T(h := us @ n # vs))"
proof (rule rep_frame [OF assms(1)])
  have d: "distinct (T h)" using repD(1)[OF assms(1)] by (simp add: wf_ltab_def)
  have nh: "n \<notin> set (T h')" for h' using assms(2) by (simp add: unlinked_def)
  show "wf_ltab (T(h := us @ n # vs))"
    by (rule wf_ltab_upd [OF repD(1)[OF assms(1)] assms(2)]) (use d nh [of h] assms(3) in auto)
  have seg: "seg L (Head h) (map Item us @ map Item vs) (Head h)"
    using repD(2)[OF assms(1), of h] assms(3) by simp
  have "seg (rt_list_insert_after p (Item n) L) (Head h) (map Item us @ Item n # map Item vs) (Head h)"
    by (rule rt_list_insert_after_segs [OF seg])
      (use d nh [of h] assms(3,4) in \<open>auto simp: distinct_map inj_on_def\<close>)
  then show "seg (rt_list_insert_after p (Item n) L) (Head h) (map Item (us @ n # vs)) (Head h)" by simp
  have pin: "p \<in> insert (Head h) (Item ` set (T h))"
    using assms(3,4) by (cases us rule: rev_cases) auto
  have "lnext L p = hd (map Item vs @ [Head h])"
    using seg assms(4) by (cases us rule: rev_cases) (auto dest: seg_first)
  then have nin: "lnext L p \<in> insert (Head h) (Item ` set (T h))"
    using assms(3) by (cases vs) auto
  fix x assume "x \<notin> insert (Item n) (insert (Head h) (Item ` set (T h)))"
  with pin nin show "lnext (rt_list_insert_after p (Item n) L) x = lnext L x \<and>
      lprev (rt_list_insert_after p (Item n) L) x = lprev L x"
    using rt_list_insert_after_frame [of x "Item n" p L] by (metis insertCI)
qed (use assms(2,3) in \<open>auto simp: unlinked_def\<close>)

lemma rep_prev:
  assumes "rep L T" and "T h = us @ m # vs"
  shows "lprev L (Item m) = last (Head h # map Item us)" and "lnext L (lprev L (Item m)) = Item m"
proof -
  have "seg L (Head h) (map Item us) (Item m)"
    using repD(2)[OF assms(1), of h] assms(2) by simp
  then show "lprev L (Item m) = last (Head h # map Item us)" and "lnext L (lprev L (Item m)) = Item m"
    by (auto simp: seg_last dest: seg_first split: if_splits)
      (cases us rule: rev_cases; auto dest: seg_first)+
qed

lemma rep_prev_head:
  assumes "rep L T"
  shows "lprev L (Head h) = last (Head h # map Item (T h))" and "lnext L (lprev L (Head h)) = Head h"
proof -
  have seg: "seg L (Head h) (map Item (T h)) (Head h)" by (rule repD(2)[OF assms])
  then show "lprev L (Head h) = last (Head h # map Item (T h))" by (rule seg_last)
  with seg show "lnext L (lprev L (Head h)) = Head h"
    by (cases "T h" rule: rev_cases) (auto dest: seg_first)
qed

theorem rep_insert_after_head:
  "rep L T \<Longrightarrow> unlinked n T \<Longrightarrow> rep (rt_list_insert_after (Head h) (Item n) L) (ins_head h n T)"
  using rep_insert_between [of L T n h "[]" "T h" "Head h"] by (simp add: ins_head_def)

theorem rep_insert_before_head:
  assumes "rep L T" and "unlinked n T"
  shows "rep (rt_list_insert_before (Head h) (Item n) L) (ins_tail h n T)"
proof -
  have "Item n \<noteq> lprev L (Head h)"
    using rep_prev_head(1)[OF assms(1), of h] assms(2)
    by (cases "T h" rule: rev_cases) (auto simp: unlinked_def dest: spec [of _ h])
  then have "rt_list_insert_before (Head h) (Item n) L = rt_list_insert_after (lprev L (Head h)) (Item n) L"
    by (intro rt_list_insert_before_after rep_prev_head(2)[OF assms(1)]) auto
  then show ?thesis
    using rep_insert_between [OF assms, of h "T h" "[]"] rep_prev_head(1)[OF assms(1), of h]
    by (simp add: ins_tail_def)
qed

theorem rep_insert_before_item:
  assumes "rep L T" and "unlinked n T" and "m \<in> set (T h)"
  shows "rep (rt_list_insert_before (Item m) (Item n) L) (T(h := before_item m n (T h)))"
proof -
  obtain us vs where Th: "T h = us @ m # vs" and m: "m \<notin> set us"
    using assms(3) by (auto dest: split_list_first)
  have n: "n \<notin> set (us @ m # vs)" using assms(2) Th by (auto simp: unlinked_def dest: spec [of _ h])
  then have "Item m \<noteq> Item n" and "Item n \<noteq> lprev L (Item m)"
    using rep_prev(1)[OF assms(1) Th] by (auto, cases us rule: rev_cases) auto
  then have "rt_list_insert_before (Item m) (Item n) L = rt_list_insert_after (lprev L (Item m)) (Item n) L"
    by (intro rt_list_insert_before_after rep_prev(2)[OF assms(1) Th]) auto
  then show ?thesis
    using rep_insert_between [OF assms(1,2), of h us "m # vs"] rep_prev(1)[OF assms(1) Th] Th m
    by (simp add: before_item_split)
qed

theorem rep_insert_after_item:
  assumes "rep L T" and "unlinked n T" and "m \<in> set (T h)"
  shows "rep (rt_list_insert_after (Item m) (Item n) L) (T(h := after_item m n (T h)))"
proof -
  obtain us vs where Th: "T h = us @ m # vs" and m: "m \<notin> set us"
    using assms(3) by (auto dest: split_list_first)
  then show ?thesis
    using rep_insert_between [OF assms(1,2), of h "us @ [m]" vs] by (simp add: after_item_split)
qed


lemma rt_list_remove_self:
  "lnext L n = n \<Longrightarrow> lprev L n = n \<Longrightarrow> rt_list_remove n L = L"
  by (auto simp: rt_list_remove_def Let_def fun_upd_idem)

lemma rt_list_remove_frame:
  assumes "x \<noteq> n" and "x \<noteq> lprev L n" and "x \<noteq> lnext L n" and "lnext L n \<noteq> n"
  shows "lnext (rt_list_remove n L) x = lnext L x" and "lprev (rt_list_remove n L) x = lprev L x"
  using assms by (auto simp: rt_list_remove_def Let_def)

lemma unlink_at:
  assumes "wf_ltab T" and "n \<in> set (T h)"
  shows "unlink n T = T(h := removeAll n (T h))"
proof
  fix h'
  have "n \<notin> set (T h')" if "h' \<noteq> h" using assms that by (auto simp: wf_ltab_def)
  then show "unlink n T h' = (T(h := removeAll n (T h))) h'" by (simp add: removeAll_id)
qed

theorem rep_remove:
  assumes "rep L T"
  shows "rep (rt_list_remove (Item n) L) (unlink n T)"
proof (cases "unlinked n T")
  case True
  with assms show ?thesis by (simp add: repD(3,4) rt_list_remove_self unlink_unlinked)
next
  case False
  then obtain h where "n \<in> set (T h)" by (auto simp: unlinked_def)
  then obtain us vs where Th: "T h = us @ n # vs" by (auto dest: split_list)
  have d: "distinct (us @ n # vs)" using repD(1)[OF assms] Th by (metis wf_ltab_def)
  have rm: "removeAll n (T h) = us @ vs" using Th d by (simp add: removeAll_id)
  have seg: "seg L (Head h) (map Item us) (Item n)" "seg L (Item n) (map Item vs) (Head h)"
    using repD(2)[OF assms, of h] Th by simp_all
  have pn: "lprev L (Item n) = last (Head h # map Item us)" "lnext L (Item n) = hd (map Item vs @ [Head h])"
    using seg by (simp_all add: seg_first seg_last)
  have pn_in: "lprev L (Item n) \<in> insert (Head h) (Item ` set (T h))"
    "lnext L (Item n) \<in> insert (Head h) (Item ` set (T h))" "lnext L (Item n) \<noteq> Item n"
    using pn Th d by ((cases us rule: rev_cases; auto), (cases vs; auto)+)
  have "rep (rt_list_remove (Item n) L) (T(h := us @ vs))"
  proof (rule rep_frame [OF assms, where n = n])
    show "wf_ltab (T(h := us @ vs))"
      using wf_ltab_unlink [OF repD(1)[OF assms], of n] unlink_at [OF repD(1)[OF assms] \<open>n \<in> set (T h)\<close>] rm
      by simp
    have "seg (rt_list_remove (Item n) L) (Head h) (map Item us @ map Item vs) (Head h)"
      by (rule rt_list_remove_segs [OF seg]) (use d in \<open>auto simp: distinct_map inj_on_def\<close>)
    then show "seg (rt_list_remove (Item n) L) (Head h) (map Item (us @ vs)) (Head h)" by simp
    fix x assume "x \<notin> insert (Item n) (insert (Head h) (Item ` set (T h)))"
    with pn_in show "lnext (rt_list_remove (Item n) L) x = lnext L x \<and>
        lprev (rt_list_remove (Item n) L) x = lprev L x"
      by (intro conjI rt_list_remove_frame) auto
  next
    show "\<And>h'. h' \<noteq> h \<Longrightarrow> n \<notin> set (T h')"
      using repD(1)[OF assms] \<open>n \<in> set (T h)\<close> by (auto simp: wf_ltab_def)
  qed (use Th in \<open>auto simp: rt_list_remove_def Let_def\<close>)
  then show ?thesis
    by (simp add: unlink_at [OF repD(1)[OF assms] \<open>n \<in> set (T h)\<close>] rm)
qed

lemma rep_isempty: "rep L T \<Longrightarrow> rt_list_isempty (Head h) L \<longleftrightarrow> T h = []"
  using repD(2) [of L T h] by (cases "T h") (auto simp: rt_list_isempty_def)

lemma rep_first: "rep L T \<Longrightarrow> T h \<noteq> [] \<Longrightarrow> lnext L (Head h) = Item (hd (T h))"
  using repD(2) [of L T h] by (cases "T h") auto

text \<open>The test \<^verbatim>\<open>tlist.next != tlist.prev\<close> of \<^verbatim>\<open>rt_thread_yield\<close>: the item shares its list.\<close>

lemma rep_shared:
  assumes "rep L T" and "n \<in> set (T h)"
  shows "lnext L (Item n) \<noteq> lprev L (Item n) \<longleftrightarrow> 1 < length (T h)"
proof -
  obtain us vs where Th: "T h = us @ n # vs" using assms(2) by (auto dest: split_list)
  have d: "distinct (us @ n # vs)" using repD(1)[OF assms(1)] Th by (metis wf_ltab_def)
  have seg: "seg L (Head h) (map Item us) (Item n)" "seg L (Item n) (map Item vs) (Head h)"
    using repD(2)[OF assms(1), of h] Th by simp_all
  then have "lprev L (Item n) = last (Head h # map Item us)" "lnext L (Item n) = hd (map Item vs @ [Head h])"
    by (simp_all add: seg_first seg_last)
  with d Th show ?thesis by (cases us rule: rev_cases; cases vs) auto
qed

lemma rep_init_item: "rep L T \<Longrightarrow> unlinked n T \<Longrightarrow> rep (rt_list_init (Item n) L) T"
  by (auto simp: rt_list_init_def repD(3,4) fun_upd_idem)

section \<open>The contract of a table of lists\<close>

locale intrusive_lists =
  fixes rel :: "'s \<Rightarrow> ('h \<Rightarrow> 't list) \<Rightarrow> bool"
    and push_back :: "'h \<Rightarrow> 't \<Rightarrow> 's \<Rightarrow> 's"
    and push_front :: "'h \<Rightarrow> 't \<Rightarrow> 's \<Rightarrow> 's"
    and take_out :: "'t \<Rightarrow> 's \<Rightarrow> 's"
    and is_empty :: "'h \<Rightarrow> 's \<Rightarrow> bool"
    and front :: "'h \<Rightarrow> 's \<Rightarrow> 't"
  assumes rel_wf: "rel s T \<Longrightarrow> wf_ltab T"
    and rel_push_back: "rel s T \<Longrightarrow> unlinked n T \<Longrightarrow> rel (push_back h n s) (ins_tail h n T)"
    and rel_push_front: "rel s T \<Longrightarrow> unlinked n T \<Longrightarrow> rel (push_front h n s) (ins_head h n T)"
    and rel_take_out: "rel s T \<Longrightarrow> rel (take_out n s) (unlink n T)"
    and rel_is_empty: "rel s T \<Longrightarrow> is_empty h s \<longleftrightarrow> T h = []"
    and rel_front: "rel s T \<Longrightarrow> T h \<noteq> [] \<Longrightarrow> front h s = hd (T h)"
begin

text \<open>Taking the first item off and putting it back at the end: the round robin of a queue.\<close>

lemma rotate_queue:
  assumes "rel s T" and "T h = n # xs"
  shows "rel (push_back h n (take_out n s)) (T(h := xs @ [n]))"
proof -
  have "distinct (n # xs)" using rel_wf [OF assms(1)] assms(2) by (metis wf_ltab_def)
  then have "ins_tail h n (unlink n T) = T(h := xs @ [n])"
    using unlink_at [OF rel_wf [OF assms(1)], of n h] assms(2)
    by (auto simp: ins_tail_def removeAll_id)
  with rel_push_back [OF rel_take_out [OF assms(1)], of n n h] show ?thesis by simp
qed

lemma pop_front:
  assumes "rel s T" and "\<not> is_empty h s"
  shows "rel (take_out (front h s) s) (T(h := tl (T h)))"
proof -
  obtain n xs where Th: "T h = n # xs" using assms rel_is_empty by (cases "T h") auto
  then have "distinct (n # xs)" using rel_wf [OF assms(1)] by (metis wf_ltab_def)
  then have "unlink n T = T(h := xs)"
    using unlink_at [OF rel_wf [OF assms(1)], of n h] Th by (auto simp: removeAll_id)
  with rel_take_out [OF assms(1), of n] rel_front [OF assms(1), of h] Th show ?thesis by simp
qed

text \<open>A loop that pops while the list is not empty empties it, in as many rounds as it had items.\<close>

lemma drain_queue:
  "rel s T \<Longrightarrow> rel (((\<lambda>s. take_out (front h s) s) ^^ length (T h)) s) (T(h := []))"
proof (induction "T h" arbitrary: s T)
  case Nil
  then show ?case by (metis fun_upd_triv funpow_0 list.size(3))
next
  case (Cons n xs)
  then have "rel (take_out (front h s) s) (T(h := xs))"
    using pop_front [OF Cons.prems, of h] rel_is_empty [OF Cons.prems, of h]
    by (metis list.distinct(1) list.sel(3))
  from Cons.hyps(1) [OF _ this] Cons.hyps(2) [symmetric] show ?case
    by (simp del: funpow.simps add: funpow_Suc_right)
qed

end

text \<open>\<^verbatim>\<open>rt_list_entry\<close>: the container of a link. The container of a list head does not exist.\<close>

fun item_of :: "('h, 't) lnode \<Rightarrow> 't" where
  "item_of (Item n) = n"
| "item_of (Head h) = undefined"

interpretation ptr: intrusive_lists rep "\<lambda>h n. rt_list_insert_before (Head h) (Item n)"
  "\<lambda>h n. rt_list_insert_after (Head h) (Item n)" "\<lambda>n. rt_list_remove (Item n)"
  "\<lambda>h. rt_list_isempty (Head h)" "\<lambda>h L. item_of (lnext L (Head h))"
  by unfold_locales
    (auto simp: repD(1) rep_insert_before_head rep_insert_after_head rep_remove rep_isempty rep_first)

end
