(* ===== verification/RT_Kservice.thy ===== *)
theory RT_Kservice
  imports RT_Prelude
begin

text \<open>
  Find first set (\<^verbatim>\<open>__rt_ffs\<close> of src/kservice.c): the scheduler reads the highest ready priority off
  a 32-bit group word with it. The build does not define \<^verbatim>\<open>RT_USING_CPU_FFS\<close>, so the table version
  of kservice.c is the one linked. The function is shown equal to its documented meaning, the
  position of the least significant set bit counted from 1, and 0 for the zero word.
\<close>

definition lowest_bit_bitmap :: "nat list" where
  "lowest_bit_bitmap =
  [0, 0, 1, 0, 2, 0, 1, 0, 3, 0, 1, 0, 2, 0, 1, 0,
   4, 0, 1, 0, 2, 0, 1, 0, 3, 0, 1, 0, 2, 0, 1, 0,
   5, 0, 1, 0, 2, 0, 1, 0, 3, 0, 1, 0, 2, 0, 1, 0,
   4, 0, 1, 0, 2, 0, 1, 0, 3, 0, 1, 0, 2, 0, 1, 0,
   6, 0, 1, 0, 2, 0, 1, 0, 3, 0, 1, 0, 2, 0, 1, 0,
   4, 0, 1, 0, 2, 0, 1, 0, 3, 0, 1, 0, 2, 0, 1, 0,
   5, 0, 1, 0, 2, 0, 1, 0, 3, 0, 1, 0, 2, 0, 1, 0,
   4, 0, 1, 0, 2, 0, 1, 0, 3, 0, 1, 0, 2, 0, 1, 0,
   7, 0, 1, 0, 2, 0, 1, 0, 3, 0, 1, 0, 2, 0, 1, 0,
   4, 0, 1, 0, 2, 0, 1, 0, 3, 0, 1, 0, 2, 0, 1, 0,
   5, 0, 1, 0, 2, 0, 1, 0, 3, 0, 1, 0, 2, 0, 1, 0,
   4, 0, 1, 0, 2, 0, 1, 0, 3, 0, 1, 0, 2, 0, 1, 0,
   6, 0, 1, 0, 2, 0, 1, 0, 3, 0, 1, 0, 2, 0, 1, 0,
   4, 0, 1, 0, 2, 0, 1, 0, 3, 0, 1, 0, 2, 0, 1, 0,
   5, 0, 1, 0, 2, 0, 1, 0, 3, 0, 1, 0, 2, 0, 1, 0,
   4, 0, 1, 0, 2, 0, 1, 0, 3, 0, 1, 0, 2, 0, 1, 0]"

definition rt_ffs :: "u32 \<Rightarrow> nat" where
  "rt_ffs value =
     (if value = 0 then 0
      else if value AND 0xff \<noteq> 0 then lowest_bit_bitmap ! unat (value AND 0xff) + 1
      else if value AND 0xff00 \<noteq> 0
        then lowest_bit_bitmap ! unat (drop_bit 8 (value AND 0xff00)) + 9
      else if value AND 0xff0000 \<noteq> 0
        then lowest_bit_bitmap ! unat (drop_bit 16 (value AND 0xff0000)) + 17
      else lowest_bit_bitmap ! unat (drop_bit 24 (value AND 0xff000000)) + 25)"

text \<open>What the function is documented to return.\<close>

definition is_lowest_bit :: "u32 \<Rightarrow> nat \<Rightarrow> bool" where
  "is_lowest_bit w n \<longleftrightarrow> bit w n \<and> (\<forall>m<n. \<not> bit w m)"

lemma is_lowest_bit_unique: "is_lowest_bit w n \<Longrightarrow> is_lowest_bit w m \<Longrightarrow> n = m"
  by (auto simp: is_lowest_bit_def) (metis linorder_neqE_nat)

text \<open>The table holds the lowest set bit of every non-zero byte, checked entry by entry.\<close>

fun entries_ok :: "int \<Rightarrow> nat list \<Rightarrow> bool" where
  "entries_ok i [] \<longleftrightarrow> True"
| "entries_ok i (v # vs) \<longleftrightarrow> v < 8 \<and> 2 ^ v dvd i \<and> odd (i div 2 ^ v) \<and> entries_ok (i + 1) vs"

lemma entries_ok_nth:
  "entries_ok i vs \<Longrightarrow> n < length vs \<Longrightarrow>
     vs ! n < 8 \<and> 2 ^ (vs ! n) dvd (i + int n) \<and> odd ((i + int n) div 2 ^ (vs ! n))"
proof (induction vs arbitrary: i n)
  case (Cons v vs)
  then show ?case by (cases n) (force simp: ac_simps)+
qed simp

lemma bitmap_entries: "entries_ok 1 (tl lowest_bit_bitmap)"
  by (simp add: lowest_bit_bitmap_def)

lemma length_bitmap: "length lowest_bit_bitmap = 256"
  by (simp add: lowest_bit_bitmap_def)

lemma bitmap_byte:
  assumes "i \<noteq> 0" and "i < 256"
  shows "lowest_bit_bitmap ! i < 8" and "bit i (lowest_bit_bitmap ! i)"
    and "m < lowest_bit_bitmap ! i \<Longrightarrow> \<not> bit i m"
proof -
  let ?v = "lowest_bit_bitmap ! i"
  have v: "tl lowest_bit_bitmap ! (i - Suc 0) = ?v"
    using assms by (subst nth_tl) (auto simp: length_bitmap)
  have "?v < 8 \<and> 2 ^ ?v dvd int i \<and> odd (int i div 2 ^ ?v)"
    using entries_ok_nth [OF bitmap_entries, of "i - Suc 0"] assms by (simp add: length_bitmap v)
  then have *: "?v < 8" "2 ^ ?v dvd i" "odd (i div 2 ^ ?v)"
    by (simp_all add: of_nat_dvd_iff [symmetric, where 'a = int] zdiv_int even_of_nat_iff [symmetric, where 'a = int]
        del: of_nat_dvd_iff even_of_nat_iff)
  then show "?v < 8" and "bit i ?v" by (simp_all add: bit_iff_odd)
  assume "m < ?v"
  then obtain d where d: "?v = m + Suc d" by (metis less_iff_Suc_add add_Suc_right)
  from *(2) have "2 ^ m * (2 * 2 ^ d) dvd i" by (simp add: d power_add mult_ac)
  then obtain q where "i = 2 ^ m * (2 * 2 ^ d) * q" by (elim dvdE)
  then have "i = 2 ^ m * (2 * (2 ^ d * q))" by (simp add: mult_ac)
  then have "i div 2 ^ m = 2 * (2 ^ d * q)" by (metis nonzero_mult_div_cancel_left power_not_zero zero_neq_numeral)
  then show "\<not> bit i m" by (simp add: bit_iff_odd)
qed

text \<open>One byte of the word, at bit position \<open>s\<close>, with the bytes below it clear.\<close>

lemma byte_lowest:
  fixes w :: u32
  assumes b: "b = drop_bit s w AND 0xff" and "b \<noteq> 0" and low: "\<And>m. m < s \<Longrightarrow> \<not> bit w m" and "s \<le> 24"
  shows "is_lowest_bit w (lowest_bit_bitmap ! unat b + s)"
proof -
  have bb: "bit (unat b) n \<longleftrightarrow> bit w (n + s) \<and> n < 8" for n
  proof -
    have "bit (unat b) n = bit b n" by (simp add: bit_unsigned_iff)
    also have "\<dots> \<longleftrightarrow> bit w (s + n) \<and> bit (0xff :: u32) n" by (simp add: b bit_and_iff bit_drop_bit_eq)
    also have "bit (0xff :: u32) n \<longleftrightarrow> n < 8"
    proof -
      have "(0xff :: u32) = mask 8" by (simp add: mask_eq_exp_minus_1)
      then show ?thesis by (simp only: bit_mask_iff) auto
    qed
    finally show ?thesis by (simp add: add.commute)
  qed
  have "b \<le> 0xff" by (simp add: b word_and_le1)
  then have "unat b < 256" by (simp add: word_le_nat_alt)
  moreover have "unat b \<noteq> 0" using \<open>b \<noteq> 0\<close> by (simp add: unat_eq_0)
  ultimately have t: "lowest_bit_bitmap ! unat b < 8" "bit (unat b) (lowest_bit_bitmap ! unat b)"
    "\<And>m. m < lowest_bit_bitmap ! unat b \<Longrightarrow> \<not> bit (unat b) m"
    using bitmap_byte [of "unat b"] by auto
  show ?thesis
    unfolding is_lowest_bit_def
  proof (intro conjI allI impI)
    show "bit w (lowest_bit_bitmap ! unat b + s)" using t(2) bb by simp
    fix m assume m: "m < lowest_bit_bitmap ! unat b + s"
    show "\<not> bit w m"
    proof (cases "m < s")
      case False
      then obtain j where "m = j + s" by (metis add.commute le_Suc_ex not_less)
      with m t(1) t(3) [of j] bb [of j] show ?thesis by auto
    qed (use low in auto)
  qed
qed


lemma below_byte:
  fixes w :: u32
  assumes "drop_bit s w AND 0xff = 0" and "\<And>m. m < s \<Longrightarrow> \<not> bit w m" and "m < s + 8"
  shows "\<not> bit w m"
proof (cases "m < s")
  case False
  then obtain j where j: "m = s + j" "j < 8" using assms(3) by (metis add_less_cancel_left le_Suc_ex not_less)
  have "bit (0xff :: u32) j"
  proof -
    have "(0xff :: u32) = mask 8" by (simp add: mask_eq_exp_minus_1)
    then show ?thesis using j by (simp only: bit_mask_iff) auto
  qed
  with assms(1) have "\<not> bit (drop_bit s w) j" by (metis bit_0_eq bit_and_iff bot_apply bot_bool_def)
  with j show ?thesis by (simp add: bit_drop_bit_eq)
qed (use assms(2) in auto)

lemma drop_and: "drop_bit s (w AND m) = drop_bit s w AND drop_bit s (m :: u32)"
  by (rule drop_bit_and)

lemma and_zero_iff_drop:
  "(w :: u32) AND 0xff00 = 0 \<longleftrightarrow> drop_bit 8 w AND 0xff = 0"
  "w AND 0xff0000 = 0 \<longleftrightarrow> drop_bit 16 w AND 0xff = 0"
  "w AND 0xff000000 = 0 \<longleftrightarrow> drop_bit 24 w AND 0xff = 0"
proof -
  have A: "w AND push_bit s 0xff = 0 \<longleftrightarrow> drop_bit s w AND 0xff = 0" if "s \<le> 24" for s
  proof -
    have E: "w AND push_bit s 0xff = push_bit s (drop_bit s w AND 0xff)"
      by (rule bit_word_eqI) (auto simp: bit_and_iff bit_push_bit_iff bit_drop_bit_eq)
    have D: "drop_bit s (push_bit s (drop_bit s w AND 0xff)) = drop_bit s w AND 0xff"
      by (rule bit_word_eqI) (auto simp: bit_simps dest: bit_imp_le_length)
    show ?thesis
      unfolding E using D by (metis drop_bit_of_0 push_bit_of_0)
  qed
  show "w AND 0xff00 = 0 \<longleftrightarrow> drop_bit 8 w AND 0xff = 0" using A [of 8] by simp
  show "w AND 0xff0000 = 0 \<longleftrightarrow> drop_bit 16 w AND 0xff = 0" using A [of 16] by simp
  show "w AND 0xff000000 = 0 \<longleftrightarrow> drop_bit 24 w AND 0xff = 0" using A [of 24] by simp
qed

lemma rt_ffs_bytes:
  "rt_ffs w =
     (if w = 0 then 0
      else if w AND 0xff \<noteq> 0 then lowest_bit_bitmap ! unat (w AND 0xff) + 1
      else if drop_bit 8 w AND 0xff \<noteq> 0 then lowest_bit_bitmap ! unat (drop_bit 8 w AND 0xff) + 9
      else if drop_bit 16 w AND 0xff \<noteq> 0 then lowest_bit_bitmap ! unat (drop_bit 16 w AND 0xff) + 17
      else lowest_bit_bitmap ! unat (drop_bit 24 w AND 0xff) + 25)"
  unfolding rt_ffs_def and_zero_iff_drop drop_and by simp

lemma rt_ffs_lowest:
  assumes "w \<noteq> 0"
  shows "0 < rt_ffs w \<and> rt_ffs w \<le> 32 \<and> is_lowest_bit w (rt_ffs w - 1)"
proof -
  have b32: "\<not> bit w m" if "32 \<le> m" for m using bit_imp_le_length [of w m] that by auto
  have le: "rt_ffs w - 1 < 32" if "bit w (rt_ffs w - 1)" using b32 that by (meson not_less)
  have "0 < rt_ffs w \<and> is_lowest_bit w (rt_ffs w - 1)"
  proof (cases "w AND 0xff = 0")
    case False
    then show ?thesis
      using byte_lowest [of "w AND 0xff" 0 w] assms by (simp add: rt_ffs_bytes)
  next
    case b0: True
    then have l8: "\<not> bit w m" if "m < 8" for m using below_byte [of 0 w m] that by simp
    show ?thesis
    proof (cases "drop_bit 8 w AND 0xff = 0")
      case False
      then show ?thesis using byte_lowest [of _ 8 w] l8 assms b0 by (simp add: rt_ffs_bytes add.commute)
    next
      case b1: True
      then have l16: "\<not> bit w m" if "m < 16" for m using below_byte [of 8 w m] l8 that by simp
      show ?thesis
      proof (cases "drop_bit 16 w AND 0xff = 0")
        case False
        then show ?thesis using byte_lowest [of _ 16 w] l16 assms b0 b1 by (simp add: rt_ffs_bytes add.commute)
      next
        case b2: True
        then have l24: "\<not> bit w m" if "m < 24" for m using below_byte [of 16 w m] l16 that by simp
        have "drop_bit 24 w AND 0xff \<noteq> 0"
        proof
          assume b3: "drop_bit 24 w AND 0xff = 0"
          have "\<not> bit w m" for m
          proof (cases "m < 32")
            case True
            then show ?thesis using below_byte [OF b3 l24, of m] by simp
          next
            case False
            then show ?thesis using b32 by simp
          qed
          then have "w = 0" by (intro bit_word_eqI) simp
          with assms show False by simp
        qed
        then show ?thesis using byte_lowest [of _ 24 w] l24 assms b0 b1 b2 by (simp add: rt_ffs_bytes add.commute)
      qed
    qed
  qed
  with le show ?thesis by (auto simp: is_lowest_bit_def)
qed

end
