(* ===== verification/RT_State.thy ===== *)
theory RT_State
  imports RT_List RT_Kservice
begin

text \<open>
  The state of the kernel core: the global variables of src/scheduler.c, src/timer.c, src/clock.c,
  src/irq.c and src/object.c, and the control blocks of threads and timers (include/rtdef.h).

  A thread or a timer is named by a number, as the code names it by its address. The ready table,
  the waiting lists of the IPC objects and the defunct list hold threads through the same link
  \<open>tlist\<close>, so they are one table of lists (theory RT_List), indexed by list head. \<open>kernel_inv\<close>
  states how the pieces fit together. Interrupts are disabled in the code while these variables
  change, so each stretch of code between two points where another thread can run is one step of
  the model.
\<close>

section \<open>Control blocks\<close>

definition RT_THREAD_PRIORITY_MAX :: nat where "RT_THREAD_PRIORITY_MAX = 32"
definition RT_NAME_MAX :: nat where "RT_NAME_MAX = 8"

type_synonym tid = nat

text \<open>The timer embedded in a thread, and the timers an application declares or creates.\<close>

datatype tmr = Thread_Timer tid | App_Timer nat

text \<open>\<^verbatim>\<open>timeout_func\<close> with its \<^verbatim>\<open>parameter\<close>: \<^verbatim>\<open>rt_thread_timeout(thread)\<close> or a routine of the application.\<close>

datatype timeout_cb = CB_Thread_Timeout tid | CB_App nat

datatype thread_stat =
  RT_THREAD_INIT | RT_THREAD_READY | RT_THREAD_SUSPEND | RT_THREAD_RUNNING | RT_THREAD_CLOSE

record rt_thread =
  sp :: u32
  stack_addr :: u32
  stack_size :: u16
  error :: rt_err
  stat :: thread_stat
  current_priority :: u8
  init_priority :: u8
  number_mask :: u32
  event_set :: u32
  event_info :: u8
  init_tick :: u32
  remaining_tick :: u32
  has_cleanup :: bool

definition RT_TIMER_FLAG_ACTIVATED :: u8 where "RT_TIMER_FLAG_ACTIVATED = 1"
definition RT_TIMER_FLAG_PERIODIC :: u8 where "RT_TIMER_FLAG_PERIODIC = 2"
definition RT_TIMER_FLAG_ONE_SHOT :: u8 where "RT_TIMER_FLAG_ONE_SHOT = 0"

record rt_timer =
  tm_flag :: u8
  timeout_func :: timeout_cb
  tm_init_tick :: u32
  timeout_tick :: u32

text \<open>Kernel objects: the header every control block starts with, by kind of object.\<close>

datatype kobj = Obj_Thread tid | Obj_Timer tmr | Obj_Semaphore nat | Obj_Mutex nat | Obj_Event nat
  | Obj_MailBox nat | Obj_MessageQueue nat | Obj_MemPool nat | Obj_Device nat

record rt_object =
  obj_name :: string
  obj_type :: u8

text \<open>Blocks of the heap the kernel gives back with \<^verbatim>\<open>RT_KERNEL_FREE\<close>.\<close>

datatype heap_block = Block_Object kobj | Block_Stack u32 | Block_Pool u32

section \<open>The global state\<close>

text \<open>Heads of the lists a thread's \<open>tlist\<close> can be on.\<close>

datatype list_head = Ready nat | Wait nat | Defunct

record kernel =
  tlists :: "(list_head, tid) ltab"
  threads :: "tid \<Rightarrow> rt_thread"
  rt_current_thread :: "tid option"
  rt_current_priority :: u8
  rt_thread_ready_priority_group :: u32
  rt_scheduler_lock_nest :: u16
  rt_interrupt_nest :: u8
  rt_timer_list :: "tmr list"
  timers :: "tmr \<Rightarrow> rt_timer"
  rt_tick :: u32
  object_lists :: "(nat, kobj) ltab"
  objects :: "kobj \<Rightarrow> rt_object"
  kernel_freed :: "heap_block list"

definition upd_thread :: "tid \<Rightarrow> (rt_thread \<Rightarrow> rt_thread) \<Rightarrow> kernel \<Rightarrow> kernel" where
  "upd_thread t f k = k\<lparr>threads := (threads k)(t := f (threads k t))\<rparr>"

definition upd_timer :: "tmr \<Rightarrow> (rt_timer \<Rightarrow> rt_timer) \<Rightarrow> kernel \<Rightarrow> kernel" where
  "upd_timer m f k = k\<lparr>timers := (timers k)(m := f (timers k m))\<rparr>"

definition upd_tlists ::
  "((list_head, tid) ltab \<Rightarrow> (list_head, tid) ltab) \<Rightarrow> kernel \<Rightarrow> kernel" where
  "upd_tlists f k = k\<lparr>tlists := f (tlists k)\<rparr>"

lemma upd_thread_simps [simp]:
  "threads (upd_thread t f k) = (threads k)(t := f (threads k t))"
  "tlists (upd_thread t f k) = tlists k"
  "rt_current_thread (upd_thread t f k) = rt_current_thread k"
  "rt_current_priority (upd_thread t f k) = rt_current_priority k"
  "rt_thread_ready_priority_group (upd_thread t f k) = rt_thread_ready_priority_group k"
  "rt_scheduler_lock_nest (upd_thread t f k) = rt_scheduler_lock_nest k"
  "rt_interrupt_nest (upd_thread t f k) = rt_interrupt_nest k"
  "rt_timer_list (upd_thread t f k) = rt_timer_list k"
  "timers (upd_thread t f k) = timers k"
  "rt_tick (upd_thread t f k) = rt_tick k"
  "object_lists (upd_thread t f k) = object_lists k"
  "objects (upd_thread t f k) = objects k"
  "kernel_freed (upd_thread t f k) = kernel_freed k"
  by (simp_all add: upd_thread_def)

lemma upd_timer_simps [simp]:
  "timers (upd_timer m g k) = (timers k)(m := g (timers k m))"
  "threads (upd_timer m g k) = threads k"
  "tlists (upd_timer m g k) = tlists k"
  "rt_current_thread (upd_timer m g k) = rt_current_thread k"
  "rt_current_priority (upd_timer m g k) = rt_current_priority k"
  "rt_thread_ready_priority_group (upd_timer m g k) = rt_thread_ready_priority_group k"
  "rt_scheduler_lock_nest (upd_timer m g k) = rt_scheduler_lock_nest k"
  "rt_interrupt_nest (upd_timer m g k) = rt_interrupt_nest k"
  "rt_timer_list (upd_timer m g k) = rt_timer_list k"
  "rt_tick (upd_timer m g k) = rt_tick k"
  "object_lists (upd_timer m g k) = object_lists k"
  "objects (upd_timer m g k) = objects k"
  "kernel_freed (upd_timer m g k) = kernel_freed k"
  by (simp_all add: upd_timer_def)

lemma upd_tlists_simps [simp]:
  "tlists (upd_tlists h k) = h (tlists k)"
  "threads (upd_tlists h k) = threads k"
  "rt_current_thread (upd_tlists h k) = rt_current_thread k"
  "rt_current_priority (upd_tlists h k) = rt_current_priority k"
  "rt_thread_ready_priority_group (upd_tlists h k) = rt_thread_ready_priority_group k"
  "rt_scheduler_lock_nest (upd_tlists h k) = rt_scheduler_lock_nest k"
  "rt_interrupt_nest (upd_tlists h k) = rt_interrupt_nest k"
  "rt_timer_list (upd_tlists h k) = rt_timer_list k"
  "timers (upd_tlists h k) = timers k"
  "rt_tick (upd_tlists h k) = rt_tick k"
  "object_lists (upd_tlists h k) = object_lists k"
  "objects (upd_tlists h k) = objects k"
  "kernel_freed (upd_tlists h k) = kernel_freed k"
  by (simp_all add: upd_tlists_def)

text \<open>The thread lists of the kernel record are tables of lists in the sense of RT_List.\<close>

definition tlists_rel :: "kernel \<Rightarrow> (list_head \<Rightarrow> tid list) \<Rightarrow> bool" where
  "tlists_rel k T \<longleftrightarrow> tlists k = T \<and> wf_ltab T"

interpretation tl: intrusive_lists tlists_rel "\<lambda>h n. upd_tlists (ins_tail h n)"
  "\<lambda>h n. upd_tlists (ins_head h n)" "\<lambda>n. upd_tlists (unlink n)"
  "\<lambda>h k. tlists k h = []" "\<lambda>h k. hd (tlists k h)"
  by unfold_locales
    (auto simp: tlists_rel_def wf_ltab_ins_tail wf_ltab_ins_head wf_ltab_unlink)

section \<open>Timer flags\<close>

definition timer_activated :: "rt_timer \<Rightarrow> bool" where
  "timer_activated tm \<longleftrightarrow> tm_flag tm AND RT_TIMER_FLAG_ACTIVATED \<noteq> 0"

definition timer_periodic :: "rt_timer \<Rightarrow> bool" where
  "timer_periodic tm \<longleftrightarrow> tm_flag tm AND RT_TIMER_FLAG_PERIODIC \<noteq> 0"

lemma flag_bit:
  "(w :: u8) AND 1 \<noteq> 0 \<longleftrightarrow> bit w 0" "w AND 2 \<noteq> 0 \<longleftrightarrow> bit w 1"
proof -
  show "w AND 1 \<noteq> 0 \<longleftrightarrow> bit w 0" by (rule word_and_1_bit)
  show "w AND 2 \<noteq> 0 \<longleftrightarrow> bit w 1"
    by (auto simp: bit_eq_iff [of "w AND 2" 0] bit_and_iff bit_2_iff)
qed

lemma timer_activated_bit: "timer_activated tm \<longleftrightarrow> bit (tm_flag tm) 0"
  by (simp add: timer_activated_def RT_TIMER_FLAG_ACTIVATED_def flag_bit(1) [simplified])

lemma timer_periodic_bit: "timer_periodic tm \<longleftrightarrow> bit (tm_flag tm) 1"
  using flag_bit(2) [of "tm_flag tm"] by (simp add: timer_periodic_def RT_TIMER_FLAG_PERIODIC_def)

lemma flag_bit_ops:
  "bit ((w :: u8) AND NOT RT_TIMER_FLAG_ACTIVATED) n \<longleftrightarrow> bit w n \<and> n \<noteq> 0"
  "bit (w OR RT_TIMER_FLAG_ACTIVATED) n \<longleftrightarrow> bit w n \<or> n = 0"
  using bit_and_not_push_bit [of 0 w n] bit_or_push_bit [of 0 w n]
  by (simp_all add: RT_TIMER_FLAG_ACTIVATED_def)

lemma timer_flag_updates [simp]:
  "timer_activated (tm\<lparr>tm_flag := f AND NOT RT_TIMER_FLAG_ACTIVATED\<rparr>) = False"
  "timer_activated (tm\<lparr>tm_flag := f OR RT_TIMER_FLAG_ACTIVATED\<rparr>) = True"
  "timer_periodic (tm\<lparr>tm_flag := f AND NOT RT_TIMER_FLAG_ACTIVATED\<rparr>) = timer_periodic (tm\<lparr>tm_flag := f\<rparr>)"
  "timer_periodic (tm\<lparr>tm_flag := f OR RT_TIMER_FLAG_ACTIVATED\<rparr>) = timer_periodic (tm\<lparr>tm_flag := f\<rparr>)"
  "timer_activated (tm\<lparr>timeout_tick := x\<rparr>) = timer_activated tm"
  "timer_activated (tm\<lparr>tm_init_tick := x\<rparr>) = timer_activated tm"
  "timer_periodic (tm\<lparr>timeout_tick := x\<rparr>) = timer_periodic tm"
  "timer_periodic (tm\<lparr>tm_init_tick := x\<rparr>) = timer_periodic tm"
  by (simp_all add: timer_activated_bit timer_periodic_bit flag_bit_ops)

end
