(* ===== verification/RT_Scheduler.thy ===== *)
theory RT_Scheduler
  imports RT_State
begin

text \<open>
  The scheduler of src/scheduler.c: the ready table with its 32-bit priority group, the choice of the
  next thread, and the scheduler lock. The context switch itself is assembly
  (\<^verbatim>\<open>rt_hw_context_switch\<close>); what the model keeps of it is that \<^verbatim>\<open>rt_current_thread\<close> has changed.
\<close>

section \<open>The code\<close>

text \<open>\<^verbatim>\<open>_rt_scheduler_stack_check\<close> returns: the stack pointer lies in the thread's stack. Otherwise the
  function spins with interrupts disabled.\<close>

definition rt_scheduler_stack_check :: "rt_thread \<Rightarrow> bool" where
  "rt_scheduler_stack_check th \<longleftrightarrow>
     \<not> (sp th \<le> stack_addr th \<or> stack_addr th + ucast (stack_size th) < sp th)"

definition rt_system_scheduler_init :: "kernel \<Rightarrow> kernel" where
  "rt_system_scheduler_init k =
     k\<lparr>rt_scheduler_lock_nest := 0,
       tlists := (\<lambda>h. case h of Ready p \<Rightarrow> if p < RT_THREAD_PRIORITY_MAX then [] else tlists k h
                              | Wait q \<Rightarrow> tlists k h | Defunct \<Rightarrow> []),
       rt_current_priority := of_nat (RT_THREAD_PRIORITY_MAX - 1),
       rt_current_thread := None,
       rt_thread_ready_priority_group := 0\<rparr>"

text \<open>
  The thread both \<^verbatim>\<open>rt_system_scheduler_start\<close> and \<^verbatim>\<open>rt_schedule\<close> switch to, with its priority. An
  empty group gives an index out of the table, an empty list has no first thread.
\<close>

definition highest_ready :: "kernel \<Rightarrow> (nat \<times> tid) option" where
  "highest_ready k =
     do { rt_assert (rt_thread_ready_priority_group k \<noteq> 0);
          let highest_ready_priority = rt_ffs (rt_thread_ready_priority_group k) - 1;
          rt_assert (tlists k (Ready highest_ready_priority) \<noteq> []);
          Some (highest_ready_priority, hd (tlists k (Ready highest_ready_priority))) }"

definition rt_system_scheduler_start :: "kernel \<Rightarrow> kernel option" where
  "rt_system_scheduler_start k =
     do { (p, to_thread) \<leftarrow> highest_ready k;
          Some (k\<lparr>rt_current_thread := Some to_thread\<rparr>) }"

definition rt_schedule :: "kernel \<Rightarrow> kernel option" where
  "rt_schedule k =
     (if rt_scheduler_lock_nest k = 0 then
        do { (p, to_thread) \<leftarrow> highest_ready k;
             (if Some to_thread \<noteq> rt_current_thread k then
                do { let k1 = k\<lparr>rt_current_priority := of_nat p, rt_current_thread := Some to_thread\<rparr>;
                     rt_assert (rt_scheduler_stack_check (threads k1 to_thread));
                     rt_assert (rt_current_thread k \<noteq> None);
                     Some k1 }
              else Some k) }
      else Some k)"

definition rt_schedule_insert_thread :: "tid \<Rightarrow> kernel \<Rightarrow> kernel option" where
  "rt_schedule_insert_thread t k =
     do { let k1 = upd_thread t (\<lambda>th. th\<lparr>stat := RT_THREAD_READY\<rparr>) k;
          let p = unat (current_priority (threads k1 t));
          rt_assert (p < RT_THREAD_PRIORITY_MAX);
          let k2 = upd_tlists (ins_tail (Ready p) t) k1;
          Some (k2\<lparr>rt_thread_ready_priority_group :=
                     rt_thread_ready_priority_group k2 OR number_mask (threads k2 t)\<rparr>) }"

definition rt_schedule_remove_thread :: "tid \<Rightarrow> kernel \<Rightarrow> kernel option" where
  "rt_schedule_remove_thread t k =
     do { let k1 = upd_tlists (unlink t) k;
          let p = unat (current_priority (threads k1 t));
          rt_assert (p < RT_THREAD_PRIORITY_MAX);
          Some (if tlists k1 (Ready p) = [] then
                  k1\<lparr>rt_thread_ready_priority_group :=
                       rt_thread_ready_priority_group k1 AND NOT (number_mask (threads k1 t))\<rparr>
                else k1) }"

text \<open>\<^verbatim>\<open>rt_scheduler_lock_nest\<close> is a signed 16-bit counter.\<close>

definition rt_enter_critical :: "kernel \<Rightarrow> kernel" where
  "rt_enter_critical k = k\<lparr>rt_scheduler_lock_nest := rt_scheduler_lock_nest k + 1\<rparr>"

definition rt_exit_critical :: "kernel \<Rightarrow> kernel option" where
  "rt_exit_critical k =
     (let k1 = k\<lparr>rt_scheduler_lock_nest := rt_scheduler_lock_nest k - 1\<rparr> in
      if sint (rt_scheduler_lock_nest k1) \<le> 0
      then rt_schedule (k1\<lparr>rt_scheduler_lock_nest := 0\<rparr>)
      else Some k1)"

definition rt_critical_level :: "kernel \<Rightarrow> u16" where
  "rt_critical_level k = rt_scheduler_lock_nest k"

section \<open>What the scheduler relies on\<close>

text \<open>
  A thread is on the ready list of its priority exactly when its state is ready; the group word
  has the bit of a priority exactly when its list is not empty; and the attributes derived from
  the priority agree with it.
\<close>

definition ready_wf :: "kernel \<Rightarrow> bool" where
  "ready_wf k \<longleftrightarrow> (\<forall>t p. t \<in> set (tlists k (Ready p)) \<longleftrightarrow>
     stat (threads k t) = RT_THREAD_READY \<and> unat (current_priority (threads k t)) = p)"

definition group_wf :: "kernel \<Rightarrow> bool" where
  "group_wf k \<longleftrightarrow> (\<forall>p. bit (rt_thread_ready_priority_group k) p \<longleftrightarrow> tlists k (Ready p) \<noteq> [])"

definition thread_live :: "rt_thread \<Rightarrow> bool" where
  "thread_live th \<longleftrightarrow> stat th = RT_THREAD_READY \<or> stat th = RT_THREAD_SUSPEND"

definition thread_attr_ok :: "rt_thread \<Rightarrow> bool" where
  "thread_attr_ok th \<longleftrightarrow> unat (current_priority th) < RT_THREAD_PRIORITY_MAX \<and>
     number_mask th = push_bit (unat (current_priority th)) 1 \<and> rt_scheduler_stack_check th"

definition attr_wf :: "kernel \<Rightarrow> bool" where
  "attr_wf k \<longleftrightarrow> (\<forall>t. thread_live (threads k t) \<longrightarrow> thread_attr_ok (threads k t))"

definition sched_wf :: "kernel \<Rightarrow> bool" where
  "sched_wf k \<longleftrightarrow> wf_ltab (tlists k) \<and> ready_wf k \<and> group_wf k \<and> attr_wf k"

text \<open>The thread that ought to run: first of the ready list of the least priority number in use.\<close>

definition is_highest :: "kernel \<Rightarrow> tid \<Rightarrow> bool" where
  "is_highest k t \<longleftrightarrow> stat (threads k t) = RT_THREAD_READY \<and>
     hd (tlists k (Ready (unat (current_priority (threads k t))))) = t \<and>
     (\<forall>t'. stat (threads k t') = RT_THREAD_READY \<longrightarrow>
            current_priority (threads k t) \<le> current_priority (threads k t'))"

lemma ready_wfD:
  "ready_wf k \<Longrightarrow> t \<in> set (tlists k (Ready p)) \<longleftrightarrow>
     stat (threads k t) = RT_THREAD_READY \<and> unat (current_priority (threads k t)) = p"
  by (simp add: ready_wf_def)

lemma group_wfD: "group_wf k \<Longrightarrow> bit (rt_thread_ready_priority_group k) p \<longleftrightarrow> tlists k (Ready p) \<noteq> []"
  by (simp add: group_wf_def)

lemma attr_wfD: "attr_wf k \<Longrightarrow> thread_live (threads k t) \<Longrightarrow> thread_attr_ok (threads k t)"
  by (simp add: attr_wf_def)

lemma thread_liveI [simp]:
  "stat th = RT_THREAD_READY \<Longrightarrow> thread_live th" "stat th = RT_THREAD_SUSPEND \<Longrightarrow> thread_live th"
  by (simp_all add: thread_live_def)

lemma sched_wfD:
  assumes "sched_wf k"
  shows "wf_ltab (tlists k)" and "ready_wf k" and "group_wf k" and "attr_wf k"
  using assms by (simp_all add: sched_wf_def)

lemma is_highest_unique:
  assumes "is_highest k t" and "is_highest k t'"
  shows "t = t'"
proof -
  have "current_priority (threads k t) = current_priority (threads k t')"
    using assms by (meson is_highest_def order_antisym)
  with assms show ?thesis by (metis is_highest_def)
qed

section \<open>The choice of the next thread\<close>

lemma highest_ready_spec:
  assumes "sched_wf k" and "\<exists>t. stat (threads k t) = RT_THREAD_READY"
  obtains p t where "highest_ready k = Some (p, t)" and "is_highest k t"
    and "unat (current_priority (threads k t)) = p" and "p < 32"
proof -
  note wf = sched_wfD [OF assms(1)]
  let ?g = "rt_thread_ready_priority_group k"
  let ?p = "rt_ffs ?g - 1"
  obtain t0 where "stat (threads k t0) = RT_THREAD_READY" using assms(2) by blast
  then have "tlists k (Ready (unat (current_priority (threads k t0)))) \<noteq> []"
    using ready_wfD [OF wf(2)] by force
  then have "bit ?g (unat (current_priority (threads k t0)))" by (simp add: group_wfD [OF wf(3)])
  then have nz: "?g \<noteq> 0" by auto
  from rt_ffs_lowest [OF this] have l: "0 < rt_ffs ?g" "rt_ffs ?g \<le> 32"
    and b: "bit ?g ?p" and low: "\<And>m. m < ?p \<Longrightarrow> \<not> bit ?g m"
    by (auto simp: is_lowest_bit_def)
  have ne: "tlists k (Ready ?p) \<noteq> []" using b by (simp add: group_wfD [OF wf(3)])
  define t where "t = hd (tlists k (Ready ?p))"
  have "t \<in> set (tlists k (Ready ?p))" using ne by (simp add: t_def)
  then have t: "stat (threads k t) = RT_THREAD_READY" "unat (current_priority (threads k t)) = ?p"
    by (simp_all add: ready_wfD [OF wf(2)])
  have "current_priority (threads k t) \<le> current_priority (threads k t')"
    if "stat (threads k t') = RT_THREAD_READY" for t'
  proof -
    have "t' \<in> set (tlists k (Ready (unat (current_priority (threads k t')))))"
      by (simp add: ready_wfD [OF wf(2)] that)
    then have "bit ?g (unat (current_priority (threads k t')))"
      by (auto simp: group_wfD [OF wf(3)])
    with low have "\<not> unat (current_priority (threads k t')) < ?p" by blast
    with t(2) show ?thesis by (simp add: word_le_nat_alt)
  qed
  with t have hi: "is_highest k t" by (simp add: is_highest_def t_def)
  show ?thesis
    by (rule that [of ?p t]) (use nz ne hi t l in \<open>auto simp: highest_ready_def Let_def rt_assert_def t_def\<close>)
qed

lemma rt_schedule_locked: "rt_scheduler_lock_nest k \<noteq> 0 \<Longrightarrow> rt_schedule k = Some k"
  by (simp add: rt_schedule_def)

lemma rt_schedule_open:
  assumes "sched_wf k" and "\<exists>t. stat (threads k t) = RT_THREAD_READY"
    and "rt_current_thread k = Some c" and "rt_scheduler_lock_nest k = 0"
  obtains t where "is_highest k t" and "rt_schedule k =
    Some (if t = c then k
          else k\<lparr>rt_current_priority := current_priority (threads k t), rt_current_thread := Some t\<rparr>)"
proof -
  obtain p t where h: "highest_ready k = Some (p, t)" "is_highest k t"
    and p: "unat (current_priority (threads k t)) = p"
    using highest_ready_spec [OF assms(1,2)] by metis
  have "thread_attr_ok (threads k t)"
    using h(2) attr_wfD [OF sched_wfD(4) [OF assms(1)]] by (simp add: is_highest_def)
  then have "rt_scheduler_stack_check (threads k t)" by (simp add: thread_attr_ok_def)
  moreover have "of_nat p = current_priority (threads k t)" using p by auto
  ultimately show ?thesis
    using that [OF h(2)] assms(3,4) h(1)
    by (auto simp: rt_schedule_def rt_assert_def Let_def)
qed

text \<open>What a scheduling point changes, whatever the scheduler lock: the running thread at most.\<close>

definition same_but_current :: "kernel \<Rightarrow> kernel \<Rightarrow> bool" where
  "same_but_current k k' \<longleftrightarrow>
     k' = k\<lparr>rt_current_priority := rt_current_priority k', rt_current_thread := rt_current_thread k'\<rparr>"

lemma same_but_currentD:
  assumes "same_but_current k k'"
  shows "tlists k' = tlists k" "threads k' = threads k"
    "rt_thread_ready_priority_group k' = rt_thread_ready_priority_group k"
    "rt_scheduler_lock_nest k' = rt_scheduler_lock_nest k"
    "rt_interrupt_nest k' = rt_interrupt_nest k" "rt_timer_list k' = rt_timer_list k"
    "timers k' = timers k" "rt_tick k' = rt_tick k"
    "object_lists k' = object_lists k" "objects k' = objects k" "kernel_freed k' = kernel_freed k"
  by (subst assms [unfolded same_but_current_def]; simp)+

lemma same_but_current_refl [simp]: "same_but_current k k"
  by (simp add: same_but_current_def)

lemma same_but_current_upd:
  "same_but_current k (k\<lparr>rt_current_priority := x, rt_current_thread := y\<rparr>)"
  by (simp add: same_but_current_def)

lemma rt_schedule_same: "rt_schedule k = Some k' \<Longrightarrow> same_but_current k k'"
  by (auto simp: rt_schedule_def rt_assert_def Let_def same_but_current_upd
      split: if_splits Option.bind_splits)

text \<open>The contract of a scheduling point.\<close>

definition schedule_post :: "kernel \<Rightarrow> kernel \<Rightarrow> bool" where
  "schedule_post k k' \<longleftrightarrow> same_but_current k k' \<and> (\<exists>c. rt_current_thread k' = Some c) \<and>
     (if rt_scheduler_lock_nest k = 0
      then \<exists>t. rt_current_thread k' = Some t \<and> is_highest k t
      else k' = k)"

lemma is_highest_cong:
  "threads k' = threads k \<Longrightarrow> tlists k' = tlists k \<Longrightarrow> is_highest k' t = is_highest k t"
  by (simp add: is_highest_def)

lemma rt_schedule_returns:
  assumes "sched_wf k" and "\<exists>t. stat (threads k t) = RT_THREAD_READY"
    and "rt_current_thread k = Some c"
  shows "returns (rt_schedule k) (schedule_post k)"
proof (cases "rt_scheduler_lock_nest k = 0")
  case True
  then obtain t where "is_highest k t" and "rt_schedule k =
    Some (if t = c then k
          else k\<lparr>rt_current_priority := current_priority (threads k t), rt_current_thread := Some t\<rparr>)"
    using rt_schedule_open [OF assms] by metis
  with True assms(3) show ?thesis by (auto simp: schedule_post_def same_but_current_upd)
next
  case False
  with assms(3) show ?thesis by (simp add: rt_schedule_locked schedule_post_def)
qed

end
