(* ===== verification/RT_Object.thy ===== *)
theory RT_Object
  imports RT_State
begin

text \<open>
  The kernel objects of src/object.c: every thread, timer and IPC object starts with a
  \<^verbatim>\<open>struct rt_object\<close> and is a member of the container of its class. The model keeps the name and
  the type of the header; the \<^verbatim>\<open>flag\<close> of the header is kept in the record of the object that uses it
  (a timer's flag, an IPC object's queueing flag). Hooks are unset function pointers. The
  allocator is a parameter: \<^verbatim>\<open>rt_object_allocate\<close> takes what \<^verbatim>\<open>RT_KERNEL_MALLOC\<close> returned.
\<close>

definition RT_Object_Class_Thread :: nat where "RT_Object_Class_Thread = 0"
definition RT_Object_Class_Semaphore :: nat where "RT_Object_Class_Semaphore = 1"
definition RT_Object_Class_Mutex :: nat where "RT_Object_Class_Mutex = 2"
definition RT_Object_Class_Event :: nat where "RT_Object_Class_Event = 3"
definition RT_Object_Class_MailBox :: nat where "RT_Object_Class_MailBox = 4"
definition RT_Object_Class_MessageQueue :: nat where "RT_Object_Class_MessageQueue = 5"
definition RT_Object_Class_MemPool :: nat where "RT_Object_Class_MemPool = 6"
definition RT_Object_Class_Device :: nat where "RT_Object_Class_Device = 7"
definition RT_Object_Class_Timer :: nat where "RT_Object_Class_Timer = 8"
definition RT_Object_Class_Unknown :: nat where "RT_Object_Class_Unknown = 9"
definition RT_Object_Class_Static :: u8 where "RT_Object_Class_Static = 0x80"

lemmas object_class_defs = RT_Object_Class_Thread_def RT_Object_Class_Semaphore_def
  RT_Object_Class_Mutex_def RT_Object_Class_Event_def RT_Object_Class_MailBox_def
  RT_Object_Class_MessageQueue_def RT_Object_Class_MemPool_def RT_Object_Class_Device_def
  RT_Object_Class_Timer_def RT_Object_Class_Unknown_def

text \<open>
  \<^verbatim>\<open>rt_strncpy\<close> into a name field (the characters after a NUL are NUL, and no terminator is
  written when the name fills the field), and \<^verbatim>\<open>rt_strncmp\<close> of a field with a name. A list ends
  where the C string has its NUL.
\<close>

fun rt_strncpy :: "string \<Rightarrow> nat \<Rightarrow> string" where
  "rt_strncpy s 0 = []"
| "rt_strncpy [] (Suc n) = CHR 0x00 # rt_strncpy [] n"
| "rt_strncpy (c # s) (Suc n) =
     (if c = CHR 0x00 then CHR 0x00 # rt_strncpy [] n else c # rt_strncpy s n)"

text \<open>True when \<^verbatim>\<open>rt_strncmp(cs, ct, count) == 0\<close>.\<close>

fun rt_strncmp_eq :: "string \<Rightarrow> string \<Rightarrow> nat \<Rightarrow> bool" where
  "rt_strncmp_eq cs ct 0 \<longleftrightarrow> True"
| "rt_strncmp_eq [] [] (Suc n) \<longleftrightarrow> True"
| "rt_strncmp_eq [] (d # ct) (Suc n) \<longleftrightarrow> d = CHR 0x00"
| "rt_strncmp_eq (c # cs) [] (Suc n) \<longleftrightarrow> c = CHR 0x00"
| "rt_strncmp_eq (c # cs) (d # ct) (Suc n) \<longleftrightarrow>
     c = d \<and> (c = CHR 0x00 \<or> rt_strncmp_eq cs ct n)"

definition upd_object :: "kobj \<Rightarrow> rt_object \<Rightarrow> kernel \<Rightarrow> kernel" where
  "upd_object ob v k = k\<lparr>objects := (objects k)(ob := v)\<rparr>"

definition upd_object_lists :: "((nat, kobj) ltab \<Rightarrow> (nat, kobj) ltab) \<Rightarrow> kernel \<Rightarrow> kernel" where
  "upd_object_lists f k = k\<lparr>object_lists := f (object_lists k)\<rparr>"

definition rt_object_init :: "kobj \<Rightarrow> nat \<Rightarrow> string \<Rightarrow> kernel \<Rightarrow> kernel" where
  "rt_object_init ob cls name k =
     upd_object_lists (ins_head cls ob)
       (upd_object ob \<lparr>obj_name = rt_strncpy name RT_NAME_MAX,
                       obj_type = of_nat cls OR RT_Object_Class_Static\<rparr> k)"

definition rt_object_detach :: "kobj \<Rightarrow> kernel \<Rightarrow> kernel" where
  "rt_object_detach ob k = upd_object_lists (unlink ob) k"

text \<open>\<open>alloc\<close>: the object at the address the allocator returned, \<^const>\<open>None\<close> when it is \<^verbatim>\<open>RT_NULL\<close>.\<close>

definition rt_object_allocate ::
  "kobj option \<Rightarrow> nat \<Rightarrow> string \<Rightarrow> kernel \<Rightarrow> (kobj option \<times> kernel) option" where
  "rt_object_allocate alloc cls name k =
     do { rt_assert (rt_interrupt_nest k = 0);
          (case alloc of
             None \<Rightarrow> Some (None, k)
           | Some ob \<Rightarrow>
               Some (Some ob,
                 upd_object_lists (ins_head cls ob)
                   (upd_object ob \<lparr>obj_name = rt_strncpy name RT_NAME_MAX, obj_type = of_nat cls\<rparr> k))) }"

definition rt_object_is_systemobject :: "kobj \<Rightarrow> kernel \<Rightarrow> bool" where
  "rt_object_is_systemobject ob k \<longleftrightarrow> obj_type (objects k ob) AND RT_Object_Class_Static \<noteq> 0"

definition rt_object_delete :: "kobj \<Rightarrow> kernel \<Rightarrow> kernel option" where
  "rt_object_delete ob k =
     do { rt_assert (\<not> rt_object_is_systemobject ob k);
          let k1 = upd_object_lists (unlink ob) k;
          Some (k1\<lparr>kernel_freed := kernel_freed k1 @ [Block_Object ob]\<rparr>) }"

text \<open>The search loop of \<^verbatim>\<open>rt_object_find\<close>, over the container of a class.\<close>

fun find_named :: "(kobj \<Rightarrow> rt_object) \<Rightarrow> string \<Rightarrow> kobj list \<Rightarrow> kobj option" where
  "find_named obs name [] = None"
| "find_named obs name (ob # rest) =
     (if rt_strncmp_eq (obj_name (obs ob)) name RT_NAME_MAX then Some ob
      else find_named obs name rest)"

lemma object_frame [simp]:
  "tlists (upd_object ob v k) = tlists k" "threads (upd_object ob v k) = threads k"
  "timers (upd_object ob v k) = timers k" "rt_timer_list (upd_object ob v k) = rt_timer_list k"
  "rt_thread_ready_priority_group (upd_object ob v k) = rt_thread_ready_priority_group k"
  "rt_tick (upd_object ob v k) = rt_tick k"
  "rt_current_thread (upd_object ob v k) = rt_current_thread k"
  "rt_current_priority (upd_object ob v k) = rt_current_priority k"
  "rt_scheduler_lock_nest (upd_object ob v k) = rt_scheduler_lock_nest k"
  "rt_interrupt_nest (upd_object ob v k) = rt_interrupt_nest k"
  "object_lists (upd_object ob v k) = object_lists k"
  "objects (upd_object ob v k) = (objects k)(ob := v)"
  by (simp_all add: upd_object_def)

lemma object_lists_frame [simp]:
  "tlists (upd_object_lists f k) = tlists k" "threads (upd_object_lists f k) = threads k"
  "timers (upd_object_lists f k) = timers k" "rt_timer_list (upd_object_lists f k) = rt_timer_list k"
  "rt_thread_ready_priority_group (upd_object_lists f k) = rt_thread_ready_priority_group k"
  "rt_tick (upd_object_lists f k) = rt_tick k"
  "rt_current_thread (upd_object_lists f k) = rt_current_thread k"
  "rt_current_priority (upd_object_lists f k) = rt_current_priority k"
  "rt_scheduler_lock_nest (upd_object_lists f k) = rt_scheduler_lock_nest k"
  "rt_interrupt_nest (upd_object_lists f k) = rt_interrupt_nest k"
  "object_lists (upd_object_lists f k) = f (object_lists k)"
  "objects (upd_object_lists f k) = objects k"
  by (simp_all add: upd_object_lists_def)

section \<open>Names\<close>

lemma length_rt_strncpy [simp]: "length (rt_strncpy s n) = n"
  by (induction s n rule: rt_strncpy.induct) auto

lemma rt_strncmp_strncpy_nil:
  "rt_strncmp_eq (rt_strncpy [] n) t n \<longleftrightarrow> n = 0 \<or> takeWhile (\<lambda>c. c \<noteq> CHR 0x00) t = []"
  by (cases n; cases t) auto

text \<open>A stored name matches a query exactly when the two agree on their first characters.\<close>

lemma rt_strncmp_strncpy:
  "rt_strncmp_eq (rt_strncpy s n) t n \<longleftrightarrow>
     take n (takeWhile (\<lambda>c. c \<noteq> CHR 0x00) s) = take n (takeWhile (\<lambda>c. c \<noteq> CHR 0x00) t)"
proof (induction s n arbitrary: t rule: rt_strncpy.induct)
  case (2 n)
  then show ?case by (cases t) auto
next
  case (3 c s n)
  then show ?case by (cases t) auto
qed simp

end
