(* ===== verification/RT_Timer.thy ===== *)
theory RT_Timer
  imports RT_Object
begin

text \<open>
  The timers of src/timer.c, in the build's configuration: one skip-list level
  (\<^verbatim>\<open>RT_TIMER_SKIP_LIST_LEVEL\<close> is 1, so the loops over the upper rows have no rounds) and no timer
  thread (\<^verbatim>\<open>RT_USING_TIMER_SOFT\<close> is not defined). Ticks are 32-bit and wrap around; the list is
  searched with the difference of two ticks, as in the code. The timer ISR \<^verbatim>\<open>rt_timer_check\<close> calls
  back into the thread layer and is in theory RT_Clock.
\<close>

definition rt_timer_remove :: "tmr \<Rightarrow> kernel \<Rightarrow> kernel" where
  "rt_timer_remove m k = k\<lparr>rt_timer_list := removeAll m (rt_timer_list k)\<rparr>"

definition rt_timer_init0 :: "tmr \<Rightarrow> timeout_cb \<Rightarrow> u32 \<Rightarrow> u8 \<Rightarrow> kernel \<Rightarrow> kernel" where
  "rt_timer_init0 m timeout time flag k =
     upd_timer m (\<lambda>_. \<lparr>tm_flag = flag AND NOT RT_TIMER_FLAG_ACTIVATED, timeout_func = timeout,
                       tm_init_tick = time, timeout_tick = 0\<rparr>) k"

definition rt_timer_init :: "tmr \<Rightarrow> string \<Rightarrow> timeout_cb \<Rightarrow> u32 \<Rightarrow> u8 \<Rightarrow> kernel \<Rightarrow> kernel" where
  "rt_timer_init m name timeout time flag k =
     rt_timer_init0 m timeout time flag (rt_object_init (Obj_Timer m) RT_Object_Class_Timer name k)"

definition rt_timer_detach :: "tmr \<Rightarrow> kernel \<Rightarrow> kernel \<times> rt_err" where
  "rt_timer_detach m k = (rt_object_detach (Obj_Timer m) (rt_timer_remove m k), - RT_EOK)"

definition rt_timer_create ::
  "tmr option \<Rightarrow> string \<Rightarrow> timeout_cb \<Rightarrow> u32 \<Rightarrow> u8 \<Rightarrow> kernel \<Rightarrow> (tmr option \<times> kernel) option" where
  "rt_timer_create alloc name timeout time flag k =
     do { (ob, k1) \<leftarrow> rt_object_allocate (map_option Obj_Timer alloc) RT_Object_Class_Timer name k;
          (case alloc of
             None \<Rightarrow> Some (None, k1)
           | Some m \<Rightarrow> Some (Some m, rt_timer_init0 m timeout time flag k1)) }"

definition rt_timer_delete :: "tmr \<Rightarrow> kernel \<Rightarrow> (kernel \<times> rt_err) option" where
  "rt_timer_delete m k =
     do { k1 \<leftarrow> rt_object_delete (Obj_Timer m) (rt_timer_remove m k);
          Some (k1, - RT_EOK) }"

text \<open>
  The search of \<^verbatim>\<open>rt_timer_start\<close>: \<open>row_head\<close> starts at the list head (\<^const>\<open>None\<close>) and moves on
  while the next timer is not later than the new one; the new timer goes right after it.
\<close>

fun row_head :: "(tmr \<Rightarrow> rt_timer) \<Rightarrow> u32 \<Rightarrow> tmr option \<Rightarrow> tmr list \<Rightarrow> tmr option" where
  "row_head tms tick r [] = r"
| "row_head tms tick r (t # rest) =
     (if timeout_tick (tms t) - tick = 0 then row_head tms tick (Some t) rest
      else if timeout_tick (tms t) - tick < RT_TICK_MAX div 2 then r
      else row_head tms tick (Some t) rest)"

definition timer_list_insert :: "(tmr \<Rightarrow> rt_timer) \<Rightarrow> tmr \<Rightarrow> tmr list \<Rightarrow> tmr list" where
  "timer_list_insert tms m ms =
     (case row_head tms (timeout_tick (tms m)) None ms of
        None \<Rightarrow> m # ms
      | Some r \<Rightarrow> after_item r m ms)"

definition rt_timer_start :: "tmr \<Rightarrow> kernel \<Rightarrow> (kernel \<times> rt_err) option" where
  "rt_timer_start m k =
     (if timer_activated (timers k m) then Some (k, - RT_ERROR)
      else do {
        rt_assert (tm_init_tick (timers k m) < RT_TICK_MAX div 2);
        let k1 = upd_timer m (\<lambda>tm. tm\<lparr>timeout_tick := rt_tick k + tm_init_tick tm\<rparr>) k;
        let k2 = k1\<lparr>rt_timer_list := timer_list_insert (timers k1) m (rt_timer_list k1)\<rparr>;
        Some (upd_timer m (\<lambda>tm. tm\<lparr>tm_flag := tm_flag tm OR RT_TIMER_FLAG_ACTIVATED\<rparr>) k2, - RT_EOK) })"

definition rt_timer_stop :: "tmr \<Rightarrow> kernel \<Rightarrow> kernel \<times> rt_err" where
  "rt_timer_stop m k =
     (if \<not> timer_activated (timers k m) then (k, - RT_ERROR)
      else (upd_timer m (\<lambda>tm. tm\<lparr>tm_flag := tm_flag tm AND NOT RT_TIMER_FLAG_ACTIVATED\<rparr>)
              (rt_timer_remove m k), RT_EOK))"

definition RT_TIMER_CTRL_SET_TIME :: u8 where "RT_TIMER_CTRL_SET_TIME = 0"
definition RT_TIMER_CTRL_GET_TIME :: u8 where "RT_TIMER_CTRL_GET_TIME = 1"
definition RT_TIMER_CTRL_SET_ONESHOT :: u8 where "RT_TIMER_CTRL_SET_ONESHOT = 2"
definition RT_TIMER_CTRL_SET_PERIODIC :: u8 where "RT_TIMER_CTRL_SET_PERIODIC = 3"

lemmas timer_ctrl_defs = RT_TIMER_CTRL_SET_TIME_def RT_TIMER_CTRL_GET_TIME_def
  RT_TIMER_CTRL_SET_ONESHOT_def RT_TIMER_CTRL_SET_PERIODIC_def

text \<open>\<open>arg\<close> is the tick the pointer argument refers to, before and after the call.\<close>

definition rt_timer_control :: "tmr \<Rightarrow> u8 \<Rightarrow> u32 \<Rightarrow> kernel \<Rightarrow> kernel \<times> u32 \<times> rt_err" where
  "rt_timer_control m cmd arg k =
     (if cmd = RT_TIMER_CTRL_GET_TIME then (k, tm_init_tick (timers k m), RT_EOK)
      else if cmd = RT_TIMER_CTRL_SET_TIME
        then (upd_timer m (\<lambda>tm. tm\<lparr>tm_init_tick := arg\<rparr>) k, arg, RT_EOK)
      else if cmd = RT_TIMER_CTRL_SET_ONESHOT
        then (upd_timer m (\<lambda>tm. tm\<lparr>tm_flag := tm_flag tm AND NOT RT_TIMER_FLAG_PERIODIC\<rparr>) k, arg, RT_EOK)
      else if cmd = RT_TIMER_CTRL_SET_PERIODIC
        then (upd_timer m (\<lambda>tm. tm\<lparr>tm_flag := tm_flag tm OR RT_TIMER_FLAG_PERIODIC\<rparr>) k, arg, RT_EOK)
      else (k, arg, RT_EOK))"

text \<open>The tick of the first timer, the largest tick when there is none.\<close>

definition rt_timer_list_next_timeout :: "tmr list \<Rightarrow> (tmr \<Rightarrow> rt_timer) \<Rightarrow> u32" where
  "rt_timer_list_next_timeout ms tms = (case ms of [] \<Rightarrow> RT_TICK_MAX | m # _ \<Rightarrow> timeout_tick (tms m))"

definition rt_timer_next_timeout_tick :: "kernel \<Rightarrow> u32" where
  "rt_timer_next_timeout_tick k = rt_timer_list_next_timeout (rt_timer_list k) (timers k)"

definition rt_system_timer_init :: "kernel \<Rightarrow> kernel" where
  "rt_system_timer_init k = k\<lparr>rt_timer_list := []\<rparr>"

end
