(* ===== verification/RT_Invariant.thy ===== *)
theory RT_Invariant
  imports RT_Scheduler RT_Timer
begin

text \<open>
  The invariant of the kernel core, and its preservation by the elementary changes of state that
  the operations of the kernel are composed of: putting a thread on a ready list, taking it off,
  queueing it on a waiting list, starting and stopping a timer.

  \<open>kernel_wf\<close> is what holds from boot on; \<open>kernel_inv\<close> adds what holds once the scheduler has
  started: there is a running thread, and the idle thread is ready, so \<^verbatim>\<open>rt_schedule\<close> always finds
  a thread. The parameter \<open>Od\<close> is the set of timers that may be overdue: empty between two
  operations, and the timers the tick interrupt has still to fire inside \<^verbatim>\<open>rt_timer_check\<close>.
\<close>

section \<open>The invariant\<close>

text \<open>The thread of \<^verbatim>\<open>rt_thread_idle_init\<close> (src/idle.c).\<close>

definition tidle :: tid where "tidle = 0"

definition queues_wf :: "kernel \<Rightarrow> bool" where
  "queues_wf k \<longleftrightarrow> (\<forall>q t. t \<in> set (tlists k (Wait q)) \<longrightarrow> stat (threads k t) = RT_THREAD_SUSPEND) \<and>
     (\<forall>t. t \<in> set (tlists k Defunct) \<longrightarrow> stat (threads k t) = RT_THREAD_CLOSE)"

text \<open>
  The distance from the tick before the current one to the tick of a timer. It is 0 for a timer
  that should have fired at the last tick, 1 for one that is due now.
\<close>

definition tick_dist :: "kernel \<Rightarrow> tmr \<Rightarrow> u32" where
  "tick_dist k m = timeout_tick (timers k m) - (rt_tick k - 1)"

definition tick_wf :: "tmr set \<Rightarrow> kernel \<Rightarrow> bool" where
  "tick_wf Od k \<longleftrightarrow> sorted (map (tick_dist k) (rt_timer_list k)) \<and>
     (\<forall>m \<in> set (rt_timer_list k). tick_dist k m \<le> RT_TICK_MAX div 2 \<and> (tick_dist k m = 0 \<longrightarrow> m \<in> Od))"

definition thread_timer_ok :: "kernel \<Rightarrow> tid \<Rightarrow> bool" where
  "thread_timer_ok k t \<longleftrightarrow>
     (thread_live (threads k t) \<longrightarrow>
        timeout_func (timers k (Thread_Timer t)) = CB_Thread_Timeout t \<and>
        \<not> timer_periodic (timers k (Thread_Timer t))) \<and>
     (stat (threads k t) = RT_THREAD_READY \<longrightarrow> \<not> timer_activated (timers k (Thread_Timer t))) \<and>
     (Thread_Timer t \<in> set (rt_timer_list k) \<longrightarrow> stat (threads k t) = RT_THREAD_SUSPEND)"

definition timers_wf :: "kernel \<Rightarrow> bool" where
  "timers_wf k \<longleftrightarrow> distinct (rt_timer_list k) \<and>
     (\<forall>m \<in> set (rt_timer_list k). timer_activated (timers k m)) \<and> (\<forall>t. thread_timer_ok k t) \<and>
     (\<forall>i. App_Timer i \<in> set (rt_timer_list k) \<longrightarrow> (\<exists>c. timeout_func (timers k (App_Timer i)) = CB_App c))"

definition kernel_wf :: "tmr set \<Rightarrow> kernel \<Rightarrow> bool" where
  "kernel_wf Od k \<longleftrightarrow> sched_wf k \<and> queues_wf k \<and> timers_wf k \<and> tick_wf Od k"

definition running :: "kernel \<Rightarrow> bool" where
  "running k \<longleftrightarrow> rt_current_thread k \<noteq> None \<and> stat (threads k tidle) = RT_THREAD_READY"

definition kernel_inv :: "tmr set \<Rightarrow> kernel \<Rightarrow> bool" where
  "kernel_inv Od k \<longleftrightarrow> kernel_wf Od k \<and> running k"

lemma kernel_wfD:
  assumes "kernel_wf Od k"
  shows "sched_wf k" "wf_ltab (tlists k)" "ready_wf k" "group_wf k" "attr_wf k" "queues_wf k"
    "timers_wf k" "tick_wf Od k"
  using assms by (simp_all add: kernel_wf_def sched_wf_def)

lemma kernel_wfI:
  "wf_ltab (tlists k) \<Longrightarrow> ready_wf k \<Longrightarrow> group_wf k \<Longrightarrow> attr_wf k \<Longrightarrow> queues_wf k \<Longrightarrow>
     timers_wf k \<Longrightarrow> tick_wf Od k \<Longrightarrow> kernel_wf Od k"
  by (simp add: kernel_wf_def sched_wf_def)

lemma timers_wf_threadD: "timers_wf k \<Longrightarrow> thread_timer_ok k t"
  by (simp add: timers_wf_def)

lemma queues_wfD:
  assumes "queues_wf k"
  shows "t \<in> set (tlists k (Wait q)) \<Longrightarrow> stat (threads k t) = RT_THREAD_SUSPEND"
    and "t \<in> set (tlists k Defunct) \<Longrightarrow> stat (threads k t) = RT_THREAD_CLOSE"
  using assms by (auto simp: queues_wf_def)

text \<open>Where a thread is linked, by its state.\<close>

lemma linked_ready:
  assumes "kernel_wf Od k" and "stat (threads k t) = RT_THREAD_READY"
  shows "t \<in> set (tlists k (Ready (unat (current_priority (threads k t)))))"
  using ready_wfD [OF kernel_wfD(3) [OF assms(1)]] assms(2) by simp

lemma unlinked_by_stat:
  assumes "kernel_wf Od k" and "stat (threads k t) \<noteq> RT_THREAD_READY"
    and "stat (threads k t) \<noteq> RT_THREAD_SUSPEND" and "stat (threads k t) \<noteq> RT_THREAD_CLOSE"
  shows "unlinked t (tlists k)"
  unfolding unlinked_def
proof
  fix h show "t \<notin> set (tlists k h)"
    using assms ready_wfD [OF kernel_wfD(3) [OF assms(1)]] queues_wfD [OF kernel_wfD(6) [OF assms(1)]]
    by (cases h) auto
qed

section \<open>Changes that touch nothing the invariant reads\<close>

definition thread_same :: "rt_thread \<Rightarrow> rt_thread \<Rightarrow> bool" where
  "thread_same th th' \<longleftrightarrow> stat th' = stat th \<and> current_priority th' = current_priority th \<and>
     number_mask th' = number_mask th \<and> sp th' = sp th \<and> stack_addr th' = stack_addr th \<and>
     stack_size th' = stack_size th"

definition kernel_same :: "kernel \<Rightarrow> kernel \<Rightarrow> bool" where
  "kernel_same k k' \<longleftrightarrow> tlists k' = tlists k \<and>
     rt_thread_ready_priority_group k' = rt_thread_ready_priority_group k \<and>
     rt_timer_list k' = rt_timer_list k \<and> timers k' = timers k \<and> rt_tick k' = rt_tick k \<and>
     (\<forall>t. thread_same (threads k t) (threads k' t))"

lemma thread_same_refl [simp]: "thread_same th th"
  by (simp add: thread_same_def)

lemma thread_same_upd [simp]:
  "thread_same th (th\<lparr>error := e\<rparr>)" "thread_same th (th\<lparr>event_set := s\<rparr>)"
  "thread_same th (th\<lparr>event_info := i\<rparr>)" "thread_same th (th\<lparr>remaining_tick := r\<rparr>)"
  by (simp_all add: thread_same_def)

lemma kernel_same_upd_thread:
  "thread_same (threads k t) (f (threads k t)) \<Longrightarrow> kernel_same k (upd_thread t f k)"
  by (simp add: kernel_same_def)

lemma kernel_same_refl [simp]: "kernel_same k k"
  by (simp add: kernel_same_def)

lemma kernel_same_current: "same_but_current k k' \<Longrightarrow> kernel_same k k'"
  by (simp add: kernel_same_def same_but_currentD)

lemma kernel_same_trans: "kernel_same k k' \<Longrightarrow> kernel_same k' k'' \<Longrightarrow> kernel_same k k''"
  by (simp add: kernel_same_def thread_same_def)

lemma thread_sameD:
  assumes "thread_same th th'"
  shows "thread_live th' = thread_live th" "thread_attr_ok th' = thread_attr_ok th"
  using assms
  by (simp_all add: thread_same_def thread_live_def thread_attr_ok_def rt_scheduler_stack_check_def)

lemma kernel_same_wf:
  assumes "kernel_same k k'"
  shows "kernel_wf Od k' = kernel_wf Od k"
proof -
  have st: "stat (threads k' t) = stat (threads k t)"
    "current_priority (threads k' t) = current_priority (threads k t)"
    "thread_live (threads k' t) = thread_live (threads k t)"
    "thread_attr_ok (threads k' t) = thread_attr_ok (threads k t)" for t
  proof -
    have "thread_same (threads k t) (threads k' t)" using assms by (simp add: kernel_same_def)
    from thread_sameD [OF this] this
    show "stat (threads k' t) = stat (threads k t)"
      "current_priority (threads k' t) = current_priority (threads k t)"
      "thread_live (threads k' t) = thread_live (threads k t)"
      "thread_attr_ok (threads k' t) = thread_attr_ok (threads k t)"
      by (simp_all add: thread_same_def)
  qed
  have eq: "tlists k' = tlists k" "rt_thread_ready_priority_group k' = rt_thread_ready_priority_group k"
     "rt_timer_list k' = rt_timer_list k" "timers k' = timers k" "rt_tick k' = rt_tick k"
    using assms by (simp_all add: kernel_same_def)
  have "ready_wf k' = ready_wf k" by (simp only: ready_wf_def st eq)
  moreover have "group_wf k' = group_wf k" by (simp only: group_wf_def eq)
  moreover have "attr_wf k' = attr_wf k" by (simp only: attr_wf_def st)
  moreover have "queues_wf k' = queues_wf k" by (simp only: queues_wf_def st eq)
  moreover have "timers_wf k' = timers_wf k" by (simp only: timers_wf_def thread_timer_ok_def st eq)
  moreover have "tick_wf Od k' = tick_wf Od k"
  proof -
    have d: "tick_dist k' = tick_dist k" by (rule ext) (simp only: tick_dist_def eq)
    show ?thesis by (simp only: tick_wf_def d eq)
  qed
  ultimately show ?thesis by (simp only: kernel_wf_def sched_wf_def eq)
qed

lemma kernel_wf_upd_thread [simp]:
  "thread_same (threads k t) (f (threads k t)) \<Longrightarrow> kernel_wf Od (upd_thread t f k) = kernel_wf Od k"
  by (rule kernel_same_wf) (rule kernel_same_upd_thread)

lemma running_upd_thread [simp]:
  "thread_same (threads k t) (f (threads k t)) \<Longrightarrow> running (upd_thread t f k) = running k"
  by (auto simp: running_def thread_same_def)

lemma kernel_inv_upd_thread [simp]:
  "thread_same (threads k t) (f (threads k t)) \<Longrightarrow> kernel_inv Od (upd_thread t f k) = kernel_inv Od k"
  by (simp add: kernel_inv_def)

lemma is_highest_upd_thread [simp]:
  "thread_same (threads k t) (f (threads k t)) \<Longrightarrow> is_highest (upd_thread t f k) t' = is_highest k t'"
  by (auto simp: is_highest_def thread_same_def)


section \<open>A thread between two lists\<close>

text \<open>
  While an operation moves a thread \<open>t\<close>, it is on no list and its control block may be in any state;
  everything else is well formed. The elementary changes lead from \<open>kernel_wf\<close> to \<open>kernel_but t\<close>,
  stay there, or lead back.
\<close>

definition timers_but :: "tid set \<Rightarrow> kernel \<Rightarrow> bool" where
  "timers_but E k \<longleftrightarrow> distinct (rt_timer_list k) \<and>
     (\<forall>m \<in> set (rt_timer_list k). timer_activated (timers k m)) \<and> (\<forall>t. t \<notin> E \<longrightarrow> thread_timer_ok k t) \<and>
     (\<forall>i. App_Timer i \<in> set (rt_timer_list k) \<longrightarrow> (\<exists>c. timeout_func (timers k (App_Timer i)) = CB_App c))"

definition kernel_but :: "tid \<Rightarrow> tmr set \<Rightarrow> kernel \<Rightarrow> bool" where
  "kernel_but t Od k \<longleftrightarrow> wf_ltab (tlists k) \<and> unlinked t (tlists k) \<and>
     (\<forall>t' p. t' \<noteq> t \<longrightarrow> (t' \<in> set (tlists k (Ready p)) \<longleftrightarrow>
        stat (threads k t') = RT_THREAD_READY \<and> unat (current_priority (threads k t')) = p)) \<and>
     group_wf k \<and> (\<forall>t'. t' \<noteq> t \<longrightarrow> thread_live (threads k t') \<longrightarrow> thread_attr_ok (threads k t')) \<and>
     (\<forall>t'. t' \<noteq> t \<longrightarrow> (\<forall>q. t' \<in> set (tlists k (Wait q)) \<longrightarrow> stat (threads k t') = RT_THREAD_SUSPEND) \<and>
        (t' \<in> set (tlists k Defunct) \<longrightarrow> stat (threads k t') = RT_THREAD_CLOSE)) \<and>
     timers_but {t} k \<and> tick_wf Od k"

lemma tick_wf_cong:
  assumes "rt_timer_list k' = rt_timer_list k" "timers k' = timers k" "rt_tick k' = rt_tick k"
  shows "tick_wf Od k' = tick_wf Od k"
proof -
  have d: "tick_dist k' = tick_dist k" by (rule ext) (simp only: tick_dist_def assms)
  show ?thesis by (simp only: tick_wf_def d assms)
qed

lemma timers_but_cong:
  assumes "rt_timer_list k' = rt_timer_list k" "timers k' = timers k"
    and "\<And>t. t \<notin> E \<Longrightarrow> stat (threads k' t) = stat (threads k t)"
  shows "timers_but E k' = timers_but E k"
  using assms by (simp add: timers_but_def thread_timer_ok_def thread_live_def)

lemma thread_timer_ok_cong:
  assumes "rt_timer_list k' = rt_timer_list k" "timers k' = timers k"
    and "stat (threads k' t) = stat (threads k t)"
  shows "thread_timer_ok k' t = thread_timer_ok k t"
  using assms by (simp add: thread_timer_ok_def thread_live_def)

lemma timers_wf_but: "timers_wf k \<longleftrightarrow> timers_but {} k"
  by (simp add: timers_wf_def timers_but_def)

lemma timers_but_mono: "timers_but E k \<Longrightarrow> E \<subseteq> E' \<Longrightarrow> timers_but E' k"
  by (auto simp: timers_but_def)

lemma timers_but_close: "timers_but (insert t E) k \<Longrightarrow> thread_timer_ok k t \<Longrightarrow> timers_but E k"
  by (auto simp: timers_but_def)

lemma kernel_but_upd_thread [simp]: "kernel_but t Od (upd_thread t f k) = kernel_but t Od k"
proof -
  have "timers_but {t} (upd_thread t f k) = timers_but {t} k"
    by (rule timers_but_cong) auto
  moreover have "tick_wf Od (upd_thread t f k) = tick_wf Od k" by (rule tick_wf_cong) simp_all
  moreover have "group_wf (upd_thread t f k) = group_wf k" by (simp add: group_wf_def)
  ultimately show ?thesis unfolding kernel_but_def by simp
qed

lemma kernel_but_unlinked: "kernel_but t Od k \<Longrightarrow> unlinked t (tlists k)"
  by (simp add: kernel_but_def)

lemma kernel_but_close:
  assumes b: "kernel_but t Od k" and "stat (threads k t) \<noteq> RT_THREAD_READY"
    and "thread_live (threads k t) \<Longrightarrow> thread_attr_ok (threads k t)" and "thread_timer_ok k t"
  shows "kernel_wf Od k"
proof (rule kernel_wfI)
  show "wf_ltab (tlists k)" and "group_wf k" and "tick_wf Od k"
    using b by (simp_all add: kernel_but_def)
  show "ready_wf k" unfolding ready_wf_def
  proof (intro allI)
    fix t' p
    show "t' \<in> set (tlists k (Ready p)) \<longleftrightarrow>
        stat (threads k t') = RT_THREAD_READY \<and> unat (current_priority (threads k t')) = p"
      using b assms(2) by (cases "t' = t") (auto simp: kernel_but_def unlinked_def)
  qed
  show "attr_wf k" unfolding attr_wf_def
  proof (intro allI impI)
    fix t' assume "thread_live (threads k t')"
    then show "thread_attr_ok (threads k t')"
      using b assms(3) by (cases "t' = t") (simp_all add: kernel_but_def)
  qed
  have "(\<forall>q. t' \<in> set (tlists k (Wait q)) \<longrightarrow> stat (threads k t') = RT_THREAD_SUSPEND) \<and>
      (t' \<in> set (tlists k Defunct) \<longrightarrow> stat (threads k t') = RT_THREAD_CLOSE)" for t'
    using b by (cases "t' = t") (simp_all add: kernel_but_def unlinked_def)
  then show "queues_wf k" unfolding queues_wf_def by blast
  show "timers_wf k"
    unfolding timers_wf_but by (rule timers_but_close [OF _ assms(4)]) (use b in \<open>simp add: kernel_but_def\<close>)
qed

text \<open>Off any list that is not a ready list.\<close>

lemma upd_tlists_same:
  "timers_but E (upd_tlists f k) = timers_but E k" "tick_wf Od (upd_tlists f k) = tick_wf Od k"
  "thread_timer_ok (upd_tlists f k) t = thread_timer_ok k t"
  by (rule timers_but_cong tick_wf_cong thread_timer_ok_cong; simp)+

lemma kernel_wf_unlink:
  assumes k: "kernel_wf Od k" and t: "stat (threads k t) \<noteq> RT_THREAD_READY"
  shows "kernel_but t Od (upd_tlists (unlink t) k)"
proof -
  note wf = kernel_wfD [OF k]
  have nr: "t \<notin> set (tlists k (Ready p))" for p using t by (simp add: ready_wfD [OF wf(3)])
  have "group_wf (upd_tlists (unlink t) k)"
    using wf(4) nr by (simp add: group_wf_def removeAll_id)
  moreover have "timers_but {t} k" using wf(7) by (auto simp: timers_wf_but elim: timers_but_mono)
  ultimately show ?thesis
    using wf(2,3,5,6,8)
    by (simp add: kernel_but_def upd_tlists_same ready_wfD attr_wfD queues_wf_def)
qed

text \<open>\<^const>\<open>rt_schedule_remove_thread\<close>, for a thread in any state whose mask fits its priority.\<close>

definition remove_group :: "tid \<Rightarrow> kernel \<Rightarrow> u32" where
  "remove_group t k =
     (if removeAll t (tlists k (Ready (unat (current_priority (threads k t))))) = []
      then rt_thread_ready_priority_group k AND NOT (number_mask (threads k t))
      else rt_thread_ready_priority_group k)"

lemma rt_schedule_remove_thread_eq:
  assumes "unat (current_priority (threads k t)) < RT_THREAD_PRIORITY_MAX"
  shows "rt_schedule_remove_thread t k =
     Some ((upd_tlists (unlink t) k)\<lparr>rt_thread_ready_priority_group := remove_group t k\<rparr>)"
  using assms by (simp add: rt_schedule_remove_thread_def rt_assert_def Let_def remove_group_def)

lemma upd_group_same:
  "timers_but E (k\<lparr>rt_thread_ready_priority_group := g\<rparr>) = timers_but E k"
  "tick_wf Od (k\<lparr>rt_thread_ready_priority_group := g\<rparr>) = tick_wf Od k"
  "thread_timer_ok (k\<lparr>rt_thread_ready_priority_group := g\<rparr>) t = thread_timer_ok k t"
  by (rule timers_but_cong tick_wf_cong thread_timer_ok_cong; simp)+

lemma kernel_wf_remove:
  assumes k: "kernel_wf Od k" and a: "thread_attr_ok (threads k t)"
  shows "returns (rt_schedule_remove_thread t k) (\<lambda>k'. kernel_but t Od k' \<and>
    k' = (upd_tlists (unlink t) k)\<lparr>rt_thread_ready_priority_group := remove_group t k\<rparr>)"
proof -
  note wf = kernel_wfD [OF k]
  let ?p = "unat (current_priority (threads k t))"
  let ?k = "(upd_tlists (unlink t) k)\<lparr>rt_thread_ready_priority_group := remove_group t k\<rparr>"
  have p: "?p < 32" and m: "number_mask (threads k t) = push_bit ?p 1"
    using a by (simp_all add: thread_attr_ok_def RT_THREAD_PRIORITY_MAX_def)
  have "group_wf ?k"
    unfolding group_wf_def
  proof
    fix p
    show "bit (rt_thread_ready_priority_group ?k) p \<longleftrightarrow> tlists ?k (Ready p) \<noteq> []"
    proof (cases "p = ?p")
      case True
      then show ?thesis
        using group_wfD [OF wf(4), of p] bit_and_not_push_bit [of ?p "rt_thread_ready_priority_group k" p] \<open>?p < 32\<close>
        by (auto simp: remove_group_def m)
    next
      case False
      then have "t \<notin> set (tlists k (Ready p))" by (simp add: ready_wfD [OF wf(3)])
      then have "removeAll t (tlists k (Ready p)) = tlists k (Ready p)" by (simp add: removeAll_id)
      with False show ?thesis
        using group_wfD [OF wf(4), of p] bit_and_not_push_bit [of ?p "rt_thread_ready_priority_group k" p] \<open>?p < 32\<close>
        by (simp add: remove_group_def m)
    qed
  qed
  moreover have "timers_but {t} k" using wf(7) by (auto simp: timers_wf_but elim: timers_but_mono)
  ultimately have "kernel_but t Od ?k"
    using wf(2,3,5,6,8)
    by (simp add: kernel_but_def upd_tlists_same upd_group_same ready_wfD attr_wfD queues_wf_def)
  with p show ?thesis by (simp add: rt_schedule_remove_thread_eq RT_THREAD_PRIORITY_MAX_def)
qed


text \<open>Back onto a ready list.\<close>

lemma rt_schedule_insert_thread_eq:
  assumes "unat (current_priority (threads k t)) < RT_THREAD_PRIORITY_MAX"
  shows "rt_schedule_insert_thread t k =
     Some ((upd_tlists (ins_tail (Ready (unat (current_priority (threads k t)))) t)
             (upd_thread t (\<lambda>th. th\<lparr>stat := RT_THREAD_READY\<rparr>) k))
           \<lparr>rt_thread_ready_priority_group :=
              rt_thread_ready_priority_group k OR number_mask (threads k t)\<rparr>)"
  using assms by (simp add: rt_schedule_insert_thread_def rt_assert_def Let_def)

lemma kernel_but_insert:
  assumes b: "kernel_but t Od k" and a: "thread_attr_ok (threads k t)"
    and tm: "timeout_func (timers k (Thread_Timer t)) = CB_Thread_Timeout t"
      "\<not> timer_periodic (timers k (Thread_Timer t))" "\<not> timer_activated (timers k (Thread_Timer t))"
  shows "returns (rt_schedule_insert_thread t k) (\<lambda>k'. kernel_wf Od k' \<and>
     k' = (upd_tlists (ins_tail (Ready (unat (current_priority (threads k t)))) t)
             (upd_thread t (\<lambda>th. th\<lparr>stat := RT_THREAD_READY\<rparr>) k))
           \<lparr>rt_thread_ready_priority_group :=
              rt_thread_ready_priority_group k OR number_mask (threads k t)\<rparr>)"
proof -
  let ?p = "unat (current_priority (threads k t))"
  let ?k = "(upd_tlists (ins_tail (Ready ?p) t) (upd_thread t (\<lambda>th. th\<lparr>stat := RT_THREAD_READY\<rparr>) k))
           \<lparr>rt_thread_ready_priority_group := rt_thread_ready_priority_group k OR number_mask (threads k t)\<rparr>"
  have p: "?p < 32" and m: "number_mask (threads k t) = push_bit ?p 1"
    using a by (simp_all add: thread_attr_ok_def RT_THREAD_PRIORITY_MAX_def)
  have u: "t \<notin> set (tlists k h)" for h using b by (simp add: kernel_but_def unlinked_def)
  have "kernel_wf Od ?k"
  proof (rule kernel_wfI)
    show "wf_ltab (tlists ?k)"
      using b wf_ltab_ins_tail [of "tlists k" t "Ready ?p"]
      by (simp add: kernel_but_def del: ins_tail_apply)
    show "ready_wf ?k" unfolding ready_wf_def
    proof (intro allI)
      fix t' p
      show "t' \<in> set (tlists ?k (Ready p)) \<longleftrightarrow>
          stat (threads ?k t') = RT_THREAD_READY \<and> unat (current_priority (threads ?k t')) = p"
        using b u by (cases "t' = t") (auto simp: kernel_but_def)
    qed
    have "group_wf k" using b by (simp add: kernel_but_def)
    then show "group_wf ?k"
      using bit_or_push_bit [of ?p "rt_thread_ready_priority_group k"] p by (simp add: group_wf_def m)
    show "attr_wf ?k" unfolding attr_wf_def
    proof (intro allI impI)
      fix t' assume "thread_live (threads ?k t')"
      then show "thread_attr_ok (threads ?k t')"
        using b a by (cases "t' = t") (auto simp: kernel_but_def thread_attr_ok_def rt_scheduler_stack_check_def)
    qed
    have "(\<forall>q. t' \<in> set (tlists ?k (Wait q)) \<longrightarrow> stat (threads ?k t') = RT_THREAD_SUSPEND) \<and>
        (t' \<in> set (tlists ?k Defunct) \<longrightarrow> stat (threads ?k t') = RT_THREAD_CLOSE)" for t'
      using b u by (cases "t' = t") (simp_all add: kernel_but_def)
    then show "queues_wf ?k" unfolding queues_wf_def by blast
    have tb: "timers_but {t} k" using b by (simp add: kernel_but_def)
    have "Thread_Timer t \<notin> set (rt_timer_list k)" using tb tm(3) by (auto simp: timers_but_def)
    then have "thread_timer_ok ?k t" using tm by (simp add: thread_timer_ok_def)
    moreover have "timers_but {t} ?k = timers_but {t} k" by (rule timers_but_cong) auto
    ultimately show "timers_wf ?k"
      unfolding timers_wf_but using tb timers_but_close [of t "{}" ?k] by blast
    have "tick_wf Od ?k = tick_wf Od k" by (rule tick_wf_cong) auto
    then show "tick_wf Od ?k" using b by (simp add: kernel_but_def)
  qed
  with p show ?thesis by (simp add: rt_schedule_insert_thread_eq RT_THREAD_PRIORITY_MAX_def)
qed

text \<open>Onto a waiting list, at any position; and onto the defunct list.\<close>

lemma kernel_wf_enqueue:
  assumes k: "kernel_wf Od k" and st: "stat (threads k t) = RT_THREAD_SUSPEND"
    and u: "unlinked t (tlists k)" and xs: "distinct xs" "set xs = insert t (set (tlists k (Wait q)))"
  shows "kernel_wf Od (upd_tlists (\<lambda>T. T(Wait q := xs)) k)" (is "kernel_wf Od ?k")
proof (rule kernel_wfI)
  note wf = kernel_wfD [OF k]
  show "wf_ltab (tlists ?k)" using wf_ltab_upd [OF wf(2) u xs(1), of "Wait q"] xs(2) by (simp del: fun_upd_apply)
  show "ready_wf ?k" using wf(3) by (simp add: ready_wf_def)
  show "group_wf ?k" using wf(4) by (simp add: group_wf_def)
  show "attr_wf ?k" using wf(5) by (simp add: attr_wf_def)
  show "queues_wf ?k" using wf(6) xs(2) st by (auto simp: queues_wf_def)
  show "timers_wf ?k" "tick_wf Od ?k" using wf(7,8) by (simp_all add: timers_wf_but upd_tlists_same)
qed

lemma kernel_wf_defunct:
  assumes k: "kernel_wf Od k" and st: "stat (threads k t) = RT_THREAD_CLOSE"
    and u: "unlinked t (tlists k)"
  shows "kernel_wf Od (upd_tlists (ins_head Defunct t) k)" (is "kernel_wf Od ?k")
proof (rule kernel_wfI)
  note wf = kernel_wfD [OF k]
  show "wf_ltab (tlists ?k)" using wf_ltab_ins_head [OF wf(2) u] by (simp del: ins_head_apply)
  show "ready_wf ?k" using wf(3) by (simp add: ready_wf_def)
  show "group_wf ?k" using wf(4) by (simp add: group_wf_def)
  show "attr_wf ?k" using wf(5) by (simp add: attr_wf_def)
  show "queues_wf ?k" using wf(6) st by (auto simp: queues_wf_def)
  show "timers_wf ?k" "tick_wf Od ?k" using wf(7,8) by (simp_all add: timers_wf_but upd_tlists_same)
qed


section \<open>Timers\<close>

lemma tm_flag_same [simp]: "tm\<lparr>tm_flag := tm_flag tm\<rparr> = tm"
  by (cases tm) simp

text \<open>The timers \<^const>\<open>rt_timer_start\<close> walks past.\<close>

definition not_later :: "(tmr \<Rightarrow> rt_timer) \<Rightarrow> u32 \<Rightarrow> tmr \<Rightarrow> bool" where
  "not_later tms tick x \<longleftrightarrow> timeout_tick (tms x) - tick = 0 \<or> \<not> timeout_tick (tms x) - tick < RT_TICK_MAX div 2"

lemma row_head_takeWhile:
  "row_head tms tick r ms =
     (if takeWhile (not_later tms tick) ms = [] then r else Some (last (takeWhile (not_later tms tick) ms)))"
proof (induction ms arbitrary: r)
  case (Cons x ms)
  show ?case
  proof (cases "not_later tms tick x")
    case True
    then have "row_head tms tick r (x # ms) = row_head tms tick (Some x) ms"
      by (auto simp: not_later_def)
    with True Cons.IH show ?thesis by simp
  next
    case False
    then show ?thesis by (simp add: not_later_def)
  qed
qed simp

lemma timer_list_insert_eq:
  assumes "distinct ms"
  shows "timer_list_insert tms m ms =
    takeWhile (not_later tms (timeout_tick (tms m))) ms @ m # dropWhile (not_later tms (timeout_tick (tms m))) ms"
proof (cases "takeWhile (not_later tms (timeout_tick (tms m))) ms" rule: rev_cases)
  case Nil
  then have "dropWhile (not_later tms (timeout_tick (tms m))) ms = ms"
    by (metis append_Nil takeWhile_dropWhile_id)
  with Nil show ?thesis by (simp add: timer_list_insert_def row_head_takeWhile)
next
  case (snoc us r)
  let ?ds = "dropWhile (not_later tms (timeout_tick (tms m))) ms"
  have ms: "ms = us @ r # ?ds"
    using takeWhile_dropWhile_id [of "not_later tms (timeout_tick (tms m))" ms] snoc by simp
  then have "r \<notin> set us" using assms by (metis distinct_append not_distinct_conv_prefix)
  then have "after_item r m (us @ r # ?ds) = us @ r # m # ?ds" by (rule after_item_split)
  with ms snoc show ?thesis by (simp add: timer_list_insert_def row_head_takeWhile)
qed

lemma not_later_dist:
  assumes "tick_dist k x \<le> RT_TICK_MAX div 2" and "tick_dist k m \<le> RT_TICK_MAX div 2"
    and "tick_dist k m \<noteq> 0"
  shows "not_later (timers k) (timeout_tick (timers k m)) x \<longleftrightarrow> tick_dist k x \<le> tick_dist k m"
proof -
  define a where "a = tick_dist k x"
  define b where "b = tick_dist k m"
  have d: "timeout_tick (timers k x) - timeout_tick (timers k m) = a - b"
    by (simp add: a_def b_def tick_dist_def)
  have H: "a \<le> 0x7fffffff" "b \<le> 0x7fffffff" "b \<noteq> 0"
    using assms by (simp_all add: a_def b_def tick_half)
  have "(a - b = 0 \<or> \<not> a - b < 0x7fffffff) \<longleftrightarrow> a \<le> b"
  proof (cases "a \<le> b")
    case True
    then show ?thesis
    proof (cases "a = b")
      case False
      with True have "unat (a - b) = 2 ^ 32 + unat a - unat b"
        by (simp add: unat_sub_if_size word_size word_le_nat_alt word_unat_eq_iff)
      moreover have "unat b \<le> 0x7fffffff" using H(2) by (simp add: word_le_nat_alt)
      ultimately have "\<not> a - b < 0x7fffffff" by (simp add: word_less_nat_alt)
      with True show ?thesis by simp
    qed simp
  next
    case False
    then have "unat (a - b) = unat a - unat b" by (simp add: unat_sub_of_le)
    moreover have "unat a \<le> 0x7fffffff" "unat b \<noteq> 0" "unat b < unat a"
      using H False by (simp_all add: word_le_nat_alt unat_eq_0)
    ultimately have "a - b < 0x7fffffff" "a - b \<noteq> 0"
      by (auto simp: word_less_nat_alt)
    with False show ?thesis by simp
  qed
  then show ?thesis by (simp add: not_later_def d tick_half flip: a_def b_def)
qed

lemma sorted_insert_after:
  assumes "sorted (map f xs)"
  shows "sorted (map f (takeWhile (\<lambda>x. f x \<le> f m) xs @ m # dropWhile (\<lambda>x. f x \<le> f m) xs))"
  using assms
proof (induction xs)
  case (Cons x xs)
  show ?case
  proof (cases "f x \<le> f m")
    case True
    have "f x \<le> f y" if "y \<in> set (takeWhile (\<lambda>x. f x \<le> f m) xs @ m # dropWhile (\<lambda>x. f x \<le> f m) xs)" for y
      using that True Cons.prems by (auto dest: set_takeWhileD set_dropWhileD)
    with True Cons show ?thesis by auto
  next
    case False
    with Cons.prems show ?thesis by (auto intro: order.trans [of "f m" "f x"])
  qed
qed simp

text \<open>Taking a timer off the list.\<close>

lemma tick_wf_remove:
  "tick_wf Od k \<Longrightarrow> rt_timer_list k' = removeAll m (rt_timer_list k) \<Longrightarrow> timers k' = timers k \<Longrightarrow>
     rt_tick k' = rt_tick k \<Longrightarrow> tick_wf Od k'"
proof -
  assume w: "tick_wf Od k" and l: "rt_timer_list k' = removeAll m (rt_timer_list k)"
    and eq: "timers k' = timers k" "rt_tick k' = rt_tick k"
  have d: "tick_dist k' = tick_dist k" by (rule ext) (simp only: tick_dist_def eq)
  show "tick_wf Od k'" using w by (auto simp: tick_wf_def l d sorted_map_removeAll)
qed


lemma timers_but_remove:
  assumes "timers_but E k" and "rt_timer_list k' = removeAll m (rt_timer_list k)"
    and "timers k' = timers k" and "threads k' = threads k"
  shows "timers_but E k'"
  using assms by (auto simp: timers_but_def thread_timer_ok_def)

lemma rt_timer_remove_simps [simp]:
  "rt_timer_list (rt_timer_remove m k) = removeAll m (rt_timer_list k)"
  "timers (rt_timer_remove m k) = timers k" "threads (rt_timer_remove m k) = threads k"
  "tlists (rt_timer_remove m k) = tlists k" "rt_tick (rt_timer_remove m k) = rt_tick k"
  "rt_thread_ready_priority_group (rt_timer_remove m k) = rt_thread_ready_priority_group k"
  "rt_current_thread (rt_timer_remove m k) = rt_current_thread k"
  "rt_current_priority (rt_timer_remove m k) = rt_current_priority k"
  "rt_scheduler_lock_nest (rt_timer_remove m k) = rt_scheduler_lock_nest k"
  "rt_interrupt_nest (rt_timer_remove m k) = rt_interrupt_nest k"
  "object_lists (rt_timer_remove m k) = object_lists k" "objects (rt_timer_remove m k) = objects k"
  "kernel_freed (rt_timer_remove m k) = kernel_freed k"
  by (simp_all add: rt_timer_remove_def)

text \<open>Everything of the invariant that is not about timers.\<close>

lemma kernel_wf_timers:
  assumes "kernel_wf Od k" and "tlists k' = tlists k" and "threads k' = threads k"
    and "rt_thread_ready_priority_group k' = rt_thread_ready_priority_group k"
    and "timers_wf k'" and "tick_wf Od' k'"
  shows "kernel_wf Od' k'"
proof -
  have "ready_wf k' = ready_wf k" by (simp only: ready_wf_def assms)
  moreover have "group_wf k' = group_wf k" by (simp only: group_wf_def assms)
  moreover have "attr_wf k' = attr_wf k" by (simp only: attr_wf_def assms)
  moreover have "queues_wf k' = queues_wf k" by (simp only: queues_wf_def assms)
  ultimately show ?thesis using assms by (simp add: kernel_wf_def sched_wf_def)
qed

lemma kernel_but_timers:
  assumes "kernel_but t Od k" and "tlists k' = tlists k" and "threads k' = threads k"
    and "rt_thread_ready_priority_group k' = rt_thread_ready_priority_group k"
    and "timers_but {t} k'" and "tick_wf Od k'"
  shows "kernel_but t Od k'"
proof -
  have "group_wf k' = group_wf k" by (simp only: group_wf_def assms)
  with assms show ?thesis by (simp add: kernel_but_def)
qed

lemma kernel_wf_timer_remove: "kernel_wf Od k \<Longrightarrow> kernel_wf Od (rt_timer_remove m k)"
  by (rule kernel_wf_timers)
    (auto simp: timers_wf_but kernel_wf_def intro: timers_but_remove tick_wf_remove)

lemma kernel_but_timer_remove: "kernel_but t Od k \<Longrightarrow> kernel_but t Od (rt_timer_remove m k)"
  by (rule kernel_but_timers) (auto simp: kernel_but_def intro: timers_but_remove tick_wf_remove)

text \<open>A timer that is not on the list may change at will, as long as its thread stays in order.\<close>

lemma tick_wf_unlisted:
  assumes "tick_wf Od k" and "m \<notin> set (rt_timer_list k)"
  shows "tick_wf Od (upd_timer m f k)"
proof -
  have "map (tick_dist (upd_timer m f k)) (rt_timer_list k) = map (tick_dist k) (rt_timer_list k)"
    using assms(2) by (auto simp: tick_dist_def)
  moreover have "tick_dist (upd_timer m f k) x = tick_dist k x" if "x \<in> set (rt_timer_list k)" for x
    using that assms(2) by (auto simp: tick_dist_def)
  ultimately show ?thesis using assms(1) unfolding tick_wf_def by (simp del: map_eq_conv)
qed

lemma timers_but_unlisted:
  assumes "timers_but E k" and "m \<notin> set (rt_timer_list k)"
    and "\<And>t. m = Thread_Timer t \<Longrightarrow> t \<notin> E \<Longrightarrow> thread_timer_ok (upd_timer m f k) t"
  shows "timers_but E (upd_timer m f k)"
  unfolding timers_but_def
proof (intro conjI allI impI ballI)
  fix t assume "t \<notin> E"
  show "thread_timer_ok (upd_timer m f k) t"
  proof (cases "m = Thread_Timer t")
    case True
    with assms(3) \<open>t \<notin> E\<close> show ?thesis by simp
  next
    case False
    have "thread_timer_ok k t" using assms(1) \<open>t \<notin> E\<close> by (simp add: timers_but_def)
    with False show ?thesis by (simp add: thread_timer_ok_def)
  qed
qed (use assms(1,2) in \<open>auto simp: timers_but_def\<close>)

text \<open>\<^const>\<open>rt_timer_stop\<close>\<close>

lemma timers_but_stop: "timers_but E k \<Longrightarrow> timers_but E (fst (rt_timer_stop m k))"
proof -
  assume k: "timers_but E k"
  have "timers_but E (rt_timer_remove m k)" using k by (rule timers_but_remove) auto
  then have "timers_but E (upd_timer m (\<lambda>tm. tm\<lparr>tm_flag := tm_flag tm AND NOT RT_TIMER_FLAG_ACTIVATED\<rparr>)
      (rt_timer_remove m k))"
    by (rule timers_but_unlisted) (use k in \<open>auto simp: timers_but_def thread_timer_ok_def\<close>)
  with k show ?thesis by (simp add: rt_timer_stop_def)
qed

lemma tick_wf_stop: "tick_wf Od k \<Longrightarrow> tick_wf Od (fst (rt_timer_stop m k))"
proof -
  assume k: "tick_wf Od k"
  have "tick_wf Od (rt_timer_remove m k)" using k by (rule tick_wf_remove) auto
  with k show ?thesis by (simp add: rt_timer_stop_def tick_wf_unlisted)
qed

lemma rt_timer_stop_frame [simp]:
  "threads (fst (rt_timer_stop m k)) = threads k" "tlists (fst (rt_timer_stop m k)) = tlists k"
  "rt_thread_ready_priority_group (fst (rt_timer_stop m k)) = rt_thread_ready_priority_group k"
  "rt_current_thread (fst (rt_timer_stop m k)) = rt_current_thread k"
  "rt_scheduler_lock_nest (fst (rt_timer_stop m k)) = rt_scheduler_lock_nest k"
  "rt_interrupt_nest (fst (rt_timer_stop m k)) = rt_interrupt_nest k"
  "rt_tick (fst (rt_timer_stop m k)) = rt_tick k"
  by (simp_all add: rt_timer_stop_def)

lemma rt_timer_stop_self:
  assumes "\<And>m. m \<in> set (rt_timer_list k) \<Longrightarrow> timer_activated (timers k m)"
  shows "\<not> timer_activated (timers (fst (rt_timer_stop m k)) m)"
    and "m \<notin> set (rt_timer_list (fst (rt_timer_stop m k)))"
    and "timeout_func (timers (fst (rt_timer_stop m k)) m) = timeout_func (timers k m)"
    and "timer_periodic (timers (fst (rt_timer_stop m k)) m) = timer_periodic (timers k m)"
  using assms [of m] by (auto simp: rt_timer_stop_def)

lemma kernel_wf_timer_stop: "kernel_wf Od k \<Longrightarrow> kernel_wf Od (fst (rt_timer_stop m k))"
  by (rule kernel_wf_timers [of Od k])
    (auto simp: timers_wf_but tick_wf_stop timers_but_stop kernel_wf_def)

lemma kernel_but_timer_stop: "kernel_but t Od k \<Longrightarrow> kernel_but t Od (fst (rt_timer_stop m k))"
  by (rule kernel_but_timers) (auto simp: kernel_but_def tick_wf_stop timers_but_stop)


text \<open>\<^const>\<open>rt_timer_start\<close>\<close>

definition timer_may_start :: "tmr \<Rightarrow> kernel \<Rightarrow> bool" where
  "timer_may_start m k \<longleftrightarrow> tm_init_tick (timers k m) < RT_TICK_MAX div 2 \<and>
     (case m of Thread_Timer t \<Rightarrow> stat (threads k t) = RT_THREAD_SUSPEND
              | App_Timer i \<Rightarrow> \<exists>c. timeout_func (timers k m) = CB_App c)"

text \<open>The state after a successful start.\<close>

definition start_timer :: "tmr \<Rightarrow> kernel \<Rightarrow> kernel" where
  "start_timer m k =
     (let tms = (timers k)(m := (timers k m)\<lparr>timeout_tick := rt_tick k + tm_init_tick (timers k m)\<rparr>)
      in k\<lparr>rt_timer_list := timer_list_insert tms m (rt_timer_list k),
           timers := tms(m := (tms m)\<lparr>tm_flag := tm_flag (tms m) OR RT_TIMER_FLAG_ACTIVATED\<rparr>)\<rparr>)"

lemma rt_timer_start_eq:
  assumes "\<not> timer_activated (timers k m)" and "tm_init_tick (timers k m) < RT_TICK_MAX div 2"
  shows "rt_timer_start m k = Some (start_timer m k, - RT_EOK)"
  using assms
  by (simp add: rt_timer_start_def rt_assert_def Let_def start_timer_def upd_timer_def)

lemma start_timer_frame [simp]:
  "threads (start_timer m k) = threads k" "tlists (start_timer m k) = tlists k"
  "rt_thread_ready_priority_group (start_timer m k) = rt_thread_ready_priority_group k"
  "rt_current_thread (start_timer m k) = rt_current_thread k"
  "rt_scheduler_lock_nest (start_timer m k) = rt_scheduler_lock_nest k"
  "rt_interrupt_nest (start_timer m k) = rt_interrupt_nest k"
  "rt_tick (start_timer m k) = rt_tick k"
  "x \<noteq> m \<Longrightarrow> timers (start_timer m k) x = timers k x"
  "timeout_func (timers (start_timer m k) x) = timeout_func (timers k x)"
  "timer_periodic (timers (start_timer m k) x) = timer_periodic (timers k x)"
  "timer_activated (timers (start_timer m k) x) \<longleftrightarrow> x = m \<or> timer_activated (timers k x)"
  "tm_init_tick (timers (start_timer m k) x) = tm_init_tick (timers k x)"
  "timeout_tick (timers (start_timer m k) m) = rt_tick k + tm_init_tick (timers k m)"
  by (simp_all add: start_timer_def Let_def)

lemma init_tick_dist:
  assumes "(i :: u32) < RT_TICK_MAX div 2"
  shows "i + 1 \<le> RT_TICK_MAX div 2" and "i + 1 \<noteq> 0"
proof -
  have "unat i < 0x7fffffff" using assms by (simp add: tick_half word_less_nat_alt)
  then have "unat (i + 1) = unat i + 1" by (simp add: unat_word_ariths)
  with \<open>unat i < 0x7fffffff\<close> show "i + 1 \<le> RT_TICK_MAX div 2" and "i + 1 \<noteq> 0"
    by (auto simp: tick_half word_le_nat_alt unat_eq_0 [symmetric] simp del: unat_eq_0)
qed

lemma tick_dist_start:
  "tick_dist (start_timer m k) x = (if x = m then tm_init_tick (timers k m) + 1 else tick_dist k x)"
  by (simp add: tick_dist_def)

lemma start_timer_list:
  assumes "tick_wf Od k" and "distinct (rt_timer_list k)" and "m \<notin> set (rt_timer_list k)"
    and "tm_init_tick (timers k m) < RT_TICK_MAX div 2"
  shows "rt_timer_list (start_timer m k) =
    takeWhile (\<lambda>x. tick_dist (start_timer m k) x \<le> tick_dist (start_timer m k) m) (rt_timer_list k) @
    m # dropWhile (\<lambda>x. tick_dist (start_timer m k) x \<le> tick_dist (start_timer m k) m) (rt_timer_list k)"
proof -
  let ?k = "start_timer m k"
  let ?tms = "(timers k)(m := (timers k m)\<lparr>timeout_tick := rt_tick k + tm_init_tick (timers k m)\<rparr>)"
  have nl: "not_later ?tms (timeout_tick (?tms m)) x \<longleftrightarrow> tick_dist ?k x \<le> tick_dist ?k m"
    if "x \<in> set (rt_timer_list k)" for x
  proof -
    have "not_later (timers ?k) (timeout_tick (timers ?k m)) x \<longleftrightarrow> tick_dist ?k x \<le> tick_dist ?k m"
      by (rule not_later_dist)
        (use that assms init_tick_dist [OF assms(4)] in \<open>auto simp: tick_dist_start tick_wf_def\<close>)
    moreover have "not_later (timers ?k) (timeout_tick (timers ?k m)) x =
        not_later ?tms (timeout_tick (?tms m)) x"
      using that assms(3) by (auto simp: not_later_def)
    ultimately show ?thesis by simp
  qed
  have "rt_timer_list ?k = timer_list_insert ?tms m (rt_timer_list k)"
    by (simp add: start_timer_def Let_def)
  also have "\<dots> = takeWhile (not_later ?tms (timeout_tick (?tms m))) (rt_timer_list k) @ m #
      dropWhile (not_later ?tms (timeout_tick (?tms m))) (rt_timer_list k)"
    by (rule timer_list_insert_eq [OF assms(2)])
  also have "takeWhile (not_later ?tms (timeout_tick (?tms m))) (rt_timer_list k) =
      takeWhile (\<lambda>x. tick_dist ?k x \<le> tick_dist ?k m) (rt_timer_list k)"
    by (rule takeWhile_cong) (simp_all only: nl)
  also have "dropWhile (not_later ?tms (timeout_tick (?tms m))) (rt_timer_list k) =
      dropWhile (\<lambda>x. tick_dist ?k x \<le> tick_dist ?k m) (rt_timer_list k)"
    by (rule dropWhile_cong) (simp_all only: nl)
  finally show ?thesis .
qed

lemma start_timer_members:
  assumes "distinct (rt_timer_list k)" and "m \<notin> set (rt_timer_list k)"
  shows "set (rt_timer_list (start_timer m k)) = insert m (set (rt_timer_list k))"
    and "distinct (rt_timer_list (start_timer m k))"
proof -
  let ?tms = "(timers k)(m := (timers k m)\<lparr>timeout_tick := rt_tick k + tm_init_tick (timers k m)\<rparr>)"
  let ?P = "not_later ?tms (timeout_tick (?tms m))"
  have l: "rt_timer_list (start_timer m k) = takeWhile ?P (rt_timer_list k) @ m # dropWhile ?P (rt_timer_list k)"
    using timer_list_insert_eq [OF assms(1), of ?tms m] by (simp add: start_timer_def Let_def)
  have *: "set (A @ m # B) = insert m (set xs) \<and> distinct (A @ m # B)"
    if "A @ B = xs" "distinct xs" "m \<notin> set xs" for A B xs
    using that by auto
  show "set (rt_timer_list (start_timer m k)) = insert m (set (rt_timer_list k))"
    and "distinct (rt_timer_list (start_timer m k))"
    using * [OF takeWhile_dropWhile_id assms, of ?P] l by simp_all
qed

lemma kernel_wf_timer_start:
  assumes k: "kernel_wf Od k" and m: "\<not> timer_activated (timers k m)" "timer_may_start m k"
  shows "returns (rt_timer_start m k) (\<lambda>(k', e). e = RT_EOK \<and> kernel_wf Od k' \<and> k' = start_timer m k \<and>
    m \<notin> set (rt_timer_list k) \<and> set (rt_timer_list k') = insert m (set (rt_timer_list k)))"
proof -
  let ?k = "start_timer m k"
  note wf = kernel_wfD [OF k]
  have init: "tm_init_tick (timers k m) < RT_TICK_MAX div 2"
    using m(2) by (simp add: timer_may_start_def)
  have d: "distinct (rt_timer_list k)" and nm: "m \<notin> set (rt_timer_list k)"
    using wf(7) m(1) by (auto simp: timers_wf_def)
  note mem = start_timer_members [OF d nm]
  have "tick_wf Od ?k"
  proof -
    have s: "sorted (map (tick_dist ?k) (rt_timer_list k))"
    proof -
      have "map (tick_dist ?k) (rt_timer_list k) = map (tick_dist k) (rt_timer_list k)"
        using nm by (auto simp: tick_dist_start)
      then show ?thesis using wf(8) by (simp add: tick_wf_def del: map_eq_conv)
    qed
    have "sorted (map (tick_dist ?k) (rt_timer_list ?k))"
      using sorted_insert_after [OF s, of m] start_timer_list [OF wf(8) d nm init] by simp
    with wf(8) show ?thesis
      using init_tick_dist [OF init] by (auto simp: tick_wf_def mem tick_dist_start)
  qed
  moreover have "timers_wf ?k"
    unfolding timers_wf_def
  proof (intro conjI allI ballI impI)
    show "distinct (rt_timer_list ?k)" by (rule mem(2))
  next
    fix x assume "x \<in> set (rt_timer_list ?k)"
    then have "x = m \<or> x \<in> set (rt_timer_list k)" by (simp add: mem(1))
    then show "timer_activated (timers ?k x)" using wf(7) by (auto simp: timers_wf_def)
  next
    fix t
    have "thread_timer_ok k t" using wf(7) by (simp add: timers_wf_def)
    then show "thread_timer_ok ?k t"
      using m(2) by (auto simp: thread_timer_ok_def mem(1) timer_may_start_def)
  next
    fix i assume "App_Timer i \<in> set (rt_timer_list ?k)"
    then show "\<exists>c. timeout_func (timers ?k (App_Timer i)) = CB_App c"
      using wf(7) m(2) by (auto simp: mem(1) timers_wf_def timer_may_start_def)
  qed
  ultimately have "kernel_wf Od ?k" 
    by (intro kernel_wf_timers [OF k]) simp_all
  with mem(1) nm show ?thesis by (simp add: rt_timer_start_eq [OF m(1) init] RT_EOK_def)
qed

end
