(* ===== verification/RT_Thread.thy ===== *)
theory RT_Thread
  imports RT_Invariant
begin

text \<open>
  The threads of src/thread.c, and the two searches by name of src/thread.c and src/object.c that
  take the scheduler lock. A function that may switch to another thread is cut at its
  \<^verbatim>\<open>rt_schedule\<close>: what comes after it in the code runs when the thread is chosen again. Memory of
  stacks is not modelled, only the stack pointer \<^verbatim>\<open>rt_hw_stack_init\<close> computes
  (libcpu/arm/cortex-m3/cpuport.c).
\<close>

section \<open>The code\<close>

text \<open>What a blocking call has done when it reaches its end or its scheduling point.\<close>

datatype 'r outcome = Done 'r | Blocked

definition rt_thread_self :: "kernel \<Rightarrow> tid option" where
  "rt_thread_self k = rt_current_thread k"

definition rt_thread_suspend :: "tid \<Rightarrow> kernel \<Rightarrow> (kernel \<times> rt_err) option" where
  "rt_thread_suspend t k =
     (if stat (threads k t) \<noteq> RT_THREAD_READY then Some (k, - RT_ERROR)
      else do {
        k1 \<leftarrow> rt_schedule_remove_thread t (upd_thread t (\<lambda>th. th\<lparr>stat := RT_THREAD_SUSPEND\<rparr>) k);
        Some (k1, RT_EOK) })"

definition rt_thread_resume :: "tid \<Rightarrow> kernel \<Rightarrow> (kernel \<times> rt_err) option" where
  "rt_thread_resume t k =
     (if stat (threads k t) \<noteq> RT_THREAD_SUSPEND then Some (k, - RT_ERROR)
      else do {
        let k1 = upd_tlists (unlink t) k;
        let k2 = fst (rt_timer_stop (Thread_Timer t) k1);
        k3 \<leftarrow> rt_schedule_insert_thread t k2;
        Some (k3, RT_EOK) })"

definition rt_thread_timeout :: "tid \<Rightarrow> kernel \<Rightarrow> kernel option" where
  "rt_thread_timeout t k =
     do { rt_assert (stat (threads k t) = RT_THREAD_SUSPEND);
          let k1 = upd_thread t (\<lambda>th. th\<lparr>error := - RT_ETIMEOUT\<rparr>) k;
          let k2 = upd_tlists (unlink t) k1;
          k3 \<leftarrow> rt_schedule_insert_thread t k2;
          rt_schedule k3 }"

text \<open>The stack pointer of a new thread: below the aligned end of the stack, one frame of 16 words.\<close>

definition rt_hw_stack_init :: "u32 \<Rightarrow> u32" where
  "rt_hw_stack_init addr = RT_ALIGN_DOWN (addr + 4) 8 - 64"

text \<open>\<^verbatim>\<open>_rt_thread_init\<close>. The fields it does not assign keep what the memory held.\<close>

definition rt_thread_init0 ::
  "tid \<Rightarrow> string \<Rightarrow> u32 \<Rightarrow> u32 \<Rightarrow> u8 \<Rightarrow> u32 \<Rightarrow> kernel \<Rightarrow> (kernel \<times> rt_err) option" where
  "rt_thread_init0 t name stack_start stk_size priority tick k =
     do { let k1 = upd_thread t (\<lambda>th. th\<lparr>stack_addr := stack_start, stack_size := ucast stk_size\<rparr>) k;
          let k2 = upd_thread t (\<lambda>th. th\<lparr>sp :=
                     rt_hw_stack_init (stack_addr th + ucast (stack_size th) - 4)\<rparr>) k1;
          rt_assert (unat priority < RT_THREAD_PRIORITY_MAX);
          let k3 = upd_thread t (\<lambda>th. th\<lparr>init_priority := priority, current_priority := priority,
                     init_tick := tick, remaining_tick := tick,
                     error := RT_EOK, stat := RT_THREAD_INIT, has_cleanup := False\<rparr>) k2;
          Some (rt_timer_init (Thread_Timer t) name (CB_Thread_Timeout t) 0 RT_TIMER_FLAG_ONE_SHOT k3,
                RT_EOK) }"

definition rt_thread_init ::
  "tid \<Rightarrow> string \<Rightarrow> u32 \<Rightarrow> u32 \<Rightarrow> u8 \<Rightarrow> u32 \<Rightarrow> kernel \<Rightarrow> (kernel \<times> rt_err) option" where
  "rt_thread_init t name stack_start stk_size priority tick k =
     do { rt_assert (stack_start \<noteq> 0);
          rt_thread_init0 t name stack_start stk_size priority tick
            (rt_object_init (Obj_Thread t) RT_Object_Class_Thread name k) }"

definition rt_thread_startup :: "tid \<Rightarrow> kernel \<Rightarrow> (kernel \<times> rt_err) option" where
  "rt_thread_startup t k =
     do { rt_assert (stat (threads k t) = RT_THREAD_INIT);
          let k1 = upd_thread t (\<lambda>th. th\<lparr>current_priority := init_priority th\<rparr>) k;
          let k2 = upd_thread t (\<lambda>th. th\<lparr>number_mask := push_bit (unat (current_priority th)) 1,
                                         stat := RT_THREAD_SUSPEND\<rparr>) k1;
          (k3, e) \<leftarrow> rt_thread_resume t k2;
          k4 \<leftarrow> (if rt_thread_self k3 \<noteq> None then rt_schedule k3 else Some k3);
          Some (k4, RT_EOK) }"

definition rt_thread_detach :: "tid \<Rightarrow> kernel \<Rightarrow> (kernel \<times> rt_err) option" where
  "rt_thread_detach t k =
     do { k1 \<leftarrow> rt_schedule_remove_thread t k;
          let k2 = fst (rt_timer_detach (Thread_Timer t) k1);
          let k3 = upd_thread t (\<lambda>th. th\<lparr>stat := RT_THREAD_CLOSE\<rparr>) k2;
          let k4 = rt_object_detach (Obj_Thread t) k3;
          Some (if has_cleanup (threads k4 t) then upd_tlists (ins_head Defunct t) k4 else k4, RT_EOK) }"

text \<open>\<open>alloc\<close> and \<open>stack\<close> are what the two allocations returned.\<close>

definition rt_thread_create ::
  "tid option \<Rightarrow> u32 option \<Rightarrow> string \<Rightarrow> u32 \<Rightarrow> u8 \<Rightarrow> u32 \<Rightarrow> kernel \<Rightarrow> (tid option \<times> kernel) option" where
  "rt_thread_create alloc stack name stk_size priority tick k =
     do { (ob, k1) \<leftarrow> rt_object_allocate (map_option Obj_Thread alloc) RT_Object_Class_Thread name k;
          (case alloc of
             None \<Rightarrow> Some (None, k1)
           | Some t \<Rightarrow>
               (case stack of
                  None \<Rightarrow> do { k2 \<leftarrow> rt_object_delete (Obj_Thread t) k1; Some (None, k2) }
                | Some stack_start \<Rightarrow>
                    do { (k2, e) \<leftarrow> rt_thread_init0 t name stack_start stk_size priority tick k1;
                         Some (Some t, k2) })) }"

definition rt_thread_delete :: "tid \<Rightarrow> kernel \<Rightarrow> (kernel \<times> rt_err) option" where
  "rt_thread_delete t k =
     do { k1 \<leftarrow> rt_schedule_remove_thread t k;
          let k2 = fst (rt_timer_detach (Thread_Timer t) k1);
          let k3 = upd_thread t (\<lambda>th. th\<lparr>stat := RT_THREAD_CLOSE\<rparr>) k2;
          Some (upd_tlists (ins_head Defunct t) k3, RT_EOK) }"

text \<open>The function a thread's entry returns to. It ends in a switch to another thread.\<close>

definition rt_thread_exit :: "kernel \<Rightarrow> kernel option" where
  "rt_thread_exit k =
     (case rt_current_thread k of None \<Rightarrow> None
      | Some t \<Rightarrow>
          do { k1 \<leftarrow> rt_schedule_remove_thread t k;
               let k2 = upd_thread t (\<lambda>th. th\<lparr>stat := RT_THREAD_CLOSE\<rparr>) k1;
               let k3 = fst (rt_timer_detach (Thread_Timer t) k2);
               let k4 = (if rt_object_is_systemobject (Obj_Thread t) k3 \<and> \<not> has_cleanup (threads k3 t)
                         then rt_object_detach (Obj_Thread t) k3
                         else upd_tlists (ins_head Defunct t) k3);
               rt_schedule k4 })"

text \<open>The test \<^verbatim>\<open>tlist.next != tlist.prev\<close> says that the thread shares its ready list.\<close>

definition rt_thread_yield :: "kernel \<Rightarrow> (kernel \<times> rt_err) option" where
  "rt_thread_yield k =
     (case rt_current_thread k of None \<Rightarrow> None
      | Some t \<Rightarrow>
          let p = unat (current_priority (threads k t)) in
          if stat (threads k t) = RT_THREAD_READY \<and> 1 < length (tlists k (Ready p))
          then do { let k1 = upd_tlists (ins_tail (Ready p) t) (upd_tlists (unlink t) k);
                    k2 \<leftarrow> rt_schedule k1;
                    Some (k2, RT_EOK) }
          else Some (k, RT_EOK))"

text \<open>\<^verbatim>\<open>rt_thread_sleep\<close> up to its scheduling point, and what follows it.\<close>

definition rt_thread_sleep :: "u32 \<Rightarrow> kernel \<Rightarrow> kernel option" where
  "rt_thread_sleep tick k =
     (case rt_current_thread k of None \<Rightarrow> None
      | Some t \<Rightarrow>
          do { (k1, e1) \<leftarrow> rt_thread_suspend t k;
               let k2 = fst (rt_timer_control (Thread_Timer t) RT_TIMER_CTRL_SET_TIME tick k1);
               (k3, e3) \<leftarrow> rt_timer_start (Thread_Timer t) k2;
               rt_schedule k3 })"

definition rt_thread_sleep_resume :: "tid \<Rightarrow> kernel \<Rightarrow> kernel \<times> rt_err" where
  "rt_thread_sleep_resume t k =
     (if error (threads k t) = - RT_ETIMEOUT
      then upd_thread t (\<lambda>th. th\<lparr>error := RT_EOK\<rparr>) k else k, RT_EOK)"

definition rt_thread_delay :: "u32 \<Rightarrow> kernel \<Rightarrow> kernel option" where
  "rt_thread_delay tick k = rt_thread_sleep tick k"

definition RT_THREAD_CTRL_STARTUP :: u8 where "RT_THREAD_CTRL_STARTUP = 0"
definition RT_THREAD_CTRL_CLOSE :: u8 where "RT_THREAD_CTRL_CLOSE = 1"
definition RT_THREAD_CTRL_CHANGE_PRIORITY :: u8 where "RT_THREAD_CTRL_CHANGE_PRIORITY = 2"

text \<open>\<open>arg\<close>: the priority the argument points to. A shift by 32 or more is undefined in C.\<close>

definition rt_thread_control :: "tid \<Rightarrow> u8 \<Rightarrow> u8 \<Rightarrow> kernel \<Rightarrow> (kernel \<times> rt_err) option" where
  "rt_thread_control t cmd arg k =
     (if cmd = RT_THREAD_CTRL_CHANGE_PRIORITY then
        do { rt_assert (unat arg < 32);
             let set_prio = upd_thread t (\<lambda>th. th\<lparr>current_priority := arg,
                                                 number_mask := push_bit (unat arg) 1\<rparr>);
             (if stat (threads k t) = RT_THREAD_READY then
                do { k1 \<leftarrow> rt_schedule_remove_thread t k;
                     k2 \<leftarrow> rt_schedule_insert_thread t (set_prio k1);
                     Some (k2, RT_EOK) }
              else Some (set_prio k, RT_EOK)) }
      else if cmd = RT_THREAD_CTRL_STARTUP then rt_thread_startup t k
      else if cmd = RT_THREAD_CTRL_CLOSE then rt_thread_delete t k
      else Some (k, RT_EOK))"

text \<open>Searches by name. The container of a class that does not exist is out of the array.\<close>

definition rt_object_find :: "string \<Rightarrow> u8 \<Rightarrow> kernel \<Rightarrow> (kobj option \<times> kernel) option" where
  "rt_object_find name type k =
     (if RT_Object_Class_Unknown < unat type then Some (None, k)
      else do {
        rt_assert (rt_interrupt_nest k = 0);
        let k1 = rt_enter_critical k;
        rt_assert (unat type < RT_Object_Class_Unknown);
        let found = find_named (objects k1) name (object_lists k1 (unat type));
        k2 \<leftarrow> rt_exit_critical k1;
        Some (found, k2) })"

definition rt_thread_find :: "string \<Rightarrow> kernel \<Rightarrow> (kobj option \<times> kernel) option" where
  "rt_thread_find name k =
     do { let k1 = (if rt_thread_self k \<noteq> None then rt_enter_critical k else k);
          let found = find_named (objects k1) name (object_lists k1 RT_Object_Class_Thread);
          k2 \<leftarrow> (if rt_thread_self k1 \<noteq> None then rt_exit_critical k1 else Some k1);
          Some (found, k2) }"


section \<open>Suspending and resuming\<close>

definition suspend_state :: "tid \<Rightarrow> kernel \<Rightarrow> kernel" where
  "suspend_state t k = upd_thread t (\<lambda>th. th\<lparr>stat := RT_THREAD_SUSPEND\<rparr>)
     ((upd_tlists (unlink t) k)\<lparr>rt_thread_ready_priority_group := remove_group t k\<rparr>)"

definition resume_state :: "tid \<Rightarrow> kernel \<Rightarrow> kernel" where
  "resume_state t k =
     (let k2 = fst (rt_timer_stop (Thread_Timer t) (upd_tlists (unlink t) k)) in
      (upd_tlists (ins_tail (Ready (unat (current_priority (threads k2 t)))) t)
             (upd_thread t (\<lambda>th. th\<lparr>stat := RT_THREAD_READY\<rparr>) k2))
           \<lparr>rt_thread_ready_priority_group :=
              rt_thread_ready_priority_group k2 OR number_mask (threads k2 t)\<rparr>)"

lemma suspend_state_simps [simp]:
  "tlists (suspend_state t k) = unlink t (tlists k)"
  "threads (suspend_state t k) = (threads k)(t := (threads k t)\<lparr>stat := RT_THREAD_SUSPEND\<rparr>)"
  "timers (suspend_state t k) = timers k" "rt_timer_list (suspend_state t k) = rt_timer_list k"
  "rt_current_thread (suspend_state t k) = rt_current_thread k"
  "rt_scheduler_lock_nest (suspend_state t k) = rt_scheduler_lock_nest k"
  "rt_interrupt_nest (suspend_state t k) = rt_interrupt_nest k"
  "rt_tick (suspend_state t k) = rt_tick k"
  by (simp_all add: suspend_state_def del: unlink_apply)

lemma resume_state_simps [simp]:
  "tlists (resume_state t k) =
     ins_tail (Ready (unat (current_priority (threads k t)))) t (unlink t (tlists k))"
  "threads (resume_state t k) = (threads k)(t := (threads k t)\<lparr>stat := RT_THREAD_READY\<rparr>)"
  "timers (resume_state t k) = timers (fst (rt_timer_stop (Thread_Timer t) k))"
  "rt_timer_list (resume_state t k) = rt_timer_list (fst (rt_timer_stop (Thread_Timer t) k))"
  "rt_current_thread (resume_state t k) = rt_current_thread k"
  "rt_scheduler_lock_nest (resume_state t k) = rt_scheduler_lock_nest k"
  "rt_interrupt_nest (resume_state t k) = rt_interrupt_nest k"
  "rt_tick (resume_state t k) = rt_tick k"
  by (simp_all add: resume_state_def Let_def rt_timer_stop_def del: unlink_apply ins_tail_apply)

lemma wf_ready_attr:
  "kernel_wf Od k \<Longrightarrow> thread_live (threads k t) \<Longrightarrow> thread_attr_ok (threads k t)"
  by (rule attr_wfD [OF kernel_wfD(5)])

lemma wf_timer:
  assumes "kernel_wf Od k"
  shows "thread_live (threads k t) \<Longrightarrow> timeout_func (timers k (Thread_Timer t)) = CB_Thread_Timeout t"
    and "thread_live (threads k t) \<Longrightarrow> \<not> timer_periodic (timers k (Thread_Timer t))"
    and "stat (threads k t) = RT_THREAD_READY \<Longrightarrow> \<not> timer_activated (timers k (Thread_Timer t))"
    and "Thread_Timer t \<in> set (rt_timer_list k) \<Longrightarrow> stat (threads k t) = RT_THREAD_SUSPEND"
    and "m \<in> set (rt_timer_list k) \<Longrightarrow> timer_activated (timers k m)"
    and "distinct (rt_timer_list k)"
  using kernel_wfD(7) [OF assms] by (auto simp: timers_wf_def thread_timer_ok_def)

lemma rt_thread_suspend_returns:
  assumes k: "kernel_wf Od k" and st: "stat (threads k t) = RT_THREAD_READY"
  shows "rt_thread_suspend t k = Some (suspend_state t k, RT_EOK) \<and> kernel_wf Od (suspend_state t k)"
proof -
  have a: "thread_attr_ok (threads k t)" using wf_ready_attr [OF k] st by simp
  then have p: "unat (current_priority (threads k t)) < RT_THREAD_PRIORITY_MAX"
    by (simp add: thread_attr_ok_def)
  let ?k1 = "(upd_tlists (unlink t) k)\<lparr>rt_thread_ready_priority_group := remove_group t k\<rparr>"
  have "kernel_but t Od ?k1" using kernel_wf_remove [OF k a] by (auto simp: returns_iff)
  then have b: "kernel_but t Od (suspend_state t k)"
    by (simp add: suspend_state_def)
  have "kernel_wf Od (suspend_state t k)"
  proof (rule kernel_but_close [OF b])
    show "thread_attr_ok (threads (suspend_state t k) t)"
      using a by (simp add: thread_attr_ok_def rt_scheduler_stack_check_def)
    show "thread_timer_ok (suspend_state t k) t"
      using wf_timer(1-4) [OF k, of t] st by (simp add: thread_timer_ok_def)
  qed simp
  moreover have "rt_thread_suspend t k = Some (suspend_state t k, RT_EOK)"
    using p st
    by (simp add: rt_thread_suspend_def rt_schedule_remove_thread_eq suspend_state_def remove_group_def
        upd_thread_def upd_tlists_def kernel.equality)
  ultimately show ?thesis by simp
qed

lemma rt_thread_resume_returns:
  assumes k: "kernel_wf Od k" and st: "stat (threads k t) = RT_THREAD_SUSPEND"
  shows "rt_thread_resume t k = Some (resume_state t k, RT_EOK) \<and> kernel_wf Od (resume_state t k)"
proof -
  let ?k2 = "fst (rt_timer_stop (Thread_Timer t) (upd_tlists (unlink t) k))"
  have a: "thread_attr_ok (threads k t)" using wf_ready_attr [OF k] st by simp
  have b: "kernel_but t Od ?k2"
    by (rule kernel_but_timer_stop [OF kernel_wf_unlink [OF k]]) (simp add: st)
  have "returns (rt_schedule_insert_thread t ?k2) (\<lambda>k'. kernel_wf Od k' \<and> k' = resume_state t k)"
    using kernel_but_insert [OF b] a wf_timer(1,2) [OF k, of t] st
      rt_timer_stop_self [of "upd_tlists (unlink t) k" "Thread_Timer t"] wf_timer(5) [OF k]
    by (simp add: resume_state_def Let_def returns_iff)
  then show ?thesis using st by (auto simp: rt_thread_resume_def returns_iff Let_def)
qed

lemma resume_state_timer:
  assumes "kernel_wf Od k"
  shows "\<not> timer_activated (timers (resume_state t k) (Thread_Timer t))"
    and "Thread_Timer t \<notin> set (rt_timer_list (resume_state t k))"
    and "set (rt_timer_list (resume_state t k)) \<subseteq> set (rt_timer_list k)"
  using rt_timer_stop_self [of k "Thread_Timer t"] wf_timer(5) [OF assms]
  by (auto simp: rt_timer_stop_def)

section \<open>Scheduling points\<close>

lemma rt_schedule_inv:
  assumes "kernel_inv Od k"
  shows "returns (rt_schedule k) (\<lambda>k'. kernel_inv Od k' \<and> schedule_post k k')"
proof -
  have r: "kernel_wf Od k" "running k" using assms by (simp_all add: kernel_inv_def)
  then obtain c where c: "rt_current_thread k = Some c" by (auto simp: running_def)
  have "\<exists>t. stat (threads k t) = RT_THREAD_READY" using r(2) by (auto simp: running_def)
  with rt_schedule_returns [OF kernel_wfD(1) [OF r(1)] this c] show ?thesis
    using r
    by (auto simp: returns_iff kernel_inv_def kernel_same_wf [OF kernel_same_current] schedule_post_def
        running_def same_but_currentD)
qed

lemma schedule_postD:
  assumes "schedule_post k k'"
  shows "same_but_current k k'"
    and "rt_scheduler_lock_nest k = 0 \<Longrightarrow> rt_current_thread k' = Some t \<Longrightarrow> is_highest k t"
    and "rt_scheduler_lock_nest k \<noteq> 0 \<Longrightarrow> k' = k"
  using assms by (auto simp: schedule_post_def)


lemma schedule_post_frame:
  assumes "schedule_post k k'"
  shows "tlists k' = tlists k" "threads k' = threads k" "rt_scheduler_lock_nest k' = rt_scheduler_lock_nest k"
    "rt_timer_list k' = rt_timer_list k" "timers k' = timers k" "rt_tick k' = rt_tick k"
  using same_but_currentD [OF schedule_postD(1) [OF assms]] by simp_all

text \<open>The running thread is the one that ought to run, unless the scheduler is locked.\<close>

definition scheduled :: "kernel \<Rightarrow> bool" where
  "scheduled k \<longleftrightarrow> (rt_scheduler_lock_nest k = 0 \<longrightarrow> (\<exists>c. rt_current_thread k = Some c \<and> is_highest k c))"

lemma schedule_post_scheduled: "schedule_post k k' \<Longrightarrow> scheduled k'"
  using schedule_post_frame [of k k'] is_highest_cong [of k' k]
  by (auto simp: scheduled_def schedule_post_def)

lemma scheduled_upd_thread [simp]:
  "thread_same (threads k t) (f (threads k t)) \<Longrightarrow> scheduled (upd_thread t f k) = scheduled k"
  by (simp add: scheduled_def)


lemma schedule_post_inv:
  assumes "kernel_inv Od k"
  obtains k' where "rt_schedule k = Some k'" and "kernel_inv Od k'" and "schedule_post k k'"
  using rt_schedule_inv [OF assms] by (auto simp: returns_iff)

lemma running_frame:
  "running k \<Longrightarrow> rt_current_thread k' = rt_current_thread k \<Longrightarrow>
     stat (threads k' tidle) = stat (threads k tidle) \<Longrightarrow> running k'"
  by (simp add: running_def)

lemma kernel_inv_suspend:
  assumes "kernel_inv Od k" and "stat (threads k t) = RT_THREAD_READY" and "t \<noteq> tidle"
  shows "rt_thread_suspend t k = Some (suspend_state t k, RT_EOK) \<and> kernel_inv Od (suspend_state t k)"
  using rt_thread_suspend_returns [of Od k t] assms by (auto simp: kernel_inv_def running_def)

lemma kernel_inv_resume:
  assumes "kernel_inv Od k" and "stat (threads k t) = RT_THREAD_SUSPEND"
  shows "rt_thread_resume t k = Some (resume_state t k, RT_EOK) \<and> kernel_inv Od (resume_state t k)"
  using rt_thread_resume_returns [of Od k t] assms by (auto simp: kernel_inv_def running_def)

section \<open>Arming the timer of a thread\<close>

lemma kernel_wf_set_time:
  assumes "kernel_wf Od k"
  shows "kernel_wf Od (upd_timer m (\<lambda>tm. tm\<lparr>tm_init_tick := x\<rparr>) k)" (is "kernel_wf Od ?k")
proof (rule kernel_wf_timers [OF assms])
  have d: "tick_dist ?k = tick_dist k" by (rule ext) (simp add: tick_dist_def)
  show "tick_wf Od ?k" using kernel_wfD(8) [OF assms] by (simp add: tick_wf_def d)
  have "thread_timer_ok ?k t = thread_timer_ok k t" for t by (auto simp: thread_timer_ok_def)
  then show "timers_wf ?k" using kernel_wfD(7) [OF assms] by (auto simp: timers_wf_def)
qed simp_all

definition arm_timer :: "tid \<Rightarrow> u32 \<Rightarrow> kernel \<Rightarrow> kernel" where
  "arm_timer t tick k =
     start_timer (Thread_Timer t) (upd_timer (Thread_Timer t) (\<lambda>tm. tm\<lparr>tm_init_tick := tick\<rparr>) k)"

lemma arm_timer_simps [simp]:
  "threads (arm_timer t tick k) = threads k" "tlists (arm_timer t tick k) = tlists k"
  "rt_current_thread (arm_timer t tick k) = rt_current_thread k"
  "rt_scheduler_lock_nest (arm_timer t tick k) = rt_scheduler_lock_nest k"
  "rt_interrupt_nest (arm_timer t tick k) = rt_interrupt_nest k"
  "rt_tick (arm_timer t tick k) = rt_tick k"
  "timeout_tick (timers (arm_timer t tick k) (Thread_Timer t)) = rt_tick k + tick"
  "timer_activated (timers (arm_timer t tick k) (Thread_Timer t))"
  "m \<noteq> Thread_Timer t \<Longrightarrow> timers (arm_timer t tick k) m = timers k m"
  by (simp_all add: arm_timer_def)

lemma arm_timer_returns:
  assumes k: "kernel_wf Od k" and st: "stat (threads k t) = RT_THREAD_SUSPEND"
    and na: "\<not> timer_activated (timers k (Thread_Timer t))" and tick: "tick < RT_TICK_MAX div 2"
  shows "rt_timer_start (Thread_Timer t)
      (fst (rt_timer_control (Thread_Timer t) RT_TIMER_CTRL_SET_TIME tick k)) = Some (arm_timer t tick k, RT_EOK)"
    and "kernel_wf Od (arm_timer t tick k)"
    and "set (rt_timer_list (arm_timer t tick k)) = insert (Thread_Timer t) (set (rt_timer_list k))"
proof -
  let ?k = "upd_timer (Thread_Timer t) (\<lambda>tm. tm\<lparr>tm_init_tick := tick\<rparr>) k"
  have "returns (rt_timer_start (Thread_Timer t) ?k) (\<lambda>(k', e). e = RT_EOK \<and> kernel_wf Od k' \<and>
      k' = start_timer (Thread_Timer t) ?k \<and> Thread_Timer t \<notin> set (rt_timer_list ?k) \<and>
      set (rt_timer_list k') = insert (Thread_Timer t) (set (rt_timer_list ?k)))"
    by (rule kernel_wf_timer_start [OF kernel_wf_set_time [OF k]])
      (use st na tick in \<open>simp_all add: timer_may_start_def\<close>)
  moreover have "fst (rt_timer_control (Thread_Timer t) RT_TIMER_CTRL_SET_TIME tick k) = ?k"
    by (simp add: rt_timer_control_def timer_ctrl_defs)
  ultimately show "rt_timer_start (Thread_Timer t)
      (fst (rt_timer_control (Thread_Timer t) RT_TIMER_CTRL_SET_TIME tick k)) = Some (arm_timer t tick k, RT_EOK)"
    and "kernel_wf Od (arm_timer t tick k)"
    and "set (rt_timer_list (arm_timer t tick k)) = insert (Thread_Timer t) (set (rt_timer_list k))"
    by (auto simp: returns_iff arm_timer_def)
qed

section \<open>Sleeping and waking up\<close>

text \<open>The thread that runs, when it may block: it is ready and it is not the idle thread.\<close>

definition may_block :: "kernel \<Rightarrow> tid \<Rightarrow> bool" where
  "may_block k c \<longleftrightarrow> rt_current_thread k = Some c \<and> stat (threads k c) = RT_THREAD_READY \<and> c \<noteq> tidle"

lemma rt_thread_sleep_returns:
  assumes k: "kernel_inv Od k" and c: "may_block k c" and tick: "tick < RT_TICK_MAX div 2"
  shows "\<exists>k1. rt_thread_sleep tick k = rt_schedule k1 \<and> kernel_inv Od k1 \<and>
    k1 = arm_timer c tick (suspend_state c k) \<and>
    set (rt_timer_list k1) = insert (Thread_Timer c) (set (rt_timer_list k))"
proof -
  have st: "stat (threads k c) = RT_THREAD_READY" "c \<noteq> tidle" "rt_current_thread k = Some c"
    using c by (simp_all add: may_block_def)
  note s = kernel_inv_suspend [OF k st(1,2)]
  have wf: "kernel_wf Od (suspend_state c k)" using s by (simp add: kernel_inv_def)
  have na: "\<not> timer_activated (timers (suspend_state c k) (Thread_Timer c))"
    using wf_timer(3) [of Od k c] k st(1) by (simp add: kernel_inv_def)
  note arm = arm_timer_returns [OF wf _ na tick]
  have "kernel_inv Od (arm_timer c tick (suspend_state c k))"
    using arm(2) k st(2) by (simp add: kernel_inv_def running_def)
  with arm s st show ?thesis by (simp add: rt_thread_sleep_def)
qed

text \<open>\<^verbatim>\<open>rt_thread_timeout\<close> neither reads nor writes timers.\<close>

lemma rt_schedule_upd_timer:
  "rt_schedule (upd_timer m f k) = map_option (upd_timer m f) (rt_schedule k)"
  by (auto simp: rt_schedule_def highest_ready_def rt_assert_def Let_def upd_timer_def split: prod.splits)

lemma rt_thread_timeout_upd_timer:
  "rt_thread_timeout t (upd_timer m f k) = map_option (upd_timer m f) (rt_thread_timeout t k)"
proof -
  have i: "rt_schedule_insert_thread t (upd_timer m f k) = map_option (upd_timer m f) (rt_schedule_insert_thread t k)"
    for k by (simp add: rt_schedule_insert_thread_def rt_assert_def Let_def upd_timer_def upd_thread_def upd_tlists_def)
  have c: "upd_tlists (unlink t) (upd_thread t g (upd_timer m f k)) =
      upd_timer m f (upd_tlists (unlink t) (upd_thread t g k))" for g
    by (simp add: upd_timer_def upd_thread_def upd_tlists_def)
  show ?thesis
    by (simp add: rt_thread_timeout_def c i rt_assert_def map_option_bind rt_schedule_upd_timer
        bind_map_option comp_def split: option.split)
qed

lemma rt_thread_timeout_resume:
  assumes k: "kernel_inv Od k" and st: "stat (threads k t) = RT_THREAD_SUSPEND"
    and na: "\<not> timer_activated (timers k (Thread_Timer t))"
  shows "\<exists>k1. rt_thread_timeout t k = rt_schedule k1 \<and> kernel_inv Od k1 \<and>
    k1 = resume_state t (upd_thread t (\<lambda>th. th\<lparr>error := - RT_ETIMEOUT\<rparr>) k) \<and>
    timers k1 = timers k \<and> rt_timer_list k1 = rt_timer_list k"
proof -
  let ?k = "upd_thread t (\<lambda>th. th\<lparr>error := - RT_ETIMEOUT\<rparr>) k"
  have k': "kernel_inv Od ?k" using k by simp
  have a: "unat (current_priority (threads k t)) < RT_THREAD_PRIORITY_MAX"
    using wf_ready_attr [of Od k t] k st by (simp add: kernel_inv_def thread_attr_ok_def)
  have stop: "fst (rt_timer_stop (Thread_Timer t) k0) = k0"
    if "\<not> timer_activated (timers k0 (Thread_Timer t))" for k0
    using that by (simp add: rt_timer_stop_def)
  have "rt_thread_timeout t k = rt_schedule (resume_state t ?k)"
    using st a na
    by (simp add: rt_thread_timeout_def rt_schedule_insert_thread_eq resume_state_def Let_def stop rt_assert_def)
  moreover have "kernel_inv Od (resume_state t ?k)" using kernel_inv_resume [OF k', of t] st by simp
  ultimately show ?thesis using na by (simp add: stop)
qed


section \<open>Creating and starting threads\<close>

lemma kernel_wf_objects [simp]:
  "kernel_wf Od (upd_object ob v k) = kernel_wf Od k"
  "kernel_wf Od (upd_object_lists f k) = kernel_wf Od k"
  "kernel_inv Od (upd_object ob v k) = kernel_inv Od k"
  "kernel_inv Od (upd_object_lists f k) = kernel_inv Od k"
  "kernel_but t Od (upd_object ob v k) = kernel_but t Od k"
  "kernel_but t Od (upd_object_lists f k) = kernel_but t Od k"
proof -
  have 1: "kernel_same k (upd_object ob v k)" and 2: "kernel_same k (upd_object_lists f k)"
    by (simp_all add: kernel_same_def)
  show "kernel_wf Od (upd_object ob v k) = kernel_wf Od k"
    "kernel_wf Od (upd_object_lists f k) = kernel_wf Od k" by (rule kernel_same_wf, fact)+
  then show "kernel_inv Od (upd_object ob v k) = kernel_inv Od k"
    "kernel_inv Od (upd_object_lists f k) = kernel_inv Od k"
    by (simp_all add: kernel_inv_def running_def)
  have "timers_but {t} (upd_object ob v k) = timers_but {t} k" by (rule timers_but_cong) auto
  moreover have "tick_wf Od (upd_object ob v k) = tick_wf Od k" by (rule tick_wf_cong) auto
  ultimately show "kernel_but t Od (upd_object ob v k) = kernel_but t Od k"
    by (simp add: kernel_but_def group_wf_def)
  have "timers_but {t} (upd_object_lists f k) = timers_but {t} k" by (rule timers_but_cong) auto
  moreover have "tick_wf Od (upd_object_lists f k) = tick_wf Od k" by (rule tick_wf_cong) auto
  ultimately show "kernel_but t Od (upd_object_lists f k) = kernel_but t Od k"
    by (simp add: kernel_but_def group_wf_def)
qed

lemma kernel_but_of_unlinked:
  assumes "kernel_wf Od k" and "stat (threads k t) \<noteq> RT_THREAD_READY" and "unlinked t (tlists k)"
  shows "kernel_but t Od k"
proof -
  have "upd_tlists (unlink t) k = k"
    by (simp only: upd_tlists_def unlink_unlinked [OF assms(3)]) simp
  with kernel_wf_unlink [OF assms(1,2)] show ?thesis by simp
qed

text \<open>A thread between \<^verbatim>\<open>rt_thread_init\<close> and \<^verbatim>\<open>rt_thread_startup\<close>.\<close>

definition thread_fresh :: "kernel \<Rightarrow> tid \<Rightarrow> bool" where
  "thread_fresh k t \<longleftrightarrow> stat (threads k t) = RT_THREAD_INIT \<and>
     unat (init_priority (threads k t)) < RT_THREAD_PRIORITY_MAX \<and>
     rt_scheduler_stack_check (threads k t) \<and>
     timeout_func (timers k (Thread_Timer t)) = CB_Thread_Timeout t \<and>
     \<not> timer_periodic (timers k (Thread_Timer t)) \<and> \<not> timer_activated (timers k (Thread_Timer t))"

text \<open>The stack of a new thread has room for a frame and does not wrap around the address space.\<close>

definition stack_fits :: "u32 \<Rightarrow> u32 \<Rightarrow> bool" where
  "stack_fits start len \<longleftrightarrow> start \<noteq> 0 \<and> 72 \<le> unat len \<and> unat len < 2 ^ 16 \<and> unat start + unat len < 2 ^ 32"

lemma align_down_8:
  fixes w :: u32
  shows "unat (RT_ALIGN_DOWN w 8) = unat w - unat w mod 8"
proof -
  have m: "w AND mask 3 = w mod 8" by (simp only: take_bit_eq_mask [symmetric] take_bit_eq_mod) simp
  have e: "RT_ALIGN_DOWN w 8 + (w AND mask 3) = w"
  proof -
    have "RT_ALIGN_DOWN w 8 = w AND NOT (mask 3)" by (simp add: RT_ALIGN_DOWN_def mask_eq_exp_minus_1)
    moreover have "(w AND NOT (mask 3)) + (w AND mask 3) = (w AND NOT (mask 3)) OR (w AND mask 3)"
      by (rule disjunctive_add) (auto simp: bit_simps)
    moreover have "(w AND NOT (mask 3)) OR (w AND mask 3) = w"
      by (rule bit_word_eqI) (auto simp: bit_simps)
    ultimately show ?thesis by simp
  qed
  have "RT_ALIGN_DOWN w 8 = w - w mod 8" using e m by (metis add_diff_cancel_right')
  moreover have "w mod 8 \<le> w" by (simp add: word_le_nat_alt unat_mod)
  ultimately show ?thesis by (simp add: unat_sub_of_le unat_mod)
qed

lemma stack_init_bounds:
  assumes "stack_fits start len"
  shows "start < rt_hw_stack_init (start + len - 4)"
    and "rt_hw_stack_init (start + len - 4) \<le> start + len"
    and "unat (rt_hw_stack_init (start + len - 4)) mod 8 = 0"
proof -
  define s where "s = unat start + unat len"
  have su: "unat (start + len) = s"
    using assms by (simp add: s_def stack_fits_def unat_word_ariths)
  have ad: "unat (RT_ALIGN_DOWN (start + len) 8) = s - s mod 8" by (simp add: align_down_8 su)
  have s72: "72 \<le> unat len" "unat start + 72 \<le> s" using assms by (simp_all add: stack_fits_def s_def)
  have le: "(64 :: u32) \<le> RT_ALIGN_DOWN (start + len) 8"
  proof -
    have "s mod 8 < 8" by simp
    with s72 have "64 \<le> s - s mod 8" by linarith
    then show ?thesis by (simp add: word_le_nat_alt ad)
  qed
  have v: "unat (rt_hw_stack_init (start + len - 4)) = s - s mod 8 - 64"
    using le ad by (simp add: rt_hw_stack_init_def unat_sub_of_le)
  have "s mod 8 < 8" by simp
  with s72 v show "start < rt_hw_stack_init (start + len - 4)" by (simp add: word_less_nat_alt)
  from v su show "rt_hw_stack_init (start + len - 4) \<le> start + len" by (simp add: word_le_nat_alt)
  have "(8 :: nat) dvd s - s mod 8" by (rule dvd_minus_mod)
  moreover have "(8 :: nat) dvd 64" by simp
  ultimately have "8 dvd s - s mod 8 - 64" by (rule dvd_diff_nat)
  then show "unat (rt_hw_stack_init (start + len - 4)) mod 8 = 0" by (simp add: v mod_eq_0_iff_dvd)
qed


lemma kernel_but_unlisted:
  assumes b: "kernel_but t Od k" and "Thread_Timer t \<notin> set (rt_timer_list k)"
  shows "kernel_but t Od (upd_timer (Thread_Timer t) f k)"
  by (rule kernel_but_timers [OF b])
    (use b assms(2) in \<open>auto simp: kernel_but_def intro: timers_but_unlisted tick_wf_unlisted\<close>)

lemma not_live_unlisted:
  "kernel_wf Od k \<Longrightarrow> \<not> thread_live (threads k t) \<Longrightarrow> Thread_Timer t \<notin> set (rt_timer_list k)"
  using wf_timer(4) by fastforce

lemma ucast_u16: "unat (len :: u32) < 2 ^ 16 \<Longrightarrow> ucast (ucast len :: u16) = len"
  by (simp add: word_unat_eq_iff unsigned_ucast_eq unsigned_take_bit_eq take_bit_nat_eq_self)

lemma rt_thread_init0_returns:
  assumes k: "kernel_wf Od k" and t: "\<not> thread_live (threads k t)" "unlinked t (tlists k)"
    and stack: "stack_fits start len" and prio: "unat prio < RT_THREAD_PRIORITY_MAX"
  shows "returns (rt_thread_init0 t name start len prio tick k) (\<lambda>(k', e). e = RT_EOK \<and>
    kernel_wf Od k' \<and> thread_fresh k' t \<and> init_priority (threads k' t) = prio \<and>
    tlists k' = tlists k \<and> rt_current_thread k' = rt_current_thread k \<and>
    rt_scheduler_lock_nest k' = rt_scheduler_lock_nest k \<and> (\<forall>t'. t' \<noteq> t \<longrightarrow> threads k' t' = threads k t'))"
proof -
  have nr: "stat (threads k t) \<noteq> RT_THREAD_READY" using t(1) by (auto simp: thread_live_def)
  have nl: "Thread_Timer t \<notin> set (rt_timer_list k)" by (rule not_live_unlisted [OF k t(1)])
  have len: "ucast (ucast len :: u16) = len" using stack by (simp add: ucast_u16 stack_fits_def)
  define th where "th = (threads k t)\<lparr>stack_addr := start, stack_size := ucast len,
    sp := rt_hw_stack_init (start + len - 4), init_priority := prio, current_priority := prio,
    init_tick := tick, remaining_tick := tick, error := RT_EOK, stat := RT_THREAD_INIT, has_cleanup := False\<rparr>"
  let ?k3 = "upd_thread t (\<lambda>_. th) k"
  let ?k4 = "rt_timer_init (Thread_Timer t) name (CB_Thread_Timeout t) 0 RT_TIMER_FLAG_ONE_SHOT ?k3"
  have eq: "rt_thread_init0 t name start len prio tick k = Some (?k4, RT_EOK)"
    using prio by (simp add: rt_thread_init0_def rt_assert_def Let_def upd_thread_def th_def len)
  have flag: "\<not> timer_activated (timers ?k4 (Thread_Timer t))" "\<not> timer_periodic (timers ?k4 (Thread_Timer t))"
    by (simp_all add: rt_timer_init_def rt_timer_init0_def timer_activated_bit timer_periodic_bit
        flag_bit_ops RT_TIMER_FLAG_ONE_SHOT_def)
  have ck: "rt_scheduler_stack_check th"
    using stack_init_bounds(1,2) [OF stack]
    by (simp add: rt_scheduler_stack_check_def th_def len not_le not_less)
  have fresh: "thread_fresh ?k4 t"
    unfolding thread_fresh_def
    using prio ck flag
    by (simp add: rt_timer_init_def rt_timer_init0_def rt_object_init_def) (simp add: th_def)
  have "kernel_but t Od ?k4"
    using kernel_but_unlisted [of t Od "rt_object_init (Obj_Timer (Thread_Timer t)) RT_Object_Class_Timer name ?k3"]
      kernel_but_of_unlinked [OF k nr t(2)] nl
    by (simp add: rt_timer_init_def rt_timer_init0_def rt_object_init_def kernel_same_wf)
  then have "kernel_wf Od ?k4"
  proof (rule kernel_but_close)
    show "thread_timer_ok ?k4 t"
      using fresh nl flag
      by (simp add: thread_timer_ok_def thread_live_def thread_fresh_def)
        (simp add: rt_timer_init_def rt_timer_init0_def rt_object_init_def)
  qed (use fresh in \<open>auto simp: thread_fresh_def thread_live_def\<close>)
  with fresh eq show ?thesis
    by (simp add: rt_timer_init_def rt_timer_init0_def rt_object_init_def) (simp add: th_def)
qed

text \<open>\<^verbatim>\<open>rt_thread_startup\<close>: the thread is ready; it runs at once when it is the most urgent.\<close>

lemma rt_thread_startup_ready:
  assumes k: "kernel_wf Od k" and f: "thread_fresh k t"
  shows "\<exists>k1. rt_thread_startup t k =
      (if rt_current_thread k = None then Some (k1, RT_EOK)
       else map_option (\<lambda>k2. (k2, RT_EOK)) (rt_schedule k1)) \<and>
    kernel_wf Od k1 \<and> stat (threads k1 t) = RT_THREAD_READY \<and>
    current_priority (threads k1 t) = init_priority (threads k t) \<and>
    (\<forall>t'. t' \<noteq> t \<longrightarrow> threads k1 t' = threads k t') \<and> rt_current_thread k1 = rt_current_thread k \<and>
    rt_scheduler_lock_nest k1 = rt_scheduler_lock_nest k \<and>
    tlists k1 = ins_tail (Ready (unat (init_priority (threads k t)))) t (tlists k)"
proof -
  let ?g = "\<lambda>th. th\<lparr>current_priority := init_priority th,
      number_mask := push_bit (unat (init_priority th)) 1, stat := RT_THREAD_SUSPEND\<rparr>"
  let ?k2 = "upd_thread t ?g k"
  have st: "stat (threads k t) = RT_THREAD_INIT" using f by (simp add: thread_fresh_def)
  have u: "unlinked t (tlists k)" by (rule unlinked_by_stat [OF k]) (simp_all add: st)
  have b: "kernel_but t Od ?k2" using kernel_but_of_unlinked [OF k _ u] st by simp
  have wf2: "kernel_wf Od ?k2"
    by (rule kernel_but_close [OF b])
      (use f in \<open>auto simp: thread_fresh_def thread_attr_ok_def thread_timer_ok_def rt_scheduler_stack_check_def\<close>)
  have "stat (threads ?k2 t) = RT_THREAD_SUSPEND" by simp
  note r = rt_thread_resume_returns [OF wf2 this]
  have ul: "unlink t (tlists k) = tlists k" by (rule unlink_unlinked [OF u])
  have k2: "upd_thread t (\<lambda>th. th\<lparr>number_mask := push_bit (unat (current_priority th)) 1, stat := RT_THREAD_SUSPEND\<rparr>)
      (upd_thread t (\<lambda>th. th\<lparr>current_priority := init_priority th\<rparr>) k) = ?k2"
    by (simp add: upd_thread_def)
  have "rt_thread_startup t k =
      do { k4 \<leftarrow> (if rt_current_thread k \<noteq> None then rt_schedule (resume_state t ?k2)
                 else Some (resume_state t ?k2));
           Some (k4, RT_EOK) }"
    using r st by (simp only: rt_thread_startup_def k2 rt_thread_self_def rt_assert_def Let_def)
      (simp del: resume_state_simps(1,2))
  then have "rt_thread_startup t k =
      (if rt_current_thread k = None then Some (resume_state t ?k2, RT_EOK)
       else map_option (\<lambda>k2. (k2, RT_EOK)) (rt_schedule (resume_state t ?k2)))"
    by (cases "rt_schedule (resume_state t ?k2)") simp_all
  moreover have "tlists (resume_state t ?k2) = ins_tail (Ready (unat (init_priority (threads k t)))) t (tlists k)"
    by (simp add: ul del: ins_tail_apply unlink_apply)
  ultimately show ?thesis
    using r by (intro exI [of _ "resume_state t ?k2"]) (simp del: ins_tail_apply unlink_apply)
qed


section \<open>Ending threads\<close>

text \<open>What the three ways to end a thread share: off its list, timer off, closed.\<close>

definition closed_state :: "tid \<Rightarrow> kernel \<Rightarrow> kernel" where
  "closed_state t k = upd_thread t (\<lambda>th. th\<lparr>stat := RT_THREAD_CLOSE\<rparr>)
     (fst (rt_timer_detach (Thread_Timer t)
       ((upd_tlists (unlink t) k)\<lparr>rt_thread_ready_priority_group := remove_group t k\<rparr>)))"

lemma closed_state_simps [simp]:
  "tlists (closed_state t k) = unlink t (tlists k)"
  "threads (closed_state t k) = (threads k)(t := (threads k t)\<lparr>stat := RT_THREAD_CLOSE\<rparr>)"
  "timers (closed_state t k) = timers k"
  "rt_timer_list (closed_state t k) = removeAll (Thread_Timer t) (rt_timer_list k)"
  "rt_current_thread (closed_state t k) = rt_current_thread k"
  "rt_scheduler_lock_nest (closed_state t k) = rt_scheduler_lock_nest k"
  "object_lists (closed_state t k) = unlink (Obj_Timer (Thread_Timer t)) (object_lists k)"
  "objects (closed_state t k) = objects k"
  by (simp_all add: closed_state_def rt_timer_detach_def rt_object_detach_def del: unlink_apply)

lemma closed_state_wf:
  assumes k: "kernel_wf Od k" and live: "thread_live (threads k t)"
  shows "rt_schedule_remove_thread t k =
      Some ((upd_tlists (unlink t) k)\<lparr>rt_thread_ready_priority_group := remove_group t k\<rparr>)"
    and "kernel_wf Od (closed_state t k)" and "unlinked t (tlists (closed_state t k))"
proof -
  note a = wf_ready_attr [OF k live]
  note r = kernel_wf_remove [OF k a]
  show "rt_schedule_remove_thread t k =
      Some ((upd_tlists (unlink t) k)\<lparr>rt_thread_ready_priority_group := remove_group t k\<rparr>)"
    using r by (auto simp: returns_iff)
  have "kernel_but t Od ((upd_tlists (unlink t) k)\<lparr>rt_thread_ready_priority_group := remove_group t k\<rparr>)"
    using r by (auto simp: returns_iff)
  from kernel_but_timer_remove [OF this, of "Thread_Timer t"]
  have "kernel_but t Od (closed_state t k)"
    by (simp add: closed_state_def rt_timer_detach_def rt_object_detach_def)
  then show "kernel_wf Od (closed_state t k)"
    by (rule kernel_but_close) (auto simp: thread_live_def thread_timer_ok_def)
  show "unlinked t (tlists (closed_state t k))" by (simp add: unlinked_def)
qed

lemma rt_thread_delete_returns:
  assumes k: "kernel_wf Od k" and live: "thread_live (threads k t)"
  shows "rt_thread_delete t k = Some (upd_tlists (ins_head Defunct t) (closed_state t k), RT_EOK)"
    and "kernel_wf Od (upd_tlists (ins_head Defunct t) (closed_state t k))"
proof -
  note c = closed_state_wf [OF k live]
  show "rt_thread_delete t k = Some (upd_tlists (ins_head Defunct t) (closed_state t k), RT_EOK)"
    by (simp add: rt_thread_delete_def c(1) closed_state_def)
  show "kernel_wf Od (upd_tlists (ins_head Defunct t) (closed_state t k))"
    by (rule kernel_wf_defunct [OF c(2) _ c(3)]) simp
qed

lemma rt_thread_detach_returns:
  assumes k: "kernel_wf Od k" and live: "thread_live (threads k t)"
  shows "returns (rt_thread_detach t k) (\<lambda>(k', e). e = RT_EOK \<and> kernel_wf Od k' \<and>
    stat (threads k' t) = RT_THREAD_CLOSE \<and> Obj_Thread t \<notin> set (object_lists k' cls) \<and>
    (has_cleanup (threads k t) \<longleftrightarrow> t \<in> set (tlists k' Defunct)))"
proof -
  note c = closed_state_wf [OF k live]
  have "kernel_wf Od (upd_tlists (ins_head Defunct t) (rt_object_detach (Obj_Thread t) (closed_state t k)))"
    by (rule kernel_wf_defunct) (use c in \<open>auto simp: rt_object_detach_def\<close>)
  then show ?thesis
    using c(2,3)
    by (simp add: rt_thread_detach_def c(1) closed_state_def [symmetric])
      (auto simp: rt_object_detach_def unlinked_def Let_def)
qed

lemma rt_thread_exit_returns:
  assumes k: "kernel_inv Od k" and c: "may_block k c"
  shows "\<exists>k1. rt_thread_exit k = rt_schedule k1 \<and> kernel_inv Od k1 \<and>
    stat (threads k1 c) = RT_THREAD_CLOSE \<and> rt_scheduler_lock_nest k1 = rt_scheduler_lock_nest k \<and>
    (c \<in> set (tlists k1 Defunct) \<longleftrightarrow>
       \<not> (rt_object_is_systemobject (Obj_Thread c) k \<and> \<not> has_cleanup (threads k c)))"
proof -
  have st: "stat (threads k c) = RT_THREAD_READY" "c \<noteq> tidle" "rt_current_thread k = Some c"
    using c by (simp_all add: may_block_def)
  have wf: "kernel_wf Od k" using k by (simp add: kernel_inv_def)
  have live: "thread_live (threads k c)" using st by simp
  note cs = closed_state_wf [OF wf live]
  have comm: "fst (rt_timer_detach (Thread_Timer c) (upd_thread c (\<lambda>th. th\<lparr>stat := RT_THREAD_CLOSE\<rparr>)
      ((upd_tlists (unlink c) k)\<lparr>rt_thread_ready_priority_group := remove_group c k\<rparr>))) = closed_state c k"
    by (simp add: closed_state_def rt_timer_detach_def rt_object_detach_def upd_object_lists_def
        upd_thread_def rt_timer_remove_def upd_tlists_def)
  let ?sys = "rt_object_is_systemobject (Obj_Thread c) k \<and> \<not> has_cleanup (threads k c)"
  let ?k1 = "if ?sys then rt_object_detach (Obj_Thread c) (closed_state c k)
             else upd_tlists (ins_head Defunct c) (closed_state c k)"
  have "rt_thread_exit k = rt_schedule ?k1"
    by (simp add: rt_thread_exit_def st cs(1) comm Let_def rt_object_is_systemobject_def)
  moreover have "kernel_wf Od ?k1"
    using cs(2) kernel_wf_defunct [OF cs(2) _ cs(3)] by (simp add: rt_object_detach_def)
  moreover have "running ?k1"
    using k st(2) by (simp add: kernel_inv_def running_def rt_object_detach_def)
  ultimately show ?thesis
    by (intro exI [of _ ?k1]) (auto simp: kernel_inv_def rt_object_detach_def)
qed

section \<open>Yielding and changing priority\<close>

text \<open>A ready list may be permuted.\<close>

lemma kernel_wf_permute:
  assumes k: "kernel_wf Od k" and p: "distinct xs" "set xs = set (tlists k (Ready p))"
  shows "kernel_wf Od (upd_tlists (\<lambda>T. T(Ready p := xs)) k)" (is "kernel_wf Od ?k")
proof (rule kernel_wfI)
  note wf = kernel_wfD [OF k]
  show "wf_ltab (tlists ?k)" using wf(2) p by (auto simp: wf_ltab_def split: if_splits)
  show "ready_wf ?k" using wf(3) p by (simp add: ready_wf_def)
  have "xs = [] \<longleftrightarrow> tlists k (Ready p) = []" using p by (metis set_empty)
  then show "group_wf ?k" using wf(4) by (simp add: group_wf_def)
  show "attr_wf ?k" using wf(5) by (simp add: attr_wf_def)
  show "queues_wf ?k" using wf(6) by (simp add: queues_wf_def)
  show "timers_wf ?k" "tick_wf Od ?k" using wf(7,8) by (simp_all add: timers_wf_but upd_tlists_same)
qed

definition yield_state :: "tid \<Rightarrow> kernel \<Rightarrow> kernel" where
  "yield_state t k = upd_tlists (\<lambda>T. T(Ready (unat (current_priority (threads k t))) :=
     removeAll t (T (Ready (unat (current_priority (threads k t))))) @ [t])) k"

lemma rt_thread_yield_returns:
  assumes k: "kernel_inv Od k" and c: "rt_current_thread k = Some c"
    and st: "stat (threads k c) = RT_THREAD_READY"
    and two: "1 < length (tlists k (Ready (unat (current_priority (threads k c)))))"
  shows "rt_thread_yield k = map_option (\<lambda>k2. (k2, RT_EOK)) (rt_schedule (yield_state c k))"
    and "kernel_inv Od (yield_state c k)"
proof -
  let ?p = "unat (current_priority (threads k c))"
  have wf: "kernel_wf Od k" using k by (simp add: kernel_inv_def)
  have m: "c \<in> set (tlists k (Ready ?p))" by (rule linked_ready [OF wf st])
  have "ins_tail (Ready ?p) c (unlink c (tlists k)) =
      (tlists k)(Ready ?p := removeAll c (tlists k (Ready ?p)) @ [c])"
    using unlink_at [OF kernel_wfD(2) [OF wf] m] by (simp add: ins_tail_def del: unlink_apply)
  then have y: "upd_tlists (ins_tail (Ready ?p) c) (upd_tlists (unlink c) k) = yield_state c k"
    by (simp add: upd_tlists_def yield_state_def)
  show "rt_thread_yield k = map_option (\<lambda>k2. (k2, RT_EOK)) (rt_schedule (yield_state c k))"
    using st two by (simp add: rt_thread_yield_def c y) (cases "rt_schedule (yield_state c k)"; simp)
  have d: "distinct (tlists k (Ready ?p))" using kernel_wfD(2) [OF wf] by (simp add: wf_ltab_def)
  then have "kernel_wf Od (yield_state c k)"
    unfolding yield_state_def using kernel_wf_permute [OF wf, of "removeAll c (tlists k (Ready ?p)) @ [c]" ?p] m
    by (auto simp: upd_tlists_def)
  then show "kernel_inv Od (yield_state c k)"
    using k by (simp add: kernel_inv_def running_def yield_state_def)
qed

lemma yield_not_shared:
  assumes "rt_current_thread k = Some c"
    and "\<not> (stat (threads k c) = RT_THREAD_READY \<and>
           1 < length (tlists k (Ready (unat (current_priority (threads k c))))))"
  shows "rt_thread_yield k = Some (k, RT_EOK)"
  using assms by (auto simp: rt_thread_yield_def Let_def)


lemma change_priority_returns:
  assumes k: "kernel_wf Od k" and arg: "unat arg < 32"
  shows "returns (rt_thread_control t RT_THREAD_CTRL_CHANGE_PRIORITY arg k) (\<lambda>(k', e). e = RT_EOK \<and>
    kernel_wf Od k' \<and> current_priority (threads k' t) = arg \<and>
    stat (threads k' t) = stat (threads k t) \<and> (\<forall>t'. t' \<noteq> t \<longrightarrow> threads k' t' = threads k t') \<and>
    (stat (threads k t) = RT_THREAD_READY \<longrightarrow> last (tlists k' (Ready (unat arg))) = t))"
proof -
  let ?g = "\<lambda>th. th\<lparr>current_priority := arg, number_mask := push_bit (unat arg) 1\<rparr>"
  note tm = wf_timer(1-4) [OF k, of t]
  show ?thesis
  proof (cases "stat (threads k t) = RT_THREAD_READY")
    case True
    have a: "thread_attr_ok (threads k t)" using wf_ready_attr [OF k] True by simp
    let ?k1 = "(upd_tlists (unlink t) k)\<lparr>rt_thread_ready_priority_group := remove_group t k\<rparr>"
    have r: "rt_schedule_remove_thread t k = Some ?k1" and b: "kernel_but t Od ?k1"
      using kernel_wf_remove [OF k a] by (auto simp: returns_iff)
    have b2: "kernel_but t Od (upd_thread t ?g ?k1)" using b by simp
    have "thread_attr_ok (?g (threads k t))"
      using a arg by (simp add: thread_attr_ok_def RT_THREAD_PRIORITY_MAX_def rt_scheduler_stack_check_def)
    then have "returns (rt_schedule_insert_thread t (upd_thread t ?g ?k1)) (\<lambda>k'. kernel_wf Od k' \<and>
        tlists k' (Ready (unat arg)) = removeAll t (tlists k (Ready (unat arg))) @ [t] \<and>
        threads k' = (threads k)(t := (?g (threads k t))\<lparr>stat := RT_THREAD_READY\<rparr>))"
      using kernel_but_insert [OF b2] tm True by (auto simp: returns_iff)
    then show ?thesis
      using True arg by (auto simp: rt_thread_control_def RT_THREAD_CTRL_CHANGE_PRIORITY_def r Let_def returns_iff
          rt_assert_def)
  next
    case False
    have "kernel_wf Od (upd_thread t ?g k)"
    proof (rule kernel_wfI)
      note wf = kernel_wfD [OF k]
      show "wf_ltab (tlists (upd_thread t ?g k))" using wf(2) by simp
      show "ready_wf (upd_thread t ?g k)" using wf(3) False by (auto simp: ready_wf_def)
      show "group_wf (upd_thread t ?g k)" using wf(4) by (simp add: group_wf_def)
      show "attr_wf (upd_thread t ?g k)"
        using wf(5) arg
        by (auto simp: attr_wf_def thread_attr_ok_def RT_THREAD_PRIORITY_MAX_def thread_live_def
            rt_scheduler_stack_check_def)
      show "queues_wf (upd_thread t ?g k)" using wf(6) by (auto simp: queues_wf_def)
      have "timers_but {} (upd_thread t ?g k) = timers_but {} k" by (rule timers_but_cong) auto
      then show "timers_wf (upd_thread t ?g k)" using wf(7) by (simp add: timers_wf_but)
      have "tick_wf Od (upd_thread t ?g k) = tick_wf Od k" by (rule tick_wf_cong) auto
      then show "tick_wf Od (upd_thread t ?g k)" using wf(8) by simp
    qed
    with False arg show ?thesis
      by (simp add: rt_thread_control_def RT_THREAD_CTRL_CHANGE_PRIORITY_def)
  qed
qed

end
