(* ===== verification/RT_Example.thy ===== *)
theory RT_Example
  imports RT_Thread
begin

text \<open>
  Two concrete kernel states, on which the hypotheses of the library's theorems are shown to hold:
  \<open>ex_run\<close>, where the main thread 5 (priority 10) runs, thread 2 (priority 20) is ready and thread 0
  is the idle thread; and \<open>ex_wait\<close>, where threads 2 and 3 wait in queue 0, thread 2 for at most one
  more tick and thread 3 forever, and thread 4 is initialised but not started.
\<close>

definition ex_thread :: "thread_stat \<Rightarrow> u8 \<Rightarrow> rt_thread" where
  "ex_thread st p = \<lparr>sp = 0x20001000, stack_addr = 0x20000f00, stack_size = 0x200, error = RT_EOK,
     stat = st, current_priority = p, init_priority = p, number_mask = push_bit (unat p) 1,
     event_set = 0, event_info = 0, init_tick = 10, remaining_tick = 5, has_cleanup = False\<rparr>"

definition ex_timer :: "tmr \<Rightarrow> rt_timer" where
  "ex_timer m = \<lparr>tm_flag = 0,
     timeout_func = (case m of Thread_Timer t \<Rightarrow> CB_Thread_Timeout t | App_Timer i \<Rightarrow> CB_App i),
     tm_init_tick = 0, timeout_tick = 0\<rparr>"

definition ex_run :: kernel where
  "ex_run = \<lparr>tlists = (\<lambda>_. [])(Ready 31 := [0], Ready 10 := [5], Ready 20 := [2]),
     threads = (\<lambda>_. ex_thread RT_THREAD_INIT 25)(0 := ex_thread RT_THREAD_READY 31,
       5 := ex_thread RT_THREAD_READY 10, 2 := ex_thread RT_THREAD_READY 20),
     rt_current_thread = Some 5, rt_current_priority = 10,
     rt_thread_ready_priority_group = 0x80100400,
     rt_scheduler_lock_nest = 0, rt_interrupt_nest = 0, rt_timer_list = [], timers = ex_timer,
     rt_tick = 100, object_lists = (\<lambda>_. []), objects = (\<lambda>_. \<lparr>obj_name = [], obj_type = 0\<rparr>),
     kernel_freed = []\<rparr>"

definition ex_wait :: kernel where
  "ex_wait = ex_run\<lparr>tlists := (\<lambda>_. [])(Ready 31 := [0], Ready 10 := [5], Wait 0 := [2, 3]),
     threads := (\<lambda>_. ex_thread RT_THREAD_INIT 25)(0 := ex_thread RT_THREAD_READY 31,
       5 := ex_thread RT_THREAD_READY 10, 2 := ex_thread RT_THREAD_SUSPEND 20,
       3 := ex_thread RT_THREAD_SUSPEND 20),
     rt_thread_ready_priority_group := 0x80000400,
     rt_timer_list := [Thread_Timer 2],
     timers := ex_timer(Thread_Timer 2 := \<lparr>tm_flag = 1, timeout_func = CB_Thread_Timeout 2,
       tm_init_tick = 7, timeout_tick = 101\<rparr>)\<rparr>"

lemma ex_stack: "thread_attr_ok (ex_thread st p) \<longleftrightarrow> unat p < 32"
  by (simp add: thread_attr_ok_def ex_thread_def rt_scheduler_stack_check_def RT_THREAD_PRIORITY_MAX_def)

lemma ex_thread_simps [simp]:
  "stat (ex_thread st p) = st" "current_priority (ex_thread st p) = p"
  "init_priority (ex_thread st p) = p" "error (ex_thread st p) = RT_EOK"
  "event_set (ex_thread st p) = 0" "event_info (ex_thread st p) = 0"
  by (simp_all add: ex_thread_def)

lemma ex_timer_simps [simp]:
  "\<not> timer_activated (ex_timer m)" "\<not> timer_periodic (ex_timer m)"
  "timeout_func (ex_timer (Thread_Timer t)) = CB_Thread_Timeout t"
  "timeout_func (ex_timer (App_Timer i)) = CB_App i"
  by (simp_all add: ex_timer_def timer_activated_def timer_periodic_def)

lemma bit_group:
  "bit (0x80100400 :: u32) p \<longleftrightarrow> p = 10 \<or> p = 20 \<or> p = 31"
  "bit (0x80000400 :: u32) p \<longleftrightarrow> p = 10 \<or> p = 31"
proof -
  have "(0x80100400 :: u32) = push_bit 10 1 OR push_bit 20 1 OR push_bit 31 1" by simp
  then show "bit (0x80100400 :: u32) p \<longleftrightarrow> p = 10 \<or> p = 20 \<or> p = 31"
    by (simp only: bit_or_push_bit bit_or_iff bit_push_bit_iff) (auto simp: bit_simps)
  have "(0x80000400 :: u32) = push_bit 10 1 OR push_bit 31 1" by simp
  then show "bit (0x80000400 :: u32) p \<longleftrightarrow> p = 10 \<or> p = 31"
    by (simp only: bit_or_iff bit_push_bit_iff) (auto simp: bit_simps)
qed

lemma ex_run_fields [simp]:
  "tlists ex_run = (\<lambda>_. [])(Ready 31 := [0], Ready 10 := [5], Ready 20 := [2])"
  "threads ex_run = (\<lambda>_. ex_thread RT_THREAD_INIT 25)(0 := ex_thread RT_THREAD_READY 31,
       5 := ex_thread RT_THREAD_READY 10, 2 := ex_thread RT_THREAD_READY 20)"
  "rt_current_thread ex_run = Some 5" "rt_thread_ready_priority_group ex_run = 0x80100400"
  "rt_scheduler_lock_nest ex_run = 0" "rt_interrupt_nest ex_run = 0" "rt_timer_list ex_run = []"
  "timers ex_run = ex_timer" "rt_tick ex_run = 100"
  by (simp_all add: ex_run_def)

lemma ex_wait_fields [simp]:
  "tlists ex_wait = (\<lambda>_. [])(Ready 31 := [0], Ready 10 := [5], Wait 0 := [2, 3])"
  "threads ex_wait = (\<lambda>_. ex_thread RT_THREAD_INIT 25)(0 := ex_thread RT_THREAD_READY 31,
       5 := ex_thread RT_THREAD_READY 10, 2 := ex_thread RT_THREAD_SUSPEND 20,
       3 := ex_thread RT_THREAD_SUSPEND 20)"
  "rt_current_thread ex_wait = Some 5" "rt_thread_ready_priority_group ex_wait = 0x80000400"
  "rt_scheduler_lock_nest ex_wait = 0" "rt_interrupt_nest ex_wait = 0"
  "rt_timer_list ex_wait = [Thread_Timer 2]"
  "timers ex_wait = ex_timer(Thread_Timer 2 := \<lparr>tm_flag = 1, timeout_func = CB_Thread_Timeout 2,
       tm_init_tick = 7, timeout_tick = 101\<rparr>)"
  "rt_tick ex_wait = 100"
  by (simp_all add: ex_wait_def)

lemma ex_run_inv: "kernel_inv Od ex_run"
proof -
  have "kernel_wf Od ex_run"
  proof (rule kernel_wfI)
    show "wf_ltab (tlists ex_run)" by (auto simp: wf_ltab_def split: if_splits)
    show "ready_wf ex_run" by (auto simp: ready_wf_def split: if_splits)
    show "group_wf ex_run" unfolding group_wf_def ex_run_fields(4) bit_group by auto
    show "attr_wf ex_run" by (auto simp: attr_wf_def ex_stack thread_live_def)
    show "queues_wf ex_run" by (simp add: queues_wf_def)
    show "timers_wf ex_run" by (simp add: timers_wf_def thread_timer_ok_def)
    show "tick_wf Od ex_run" by (simp add: tick_wf_def)
  qed
  then show ?thesis by (simp add: kernel_inv_def running_def tidle_def)
qed

lemma ex_wait_inv: "kernel_inv Od ex_wait"
proof -
  have fl: "timer_activated \<lparr>tm_flag = 1, timeout_func = c, tm_init_tick = x, timeout_tick = y\<rparr>"
    "\<not> timer_periodic \<lparr>tm_flag = 1, timeout_func = c, tm_init_tick = x, timeout_tick = y\<rparr>" for c x y
    by (simp_all add: timer_activated_bit timer_periodic_bit bit_1_iff)
  have "kernel_wf Od ex_wait"
  proof (rule kernel_wfI)
    show "wf_ltab (tlists ex_wait)" by (auto simp: wf_ltab_def split: if_splits)
    show "ready_wf ex_wait" by (auto simp: ready_wf_def split: if_splits)
    show "group_wf ex_wait" unfolding group_wf_def ex_wait_fields(4) bit_group by auto
    show "attr_wf ex_wait" by (auto simp: attr_wf_def ex_stack thread_live_def)
    show "queues_wf ex_wait" by (simp add: queues_wf_def)
    show "timers_wf ex_wait" by (auto simp: timers_wf_def thread_timer_ok_def fl)
    show "tick_wf Od ex_wait" by (simp add: tick_wf_def tick_dist_def tick_half)
  qed
  then show ?thesis by (simp add: kernel_inv_def running_def tidle_def)
qed

lemma ex_may_block: "may_block ex_run 5" "may_block ex_wait 5"
  by (simp_all add: may_block_def tidle_def)


lemma ex_highest: "is_highest ex_run 5" "is_highest ex_wait 5"
  by (auto simp: is_highest_def split: if_splits)

end
