(* ===== verification/RT_Idle.thy ===== *)
theory RT_Idle
  imports RT_Example
begin

text \<open>
  The idle thread of src/idle.c: it takes ended threads off the defunct list, runs their cleanup
  function and gives back the stack and control block of those that were created on the heap. The
  cleanup functions are a parameter.
\<close>

text \<open>The address of the idle thread's stack and its size (hooks and heap are in the build).\<close>

definition IDLE_THREAD_STACK_SIZE :: u32 where "IDLE_THREAD_STACK_SIZE = 256"

definition rt_thread_idle_init :: "u32 \<Rightarrow> kernel \<Rightarrow> kernel option" where
  "rt_thread_idle_init rt_thread_stack k =
     do { (k1, e1) \<leftarrow> rt_thread_init tidle ''tidle'' rt_thread_stack IDLE_THREAD_STACK_SIZE
                        (of_nat (RT_THREAD_PRIORITY_MAX - 1)) 32 k;
          (k2, e2) \<leftarrow> rt_thread_startup tidle k1;
          Some k2 }"

partial_function (option) rt_thread_idle_excute ::
  "(tid \<Rightarrow> kernel \<Rightarrow> kernel option) \<Rightarrow> kernel \<Rightarrow> kernel option" where
  "rt_thread_idle_excute cleanup k =
     (if tlists k Defunct = [] then Some k
      else do {
        rt_assert (rt_interrupt_nest k = 0);
        let thread = hd (tlists k Defunct);
        let k1 = upd_tlists (unlink thread) k;
        k2 \<leftarrow> (if has_cleanup (threads k1 thread) then cleanup thread k1 else Some k1);
        (if rt_object_is_systemobject (Obj_Thread thread) k2 then Some k2
         else do {
           let k3 = k2\<lparr>kernel_freed := kernel_freed k2 @ [Block_Stack (stack_addr (threads k2 thread))]\<rparr>;
           k4 \<leftarrow> rt_object_delete (Obj_Thread thread) k3;
           rt_thread_idle_excute cleanup k4 }) })"

section \<open>Reclaiming heap threads\<close>

text \<open>What one heap thread without a cleanup function costs and gives back.\<close>

definition reclaimed :: "tid \<Rightarrow> kernel \<Rightarrow> kernel" where
  "reclaimed t k = (upd_object_lists (unlink (Obj_Thread t)) (upd_tlists (unlink t) k))
     \<lparr>kernel_freed := kernel_freed k @ [Block_Stack (stack_addr (threads k t)), Block_Object (Obj_Thread t)]\<rparr>"

lemma reclaimed_wf:
  assumes k: "kernel_inv Od k" and t: "t \<in> set (tlists k Defunct)"
  shows "kernel_inv Od (reclaimed t k)" and "tlists (reclaimed t k) = unlink t (tlists k)"
    and "threads (reclaimed t k) = threads k" and "objects (reclaimed t k) = objects k"
proof -
  have wf: "kernel_wf Od k" using k by (simp add: kernel_inv_def)
  have st: "stat (threads k t) = RT_THREAD_CLOSE" by (rule queues_wfD(2) [OF kernel_wfD(6) [OF wf] t])
  have "kernel_but t Od (upd_tlists (unlink t) k)" by (rule kernel_wf_unlink [OF wf]) (simp add: st)
  then have "kernel_wf Od (upd_tlists (unlink t) k)"
  proof (rule kernel_but_close)
    have "thread_timer_ok k t" by (rule timers_wf_threadD [OF kernel_wfD(7) [OF wf]])
    then show "thread_timer_ok (upd_tlists (unlink t) k) t" by (simp add: upd_tlists_same)
  qed (simp_all add: st thread_live_def)
  moreover have "kernel_same (upd_tlists (unlink t) k) (reclaimed t k)"
    by (simp add: kernel_same_def reclaimed_def)
  ultimately have "kernel_wf Od (reclaimed t k)" by (simp add: kernel_same_wf)
  then show "kernel_inv Od (reclaimed t k)" using k by (simp add: kernel_inv_def running_def reclaimed_def)
qed (simp_all add: reclaimed_def del: unlink_apply)

lemma idle_step:
  assumes "tlists k Defunct = t # ts" and "rt_interrupt_nest k = 0" and "\<not> has_cleanup (threads k t)"
    and "\<not> rt_object_is_systemobject (Obj_Thread t) k"
  shows "rt_thread_idle_excute cleanup k = rt_thread_idle_excute cleanup (reclaimed t k)"
  using assms
  by (subst rt_thread_idle_excute.simps)
    (simp add: rt_assert_def rt_object_delete_def rt_object_is_systemobject_def reclaimed_def upd_object_lists_def
      upd_tlists_def)

lemma idle_reclaims:
  "tlists k Defunct = ts \<Longrightarrow> kernel_inv Od k \<Longrightarrow> rt_interrupt_nest k = 0 \<Longrightarrow>
   (\<forall>t \<in> set ts. \<not> has_cleanup (threads k t) \<and> \<not> rt_object_is_systemobject (Obj_Thread t) k) \<Longrightarrow>
   returns (rt_thread_idle_excute cleanup k) (\<lambda>k'. kernel_inv Od k' \<and> tlists k' Defunct = [] \<and>
    threads k' = threads k \<and> kernel_freed k' = kernel_freed k @
      concat (map (\<lambda>t. [Block_Stack (stack_addr (threads k t)), Block_Object (Obj_Thread t)]) ts))"
proof (induction ts arbitrary: k)
  case Nil
  then show ?case by (subst rt_thread_idle_excute.simps) simp
next
  case (Cons t ts)
  note l = Cons.prems(1)
  have t: "t \<in> set (tlists k Defunct)" by (simp add: l)
  have "wf_ltab (tlists k)" using kernel_wfD(2) Cons.prems(2) by (auto simp: kernel_inv_def)
  then have "distinct (t # ts)" using l by (metis wf_ltab_def)
  note r = reclaimed_wf [OF Cons.prems(2) t]
  have l1: "tlists (reclaimed t k) Defunct = ts"
    using \<open>distinct (t # ts)\<close> by (simp add: r(2) l removeAll_id)
  have "rt_interrupt_nest (reclaimed t k) = 0" using Cons.prems(3) by (simp add: reclaimed_def)
  moreover have "\<forall>t' \<in> set ts. \<not> has_cleanup (threads (reclaimed t k) t') \<and>
      \<not> rt_object_is_systemobject (Obj_Thread t') (reclaimed t k)"
    using Cons.prems(4) by (simp add: r(3,4) rt_object_is_systemobject_def)
  ultimately have "returns (rt_thread_idle_excute cleanup (reclaimed t k)) (\<lambda>k'. kernel_inv Od k' \<and>
      tlists k' Defunct = [] \<and> threads k' = threads (reclaimed t k) \<and> kernel_freed k' = kernel_freed (reclaimed t k) @
      concat (map (\<lambda>t'. [Block_Stack (stack_addr (threads (reclaimed t k) t')), Block_Object (Obj_Thread t')]) ts))"
    by (rule Cons.IH [OF l1 r(1)])
  then show ?case
    using idle_step [OF l Cons.prems(3), of cleanup] Cons.prems(4)
    by (simp add: r(3)) (simp add: reclaimed_def)
qed

text \<open>
  When the ended threads were created on the heap and have no cleanup
  function, one call of \<^verbatim>\<open>rt_thread_idle_excute\<close> empties the defunct list and gives back the stack
  and then the control block of each of them, in list order, and nothing else.
\<close>

theorem idle_reclaims_all:
  assumes "kernel_inv Od k" and "rt_interrupt_nest k = 0"
    and "\<forall>t \<in> set (tlists k Defunct). \<not> has_cleanup (threads k t) \<and> \<not> rt_object_is_systemobject (Obj_Thread t) k"
  shows "returns (rt_thread_idle_excute cleanup k) (\<lambda>k'. kernel_inv Od k' \<and> tlists k' Defunct = [] \<and>
    threads k' = threads k \<and> kernel_freed k' = kernel_freed k @
      concat (map (\<lambda>t. [Block_Stack (stack_addr (threads k t)), Block_Object (Obj_Thread t)]) (tlists k Defunct)))"
  by (rule idle_reclaims [OF refl assms])

text \<open>A static thread ends the call at once, whatever is left on the list.\<close>

lemma idle_stops_at_static:
  assumes "tlists k Defunct = t # ts" and "rt_interrupt_nest k = 0" and "\<not> has_cleanup (threads k t)"
    and "rt_object_is_systemobject (Obj_Thread t) k"
  shows "rt_thread_idle_excute cleanup k = Some (upd_tlists (unlink t) k)"
  using assms
  by (subst rt_thread_idle_excute.simps)
    (simp add: rt_assert_def rt_object_is_systemobject_def)

section \<open>A concrete run\<close>

definition ex_ended :: kernel where
  "ex_ended = ex_run\<lparr>tlists := (tlists ex_run)(Defunct := [6, 7]),
     threads := (threads ex_run)(6 := ex_thread RT_THREAD_CLOSE 12, 7 := ex_thread RT_THREAD_CLOSE 13)\<rparr>"

lemma ex_ended_inv: "kernel_inv Od ex_ended"
proof -
  have "kernel_wf Od ex_ended"
  proof (rule kernel_wfI)
    show "wf_ltab (tlists ex_ended)" by (auto simp: wf_ltab_def ex_ended_def split: if_splits)
    show "ready_wf ex_ended" by (auto simp: ready_wf_def ex_ended_def split: if_splits)
    show "group_wf ex_ended"
    proof -
      have "rt_thread_ready_priority_group ex_ended = 0x80100400" by (simp add: ex_ended_def)
      then show ?thesis unfolding group_wf_def by (simp only: bit_group) (auto simp: ex_ended_def)
    qed
    show "attr_wf ex_ended" by (auto simp: attr_wf_def ex_stack thread_live_def ex_ended_def)
    show "queues_wf ex_ended" by (auto simp: queues_wf_def ex_ended_def)
    show "timers_wf ex_ended" by (simp add: timers_wf_def thread_timer_ok_def ex_ended_def thread_live_def)
    show "tick_wf Od ex_ended" by (simp add: tick_wf_def ex_ended_def)
  qed
  then show ?thesis by (simp add: kernel_inv_def running_def tidle_def ex_ended_def)
qed

lemma idle_reclaims_all_witness:
  "returns (rt_thread_idle_excute (\<lambda>t k. Some k) ex_ended) (\<lambda>k'. tlists k' Defunct = [] \<and>
     kernel_freed k' = [Block_Stack 0x20000f00, Block_Object (Obj_Thread 6),
       Block_Stack 0x20000f00, Block_Object (Obj_Thread 7)])"
  by (rule returns_mono [OF idle_reclaims_all [OF ex_ended_inv]])
    (auto simp: ex_ended_def ex_thread_def rt_object_is_systemobject_def ex_run_def)

end
