(* ===== verification/RT_Clock.thy ===== *)
theory RT_Clock
  imports RT_Example
begin

text \<open>
  The tick: src/clock.c, the interrupt nesting counter of src/irq.c, and the timer check of
  src/timer.c that the tick interrupt ends with. The timeout functions of application timers are a
  parameter \<open>ucb\<close>; \<open>callbacks_ok\<close> says what the kernel relies on of them. The loop of
  \<^verbatim>\<open>rt_timer_check\<close> need not end (a periodic timer of period 0 keeps it busy), so it is a partial
  function, and that it returns is a theorem.
\<close>

section \<open>The code\<close>

definition rt_tick_get :: "kernel \<Rightarrow> u32" where
  "rt_tick_get k = rt_tick k"

definition rt_tick_set :: "u32 \<Rightarrow> kernel \<Rightarrow> kernel" where
  "rt_tick_set tick k = k\<lparr>rt_tick := tick\<rparr>"

definition RT_TICK_PER_SECOND :: u32 where "RT_TICK_PER_SECOND = 100"

definition rt_tick_from_millisecond :: "u32 \<Rightarrow> u32" where
  "rt_tick_from_millisecond ms = (RT_TICK_PER_SECOND * ms + 999) div 1000"

definition rt_interrupt_enter :: "kernel \<Rightarrow> kernel" where
  "rt_interrupt_enter k = k\<lparr>rt_interrupt_nest := rt_interrupt_nest k + 1\<rparr>"

definition rt_interrupt_leave :: "kernel \<Rightarrow> kernel" where
  "rt_interrupt_leave k = k\<lparr>rt_interrupt_nest := rt_interrupt_nest k - 1\<rparr>"

definition rt_interrupt_get_nest :: "kernel \<Rightarrow> u8" where
  "rt_interrupt_get_nest k = rt_interrupt_nest k"

text \<open>One round of \<^verbatim>\<open>rt_timer_check\<close>: the timer \<open>m\<close> has expired.\<close>

definition clear_active :: "rt_timer \<Rightarrow> rt_timer" where
  "clear_active tm = tm\<lparr>tm_flag := tm_flag tm AND NOT RT_TIMER_FLAG_ACTIVATED\<rparr>"

definition timer_fire :: "(nat \<Rightarrow> kernel \<Rightarrow> kernel option) \<Rightarrow> tmr \<Rightarrow> kernel \<Rightarrow> kernel option" where
  "timer_fire ucb m k =
     do { let k1 = rt_timer_remove m k;
          k2 \<leftarrow> (case timeout_func (timers k1 m) of
                  CB_Thread_Timeout t \<Rightarrow> rt_thread_timeout t k1
                | CB_App c \<Rightarrow> ucb c k1);
          let k3 = upd_timer m clear_active k2;
          (if timer_periodic (timers k2 m) \<and> timer_activated (timers k2 m)
           then do { (k4, e) \<leftarrow> rt_timer_start m k3; Some k4 }
           else Some k3) }"

partial_function (option) rt_timer_check_loop ::
  "(nat \<Rightarrow> kernel \<Rightarrow> kernel option) \<Rightarrow> u32 \<Rightarrow> kernel \<Rightarrow> kernel option" where
  "rt_timer_check_loop ucb current_tick k =
     (if rt_timer_list k = [] then Some k
      else if current_tick - timeout_tick (timers k (hd (rt_timer_list k))) < RT_TICK_MAX div 2 then
        do { k1 \<leftarrow> timer_fire ucb (hd (rt_timer_list k)) k;
             rt_timer_check_loop ucb (rt_tick_get k1) k1 }
      else Some k)"

definition rt_timer_check :: "(nat \<Rightarrow> kernel \<Rightarrow> kernel option) \<Rightarrow> kernel \<Rightarrow> kernel option" where
  "rt_timer_check ucb k = rt_timer_check_loop ucb (rt_tick_get k) k"

definition rt_tick_increase :: "(nat \<Rightarrow> kernel \<Rightarrow> kernel option) \<Rightarrow> kernel \<Rightarrow> kernel option" where
  "rt_tick_increase ucb k =
     do { let k1 = k\<lparr>rt_tick := rt_tick k + 1\<rparr>;
          thread \<leftarrow> rt_thread_self k1;
          let k2 = upd_thread thread (\<lambda>th. th\<lparr>remaining_tick := remaining_tick th - 1\<rparr>) k1;
          k3 \<leftarrow> (if remaining_tick (threads k2 thread) = 0 then
                  do { let k' = upd_thread thread (\<lambda>th. th\<lparr>remaining_tick := init_tick th\<rparr>) k2;
                       (k'', e) \<leftarrow> rt_thread_yield k';
                       Some k'' }
                else Some k2);
          rt_timer_check ucb k3 }"

section \<open>Which timers are due\<close>

lemma expired_iff:
  assumes "tick_dist k m \<le> RT_TICK_MAX div 2"
  shows "rt_tick k - timeout_tick (timers k m) < RT_TICK_MAX div 2 \<longleftrightarrow> tick_dist k m \<le> 1"
proof -
  define d where "d = tick_dist k m"
  have e: "rt_tick k - timeout_tick (timers k m) = 1 - d" by (simp add: d_def tick_dist_def)
  have d: "d \<le> 0x7fffffff" using assms by (simp add: d_def tick_half)
  show ?thesis
  proof (cases "d \<le> 1")
    case True
    then have "unat (1 - d) = 1 - unat d" by (simp add: unat_sub_of_le)
    then have "1 - d < 0x7fffffff" by (simp add: word_less_nat_alt)
    with True show ?thesis by (simp add: e tick_half d_def [symmetric])
  next
    case False
    then have "unat (1 - d) = 2 ^ 32 + 1 - unat d"
      by (simp add: unat_sub_if_size word_size word_le_nat_alt)
    moreover have "unat d \<le> 0x7fffffff" using d by (simp add: word_le_nat_alt)
    ultimately have "\<not> 1 - d < 0x7fffffff" by (simp add: word_less_nat_alt)
    with False show ?thesis by (simp add: e tick_half d_def [symmetric])
  qed
qed

definition due_timers :: "kernel \<Rightarrow> tmr set" where
  "due_timers k = {m \<in> set (rt_timer_list k). tick_dist k m \<le> 1}"

lemma finite_due [simp]: "finite (due_timers k)"
  by (simp add: due_timers_def)


text \<open>The list is sorted, so the check stops at the first timer that is not due.\<close>

lemma first_not_due:
  assumes "tick_wf Od k" and "rt_timer_list k \<noteq> []" and "\<not> tick_dist k (hd (rt_timer_list k)) \<le> 1"
  shows "due_timers k = {}"
proof -
  obtain m ms where l: "rt_timer_list k = m # ms" using assms(2) by (cases "rt_timer_list k") auto
  have "\<not> tick_dist k x \<le> 1" if "x \<in> set ms" for x
    using assms(1,3) that by (auto simp: tick_wf_def l dest: order.trans)
  with assms(3) show ?thesis by (auto simp: due_timers_def l)
qed


section \<open>Firing one timer\<close>

lemma rt_thread_timeout_frame:
  assumes "rt_thread_timeout t k = Some k'"
  shows "timers k' = timers k \<and> rt_timer_list k' = rt_timer_list k \<and> rt_tick k' = rt_tick k"
proof -
  obtain k1 where "rt_schedule k1 = Some k'"
    and "timers k1 = timers k \<and> rt_timer_list k1 = rt_timer_list k \<and> rt_tick k1 = rt_tick k"
    using assms
    by (auto simp: rt_thread_timeout_def rt_schedule_insert_thread_def rt_assert_def Let_def
        split: if_splits Option.bind_splits)
  with same_but_currentD(6-8) [OF rt_schedule_same] show ?thesis by simp
qed

lemma stop_is_clear:
  "timer_activated (timers k m) \<Longrightarrow>
     fst (rt_timer_stop m k) = upd_timer m clear_active (rt_timer_remove m k)"
  by (simp add: rt_timer_stop_def clear_active_def)

text \<open>The state in which the thread of an expired timer has been made ready.\<close>

definition timeout_state :: "tid \<Rightarrow> kernel \<Rightarrow> kernel" where
  "timeout_state t k = resume_state t (upd_thread t (\<lambda>th. th\<lparr>error := - RT_ETIMEOUT\<rparr>)
     (fst (rt_timer_stop (Thread_Timer t) k)))"

lemma timer_fire_thread:
  assumes k: "kernel_inv Od k" and m: "Thread_Timer t \<in> set (rt_timer_list k)"
  shows "timer_fire ucb (Thread_Timer t) k = rt_schedule (timeout_state t k)"
    and "kernel_inv Od (timeout_state t k)"
    and "rt_timer_list (timeout_state t k) = removeAll (Thread_Timer t) (rt_timer_list k)"
    and "x \<noteq> Thread_Timer t \<Longrightarrow> timers (timeout_state t k) x = timers k x"
    and "rt_tick (timeout_state t k) = rt_tick k"
    and "threads (timeout_state t k) =
      (threads k)(t := (threads k t)\<lparr>error := - RT_ETIMEOUT, stat := RT_THREAD_READY\<rparr>)"
    and "rt_scheduler_lock_nest (timeout_state t k) = rt_scheduler_lock_nest k"
proof -
  let ?m = "Thread_Timer t"
  let ?k0 = "fst (rt_timer_stop ?m k)"
  have wf: "kernel_wf Od k" using k by (simp add: kernel_inv_def)
  have act: "timer_activated (timers k ?m)" and st: "stat (threads k t) = RT_THREAD_SUSPEND"
    using wf_timer(4,5) [OF wf] m by auto
  have cb: "timeout_func (timers k ?m) = CB_Thread_Timeout t" and np: "\<not> timer_periodic (timers k ?m)"
    using wf_timer(1,2) [OF wf, of t] st by auto
  have k0: "kernel_inv Od ?k0"
    using kernel_wf_timer_stop [OF wf] k by (simp add: kernel_inv_def running_def)
  have na: "\<not> timer_activated (timers ?k0 ?m)"
    using act by (simp add: rt_timer_stop_def)
  obtain k1 where k1: "rt_thread_timeout t ?k0 = rt_schedule k1" "kernel_inv Od k1"
    "k1 = timeout_state t k" "timers k1 = timers ?k0" "rt_timer_list k1 = rt_timer_list ?k0"
    using rt_thread_timeout_resume [OF k0 _ na] st by (auto simp: timeout_state_def)
  have comm: "rt_thread_timeout t ?k0 = map_option (upd_timer ?m clear_active) (rt_thread_timeout t (rt_timer_remove ?m k))"
    by (simp add: stop_is_clear [OF act] rt_thread_timeout_upd_timer)
  have "timer_fire ucb ?m k = map_option (upd_timer ?m clear_active) (rt_thread_timeout t (rt_timer_remove ?m k))"
  proof (cases "rt_thread_timeout t (rt_timer_remove ?m k)")
    case None
    then show ?thesis by (simp add: timer_fire_def Let_def cb)
  next
    case (Some k2)
    with rt_thread_timeout_frame [OF this] np show ?thesis by (simp add: timer_fire_def Let_def cb)
  qed
  with comm k1(1,3) show "timer_fire ucb ?m k = rt_schedule (timeout_state t k)" by simp
  show "kernel_inv Od (timeout_state t k)" using k1 by simp
  show "rt_timer_list (timeout_state t k) = removeAll ?m (rt_timer_list k)"
    using k1(3,5) act by (simp add: rt_timer_stop_def)
  show "timers (timeout_state t k) x = timers k x" if "x \<noteq> ?m"
    using k1(3,4) act that by (simp add: rt_timer_stop_def)
  show "rt_tick (timeout_state t k) = rt_tick k"
    and "threads (timeout_state t k) =
      (threads k)(t := (threads k t)\<lparr>error := - RT_ETIMEOUT, stat := RT_THREAD_READY\<rparr>)"
    and "rt_scheduler_lock_nest (timeout_state t k) = rt_scheduler_lock_nest k"
    by (simp_all add: timeout_state_def)
qed








section \<open>The check fires the due timers and ends\<close>



lemma not_overdue:
  assumes "kernel_inv Od k" and "due_timers k = {}"
  shows "kernel_inv {} k"
proof -
  have "tick_dist k m \<noteq> 0" if "m \<in> set (rt_timer_list k)" for m
    using assms(2) that by (auto simp: due_timers_def)
  with assms(1) show ?thesis by (simp add: kernel_inv_def kernel_wf_def tick_wf_def)
qed

lemma tick_one_step:
  assumes k: "kernel_inv {} k"
  shows "kernel_inv UNIV (k\<lparr>rt_tick := rt_tick k + 1\<rparr>)" (is "kernel_inv UNIV ?k")
proof -
  have wf: "kernel_wf {} k" using k by (simp add: kernel_inv_def)
  note tw = kernel_wfD(8) [OF wf]
  have d: "tick_dist ?k m = tick_dist k m - 1" for m by (simp add: tick_dist_def)
  have nz: "tick_dist k m \<noteq> 0" "tick_dist k m \<le> RT_TICK_MAX div 2" if "m \<in> set (rt_timer_list k)" for m
    using tw that by (auto simp: tick_wf_def)
  have u: "unat (tick_dist k m - 1) = unat (tick_dist k m) - 1" if "m \<in> set (rt_timer_list k)" for m
    using nz(1) [OF that] by (simp add: unat_minus_one)
  have "sorted (map (tick_dist ?k) (rt_timer_list k))"
  proof -
    have "sorted_wrt (\<lambda>x y. tick_dist k x \<le> tick_dist k y) (rt_timer_list k)"
      using tw by (simp add: tick_wf_def sorted_map)
    then have "sorted_wrt (\<lambda>x y. tick_dist ?k x \<le> tick_dist ?k y) (rt_timer_list k)"
      by (rule sorted_wrt_mono_rel [rotated])
        (simp add: d word_le_nat_alt u del: unat_1)
    then show ?thesis by (simp add: sorted_map)
  qed
  moreover have "tick_dist ?k m \<le> RT_TICK_MAX div 2" if "m \<in> set (rt_timer_list k)" for m
    using nz [OF that] by (simp add: d word_le_nat_alt u [OF that] tick_half)
  ultimately have "tick_wf UNIV ?k" by (simp add: tick_wf_def)
  moreover have "timers_wf ?k"
    using kernel_wfD(7) [OF wf] by (simp add: timers_wf_def thread_timer_ok_def)
  ultimately have "kernel_wf UNIV ?k" by (intro kernel_wf_timers [OF wf]) simp_all
  then show ?thesis using k by (simp add: kernel_inv_def running_def)
qed

text \<open>The time slice, then the check.\<close>

definition slice :: "kernel \<Rightarrow> kernel option" where
  "slice k =
     do { let k1 = k\<lparr>rt_tick := rt_tick k + 1\<rparr>;
          thread \<leftarrow> rt_thread_self k1;
          let k2 = upd_thread thread (\<lambda>th. th\<lparr>remaining_tick := remaining_tick th - 1\<rparr>) k1;
          (if remaining_tick (threads k2 thread) = 0 then
             do { let k' = upd_thread thread (\<lambda>th. th\<lparr>remaining_tick := init_tick th\<rparr>) k2;
                  (k'', e) \<leftarrow> rt_thread_yield k';
                  Some k'' }
           else Some k2) }"

lemma rt_tick_increase_slice: "rt_tick_increase ucb k = slice k \<bind> rt_timer_check ucb"
  by (simp add: rt_tick_increase_def slice_def Let_def)

lemma rt_thread_yield_inv:
  assumes k: "kernel_inv Od k"
  shows "returns (rt_thread_yield k) (\<lambda>(k', e). e = RT_EOK \<and> kernel_inv Od k' \<and> threads k' = threads k \<and>
    timers k' = timers k \<and> rt_timer_list k' = rt_timer_list k \<and> rt_tick k' = rt_tick k \<and>
    (\<forall>q. tlists k' (Wait q) = tlists k (Wait q)) \<and> (scheduled k \<longrightarrow> scheduled k'))"
proof -
  obtain c where c: "rt_current_thread k = Some c"
    using k by (auto simp: kernel_inv_def running_def)
  let ?shared = "stat (threads k c) = RT_THREAD_READY \<and>
    1 < length (tlists k (Ready (unat (current_priority (threads k c)))))"
  show ?thesis
  proof (cases ?shared)
    case True
    note y = rt_thread_yield_returns [OF k c]
    obtain k' where k': "rt_schedule (yield_state c k) = Some k'" "kernel_inv Od k'"
      "schedule_post (yield_state c k) k'"
      using schedule_post_inv y(2) True by blast
    then show ?thesis
      using y(1) True schedule_post_frame [OF k'(3)] schedule_post_scheduled [OF k'(3)]
      by (simp add: yield_state_def)
  next
    case False
    then show ?thesis using k yield_not_shared [OF c False] by simp
  qed
qed

lemma slice_returns:
  assumes k: "kernel_inv {} k"
  shows "returns (slice k) (\<lambda>k'. kernel_inv UNIV k' \<and> rt_tick k' = rt_tick k + 1 \<and>
    timers k' = timers k \<and> rt_timer_list k' = rt_timer_list k \<and>
    (\<forall>t. stat (threads k' t) = stat (threads k t) \<and> error (threads k' t) = error (threads k t) \<and>
       event_set (threads k' t) = event_set (threads k t) \<and> event_info (threads k' t) = event_info (threads k t)) \<and>
    (\<forall>q. tlists k' (Wait q) = tlists k (Wait q)) \<and> (scheduled k \<longrightarrow> scheduled k'))"
proof -
  obtain c where c: "rt_current_thread k = Some c"
    using k by (auto simp: kernel_inv_def running_def)
  let ?k1 = "k\<lparr>rt_tick := rt_tick k + 1\<rparr>"
  let ?k2 = "upd_thread c (\<lambda>th. th\<lparr>remaining_tick := remaining_tick th - 1\<rparr>) ?k1"
  let ?k' = "upd_thread c (\<lambda>th. th\<lparr>remaining_tick := init_tick th\<rparr>) ?k2"
  have k1: "kernel_inv UNIV ?k1" by (rule tick_one_step [OF k])
  have k2: "kernel_inv UNIV ?k2" using k1 by simp
  have "scheduled ?k1 = scheduled k" by (simp add: scheduled_def is_highest_def)
  then have s2: "scheduled ?k2 = scheduled k" by simp
  have k': "kernel_inv UNIV ?k'" using k2 by (subst kernel_inv_upd_thread) (simp_all add: thread_same_def)
  have s': "scheduled ?k' = scheduled k"
    using s2 by (subst scheduled_upd_thread) (simp_all add: thread_same_def)
  obtain k3 where k3: "rt_thread_yield ?k' = Some (k3, RT_EOK)" "kernel_inv UNIV k3" "threads k3 = threads ?k'"
    "timers k3 = timers ?k'" "rt_timer_list k3 = rt_timer_list ?k'" "rt_tick k3 = rt_tick ?k'"
    "\<forall>q. tlists k3 (Wait q) = tlists ?k' (Wait q)" "scheduled ?k' \<longrightarrow> scheduled k3"
    using rt_thread_yield_inv [OF k'] by (auto simp only: returns_iff split: prod.splits)
  show ?thesis
  proof (cases "remaining_tick (threads ?k2 c) = 0")
    case True
    then have "slice k = Some k3" using c k3(1) by (simp add: slice_def Let_def rt_thread_self_def)
    with k3 s' show ?thesis by simp
  next
    case False
    then have "slice k = Some ?k2" using c by (simp add: slice_def Let_def rt_thread_self_def)
    with k2 s2 show ?thesis by simp
  qed
qed

section \<open>Exactly the expired sleepers wake up\<close>

definition woken :: "tmr set \<Rightarrow> kernel \<Rightarrow> tid \<Rightarrow> rt_thread" where
  "woken D k t = (if Thread_Timer t \<in> D
     then (threads k t)\<lparr>error := - RT_ETIMEOUT, stat := RT_THREAD_READY\<rparr> else threads k t)"

lemma check_loop_exact:
  "kernel_inv Od k \<Longrightarrow> (\<forall>m \<in> set (rt_timer_list k). \<exists>t. m = Thread_Timer t) \<Longrightarrow>
     returns (rt_timer_check_loop ucb (rt_tick k) k) (\<lambda>k'.
       threads k' = woken (due_timers k) k \<and> rt_timer_list k' = filter (\<lambda>m. m \<notin> due_timers k) (rt_timer_list k) \<and>
       kernel_inv Od k' \<and> rt_tick k' = rt_tick k \<and> due_timers k' = {} \<and> (scheduled k \<longrightarrow> scheduled k') \<and>
       (\<forall>m. m \<notin> due_timers k \<longrightarrow> timers k' m = timers k m) \<and>
       (\<forall>q. tlists k' (Wait q) = filter (\<lambda>t. Thread_Timer t \<notin> due_timers k) (tlists k (Wait q))))"
proof (induction "rt_timer_list k" arbitrary: k)
  case Nil
  then have "rt_timer_check_loop ucb (rt_tick k) k = Some k"
    by (subst rt_timer_check_loop.simps) simp
  moreover have "due_timers k = {}" using Nil.hyps [symmetric] by (simp add: due_timers_def)
  ultimately show ?case using Nil by (simp add: woken_def)
next
  case (Cons m ms)
  have wf: "kernel_wf Od k" using Cons.prems(1) by (simp add: kernel_inv_def)
  have l: "rt_timer_list k = m # ms" using Cons.hyps(2) by simp
  have m: "m \<in> set (rt_timer_list k)" using l by simp
  then have "tick_dist k m \<le> RT_TICK_MAX div 2" using kernel_wfD(8) [OF wf] by (simp add: tick_wf_def)
  note e = expired_iff [OF this]
  show ?case
  proof (cases "tick_dist k m \<le> 1")
    case True
    obtain t where t: "m = Thread_Timer t" using Cons.prems(2) m by blast
    note f = timer_fire_thread [OF Cons.prems(1) m [unfolded t]]
    obtain k1 where k1: "rt_schedule (timeout_state t k) = Some k1" "kernel_inv Od k1"
      "schedule_post (timeout_state t k) k1"
      by (rule schedule_post_inv [OF f(2)])
    note fr = schedule_post_frame [OF k1(3)]
    have d: "distinct (m # ms)" using wf_timer(6) [OF wf] l by simp
    then have l1: "rt_timer_list k1 = ms" by (simp add: fr f l t [symmetric] removeAll_id)
    have dist: "tick_dist k1 x = tick_dist k x" if "x \<in> set ms" for x
    proof -
      have "x \<noteq> Thread_Timer t" using that d t by auto
      then show ?thesis by (simp add: tick_dist_def fr f)
    qed
    have due: "due_timers k = insert m (due_timers k1)"
      using True by (auto simp: due_timers_def l l1 dist)
    have "m \<notin> due_timers k1" using d by (simp add: due_timers_def l1)
    with due t have w: "woken (due_timers k) k = woken (due_timers k1) k1"
      by (auto simp: woken_def fr f fun_eq_iff)
    have fl: "filter (\<lambda>m. m \<notin> due_timers k) (m # ms) = filter (\<lambda>m. m \<notin> due_timers k1) ms"
      using d due by (auto intro: filter_cong)
    have step: "rt_timer_check_loop ucb (rt_tick k) k = rt_timer_check_loop ucb (rt_tick k1) k1"
      using True e l f(1) k1(1) t
      by (subst rt_timer_check_loop.simps) (simp add: rt_tick_get_def)
    have "\<forall>x \<in> set (rt_timer_list k1). \<exists>t. x = Thread_Timer t" using Cons.prems(2) by (simp add: l l1)
    note IH = Cons.hyps(1) [OF l1 [symmetric] k1(2) this]
    have tk: "rt_tick k1 = rt_tick k" by (simp add: fr f)
    have tms: "timers k1 x = timers k x" if "x \<notin> due_timers k" for x
    proof -
      have "x \<noteq> Thread_Timer t" using that due t by auto
      then show ?thesis by (simp add: fr f)
    qed
    have wq: "filter (\<lambda>t. Thread_Timer t \<notin> due_timers k1) (tlists k1 (Wait q)) =
        filter (\<lambda>t. Thread_Timer t \<notin> due_timers k) (tlists k (Wait q))" for q
      by (auto simp: fr timeout_state_def removeAll_filter due t intro: filter_cong)
    have sub: "due_timers k1 \<subseteq> due_timers k" using due by blast
    show ?thesis
      unfolding step w l fl
      by (rule returns_mono [OF IH])
        (use schedule_post_scheduled [OF k1(3)] tms sub wq in \<open>simp add: tk l1 subset_iff; metis\<close>)
  next
    case False
    have none: "due_timers k = {}"
      by (rule first_not_due [OF kernel_wfD(8) [OF wf]]) (use l False in simp_all)
    have "rt_timer_check_loop ucb (rt_tick k) k = Some k"
      using False e l by (subst rt_timer_check_loop.simps) simp
    with none Cons.prems(1) show ?thesis by (simp add: woken_def fun_eq_iff)
  qed
qed


section \<open>The tick interrupt\<close>

lemma due_after_tick:
  assumes "kernel_inv {} k" and "m \<in> set (rt_timer_list k)"
    and "timers k' = timers k" and "rt_timer_list k' = rt_timer_list k" and "rt_tick k' = rt_tick k + 1"
  shows "m \<in> due_timers k' \<longleftrightarrow> timeout_tick (timers k m) \<in> {rt_tick k, rt_tick k + 1}"
proof -
  have "kernel_wf {} k" using assms(1) by (simp add: kernel_inv_def)
  define d where "d = tick_dist k m"
  have d: "d \<noteq> 0" using kernel_wfD(8) [OF \<open>kernel_wf {} k\<close>] assms(2) by (auto simp: tick_wf_def d_def)
  have e: "tick_dist k' m = d - 1" by (simp add: tick_dist_def d_def assms)
  have u: "unat (d - 1) = unat d - 1" using d by (simp add: unat_minus_one)
  have "m \<in> due_timers k' \<longleftrightarrow> d - 1 \<le> 1" by (simp add: due_timers_def assms(2,4) e)
  also have "\<dots> \<longleftrightarrow> d = 1 \<or> d = 2"
    using d u by (auto simp: word_le_nat_alt word_unat_eq_iff)
  also have "\<dots> \<longleftrightarrow> timeout_tick (timers k m) \<in> {rt_tick k, rt_tick k + 1}"
    by (auto simp: d_def tick_dist_def algebra_simps)
  finally show ?thesis .
qed

text \<open>The timers that fire at the next tick.\<close>

definition fires_at_next :: "kernel \<Rightarrow> tmr \<Rightarrow> bool" where
  "fires_at_next k m \<longleftrightarrow> m \<in> set (rt_timer_list k) \<and> timeout_tick (timers k m) \<in> {rt_tick k, rt_tick k + 1}"

definition only_thread_timers :: "kernel \<Rightarrow> bool" where
  "only_thread_timers k \<longleftrightarrow> (\<forall>m \<in> set (rt_timer_list k). \<exists>t. m = Thread_Timer t)"

lemma tick_exact:
  assumes k: "kernel_inv {} k" and only: "only_thread_timers k"
  shows "returns (rt_tick_increase ucb k) (\<lambda>k'. kernel_inv {} k' \<and> (scheduled k \<longrightarrow> scheduled k') \<and> only_thread_timers k' \<and>
    rt_tick k' = rt_tick k + 1 \<and>
    rt_timer_list k' = filter (\<lambda>m. \<not> fires_at_next k m) (rt_timer_list k) \<and>
    (\<forall>m. \<not> fires_at_next k m \<longrightarrow> timers k' m = timers k m) \<and>
    (\<forall>q. tlists k' (Wait q) = filter (\<lambda>t. \<not> fires_at_next k (Thread_Timer t)) (tlists k (Wait q))) \<and>
    (\<forall>t. if fires_at_next k (Thread_Timer t)
         then stat (threads k' t) = RT_THREAD_READY \<and> error (threads k' t) = - RT_ETIMEOUT
         else stat (threads k' t) = stat (threads k t) \<and> error (threads k' t) = error (threads k t)) \<and>
    (\<forall>t. event_set (threads k' t) = event_set (threads k t) \<and> event_info (threads k' t) = event_info (threads k t)))"
proof -
  obtain k1 where k1: "slice k = Some k1" "kernel_inv UNIV k1" "rt_tick k1 = rt_tick k + 1"
    "timers k1 = timers k" "rt_timer_list k1 = rt_timer_list k"
    "\<forall>t. stat (threads k1 t) = stat (threads k t) \<and> error (threads k1 t) = error (threads k t) \<and>
       event_set (threads k1 t) = event_set (threads k t) \<and> event_info (threads k1 t) = event_info (threads k t)"
    "scheduled k \<longrightarrow> scheduled k1" "\<forall>q. tlists k1 (Wait q) = tlists k (Wait q)"
    using slice_returns [OF k] by (auto simp: returns_iff)
  have w: "m \<in> due_timers k1 \<longleftrightarrow> fires_at_next k m" for m
    using due_after_tick [OF k _ k1(4,5,3), of m] k1(5) by (auto simp: due_timers_def fires_at_next_def)
  have "\<forall>m \<in> set (rt_timer_list k1). \<exists>t. m = Thread_Timer t" using only k1(5) by (simp add: only_thread_timers_def)
  from check_loop_exact [OF k1(2) this, of ucb] show ?thesis
    unfolding rt_tick_increase_slice k1(1) rt_timer_check_def rt_tick_get_def bind.bind_lunit
  proof (rule returns_mono, goal_cases)
    case (1 x)
    then have x: "kernel_inv {} x" by (auto intro: not_overdue)
    from 1 have "only_thread_timers x" using only by (simp add: only_thread_timers_def k1(5))
    with x 1 k1 show ?case by (simp add: woken_def w)
  qed
qed

text \<open>
  C5. The tick interrupt, when only sleeping and waiting threads have timers: it
  returns, the tick has advanced by one (with wrap-around), every thread whose timer falls due at
  the new tick (or was set to no delay) is ready with error \<^verbatim>\<open>-RT_ETIMEOUT\<close> and off the timer list,
  every other timer is still on the list and every other thread in the state it had, no overdue
  timer is left, and the running thread is again the most urgent one.
\<close>

theorem tick_wakes_exactly:
  assumes "kernel_inv {} k" and "only_thread_timers k" and "scheduled k"
  shows "returns (rt_tick_increase ucb k) (\<lambda>k'. kernel_inv {} k' \<and> scheduled k' \<and>
    rt_tick k' = rt_tick k + 1 \<and>
    rt_timer_list k' = filter (\<lambda>m. timeout_tick (timers k m) \<notin> {rt_tick k, rt_tick k + 1}) (rt_timer_list k) \<and>
    (\<forall>t. if Thread_Timer t \<in> set (rt_timer_list k) \<and>
            timeout_tick (timers k (Thread_Timer t)) \<in> {rt_tick k, rt_tick k + 1}
         then stat (threads k' t) = RT_THREAD_READY \<and> error (threads k' t) = - RT_ETIMEOUT
         else stat (threads k' t) = stat (threads k t) \<and> error (threads k' t) = error (threads k t)))"
proof -
  have "filter (\<lambda>m. \<not> fires_at_next k m) (rt_timer_list k) =
      filter (\<lambda>m. timeout_tick (timers k m) \<notin> {rt_tick k, rt_tick k + 1}) (rt_timer_list k)"
    by (rule filter_cong) (auto simp: fires_at_next_def)
  with tick_exact [OF assms(1,2), of ucb] assms(3) show ?thesis
    by (elim returns_mono) (simp add: fires_at_next_def)
qed


lemma tick_wakes_exactly_witness:
  "returns (rt_tick_increase (\<lambda>c k. Some k) ex_wait) (\<lambda>k'. kernel_inv {} k' \<and> rt_tick k' = 101 \<and>
     rt_timer_list k' = [] \<and> stat (threads k' 2) = RT_THREAD_READY \<and> error (threads k' 2) = - RT_ETIMEOUT \<and>
     stat (threads k' 3) = RT_THREAD_SUSPEND)"
proof (rule returns_mono [OF tick_wakes_exactly [OF ex_wait_inv]])
  show "scheduled ex_wait" by (simp add: scheduled_def ex_highest)
  show "only_thread_timers ex_wait" by (simp add: only_thread_timers_def)
qed (auto split: if_splits dest: spec [of _ 2] spec [of _ 3])

text \<open>A timeout function that leaves the kernel alone meets the contract.\<close>

definition quiet_callback :: "nat \<Rightarrow> kernel \<Rightarrow> kernel option" where
  "quiet_callback c k = Some k"



text \<open>
  A periodic timer of period 0 that is due: the check never returns, whatever the number of rounds,
  although its timeout function does nothing.
\<close>

definition busy_timer :: "nat \<Rightarrow> kernel \<Rightarrow> bool" where
  "busy_timer i k \<longleftrightarrow> rt_timer_list k = [App_Timer i] \<and>
     timer_periodic (timers k (App_Timer i)) \<and> timer_activated (timers k (App_Timer i)) \<and>
     (\<exists>c. timeout_func (timers k (App_Timer i)) = CB_App c) \<and>
     tm_init_tick (timers k (App_Timer i)) = 0 \<and> timeout_tick (timers k (App_Timer i)) = rt_tick k"

lemma busy_timer_fire:
  assumes "busy_timer i k"
  shows "\<exists>k'. timer_fire quiet_callback (App_Timer i) k = Some k' \<and> busy_timer i k'"
proof -
  let ?m = "App_Timer i"
  let ?k3 = "upd_timer ?m clear_active (rt_timer_remove ?m k)"
  have "rt_timer_start ?m ?k3 = Some (start_timer ?m ?k3, - RT_EOK)"
    by (rule rt_timer_start_eq) (use assms in \<open>simp_all add: busy_timer_def clear_active_def tick_half\<close>)
  then have "timer_fire quiet_callback ?m k = Some (start_timer ?m ?k3)"
    using assms by (auto simp: timer_fire_def quiet_callback_def busy_timer_def)
  moreover have "busy_timer i (start_timer ?m ?k3)"
    using assms
    by (auto simp: busy_timer_def clear_active_def)
      (simp add: start_timer_def Let_def timer_list_insert_def)
  ultimately show ?thesis by blast
qed

text \<open>
  With such a timer the tick interrupt's check does not come back:
  \<^verbatim>\<open>rt_timer_start\<close> puts the timer back at the current tick, where it is due again.
\<close>

theorem period_zero_never_returns:
  assumes "busy_timer i k"
  shows "rt_timer_check quiet_callback k = None"
proof (rule ccontr)
  assume "rt_timer_check quiet_callback k \<noteq> None"
  then obtain r where "rt_timer_check_loop quiet_callback (rt_tick k) k = Some r"
    by (auto simp: rt_timer_check_def rt_tick_get_def)
  moreover have "ct = rt_tick k0 \<longrightarrow> ucb = quiet_callback \<longrightarrow> \<not> busy_timer i k0"
    if "rt_timer_check_loop ucb ct k0 = Some r0" for ucb ct k0 r0
  proof (rule rt_timer_check_loop.raw_induct [OF _ that])
    fix loop :: "(nat \<Rightarrow> kernel \<Rightarrow> kernel option) \<Rightarrow> u32 \<Rightarrow> kernel \<Rightarrow> kernel option"
    fix ucb ct k0 r0
    assume IH: "\<And>ucb ct k r. loop ucb ct k = Some r \<Longrightarrow>
        ct = rt_tick k \<longrightarrow> ucb = quiet_callback \<longrightarrow> \<not> busy_timer i k"
      and body: "(if rt_timer_list k0 = [] then Some k0
        else if ct - timeout_tick (timers k0 (hd (rt_timer_list k0))) < RT_TICK_MAX div 2
             then timer_fire ucb (hd (rt_timer_list k0)) k0 \<bind> (\<lambda>k1. loop ucb (rt_tick_get k1) k1)
             else Some k0) = Some r0"
    show "ct = rt_tick k0 \<longrightarrow> ucb = quiet_callback \<longrightarrow> \<not> busy_timer i k0"
    proof (intro impI notI)
      assume ct: "ct = rt_tick k0" and u: "ucb = quiet_callback" and b: "busy_timer i k0"
      obtain k' where k': "timer_fire quiet_callback (App_Timer i) k0 = Some k'" "busy_timer i k'"
        using busy_timer_fire [OF b] by blast
      have "loop quiet_callback (rt_tick_get k') k' = Some r0"
        using body b ct u k'(1) by (simp add: busy_timer_def tick_half)
      from IH [OF this] k'(2) show False by (simp add: rt_tick_get_def)
    qed
  qed
  ultimately show False using assms by blast
qed

lemma period_zero_never_returns_witness:
  "rt_timer_check quiet_callback (ex_run\<lparr>rt_timer_list := [App_Timer 0],
     timers := ex_timer(App_Timer 0 := \<lparr>tm_flag = 3, timeout_func = CB_App 0, tm_init_tick = 0,
       timeout_tick = 100\<rparr>)\<rparr>) = None"
  by (rule period_zero_never_returns [of 0])
    (simp add: busy_timer_def timer_periodic_def timer_activated_def RT_TIMER_FLAG_PERIODIC_def
      RT_TIMER_FLAG_ACTIVATED_def)


section \<open>Waiting for a number of ticks\<close>

fun ticks :: "(nat \<Rightarrow> kernel \<Rightarrow> kernel option) \<Rightarrow> nat \<Rightarrow> kernel \<Rightarrow> kernel option" where
  "ticks ucb 0 k = Some k"
| "ticks ucb (Suc n) k = do { k1 \<leftarrow> ticks ucb n k; rt_tick_increase ucb k1 }"

text \<open>Thread \<open>t\<close> is suspended and its timer fires \<open>n\<close> ticks from now.\<close>

definition sleeping :: "kernel \<Rightarrow> tid \<Rightarrow> nat \<Rightarrow> bool" where
  "sleeping k t n \<longleftrightarrow> kernel_inv {} k \<and> scheduled k \<and> only_thread_timers k \<and>
     Thread_Timer t \<in> set (rt_timer_list k) \<and>
     timeout_tick (timers k (Thread_Timer t)) = rt_tick k + of_nat n \<and> n < 0x7fffffff"

lemma sleeping_suspended: "sleeping k t n \<Longrightarrow> stat (threads k t) = RT_THREAD_SUSPEND"
  by (auto simp: sleeping_def kernel_inv_def dest: wf_timer(4))

lemma of_nat_u32_inject: "a < 2 ^ 32 \<Longrightarrow> b < 2 ^ 32 \<Longrightarrow> (of_nat a :: u32) = of_nat b \<longleftrightarrow> a = b"
  by (simp add: word_unat_eq_iff unsigned_of_nat take_bit_nat_eq_self)

lemma sleeping_fires:
  assumes "sleeping k t (Suc n)"
  shows "fires_at_next k (Thread_Timer t) \<longleftrightarrow> n = 0"
proof -
  have "rt_tick k + of_nat (Suc n) = rt_tick k \<longleftrightarrow> (of_nat (Suc n) :: u32) = of_nat 0" by simp
  moreover have "rt_tick k + of_nat (Suc n) = rt_tick k + 1 \<longleftrightarrow> (of_nat (Suc n) :: u32) = of_nat 1" by simp
  ultimately show ?thesis
    using assms of_nat_u32_inject [of "Suc n" 0] of_nat_u32_inject [of "Suc n" 1]
    by (simp add: fires_at_next_def sleeping_def del: of_nat_Suc)
qed

lemma sleeping_tick:
  assumes s: "sleeping k t (Suc n)"
  shows "returns (rt_tick_increase ucb k) (\<lambda>k'. if n = 0
    then kernel_inv {} k' \<and> scheduled k' \<and> stat (threads k' t) = RT_THREAD_READY \<and>
      error (threads k' t) = - RT_ETIMEOUT \<and> (\<forall>q. t \<notin> set (tlists k' (Wait q)))
    else sleeping k' t n \<and> (\<forall>q. t \<in> set (tlists k (Wait q)) \<longrightarrow> t \<in> set (tlists k' (Wait q))))"
proof -
  have k: "kernel_inv {} k" "only_thread_timers k" and sch: "scheduled k" using s by (simp_all add: sleeping_def)
  from tick_exact [OF k, of ucb] show ?thesis
  proof (rule returns_mono, goal_cases)
    case (1 k')
    show ?case
    proof (cases "n = 0")
      case True
      with 1 sch sleeping_fires [OF s] show ?thesis by (auto dest: spec [of _ t])
    next
      case False
      then have nf: "\<not> fires_at_next k (Thread_Timer t)" by (simp add: sleeping_fires [OF s])
      with 1 sch s have "sleeping k' t n" by (auto simp: sleeping_def)
      with 1 nf False show ?thesis by auto
    qed
  qed
qed

lemma sleeping_ticks:
  "sleeping k t n \<Longrightarrow> j < n \<Longrightarrow> returns (ticks ucb j k) (\<lambda>k'. sleeping k' t (n - j) \<and>
     (\<forall>q. t \<in> set (tlists k (Wait q)) \<longrightarrow> t \<in> set (tlists k' (Wait q))))"
proof (induction j)
  case (Suc j)
  then obtain k1 where k1: "ticks ucb j k = Some k1" "sleeping k1 t (n - j)"
    "\<forall>q. t \<in> set (tlists k (Wait q)) \<longrightarrow> t \<in> set (tlists k1 (Wait q))"
    by (auto simp: returns_iff)
  then have "sleeping k1 t (Suc (n - Suc j))" using Suc.prems(2) by (simp add: Suc_diff_Suc)
  from sleeping_tick [OF this, of ucb] k1 Suc.prems(2) show ?case
    by (auto elim!: returns_mono)
qed simp

lemma sleeping_wakes:
  assumes "sleeping k t n" and "0 < n"
  shows "returns (ticks ucb n k) (\<lambda>k'. kernel_inv {} k' \<and> scheduled k' \<and>
    stat (threads k' t) = RT_THREAD_READY \<and> error (threads k' t) = - RT_ETIMEOUT \<and>
    (\<forall>q. t \<notin> set (tlists k' (Wait q))))"
proof -
  obtain m where n: "n = Suc m" using assms(2) by (cases n) auto
  then obtain k1 where k1: "ticks ucb m k = Some k1" "sleeping k1 t (n - m)"
    using sleeping_ticks [OF assms(1), of m ucb] by (auto simp: returns_iff)
  then have "sleeping k1 t (Suc 0)" by (simp add: n)
  from sleeping_tick [OF this, of ucb] k1 show ?thesis by (simp add: n)
qed

text \<open>Ticks only take threads off waiting lists.\<close>

lemma ticks_shrink:
  assumes "kernel_inv {} k" and "only_thread_timers k" and "scheduled k"
  shows "returns (ticks ucb n k) (\<lambda>k'. kernel_inv {} k' \<and> only_thread_timers k' \<and> scheduled k' \<and>
    (\<forall>q. set (tlists k' (Wait q)) \<subseteq> set (tlists k (Wait q))))"
proof (induction n)
  case (Suc n)
  then obtain k1 where k1: "ticks ucb n k = Some k1" "kernel_inv {} k1" "only_thread_timers k1" "scheduled k1"
    "\<forall>q. set (tlists k1 (Wait q)) \<subseteq> set (tlists k (Wait q))"
    by (auto simp: returns_iff)
  from tick_exact [OF k1(2,3), of ucb] show ?case
    using k1(4,5) by (auto simp: k1(1) subset_iff elim!: returns_mono)
qed (use assms in simp)

lemma sleep_starts:
  assumes k: "kernel_inv {} k" and c: "may_block k c" and open_: "rt_scheduler_lock_nest k = 0"
    and only: "only_thread_timers k" and tick: "tick < RT_TICK_MAX div 2"
  shows "returns (rt_thread_sleep tick k) (\<lambda>k1. sleeping k1 c (unat tick) \<and> rt_current_thread k1 \<noteq> Some c)"
proof -
  obtain k1 where k1: "rt_thread_sleep tick k = rt_schedule k1" "kernel_inv {} k1"
    "k1 = arm_timer c tick (suspend_state c k)"
    "set (rt_timer_list k1) = insert (Thread_Timer c) (set (rt_timer_list k))"
    using rt_thread_sleep_returns [OF k c tick] by blast
  obtain k' where k': "rt_schedule k1 = Some k'" "kernel_inv {} k'" "schedule_post k1 k'" "scheduled k'"
    using schedule_post_inv [OF k1(2)] schedule_post_scheduled by metis
  note fr = schedule_post_frame [OF k'(3)]
  have "only_thread_timers k'" using only k1(4) by (simp add: only_thread_timers_def fr)
  moreover have "unat tick < 0x7fffffff" using tick by (simp add: tick_half word_less_nat_alt)
  ultimately have "sleeping k' c (unat tick)"
    using k' k1(4) by (simp add: sleeping_def fr) (simp add: k1(3))
  moreover have "\<not> is_highest k1 c" by (simp add: is_highest_def k1(3))
  then have "rt_current_thread k' \<noteq> Some c"
    using schedule_postD(2) [OF k'(3), of c] open_ by (auto simp: k1(3))
  ultimately show ?thesis by (simp add: k1(1) k'(1))
qed

text \<open>
  C36. A thread that sleeps for \<open>tick > 0\<close> ticks loses the processor, is still
  suspended after every smaller number of ticks, and after exactly \<open>tick\<close> ticks is ready again;
  when it runs, \<^verbatim>\<open>rt_thread_sleep\<close> returns \<^verbatim>\<open>RT_EOK\<close> with the timeout error cleared. The tick may
  wrap around in between.
\<close>

theorem sleep_wakes_on_time:
  assumes "kernel_inv {} k" and "may_block k c" and "rt_scheduler_lock_nest k = 0"
    and "only_thread_timers k" and "tick < RT_TICK_MAX div 2" and "0 < tick"
  shows "returns (rt_thread_sleep tick k) (\<lambda>k1. rt_current_thread k1 \<noteq> Some c \<and>
    (\<forall>j < unat tick. returns (ticks ucb j k1) (\<lambda>k2. stat (threads k2 c) = RT_THREAD_SUSPEND)) \<and>
    returns (ticks ucb (unat tick) k1) (\<lambda>k2. kernel_inv {} k2 \<and> stat (threads k2 c) = RT_THREAD_READY \<and>
      snd (rt_thread_sleep_resume c k2) = RT_EOK \<and>
      error (threads (fst (rt_thread_sleep_resume c k2)) c) = RT_EOK))"
proof (rule returns_mono [OF sleep_starts [OF assms(1-5)]])
  fix k1 assume s: "sleeping k1 c (unat tick) \<and> rt_current_thread k1 \<noteq> Some c"
  have "returns (ticks ucb j k1) (\<lambda>k2. stat (threads k2 c) = RT_THREAD_SUSPEND)" if "j < unat tick" for j
    using sleeping_ticks [of k1 c "unat tick" j ucb] s that
    by (auto elim!: returns_mono dest: sleeping_suspended)
  moreover have "0 < unat tick" using assms(6) by (simp add: word_less_nat_alt)
  then have "returns (ticks ucb (unat tick) k1) (\<lambda>k2. kernel_inv {} k2 \<and> stat (threads k2 c) = RT_THREAD_READY \<and>
      snd (rt_thread_sleep_resume c k2) = RT_EOK \<and>
      error (threads (fst (rt_thread_sleep_resume c k2)) c) = RT_EOK)"
    using sleeping_wakes [of k1 c "unat tick" ucb] s
    by (auto elim!: returns_mono simp: rt_thread_sleep_resume_def)
  ultimately show "rt_current_thread k1 \<noteq> Some c \<and>
    (\<forall>j < unat tick. returns (ticks ucb j k1) (\<lambda>k2. stat (threads k2 c) = RT_THREAD_SUSPEND)) \<and>
    returns (ticks ucb (unat tick) k1) (\<lambda>k2. kernel_inv {} k2 \<and> stat (threads k2 c) = RT_THREAD_READY \<and>
      snd (rt_thread_sleep_resume c k2) = RT_EOK \<and>
      error (threads (fst (rt_thread_sleep_resume c k2)) c) = RT_EOK)"
    using s by blast
qed

lemma sleep_wakes_on_time_witness:
  "returns (rt_thread_sleep 3 ex_wait) (\<lambda>k1. returns (ticks quiet_callback 3 k1) (\<lambda>k2.
     stat (threads k2 5) = RT_THREAD_READY))"
proof -
  have "returns (rt_thread_sleep 3 ex_wait) (\<lambda>k1. returns (ticks quiet_callback (unat (3 :: u32)) k1) (\<lambda>k2.
     stat (threads k2 5) = RT_THREAD_READY))"
    by (rule returns_mono [OF sleep_wakes_on_time [OF ex_wait_inv ex_may_block(2), where ucb = quiet_callback]])
      (auto simp: only_thread_timers_def tick_half elim!: returns_mono)
  then show ?thesis by simp
qed

end
