(* ===== verification/RT_IPC.thy ===== *)
theory RT_IPC
  imports RT_Clock
begin

text \<open>
  What the IPC objects of src/ipc.c share: queueing the calling thread on an object's waiting list,
  in order of arrival or of priority, and waking the first or all waiting threads. A waiting list is
  the list \<^term>\<open>Wait q\<close> of the kernel's thread lists.
\<close>

section \<open>The code\<close>

definition RT_IPC_FLAG_FIFO :: u8 where "RT_IPC_FLAG_FIFO = 0"
definition RT_IPC_FLAG_PRIO :: u8 where "RT_IPC_FLAG_PRIO = 1"
definition RT_IPC_CMD_RESET :: u8 where "RT_IPC_CMD_RESET = 1"

lemmas ipc_flag_defs = RT_IPC_FLAG_FIFO_def RT_IPC_FLAG_PRIO_def

definition prio_of :: "kernel \<Rightarrow> tid \<Rightarrow> u8" where
  "prio_of k t = current_priority (threads k t)"

lemma prio_of_upd_thread [simp]:
  "thread_same (threads k t) (f (threads k t)) \<Longrightarrow> prio_of (upd_thread t f k) = prio_of k"
  by (auto simp: prio_of_def thread_same_def fun_eq_iff)

text \<open>The search loop for a waiting thread of lower priority to insert the new one before.\<close>

fun prio_insert :: "(tid \<Rightarrow> u8) \<Rightarrow> tid \<Rightarrow> tid list \<Rightarrow> tid list" where
  "prio_insert prio thread [] = [thread]"
| "prio_insert prio thread (sthread # rest) =
     (if prio thread < prio sthread then thread # sthread # rest
      else sthread # prio_insert prio thread rest)"

text \<open>A flag that is neither queues the thread nowhere (the \<^verbatim>\<open>switch\<close> has no default).\<close>

definition rt_ipc_list_suspend :: "nat \<Rightarrow> tid \<Rightarrow> u8 \<Rightarrow> kernel \<Rightarrow> (kernel \<times> rt_err) option" where
  "rt_ipc_list_suspend q thread flag k =
     do { (k1, e) \<leftarrow> rt_thread_suspend thread k;
          Some (if flag = RT_IPC_FLAG_FIFO then upd_tlists (ins_tail (Wait q) thread) k1
                else if flag = RT_IPC_FLAG_PRIO then
                  upd_tlists (\<lambda>T. T(Wait q :=
                    prio_insert (prio_of k1) thread (T (Wait q)))) k1
                else k1, RT_EOK) }"

definition rt_ipc_list_resume :: "nat \<Rightarrow> kernel \<Rightarrow> (kernel \<times> rt_err) option" where
  "rt_ipc_list_resume q k =
     do { rt_assert (tlists k (Wait q) \<noteq> []);
          (k1, e) \<leftarrow> rt_thread_resume (hd (tlists k (Wait q))) k;
          Some (k1, RT_EOK) }"

partial_function (option) rt_ipc_list_resume_all :: "nat \<Rightarrow> kernel \<Rightarrow> (kernel \<times> rt_err) option" where
  "rt_ipc_list_resume_all q k =
     (if tlists k (Wait q) = [] then Some (k, RT_EOK)
      else do {
        let thread = hd (tlists k (Wait q));
        let k1 = upd_thread thread (\<lambda>th. th\<lparr>error := - RT_ERROR\<rparr>) k;
        (k2, e) \<leftarrow> rt_thread_resume thread k1;
        rt_ipc_list_resume_all q k2 })"

definition rt_ipc_object_init :: "nat \<Rightarrow> kernel \<Rightarrow> kernel" where
  "rt_ipc_object_init q k = upd_tlists (\<lambda>T. T(Wait q := [])) k"

text \<open>
  \<^verbatim>\<open>struct rt_ipc_object\<close>: the object header (by its identity), the queueing flag kept in it, and
  the head of the waiting list. The control block of each kind of object extends it.
\<close>

record rt_ipc_object =
  ipc_obj :: kobj
  ipc_flag :: u8
  suspend_thread :: nat

text \<open>\<^verbatim>\<open>RT_DEBUG_NOT_IN_INTERRUPT\<close> and \<^verbatim>\<open>RT_DEBUG_IN_THREAD_CONTEXT\<close>, which gives the running thread.\<close>

definition not_in_interrupt :: "kernel \<Rightarrow> unit option" where
  "not_in_interrupt k = rt_assert (rt_interrupt_nest k = 0)"

definition in_thread_context :: "kernel \<Rightarrow> tid option" where
  "in_thread_context k =
     (case rt_thread_self k of None \<Rightarrow> None
      | Some t \<Rightarrow> do { not_in_interrupt k; Some t })"

text \<open>
  The sequence every blocking call runs before its scheduling point: queue the caller and, when a
  waiting time was given, start its timer with it. Times are signed.
\<close>

definition start_wait_timer :: "tid \<Rightarrow> u32 \<Rightarrow> kernel \<Rightarrow> kernel option" where
  "start_wait_timer thread time k =
     (if 0 < sint time then
        do { let k1 = fst (rt_timer_control (Thread_Timer thread) RT_TIMER_CTRL_SET_TIME time k);
             (k2, e) \<leftarrow> rt_timer_start (Thread_Timer thread) k1;
             Some k2 }
      else Some k)"

definition suspend_with_timeout :: "nat \<Rightarrow> tid \<Rightarrow> u8 \<Rightarrow> u32 \<Rightarrow> kernel \<Rightarrow> kernel option" where
  "suspend_with_timeout q thread flag time k =
     do { (k1, e) \<leftarrow> rt_ipc_list_suspend q thread flag k;
          start_wait_timer thread time k1 }"

section \<open>The order of the waiting threads\<close>

definition enqueue :: "u8 \<Rightarrow> (tid \<Rightarrow> u8) \<Rightarrow> tid \<Rightarrow> tid list \<Rightarrow> tid list" where
  "enqueue flag prio t ts = (if flag = RT_IPC_FLAG_FIFO then ts @ [t] else prio_insert prio t ts)"

lemma set_prio_insert [simp]: "set (prio_insert prio t ts) = insert t (set ts)"
  by (induction ts) auto

lemma distinct_prio_insert: "distinct ts \<Longrightarrow> t \<notin> set ts \<Longrightarrow> distinct (prio_insert prio t ts)"
  by (induction ts) auto

lemma prio_insert_not_Nil [simp]: "prio_insert prio t ts \<noteq> []"
  by (cases ts) auto

lemma sorted_prio_insert:
  "sorted (map prio ts) \<Longrightarrow> sorted (map prio (prio_insert prio t ts))"
  by (induction ts) (auto simp: not_less intro: less_imp_le order.trans)

text \<open>The new thread stands behind all that are at least as urgent, in front of the others.\<close>

lemma prio_insert_position:
  assumes "sorted (map prio ts)"
  shows "prio_insert prio t ts = filter (\<lambda>s. prio s \<le> prio t) ts @ t # filter (\<lambda>s. prio t < prio s) ts"
  using assms
proof (induction ts)
  case (Cons s ts)
  show ?case
  proof (cases "prio t < prio s")
    case True
    then have "\<forall>x \<in> set ts. prio t < prio x" using Cons.prems by (auto intro: less_le_trans)
    with True show ?thesis by (auto simp: not_le [symmetric] filter_empty_conv filter_id_conv)
  next
    case False
    with Cons show ?thesis by (simp add: not_less)
  qed
qed simp

lemma set_enqueue [simp]: "set (enqueue flag prio t ts) = insert t (set ts)"
  by (auto simp: enqueue_def)

lemma enqueue_not_Nil [simp]: "enqueue flag prio t ts \<noteq> []"
  by (simp add: enqueue_def)

lemma distinct_enqueue: "distinct ts \<Longrightarrow> t \<notin> set ts \<Longrightarrow> distinct (enqueue flag prio t ts)"
  by (simp add: enqueue_def distinct_prio_insert)

section \<open>Blocking\<close>

definition ipc_flag_ok :: "u8 \<Rightarrow> bool" where
  "ipc_flag_ok flag \<longleftrightarrow> flag = RT_IPC_FLAG_FIFO \<or> flag = RT_IPC_FLAG_PRIO"

text \<open>Waiting times \<^verbatim>\<open>rt_timer_start\<close> accepts: all signed numbers but the largest.\<close>

definition wait_time_ok :: "u32 \<Rightarrow> bool" where
  "wait_time_ok time \<longleftrightarrow> (0 < sint time \<longrightarrow> time < RT_TICK_MAX div 2)"

lemma unlink_waiting:
  assumes "kernel_wf Od k" and "stat (threads k t) = RT_THREAD_READY"
  shows "removeAll t (tlists k (Wait q)) = tlists k (Wait q)" and "t \<notin> set (tlists k (Wait q))"
proof -
  show "t \<notin> set (tlists k (Wait q))"
    using queues_wfD(1) [OF kernel_wfD(6) [OF assms(1)]] assms(2) by force
  then show "removeAll t (tlists k (Wait q)) = tlists k (Wait q)" by (simp add: removeAll_id)
qed

text \<open>The caller \<open>t\<close> suspended, the list \<open>q\<close> now \<open>ts\<close>, and the timer running if there is a waiting time.\<close>

definition blocked_on :: "nat \<Rightarrow> tid list \<Rightarrow> tid \<Rightarrow> u32 \<Rightarrow> kernel \<Rightarrow> kernel" where
  "blocked_on q ts t time k =
     (let k1 = upd_tlists (\<lambda>T. T(Wait q := ts)) (suspend_state t k)
      in if 0 < sint time then arm_timer t time k1 else k1)"

lemma blocked_on_simps [simp]:
  "tlists (blocked_on q ts t time k) (Wait q) = ts"
  "tlists (blocked_on q ts t time k) (Ready p) = removeAll t (tlists k (Ready p))"
  "threads (blocked_on q ts t time k) = (threads k)(t := (threads k t)\<lparr>stat := RT_THREAD_SUSPEND\<rparr>)"
  "rt_current_thread (blocked_on q ts t time k) = rt_current_thread k"
  "rt_scheduler_lock_nest (blocked_on q ts t time k) = rt_scheduler_lock_nest k"
  "rt_interrupt_nest (blocked_on q ts t time k) = rt_interrupt_nest k"
  "rt_tick (blocked_on q ts t time k) = rt_tick k"
  "0 < sint time \<Longrightarrow> timeout_tick (timers (blocked_on q ts t time k) (Thread_Timer t)) = rt_tick k + time"
  by (simp_all add: blocked_on_def Let_def)

lemma blocked_on_other:
  assumes "kernel_wf Od k" and "stat (threads k t) = RT_THREAD_READY" and "q' \<noteq> q"
  shows "tlists (blocked_on q ts t time k) (Wait q') = tlists k (Wait q')"
  using assms(3) by (simp add: blocked_on_def Let_def unlink_waiting [OF assms(1,2)])

lemma blocked_on_returns:
  assumes k: "kernel_inv Od k" and c: "may_block k c" and time: "wait_time_ok time"
    and ts: "distinct ts" "set ts = insert c (set (tlists k (Wait q)))"
  shows "start_wait_timer c time (upd_tlists (\<lambda>T. T(Wait q := ts)) (suspend_state c k)) =
      Some (blocked_on q ts c time k)"
    and "kernel_inv Od (blocked_on q ts c time k)"
    and "set (rt_timer_list (blocked_on q ts c time k)) =
      (if 0 < sint time then insert (Thread_Timer c) (set (rt_timer_list k)) else set (rt_timer_list k))"
proof -
  have st: "stat (threads k c) = RT_THREAD_READY" "c \<noteq> tidle" using c by (simp_all add: may_block_def)
  have wf: "kernel_wf Od k" using k by (simp add: kernel_inv_def)
  note s = kernel_inv_suspend [OF k st] and u = unlink_waiting [OF wf st(1)]
  let ?k1 = "upd_tlists (\<lambda>T. T(Wait q := ts)) (suspend_state c k)"
  have wf1: "kernel_wf Od ?k1"
    by (rule kernel_wf_enqueue) (use s ts u in \<open>auto simp: kernel_inv_def unlinked_def\<close>)
  have run: "running ?k1" using k st(2) by (simp add: kernel_inv_def running_def)
  have na: "\<not> timer_activated (timers ?k1 (Thread_Timer c))" using wf_timer(3) [OF wf st(1)] by simp
  have "start_wait_timer c time ?k1 = Some (blocked_on q ts c time k) \<and> kernel_inv Od (blocked_on q ts c time k) \<and>
    set (rt_timer_list (blocked_on q ts c time k)) =
      (if 0 < sint time then insert (Thread_Timer c) (set (rt_timer_list k)) else set (rt_timer_list k))"
  proof (cases "0 < sint time")
    case True
    then have t: "time < RT_TICK_MAX div 2" using time by (simp add: wait_time_ok_def)
    from arm_timer_returns [OF wf1 _ na t] True run show ?thesis
      by (simp add: start_wait_timer_def blocked_on_def Let_def kernel_inv_def running_def)
  qed (use wf1 run in \<open>simp add: start_wait_timer_def blocked_on_def Let_def kernel_inv_def\<close>)
  then show "start_wait_timer c time ?k1 = Some (blocked_on q ts c time k)"
    and "kernel_inv Od (blocked_on q ts c time k)"
    and "set (rt_timer_list (blocked_on q ts c time k)) =
      (if 0 < sint time then insert (Thread_Timer c) (set (rt_timer_list k)) else set (rt_timer_list k))"
    by blast+
qed

text \<open>The state a caller of an IPC object leaves behind, queued by the object's flag.\<close>

definition blocked_state :: "nat \<Rightarrow> tid \<Rightarrow> u8 \<Rightarrow> u32 \<Rightarrow> kernel \<Rightarrow> kernel" where
  "blocked_state q t flag time k =
     blocked_on q (enqueue flag (prio_of k) t (tlists k (Wait q))) t time k"

lemma blocked_state_simps:
  assumes "kernel_wf Od k" and "stat (threads k t) = RT_THREAD_READY"
  shows "tlists (blocked_state q t flag time k) (Wait q) =
      enqueue flag (prio_of k) t (tlists k (Wait q))"
    and "q' \<noteq> q \<Longrightarrow> tlists (blocked_state q t flag time k) (Wait q') = tlists k (Wait q')"
    and "tlists (blocked_state q t flag time k) (Ready p) = removeAll t (tlists k (Ready p))"
    and "threads (blocked_state q t flag time k) = (threads k)(t := (threads k t)\<lparr>stat := RT_THREAD_SUSPEND\<rparr>)"
    and "rt_current_thread (blocked_state q t flag time k) = rt_current_thread k"
    and "rt_scheduler_lock_nest (blocked_state q t flag time k) = rt_scheduler_lock_nest k"
    and "rt_interrupt_nest (blocked_state q t flag time k) = rt_interrupt_nest k"
    and "rt_tick (blocked_state q t flag time k) = rt_tick k"
  by (simp_all add: blocked_state_def blocked_on_other [OF assms])

lemma suspend_with_timeout_returns:
  assumes k: "kernel_inv Od k" and c: "may_block k c" and flag: "ipc_flag_ok flag" and time: "wait_time_ok time"
  shows "suspend_with_timeout q c flag time k = Some (blocked_state q c flag time k)"
    and "kernel_inv Od (blocked_state q c flag time k)"
    and "set (rt_timer_list (blocked_state q c flag time k)) =
      (if 0 < sint time then insert (Thread_Timer c) (set (rt_timer_list k)) else set (rt_timer_list k))"
    and "0 < sint time \<Longrightarrow> timeout_tick (timers (blocked_state q c flag time k) (Thread_Timer c)) = rt_tick k + time"
proof -
  have st: "stat (threads k c) = RT_THREAD_READY" "c \<noteq> tidle" using c by (simp_all add: may_block_def)
  have wf: "kernel_wf Od k" using k by (simp add: kernel_inv_def)
  note u = unlink_waiting [OF wf st(1)]
  let ?ts = "enqueue flag (prio_of k) c (tlists k (Wait q))"
  have d: "distinct ?ts" "set ?ts = insert c (set (tlists k (Wait q)))"
    using kernel_wfD(2) [OF wf] u(2) by (auto simp: wf_ltab_def intro: distinct_enqueue)
  note b = blocked_on_returns [OF k c time d]
  have pr: "prio_of (suspend_state c k) = prio_of k" by (auto simp: prio_of_def fun_eq_iff)
  have "rt_ipc_list_suspend q c flag k = Some (upd_tlists (\<lambda>T. T(Wait q := ?ts)) (suspend_state c k), RT_EOK)"
    using kernel_inv_suspend [OF k st] flag u(1)
    by (auto simp: rt_ipc_list_suspend_def ipc_flag_ok_def enqueue_def ipc_flag_defs upd_tlists_def ins_tail_def pr)
  then show "suspend_with_timeout q c flag time k = Some (blocked_state q c flag time k)"
    using b(1) by (simp add: suspend_with_timeout_def blocked_state_def)
  show "kernel_inv Od (blocked_state q c flag time k)"
    and "set (rt_timer_list (blocked_state q c flag time k)) =
      (if 0 < sint time then insert (Thread_Timer c) (set (rt_timer_list k)) else set (rt_timer_list k))"
    using b(2,3) by (simp_all add: blocked_state_def)
  show "0 < sint time \<Longrightarrow> timeout_tick (timers (blocked_state q c flag time k) (Thread_Timer c)) = rt_tick k + time"
    by (simp add: blocked_state_def)
qed


section \<open>Waking up\<close>

lemma waiting_suspended:
  "kernel_inv Od k \<Longrightarrow> t \<in> set (tlists k (Wait q)) \<Longrightarrow> stat (threads k t) = RT_THREAD_SUSPEND"
  by (auto simp: kernel_inv_def dest: kernel_wfD(6) queues_wfD(1))

lemma inv_distinct: "kernel_inv Od k \<Longrightarrow> distinct (tlists k h)"
  by (auto simp: kernel_inv_def wf_ltab_def dest: kernel_wfD(2))

lemma inv_disjoint:
  "kernel_inv Od k \<Longrightarrow> t \<in> set (tlists k h) \<Longrightarrow> t \<in> set (tlists k h') \<Longrightarrow> h = h'"
  unfolding kernel_inv_def wf_ltab_def using kernel_wfD(2) by (metis wf_ltab_def)

lemma resume_first:
  assumes k: "kernel_inv Od k" and l: "tlists k (Wait q) = t # ts"
  shows "rt_ipc_list_resume q k = Some (resume_state t k, RT_EOK)"
    and "kernel_inv Od (resume_state t k)"
    and "tlists (resume_state t k) (Wait q) = ts"
    and "q' \<noteq> q \<Longrightarrow> tlists (resume_state t k) (Wait q') = tlists k (Wait q')"
proof -
  have t: "t \<in> set (tlists k (Wait q))" by (simp add: l)
  note r = kernel_inv_resume [OF k waiting_suspended [OF k t]]
  show "rt_ipc_list_resume q k = Some (resume_state t k, RT_EOK)" and "kernel_inv Od (resume_state t k)"
    using r by (simp_all add: rt_ipc_list_resume_def l)
  show "tlists (resume_state t k) (Wait q) = ts"
    using inv_distinct [OF k, of "Wait q"] by (simp add: l removeAll_id)
  assume "q' \<noteq> q"
  then have "t \<notin> set (tlists k (Wait q'))" using inv_disjoint [OF k t] by blast
  then show "tlists (resume_state t k) (Wait q') = tlists k (Wait q')" by (simp add: removeAll_id)
qed

text \<open>The threads of a list, all made ready with error \<^verbatim>\<open>-RT_ERROR\<close>.\<close>

definition all_woken :: "tid set \<Rightarrow> kernel \<Rightarrow> kernel \<Rightarrow> bool" where
  "all_woken S k k' \<longleftrightarrow> (\<forall>t. threads k' t =
     (if t \<in> S then (threads k t)\<lparr>error := - RT_ERROR, stat := RT_THREAD_READY\<rparr> else threads k t)) \<and>
     rt_current_thread k' = rt_current_thread k \<and> rt_scheduler_lock_nest k' = rt_scheduler_lock_nest k \<and>
     rt_interrupt_nest k' = rt_interrupt_nest k \<and> rt_tick k' = rt_tick k \<and>
     object_lists k' = object_lists k \<and> objects k' = objects k"

lemma resume_all_returns:
  "kernel_inv Od k \<Longrightarrow> returns (rt_ipc_list_resume_all q k) (\<lambda>(k', e). e = RT_EOK \<and> kernel_inv Od k' \<and>
     tlists k' (Wait q) = [] \<and> (\<forall>q'. q' \<noteq> q \<longrightarrow> tlists k' (Wait q') = tlists k (Wait q')) \<and>
     all_woken (set (tlists k (Wait q))) k k')"
proof (induction "length (tlists k (Wait q))" arbitrary: k)
  case 0
  then show ?case by (subst rt_ipc_list_resume_all.simps) (simp add: all_woken_def)
next
  case (Suc n)
  then obtain t ts where l: "tlists k (Wait q) = t # ts" by (metis length_Suc_conv)
  let ?k1 = "upd_thread t (\<lambda>th. th\<lparr>error := - RT_ERROR\<rparr>) k"
  let ?k2 = "resume_state t ?k1"
  have k1: "kernel_inv Od ?k1" using Suc.prems by simp
  have l1: "tlists ?k1 (Wait q) = t # ts" by (simp add: l)
  note r = resume_first [OF k1 l1]
  have t: "t \<notin> set ts" using inv_distinct [OF Suc.prems, of "Wait q"] by (simp add: l)
  have "rt_thread_resume t ?k1 = Some (?k2, RT_EOK)"
    using r(1) by (simp add: rt_ipc_list_resume_def l Option.bind_eq_Some_conv split: prod.splits)
      (metis kernel_inv_resume [OF k1] waiting_suspended [OF k1] l1 list.set_intros(1))
  then have step: "rt_ipc_list_resume_all q k = rt_ipc_list_resume_all q ?k2"
    by (subst rt_ipc_list_resume_all.simps) (simp add: l)
  have "n = length (tlists ?k2 (Wait q))" using Suc.hyps(2) l r(3) by simp
  from Suc.hyps(1) [OF this r(2)] show ?case
    unfolding step
  proof (rule returns_mono, goal_cases)
    case (1 x)
    then show ?case
      using r(4) t l
      by (auto simp: r(3) all_woken_def resume_state_def Let_def rt_timer_stop_def rt_timer_remove_def)
  qed
qed


section \<open>The scheduling point of a blocking call\<close>

text \<open>The caller has been queued; it is not the running thread any more, unless the scheduler is locked.\<close>

lemma suspended_schedule:
  assumes k: "kernel_inv Od k" and c: "stat (threads k c) \<noteq> RT_THREAD_READY" "rt_current_thread k = Some c"
  obtains k' where "rt_schedule k = Some k'" and "kernel_inv Od k'" and "schedule_post k k'"
    and "rt_scheduler_lock_nest k = 0 \<Longrightarrow> rt_current_thread k' \<noteq> Some c"
    and "rt_scheduler_lock_nest k = 0 \<Longrightarrow> scheduled k'"
    and "rt_scheduler_lock_nest k \<noteq> 0 \<Longrightarrow> rt_current_thread k' = Some c"
proof -
  obtain k' where k': "rt_schedule k = Some k'" "kernel_inv Od k'" "schedule_post k k'"
    by (rule schedule_post_inv [OF k])
  have "\<not> is_highest k c" using c(1) by (simp add: is_highest_def)
  then have 1: "rt_current_thread k' \<noteq> Some c" if "rt_scheduler_lock_nest k = 0"
    using schedule_postD(2) [OF k'(3), of c] that by auto
  have 2: "rt_current_thread k' = Some c" if "rt_scheduler_lock_nest k \<noteq> 0"
    using schedule_postD(3) [OF k'(3)] that c(2) by simp
  show thesis by (rule that [OF k' 1 _ 2]) (use schedule_post_scheduled [OF k'(3)] in auto)
qed

lemma blocked_schedule:
  assumes k: "kernel_inv Od k" and c: "may_block k c" and flag: "ipc_flag_ok flag" and time: "wait_time_ok time"
  obtains k' where "rt_schedule (blocked_state q c flag time k) = Some k'" and "kernel_inv Od k'"
    and "schedule_post (blocked_state q c flag time k) k'"
    and "rt_scheduler_lock_nest k = 0 \<Longrightarrow> rt_current_thread k' \<noteq> Some c"
    and "rt_scheduler_lock_nest k = 0 \<Longrightarrow> scheduled k'"
    and "rt_scheduler_lock_nest k \<noteq> 0 \<Longrightarrow> rt_current_thread k' = Some c"
proof -
  note b = suspend_with_timeout_returns [OF k c flag time, of q]
  have st: "stat (threads k c) = RT_THREAD_READY" "rt_current_thread k = Some c"
    using c by (simp_all add: may_block_def)
  have wf: "kernel_wf Od k" using k by (simp add: kernel_inv_def)
  note bs = blocked_state_simps [OF wf st(1)]
  show thesis by (rule suspended_schedule [OF b(2)]) (use st that bs in auto)
qed

lemma in_thread_context_eq:
  "rt_current_thread k = Some c \<Longrightarrow> rt_interrupt_nest k = 0 \<Longrightarrow> in_thread_context k = Some c"
  by (simp add: in_thread_context_def rt_thread_self_def not_in_interrupt_def)

lemma may_block_upd_error [simp]: "may_block (upd_thread t (\<lambda>th. th\<lparr>error := e\<rparr>) k) c = may_block k c"
  by (auto simp: may_block_def)

lemma release_schedule:
  assumes k: "kernel_inv Od k"
  obtains k' where "rt_schedule k = Some k'" and "kernel_inv Od k'" and "schedule_post k k'"
    and "scheduled k'" and "tlists k' = tlists k" and "threads k' = threads k"
proof -
  obtain k' where k': "rt_schedule k = Some k'" "kernel_inv Od k'" "schedule_post k k'"
    by (rule schedule_post_inv [OF k])
  show thesis
    by (rule that [OF k' schedule_post_scheduled [OF k'(3)]]) (simp_all add: schedule_post_frame [OF k'(3)])
qed


text \<open>A blocked caller with a waiting time sleeps in the sense of theory RT_Clock.\<close>

lemma sint_pos: "0 < sint (w :: u32) \<Longrightarrow> 0 < w"
  by (metis not_less_iff_gr_or_eq sint_0 word_gt_0)

lemma blocked_on_sleeping:
  assumes k: "kernel_inv {} k" and c: "may_block k c" and time: "wait_time_ok time"
    and ts: "distinct ts" "set ts = insert c (set (tlists k (Wait q)))"
    and pos: "0 < sint time" and only: "only_thread_timers k"
    and post: "schedule_post (blocked_on q ts c time k) k'" "kernel_inv {} k'"
  shows "sleeping k' c (unat time)"
proof -
  note b = blocked_on_returns [OF k c time ts] and fr = schedule_post_frame [OF post(1)]
  have "only_thread_timers k'" using only b(3) pos by (simp add: only_thread_timers_def fr)
  moreover have "unat time < 0x7fffffff" using time pos by (simp add: wait_time_ok_def tick_half word_less_nat_alt)
  ultimately show ?thesis
    using post schedule_post_scheduled [OF post(1)] b(3) pos by (simp add: sleeping_def fr)
qed

lemma blocked_sleeping:
  assumes k: "kernel_inv {} k" and c: "may_block k c" and flag: "ipc_flag_ok flag" and time: "wait_time_ok time"
    and pos: "0 < sint time" and only: "only_thread_timers k"
    and post: "schedule_post (blocked_state q c flag time k) k'" "kernel_inv {} k'"
  shows "sleeping k' c (unat time)" and "c \<in> set (tlists k' (Wait q))"
proof -
  have st: "stat (threads k c) = RT_THREAD_READY" using c by (simp add: may_block_def)
  have wf: "kernel_wf {} k" using k by (simp add: kernel_inv_def)
  have d: "distinct (enqueue flag (prio_of k) c (tlists k (Wait q)))"
    using kernel_wfD(2) [OF wf] unlink_waiting(2) [OF wf st] by (auto simp: wf_ltab_def intro: distinct_enqueue)
  show "sleeping k' c (unat time)"
    by (rule blocked_on_sleeping [OF k c time d _ pos only]) (use post in \<open>simp_all add: blocked_state_def\<close>)
  show "c \<in> set (tlists k' (Wait q))"
    using schedule_post_frame [OF post(1)] blocked_state_simps(1) [OF wf st] by simp
qed

section \<open>Objects that are set up\<close>

lemma ipc_init_same:
  assumes "tlists k (Wait q) = []"
  shows "tlists (rt_ipc_object_init q (rt_object_init ob cls name k)) = tlists k"
    and "threads (rt_ipc_object_init q (rt_object_init ob cls name k)) = threads k"
    and "rt_current_thread (rt_ipc_object_init q (rt_object_init ob cls name k)) = rt_current_thread k"
    and "kernel_same k (rt_ipc_object_init q (rt_object_init ob cls name k))"
proof -
  have t: "(tlists k)(Wait q := []) = tlists k" using assms by (metis fun_upd_triv)
  then show "tlists (rt_ipc_object_init q (rt_object_init ob cls name k)) = tlists k"
    by (simp add: rt_ipc_object_init_def rt_object_init_def)
  then show "kernel_same k (rt_ipc_object_init q (rt_object_init ob cls name k))"
    by (simp add: kernel_same_def) (simp add: rt_ipc_object_init_def rt_object_init_def)
qed (simp_all add: rt_ipc_object_init_def rt_object_init_def)

lemma ipc_init_inv:
  assumes "kernel_inv Od k" and "tlists k (Wait q) = []"
  shows "kernel_inv Od (rt_ipc_object_init q (rt_object_init ob cls name k))"
    and "tlists (rt_ipc_object_init q (rt_object_init ob cls name k)) = tlists k"
  using assms kernel_same_wf [OF ipc_init_same(4) [OF assms(2)]]
  by (simp_all add: kernel_inv_def running_def ipc_init_same)

section \<open>Blocking loops\<close>

text \<open>What one round of a blocking loop ends with: a result, or a wait that started at a tick.\<close>

datatype 'r wait_outcome = Returns 'r | Waiting u32

text \<open>The waiting time that is left when a thread that began to wait at \<open>tick_delta\<close> runs again.\<close>

definition time_left :: "u32 \<Rightarrow> u32 \<Rightarrow> kernel \<Rightarrow> u32" where
  "time_left timeout tick_delta k =
     (if 0 < sint timeout then
        (let t = timeout - (rt_tick_get k - tick_delta) in if sint t < 0 then 0 else t)
      else timeout)"

text \<open>Blocking a caller whose error number has been reset, as every round does.\<close>

lemma round_blocks:
  assumes k: "kernel_inv Od k" and c: "may_block k c" and flag: "ipc_flag_ok flag" and time: "wait_time_ok time"
    and open_: "rt_scheduler_lock_nest k = 0"
  obtains k2 k' where "suspend_with_timeout q c flag time (upd_thread c (\<lambda>th. th\<lparr>error := RT_EOK\<rparr>) k) = Some k2"
    and "rt_schedule k2 = Some k'" and "kernel_inv Od k'" and "scheduled k'" and "rt_current_thread k' \<noteq> Some c"
    and "stat (threads k' c) = RT_THREAD_SUSPEND" and "error (threads k' c) = RT_EOK"
    and "tlists k' (Wait q) = enqueue flag (prio_of k) c (tlists k (Wait q))"
    and "\<And>q'. q' \<noteq> q \<Longrightarrow> tlists k' (Wait q') = tlists k (Wait q')"
    and "0 < sint time \<Longrightarrow> timeout_tick (timers k' (Thread_Timer c)) = rt_tick k + time"
    and "\<And>t. t \<noteq> c \<Longrightarrow> threads k' t = threads k t"
proof -
  let ?k1 = "upd_thread c (\<lambda>th. th\<lparr>error := RT_EOK\<rparr>) k"
  have k1: "kernel_inv Od ?k1" and c1: "may_block ?k1 c" using k c by simp_all
  have st: "stat (threads ?k1 c) = RT_THREAD_READY" using c by (simp add: may_block_def)
  have wf: "kernel_wf Od ?k1" using k1 by (simp only: kernel_inv_def)
  note b = suspend_with_timeout_returns [OF k1 c1 flag time, of q]
  note bs = blocked_state_simps [OF wf st]
  obtain k' where k': "rt_schedule (blocked_state q c flag time ?k1) = Some k'"
    "kernel_inv Od k'" "schedule_post (blocked_state q c flag time ?k1) k'"
    "rt_current_thread k' \<noteq> Some c" "scheduled k'"
    using blocked_schedule [OF k1 c1 flag time, of q] open_ by auto
  note fr = schedule_post_frame [OF k'(3)]
  show thesis
  proof (rule that [OF b(1) k'(1,2,5,4)])
    show "tlists k' (Wait q) = enqueue flag (prio_of k) c (tlists k (Wait q))" by (simp add: fr bs)
    show "0 < sint time \<Longrightarrow> timeout_tick (timers k' (Thread_Timer c)) = rt_tick k + time"
      using b(4) by (simp add: fr)
  qed (simp_all add: fr bs)
qed

text \<open>What a call that completes does with the first thread waiting for it.\<close>

definition wakes_first :: "nat \<Rightarrow> kernel \<Rightarrow> kernel \<Rightarrow> bool" where
  "wakes_first q k k' \<longleftrightarrow>
     (case tlists k (Wait q) of
        [] \<Rightarrow> k' = k
      | t # ts \<Rightarrow> tlists k' (Wait q) = ts \<and> stat (threads k' t) = RT_THREAD_READY \<and>
          error (threads k' t) = error (threads k t) \<and> scheduled k')"

lemma wake_one:
  assumes k: "kernel_inv Od k" and ne: "tlists k (Wait q) \<noteq> []"
  obtains k1 k' where "rt_ipc_list_resume q k = Some (k1, RT_EOK)" and "rt_schedule k1 = Some k'"
    and "kernel_inv Od k'" and "wakes_first q k k'"
proof -
  obtain t ts where l: "tlists k (Wait q) = t # ts" using ne by (cases "tlists k (Wait q)") auto
  note r = resume_first [OF k l]
  obtain k' where k': "rt_schedule (resume_state t k) = Some k'" "kernel_inv Od k'"
    "scheduled k'" "tlists k' = tlists (resume_state t k)" "threads k' = threads (resume_state t k)"
    by (rule release_schedule [OF r(2)])
  have "wakes_first q k k'" using k'(3) r(3) by (simp add: wakes_first_def l k'(4,5) del: resume_state_simps(1))
  with r(1) k'(1,2) show thesis by (rule that)
qed

end
