(* ===== verification/RT_Frame.thy ===== *)
theory RT_Frame
  imports RT_IPC
begin

text \<open>
  What an operation leaves alone outside its own waiting list. \<open>framed Q k k'\<close>: on every waiting list
  but those of \<open>Q\<close> threads may only disappear; the event conditions of the threads that stay are
  unchanged; no timer of an application is started. Every operation of the kernel has such a frame, which is what the invariants of the objects it does not
  touch rest on. The lemmas are about the operations whenever they return; that they do return is in
  the theories of the components.
\<close>

named_theorems framed_intros

definition framed :: "nat set \<Rightarrow> kernel \<Rightarrow> kernel \<Rightarrow> bool" where
  "framed Q k k' \<longleftrightarrow>
     (\<forall>q t. q \<notin> Q \<longrightarrow> t \<in> set (tlists k' (Wait q)) \<longrightarrow> t \<in> set (tlists k (Wait q)) \<and>
        event_set (threads k' t) = event_set (threads k t) \<and> event_info (threads k' t) = event_info (threads k t)) \<and>
     (\<forall>i. App_Timer i \<in> set (rt_timer_list k') \<longrightarrow> App_Timer i \<in> set (rt_timer_list k))"

lemma framed_refl [simp]: "framed Q k k"
  by (simp add: framed_def)

lemma framed_trans: "framed Q k k1 \<Longrightarrow> framed Q k1 k2 \<Longrightarrow> framed Q k k2"
  unfolding framed_def by (metis (no_types, lifting))

lemma framed_mono: "framed {} k k' \<Longrightarrow> framed Q k k'"
  by (simp add: framed_def)

lemma framed_only_thread_timers: "framed Q k k' \<Longrightarrow> only_thread_timers k \<Longrightarrow> only_thread_timers k'"
  unfolding framed_def only_thread_timers_def by (metis tmr.exhaust)

section \<open>Updates\<close>

lemma framed_upd_thread [framed_intros]:
  "(\<And>th. event_set (f th) = event_set th) \<Longrightarrow> (\<And>th. event_info (f th) = event_info th) \<Longrightarrow>
     framed Q k (upd_thread t f k)"
  by (simp add: framed_def)

lemma framed_upd_iff [simp]:
  assumes "\<And>th. event_set (f th) = event_set th" and "\<And>th. event_info (f th) = event_info th"
  shows "framed Q k (upd_thread t f k') = framed Q k k'" and "framed Q (upd_thread t f k) k' = framed Q k k'"
proof -
  have e: "event_set (threads (upd_thread t f x) y) = event_set (threads x y)"
    "event_info (threads (upd_thread t f x) y) = event_info (threads x y)" for x y
    using assms by simp_all
  show "framed Q k (upd_thread t f k') = framed Q k k'" and "framed Q (upd_thread t f k) k' = framed Q k k'"
    unfolding framed_def e by simp_all
qed

lemma framed_unlink [framed_intros]: "framed Q k (upd_tlists (unlink t) k)"
  by (simp add: framed_def)

lemma framed_schedule [framed_intros]: "rt_schedule k = Some k' \<Longrightarrow> framed Q k k'"
  by (drule rt_schedule_same) (simp add: framed_def same_but_currentD)

lemma framed_insert [framed_intros]: "rt_schedule_insert_thread t k = Some k' \<Longrightarrow> framed Q k k'"
  by (auto simp: framed_def rt_schedule_insert_thread_def rt_assert_def Let_def split: if_splits)

lemma framed_remove [framed_intros]: "rt_schedule_remove_thread t k = Some k' \<Longrightarrow> framed Q k k'"
  by (auto simp: framed_def rt_schedule_remove_thread_def rt_assert_def Let_def split: if_splits)

lemma framed_timer_stop [framed_intros]: "framed Q k (fst (rt_timer_stop m k))"
  by (simp add: framed_def rt_timer_stop_def rt_timer_remove_def)

lemma framed_timer_detach [framed_intros]: "framed Q k (fst (rt_timer_detach m k))"
  by (simp add: framed_def rt_timer_detach_def rt_timer_remove_def rt_object_detach_def upd_object_lists_def)

lemma framed_timer_set [framed_intros]: "framed Q k (fst (rt_timer_control m RT_TIMER_CTRL_SET_TIME time k))"
  by (simp add: framed_def rt_timer_control_def timer_ctrl_defs)

lemma timer_list_insert_subset: "set (timer_list_insert tms m ms) \<subseteq> insert m (set ms)"
  by (auto simp: timer_list_insert_def split: option.splits if_splits)

lemma framed_timer_start [framed_intros]:
  "rt_timer_start (Thread_Timer t) k = Some (k', e) \<Longrightarrow> framed Q k k'"
  using timer_list_insert_subset
  by (fastforce simp: framed_def rt_timer_start_def Let_def rt_assert_def split: if_splits)

lemma framed_detach [framed_intros]: "framed Q k (rt_object_detach ob k)"
  by (simp add: framed_def rt_object_detach_def)

lemma framed_defunct [framed_intros]: "framed Q k (upd_tlists (ins_head Defunct t) k)"
  by (simp add: framed_def)

section \<open>Threads\<close>

lemma framed_suspend [framed_intros]: "rt_thread_suspend t k = Some (k', e) \<Longrightarrow> framed Q k k'"
  by (auto simp: rt_thread_suspend_def split: if_splits Option.bind_splits dest: framed_remove [of _ _ _ Q])

lemma framed_resume [framed_intros]: "rt_thread_resume t k = Some (k', e) \<Longrightarrow> framed Q k k'"
  by (auto simp: rt_thread_resume_def Let_def split: if_splits Option.bind_splits
      intro: framed_trans [OF framed_unlink framed_trans [OF framed_timer_stop framed_insert]])

lemma framed_yield [framed_intros]: "rt_thread_yield k = Some (k', e) \<Longrightarrow> framed Q k k'"
proof -
  have t: "framed Q k (upd_tlists (ins_tail (Ready p) t) k)" for p t k by (simp add: framed_def)
  show "rt_thread_yield k = Some (k', e) \<Longrightarrow> framed Q k k'"
    by (auto simp: rt_thread_yield_def Let_def split: if_splits Option.bind_splits option.splits
        intro: framed_trans [OF framed_unlink framed_trans [OF t framed_schedule]])
qed

lemma framed_sleep [framed_intros]: "rt_thread_sleep tick k = Some k' \<Longrightarrow> framed Q k k'"
  by (auto simp: rt_thread_sleep_def split: option.splits Option.bind_splits
      intro: framed_trans [OF framed_suspend framed_trans [OF framed_timer_set
          framed_trans [OF framed_timer_start framed_schedule]]])

lemma framed_startup [framed_intros]: "rt_thread_startup t k = Some (k', e) \<Longrightarrow> framed Q k k'"
proof -
  assume "rt_thread_startup t k = Some (k', e)"
  then obtain k3 e3 where r: "rt_thread_resume t (upd_thread t (\<lambda>th. th\<lparr>number_mask := push_bit (unat (current_priority th)) 1,
        stat := RT_THREAD_SUSPEND\<rparr>) (upd_thread t (\<lambda>th. th\<lparr>current_priority := init_priority th\<rparr>) k)) = Some (k3, e3)"
    and s: "(if rt_thread_self k3 \<noteq> None then rt_schedule k3 else Some k3) = Some k'"
    by (auto simp: rt_thread_startup_def rt_assert_def Let_def split: if_splits Option.bind_splits)
  have "framed Q k3 k'" using s by (auto split: if_splits intro: framed_schedule)
  moreover have "framed Q k k3"
    by (rule framed_trans [OF framed_upd_thread framed_trans [OF framed_upd_thread framed_resume [OF r]]]) simp_all
  ultimately show ?thesis by (metis framed_trans)
qed

text \<open>The end of a thread: off its list, its timer detached.\<close>

lemma framed_ended:
  "rt_schedule_remove_thread t k = Some k1 \<Longrightarrow>
     framed Q k (fst (rt_timer_detach m (upd_thread t (\<lambda>th. th\<lparr>stat := st\<rparr>) k1)))"
  "rt_schedule_remove_thread t k = Some k1 \<Longrightarrow> framed Q k (fst (rt_timer_detach m k1))"
  by (rule framed_trans [OF _ framed_timer_detach], simp add: framed_remove)+

lemma framed_exit [framed_intros]: "rt_thread_exit k = Some k' \<Longrightarrow> framed Q k k'"
  by (auto simp: rt_thread_exit_def Let_def split: option.splits Option.bind_splits if_splits
      intro: framed_trans [OF framed_ended(1) framed_trans [OF framed_detach framed_schedule]]
        framed_trans [OF framed_ended(1) framed_trans [OF framed_defunct framed_schedule]])

lemma framed_delete [framed_intros]: "rt_thread_delete t k = Some (k', e) \<Longrightarrow> framed Q k k'"
  by (auto simp: rt_thread_delete_def Let_def split: Option.bind_splits
      intro!: framed_trans [OF _ framed_defunct] framed_ended)

lemma framed_change_priority [framed_intros]:
  "rt_thread_control t RT_THREAD_CTRL_CHANGE_PRIORITY p k = Some (k', e) \<Longrightarrow> framed Q k k'"
  by (auto simp: rt_thread_control_def Let_def rt_assert_def split: if_splits Option.bind_splits
      dest!: framed_remove [of _ _ _ Q] framed_insert [of _ _ _ Q] intro: framed_trans)

section \<open>Waiting lists\<close>

lemma framed_own_iff [simp]:
  "framed {q} k (upd_tlists (\<lambda>T. T(Wait q := f T)) k') = framed {q} k k'"
  "framed {q} k (upd_tlists (ins_tail (Wait q) t) k') = framed {q} k k'"
  by (auto simp: framed_def)

lemma framed_ipc_suspend [framed_intros]:
  "rt_ipc_list_suspend q t flag k = Some (k', e) \<Longrightarrow> framed {q} k k'"
  by (auto simp: rt_ipc_list_suspend_def split: if_splits Option.bind_splits intro: framed_suspend)

lemma framed_wait_timer [framed_intros]: "start_wait_timer t time k = Some k' \<Longrightarrow> framed Q k k'"
  by (auto simp: start_wait_timer_def split: if_splits Option.bind_splits
      intro: framed_trans [OF framed_timer_set framed_timer_start])

lemma framed_suspend_with_timeout [framed_intros]:
  "suspend_with_timeout q t flag time k = Some k' \<Longrightarrow> framed {q} k k'"
  by (auto simp: suspend_with_timeout_def split: Option.bind_splits
      intro: framed_trans [OF framed_ipc_suspend framed_wait_timer])

lemma framed_ipc_resume [framed_intros]: "rt_ipc_list_resume q k = Some (k', e) \<Longrightarrow> framed Q k k'"
  by (auto simp: rt_ipc_list_resume_def rt_assert_def split: if_splits Option.bind_splits intro: framed_resume)

lemma framed_resume_all [framed_intros]: "rt_ipc_list_resume_all q k = Some (k', e) \<Longrightarrow> framed Q k k'"
proof -
  have "\<forall>k' e. r = (k', e) \<longrightarrow> framed Q k k'" if "rt_ipc_list_resume_all q k = Some r" for r
  proof (rule rt_ipc_list_resume_all.raw_induct [OF _ that])
    fix loop :: "nat \<Rightarrow> kernel \<Rightarrow> (kernel \<times> rt_err) option" and q k r
    assume IH: "\<And>q k r. loop q k = Some r \<Longrightarrow> \<forall>k' e. r = (k', e) \<longrightarrow> framed Q k k'"
      and body: "(if tlists k (Wait q) = [] then Some (k, RT_EOK)
        else let thread = hd (tlists k (Wait q)); k1 = upd_thread thread (\<lambda>th. th\<lparr>error := - RT_ERROR\<rparr>) k
             in rt_thread_resume thread k1 \<bind> (\<lambda>(k2, e). loop q k2)) = Some r"
    show "\<forall>k' e. r = (k', e) \<longrightarrow> framed Q k k'"
    proof (cases "tlists k (Wait q) = []")
      case False
      let ?t = "hd (tlists k (Wait q))"
      obtain k2 e2 where r: "rt_thread_resume ?t (upd_thread ?t (\<lambda>th. th\<lparr>error := - RT_ERROR\<rparr>) k) = Some (k2, e2)"
        and l: "loop q k2 = Some r"
        using body False by (auto simp: Let_def split: Option.bind_splits)
      have "framed Q k k2" by (rule framed_trans [OF framed_upd_thread framed_resume [OF r]]) simp_all
      with IH [OF l] show ?thesis by (metis framed_trans)
    qed (use body in auto)
  qed
  then show "rt_ipc_list_resume_all q k = Some (k', e) \<Longrightarrow> framed Q k k'" by blast
qed

end
