(* ===== verification/RT_Sem.thy ===== *)
theory RT_Sem
  imports RT_Frame
begin

text \<open>
  The counting semaphores of src/ipc.c. An operation takes the control block of the semaphore and the
  kernel and returns both; a take that has to wait is cut at its scheduling point.
\<close>

section \<open>The code\<close>

record rt_semaphore = rt_ipc_object +
  sem_value :: u16

text \<open>\<open>value\<close> is 32 bits wide and is stored in 16.\<close>

definition rt_sem_init :: "kobj \<Rightarrow> nat \<Rightarrow> string \<Rightarrow> u32 \<Rightarrow> u8 \<Rightarrow> kernel \<Rightarrow> rt_semaphore \<times> kernel \<times> rt_err" where
  "rt_sem_init ob q name val flag k =
     (\<lparr>ipc_obj = ob, ipc_flag = flag, suspend_thread = q, sem_value = ucast val\<rparr>,
      rt_ipc_object_init q (rt_object_init ob RT_Object_Class_Semaphore name k), RT_EOK)"

definition rt_sem_detach :: "rt_semaphore \<Rightarrow> kernel \<Rightarrow> (rt_semaphore \<times> kernel \<times> rt_err) option" where
  "rt_sem_detach sem k =
     do { (k1, e) \<leftarrow> rt_ipc_list_resume_all (suspend_thread sem) k;
          Some (sem, rt_object_detach (ipc_obj sem) k1, RT_EOK) }"

definition rt_sem_create ::
  "kobj option \<Rightarrow> nat \<Rightarrow> string \<Rightarrow> u32 \<Rightarrow> u8 \<Rightarrow> kernel \<Rightarrow> (rt_semaphore option \<times> kernel) option" where
  "rt_sem_create alloc q name val flag k =
     do { not_in_interrupt k;
          (ob, k1) \<leftarrow> rt_object_allocate alloc RT_Object_Class_Semaphore name k;
          (case ob of
             None \<Rightarrow> Some (None, k1)
           | Some obj \<Rightarrow>
               Some (Some \<lparr>ipc_obj = obj, ipc_flag = flag, suspend_thread = q, sem_value = ucast val\<rparr>,
                 rt_ipc_object_init q k1)) }"

definition rt_sem_delete :: "rt_semaphore \<Rightarrow> kernel \<Rightarrow> (kernel \<times> rt_err) option" where
  "rt_sem_delete sem k =
     do { not_in_interrupt k;
          (k1, e) \<leftarrow> rt_ipc_list_resume_all (suspend_thread sem) k;
          k2 \<leftarrow> rt_object_delete (ipc_obj sem) k1;
          Some (k2, RT_EOK) }"

text \<open>What \<^verbatim>\<open>rt_sem_take\<close> does once the thread that waited runs again.\<close>

definition rt_sem_take_resume :: "tid \<Rightarrow> kernel \<Rightarrow> rt_err" where
  "rt_sem_take_resume thread k =
     (if error (threads k thread) \<noteq> RT_EOK then error (threads k thread) else RT_EOK)"

definition rt_sem_take ::
  "rt_semaphore \<Rightarrow> u32 \<Rightarrow> kernel \<Rightarrow> (rt_semaphore \<times> kernel \<times> rt_err outcome) option" where
  "rt_sem_take sem time k =
     (if 0 < sem_value sem then Some (sem\<lparr>sem_value := sem_value sem - 1\<rparr>, k, Done RT_EOK)
      else if time = 0 then Some (sem, k, Done (- RT_ETIMEOUT))
      else do {
        thread \<leftarrow> in_thread_context k;
        let k1 = upd_thread thread (\<lambda>th. th\<lparr>error := RT_EOK\<rparr>) k;
        k2 \<leftarrow> suspend_with_timeout (suspend_thread sem) thread (ipc_flag sem) time k1;
        k3 \<leftarrow> rt_schedule k2;
        Some (sem, k3, if rt_current_thread k3 = Some thread then Done (rt_sem_take_resume thread k3)
                       else Blocked) })"

definition rt_sem_trytake :: "rt_semaphore \<Rightarrow> kernel \<Rightarrow> (rt_semaphore \<times> kernel \<times> rt_err outcome) option" where
  "rt_sem_trytake sem k = rt_sem_take sem 0 k"

definition rt_sem_release :: "rt_semaphore \<Rightarrow> kernel \<Rightarrow> (rt_semaphore \<times> kernel \<times> rt_err) option" where
  "rt_sem_release sem k =
     do { (sem', k1, need_schedule) \<leftarrow>
            (if tlists k (Wait (suspend_thread sem)) \<noteq> [] then
               do { (k1, e) \<leftarrow> rt_ipc_list_resume (suspend_thread sem) k; Some (sem, k1, True) }
             else Some (sem\<lparr>sem_value := sem_value sem + 1\<rparr>, k, False));
          k2 \<leftarrow> (if need_schedule then rt_schedule k1 else Some k1);
          Some (sem', k2, RT_EOK) }"

definition rt_sem_control ::
  "rt_semaphore \<Rightarrow> u8 \<Rightarrow> u32 \<Rightarrow> kernel \<Rightarrow> (rt_semaphore \<times> kernel \<times> rt_err) option" where
  "rt_sem_control sem cmd arg k =
     (if cmd = RT_IPC_CMD_RESET then
        do { (k1, e) \<leftarrow> rt_ipc_list_resume_all (suspend_thread sem) k;
             let sem' = sem\<lparr>sem_value := ucast arg\<rparr>;
             k2 \<leftarrow> rt_schedule k1;
             Some (sem', k2, RT_EOK) }
      else Some (sem, k, - RT_ERROR))"

section \<open>No thread waits while the semaphore has a token\<close>

definition sem_inv :: "rt_semaphore \<Rightarrow> kernel \<Rightarrow> bool" where
  "sem_inv sem k \<longleftrightarrow> ipc_flag_ok (ipc_flag sem) \<and>
     (0 < sem_value sem \<longrightarrow> tlists k (Wait (suspend_thread sem)) = [])"

lemma sem_inv_waiters:
  "sem_inv sem k \<Longrightarrow> tlists k (Wait (suspend_thread sem)) = t # ts \<Longrightarrow> sem_value sem = 0"
  by (auto simp: sem_inv_def word_gt_0)

lemma sem_inv_cong:
  "tlists k' (Wait (suspend_thread sem)) = tlists k (Wait (suspend_thread sem)) \<Longrightarrow> sem_inv sem k' = sem_inv sem k"
  by (simp add: sem_inv_def)

lemma sem_take_returns:
  assumes k: "kernel_inv Od k" and c: "may_block k c" and nest: "rt_interrupt_nest k = 0"
    and open_: "rt_scheduler_lock_nest k = 0" and inv: "sem_inv sem k" and time: "wait_time_ok time"
  shows "returns (rt_sem_take sem time k) (\<lambda>(sem', k', r). kernel_inv Od k' \<and> sem_inv sem' k' \<and>
    (if 0 < sem_value sem then sem' = sem\<lparr>sem_value := sem_value sem - 1\<rparr> \<and> k' = k \<and> r = Done RT_EOK
     else if time = 0 then sem' = sem \<and> k' = k \<and> r = Done (- RT_ETIMEOUT)
     else sem' = sem \<and> r = Blocked \<and> scheduled k' \<and> rt_current_thread k' \<noteq> Some c \<and>
       stat (threads k' c) = RT_THREAD_SUSPEND \<and> error (threads k' c) = RT_EOK \<and>
       tlists k' (Wait (suspend_thread sem)) = enqueue (ipc_flag sem) (prio_of k) c
         (tlists k (Wait (suspend_thread sem))) \<and>
       (0 < sint time \<longrightarrow> timeout_tick (timers k' (Thread_Timer c)) = rt_tick k + time) \<and>
       set (rt_timer_list k') = (if 0 < sint time then insert (Thread_Timer c) (set (rt_timer_list k))
                                 else set (rt_timer_list k))))"
proof (cases "0 < sem_value sem \<or> time = 0")
  case True
  then show ?thesis
    using k inv by (auto simp: rt_sem_take_def sem_inv_def)
next
  case False
  let ?k1 = "upd_thread c (\<lambda>th. th\<lparr>error := RT_EOK\<rparr>) k"
  have k1: "kernel_inv Od ?k1" and c1: "may_block ?k1 c" using k c by simp_all
  have flag: "ipc_flag_ok (ipc_flag sem)" using inv by (simp add: sem_inv_def)
  have st: "stat (threads ?k1 c) = RT_THREAD_READY" and cur: "rt_current_thread k = Some c"
    using c by (simp_all add: may_block_def)
  have wf: "kernel_wf Od ?k1" using k1 by (simp only: kernel_inv_def)
  note b = suspend_with_timeout_returns [OF k1 c1 flag time, of "suspend_thread sem"]
  note bs = blocked_state_simps [OF wf st]
  obtain k' where k': "rt_schedule (blocked_state (suspend_thread sem) c (ipc_flag sem) time ?k1) = Some k'"
    "kernel_inv Od k'" "schedule_post (blocked_state (suspend_thread sem) c (ipc_flag sem) time ?k1) k'"
    "rt_current_thread k' \<noteq> Some c" "scheduled k'"
    using blocked_schedule [OF k1 c1 flag time, of "suspend_thread sem"] open_ by auto
  note fr = schedule_post_frame [OF k'(3)]
  have "rt_sem_take sem time k = Some (sem, k', Blocked)"
    using False b(1) k'(1,4) in_thread_context_eq [OF cur nest] by (simp add: rt_sem_take_def)
  then show ?thesis
    using False k' flag b(3,4)
    by (simp add: fr bs(1,4) sem_inv_def)
qed

text \<open>
  C7. \<^verbatim>\<open>rt_sem_take\<close> by a thread that may block, with the scheduler unlocked: with a
  token it takes exactly one and changes nothing else; without one and without waiting time it
  returns \<^verbatim>\<open>-RT_ETIMEOUT\<close> at once and changes nothing; otherwise the caller is suspended, queued by
  the semaphore's discipline, its timer is on the list exactly when a positive time was given and
  is set to that many ticks from now, and the most urgent other thread runs. The invariants hold
  afterwards.
\<close>

theorem sem_take_correct:
  assumes k: "kernel_inv Od k" and c: "may_block k c" and nest: "rt_interrupt_nest k = 0"
    and open_: "rt_scheduler_lock_nest k = 0" and inv: "sem_inv sem k" and time: "wait_time_ok time"
  shows "returns (rt_sem_take sem time k) (\<lambda>(sem', k', r). kernel_inv Od k' \<and> sem_inv sem' k' \<and>
    (if 0 < sem_value sem then sem' = sem\<lparr>sem_value := sem_value sem - 1\<rparr> \<and> k' = k \<and> r = Done RT_EOK
     else if time = 0 then sem' = sem \<and> k' = k \<and> r = Done (- RT_ETIMEOUT)
     else sem' = sem \<and> r = Blocked \<and> scheduled k' \<and> rt_current_thread k' \<noteq> Some c \<and>
       stat (threads k' c) = RT_THREAD_SUSPEND \<and> error (threads k' c) = RT_EOK \<and>
       tlists k' (Wait (suspend_thread sem)) = enqueue (ipc_flag sem) (prio_of k) c
         (tlists k (Wait (suspend_thread sem))) \<and>
       (0 < sint time \<longrightarrow> timeout_tick (timers k' (Thread_Timer c)) = rt_tick k + time) \<and>
       set (rt_timer_list k') = (if 0 < sint time then insert (Thread_Timer c) (set (rt_timer_list k))
                                 else set (rt_timer_list k))))"
  using assms by (rule sem_take_returns)

lemma sem_release_returns:
  assumes k: "kernel_inv Od k" and inv: "sem_inv sem k"
  shows "returns (rt_sem_release sem k) (\<lambda>(sem', k', e). e = RT_EOK \<and> kernel_inv Od k' \<and>
    (case tlists k (Wait (suspend_thread sem)) of
       [] \<Rightarrow> sem' = sem\<lparr>sem_value := sem_value sem + 1\<rparr> \<and> k' = k
     | t # ts \<Rightarrow> sem' = sem \<and> sem_inv sem' k' \<and> scheduled k' \<and>
         tlists k' (Wait (suspend_thread sem)) = ts \<and> stat (threads k' t) = RT_THREAD_READY \<and>
         Thread_Timer t \<notin> set (rt_timer_list k') \<and>
         (error (threads k t) = RT_EOK \<longrightarrow> rt_sem_take_resume t k' = RT_EOK)))"
proof (cases "tlists k (Wait (suspend_thread sem))")
  case Nil
  then show ?thesis using k by (simp add: rt_sem_release_def)
next
  case (Cons t ts)
  note r = resume_first [OF k Cons]
  have wf: "kernel_wf Od k" using k by (simp add: kernel_inv_def)
  obtain k' where k': "rt_schedule (resume_state t k) = Some k'" "kernel_inv Od k'"
    "schedule_post (resume_state t k) k'" "scheduled k'" "tlists k' = tlists (resume_state t k)"
    "threads k' = threads (resume_state t k)"
    by (rule release_schedule [OF r(2)])
  have "rt_sem_release sem k = Some (sem, k', RT_EOK)"
    by (simp add: rt_sem_release_def Cons r(1) k'(1))
  then show ?thesis
    using k'(2,4) r(3) inv sem_inv_waiters [OF inv Cons] resume_state_timer(2) [OF wf, of t]
    by (simp add: Cons k'(5,6) schedule_post_frame(4) [OF k'(3)] sem_inv_def rt_sem_take_resume_def
        del: resume_state_simps(1))
qed

text \<open>
  C6. \<^verbatim>\<open>rt_sem_release\<close> hands the token to the first waiting thread: that thread is
  ready, off the waiting list and off the timer list, its pending take will return \<^verbatim>\<open>RT_EOK\<close>, the
  value does not change and the most urgent thread runs. Without a waiting thread the value grows
  by one (modulo \<open>2\<^sup>1\<^sup>6\<close>) and no other state changes.
\<close>

theorem sem_release_correct:
  assumes k: "kernel_inv Od k" and inv: "sem_inv sem k"
  shows "returns (rt_sem_release sem k) (\<lambda>(sem', k', e). e = RT_EOK \<and> kernel_inv Od k' \<and>
    (case tlists k (Wait (suspend_thread sem)) of
       [] \<Rightarrow> sem' = sem\<lparr>sem_value := sem_value sem + 1\<rparr> \<and> k' = k
     | t # ts \<Rightarrow> sem' = sem \<and> sem_inv sem' k' \<and> scheduled k' \<and>
         tlists k' (Wait (suspend_thread sem)) = ts \<and> stat (threads k' t) = RT_THREAD_READY \<and>
         Thread_Timer t \<notin> set (rt_timer_list k') \<and>
         (error (threads k t) = RT_EOK \<longrightarrow> rt_sem_take_resume t k' = RT_EOK)))"
  using assms by (rule sem_release_returns)


section \<open>Timeout, reset, wrap-around\<close>

lemma sem_take_blocks:
  assumes k: "kernel_inv {} k" and c: "may_block k c" and nest: "rt_interrupt_nest k = 0"
    and open_: "rt_scheduler_lock_nest k = 0" and inv: "sem_inv sem k" and time: "wait_time_ok time"
    and zero: "sem_value sem = 0" "0 < sint time" and only: "only_thread_timers k"
  shows "returns (rt_sem_take sem time k) (\<lambda>(sem', k', r). sem' = sem \<and> r = Blocked \<and>
    sleeping k' c (unat time) \<and> c \<in> set (tlists k' (Wait (suspend_thread sem))))"
proof -
  let ?k1 = "upd_thread c (\<lambda>th. th\<lparr>error := RT_EOK\<rparr>) k"
  have k1: "kernel_inv {} ?k1" and c1: "may_block ?k1 c" using k c by simp_all
  have only1: "only_thread_timers ?k1" using only by (simp add: only_thread_timers_def)
  have flag: "ipc_flag_ok (ipc_flag sem)" using inv by (simp add: sem_inv_def)
  have cur: "rt_current_thread k = Some c" using c by (simp add: may_block_def)
  obtain k' where k': "rt_schedule (blocked_state (suspend_thread sem) c (ipc_flag sem) time ?k1) = Some k'"
    "kernel_inv {} k'" "schedule_post (blocked_state (suspend_thread sem) c (ipc_flag sem) time ?k1) k'"
    "rt_current_thread k' \<noteq> Some c"
    using blocked_schedule [OF k1 c1 flag time, of "suspend_thread sem"] open_ by auto
  note s = blocked_sleeping [OF k1 c1 flag time zero(2) only1 k'(3,2)]
  have "rt_sem_take sem time k = Some (sem, k', Blocked)"
    using zero sint_pos [OF zero(2)] suspend_with_timeout_returns(1) [OF k1 c1 flag time] k'(1,4)
      in_thread_context_eq [OF cur nest]
    by (auto simp: rt_sem_take_def)
  with s show ?thesis by simp
qed

text \<open>
  A take that waits for \<open>time\<close> ticks and is not served: it is still queued
  after every smaller number of ticks; after exactly \<open>time\<close> ticks the thread is ready and off the
  waiting list, and its take returns \<^verbatim>\<open>-RT_ETIMEOUT\<close>, with no token taken.
\<close>

theorem sem_take_times_out:
  assumes "kernel_inv {} k" and "may_block k c" and "rt_interrupt_nest k = 0"
    and "rt_scheduler_lock_nest k = 0" and "sem_inv sem k" and "wait_time_ok time"
    and "sem_value sem = 0" and "0 < sint time" and "only_thread_timers k"
  shows "returns (rt_sem_take sem time k) (\<lambda>(sem', k', r). sem' = sem \<and> r = Blocked \<and>
    (\<forall>j < unat time. returns (ticks ucb j k') (\<lambda>k2. c \<in> set (tlists k2 (Wait (suspend_thread sem))))) \<and>
    returns (ticks ucb (unat time) k') (\<lambda>k2. stat (threads k2 c) = RT_THREAD_READY \<and>
      c \<notin> set (tlists k2 (Wait (suspend_thread sem))) \<and> rt_sem_take_resume c k2 = - RT_ETIMEOUT))"
proof -
  have pos: "0 < unat time" using sint_pos [OF assms(8)] by (simp add: word_less_nat_alt)
  show ?thesis
  proof (rule returns_mono [OF sem_take_blocks [OF assms]], clarify, intro conjI allI impI)
    fix k' j assume s: "sleeping k' c (unat time)" "c \<in> set (tlists k' (Wait (suspend_thread sem)))"
    {
      fix j assume "j < unat time"
      with sleeping_ticks [OF s(1), of j ucb] s(2)
      show "returns (ticks ucb j k') (\<lambda>k2. c \<in> set (tlists k2 (Wait (suspend_thread sem))))"
        by (auto elim!: returns_mono)
    next
      show "returns (ticks ucb (unat time) k') (\<lambda>k2. stat (threads k2 c) = RT_THREAD_READY \<and>
          c \<notin> set (tlists k2 (Wait (suspend_thread sem))) \<and> rt_sem_take_resume c k2 = - RT_ETIMEOUT)"
        using sleeping_wakes [OF s(1) pos, of ucb]
        by (auto elim!: returns_mono simp: rt_sem_take_resume_def rt_err_defs)
    }
  qed auto
qed

lemma sem_reset_returns:
  assumes k: "kernel_inv Od k" and inv: "sem_inv sem k"
  shows "returns (rt_sem_control sem RT_IPC_CMD_RESET arg k) (\<lambda>(sem', k', e). e = RT_EOK \<and>
    kernel_inv Od k' \<and> scheduled k' \<and> sem_inv sem' k' \<and> sem_value sem' = ucast arg \<and>
    tlists k' (Wait (suspend_thread sem)) = [] \<and>
    (\<forall>t. if t \<in> set (tlists k (Wait (suspend_thread sem)))
         then stat (threads k' t) = RT_THREAD_READY \<and> rt_sem_take_resume t k' = - RT_ERROR
         else threads k' t = threads k t))"
proof -
  obtain k1 where k1: "rt_ipc_list_resume_all (suspend_thread sem) k = Some (k1, RT_EOK)" "kernel_inv Od k1"
    "tlists k1 (Wait (suspend_thread sem)) = []" "all_woken (set (tlists k (Wait (suspend_thread sem)))) k k1"
    using resume_all_returns [OF k, of "suspend_thread sem"] by (auto simp: returns_iff)
  obtain k' where k': "rt_schedule k1 = Some k'" "kernel_inv Od k'" "scheduled k'" "tlists k' = tlists k1"
    "threads k' = threads k1"
    by (rule release_schedule [OF k1(2)])
  show ?thesis
    using k1(3,4) k' inv
    by (simp add: rt_sem_control_def k1(1) sem_inv_def all_woken_def rt_sem_take_resume_def rt_err_defs)
qed

text \<open>
  Resetting a semaphore wakes every waiting thread with \<^verbatim>\<open>-RT_ERROR\<close>, which is
  what their takes return, leaves the waiting list empty, sets the value to the low 16 bits of the
  argument and runs the most urgent thread.
\<close>

theorem sem_reset_wakes_all:
  assumes k: "kernel_inv Od k" and inv: "sem_inv sem k"
  shows "returns (rt_sem_control sem RT_IPC_CMD_RESET arg k) (\<lambda>(sem', k', e). e = RT_EOK \<and>
    kernel_inv Od k' \<and> scheduled k' \<and> sem_inv sem' k' \<and> sem_value sem' = ucast arg \<and>
    tlists k' (Wait (suspend_thread sem)) = [] \<and>
    (\<forall>t. if t \<in> set (tlists k (Wait (suspend_thread sem)))
         then stat (threads k' t) = RT_THREAD_READY \<and> rt_sem_take_resume t k' = - RT_ERROR
         else threads k' t = threads k t))"
  using assms by (rule sem_reset_returns)

text \<open>
  The value is a 16-bit counter and the release does not check it: the
  65536th token is lost together with all the others.
\<close>

theorem sem_release_loses_tokens:
  assumes "tlists k (Wait (suspend_thread sem)) = []" and "sem_value sem = 65535"
  shows "rt_sem_release sem k = Some (sem\<lparr>sem_value := 0\<rparr>, k, RT_EOK)"
  using assms by (simp add: rt_sem_release_def)

section \<open>Concrete semaphores\<close>

definition ex_sem :: "u8 \<Rightarrow> u16 \<Rightarrow> rt_semaphore" where
  "ex_sem flag v = \<lparr>ipc_obj = Obj_Semaphore 0, ipc_flag = flag, suspend_thread = 0, sem_value = v\<rparr>"

lemma ex_sem_inv: "sem_inv (ex_sem RT_IPC_FLAG_PRIO 0) ex_wait" "sem_inv (ex_sem RT_IPC_FLAG_FIFO 0) ex_run"
  by (simp_all add: sem_inv_def ex_sem_def ipc_flag_ok_def)

lemma sem_take_correct_witness:
  "returns (rt_sem_take (ex_sem RT_IPC_FLAG_PRIO 0) 4 ex_wait) (\<lambda>(sem', k', r). r = Blocked \<and>
     tlists k' (Wait 0) = [5, 2, 3] \<and> timeout_tick (timers k' (Thread_Timer 5)) = 104)"
  by (rule returns_mono [OF sem_take_correct [OF ex_wait_inv [of "{}"] ex_may_block(2) _ _ ex_sem_inv(1)]])
    (auto simp: wait_time_ok_def tick_half ex_sem_def enqueue_def ipc_flag_defs prio_of_def)

lemma sem_release_correct_witness:
  "returns (rt_sem_release (ex_sem RT_IPC_FLAG_PRIO 0) ex_wait) (\<lambda>(sem', k', e). sem_value sem' = 0 \<and>
     tlists k' (Wait 0) = [3] \<and> stat (threads k' 2) = RT_THREAD_READY \<and> rt_sem_take_resume 2 k' = RT_EOK)"
  by (rule returns_mono [OF sem_release_correct [OF ex_wait_inv [of "{}"] ex_sem_inv(1)]])
    (auto simp: ex_sem_def)

lemma sem_take_times_out_witness:
  "returns (rt_sem_take (ex_sem RT_IPC_FLAG_FIFO 0) 2 ex_run) (\<lambda>(sem', k', r).
     returns (ticks quiet_callback 2 k') (\<lambda>k2. rt_sem_take_resume 5 k2 = - RT_ETIMEOUT))"
proof -
  have "returns (rt_sem_take (ex_sem RT_IPC_FLAG_FIFO 0) 2 ex_run) (\<lambda>(sem', k', r).
     returns (ticks quiet_callback (unat (2 :: u32)) k') (\<lambda>k2. rt_sem_take_resume 5 k2 = - RT_ETIMEOUT))"
    by (rule returns_mono [OF sem_take_times_out [OF ex_run_inv ex_may_block(1) _ _ ex_sem_inv(2),
            where ucb = quiet_callback]])
      (auto simp: wait_time_ok_def tick_half ex_sem_def only_thread_timers_def elim!: returns_mono)
  then show ?thesis by simp
qed

lemma sem_reset_wakes_all_witness:
  "returns (rt_sem_control (ex_sem RT_IPC_FLAG_PRIO 0) RT_IPC_CMD_RESET 3 ex_wait) (\<lambda>(sem', k', e).
     sem_value sem' = 3 \<and> rt_sem_take_resume 2 k' = - RT_ERROR \<and> rt_sem_take_resume 3 k' = - RT_ERROR)"
  by (rule returns_mono [OF sem_reset_wakes_all [OF ex_wait_inv [of "{}"] ex_sem_inv(1)]])
    (auto simp: ex_sem_def dest: spec [of _ 2] spec [of _ 3])

lemma sem_release_loses_tokens_witness:
  "rt_sem_release (ex_sem RT_IPC_FLAG_FIFO 65535) ex_run = Some ((ex_sem RT_IPC_FLAG_FIFO 65535)\<lparr>sem_value := 0\<rparr>, ex_run, RT_EOK)"
  by (rule sem_release_loses_tokens) (simp_all add: ex_sem_def)

end
