(* ===== verification/RT_Mutex.thy ===== *)
theory RT_Mutex
  imports RT_Frame
begin

text \<open>
  The mutexes of src/ipc.c: recursive, owned by a thread, with priority inheritance. A thread that
  has to wait lends its priority to the owner before it is queued, and the owner gets its original
  priority back when it gives the mutex up.
\<close>

section \<open>The code\<close>

record rt_mutex = rt_ipc_object +
  mtx_value :: u16
  original_priority :: u8
  mtx_hold :: u8
  owner :: "tid option"

definition rt_mutex_init :: "kobj \<Rightarrow> nat \<Rightarrow> string \<Rightarrow> u8 \<Rightarrow> kernel \<Rightarrow> rt_mutex \<times> kernel \<times> rt_err" where
  "rt_mutex_init ob q name flag k =
     (\<lparr>ipc_obj = ob, ipc_flag = flag, suspend_thread = q, mtx_value = 1, original_priority = 0xff,
       mtx_hold = 0, owner = None\<rparr>,
      rt_ipc_object_init q (rt_object_init ob RT_Object_Class_Mutex name k), RT_EOK)"

definition rt_mutex_detach :: "rt_mutex \<Rightarrow> kernel \<Rightarrow> (rt_mutex \<times> kernel \<times> rt_err) option" where
  "rt_mutex_detach mutex k =
     do { (k1, e) \<leftarrow> rt_ipc_list_resume_all (suspend_thread mutex) k;
          Some (mutex, rt_object_detach (ipc_obj mutex) k1, RT_EOK) }"

definition rt_mutex_create ::
  "kobj option \<Rightarrow> nat \<Rightarrow> string \<Rightarrow> u8 \<Rightarrow> kernel \<Rightarrow> (rt_mutex option \<times> kernel) option" where
  "rt_mutex_create alloc q name flag k =
     do { not_in_interrupt k;
          (ob, k1) \<leftarrow> rt_object_allocate alloc RT_Object_Class_Mutex name k;
          (case ob of
             None \<Rightarrow> Some (None, k1)
           | Some obj \<Rightarrow>
               Some (Some \<lparr>ipc_obj = obj, ipc_flag = flag, suspend_thread = q, mtx_value = 1,
                           original_priority = 0xff, mtx_hold = 0, owner = None\<rparr>,
                 rt_ipc_object_init q k1)) }"

definition rt_mutex_delete :: "rt_mutex \<Rightarrow> kernel \<Rightarrow> (kernel \<times> rt_err) option" where
  "rt_mutex_delete mutex k =
     do { not_in_interrupt k;
          (k1, e) \<leftarrow> rt_ipc_list_resume_all (suspend_thread mutex) k;
          k2 \<leftarrow> rt_object_delete (ipc_obj mutex) k1;
          Some (k2, RT_EOK) }"

text \<open>The two places where a mutex changes the priority of its owner.\<close>

definition mutex_lend :: "tid \<Rightarrow> tid \<Rightarrow> kernel \<Rightarrow> (kernel \<times> rt_err) option" where
  "mutex_lend thread holder k =
     (if current_priority (threads k thread) < current_priority (threads k holder)
      then rt_thread_control holder RT_THREAD_CTRL_CHANGE_PRIORITY (current_priority (threads k thread)) k
      else Some (k, RT_EOK))"

definition mutex_restore :: "tid \<Rightarrow> u8 \<Rightarrow> kernel \<Rightarrow> (kernel \<times> rt_err) option" where
  "mutex_restore thread prio k =
     (if prio \<noteq> current_priority (threads k thread)
      then rt_thread_control thread RT_THREAD_CTRL_CHANGE_PRIORITY prio k
      else Some (k, RT_EOK))"

definition rt_mutex_take_resume :: "tid \<Rightarrow> kernel \<Rightarrow> rt_err" where
  "rt_mutex_take_resume thread k =
     (if error (threads k thread) \<noteq> RT_EOK then error (threads k thread) else RT_EOK)"

definition rt_mutex_take ::
  "rt_mutex \<Rightarrow> u32 \<Rightarrow> kernel \<Rightarrow> (rt_mutex \<times> kernel \<times> rt_err outcome) option" where
  "rt_mutex_take mutex time k =
     do { thread \<leftarrow> in_thread_context k;
          let k1 = upd_thread thread (\<lambda>th. th\<lparr>error := RT_EOK\<rparr>) k;
          (if owner mutex = Some thread then
             Some (mutex\<lparr>mtx_hold := mtx_hold mutex + 1\<rparr>, k1, Done RT_EOK)
           else if 0 < mtx_value mutex then
             Some (mutex\<lparr>mtx_value := mtx_value mutex - 1, owner := Some thread,
                         original_priority := current_priority (threads k1 thread),
                         mtx_hold := mtx_hold mutex + 1\<rparr>, k1, Done RT_EOK)
           else if time = 0 then
             Some (mutex, upd_thread thread (\<lambda>th. th\<lparr>error := - RT_ETIMEOUT\<rparr>) k1, Done (- RT_ETIMEOUT))
           else do {
             holder \<leftarrow> owner mutex;
             (k2, e) \<leftarrow> mutex_lend thread holder k1;
             k3 \<leftarrow> suspend_with_timeout (suspend_thread mutex) thread (ipc_flag mutex) time k2;
             k4 \<leftarrow> rt_schedule k3;
             Some (mutex, k4, if rt_current_thread k4 = Some thread then Done (rt_mutex_take_resume thread k4)
                              else Blocked) }) }"

definition rt_mutex_release :: "rt_mutex \<Rightarrow> kernel \<Rightarrow> (rt_mutex \<times> kernel \<times> rt_err) option" where
  "rt_mutex_release mutex k =
     do { thread \<leftarrow> in_thread_context k;
          (if owner mutex \<noteq> Some thread then
             Some (mutex, upd_thread thread (\<lambda>th. th\<lparr>error := - RT_ERROR\<rparr>) k, - RT_ERROR)
           else do {
             let m1 = mutex\<lparr>mtx_hold := mtx_hold mutex - 1\<rparr>;
             (if mtx_hold m1 \<noteq> 0 then Some (m1, k, RT_EOK)
              else do {
                (k1, e1) \<leftarrow> mutex_restore thread (original_priority m1) k;
                (if tlists k1 (Wait (suspend_thread m1)) \<noteq> [] then do {
                   let t = hd (tlists k1 (Wait (suspend_thread m1)));
                   let m2 = m1\<lparr>owner := Some t, original_priority := current_priority (threads k1 t),
                               mtx_hold := mtx_hold m1 + 1\<rparr>;
                   (k2, e2) \<leftarrow> rt_ipc_list_resume (suspend_thread m1) k1;
                   k3 \<leftarrow> rt_schedule k2;
                   Some (m2, k3, RT_EOK) }
                 else
                   Some (m1\<lparr>mtx_value := mtx_value m1 + 1, owner := None, original_priority := 0xff\<rparr>,
                         k1, RT_EOK)) }) }) }"

definition rt_mutex_control :: "rt_mutex \<Rightarrow> u8 \<Rightarrow> u32 \<Rightarrow> kernel \<Rightarrow> rt_mutex \<times> kernel \<times> rt_err" where
  "rt_mutex_control mutex cmd arg k = (mutex, k, - RT_ERROR)"

section \<open>One owner, or none and a token\<close>

definition mutex_inv :: "rt_mutex \<Rightarrow> kernel \<Rightarrow> bool" where
  "mutex_inv m k \<longleftrightarrow> ipc_flag_ok (ipc_flag m) \<and>
     (case owner m of
        None \<Rightarrow> mtx_value m = 1 \<and> mtx_hold m = 0 \<and> tlists k (Wait (suspend_thread m)) = []
      | Some o' \<Rightarrow> mtx_value m = 0 \<and> 0 < mtx_hold m \<and> unat (original_priority m) < 32 \<and>
          o' \<notin> set (tlists k (Wait (suspend_thread m))))"

text \<open>Changing the priority of a thread, by its effect.\<close>

lemma change_priority_inv:
  assumes k: "kernel_inv Od k" and p: "unat p < 32"
  obtains k' where "rt_thread_control t RT_THREAD_CTRL_CHANGE_PRIORITY p k = Some (k', RT_EOK)"
    and "kernel_inv Od k'" and "current_priority (threads k' t) = p"
    and "stat (threads k' t) = stat (threads k t)" and "error (threads k' t) = error (threads k t)"
    and "\<And>t'. t' \<noteq> t \<Longrightarrow> threads k' t' = threads k t'" and "\<And>q. tlists k' (Wait q) = tlists k (Wait q)"
    and "rt_current_thread k' = rt_current_thread k" and "rt_scheduler_lock_nest k' = rt_scheduler_lock_nest k"
    and "rt_interrupt_nest k' = rt_interrupt_nest k" and "timers k' = timers k"
    and "rt_timer_list k' = rt_timer_list k" and "rt_tick k' = rt_tick k"
proof -
  have wf: "kernel_wf Od k" using k by (simp add: kernel_inv_def)
  obtain k' where k': "rt_thread_control t RT_THREAD_CTRL_CHANGE_PRIORITY p k = Some (k', RT_EOK)"
    "kernel_wf Od k'" "current_priority (threads k' t) = p" "stat (threads k' t) = stat (threads k t)"
    "\<forall>t'. t' \<noteq> t \<longrightarrow> threads k' t' = threads k t'"
    using change_priority_returns [OF wf p, of t] by (auto simp: returns_iff)
  have fr: "rt_current_thread k' = rt_current_thread k \<and> rt_scheduler_lock_nest k' = rt_scheduler_lock_nest k \<and>
    rt_interrupt_nest k' = rt_interrupt_nest k \<and> timers k' = timers k \<and> error (threads k' t) = error (threads k t) \<and>
    rt_timer_list k' = rt_timer_list k \<and> rt_tick k' = rt_tick k \<and>
    (\<forall>q. tlists k' (Wait q) = (if stat (threads k t) = RT_THREAD_READY then removeAll t (tlists k (Wait q))
                               else tlists k (Wait q)))"
    using k'(1) p
    by (auto simp: rt_thread_control_def RT_THREAD_CTRL_CHANGE_PRIORITY_def rt_schedule_remove_thread_def
        rt_schedule_insert_thread_def Let_def rt_assert_def split: if_splits Option.bind_splits)
  have "tlists k' (Wait q) = tlists k (Wait q)" for q
    using fr unlink_waiting(1) [OF wf] by auto
  moreover have "kernel_inv Od k'"
    using k' k fr by (auto simp: kernel_inv_def running_def) (metis)
  ultimately show thesis
    using that [of k'] k' fr by blast
qed


lemma mutex_inv_cong:
  "tlists k' (Wait (suspend_thread m)) = tlists k (Wait (suspend_thread m)) \<Longrightarrow> mutex_inv m k' = mutex_inv m k"
  by (simp add: mutex_inv_def split: option.split)

lemma mutex_inv_upd_thread [simp]: "mutex_inv m (upd_thread t f k) = mutex_inv m k"
  by (rule mutex_inv_cong) simp

lemma mutex_inv_free:
  "mutex_inv m k \<Longrightarrow> owner m = None \<Longrightarrow>
     mtx_value m = 1 \<and> mtx_hold m = 0 \<and> tlists k (Wait (suspend_thread m)) = []"
  by (simp add: mutex_inv_def)

lemma mutex_inv_owned:
  "mutex_inv m k \<Longrightarrow> owner m = Some h \<Longrightarrow> mtx_value m = 0 \<and> 0 < mtx_hold m \<and>
     unat (original_priority m) < 32 \<and> h \<notin> set (tlists k (Wait (suspend_thread m)))"
  by (simp add: mutex_inv_def)

lemma live_prio:
  "kernel_inv Od k \<Longrightarrow> thread_live (threads k t) \<Longrightarrow> unat (current_priority (threads k t)) < 32"
  using wf_ready_attr [of Od k t] by (simp add: kernel_inv_def thread_attr_ok_def RT_THREAD_PRIORITY_MAX_def)

text \<open>The state in which the holder has been lent the priority of the thread that waits for it.\<close>

definition lent :: "tid \<Rightarrow> tid \<Rightarrow> kernel \<Rightarrow> kernel \<Rightarrow> bool" where
  "lent c h k k' \<longleftrightarrow> current_priority (threads k' h) = min (current_priority (threads k h)) (current_priority (threads k c)) \<and>
     stat (threads k' h) = stat (threads k h) \<and> error (threads k' h) = error (threads k h) \<and>
     (\<forall>t'. t' \<noteq> h \<longrightarrow> threads k' t' = threads k t') \<and> (\<forall>q. tlists k' (Wait q) = tlists k (Wait q)) \<and>
     rt_current_thread k' = rt_current_thread k \<and> rt_scheduler_lock_nest k' = rt_scheduler_lock_nest k \<and>
     rt_interrupt_nest k' = rt_interrupt_nest k \<and> timers k' = timers k \<and> rt_timer_list k' = rt_timer_list k \<and>
     rt_tick k' = rt_tick k"

lemma lend_priority:
  assumes k: "kernel_inv Od k" and c: "unat (current_priority (threads k c)) < 32"
  obtains k' where "mutex_lend c h k = Some (k', RT_EOK)" and "kernel_inv Od k'" and "lent c h k k'"
proof (cases "current_priority (threads k c) < current_priority (threads k h)")
  case True
  obtain k' where k': "rt_thread_control h RT_THREAD_CTRL_CHANGE_PRIORITY (current_priority (threads k c)) k = Some (k', RT_EOK)"
    and i: "kernel_inv Od k'" and p: "current_priority (threads k' h) = current_priority (threads k c)"
    and f: "stat (threads k' h) = stat (threads k h)" "error (threads k' h) = error (threads k h)"
    "\<And>t'. t' \<noteq> h \<Longrightarrow> threads k' t' = threads k t'" "\<And>q. tlists k' (Wait q) = tlists k (Wait q)"
    "rt_current_thread k' = rt_current_thread k" "rt_scheduler_lock_nest k' = rt_scheduler_lock_nest k"
    "rt_interrupt_nest k' = rt_interrupt_nest k" "timers k' = timers k"
    "rt_timer_list k' = rt_timer_list k" "rt_tick k' = rt_tick k"
    by (rule change_priority_inv [OF k c, of h]) blast
  have "current_priority (threads k' h) = min (current_priority (threads k h)) (current_priority (threads k c))"
    using True p by (simp add: min_def not_le [symmetric])
  with f have "lent c h k k'" by (simp only: lent_def) blast
  with True k' i show thesis by (intro that [of k']) (simp_all add: mutex_lend_def)
next
  case False
  from False have "mutex_lend c h k = Some (k, RT_EOK)" and "lent c h k k"
    by (simp_all only: mutex_lend_def lent_def min_def not_less if_False simp_thms) auto
  with k show thesis by (intro that)
qed

text \<open>A thread that finds the mutex owned by another one and waits for it.\<close>

lemma mutex_take_waits:
  assumes k: "kernel_inv Od k" and c: "may_block k c" and nest: "rt_interrupt_nest k = 0"
    and inv: "mutex_inv m k" and time: "wait_time_ok time" "time \<noteq> 0"
    and own: "owner m = Some h" "h \<noteq> c" and open_: "rt_scheduler_lock_nest k = 0"
  obtains k2 k' where "rt_mutex_take m time k = Some (m, k', Blocked)"
    and "lent c h (upd_thread c (\<lambda>th. th\<lparr>error := RT_EOK\<rparr>) k) k2" and "kernel_inv Od k2" and "may_block k2 c"
    and "kernel_inv Od k'" and "schedule_post (blocked_state (suspend_thread m) c (ipc_flag m) time k2) k'"
    and "rt_current_thread k' \<noteq> Some c" and "scheduled k'"
proof -
  let ?k1 = "upd_thread c (\<lambda>th. th\<lparr>error := RT_EOK\<rparr>) k"
  have k1: "kernel_inv Od ?k1" and c1: "may_block ?k1 c" using k c by simp_all
  have cur: "rt_current_thread k = Some c" and st: "stat (threads k c) = RT_THREAD_READY"
    using c by (simp_all add: may_block_def)
  have flag: "ipc_flag_ok (ipc_flag m)" using inv by (simp add: mutex_inv_def)
  have "unat (current_priority (threads ?k1 c)) < 32" by (rule live_prio [OF k1]) (simp add: st)
  then obtain k2 where k2: "mutex_lend c h ?k1 = Some (k2, RT_EOK)" "kernel_inv Od k2" "lent c h ?k1 k2"
    by (rule lend_priority [OF k1])
  have c2: "may_block k2 c" using c1 k2(3) own(2) by (simp add: may_block_def lent_def)
  have open2: "rt_scheduler_lock_nest k2 = 0" using k2(3) open_ by (simp add: lent_def)
  obtain k' where k': "rt_schedule (blocked_state (suspend_thread m) c (ipc_flag m) time k2) = Some k'"
    "kernel_inv Od k'" "schedule_post (blocked_state (suspend_thread m) c (ipc_flag m) time k2) k'"
    "rt_current_thread k' \<noteq> Some c" "scheduled k'"
    using blocked_schedule [OF k2(2) c2 flag time(1), of "suspend_thread m"] open2 by auto
  have "\<not> 0 < mtx_value m" using mutex_inv_owned [OF inv own(1)] by simp
  then have "rt_mutex_take m time k = Some (m, k', Blocked)"
    using own time(2) k2(1) suspend_with_timeout_returns(1) [OF k2(2) c2 flag time(1)] k'(1,4)
    by (simp add: rt_mutex_take_def in_thread_context_eq [OF cur nest] del: upd_thread_simps)
  then show thesis using that k2(2,3) c2 k' by blast
qed

lemma mutex_take_returns:
  assumes k: "kernel_inv Od k" and c: "may_block k c" and nest: "rt_interrupt_nest k = 0"
    and open_: "rt_scheduler_lock_nest k = 0" and inv: "mutex_inv m k" and time: "wait_time_ok time"
    and deep: "owner m = Some c \<Longrightarrow> mtx_hold m < 255"
  shows "returns (rt_mutex_take m time k) (\<lambda>(m', k', r). kernel_inv Od k' \<and> mutex_inv m' k' \<and>
    (scheduled k \<longrightarrow> scheduled k') \<and>
    (case owner m of
       None \<Rightarrow> r = Done RT_EOK \<and> owner m' = Some c \<and> mtx_hold m' = 1 \<and>
         original_priority m' = current_priority (threads k c)
     | Some h \<Rightarrow>
         if h = c then r = Done RT_EOK \<and> m' = m\<lparr>mtx_hold := mtx_hold m + 1\<rparr>
         else if time = 0 then r = Done (- RT_ETIMEOUT) \<and> m' = m \<and> error (threads k' c) = - RT_ETIMEOUT
         else r = Blocked \<and> m' = m \<and> scheduled k' \<and> rt_current_thread k' \<noteq> Some c \<and>
           stat (threads k' c) = RT_THREAD_SUSPEND \<and> error (threads k' c) = RT_EOK \<and>
           c \<in> set (tlists k' (Wait (suspend_thread m))) \<and>
           current_priority (threads k' h) = min (current_priority (threads k h)) (current_priority (threads k c))))"
proof -
  let ?k1 = "upd_thread c (\<lambda>th. th\<lparr>error := RT_EOK\<rparr>) k"
  have k1: "kernel_inv Od ?k1" using k by simp
  have cur: "rt_current_thread k = Some c" and st: "stat (threads k c) = RT_THREAD_READY"
    using c by (simp_all add: may_block_def)
  have wf: "kernel_wf Od k" using k by (simp add: kernel_inv_def)
  note nw = unlink_waiting(2) [OF wf st]
  have p: "unat (current_priority (threads k c)) < 32" by (rule live_prio [OF k]) (simp add: st)
  note ctx = in_thread_context_eq [OF cur nest]
  show ?thesis
  proof (cases "owner m")
    case None
    with mutex_inv_free [OF inv None] k1 p nw inv show ?thesis
      by (simp add: rt_mutex_take_def ctx mutex_inv_def)
  next
    case (Some h)
    note ow = mutex_inv_owned [OF inv Some]
    show ?thesis
    proof (cases "h = c")
      case True
      have "0 < mtx_hold m + 1"
      proof -
        have "unat (mtx_hold m) < 255" using deep Some True by (simp add: word_less_nat_alt)
        then have "unat (mtx_hold m + 1) = unat (mtx_hold m) + 1" by (simp add: unat_word_ariths)
        then show ?thesis by (simp add: word_less_nat_alt)
      qed
      with True Some ow k1 inv show ?thesis by (simp add: rt_mutex_take_def ctx mutex_inv_def)
    next
      case False
      show ?thesis
      proof (cases "time = 0")
        case True
        then have "rt_mutex_take m time k = Some (m, upd_thread c (\<lambda>th. th\<lparr>error := - RT_ETIMEOUT\<rparr>) ?k1, Done (- RT_ETIMEOUT))"
          using False Some ow by (simp add: rt_mutex_take_def ctx)
        moreover have "kernel_inv Od (upd_thread c (\<lambda>th. th\<lparr>error := - RT_ETIMEOUT\<rparr>) ?k1)"
          using k1 by (subst kernel_inv_upd_thread) (simp_all add: thread_same_def)
        moreover have "scheduled (upd_thread c (\<lambda>th. th\<lparr>error := - RT_ETIMEOUT\<rparr>) ?k1) = scheduled k"
          by (subst scheduled_upd_thread) (simp_all add: thread_same_def)
        ultimately show ?thesis using True False Some inv by (simp add: mutex_inv_def)
      next
        case nz: False
        obtain k2 k' where k': "rt_mutex_take m time k = Some (m, k', Blocked)" "lent c h ?k1 k2" "kernel_inv Od k2"
          "may_block k2 c" "kernel_inv Od k'"
          "schedule_post (blocked_state (suspend_thread m) c (ipc_flag m) time k2) k'"
          "rt_current_thread k' \<noteq> Some c" "scheduled k'"
          by (rule mutex_take_waits [OF k c nest inv time nz Some False open_])
        have st2: "stat (threads k2 c) = RT_THREAD_READY" using k'(4) by (simp add: may_block_def)
        have wf2: "kernel_wf Od k2" using k'(3) by (simp add: kernel_inv_def)
        note bs = blocked_state_simps [OF wf2 st2] and fr = schedule_post_frame [OF k'(6)]
        have "mutex_inv m k'"
          using inv Some ow False k'(2) by (simp add: mutex_inv_def fr bs lent_def)
        then show ?thesis
          using k' Some False nz by (simp add: fr bs lent_def)
      qed
    qed
  qed
qed

text \<open>
  C8. \<^verbatim>\<open>rt_mutex_take\<close> with the scheduler unlocked: the owner takes again, and only
  the count changes; a free mutex becomes the caller's, with its present priority noted; on an owned
  mutex the call returns \<^verbatim>\<open>-RT_ETIMEOUT\<close> at once without a waiting time, and otherwise the caller is
  suspended and queued, the owner runs at least at the caller's priority, and the most urgent thread
  runs. In no case does a second thread become the owner.
\<close>

theorem mutex_take_correct:
  assumes k: "kernel_inv Od k" and c: "may_block k c" and nest: "rt_interrupt_nest k = 0"
    and open_: "rt_scheduler_lock_nest k = 0" and inv: "mutex_inv m k" and time: "wait_time_ok time"
    and deep: "owner m = Some c \<Longrightarrow> mtx_hold m < 255"
  shows "returns (rt_mutex_take m time k) (\<lambda>(m', k', r). kernel_inv Od k' \<and> mutex_inv m' k' \<and>
    (case owner m of
       None \<Rightarrow> r = Done RT_EOK \<and> owner m' = Some c \<and> mtx_hold m' = 1 \<and>
         original_priority m' = current_priority (threads k c)
     | Some h \<Rightarrow>
         if h = c then r = Done RT_EOK \<and> m' = m\<lparr>mtx_hold := mtx_hold m + 1\<rparr>
         else if time = 0 then r = Done (- RT_ETIMEOUT) \<and> m' = m \<and> error (threads k' c) = - RT_ETIMEOUT
         else r = Blocked \<and> m' = m \<and> scheduled k' \<and> rt_current_thread k' \<noteq> Some c \<and>
           stat (threads k' c) = RT_THREAD_SUSPEND \<and> error (threads k' c) = RT_EOK \<and>
           c \<in> set (tlists k' (Wait (suspend_thread m))) \<and>
           current_priority (threads k' h) = min (current_priority (threads k h)) (current_priority (threads k c))))"
  by (rule returns_mono [OF mutex_take_returns [OF assms]], assumption) (unfold case_prod_unfold, elim conjE, (intro conjI; assumption))


section \<open>Release\<close>

text \<open>The state after the owner's own priority has been restored.\<close>

lemma restore_priority:
  assumes k: "kernel_inv Od k" and p: "unat p < 32"
  obtains k' where "mutex_restore c p k = Some (k', RT_EOK)"
    and "kernel_inv Od k'" and "current_priority (threads k' c) = p" and "stat (threads k' c) = stat (threads k c)"
    and "\<And>t'. t' \<noteq> c \<Longrightarrow> threads k' t' = threads k t'" and "\<And>q. tlists k' (Wait q) = tlists k (Wait q)"
    and "rt_current_thread k' = rt_current_thread k" and "rt_scheduler_lock_nest k' = rt_scheduler_lock_nest k"
proof (cases "p = current_priority (threads k c)")
  case True
  then have "mutex_restore c p k = Some (k, RT_EOK)" by (simp add: mutex_restore_def)
  with True k show thesis by (intro that [of k]) simp_all
next
  case False
  then have r: "mutex_restore c p k = rt_thread_control c RT_THREAD_CTRL_CHANGE_PRIORITY p k"
    by (simp add: mutex_restore_def)
  show thesis by (rule change_priority_inv [OF k p, of c]) (rule that, unfold r)
qed

lemma mutex_release_returns:
  assumes k: "kernel_inv Od k" and cur: "rt_current_thread k = Some c" and nest: "rt_interrupt_nest k = 0"
    and inv: "mutex_inv m k"
  shows "returns (rt_mutex_release m k) (\<lambda>(m', k', e). kernel_inv Od k' \<and> mutex_inv m' k' \<and>
    (if owner m \<noteq> Some c then e = - RT_ERROR \<and> m' = m \<and> error (threads k' c) = - RT_ERROR
     else e = RT_EOK \<and>
      (if mtx_hold m \<noteq> 1 then m' = m\<lparr>mtx_hold := mtx_hold m - 1\<rparr> \<and> k' = k
       else current_priority (threads k' c) = original_priority m \<and>
        (case tlists k (Wait (suspend_thread m)) of
           [] \<Rightarrow> owner m' = None \<and> mtx_value m' = 1 \<and> mtx_hold m' = 0
         | t # ts \<Rightarrow> owner m' = Some t \<and> mtx_value m' = 0 \<and> mtx_hold m' = 1 \<and> scheduled k' \<and>
             original_priority m' = current_priority (threads k t) \<and>
             tlists k' (Wait (suspend_thread m)) = ts \<and> stat (threads k' t) = RT_THREAD_READY \<and>
             (error (threads k t) = RT_EOK \<longrightarrow> rt_mutex_take_resume t k' = RT_EOK)))))"
proof -
  note ctx = in_thread_context_eq [OF cur nest]
  show ?thesis
  proof (cases "owner m = Some c")
    case False
    then have "rt_mutex_release m k = Some (m, upd_thread c (\<lambda>th. th\<lparr>error := - RT_ERROR\<rparr>) k, - RT_ERROR)"
      by (simp add: rt_mutex_release_def ctx)
    with False k inv show ?thesis by simp
  next
    case True
    note ow = mutex_inv_owned [OF inv True]
    let ?m1 = "m\<lparr>mtx_hold := mtx_hold m - 1\<rparr>"
    show ?thesis
    proof (cases "mtx_hold m = 1")
      case False
      then have nz: "mtx_hold m - 1 \<noteq> 0" by simp
      then have "rt_mutex_release m k = Some (?m1, k, RT_EOK)"
        by (simp add: rt_mutex_release_def ctx True)
      moreover have "mutex_inv ?m1 k" using inv True ow nz by (simp add: mutex_inv_def word_gt_0)
      ultimately show ?thesis using False True k by simp
    next
      case one: True
      have "unat (original_priority m) < 32" using ow by simp
      then obtain k1 where k1: "mutex_restore c (original_priority m) k = Some (k1, RT_EOK)" "kernel_inv Od k1"
        "current_priority (threads k1 c) = original_priority m" "stat (threads k1 c) = stat (threads k c)"
        "\<And>t'. t' \<noteq> c \<Longrightarrow> threads k1 t' = threads k t'" "\<And>q. tlists k1 (Wait q) = tlists k (Wait q)"
        by (rule restore_priority [OF k, of _ c]) blast
      show ?thesis
      proof (cases "tlists k (Wait (suspend_thread m))")
        case Nil
        have "rt_mutex_release m k = Some (?m1\<lparr>mtx_value := mtx_value m + 1, owner := None, original_priority := 0xff\<rparr>, k1, RT_EOK)"
          by (simp add: rt_mutex_release_def Let_def ctx True one Nil k1(1,6))
        then show ?thesis
          using True one Nil k1(2,3) ow inv by (simp add: mutex_inv_def k1(6))
      next
        case (Cons t ts)
        have tc: "t \<noteq> c" using ow Cons by auto
        have l1: "tlists k1 (Wait (suspend_thread m)) = t # ts" using Cons by (simp add: k1(6))
        note r = resume_first [OF k1(2) l1]
        have d: "t \<notin> set ts" using inv_distinct [OF k1(2), of "Wait (suspend_thread m)"] l1 by simp
        have st: "stat (threads k1 t) = RT_THREAD_SUSPEND" by (rule waiting_suspended [OF k1(2), of _ "suspend_thread m"]) (simp add: l1)
        have p: "unat (current_priority (threads k t)) < 32"
          using live_prio [OF k1(2), of t] st k1(5) [OF tc] by simp
        obtain k' where k': "rt_schedule (resume_state t k1) = Some k'" "kernel_inv Od k'"
          "scheduled k'" "tlists k' = tlists (resume_state t k1)" "threads k' = threads (resume_state t k1)"
          by (rule release_schedule [OF r(2)])
        let ?m2 = "?m1\<lparr>owner := Some t, original_priority := current_priority (threads k1 t), mtx_hold := 1\<rparr>"
        have "rt_mutex_release m k = Some (?m2, k', RT_EOK)"
          by (simp add: rt_mutex_release_def Let_def ctx True one l1 r(1) k'(1) k1(1))
        moreover have "mutex_inv ?m2 k'"
          using inv ow d p by (simp add: mutex_inv_def k'(4) r(3) k1(5) [OF tc])
        ultimately show ?thesis
          using True one Cons k'(2,3) ow k1(3,5) tc r(3)
          by (simp add: k'(4,5) rt_mutex_take_resume_def del: resume_state_simps(1))
      qed
    qed
  qed
qed

text \<open>
  C9. \<^verbatim>\<open>rt_mutex_release\<close>: a thread that is not the owner gets \<^verbatim>\<open>-RT_ERROR\<close> and
  changes nothing of the mutex; an owner that took it several times counts down; the last release
  gives the releasing thread its original priority back and hands the mutex to the first waiting
  thread, which is then its only owner, ready, with its take due to return \<^verbatim>\<open>RT_EOK\<close>; when no thread
  waits the mutex is free again. The invariants hold afterwards.
\<close>

theorem mutex_release_correct:
  assumes k: "kernel_inv Od k" and cur: "rt_current_thread k = Some c" and nest: "rt_interrupt_nest k = 0"
    and inv: "mutex_inv m k"
  shows "returns (rt_mutex_release m k) (\<lambda>(m', k', e). kernel_inv Od k' \<and> mutex_inv m' k' \<and>
    (if owner m \<noteq> Some c then e = - RT_ERROR \<and> m' = m \<and> error (threads k' c) = - RT_ERROR
     else e = RT_EOK \<and>
      (if mtx_hold m \<noteq> 1 then m' = m\<lparr>mtx_hold := mtx_hold m - 1\<rparr> \<and> k' = k
       else current_priority (threads k' c) = original_priority m \<and>
        (case tlists k (Wait (suspend_thread m)) of
           [] \<Rightarrow> owner m' = None \<and> mtx_value m' = 1 \<and> mtx_hold m' = 0
         | t # ts \<Rightarrow> owner m' = Some t \<and> mtx_value m' = 0 \<and> mtx_hold m' = 1 \<and> scheduled k' \<and>
             original_priority m' = current_priority (threads k t) \<and>
             tlists k' (Wait (suspend_thread m)) = ts \<and> stat (threads k' t) = RT_THREAD_READY \<and>
             (error (threads k t) = RT_EOK \<longrightarrow> rt_mutex_take_resume t k' = RT_EOK)))))"
  using assms by (rule mutex_release_returns)


text \<open>
  The release that finds no waiting thread lowers the priority of the
  caller to its original one and does not call \<^verbatim>\<open>rt_schedule\<close>: when the caller had been lent a higher
  priority (by a thread whose take has timed out since) and a ready thread is more urgent than the
  original priority, the less urgent thread goes on running.
\<close>

theorem mutex_release_keeps_processor:
  assumes k: "kernel_inv Od k" and cur: "rt_current_thread k = Some c" and nest: "rt_interrupt_nest k = 0"
    and inv: "mutex_inv m k" and own: "owner m = Some c" "mtx_hold m = 1"
    and none: "tlists k (Wait (suspend_thread m)) = []" and open_: "rt_scheduler_lock_nest k = 0"
    and t: "stat (threads k t) = RT_THREAD_READY" "t \<noteq> c" "current_priority (threads k t) < original_priority m"
  shows "returns (rt_mutex_release m k) (\<lambda>(m', k', e). e = RT_EOK \<and> rt_current_thread k' = Some c \<and> \<not> scheduled k')"
proof -
  note ctx = in_thread_context_eq [OF cur nest]
  have "unat (original_priority m) < 32" using mutex_inv_owned [OF inv own(1)] by simp
  then obtain k1 where k1: "mutex_restore c (original_priority m) k = Some (k1, RT_EOK)"
    "current_priority (threads k1 c) = original_priority m" "\<And>t'. t' \<noteq> c \<Longrightarrow> threads k1 t' = threads k t'"
    "\<And>q. tlists k1 (Wait q) = tlists k (Wait q)" "rt_current_thread k1 = rt_current_thread k"
    "rt_scheduler_lock_nest k1 = rt_scheduler_lock_nest k"
    by (rule restore_priority [OF k, of _ c]) blast
  have "\<not> is_highest k1 c"
    using t k1(2,3) by (auto simp: is_highest_def not_le intro!: exI [of _ t])
  then have "\<not> scheduled k1" using k1(5,6) cur open_ by (simp add: scheduled_def)
  then show ?thesis
    using k1(5) cur by (simp add: rt_mutex_release_def Let_def ctx own none k1(1,4))
qed

section \<open>Concrete mutexes\<close>

definition ex_mutex :: "nat \<Rightarrow> tid option \<Rightarrow> u8 \<Rightarrow> rt_mutex" where
  "ex_mutex q ow p = \<lparr>ipc_obj = Obj_Mutex 0, ipc_flag = RT_IPC_FLAG_PRIO, suspend_thread = q,
     mtx_value = (if ow = None then 1 else 0), original_priority = p,
     mtx_hold = (if ow = None then 0 else 1), owner = ow\<rparr>"

lemma mutex_take_correct_witness:
  "returns (rt_mutex_take (ex_mutex 1 (Some 2) 20) 5 ex_run) (\<lambda>(m', k', r). r = Blocked \<and>
     owner m' = Some 2 \<and> current_priority (threads k' 2) = 10 \<and> rt_current_thread k' \<noteq> Some 5)"
  by (rule returns_mono [OF mutex_take_correct [OF ex_run_inv [of "{}"] ex_may_block(1)]])
    (auto simp: ex_mutex_def mutex_inv_def ipc_flag_ok_def wait_time_ok_def tick_half)

lemma mutex_release_correct_witness:
  "returns (rt_mutex_release (ex_mutex 0 (Some 5) 10) ex_wait) (\<lambda>(m', k', e). e = RT_EOK \<and>
     owner m' = Some 2 \<and> tlists k' (Wait 0) = [3] \<and> rt_mutex_take_resume 2 k' = RT_EOK)"
  by (rule returns_mono [OF mutex_release_correct [OF ex_wait_inv [of "{}"]]])
    (auto simp: ex_mutex_def mutex_inv_def ipc_flag_ok_def)

lemma mutex_release_keeps_processor_witness:
  "returns (rt_mutex_release (ex_mutex 1 (Some 5) 25) ex_run) (\<lambda>(m', k', e). rt_current_thread k' = Some 5 \<and> \<not> scheduled k')"
  by (rule returns_mono [OF mutex_release_keeps_processor [OF ex_run_inv [of "{}"], where t = 2]])
    (auto simp: ex_mutex_def mutex_inv_def ipc_flag_ok_def)

end
