(* ===== verification/RT_Event.thy ===== *)
theory RT_Event
  imports RT_Frame
begin

text \<open>
  The event flags of src/ipc.c: a 32-bit set; a thread waits for all or for any of some bits and may
  clear what it receives. A send walks the whole waiting list and serves every thread whose
  condition holds, on the set as the threads before it have left it.
\<close>

section \<open>The code\<close>

definition RT_EVENT_FLAG_AND :: u8 where "RT_EVENT_FLAG_AND = 1"
definition RT_EVENT_FLAG_OR :: u8 where "RT_EVENT_FLAG_OR = 2"
definition RT_EVENT_FLAG_CLEAR :: u8 where "RT_EVENT_FLAG_CLEAR = 4"

record rt_event = rt_ipc_object +
  ev_set :: u32

definition rt_event_init :: "kobj \<Rightarrow> nat \<Rightarrow> string \<Rightarrow> u8 \<Rightarrow> kernel \<Rightarrow> rt_event \<times> kernel \<times> rt_err" where
  "rt_event_init ob q name flag k =
     (\<lparr>ipc_obj = ob, ipc_flag = flag, suspend_thread = q, ev_set = 0\<rparr>,
      rt_ipc_object_init q (rt_object_init ob RT_Object_Class_Event name k), RT_EOK)"

definition rt_event_detach :: "rt_event \<Rightarrow> kernel \<Rightarrow> (rt_event \<times> kernel \<times> rt_err) option" where
  "rt_event_detach event k =
     do { (k1, e) \<leftarrow> rt_ipc_list_resume_all (suspend_thread event) k;
          Some (event, rt_object_detach (ipc_obj event) k1, RT_EOK) }"

definition rt_event_create ::
  "kobj option \<Rightarrow> nat \<Rightarrow> string \<Rightarrow> u8 \<Rightarrow> kernel \<Rightarrow> (rt_event option \<times> kernel) option" where
  "rt_event_create alloc q name flag k =
     do { not_in_interrupt k;
          (ob, k1) \<leftarrow> rt_object_allocate alloc RT_Object_Class_Event name k;
          (case ob of
             None \<Rightarrow> Some (None, k1)
           | Some obj \<Rightarrow> Some (Some \<lparr>ipc_obj = obj, ipc_flag = flag, suspend_thread = q, ev_set = 0\<rparr>,
                              rt_ipc_object_init q k1)) }"

definition rt_event_delete :: "rt_event \<Rightarrow> kernel \<Rightarrow> (kernel \<times> rt_err) option" where
  "rt_event_delete event k =
     do { not_in_interrupt k;
          (k1, e) \<leftarrow> rt_ipc_list_resume_all (suspend_thread event) k;
          k2 \<leftarrow> rt_object_delete (ipc_obj event) k1;
          Some (k2, RT_EOK) }"

text \<open>The test both \<^verbatim>\<open>rt_event_send\<close> and \<^verbatim>\<open>rt_event_recv\<close> make: the option \<open>info\<close>, the wanted bits, the set.\<close>

definition event_status :: "u8 \<Rightarrow> u32 \<Rightarrow> u32 \<Rightarrow> bool" where
  "event_status info want bits \<longleftrightarrow>
     (if info AND RT_EVENT_FLAG_AND \<noteq> 0 then want AND bits = want
      else if info AND RT_EVENT_FLAG_OR \<noteq> 0 then want AND bits \<noteq> 0
      else False)"

text \<open>The loop of \<^verbatim>\<open>rt_event_send\<close>: the event set, whether to schedule, the kernel.\<close>

fun event_scan :: "tid list \<Rightarrow> u32 \<Rightarrow> bool \<Rightarrow> kernel \<Rightarrow> (u32 \<times> bool \<times> kernel) option" where
  "event_scan [] bits need_schedule k = Some (bits, need_schedule, k)"
| "event_scan (thread # rest) bits need_schedule k =
     (let th = threads k thread in
      if event_status (event_info th) (event_set th) bits then
        do { let k1 = (if event_info th AND RT_EVENT_FLAG_AND \<noteq> 0 then k
                       else upd_thread thread (\<lambda>th. th\<lparr>event_set := event_set th AND bits\<rparr>) k);
             let set1 = (if event_info th AND RT_EVENT_FLAG_CLEAR \<noteq> 0
                         then bits AND NOT (event_set (threads k1 thread)) else bits);
             (k2, e) \<leftarrow> rt_thread_resume thread k1;
             event_scan rest set1 True k2 }
      else event_scan rest bits need_schedule k)"

definition rt_event_send :: "rt_event \<Rightarrow> u32 \<Rightarrow> kernel \<Rightarrow> (rt_event \<times> kernel \<times> rt_err) option" where
  "rt_event_send event bits k =
     (if bits = 0 then Some (event, k, - RT_ERROR)
      else do {
        (set2, need_schedule, k1) \<leftarrow>
          event_scan (tlists k (Wait (suspend_thread event))) (ev_set event OR bits) False k;
        k2 \<leftarrow> (if need_schedule then rt_schedule k1 else Some k1);
        Some (event\<lparr>ev_set := set2\<rparr>, k2, RT_EOK) })"

text \<open>The error code and the value of \<^verbatim>\<open>*recved\<close>, when it is written.\<close>

definition rt_event_recv_resume :: "tid \<Rightarrow> kernel \<Rightarrow> rt_err \<times> u32 option" where
  "rt_event_recv_resume thread k =
     (if error (threads k thread) \<noteq> RT_EOK then (error (threads k thread), None)
      else (error (threads k thread), Some (event_set (threads k thread))))"

definition rt_event_recv ::
  "rt_event \<Rightarrow> u32 \<Rightarrow> u8 \<Rightarrow> u32 \<Rightarrow> kernel \<Rightarrow> (rt_event \<times> kernel \<times> (rt_err \<times> u32 option) outcome) option" where
  "rt_event_recv event bits opt timeout k =
     do { thread \<leftarrow> in_thread_context k;
          (if bits = 0 then Some (event, k, Done (- RT_ERROR, None))
           else do {
             let k1 = upd_thread thread (\<lambda>th. th\<lparr>error := RT_EOK\<rparr>) k;
             rt_assert (opt AND RT_EVENT_FLAG_AND \<noteq> 0 \<or> opt AND RT_EVENT_FLAG_OR \<noteq> 0);
             (if event_status opt bits (ev_set event) then
                Some (if opt AND RT_EVENT_FLAG_CLEAR \<noteq> 0 then event\<lparr>ev_set := ev_set event AND NOT bits\<rparr> else event,
                      k1, Done (RT_EOK, Some (ev_set event AND bits)))
              else if timeout = 0 then
                Some (event, upd_thread thread (\<lambda>th. th\<lparr>error := - RT_ETIMEOUT\<rparr>) k1, Done (- RT_ETIMEOUT, None))
              else do {
                let k2 = upd_thread thread (\<lambda>th. th\<lparr>event_set := bits, event_info := opt\<rparr>) k1;
                k3 \<leftarrow> suspend_with_timeout (suspend_thread event) thread (ipc_flag event) timeout k2;
                k4 \<leftarrow> rt_schedule k3;
                Some (event, k4, if rt_current_thread k4 = Some thread
                                 then Done (rt_event_recv_resume thread k4) else Blocked) }) }) }"

definition rt_event_control ::
  "rt_event \<Rightarrow> u8 \<Rightarrow> u32 \<Rightarrow> kernel \<Rightarrow> (rt_event \<times> kernel \<times> rt_err) option" where
  "rt_event_control event cmd arg k =
     (if cmd = RT_IPC_CMD_RESET then
        do { (k1, e) \<leftarrow> rt_ipc_list_resume_all (suspend_thread event) k;
             k2 \<leftarrow> rt_schedule k1;
             Some (event\<lparr>ev_set := 0\<rparr>, k2, RT_EOK) }
      else Some (event, k, - RT_ERROR))"

section \<open>No thread waits for what is already there\<close>

definition bits_sub :: "u32 \<Rightarrow> u32 \<Rightarrow> bool" where
  "bits_sub a b \<longleftrightarrow> a AND b = a"

lemma bits_sub_bit: "bits_sub a b \<longleftrightarrow> (\<forall>n. bit a n \<longrightarrow> bit b n)"
proof
  show "\<forall>n. bit a n \<longrightarrow> bit b n" if "bits_sub a b" using that by (metis bits_sub_def bit_and_iff)
  show "bits_sub a b" if "\<forall>n. bit a n \<longrightarrow> bit b n"
    unfolding bits_sub_def using that by (intro bit_word_eqI) (auto simp: bit_and_iff)
qed

lemma bits_sub_refl [simp]: "bits_sub a a"
  by (simp add: bits_sub_def)

lemma bits_sub_trans: "bits_sub a b \<Longrightarrow> bits_sub b c \<Longrightarrow> bits_sub a c"
  by (simp add: bits_sub_bit)

lemma bits_sub_clear [simp]: "bits_sub (a AND b) a" "bits_sub (a AND b) b"
  by (simp_all add: bits_sub_bit bit_and_iff)

lemma event_status_mono:
  assumes "event_status info want s'" and "bits_sub s' s"
  shows "event_status info want s"
proof -
  have "want AND s = want" if "want AND s' = want"
    using that assms(2) by (simp add: bits_sub_def [symmetric] bits_sub_trans)
  moreover have "want AND s \<noteq> 0" if "want AND s' \<noteq> 0"
  proof
    assume z: "want AND s = 0"
    have "want AND s' = (want AND s) AND s'"
      using assms(2) by (metis bits_sub_def and.assoc and.commute)
    with z that show False by simp
  qed
  ultimately show ?thesis using assms(1) by (auto simp: event_status_def split: if_splits)
qed

definition event_inv :: "rt_event \<Rightarrow> kernel \<Rightarrow> bool" where
  "event_inv ev k \<longleftrightarrow> ipc_flag_ok (ipc_flag ev) \<and>
     (\<forall>t \<in> set (tlists k (Wait (suspend_thread ev))).
        event_set (threads k t) \<noteq> 0 \<and>
        \<not> event_status (event_info (threads k t)) (event_set (threads k t)) (ev_set ev))"

text \<open>A thread that a send with the set \<open>s\<close> has served: it is ready and has received bits it asked for.\<close>

definition served :: "u32 \<Rightarrow> kernel \<Rightarrow> kernel \<Rightarrow> tid \<Rightarrow> bool" where
  "served s k k' t \<longleftrightarrow> stat (threads k' t) = RT_THREAD_READY \<and>
     event_status (event_info (threads k t)) (event_set (threads k t)) s \<and>
     error (threads k' t) = error (threads k t) \<and> event_set (threads k' t) \<noteq> 0 \<and>
     bits_sub (event_set (threads k' t)) (event_set (threads k t)) \<and> bits_sub (event_set (threads k' t)) s \<and>
     (event_info (threads k t) AND RT_EVENT_FLAG_AND \<noteq> 0 \<longrightarrow> event_set (threads k' t) = event_set (threads k t))"


section \<open>The scan of the waiting list\<close>

text \<open>
  One served thread: the state after it has been resumed is again well formed, its waiting list has
  lost it, and the other threads are as they were.
\<close>

lemma event_serve:
  assumes k: "kernel_inv Od k" and t: "t \<in> set (tlists k (Wait q))" and f: "thread_same (threads k t) (f (threads k t))"
  shows "rt_thread_resume t (upd_thread t f k) = Some (resume_state t (upd_thread t f k), RT_EOK)"
    and "kernel_inv Od (resume_state t (upd_thread t f k))"
    and "tlists (resume_state t (upd_thread t f k)) (Wait q) = removeAll t (tlists k (Wait q))"
proof -
  have k1: "kernel_inv Od (upd_thread t f k)" using k f by simp
  have st: "stat (threads (upd_thread t f k) t) = RT_THREAD_SUSPEND"
    using waiting_suspended [OF k t] f by (simp add: thread_same_def)
  from kernel_inv_resume [OF k1 st]
  show "rt_thread_resume t (upd_thread t f k) = Some (resume_state t (upd_thread t f k), RT_EOK)"
    and "kernel_inv Od (resume_state t (upd_thread t f k))" by simp_all
  show "tlists (resume_state t (upd_thread t f k)) (Wait q) = removeAll t (tlists k (Wait q))" by simp
qed

definition scan_post :: "nat \<Rightarrow> tid list \<Rightarrow> u32 \<Rightarrow> kernel \<Rightarrow> u32 \<Rightarrow> kernel \<Rightarrow> bool" where
  "scan_post q ts s k s' k' \<longleftrightarrow> bits_sub s' s \<and>
     (\<forall>t. t \<notin> set ts \<longrightarrow> threads k' t = threads k t) \<and>
     (\<forall>t. t \<in> set ts \<longrightarrow>
        (t \<in> set (tlists k' (Wait q)) \<and> threads k' t = threads k t \<and>
           \<not> event_status (event_info (threads k t)) (event_set (threads k t)) s') \<or>
        (t \<notin> set (tlists k' (Wait q)) \<and> served s k k' t)) \<and>
     (\<forall>t. t \<notin> set ts \<longrightarrow> t \<in> set (tlists k' (Wait q)) \<longleftrightarrow> t \<in> set (tlists k (Wait q))) \<and>
     rt_current_thread k' = rt_current_thread k \<and> rt_scheduler_lock_nest k' = rt_scheduler_lock_nest k"

lemma event_scan_post:
  "kernel_inv Od k \<Longrightarrow> distinct ts \<Longrightarrow> set ts \<subseteq> set (tlists k (Wait q)) \<Longrightarrow>
   (\<forall>t \<in> set ts. event_set (threads k t) \<noteq> 0) \<Longrightarrow>
   returns (event_scan ts s need k) (\<lambda>(s', need', k'). kernel_inv Od k' \<and> scan_post q ts s k s' k' \<and>
     (need' = need \<and> k' = k \<or> need'))"
proof (induction ts arbitrary: s need k)
  case Nil
  then show ?case by (simp add: scan_post_def)
next
  case (Cons t ts)
  let ?th = "threads k t"
  have t: "t \<in> set (tlists k (Wait q))" using Cons.prems(3) by simp
  show ?case
  proof (cases "event_status (event_info ?th) (event_set ?th) s")
    case False
    have "returns (event_scan ts s need k) (\<lambda>(s', need', k'). kernel_inv Od k' \<and> scan_post q ts s k s' k' \<and>
        (need' = need \<and> k' = k \<or> need'))"
      by (rule Cons.IH) (use Cons.prems in auto)
    then show ?thesis
      using False Cons.prems(2) t
      by (auto elim!: returns_mono simp: scan_post_def dest: event_status_mono)
  next
    case True
    let ?and = "event_info ?th AND RT_EVENT_FLAG_AND \<noteq> 0"
    let ?f = "\<lambda>th. if ?and then th else th\<lparr>event_set := event_set th AND s\<rparr>"
    let ?k1 = "upd_thread t ?f k"
    let ?s1 = "if event_info ?th AND RT_EVENT_FLAG_CLEAR \<noteq> 0 then s AND NOT (event_set (?f ?th)) else s"
    let ?k2 = "resume_state t ?k1"
    have f: "thread_same ?th (?f ?th)" by simp
    note sv = event_serve [where f = ?f, OF Cons.prems(1) t f]
    have k1: "(if ?and then k else upd_thread t (\<lambda>th. th\<lparr>event_set := event_set th AND s\<rparr>) k) = ?k1"
      by (simp add: upd_thread_def)
    have step: "event_scan (t # ts) s need k = event_scan ts ?s1 True ?k2"
      using True sv(1) by (simp add: Let_def k1 del: upd_thread_simps) (simp add: upd_thread_def)
    have sub1: "bits_sub ?s1 s" by simp
    have d: "t \<notin> set ts" using Cons.prems(2) by simp
    have th2: "threads ?k2 x = threads k x" if "x \<noteq> t" for x using that by simp
    have "served s k ?k2 t"
      using True Cons.prems(4)
      by (auto simp: served_def event_status_def bits_sub_def [symmetric] split: if_splits)
    have "returns (event_scan ts ?s1 True ?k2) (\<lambda>(s', need', k'). kernel_inv Od k' \<and> scan_post q ts ?s1 ?k2 s' k' \<and>
        (need' = True \<and> k' = ?k2 \<or> need'))"
      by (rule Cons.IH [OF sv(2)]) (use Cons.prems d sv(3) th2 in auto)
    then show ?thesis
      unfolding step
    proof (rule returns_mono, goal_cases)
      case (1 x)
      then obtain s' need' k' where x: "x = (s', need', k')" and k': "kernel_inv Od k'" "scan_post q ts ?s1 ?k2 s' k'" "need'"
        by (cases x) auto
      have "threads k' t = threads ?k2 t" "t \<notin> set (tlists k' (Wait q))"
        using k'(2) d sv(3) by (simp_all add: scan_post_def)
      then have st: "t \<notin> set (tlists k' (Wait q)) \<and> served s k k' t"
        using \<open>served s k ?k2 t\<close> by (simp add: served_def)
      have sv2: "served s k k' x" if "served ?s1 ?k2 k' x" "x \<noteq> t" for x
        using that(1) event_status_mono [OF _ sub1] bits_sub_trans [OF _ sub1]
        unfolding served_def th2 [OF that(2)] by blast
      have "scan_post q (t # ts) s k s' k'"
        unfolding scan_post_def
      proof (intro conjI allI impI)
        show "bits_sub s' s" using k'(2) sub1 bits_sub_trans by (auto simp only: scan_post_def)
      next
        fix x assume "x \<notin> set (t # ts)"
        then show "threads k' x = threads k x" using k'(2) th2 by (simp add: scan_post_def)
      next
        fix x assume x: "x \<in> set (t # ts)"
        show "(x \<in> set (tlists k' (Wait q)) \<and> threads k' x = threads k x \<and>
             \<not> event_status (event_info (threads k x)) (event_set (threads k x)) s') \<or>
          (x \<notin> set (tlists k' (Wait q)) \<and> served s k k' x)"
        proof (cases "x = t")
          case False
          with x have "x \<in> set ts" by simp
          with k'(2) have "(x \<in> set (tlists k' (Wait q)) \<and> threads k' x = threads ?k2 x \<and>
               \<not> event_status (event_info (threads ?k2 x)) (event_set (threads ?k2 x)) s') \<or>
            (x \<notin> set (tlists k' (Wait q)) \<and> served ?s1 ?k2 k' x)"
            unfolding scan_post_def by blast
          then show ?thesis using sv2 [OF _ False] unfolding th2 [OF False] by blast
        qed (use st in simp)
      next
        fix x assume "x \<notin> set (t # ts)"
        then show "x \<in> set (tlists k' (Wait q)) \<longleftrightarrow> x \<in> set (tlists k (Wait q))"
          using k'(2) sv(3) by (simp add: scan_post_def)
      next
        show "rt_current_thread k' = rt_current_thread k" "rt_scheduler_lock_nest k' = rt_scheduler_lock_nest k"
          using k'(2) by (simp_all add: scan_post_def)
      qed
      with x k' show ?case by simp
    qed
  qed
qed


lemma event_send_returns:
  assumes k: "kernel_inv Od k" and inv: "event_inv ev k" and bits: "bits \<noteq> 0"
  shows "returns (rt_event_send ev bits k) (\<lambda>(ev', k', e). e = RT_EOK \<and> kernel_inv Od k' \<and> event_inv ev' k' \<and>
    bits_sub (ev_set ev') (ev_set ev OR bits) \<and>
    (\<forall>t. t \<in> set (tlists k (Wait (suspend_thread ev))) \<longrightarrow>
       (t \<in> set (tlists k' (Wait (suspend_thread ev))) \<and> threads k' t = threads k t \<and>
          \<not> event_status (event_info (threads k t)) (event_set (threads k t)) (ev_set ev')) \<or>
       (t \<notin> set (tlists k' (Wait (suspend_thread ev))) \<and> served (ev_set ev OR bits) k k' t)) \<and>
    (\<forall>t. t \<notin> set (tlists k (Wait (suspend_thread ev))) \<longrightarrow> threads k' t = threads k t) \<and>
    (scheduled k \<longrightarrow> scheduled k'))"
proof -
  let ?q = "suspend_thread ev"
  let ?ts = "tlists k (Wait ?q)"
  let ?s = "ev_set ev OR bits"
  have ne: "\<forall>t \<in> set ?ts. event_set (threads k t) \<noteq> 0" using inv by (simp add: event_inv_def)
  obtain s' need k1 where s: "event_scan ?ts ?s False k = Some (s', need, k1)" "kernel_inv Od k1"
    "scan_post ?q ?ts ?s k s' k1" "need \<or> k1 = k"
    using event_scan_post [OF k inv_distinct [OF k] subset_refl ne, of ?s False] by (auto simp: returns_iff)
  obtain k2 where k2: "(if need then rt_schedule k1 else Some k1) = Some k2" "kernel_inv Od k2"
    "tlists k2 = tlists k1" "threads k2 = threads k1" "scheduled k \<longrightarrow> scheduled k2"
  proof (cases need)
    case True
    with release_schedule [OF s(2)] that show thesis by (metis (full_types))
  next
    case False
    with s that [of k1] show thesis by simp
  qed
  have "rt_event_send ev bits k = Some (ev\<lparr>ev_set := s'\<rparr>, k2, RT_EOK)"
    using bits s(1) k2(1) by (simp add: rt_event_send_def)
  moreover have "event_inv (ev\<lparr>ev_set := s'\<rparr>) k2"
  proof -
    have "event_set (threads k1 t) \<noteq> 0 \<and>
        \<not> event_status (event_info (threads k1 t)) (event_set (threads k1 t)) s'"
      if "t \<in> set (tlists k1 (Wait ?q))" for t
    proof -
      have "t \<in> set ?ts" using s(3) that unfolding scan_post_def by blast
      moreover from this have "threads k1 t = threads k t \<and>
          \<not> event_status (event_info (threads k t)) (event_set (threads k t)) s'"
        using s(3) that unfolding scan_post_def by blast
      ultimately show ?thesis using ne by simp
    qed
    then show ?thesis using inv by (simp add: event_inv_def k2(3,4))
  qed
  moreover have "bits_sub s' ?s" "\<forall>t. t \<notin> set ?ts \<longrightarrow> threads k1 t = threads k t"
    "\<forall>t. t \<in> set ?ts \<longrightarrow>
        (t \<in> set (tlists k1 (Wait ?q)) \<and> threads k1 t = threads k t \<and>
           \<not> event_status (event_info (threads k t)) (event_set (threads k t)) s') \<or>
        (t \<notin> set (tlists k1 (Wait ?q)) \<and> served ?s k k1 t)"
    using s(3) unfolding scan_post_def by blast+
  moreover have "served ?s k k2 t = served ?s k k1 t" for t by (simp add: served_def k2(4))
  ultimately show ?thesis using k2(2,5) by (simp add: k2(3,4))
qed

text \<open>
  C10. \<^verbatim>\<open>rt_event_send\<close> with a non-empty set: every waiting thread has either been
  served -- it is ready, off the waiting list, and its receive returns bits it asked for that were in
  the set (all of them, for an AND receive) -- or it still waits, unchanged, and its condition does
  not hold for the set that is left. No satisfied thread is overlooked; the set that is left is part
  of the old set with the new bits, and the other threads are not touched.
\<close>

theorem event_send_complete:
  assumes k: "kernel_inv Od k" and inv: "event_inv ev k" and bits: "bits \<noteq> 0"
  shows "returns (rt_event_send ev bits k) (\<lambda>(ev', k', e). e = RT_EOK \<and> kernel_inv Od k' \<and> event_inv ev' k' \<and>
    bits_sub (ev_set ev') (ev_set ev OR bits) \<and>
    (\<forall>t. t \<in> set (tlists k (Wait (suspend_thread ev))) \<longrightarrow>
       (t \<in> set (tlists k' (Wait (suspend_thread ev))) \<and> threads k' t = threads k t \<and>
          \<not> event_status (event_info (threads k t)) (event_set (threads k t)) (ev_set ev')) \<or>
       (t \<notin> set (tlists k' (Wait (suspend_thread ev))) \<and> served (ev_set ev OR bits) k k' t)) \<and>
    (\<forall>t. t \<notin> set (tlists k (Wait (suspend_thread ev))) \<longrightarrow> threads k' t = threads k t) \<and>
    (scheduled k \<longrightarrow> scheduled k'))"
  using assms by (rule event_send_returns)

lemma event_recv_returns:
  assumes k: "kernel_inv Od k" and c: "may_block k c" and nest: "rt_interrupt_nest k = 0"
    and open_: "rt_scheduler_lock_nest k = 0" and inv: "event_inv ev k" and time: "wait_time_ok timeout"
    and bits: "bits \<noteq> 0" and opt: "opt AND RT_EVENT_FLAG_AND \<noteq> 0 \<or> opt AND RT_EVENT_FLAG_OR \<noteq> 0"
  shows "returns (rt_event_recv ev bits opt timeout k) (\<lambda>(ev', k', r). kernel_inv Od k' \<and> event_inv ev' k' \<and>
    (scheduled k \<longrightarrow> scheduled k') \<and>
    (if event_status opt bits (ev_set ev)
     then r = Done (RT_EOK, Some (ev_set ev AND bits)) \<and> rt_current_thread k' = Some c \<and>
       ev_set ev' = (if opt AND RT_EVENT_FLAG_CLEAR \<noteq> 0 then ev_set ev AND NOT bits else ev_set ev)
     else ev' = ev \<and>
       (if timeout = 0 then r = Done (- RT_ETIMEOUT, None) \<and> error (threads k' c) = - RT_ETIMEOUT
        else r = Blocked \<and> scheduled k' \<and> rt_current_thread k' \<noteq> Some c \<and>
          tlists k' (Wait (suspend_thread ev)) = enqueue (ipc_flag ev) (prio_of k) c (tlists k (Wait (suspend_thread ev))) \<and>
          event_set (threads k' c) = bits \<and> event_info (threads k' c) = opt \<and> error (threads k' c) = RT_EOK)))"
proof -
  let ?k1 = "upd_thread c (\<lambda>th. th\<lparr>error := RT_EOK\<rparr>) k"
  have cur: "rt_current_thread k = Some c" and st: "stat (threads k c) = RT_THREAD_READY"
    using c by (simp_all add: may_block_def)
  note ctx = in_thread_context_eq [OF cur nest]
  have k1: "kernel_inv Od ?k1" using k by simp
  have wf: "kernel_wf Od k" using k by (simp add: kernel_inv_def)
  note nw = unlink_waiting(2) [OF wf st]
  have inv1: "event_inv ev (upd_thread c f k)" for f
    using inv nw [of "suspend_thread ev"] by (auto simp: event_inv_def)
  show ?thesis
  proof (cases "event_status opt bits (ev_set ev)")
    case True
    have "event_inv (ev\<lparr>ev_set := ev_set ev AND NOT bits\<rparr>) ?k1"
      using inv nw [of "suspend_thread ev"] by (auto simp: event_inv_def dest: event_status_mono [OF _ bits_sub_clear(1)])
    then show ?thesis
      using True bits opt k1 inv1 cur by (simp add: rt_event_recv_def ctx rt_assert_def)
  next
    case False
    show ?thesis
    proof (cases "timeout = 0")
      case True
      let ?f = "\<lambda>th. th\<lparr>error := - RT_ETIMEOUT\<rparr>"
      have e: "upd_thread c ?f ?k1 = upd_thread c ?f k" by (simp add: upd_thread_def)
      have "kernel_inv Od (upd_thread c ?f k)" using k by simp
      then show ?thesis
        using True False bits opt inv1 [of ?f] by (simp add: rt_event_recv_def ctx rt_assert_def e)
    next
      case nz: False
      let ?g = "\<lambda>th. th\<lparr>error := RT_EOK, event_set := bits, event_info := opt\<rparr>"
      let ?k2 = "upd_thread c ?g k"
      have e: "upd_thread c (\<lambda>th. th\<lparr>event_set := bits, event_info := opt\<rparr>) ?k1 = ?k2" by (simp add: upd_thread_def)
      have same: "thread_same (threads k c) (?g (threads k c))" by (simp add: thread_same_def)
      have k2: "kernel_inv Od ?k2" using k same by simp
      have c2: "may_block ?k2 c" using c by (simp add: may_block_def)
      have pr: "prio_of ?k2 = prio_of k" using same by simp
      have flag: "ipc_flag_ok (ipc_flag ev)" using inv by (simp add: event_inv_def)
      have st2: "stat (threads ?k2 c) = RT_THREAD_READY" using st by simp
      have wf2: "kernel_wf Od ?k2" using k2 by (simp only: kernel_inv_def)
      note bs = blocked_state_simps [OF wf2 st2]
      obtain k' where k': "rt_schedule (blocked_state (suspend_thread ev) c (ipc_flag ev) timeout ?k2) = Some k'"
        "kernel_inv Od k'" "schedule_post (blocked_state (suspend_thread ev) c (ipc_flag ev) timeout ?k2) k'"
        "rt_current_thread k' \<noteq> Some c" "scheduled k'"
        using blocked_schedule [OF k2 c2 flag time, of "suspend_thread ev"] open_ by auto
      note fr = schedule_post_frame [OF k'(3)]
      have "rt_event_recv ev bits opt timeout k = Some (ev, k', Blocked)"
        using nz False bits opt suspend_with_timeout_returns(1) [OF k2 c2 flag time] k'(1,4)
        by (simp add: rt_event_recv_def ctx rt_assert_def e del: upd_thread_simps)
      moreover have "event_inv ev k'"
        using inv False bits nw [of "suspend_thread ev"]
        by (auto simp: event_inv_def fr bs)
      ultimately show ?thesis
        using nz False k'(2,4,5) by (simp add: fr bs pr)
    qed
  qed
qed

text \<open>
  C11. \<^verbatim>\<open>rt_event_recv\<close> with AND or OR, the scheduler unlocked: when the condition
  holds it returns the wanted bits of the set at once, and clears the wanted bits if asked to; when
  it does not hold and no waiting time is given it returns \<^verbatim>\<open>-RT_ETIMEOUT\<close>; otherwise the caller waits,
  with its condition recorded. It never waits for a condition that holds.
\<close>

theorem event_recv_correct:
  assumes k: "kernel_inv Od k" and c: "may_block k c" and nest: "rt_interrupt_nest k = 0"
    and open_: "rt_scheduler_lock_nest k = 0" and inv: "event_inv ev k" and time: "wait_time_ok timeout"
    and bits: "bits \<noteq> 0" and opt: "opt AND RT_EVENT_FLAG_AND \<noteq> 0 \<or> opt AND RT_EVENT_FLAG_OR \<noteq> 0"
  shows "returns (rt_event_recv ev bits opt timeout k) (\<lambda>(ev', k', r). kernel_inv Od k' \<and> event_inv ev' k' \<and>
    (if event_status opt bits (ev_set ev)
     then r = Done (RT_EOK, Some (ev_set ev AND bits)) \<and> rt_current_thread k' = Some c \<and>
       ev_set ev' = (if opt AND RT_EVENT_FLAG_CLEAR \<noteq> 0 then ev_set ev AND NOT bits else ev_set ev)
     else ev' = ev \<and>
       (if timeout = 0 then r = Done (- RT_ETIMEOUT, None) \<and> error (threads k' c) = - RT_ETIMEOUT
        else r = Blocked \<and> scheduled k' \<and> rt_current_thread k' \<noteq> Some c \<and>
          tlists k' (Wait (suspend_thread ev)) = enqueue (ipc_flag ev) (prio_of k) c (tlists k (Wait (suspend_thread ev))) \<and>
          event_set (threads k' c) = bits \<and> event_info (threads k' c) = opt \<and> error (threads k' c) = RT_EOK)))"
  by (rule returns_mono [OF event_recv_returns [OF assms]]) (unfold case_prod_unfold, elim conjE, (intro conjI; assumption))

section \<open>Concrete events\<close>

definition ex_event_kernel :: kernel where
  "ex_event_kernel = upd_thread 2 (\<lambda>th. th\<lparr>event_set := 3, event_info := 1\<rparr>)
     (upd_thread 3 (\<lambda>th. th\<lparr>event_set := 6, event_info := 6\<rparr>) ex_wait)"

definition ex_event :: "u32 \<Rightarrow> rt_event" where
  "ex_event s = \<lparr>ipc_obj = Obj_Event 0, ipc_flag = RT_IPC_FLAG_FIFO, suspend_thread = 0, ev_set = s\<rparr>"

lemma ex_event_inv: "kernel_inv Od ex_event_kernel" "event_inv (ex_event 1) ex_event_kernel"
proof -
  show "kernel_inv Od ex_event_kernel"
    unfolding ex_event_kernel_def
    by (subst kernel_inv_upd_thread; (subst kernel_inv_upd_thread)?; simp add: ex_wait_inv thread_same_def)
  show "event_inv (ex_event 1) ex_event_kernel"
    by (auto simp: event_inv_def ex_event_def ex_event_kernel_def ipc_flag_ok_def event_status_def
        RT_EVENT_FLAG_AND_def RT_EVENT_FLAG_OR_def)
qed

lemma event_send_complete_witness:
  "returns (rt_event_send (ex_event 1) 2 ex_event_kernel) (\<lambda>(ev', k', e). e = RT_EOK \<and> kernel_inv {} k' \<and>
     event_inv ev' k')"
  by (rule returns_mono [OF event_send_complete [OF ex_event_inv(1) ex_event_inv(2)]]) auto

lemma event_recv_correct_witness:
  "returns (rt_event_recv (ex_event 1) 2 1 0 ex_event_kernel) (\<lambda>(ev', k', r). r = Done (- RT_ETIMEOUT, None))"
  by (rule returns_mono [OF event_recv_correct [OF ex_event_inv(1) _ _ _ ex_event_inv(2), where c = 5 and Od = "{}"]])
    (auto simp: event_status_def RT_EVENT_FLAG_AND_def ex_event_def may_block_def tidle_def ex_event_kernel_def
      wait_time_ok_def)

end
