(* ===== verification/RT_System.thy ===== *)
theory RT_System
  imports RT_Sem RT_Mutex RT_Event
begin

text \<open>
  The kernel as one machine: threads, semaphores, mutexes and events, and the calls that threads and
  the tick interrupt make of them, in any order. The contract that lets each object keep its own
  invariant while calls are made of the others is the locale \<open>kernel_object\<close>; the semaphores,
  mutexes and events provide it.
\<close>

section \<open>What an object relies on\<close>

text \<open>
  \<open>inv obj k\<close> is the invariant of an object, \<open>queue obj\<close> its waiting list. It survives everything
  whose frame does not contain that list.
\<close>

locale kernel_object =
  fixes inv :: "'obj \<Rightarrow> kernel \<Rightarrow> bool"
    and queue :: "'obj \<Rightarrow> nat"
  assumes framed_inv: "inv obj k \<Longrightarrow> framed Q k k' \<Longrightarrow> queue obj \<notin> Q \<Longrightarrow> inv obj k'"
begin

text \<open>A family of objects with lists of their own.\<close>

definition family :: "('i \<Rightarrow> 'obj) \<Rightarrow> kernel \<Rightarrow> bool" where
  "family objs k \<longleftrightarrow> inj (\<lambda>i. queue (objs i)) \<and> (\<forall>i. inv (objs i) k)"

lemma family_member: "family objs k \<Longrightarrow> inv (objs i) k"
  by (simp add: family_def)

lemma family_frame:
  assumes "family objs k" and "framed Q k k'" and "\<And>i. queue (objs i) \<notin> Q"
  shows "family objs k'"
  using assms framed_inv unfolding family_def by blast

lemma family_quiet: "family objs k \<Longrightarrow> framed {} k k' \<Longrightarrow> family objs k'"
  by (erule family_frame) auto

text \<open>A call of one member of the family.\<close>

lemma family_call:
  assumes f: "family objs k" and fr: "framed {queue (objs i)} k k'" and i: "inv obj' k'"
    and q: "queue obj' = queue (objs i)"
  shows "family (objs(i := obj')) k'"
proof -
  have e: "(\<lambda>j. queue ((objs(i := obj')) j)) = (\<lambda>j. queue (objs j))" using q by auto
  have "inv (objs j) k'" if "j \<noteq> i" for j
  proof (rule framed_inv [OF _ fr])
    show "inv (objs j) k" using f by (simp add: family_def)
    show "queue (objs j) \<notin> {queue (objs i)}" using f that by (auto simp: family_def inj_def)
  qed
  then show ?thesis using f i unfolding family_def e by simp
qed

end

interpretation sem_obj: kernel_object sem_inv suspend_thread
  by unfold_locales (fastforce simp: sem_inv_def framed_def)

interpretation mutex_obj: kernel_object mutex_inv suspend_thread
  by unfold_locales (fastforce simp: mutex_inv_def framed_def split: option.splits)

interpretation event_obj: kernel_object event_inv suspend_thread
  by unfold_locales (fastforce simp: event_inv_def framed_def)

section \<open>Frames of the calls\<close>

lemma framed_sem_take:
  "rt_sem_take sem time k = Some (sem', k', r) \<Longrightarrow>
     framed {suspend_thread sem} k k' \<and> suspend_thread sem' = suspend_thread sem"
  by (auto simp: rt_sem_take_def Let_def split: if_splits Option.bind_splits
      dest!: framed_suspend_with_timeout intro: framed_trans [OF _ framed_schedule])

lemma framed_sem_release:
  "rt_sem_release sem k = Some (sem', k', e) \<Longrightarrow> framed {} k k' \<and> suspend_thread sem' = suspend_thread sem"
  by (auto simp: rt_sem_release_def split: if_splits Option.bind_splits
      intro: framed_trans [OF framed_ipc_resume framed_schedule])

lemma framed_sem_reset:
  "rt_sem_control sem RT_IPC_CMD_RESET arg k = Some (sem', k', e) \<Longrightarrow>
     framed {} k k' \<and> suspend_thread sem' = suspend_thread sem"
  by (auto simp: rt_sem_control_def Let_def split: Option.bind_splits
      intro: framed_trans [OF framed_resume_all framed_schedule])

lemma framed_mutex_lend: "mutex_lend t h k = Some (k', e) \<Longrightarrow> framed Q k k'"
  by (auto simp: mutex_lend_def split: if_splits intro: framed_change_priority)

lemma framed_mutex_restore: "mutex_restore t p k = Some (k', e) \<Longrightarrow> framed Q k k'"
  by (auto simp: mutex_restore_def split: if_splits intro: framed_change_priority)

lemma framed_mutex_take:
  "rt_mutex_take m time k = Some (m', k', r) \<Longrightarrow>
     framed {suspend_thread m} k k' \<and> suspend_thread m' = suspend_thread m"
  by (auto simp: rt_mutex_take_def Let_def split: if_splits Option.bind_splits
      dest!: framed_mutex_lend [where Q = "{suspend_thread m}"] framed_suspend_with_timeout
        framed_schedule [where Q = "{suspend_thread m}"])
    (blast intro: framed_trans)+

lemma framed_mutex_release:
  "rt_mutex_release m k = Some (m', k', e) \<Longrightarrow> framed {} k k' \<and> suspend_thread m' = suspend_thread m"
  by (auto simp: rt_mutex_release_def Let_def split: if_splits Option.bind_splits
      dest!: framed_mutex_restore [where Q = "{}"] framed_ipc_resume [where Q = "{}"] framed_schedule [where Q = "{}"])
    (blast intro: framed_trans)+

text \<open>A call that changes the event condition of a thread that waits on no other list.\<close>

lemma framed_own_condition:
  assumes "framed Q (upd_thread t f k) k'" and "\<And>q. q \<notin> Q \<Longrightarrow> t \<notin> set (tlists k (Wait q))"
  shows "framed Q k k'"
  using assms by (fastforce simp: framed_def)

lemma framed_event_recv:
  assumes k: "kernel_inv Od k" and c: "may_block k c"
    and r: "rt_event_recv ev bits opt timeout k = Some (ev', k', r)"
  shows "framed {suspend_thread ev} k k' \<and> suspend_thread ev' = suspend_thread ev"
proof -
  let ?f = "\<lambda>th. th\<lparr>error := RT_EOK, event_set := bits, event_info := opt\<rparr>"
  have cur: "rt_current_thread k = Some c" and st: "stat (threads k c) = RT_THREAD_READY"
    using c by (simp_all add: may_block_def)
  have wf: "kernel_wf Od k" using k by (simp add: kernel_inv_def)
  have e: "upd_thread c (\<lambda>th. th\<lparr>event_set := bits, event_info := opt\<rparr>) (upd_thread c (\<lambda>th. th\<lparr>error := RT_EOK\<rparr>) k) =
      upd_thread c ?f k" by (simp add: upd_thread_def)
  have block: "framed {q} k k2" if "suspend_with_timeout q c flag timeout (upd_thread c ?f k) = Some k1"
    and "rt_schedule k1 = Some k2" for q flag k1 k2
  proof (rule framed_own_condition)
    show "framed {q} (upd_thread c ?f k) k2"
      by (rule framed_trans [OF framed_suspend_with_timeout [OF that(1)] framed_schedule [OF that(2)]])
    show "c \<notin> set (tlists k (Wait q))" for q by (rule unlink_waiting(2) [OF wf st])
  qed
  have "in_thread_context k = Some x \<Longrightarrow> x = c" for x
    using cur by (auto simp: in_thread_context_def rt_thread_self_def split: option.splits Option.bind_splits)
  with r show ?thesis
    by (auto simp: rt_event_recv_def Let_def e split: if_splits Option.bind_splits intro: block simp del: upd_thread_simps)
qed

lemma framed_event_scan:
  "kernel_inv Od k \<Longrightarrow> distinct ts \<Longrightarrow> set ts \<subseteq> set (tlists k (Wait q)) \<Longrightarrow>
   event_scan ts s need k = Some (s', need', k') \<Longrightarrow> framed {q} k k'"
proof (induction ts arbitrary: s need k)
  case (Cons t ts)
  let ?th = "threads k t"
  show ?case
  proof (cases "event_status (event_info ?th) (event_set ?th) s")
    case True
    let ?f = "\<lambda>th. if event_info ?th AND RT_EVENT_FLAG_AND \<noteq> 0 then th else th\<lparr>event_set := event_set th AND s\<rparr>"
    let ?k1 = "upd_thread t ?f k"
    let ?k2 = "resume_state t ?k1"
    have t: "t \<in> set (tlists k (Wait q))" using Cons.prems(3) by simp
    have f: "thread_same ?th (?f ?th)" by simp
    note sv = event_serve [where f = ?f, OF Cons.prems(1) t f]
    have k1: "(if event_info ?th AND RT_EVENT_FLAG_AND \<noteq> 0 then k
        else upd_thread t (\<lambda>th. th\<lparr>event_set := event_set th AND s\<rparr>) k) = ?k1"
      by (simp add: upd_thread_def)
    obtain s1 where "event_scan ts s1 True ?k2 = Some (s', need', k')"
      using Cons.prems(4) True sv(1) by (simp add: Let_def k1 del: upd_thread_simps)
    then have "framed {q} ?k2 k'"
      by (rule Cons.IH [OF sv(2), rotated 2]) (use Cons.prems(2,3) sv(3) in auto)
    moreover have "framed {q} ?k1 ?k2" by (rule framed_resume [OF sv(1)])
    then have "framed {q} k ?k2"
      by (rule framed_own_condition) (use inv_disjoint [OF Cons.prems(1) t] in blast)
    ultimately show ?thesis by (rule framed_trans [rotated])
  qed (use Cons in auto)
qed simp

lemma framed_event_send:
  assumes k: "kernel_inv Od k" and r: "rt_event_send ev bits k = Some (ev', k', e)"
  shows "framed {suspend_thread ev} k k' \<and> suspend_thread ev' = suspend_thread ev"
  using r
  by (auto simp: rt_event_send_def split: if_splits Option.bind_splits
      dest!: framed_event_scan [OF k inv_distinct [OF k] subset_refl] intro: framed_trans [OF _ framed_schedule])

section \<open>The machine\<close>

record system =
  kern :: kernel
  sems :: "nat \<Rightarrow> rt_semaphore"
  mutexes :: "nat \<Rightarrow> rt_mutex"
  events :: "nat \<Rightarrow> rt_event"

text \<open>The calls: by the running thread, or (\<open>Tick\<close>, and those that cannot block) by an interrupt.\<close>

datatype sys_call =
  Tick | Yield | Sleep u32 | Exit | Create tid string u32 u32 u8 u32 | Startup tid | Delete tid
  | Resume tid | Set_Priority tid u8 | Lock | Unlock
  | Sem_Take nat u32 | Sem_Release nat | Sem_Reset nat u32
  | Mutex_Take nat u32 | Mutex_Release nat
  | Event_Send nat u32 | Event_Recv nat u32 u8 u32

fun sys_exec :: "(nat \<Rightarrow> kernel \<Rightarrow> kernel option) \<Rightarrow> sys_call \<Rightarrow> system \<Rightarrow> system option" where
  "sys_exec ucb Tick s = do { k \<leftarrow> rt_tick_increase ucb (kern s); Some (s\<lparr>kern := k\<rparr>) }"
| "sys_exec ucb Yield s = do { (k, e) \<leftarrow> rt_thread_yield (kern s); Some (s\<lparr>kern := k\<rparr>) }"
| "sys_exec ucb (Sleep tick) s = do { k \<leftarrow> rt_thread_sleep tick (kern s); Some (s\<lparr>kern := k\<rparr>) }"
| "sys_exec ucb Exit s = do { k \<leftarrow> rt_thread_exit (kern s); Some (s\<lparr>kern := k\<rparr>) }"
| "sys_exec ucb (Create t name start len prio tick) s =
     do { (k, e) \<leftarrow> rt_thread_init t name start len prio tick (kern s); Some (s\<lparr>kern := k\<rparr>) }"
| "sys_exec ucb (Startup t) s = do { (k, e) \<leftarrow> rt_thread_startup t (kern s); Some (s\<lparr>kern := k\<rparr>) }"
| "sys_exec ucb (Delete t) s = do { (k, e) \<leftarrow> rt_thread_delete t (kern s); Some (s\<lparr>kern := k\<rparr>) }"
| "sys_exec ucb (Resume t) s = do { (k, e) \<leftarrow> rt_thread_resume t (kern s); Some (s\<lparr>kern := k\<rparr>) }"
| "sys_exec ucb (Set_Priority t p) s =
     do { (k, e) \<leftarrow> rt_thread_control t RT_THREAD_CTRL_CHANGE_PRIORITY p (kern s); Some (s\<lparr>kern := k\<rparr>) }"
| "sys_exec ucb Lock s = Some (s\<lparr>kern := rt_enter_critical (kern s)\<rparr>)"
| "sys_exec ucb Unlock s = do { k \<leftarrow> rt_exit_critical (kern s); Some (s\<lparr>kern := k\<rparr>) }"
| "sys_exec ucb (Sem_Take i time) s =
     do { (o', k, r) \<leftarrow> rt_sem_take (sems s i) time (kern s); Some (s\<lparr>kern := k, sems := (sems s)(i := o')\<rparr>) }"
| "sys_exec ucb (Sem_Release i) s =
     do { (o', k, r) \<leftarrow> rt_sem_release (sems s i) (kern s); Some (s\<lparr>kern := k, sems := (sems s)(i := o')\<rparr>) }"
| "sys_exec ucb (Sem_Reset i v) s =
     do { (o', k, r) \<leftarrow> rt_sem_control (sems s i) RT_IPC_CMD_RESET v (kern s);
          Some (s\<lparr>kern := k, sems := (sems s)(i := o')\<rparr>) }"
| "sys_exec ucb (Mutex_Take i time) s =
     do { (o', k, r) \<leftarrow> rt_mutex_take (mutexes s i) time (kern s);
          Some (s\<lparr>kern := k, mutexes := (mutexes s)(i := o')\<rparr>) }"
| "sys_exec ucb (Mutex_Release i) s =
     do { (o', k, r) \<leftarrow> rt_mutex_release (mutexes s i) (kern s);
          Some (s\<lparr>kern := k, mutexes := (mutexes s)(i := o')\<rparr>) }"
| "sys_exec ucb (Event_Send i bits) s =
     do { (o', k, r) \<leftarrow> rt_event_send (events s i) bits (kern s);
          Some (s\<lparr>kern := k, events := (events s)(i := o')\<rparr>) }"
| "sys_exec ucb (Event_Recv i bits opt timeout) s =
     do { (o', k, r) \<leftarrow> rt_event_recv (events s i) bits opt timeout (kern s);
          Some (s\<lparr>kern := k, events := (events s)(i := o')\<rparr>) }"

text \<open>
  What a caller owes: it may block when it is a thread other than the idle thread, outside interrupts
  and with the scheduler unlocked; it creates threads on blocks not in use with a stack that fits,
  starts what it has created, deletes neither the idle nor the running thread, keeps to priorities
  below 32, to waiting times the timer accepts, and to 254 recursive takes of a mutex.
\<close>

definition can_block :: "kernel \<Rightarrow> bool" where
  "can_block k \<longleftrightarrow> (case rt_current_thread k of None \<Rightarrow> False
     | Some c \<Rightarrow> stat (threads k c) = RT_THREAD_READY \<and> c \<noteq> tidle) \<and>
     rt_scheduler_lock_nest k = 0 \<and> rt_interrupt_nest k = 0"

definition waiting_ok :: "u32 \<Rightarrow> kernel \<Rightarrow> bool" where
  "waiting_ok time k \<longleftrightarrow> can_block k \<and> wait_time_ok time"

fun allowed :: "sys_call \<Rightarrow> system \<Rightarrow> bool" where
  "allowed Tick s \<longleftrightarrow> True"
| "allowed Yield s \<longleftrightarrow> True"
| "allowed (Sleep tick) s \<longleftrightarrow> can_block (kern s) \<and> tick < RT_TICK_MAX div 2"
| "allowed Exit s \<longleftrightarrow> can_block (kern s)"
| "allowed (Create t name start len prio tick) s \<longleftrightarrow>
     \<not> thread_live (threads (kern s) t) \<and> t \<notin> set (tlists (kern s) Defunct) \<and> t \<noteq> tidle \<and>
     stack_fits start len \<and> unat prio < RT_THREAD_PRIORITY_MAX"
| "allowed (Startup t) s \<longleftrightarrow> thread_fresh (kern s) t"
| "allowed (Delete t) s \<longleftrightarrow>
     thread_live (threads (kern s) t) \<and> t \<noteq> tidle \<and> rt_current_thread (kern s) \<noteq> Some t"
| "allowed (Resume t) s \<longleftrightarrow> True"
| "allowed (Set_Priority t p) s \<longleftrightarrow> unat p < 32"
| "allowed Lock s \<longleftrightarrow> rt_scheduler_lock_nest (kern s) < 0x7fff"
| "allowed Unlock s \<longleftrightarrow> True"
| "allowed (Sem_Take i time) s \<longleftrightarrow> time = 0 \<or> waiting_ok time (kern s)"
| "allowed (Sem_Release i) s \<longleftrightarrow> True"
| "allowed (Sem_Reset i v) s \<longleftrightarrow> True"
| "allowed (Mutex_Take i time) s \<longleftrightarrow> waiting_ok time (kern s) \<and> mtx_hold (mutexes s i) < 255"
| "allowed (Mutex_Release i) s \<longleftrightarrow> rt_interrupt_nest (kern s) = 0"
| "allowed (Event_Send i bits) s \<longleftrightarrow> True"
| "allowed (Event_Recv i bits opt timeout) s \<longleftrightarrow> waiting_ok timeout (kern s) \<and>
     bits \<noteq> 0 \<and> (opt AND RT_EVENT_FLAG_AND \<noteq> 0 \<or> opt AND RT_EVENT_FLAG_OR \<noteq> 0)"

text \<open>The calls after which the most urgent thread runs, if it did before.\<close>

fun prompt :: "sys_call \<Rightarrow> bool" where
  "prompt (Create t name start len prio tick) = False"
| "prompt (Delete t) = False"
| "prompt (Resume t) = False"
| "prompt (Set_Priority t p) = False"
| "prompt (Mutex_Release i) = False"
| "prompt _ = True"

text \<open>The invariant: the kernel's, that of every object, and no two objects share a waiting list.\<close>

definition sys_inv :: "system \<Rightarrow> bool" where
  "sys_inv s \<longleftrightarrow> kernel_inv {} (kern s) \<and> only_thread_timers (kern s) \<and>
     sem_obj.family (sems s) (kern s) \<and> mutex_obj.family (mutexes s) (kern s) \<and>
     event_obj.family (events s) (kern s) \<and>
     (\<forall>i j. suspend_thread (sems s i) \<noteq> suspend_thread (mutexes s j) \<and>
        suspend_thread (sems s i) \<noteq> suspend_thread (events s j) \<and>
        suspend_thread (mutexes s i) \<noteq> suspend_thread (events s j))"

inductive sys_reach :: "(nat \<Rightarrow> kernel \<Rightarrow> kernel option) \<Rightarrow> system \<Rightarrow> system \<Rightarrow> bool"
  for ucb :: "nat \<Rightarrow> kernel \<Rightarrow> kernel option" and s0 :: system where
  start: "sys_reach ucb s0 s0"
| call: "sys_reach ucb s0 s \<Longrightarrow> allowed c s \<Longrightarrow> sys_exec ucb c s = Some s' \<Longrightarrow> sys_reach ucb s0 s'"

section \<open>Each call keeps the invariant\<close>

lemma sys_invD:
  assumes "sys_inv s"
  shows "kernel_inv {} (kern s)" and "only_thread_timers (kern s)" and "sem_inv (sems s i) (kern s)"
    and "mutex_inv (mutexes s i) (kern s)" and "event_inv (events s i) (kern s)"
  using assms
  by (auto simp: sys_inv_def intro: sem_obj.family_member mutex_obj.family_member event_obj.family_member)

text \<open>A call that changes no object.\<close>

lemma sys_invE:
  assumes "sys_inv s"
  shows "sem_obj.family (sems s) (kern s)" and "mutex_obj.family (mutexes s) (kern s)"
    and "event_obj.family (events s) (kern s)"
    and "suspend_thread (sems s i) \<noteq> suspend_thread (mutexes s j)"
    and "suspend_thread (sems s i) \<noteq> suspend_thread (events s j)"
    and "suspend_thread (mutexes s i) \<noteq> suspend_thread (events s j)"
  using assms by (simp_all add: sys_inv_def)

lemma sys_inv_kernel:
  assumes s: "sys_inv s" and k: "kernel_inv {} k" and fr: "framed {} (kern s) k"
  shows "sys_inv (s\<lparr>kern := k\<rparr>)"
  using s k sem_obj.family_quiet [OF sys_invE(1) [OF s] fr] mutex_obj.family_quiet [OF sys_invE(2) [OF s] fr]
    event_obj.family_quiet [OF sys_invE(3) [OF s] fr] framed_only_thread_timers [OF fr]
  by (simp add: sys_inv_def)

text \<open>A call of one object.\<close>

lemma sys_inv_sem:
  assumes s: "sys_inv s" and k: "kernel_inv {} k" and fr: "framed {suspend_thread (sems s i)} (kern s) k"
    and obj: "sem_inv obj k" "suspend_thread obj = suspend_thread (sems s i)"
  shows "sys_inv (s\<lparr>kern := k, sems := (sems s)(i := obj)\<rparr>)"
proof -
  have "mutex_obj.family (mutexes s) k"
    by (rule mutex_obj.family_frame [OF sys_invE(2) [OF s] fr]) (use sys_invE(4-6) [OF s] in simp; metis)
  moreover have "event_obj.family (events s) k"
    by (rule event_obj.family_frame [OF sys_invE(3) [OF s] fr]) (use sys_invE(4-6) [OF s] in simp; metis)
  moreover have "sem_obj.family ((sems s)(i := obj)) k"
    by (rule sem_obj.family_call [OF sys_invE(1) [OF s] fr obj])
  ultimately show ?thesis
    using s k obj(2) framed_only_thread_timers [OF fr] by (simp add: sys_inv_def)
qed

lemma sys_inv_mutex:
  assumes s: "sys_inv s" and k: "kernel_inv {} k" and fr: "framed {suspend_thread (mutexes s i)} (kern s) k"
    and obj: "mutex_inv obj k" "suspend_thread obj = suspend_thread (mutexes s i)"
  shows "sys_inv (s\<lparr>kern := k, mutexes := (mutexes s)(i := obj)\<rparr>)"
proof -
  have "sem_obj.family (sems s) k"
    by (rule sem_obj.family_frame [OF sys_invE(1) [OF s] fr]) (use sys_invE(4-6) [OF s] in simp; metis)
  moreover have "event_obj.family (events s) k"
    by (rule event_obj.family_frame [OF sys_invE(3) [OF s] fr]) (use sys_invE(4-6) [OF s] in simp; metis)
  moreover have "mutex_obj.family ((mutexes s)(i := obj)) k"
    by (rule mutex_obj.family_call [OF sys_invE(2) [OF s] fr obj])
  ultimately show ?thesis
    using s k obj(2) framed_only_thread_timers [OF fr] by (simp add: sys_inv_def)
qed

lemma sys_inv_event:
  assumes s: "sys_inv s" and k: "kernel_inv {} k" and fr: "framed {suspend_thread (events s i)} (kern s) k"
    and obj: "event_inv obj k" "suspend_thread obj = suspend_thread (events s i)"
  shows "sys_inv (s\<lparr>kern := k, events := (events s)(i := obj)\<rparr>)"
proof -
  have "sem_obj.family (sems s) k"
    by (rule sem_obj.family_frame [OF sys_invE(1) [OF s] fr]) (use sys_invE(4-6) [OF s] in simp; metis)
  moreover have "mutex_obj.family (mutexes s) k"
    by (rule mutex_obj.family_frame [OF sys_invE(2) [OF s] fr]) (use sys_invE(4-6) [OF s] in simp; metis)
  moreover have "event_obj.family ((events s)(i := obj)) k"
    by (rule event_obj.family_call [OF sys_invE(3) [OF s] fr obj])
  ultimately show ?thesis
    using s k obj(2) framed_only_thread_timers [OF fr] by (simp add: sys_inv_def)
qed

text \<open>The calls that concern threads only.\<close>

lemma can_blockE:
  assumes "can_block k"
  obtains c where "may_block k c" and "rt_current_thread k = Some c" and "rt_scheduler_lock_nest k = 0"
    and "rt_interrupt_nest k = 0"
  using assms by (auto simp: can_block_def may_block_def split: option.splits)

lemma tick_keeps:
  assumes "kernel_inv {} k" and "only_thread_timers k"
  shows "returns (rt_tick_increase ucb k) (\<lambda>k'. kernel_inv {} k' \<and> framed {} k k' \<and> (scheduled k \<longrightarrow> scheduled k'))"
  by (rule returns_mono [OF tick_exact [OF assms]]) (simp add: framed_def)

lemma yield_keeps:
  assumes "kernel_inv {} k"
  shows "returns (rt_thread_yield k) (\<lambda>(k', e). kernel_inv {} k' \<and> framed {} k k' \<and> (scheduled k \<longrightarrow> scheduled k'))"
  using rt_thread_yield_inv [OF assms] framed_yield [of k _ _ "{}"] by (auto simp: returns_iff)

lemma sleep_keeps:
  assumes k: "kernel_inv {} k" and c: "can_block k" and t: "tick < RT_TICK_MAX div 2"
  shows "returns (rt_thread_sleep tick k) (\<lambda>k'. kernel_inv {} k' \<and> framed {} k k' \<and> scheduled k')"
proof -
  obtain c where "may_block k c" using c by (rule can_blockE)
  then obtain k1 where k1: "rt_thread_sleep tick k = rt_schedule k1" "kernel_inv {} k1"
    using rt_thread_sleep_returns [OF k _ t] by blast
  obtain k' where "rt_schedule k1 = Some k'" "kernel_inv {} k'" "scheduled k'"
    by (rule release_schedule [OF k1(2)])
  with k1(1) framed_sleep [of tick k k' "{}"] show ?thesis by simp
qed

lemma exit_keeps:
  assumes k: "kernel_inv {} k" and c: "can_block k"
  shows "returns (rt_thread_exit k) (\<lambda>k'. kernel_inv {} k' \<and> framed {} k k' \<and> scheduled k')"
proof -
  obtain c where "may_block k c" using c by (rule can_blockE)
  then obtain k1 where k1: "rt_thread_exit k = rt_schedule k1" "kernel_inv {} k1"
    using rt_thread_exit_returns [OF k] by blast
  obtain k' where "rt_schedule k1 = Some k'" "kernel_inv {} k'" "scheduled k'"
    by (rule release_schedule [OF k1(2)])
  with k1(1) framed_exit [of k k' "{}"] show ?thesis by simp
qed

lemma startup_keeps:
  assumes k: "kernel_inv {} k" and f: "thread_fresh k t"
  shows "returns (rt_thread_startup t k) (\<lambda>(k', e). kernel_inv {} k' \<and> framed {} k k' \<and> scheduled k')"
proof -
  have wf: "kernel_wf {} k" and run: "running k" using k by (simp_all add: kernel_inv_def)
  have nt: "t \<noteq> tidle" using run f by (auto simp: running_def thread_fresh_def)
  obtain k1 where k1: "rt_thread_startup t k = map_option (\<lambda>k2. (k2, RT_EOK)) (rt_schedule k1)" "kernel_wf {} k1"
    "\<forall>t'. t' \<noteq> t \<longrightarrow> threads k1 t' = threads k t'" "rt_current_thread k1 = rt_current_thread k"
    using rt_thread_startup_ready [OF wf f] run by (auto simp: running_def)
  have "kernel_inv {} k1" using k1 run nt by (simp add: kernel_inv_def running_def)
  then obtain k' where "rt_schedule k1 = Some k'" "kernel_inv {} k'" "scheduled k'"
    by (rule release_schedule)
  with k1(1) framed_startup [of t k k' RT_EOK "{}"] show ?thesis by simp
qed

lemma delete_keeps:
  assumes k: "kernel_inv {} k" and t: "thread_live (threads k t)" "t \<noteq> tidle"
  shows "returns (rt_thread_delete t k) (\<lambda>(k', e). kernel_inv {} k' \<and> framed {} k k')"
proof -
  have wf: "kernel_wf {} k" and run: "running k" using k by (simp_all add: kernel_inv_def)
  note d = rt_thread_delete_returns [OF wf t(1)]
  have "running (upd_tlists (ins_head Defunct t) (closed_state t k))"
    using run t(2) by (simp add: running_def)
  with d framed_delete [OF d(1), of "{}"] show ?thesis by (simp add: kernel_inv_def)
qed

lemma resume_keeps:
  assumes k: "kernel_inv {} k"
  shows "returns (rt_thread_resume t k) (\<lambda>(k', e). kernel_inv {} k' \<and> framed {} k k')"
proof (cases "stat (threads k t) = RT_THREAD_SUSPEND")
  case True
  then show ?thesis using kernel_inv_resume [OF k True] framed_resume [of t k _ _ "{}"] by simp
qed (use k in \<open>simp add: rt_thread_resume_def\<close>)

lemma priority_keeps:
  assumes k: "kernel_inv {} k" and p: "unat p < 32"
  shows "returns (rt_thread_control t RT_THREAD_CTRL_CHANGE_PRIORITY p k) (\<lambda>(k', e). kernel_inv {} k' \<and> framed {} k k')"
proof -
  obtain k' where "rt_thread_control t RT_THREAD_CTRL_CHANGE_PRIORITY p k = Some (k', RT_EOK)" "kernel_inv {} k'"
    by (rule change_priority_inv [OF k p])
  then show ?thesis using framed_change_priority [of t p k k' RT_EOK "{}"] by simp
qed

lemma kernel_wf_lock_nest [simp]: "kernel_wf Od (k\<lparr>rt_scheduler_lock_nest := n\<rparr>) = kernel_wf Od k"
  by (rule kernel_same_wf) (simp add: kernel_same_def)

lemma unlock_keeps:
  assumes k: "kernel_inv {} k"
  shows "returns (rt_exit_critical k) (\<lambda>k'. kernel_inv {} k' \<and> framed {} k k' \<and> scheduled k')"
proof -
  let ?n = "rt_scheduler_lock_nest k - 1"
  let ?k0 = "k\<lparr>rt_scheduler_lock_nest := 0\<rparr>"
  show ?thesis
  proof (cases "sint ?n \<le> 0")
    case True
    have "kernel_inv {} ?k0" using k by (simp add: kernel_inv_def running_def)
    then obtain k' where k': "rt_schedule ?k0 = Some k'" "kernel_inv {} k'" "scheduled k'"
      by (rule release_schedule)
    have "framed {} k ?k0" by (simp add: framed_def)
    from framed_trans [OF this framed_schedule [OF k'(1)]] k' True show ?thesis
      by (simp add: rt_exit_critical_def Let_def)
  next
    case False
    then have "?n \<noteq> 0" by (intro notI) simp
    with False k show ?thesis
      by (simp add: rt_exit_critical_def Let_def kernel_inv_def running_def framed_def scheduled_def)
  qed
qed

lemma create_keeps:
  assumes k: "kernel_inv {} k" and t: "\<not> thread_live (threads k t)" "t \<notin> set (tlists k Defunct)" "t \<noteq> tidle"
    and stack: "stack_fits start len" and prio: "unat prio < RT_THREAD_PRIORITY_MAX"
  shows "returns (rt_thread_init t name start len prio tick k) (\<lambda>(k', e). kernel_inv {} k' \<and> framed {} k k')"
proof -
  let ?k = "rt_object_init (Obj_Thread t) RT_Object_Class_Thread name k"
  have wf: "kernel_wf {} k" and run: "running k" using k by (simp_all add: kernel_inv_def)
  have "t \<notin> set (tlists k h)" for h
    using t ready_wfD [OF kernel_wfD(3) [OF wf]] queues_wfD [OF kernel_wfD(6) [OF wf]]
    by (cases h) (auto simp: thread_live_def)
  then have u: "unlinked t (tlists ?k)" by (simp add: unlinked_def rt_object_init_def)
  have wf1: "kernel_wf {} ?k" using wf by (simp add: rt_object_init_def)
  have live: "\<not> thread_live (threads ?k t)" using t by (simp add: rt_object_init_def)
  obtain k' where k': "rt_thread_init0 t name start len prio tick ?k = Some (k', RT_EOK)" "kernel_wf {} k'"
    "rt_current_thread k' = rt_current_thread k" "\<forall>t'. t' \<noteq> t \<longrightarrow> threads k' t' = threads k t'"
    using rt_thread_init0_returns [OF wf1 live u stack prio, of name tick]
    by (auto simp: returns_iff rt_object_init_def)
  have "framed {} k k'"
    using k'(1) by (auto simp: rt_thread_init0_def rt_assert_def Let_def framed_def rt_timer_init_def rt_timer_init0_def
        rt_object_init_def split: if_splits)
  moreover have "kernel_inv {} k'" using k' run t(3) by (simp add: kernel_inv_def running_def)
  ultimately show ?thesis
    using k'(1) stack by (simp add: rt_thread_init_def stack_fits_def)
qed

text \<open>The calls of the objects.\<close>

lemma sem_take_keeps:
  assumes k: "kernel_inv {} k" and inv: "sem_inv sem k" and a: "time = 0 \<or> waiting_ok time k"
  shows "returns (rt_sem_take sem time k) (\<lambda>(sem', k', r). kernel_inv {} k' \<and> sem_inv sem' k' \<and> (scheduled k \<longrightarrow> scheduled k'))"
proof (cases "time = 0")
  case True
  then show ?thesis using k inv by (auto simp: rt_sem_take_def sem_inv_def)
next
  case False
  with a obtain c where c: "may_block k c" "rt_scheduler_lock_nest k = 0" "rt_interrupt_nest k = 0" "wait_time_ok time"
    by (auto simp: waiting_ok_def elim: can_blockE)
  show ?thesis by (rule returns_mono [OF sem_take_returns [OF k c(1,3,2) inv c(4)]]) (auto split: if_splits)
qed

lemma sem_release_keeps:
  assumes k: "kernel_inv {} k" and inv: "sem_inv sem k"
  shows "returns (rt_sem_release sem k) (\<lambda>(sem', k', r). kernel_inv {} k' \<and> sem_inv sem' k' \<and> (scheduled k \<longrightarrow> scheduled k'))"
  by (rule returns_mono [OF sem_release_returns [OF k inv]]) (use inv in \<open>auto simp: sem_inv_def split: list.splits\<close>)

lemma sem_reset_keeps:
  assumes k: "kernel_inv {} k" and inv: "sem_inv sem k"
  shows "returns (rt_sem_control sem RT_IPC_CMD_RESET v k) (\<lambda>(sem', k', r). kernel_inv {} k' \<and> sem_inv sem' k' \<and> scheduled k')"
  by (rule returns_mono [OF sem_reset_returns [OF k inv]]) auto

lemma mutex_take_keeps:
  assumes k: "kernel_inv {} k" and inv: "mutex_inv m k" and a: "waiting_ok time k" and h: "mtx_hold m < 255"
  shows "returns (rt_mutex_take m time k) (\<lambda>(m', k', r). kernel_inv {} k' \<and> mutex_inv m' k' \<and> (scheduled k \<longrightarrow> scheduled k'))"
proof -
  obtain c where c: "may_block k c" "rt_scheduler_lock_nest k = 0" "rt_interrupt_nest k = 0" "wait_time_ok time"
    using a by (auto simp: waiting_ok_def elim: can_blockE)
  show ?thesis by (rule returns_mono [OF mutex_take_returns [OF k c(1,3,2) inv c(4) h]]) (unfold case_prod_unfold, blast)
qed

lemma mutex_release_keeps:
  assumes k: "kernel_inv {} k" and inv: "mutex_inv m k" and nest: "rt_interrupt_nest k = 0"
  shows "returns (rt_mutex_release m k) (\<lambda>(m', k', r). kernel_inv {} k' \<and> mutex_inv m' k')"
proof -
  obtain c where "rt_current_thread k = Some c" using k by (auto simp: kernel_inv_def running_def)
  from mutex_release_returns [OF k this nest inv] show ?thesis
    by (rule returns_mono) (unfold case_prod_unfold, blast)
qed

lemma event_send_keeps:
  assumes k: "kernel_inv {} k" and inv: "event_inv ev k"
  shows "returns (rt_event_send ev bits k) (\<lambda>(ev', k', r). kernel_inv {} k' \<and> event_inv ev' k' \<and> (scheduled k \<longrightarrow> scheduled k'))"
proof (cases "bits = 0")
  case True
  then show ?thesis using k inv by (simp add: rt_event_send_def)
next
  case False
  show ?thesis by (rule returns_mono [OF event_send_returns [OF k inv False]]) (unfold case_prod_unfold, blast)
qed

lemma event_recv_keeps:
  assumes k: "kernel_inv {} k" and inv: "event_inv ev k" and a: "waiting_ok timeout k" and bits: "bits \<noteq> 0"
    and opt: "opt AND RT_EVENT_FLAG_AND \<noteq> 0 \<or> opt AND RT_EVENT_FLAG_OR \<noteq> 0"
  shows "returns (rt_event_recv ev bits opt timeout k) (\<lambda>(ev', k', r). kernel_inv {} k' \<and> event_inv ev' k' \<and>
    (scheduled k \<longrightarrow> scheduled k') \<and> framed {suspend_thread ev} k k' \<and> suspend_thread ev' = suspend_thread ev)"
proof -
  obtain c where c: "may_block k c" "rt_scheduler_lock_nest k = 0" "rt_interrupt_nest k = 0" "wait_time_ok timeout"
    using a by (auto simp: waiting_ok_def elim: can_blockE)
  obtain ev' k' r where r: "rt_event_recv ev bits opt timeout k = Some (ev', k', r)" "kernel_inv {} k'" "event_inv ev' k'"
    "scheduled k \<longrightarrow> scheduled k'"
    using event_recv_returns [OF k c(1,3,2) inv c(4) bits opt] by (auto simp: returns_iff)
  with framed_event_recv [OF k c(1) r(1)] show ?thesis by simp
qed

lemmas kernel_keeps = tick_keeps yield_keeps sleep_keeps exit_keeps startup_keeps delete_keeps resume_keeps
  priority_keeps unlock_keeps create_keeps

text \<open>Any allowed call comes back, keeps the invariant, and keeps the most urgent thread running.\<close>

lemma sys_exec_keeps:
  assumes s: "sys_inv s" and a: "allowed c s"
  shows "returns (sys_exec ucb c s) (\<lambda>s'. sys_inv s' \<and> (prompt c \<longrightarrow> scheduled (kern s) \<longrightarrow> scheduled (kern s')))"
proof -
  let ?k = "kern s"
  note k = sys_invD(1) [OF s] and only = sys_invD(2) [OF s]
  note via = sys_inv_kernel [OF s]
  show ?thesis
  proof (cases c)
    case Tick
    with tick_keeps [OF k only, of ucb] show ?thesis by (auto elim!: returns_mono intro: via)
  next
    case Yield
    with yield_keeps [OF k] show ?thesis by (auto elim!: returns_mono intro: via)
  next
    case (Sleep tick)
    with sleep_keeps [OF k, of tick] a show ?thesis by (auto elim!: returns_mono intro: via)
  next
    case Exit
    with exit_keeps [OF k] a show ?thesis by (auto elim!: returns_mono intro: via)
  next
    case (Create t name start len prio tick)
    with create_keeps [OF k, of t start len prio name tick] a show ?thesis by (auto elim!: returns_mono intro: via)
  next
    case (Startup t)
    with startup_keeps [OF k, of t] a show ?thesis by (auto elim!: returns_mono intro: via)
  next
    case (Delete t)
    with delete_keeps [OF k, of t] a show ?thesis by (auto elim!: returns_mono intro: via)
  next
    case (Resume t)
    with resume_keeps [OF k, of t] show ?thesis by (auto elim!: returns_mono intro: via)
  next
    case (Set_Priority t p)
    with priority_keeps [OF k, of p t] a show ?thesis by (auto elim!: returns_mono intro: via)
  next
    case Lock
    have "kernel_inv {} (rt_enter_critical ?k)" "framed {} ?k (rt_enter_critical ?k)"
      using k by (simp_all add: rt_enter_critical_def kernel_inv_def running_def framed_def)
    moreover have "rt_scheduler_lock_nest ?k + 1 \<noteq> 0"
    proof
      assume "rt_scheduler_lock_nest ?k + 1 = 0"
      then have "rt_scheduler_lock_nest ?k = 0xffff" by (simp add: eq_neg_iff_add_eq_0 [symmetric])
      with a Lock show False by simp
    qed
    then have "scheduled (rt_enter_critical ?k)" by (simp add: scheduled_def rt_enter_critical_def)
    ultimately show ?thesis using Lock via by simp
  next
    case Unlock
    with unlock_keeps [OF k] show ?thesis by (auto elim!: returns_mono intro: via)
  next
    case (Sem_Take i time)
    obtain o' k' r where r: "rt_sem_take (sems s i) time ?k = Some (o', k', r)" "kernel_inv {} k'" "sem_inv o' k'"
      "scheduled ?k \<longrightarrow> scheduled k'"
      using sem_take_keeps [OF k sys_invD(3) [OF s], of time i] a Sem_Take by (auto simp: returns_iff)
    with framed_sem_take [OF r(1)] sys_inv_sem [OF s r(2) _ r(3)] Sem_Take show ?thesis by simp
  next
    case (Sem_Release i)
    obtain o' k' r where r: "rt_sem_release (sems s i) ?k = Some (o', k', r)" "kernel_inv {} k'" "sem_inv o' k'"
      "scheduled ?k \<longrightarrow> scheduled k'"
      using sem_release_keeps [OF k sys_invD(3) [OF s], of i] by (auto simp: returns_iff)
    with framed_sem_release [OF r(1)] sys_inv_sem [OF s r(2) framed_mono r(3)] Sem_Release show ?thesis by simp
  next
    case (Sem_Reset i v)
    obtain o' k' r where r: "rt_sem_control (sems s i) RT_IPC_CMD_RESET v ?k = Some (o', k', r)" "kernel_inv {} k'" "sem_inv o' k'"
      "scheduled k'"
      using sem_reset_keeps [OF k sys_invD(3) [OF s], of i v] by (auto simp: returns_iff)
    with framed_sem_reset [OF r(1)] sys_inv_sem [OF s r(2) framed_mono r(3)] Sem_Reset show ?thesis by simp
  next
    case (Mutex_Take i time)
    obtain o' k' r where r: "rt_mutex_take (mutexes s i) time ?k = Some (o', k', r)" "kernel_inv {} k'" "mutex_inv o' k'"
      "scheduled ?k \<longrightarrow> scheduled k'"
      using mutex_take_keeps [OF k sys_invD(4) [OF s], of time i] a Mutex_Take by (auto simp: returns_iff)
    with framed_mutex_take [OF r(1)] sys_inv_mutex [OF s r(2) _ r(3)] Mutex_Take show ?thesis by simp
  next
    case (Mutex_Release i)
    obtain o' k' r where r: "rt_mutex_release (mutexes s i) ?k = Some (o', k', r)" "kernel_inv {} k'" "mutex_inv o' k'"
      using mutex_release_keeps [OF k sys_invD(4) [OF s], of i] a Mutex_Release by (auto simp: returns_iff)
    with framed_mutex_release [OF r(1)] sys_inv_mutex [OF s r(2) framed_mono r(3)] Mutex_Release show ?thesis by simp
  next
    case (Event_Send i bits)
    obtain o' k' r where r: "rt_event_send (events s i) bits ?k = Some (o', k', r)" "kernel_inv {} k'" "event_inv o' k'"
      "scheduled ?k \<longrightarrow> scheduled k'"
      using event_send_keeps [OF k sys_invD(5) [OF s], of i bits] by (auto simp: returns_iff)
    with framed_event_send [OF k r(1)] sys_inv_event [OF s r(2) _ r(3)] Event_Send show ?thesis by simp
  next
    case (Event_Recv i bits opt timeout)
    obtain o' k' r where r: "rt_event_recv (events s i) bits opt timeout ?k = Some (o', k', r)" "kernel_inv {} k'" "event_inv o' k'"
      "scheduled ?k \<longrightarrow> scheduled k'" "framed {suspend_thread (events s i)} ?k k'"
      "suspend_thread o' = suspend_thread (events s i)"
      using event_recv_keeps [OF k sys_invD(5) [OF s], of timeout bits opt i] a Event_Recv by (auto simp: returns_iff)
    with sys_inv_event [OF s r(2,5,3,6)] Event_Recv show ?thesis by simp
  qed
qed

lemma sys_reach_inv: "sys_reach ucb s0 s \<Longrightarrow> sys_inv s0 \<Longrightarrow> sys_inv s"
proof (induction rule: sys_reach.induct)
  case (call s c s')
  then show ?case using sys_exec_keeps [of s c ucb] by (auto simp: returns_iff)
qed

section \<open>The properties of the machine\<close>

text \<open>
  C1. Whatever calls threads and the tick interrupt make, in any order: the
  kernel invariant holds; no semaphore has a token while a thread waits for it; a free mutex has no
  waiting thread, and the owner of a mutex does not wait for it; no thread waits for events that are
  there; and a thread on a waiting list is suspended and waits for one object only.
\<close>

theorem system_safe:
  assumes "sys_inv s0" and "sys_reach ucb s0 s"
  shows "kernel_inv {} (kern s) \<and>
    (\<forall>i. 0 < sem_value (sems s i) \<longrightarrow> tlists (kern s) (Wait (suspend_thread (sems s i))) = []) \<and>
    (\<forall>i. case owner (mutexes s i) of
       None \<Rightarrow> tlists (kern s) (Wait (suspend_thread (mutexes s i))) = []
     | Some t \<Rightarrow> 0 < mtx_hold (mutexes s i) \<and> t \<notin> set (tlists (kern s) (Wait (suspend_thread (mutexes s i))))) \<and>
    (\<forall>i. \<forall>t \<in> set (tlists (kern s) (Wait (suspend_thread (events s i)))).
       \<not> event_status (event_info (threads (kern s) t)) (event_set (threads (kern s) t)) (ev_set (events s i))) \<and>
    (\<forall>q q' t. t \<in> set (tlists (kern s) (Wait q)) \<longrightarrow> stat (threads (kern s) t) = RT_THREAD_SUSPEND \<and>
       (t \<in> set (tlists (kern s) (Wait q')) \<longrightarrow> q' = q))"
proof -
  have s: "sys_inv s" by (rule sys_reach_inv [OF assms(2,1)])
  note k = sys_invD(1) [OF s]
  show ?thesis
  proof (intro conjI allI ballI impI)
    fix i
    show "tlists (kern s) (Wait (suspend_thread (sems s i))) = []" if "0 < sem_value (sems s i)"
      using sys_invD(3) [OF s, of i] that by (simp add: sem_inv_def)
    show "case owner (mutexes s i) of None \<Rightarrow> tlists (kern s) (Wait (suspend_thread (mutexes s i))) = []
      | Some t \<Rightarrow> 0 < mtx_hold (mutexes s i) \<and> t \<notin> set (tlists (kern s) (Wait (suspend_thread (mutexes s i))))"
      using sys_invD(4) [OF s, of i] by (simp add: mutex_inv_def split: option.splits)
    show "\<not> event_status (event_info (threads (kern s) t)) (event_set (threads (kern s) t)) (ev_set (events s i))"
      if "t \<in> set (tlists (kern s) (Wait (suspend_thread (events s i))))" for t
      using sys_invD(5) [OF s, of i] that by (simp add: event_inv_def)
  next
    fix q q' t assume t: "t \<in> set (tlists (kern s) (Wait q))"
    show "stat (threads (kern s) t) = RT_THREAD_SUSPEND" by (rule waiting_suspended [OF k t])
    show "q' = q" if "t \<in> set (tlists (kern s) (Wait q'))" using inv_disjoint [OF k t that] by simp
  qed (rule k)
qed

text \<open>
  C2. In every state that can be reached, every call whose caller keeps to its side
  comes back: no assertion fails and no loop runs forever, whatever the other threads have done. After
  a call that ends in a scheduling point the running thread is again the first of the most urgent ready
  threads, unless the scheduler is locked.
\<close>

theorem system_prompt:
  assumes "sys_inv s0" and "sys_reach ucb s0 s" and "allowed c s"
  shows "returns (sys_exec ucb c s) (\<lambda>s'. sys_reach ucb s0 s' \<and>
    (prompt c \<longrightarrow> scheduled (kern s) \<longrightarrow> rt_scheduler_lock_nest (kern s') = 0 \<longrightarrow>
       (\<exists>t. rt_current_thread (kern s') = Some t \<and> is_highest (kern s') t)))"
proof -
  have s: "sys_inv s" by (rule sys_reach_inv [OF assms(2,1)])
  obtain s' where s': "sys_exec ucb c s = Some s'" "prompt c \<longrightarrow> scheduled (kern s) \<longrightarrow> scheduled (kern s')"
    using sys_exec_keeps [OF s assms(3), of ucb] by (auto simp: returns_iff)
  with sys_reach.call [OF assms(2,3)] show ?thesis by (simp add: scheduled_def)
qed

section \<open>A concrete system\<close>

definition ex_system :: system where
  "ex_system = \<lparr>kern = ex_run,
     sems = (\<lambda>i. \<lparr>ipc_obj = Obj_Semaphore i, ipc_flag = RT_IPC_FLAG_FIFO, suspend_thread = 3 * i, sem_value = 0\<rparr>),
     mutexes = (\<lambda>i. \<lparr>ipc_obj = Obj_Mutex i, ipc_flag = RT_IPC_FLAG_PRIO, suspend_thread = 3 * i + 1,
       mtx_value = 1, original_priority = 0xff, mtx_hold = 0, owner = None\<rparr>),
     events = (\<lambda>i. \<lparr>ipc_obj = Obj_Event i, ipc_flag = RT_IPC_FLAG_FIFO, suspend_thread = 3 * i + 2, ev_set = 0\<rparr>)\<rparr>"

lemma ex_system_inv: "sys_inv ex_system"
proof -
  have "3 * i \<noteq> 3 * j + 1" "3 * i \<noteq> 3 * j + 2" "3 * i + 1 \<noteq> 3 * j + 2" for i j :: nat by presburger+
  then show ?thesis
    by (simp add: sys_inv_def sem_obj.family_def mutex_obj.family_def event_obj.family_def ex_system_def ex_run_inv
        inj_def sem_inv_def mutex_inv_def event_inv_def ipc_flag_ok_def only_thread_timers_def)
qed

lemma ex_system_release:
  "sys_reach quiet_callback ex_system (ex_system\<lparr>sems := (sems ex_system)(0 := (sems ex_system 0)\<lparr>sem_value := 1\<rparr>)\<rparr>)"
  by (rule sys_reach.call [OF sys_reach.start, of "Sem_Release 0"])
    (simp_all add: rt_sem_release_def ex_system_def)

lemma system_safe_witness:
  "tlists ex_run (Wait 0) = []"
proof -
  let ?s = "ex_system\<lparr>sems := (sems ex_system)(0 := (sems ex_system 0)\<lparr>sem_value := 1\<rparr>)\<rparr>"
  have "0 < sem_value (sems ?s 0) \<longrightarrow> tlists (kern ?s) (Wait (suspend_thread (sems ?s 0))) = []"
    using system_safe [OF ex_system_inv ex_system_release] by blast
  then show ?thesis by (simp add: ex_system_def)
qed

lemma system_prompt_witness:
  "returns (sys_exec quiet_callback (Sem_Take 1 5) ex_system) (\<lambda>s'.
     rt_scheduler_lock_nest (kern s') = 0 \<longrightarrow> (\<exists>t. rt_current_thread (kern s') = Some t \<and> is_highest (kern s') t))"
proof -
  have a: "allowed (Sem_Take 1 5) ex_system"
    by (simp add: waiting_ok_def can_block_def ex_system_def tidle_def wait_time_ok_def tick_half)
  have "scheduled (kern ex_system)" by (simp add: scheduled_def ex_highest ex_system_def)
  then show ?thesis
    by (intro returns_mono [OF system_prompt [OF ex_system_inv sys_reach.start a]]) simp
qed

end
