(* ===== verification/RT_Boot.thy ===== *)
theory RT_Boot
  imports RT_Idle RT_System
begin

text \<open>
  Start-up: \<^verbatim>\<open>rtthread_startup\<close> of bsp/stm32f10x/applications/startup.c from the scheduler's
  initialisation on, with the application's two threads (application.c) and the idle thread. The
  device start-up functions in front of it are not modelled. The addresses of the static stacks and
  what the allocator returns are parameters.
\<close>

section \<open>The code\<close>

definition led_thread :: tid where "led_thread = 1"

definition rt_application_init ::
  "u32 \<Rightarrow> tid option \<Rightarrow> u32 option \<Rightarrow> kernel \<Rightarrow> kernel option" where
  "rt_application_init led_stack alloc stack k =
     do { (k1, result) \<leftarrow> rt_thread_init led_thread ''led'' led_stack 512 20 5 k;
          k2 \<leftarrow> (if result = RT_EOK then do { (k2, e) \<leftarrow> rt_thread_startup led_thread k1; Some k2 } else Some k1);
          (init_thread, k3) \<leftarrow> rt_thread_create alloc stack ''init'' 2048 8 20 k2;
          (case init_thread of
             None \<Rightarrow> Some k3
           | Some t \<Rightarrow> do { (k4, e) \<leftarrow> rt_thread_startup t k3; Some k4 }) }"

definition rtthread_startup ::
  "u32 \<Rightarrow> u32 \<Rightarrow> tid option \<Rightarrow> u32 option \<Rightarrow> kernel \<Rightarrow> kernel option" where
  "rtthread_startup led_stack idle_stack alloc stack k =
     do { let k1 = rt_system_scheduler_init k;
          let k2 = rt_system_timer_init k1;
          k3 \<leftarrow> rt_application_init led_stack alloc stack k2;
          k4 \<leftarrow> rt_thread_idle_init idle_stack k3;
          rt_system_scheduler_start k4 }"

section \<open>From power-on to the first thread\<close>

text \<open>Static memory is zero: no thread has been started and no list has a member.\<close>

definition power_on :: "kernel \<Rightarrow> bool" where
  "power_on k \<longleftrightarrow> (\<forall>t. stat (threads k t) = RT_THREAD_INIT) \<and> (\<forall>h. tlists k h = []) \<and> rt_interrupt_nest k = 0"

lemma power_on_wf:
  assumes "power_on k" and k0: "k0 = rt_system_timer_init (rt_system_scheduler_init k)"
  shows "kernel_wf {} k0"
    and "tlists k0 = (\<lambda>_. [])" and "threads k0 = threads k" and "rt_current_thread k0 = None"
    and "rt_scheduler_lock_nest k0 = 0" and "rt_interrupt_nest k0 = 0"
proof -
  show T: "tlists k0 = (\<lambda>_. [])"
    using assms(1) by (auto simp: power_on_def k0 rt_system_timer_init_def rt_system_scheduler_init_def fun_eq_iff
        split: list_head.split)
  show th: "threads k0 = threads k" and "rt_current_thread k0 = None" and "rt_scheduler_lock_nest k0 = 0"
    and "rt_interrupt_nest k0 = 0"
    using assms(1) by (simp_all add: power_on_def k0 rt_system_timer_init_def rt_system_scheduler_init_def)
  have g: "rt_thread_ready_priority_group k0 = 0" "rt_timer_list k0 = []"
    by (simp_all add: k0 rt_system_timer_init_def rt_system_scheduler_init_def)
  have st: "stat (threads k0 t) = RT_THREAD_INIT" for t using assms(1) by (simp add: power_on_def th)
  show "kernel_wf {} k0"
  proof (rule kernel_wfI)
    show "wf_ltab (tlists k0)" by (simp add: wf_ltab_def T)
    show "ready_wf k0" by (simp add: ready_wf_def T st)
    show "group_wf k0" by (simp add: group_wf_def g T)
    show "attr_wf k0" by (simp add: attr_wf_def thread_live_def st)
    show "queues_wf k0" by (simp add: queues_wf_def T)
    show "timers_wf k0" by (simp add: timers_wf_def thread_timer_ok_def thread_live_def st g)
    show "tick_wf {} k0" by (simp add: tick_wf_def g)
  qed
qed

text \<open>One thread more is ready; nothing runs yet.\<close>

definition started :: "tid \<Rightarrow> u8 \<Rightarrow> kernel \<Rightarrow> kernel \<Rightarrow> bool" where
  "started t prio k k' \<longleftrightarrow> kernel_wf {} k' \<and> stat (threads k' t) = RT_THREAD_READY \<and>
     current_priority (threads k' t) = prio \<and> (\<forall>t'. t' \<noteq> t \<longrightarrow> threads k' t' = threads k t') \<and>
     tlists k' = ins_tail (Ready (unat prio)) t (tlists k) \<and> rt_current_thread k' = None \<and>
     rt_scheduler_lock_nest k' = rt_scheduler_lock_nest k \<and> rt_interrupt_nest k' = rt_interrupt_nest k"

lemma startup_nest: "rt_thread_startup t k = Some (k', e) \<Longrightarrow> rt_interrupt_nest k' = rt_interrupt_nest k"
  by (auto simp: rt_thread_startup_def rt_thread_resume_def rt_schedule_insert_thread_def rt_assert_def Let_def
      rt_timer_stop_def rt_timer_remove_def same_but_currentD dest!: rt_schedule_same split: if_splits Option.bind_splits)

lemma init0_nest: "rt_thread_init0 t name start len prio tick k = Some (k', e) \<Longrightarrow> rt_interrupt_nest k' = rt_interrupt_nest k"
  by (auto simp: rt_thread_init0_def rt_timer_init_def rt_timer_init0_def rt_object_init_def rt_assert_def Let_def
      split: if_splits)

lemma init0_startup:
  assumes k: "kernel_wf {} k" and t: "\<not> thread_live (threads k t)" "unlinked t (tlists k)" and c: "rt_current_thread k = None"
    and stack: "stack_fits start len" and prio: "unat prio < RT_THREAD_PRIORITY_MAX"
  shows "\<exists>k1 k2. rt_thread_init0 t name start len prio tick k = Some (k1, RT_EOK) \<and>
    rt_thread_startup t k1 = Some (k2, RT_EOK) \<and> started t prio k k2"
proof -
  obtain k1 where k1: "rt_thread_init0 t name start len prio tick k = Some (k1, RT_EOK)" "kernel_wf {} k1"
    "thread_fresh k1 t" "init_priority (threads k1 t) = prio" "tlists k1 = tlists k" "rt_current_thread k1 = None"
    "rt_scheduler_lock_nest k1 = rt_scheduler_lock_nest k" "\<forall>t'. t' \<noteq> t \<longrightarrow> threads k1 t' = threads k t'"
    using rt_thread_init0_returns [OF k t stack prio, of name tick] c by (auto simp: returns_iff)
  obtain k2 where k2: "rt_thread_startup t k1 = Some (k2, RT_EOK)" "kernel_wf {} k2"
    "stat (threads k2 t) = RT_THREAD_READY" "current_priority (threads k2 t) = prio"
    "\<forall>t'. t' \<noteq> t \<longrightarrow> threads k2 t' = threads k1 t'" "rt_current_thread k2 = None"
    "rt_scheduler_lock_nest k2 = rt_scheduler_lock_nest k1" "tlists k2 = ins_tail (Ready (unat prio)) t (tlists k1)"
    using rt_thread_startup_ready [OF k1(2,3)] by (auto simp: k1(4,6) simp del: ins_tail_apply)
  have "started t prio k k2"
    using k1 k2 startup_nest [OF k2(1)] init0_nest [OF k1(1)] by (simp add: started_def del: ins_tail_apply)
  with k1(1) k2(1) show ?thesis by blast
qed

lemma init_startup:
  assumes "kernel_wf {} k" and "\<not> thread_live (threads k t)" "unlinked t (tlists k)" and "rt_current_thread k = None"
    and stack: "stack_fits start len" and "unat prio < RT_THREAD_PRIORITY_MAX"
  shows "\<exists>k1 k2. rt_thread_init t name start len prio tick k = Some (k1, RT_EOK) \<and>
    rt_thread_startup t k1 = Some (k2, RT_EOK) \<and> started t prio k k2"
proof -
  let ?k = "rt_object_init (Obj_Thread t) RT_Object_Class_Thread name k"
  have o: "tlists ?k = tlists k" "threads ?k = threads k" "rt_current_thread ?k = rt_current_thread k"
    "rt_scheduler_lock_nest ?k = rt_scheduler_lock_nest k" "rt_interrupt_nest ?k = rt_interrupt_nest k"
    by (simp_all add: rt_object_init_def)
  have "kernel_wf {} ?k" using assms(1) by (simp add: rt_object_init_def)
  then have "\<exists>k1 k2. rt_thread_init0 t name start len prio tick ?k = Some (k1, RT_EOK) \<and>
    rt_thread_startup t k1 = Some (k2, RT_EOK) \<and> started t prio ?k k2"
    by (rule init0_startup) (use assms o in simp_all)
  moreover have "rt_thread_init t name start len prio tick k = rt_thread_init0 t name start len prio tick ?k"
    using stack by (simp add: rt_thread_init_def stack_fits_def)
  moreover have "started t prio ?k x = started t prio k x" for x by (simp add: started_def o)
  ultimately show ?thesis by simp
qed

lemma startedD:
  assumes "started t prio k k'"
  shows "kernel_wf {} k'" and "rt_current_thread k' = None" and "rt_interrupt_nest k' = rt_interrupt_nest k"
    and "rt_scheduler_lock_nest k' = rt_scheduler_lock_nest k"
    and "stat (threads k' t) = RT_THREAD_READY" and "current_priority (threads k' t) = prio"
    and "t' \<noteq> t \<Longrightarrow> threads k' t' = threads k t'"
    and "t' \<noteq> t \<Longrightarrow> unlinked t' (tlists k) \<Longrightarrow> unlinked t' (tlists k')"
  using assms by (auto simp: started_def unlinked_def)

text \<open>The thread that is created on the heap, when both allocations succeed; otherwise nothing starts.\<close>

lemma create_startup:
  assumes k: "kernel_wf {} k" "rt_current_thread k = None" "rt_interrupt_nest k = 0"
    and t: "\<not> thread_live (threads k t)" "unlinked t (tlists k)" and s: "stack_fits start len"
    and prio: "unat prio < RT_THREAD_PRIORITY_MAX"
  shows "\<exists>k1 k2. rt_thread_create (Some t) (Some start) name len prio tick k = Some (Some t, k1) \<and>
    rt_thread_startup t k1 = Some (k2, RT_EOK) \<and> started t prio k k2"
proof -
  let ?k = "upd_object_lists (ins_head RT_Object_Class_Thread (Obj_Thread t)) (upd_object (Obj_Thread t)
    \<lparr>obj_name = rt_strncpy name RT_NAME_MAX, obj_type = of_nat RT_Object_Class_Thread\<rparr> k)"
  have "\<exists>k1 k2. rt_thread_init0 t name start len prio tick ?k = Some (k1, RT_EOK) \<and>
    rt_thread_startup t k1 = Some (k2, RT_EOK) \<and> started t prio ?k k2"
    by (rule init0_startup) (use k t s prio in simp_all)
  moreover have "started t prio ?k x = started t prio k x" for x by (simp add: started_def)
  ultimately show ?thesis using k(3) by (auto simp: rt_thread_create_def rt_object_allocate_def)
qed

lemma create_fails:
  assumes k: "kernel_wf {} k" "rt_interrupt_nest k = 0" and none: "alloc = None \<or> stack = None"
  shows "\<exists>k'. rt_thread_create alloc stack name len prio tick k = Some (None, k') \<and> kernel_wf {} k' \<and>
    threads k' = threads k \<and> tlists k' = tlists k \<and> rt_current_thread k' = rt_current_thread k \<and>
    rt_scheduler_lock_nest k' = rt_scheduler_lock_nest k"
proof (cases alloc)
  case None
  then show ?thesis using k by (simp add: rt_thread_create_def rt_object_allocate_def)
next
  case (Some t)
  let ?k = "upd_object_lists (ins_head RT_Object_Class_Thread (Obj_Thread t)) (upd_object (Obj_Thread t)
    \<lparr>obj_name = rt_strncpy name RT_NAME_MAX, obj_type = of_nat RT_Object_Class_Thread\<rparr> k)"
  let ?k1 = "upd_object_lists (unlink (Obj_Thread t)) ?k"
  let ?k2 = "?k1\<lparr>kernel_freed := kernel_freed ?k1 @ [Block_Object (Obj_Thread t)]\<rparr>"
  have "kernel_wf {} ?k1" using k(1) by simp
  moreover have "kernel_same ?k1 ?k2" by (simp add: kernel_same_def)
  ultimately have wf: "kernel_wf {} ?k2" by (simp only: kernel_same_wf)
  have "rt_thread_create alloc stack name len prio tick k = Some (None, ?k2)"
    using Some none k(2)
    by (simp add: rt_thread_create_def rt_object_allocate_def rt_object_delete_def rt_object_is_systemobject_def
        RT_Object_Class_Thread_def Let_def)
  with wf show ?thesis by simp
qed

lemma scheduler_starts:
  assumes k: "kernel_wf {} k" and open_: "rt_scheduler_lock_nest k = 0" and idle: "stat (threads k tidle) = RT_THREAD_READY"
    and low: "stat (threads k t) = RT_THREAD_READY"
    and others: "\<And>t'. t' \<noteq> t \<Longrightarrow> stat (threads k t') = RT_THREAD_READY \<Longrightarrow> current_priority (threads k t) < current_priority (threads k t')"
  shows "\<exists>k'. rt_system_scheduler_start k = Some k' \<and> kernel_inv {} k' \<and> scheduled k' \<and> rt_current_thread k' = Some t"
proof -
  obtain p x where h: "highest_ready k = Some (p, x)" "is_highest k x"
    using highest_ready_spec [OF kernel_wfD(1) [OF k]] idle by blast
  let ?k = "k\<lparr>rt_current_thread := Some x\<rparr>"
  have "x = t"
    using h(2) low others [of x] by (auto simp: is_highest_def not_less [symmetric])
  moreover have "kernel_wf {} ?k"
    using k by (subst kernel_same_wf [of k]) (simp_all add: kernel_same_def)
  moreover have "is_highest ?k x" using h(2) by (simp add: is_highest_def)
  ultimately show ?thesis
    using h(1) idle open_ by (simp add: rt_system_scheduler_start_def kernel_inv_def running_def scheduled_def)
qed

text \<open>The application's threads: the LED thread, and the one on the heap if there is room.\<close>

lemma application_starts:
  assumes k: "kernel_wf {} k" "tlists k = (\<lambda>_. [])" "rt_current_thread k = None" "rt_scheduler_lock_nest k = 0"
    "rt_interrupt_nest k = 0" and st: "\<And>t. \<not> thread_live (threads k t)" and led: "stack_fits led_stack 512"
    and heap: "\<And>t start. alloc = Some t \<Longrightarrow> stack = Some start \<Longrightarrow> t \<noteq> tidle \<and> t \<noteq> led_thread \<and> stack_fits start 2048"
  shows "\<exists>k2 k3. rt_application_init led_stack alloc stack k = Some k3 \<and> started led_thread 20 k k2 \<and>
    kernel_wf {} k3 \<and> rt_current_thread k3 = None \<and> rt_scheduler_lock_nest k3 = 0 \<and>
    threads k3 tidle = threads k tidle \<and> unlinked tidle (tlists k3) \<and>
    (case (alloc, stack) of (Some t, Some start) \<Rightarrow> started t 8 k2 k3 | _ \<Rightarrow> threads k3 = threads k2)"
proof -
  have nt: "led_thread \<noteq> tidle" by (simp add: led_thread_def tidle_def)
  have u: "unlinked t (tlists k)" for t by (simp add: unlinked_def k(2))
  obtain k1 k2 where k2: "rt_thread_init led_thread ''led'' led_stack 512 20 5 k = Some (k1, RT_EOK)"
    "rt_thread_startup led_thread k1 = Some (k2, RT_EOK)" "started led_thread 20 k k2"
    using init_startup [OF k(1) st u k(3) led, where t = led_thread and prio = 20 and name = "''led''" and tick = 5] by (auto simp: RT_THREAD_PRIORITY_MAX_def)
  note s2 = startedD [OF k2(3)]
  show ?thesis
  proof (cases "alloc = None \<or> stack = None")
    case True
    obtain k3 where k3: "rt_thread_create alloc stack ''init'' 2048 8 20 k2 = Some (None, k3)" "kernel_wf {} k3"
      "threads k3 = threads k2" "tlists k3 = tlists k2" "rt_current_thread k3 = None" "rt_scheduler_lock_nest k3 = 0"
      using create_fails [OF s2(1) _ True, of "''init''" 2048 8 20] s2(2-4) k(4,5) by auto
    have "rt_application_init led_stack alloc stack k = Some k3" by (simp add: rt_application_init_def k2 k3(1))
    moreover have "case (alloc, stack) of (Some t, Some start) \<Rightarrow> started t 8 k2 k3 | _ \<Rightarrow> threads k3 = threads k2"
      using True k3(3) by (auto split: option.split)
    ultimately show ?thesis
      using k2(3) k3 s2(7,8) nt u by (intro exI [of _ k2] exI [of _ k3]) auto
  next
    case False
    then obtain t start where as: "alloc = Some t" "stack = Some start" by auto
    note h = heap [OF as]
    have "threads k2 t = threads k t" "unlinked t (tlists k2)" using s2(7,8) h u by simp_all
    then obtain k3 k4 where k4: "rt_thread_create alloc stack ''init'' 2048 8 20 k2 = Some (Some t, k3)"
      "rt_thread_startup t k3 = Some (k4, RT_EOK)" "started t 8 k2 k4"
      using create_startup [OF s2(1,2), of t start 2048 8 "''init''" 20] h s2(3) k(5) st [of t] as
      by (auto simp: RT_THREAD_PRIORITY_MAX_def)
    note s4 = startedD [OF k4(3)]
    have "rt_application_init led_stack alloc stack k = Some k4" by (simp add: rt_application_init_def k2 k4(1,2))
    then show ?thesis
      using k2(3) k4(3) s4 s2 nt h u k(4) as by (intro exI [of _ k2] exI [of _ k4]) simp
  qed
qed

text \<open>
  C3. From power-on, with stacks that fit, the start-up code comes back to no failed
  assertion: it leaves the kernel invariant established, the idle thread ready, and the processor with
  the most urgent of the threads -- the thread \<^verbatim>\<open>init\<close> when the allocator had room for it and for its
  stack, the LED thread otherwise.
\<close>

theorem boot_correct:
  assumes k: "power_on k" and led: "stack_fits led_stack 512" and idle: "stack_fits idle_stack 256"
    and heap: "\<And>t start. alloc = Some t \<Longrightarrow> stack = Some start \<Longrightarrow>
      t \<noteq> tidle \<and> t \<noteq> led_thread \<and> stack_fits start 2048"
  shows "returns (rtthread_startup led_stack idle_stack alloc stack k) (\<lambda>k'. kernel_inv {} k' \<and> scheduled k' \<and>
    rt_current_thread k' = Some (case (alloc, stack) of (Some t, Some start) \<Rightarrow> t | _ \<Rightarrow> led_thread))"
proof -
  have nt: "led_thread \<noteq> tidle" by (simp add: led_thread_def tidle_def)
  have st: "\<not> thread_live (threads k t)" for t using k by (simp add: power_on_def thread_live_def)
  obtain k0 where k0: "k0 = rt_system_timer_init (rt_system_scheduler_init k)" by simp
  note p = power_on_wf [OF k k0]
  obtain k2 k3 where app: "rt_application_init led_stack alloc stack k0 = Some k3" "started led_thread 20 k0 k2"
    and wf3: "kernel_wf {} k3" and c3: "rt_current_thread k3 = None" and n3: "rt_scheduler_lock_nest k3 = 0"
    and idle3: "threads k3 tidle = threads k tidle" "unlinked tidle (tlists k3)"
    and run: "case (alloc, stack) of (Some t, Some start) \<Rightarrow> started t 8 k2 k3 | _ \<Rightarrow> threads k3 = threads k2"
    using application_starts [OF p(1,2,4-6) _ led heap] st by (simp add: p(3)) blast
  note s2 = startedD [OF app(2)]
  obtain k4 k5 where k5: "rt_thread_init tidle ''tidle'' idle_stack 256 31 32 k3 = Some (k4, RT_EOK)"
    "rt_thread_startup tidle k4 = Some (k5, RT_EOK)" "started tidle 31 k3 k5"
    using init_startup [OF wf3 _ idle3(2) c3 idle, of 31 "''tidle''" 32] st [of tidle] idle3(1)
    by (auto simp: RT_THREAD_PRIORITY_MAX_def)
  note s5 = startedD [OF k5(3)]
  let ?first = "case (alloc, stack) of (Some t, Some start) \<Rightarrow> t | _ \<Rightarrow> led_thread"
  have hl: "alloc = Some t \<Longrightarrow> stack = Some start \<Longrightarrow> t \<noteq> tidle \<and> led_thread \<noteq> t" for t start using heap by blast
  have led5: "threads k3 led_thread = threads k2 led_thread" and other: "t' \<noteq> led_thread \<Longrightarrow> t' \<noteq> ?first \<Longrightarrow> threads k3 t' = threads k t'" for t'
    using run hl s2(7) by (auto simp: p(3) startedD(7) split: option.splits)
  have first: "?first \<noteq> tidle" "stat (threads k3 ?first) = RT_THREAD_READY" "current_priority (threads k3 ?first) \<le> 20"
    "?first \<noteq> led_thread \<Longrightarrow> current_priority (threads k3 ?first) < 20"
    using run hl s2(5,6) nt by (auto simp: startedD(5,6) split: option.splits)
  have "\<exists>k'. rt_system_scheduler_start k5 = Some k' \<and> kernel_inv {} k' \<and> scheduled k' \<and> rt_current_thread k' = Some ?first"
  proof (rule scheduler_starts [OF s5(1)])
    show "rt_scheduler_lock_nest k5 = 0" by (simp add: s5(4) n3)
    show "stat (threads k5 tidle) = RT_THREAD_READY" by (rule s5(5))
    show "stat (threads k5 ?first) = RT_THREAD_READY" using first by (simp add: s5(7))
    fix t' assume t': "t' \<noteq> ?first" "stat (threads k5 t') = RT_THREAD_READY"
    show "current_priority (threads k5 ?first) < current_priority (threads k5 t')"
    proof (cases "t' = tidle")
      case True
      have "current_priority (threads k3 ?first) < 31" using first(3) by (rule order.strict_trans1) simp
      with True show ?thesis using first(1) by (simp add: s5(6,7))
    next
      case False
      have "stat (threads k t') = RT_THREAD_INIT" using k by (simp add: power_on_def)
      then have "t' = led_thread" using t' other [of t'] False by (cases "t' = led_thread") (simp_all add: s5(7))
      with t' first False nt s2(6) led5 show ?thesis by (simp add: s5(7))
    qed
  qed
  then show ?thesis
    using k0 app(1) k5 by (auto simp: rtthread_startup_def rt_thread_idle_init_def IDLE_THREAD_STACK_SIZE_def
        RT_THREAD_PRIORITY_MAX_def)
qed

lemma boot_correct_witness:
  "returns (rtthread_startup 0x20001000 0x20002000 (Some 7) (Some 0x20003000)
      (ex_run\<lparr>tlists := \<lambda>_. [], threads := \<lambda>_. ex_thread RT_THREAD_INIT 25\<rparr>))
    (\<lambda>k'. kernel_inv {} k' \<and> rt_current_thread k' = Some 7)"
  by (rule returns_mono [OF boot_correct])
    (auto simp: power_on_def stack_fits_def tidle_def led_thread_def ex_run_def)

end
