(* ===== verification/RT_Core.thy ===== *)
theory RT_Core
  imports RT_Boot
begin

text \<open>
  What the kernel's building blocks promise to the rest: the pointer lists behave as lists, the bit
  search finds the least bit, starting a timer keeps the timer list in order and stopping it undoes
  that, and a named object is found under its name.
\<close>

text \<open>
  C33. The circular, doubly linked lists of rtservice.h: when the pointers represent
  a table of lists, inserting after and before a list head or an element, removing, and the emptiness
  test do what they say on those lists -- including an element that is alone on its list, one that is
  on none, and the last of a list -- and disturb no other list.
\<close>

theorem list_ops_refine:
  assumes "rep L T" and "unlinked n T" and "m \<in> set (T h)"
  shows "rep (rt_list_insert_after (Head h) (Item n) L) (ins_head h n T) \<and>
    rep (rt_list_insert_before (Head h) (Item n) L) (ins_tail h n T) \<and>
    rep (rt_list_insert_before (Item m) (Item n) L) (T(h := before_item m n (T h))) \<and>
    rep (rt_list_insert_after (Item m) (Item n) L) (T(h := after_item m n (T h))) \<and>
    rep (rt_list_remove (Item m) L) (unlink m T) \<and> rep (rt_list_remove (Item n) L) T \<and>
    (rt_list_isempty (Head g) L \<longleftrightarrow> T g = [])"
  using assms rep_remove [OF assms(1), of n]
  by (simp add: rep_insert_after_head rep_insert_before_head rep_insert_before_item rep_insert_after_item
      rep_remove rep_isempty unlink_unlinked del: unlink_apply)

text \<open>The pointers of one list with the elements 1 and 2; every other node points to itself.\<close>

definition ex_links :: "(nat, nat) links" where
  "ex_links = \<lparr>lnext = (\<lambda>x. x)(Head 0 := Item 1, Item 1 := Item 2, Item 2 := Head 0),
     lprev = (\<lambda>x. x)(Head 0 := Item 2, Item 2 := Item 1, Item 1 := Head 0)\<rparr>"

lemma ex_links_rep: "rep ex_links ((\<lambda>_. [])(0 := [1, 2]))"
  by (auto simp: rep_def wf_ltab_def ex_links_def unlinked_def dest: spec [of _ 0] split: if_splits)

lemma list_ops_refine_witness:
  "rep (rt_list_insert_before (Item 2) (Item 5) ex_links) ((\<lambda>_. [])(0 := [1, 5, 2]))"
proof -
  have "rep (rt_list_insert_before (Item 2) (Item 5) ex_links)
      (((\<lambda>_. [])(0 := [1, 2]))(0 := before_item 2 5 (((\<lambda>_. [])(0 := [1, 2])) 0)))"
    using list_ops_refine [OF ex_links_rep, of 5 2 0] by (simp add: unlinked_def)
  then show ?thesis by simp
qed

text \<open>
  C34. The table-driven search of \<^verbatim>\<open>__rt_ffs\<close> returns the position of the least
  significant set bit, counted from 1, and 0 for the zero word, for all \<open>2\<^sup>3\<^sup>2\<close> words.
\<close>

theorem ffs_is_least: "rt_ffs w = (if w = 0 then 0 else Suc (LEAST n. bit w n))"
proof (cases "w = 0")
  case False
  note l = rt_ffs_lowest [OF False]
  have "(LEAST n. bit w n) = rt_ffs w - 1"
    using l by (intro Least_equality) (auto simp: is_lowest_bit_def not_less [symmetric])
  with l False show ?thesis by simp
qed (simp add: rt_ffs_def)

text \<open>
  Starting a timer that is not active puts it on the timer list behind every
  timer that is due no later and in front of the others, so that the list stays in the order of due
  times although the tick wraps around; stopping it then gives back exactly the list from before, with
  the timer inactive.
\<close>

theorem timer_start_stop:
  assumes "kernel_wf Od k" and "\<not> timer_activated (timers k m)" and "timer_may_start m k"
  shows "returns (rt_timer_start m k) (\<lambda>(k1, e). e = RT_EOK \<and> kernel_wf Od k1 \<and>
    timeout_tick (timers k1 m) = rt_tick k + tm_init_tick (timers k m) \<and>
    sorted (map (tick_dist k1) (rt_timer_list k1)) \<and>
    rt_timer_list k1 = takeWhile (\<lambda>x. tick_dist k1 x \<le> tick_dist k1 m) (rt_timer_list k) @ m #
      dropWhile (\<lambda>x. tick_dist k1 x \<le> tick_dist k1 m) (rt_timer_list k) \<and>
    (case rt_timer_stop m k1 of (k2, e2) \<Rightarrow> e2 = RT_EOK \<and> kernel_wf Od k2 \<and>
      rt_timer_list k2 = rt_timer_list k \<and> \<not> timer_activated (timers k2 m)))"
proof -
  let ?k = "start_timer m k"
  have wf: "timers_wf k" "tick_wf Od k" using assms(1) by (simp_all add: kernel_wfD)
  have d: "distinct (rt_timer_list k)" "m \<notin> set (rt_timer_list k)"
    using wf(1) assms(2) by (auto simp: timers_wf_def)
  have init: "tm_init_tick (timers k m) < RT_TICK_MAX div 2" using assms(3) by (simp add: timer_may_start_def)
  have s: "rt_timer_start m k = Some (?k, RT_EOK)" and w: "kernel_wf Od ?k"
    using kernel_wf_timer_start [OF assms] by (auto simp: returns_iff)
  note l = start_timer_list [OF wf(2) d init]
  have "removeAll m (rt_timer_list ?k) = rt_timer_list k"
  proof -
    have "removeAll m (A @ m # B) = xs" if "A @ B = xs" "m \<notin> set xs" for A B xs
      using that by (auto simp: removeAll_id)
    from this [OF takeWhile_dropWhile_id d(2)] show ?thesis by (subst l)
  qed
  moreover have "sorted (map (tick_dist ?k) (rt_timer_list ?k))" using kernel_wfD(8) [OF w] by (simp add: tick_wf_def)
  moreover have "kernel_wf Od (fst (rt_timer_stop m ?k))" by (rule kernel_wf_timer_stop [OF w])
  ultimately show ?thesis using w l by (simp add: s rt_timer_stop_def)
qed

lemma timer_start_stop_witness:
  "returns (rt_timer_start (App_Timer 0) ex_wait) (\<lambda>(k1, e).
     rt_timer_list (fst (rt_timer_stop (App_Timer 0) k1)) = [Thread_Timer 2])"
proof -
  have "kernel_wf {} ex_wait" using ex_wait_inv [of "{}"] by (simp add: kernel_inv_def)
  moreover have "timer_may_start (App_Timer 0) ex_wait"
    by (simp add: timer_may_start_def) (simp add: ex_timer_def tick_half)
  ultimately show ?thesis
    by (intro returns_mono [OF timer_start_stop]) (auto split: prod.splits)
qed

text \<open>
  An object that has just been initialised under a name is what
  \<^verbatim>\<open>rt_object_find\<close> returns for every name that agrees with it in the first 8 characters (the field is
  not terminated when it is full), even if older objects of the class have the same name; the search
  locks and unlocks the scheduler and leaves the kernel well formed.
\<close>

theorem object_find_latest:
  assumes k: "kernel_inv {} k" and nest: "rt_interrupt_nest k = 0" and cls: "cls < RT_Object_Class_Unknown"
    and name: "take 8 (takeWhile (\<lambda>c. c \<noteq> CHR 0x00) name') = take 8 (takeWhile (\<lambda>c. c \<noteq> CHR 0x00) name)"
  shows "returns (rt_object_find name' (of_nat cls) (rt_object_init ob cls name k)) (\<lambda>(r, k').
    r = Some ob \<and> kernel_inv {} k')"
proof -
  let ?k = "rt_object_init ob cls name k"
  let ?k1 = "rt_enter_critical ?k"
  have "kernel_inv {} ?k1"
    using k by (simp add: kernel_inv_def running_def rt_enter_critical_def rt_object_init_def)
  from unlock_keeps [OF this] obtain k2 where k2: "rt_exit_critical ?k1 = Some k2" "kernel_inv {} k2"
    by (auto simp: returns_iff)
  have c: "cls < 9" using cls by (simp add: RT_Object_Class_Unknown_def)
  then have "unat (of_nat cls :: u8) = cls" by (simp add: unsigned_of_nat take_bit_nat_eq_self)
  moreover have "rt_strncmp_eq (rt_strncpy name RT_NAME_MAX) name' RT_NAME_MAX"
    using name by (simp add: rt_strncmp_strncpy RT_NAME_MAX_def)
  then have "find_named (objects ?k1) name' (object_lists ?k1 cls) = Some ob"
    by (simp add: rt_enter_critical_def rt_object_init_def)
  ultimately show ?thesis
    using k2 c nest by (simp add: rt_object_find_def RT_Object_Class_Unknown_def Let_def)
      (simp add: rt_enter_critical_def rt_object_init_def)
qed

lemma object_find_latest_witness:
  "returns (rt_object_find ''heap_semaphore'' 1 (rt_object_init (Obj_Semaphore 3) 1 ''heap_sem'' ex_run)) (\<lambda>(r, k').
     r = Some (Obj_Semaphore 3))"
proof -
  have "returns (rt_object_find ''heap_semaphore'' (of_nat 1) (rt_object_init (Obj_Semaphore 3) 1 ''heap_sem'' ex_run)) (\<lambda>(r, k').
     r = Some (Obj_Semaphore 3))"
    by (rule returns_mono [OF object_find_latest [OF ex_run_inv]]) (auto simp: RT_Object_Class_Unknown_def)
  then show ?thesis by simp
qed

end
