(* ===== verification/RT_Interfaces.thy ===== *)
theory RT_Interfaces
  imports RT_Prelude
begin

text \<open>
  Two contracts that several components of the kernel provide, and what a client gets from each.

  \<open>fifo\<close>: a bounded queue with a non-blocking put and a non-blocking get. Mailboxes, message queues
  and the character interface of the driver ring buffer provide it, each in its own theory.
  \<open>block_pool\<close>: an allocator that hands out blocks and takes them back. The memory pools and the
  heap provide it. The client's lemmas are about whole sequences of calls; they are proved once here.
\<close>

section \<open>Bounded queues\<close>

datatype 'a fifo_op = Put 'a | Get

text \<open>A sequence of calls, with the items that were accepted and the items that came out, in order.\<close>

fun fifo_run ::
  "('a \<Rightarrow> 's \<Rightarrow> ('s \<times> bool) option) \<Rightarrow> ('s \<Rightarrow> ('s \<times> 'a option) option) \<Rightarrow> 'a fifo_op list \<Rightarrow> 's \<Rightarrow>
    ('s \<times> 'a list \<times> 'a list) option" where
  "fifo_run put get [] s = Some (s, [], [])"
| "fifo_run put get (Put a # ops) s =
     do { (s1, ok) \<leftarrow> put a s;
          (s2, ins, outs) \<leftarrow> fifo_run put get ops s1;
          Some (s2, (if ok then a # ins else ins), outs) }"
| "fifo_run put get (Get # ops) s =
     do { (s1, r) \<leftarrow> get s;
          (s2, ins, outs) \<leftarrow> fifo_run put get ops s1;
          Some (s2, ins, case r of None \<Rightarrow> outs | Some a \<Rightarrow> a # outs) }"

fun fifo_puts :: "'a fifo_op list \<Rightarrow> 'a set" where
  "fifo_puts [] = {}"
| "fifo_puts (Put a # ops) = insert a (fifo_puts ops)"
| "fifo_puts (Get # ops) = fifo_puts ops"

locale fifo =
  fixes rep :: "'s \<Rightarrow> 'a list \<Rightarrow> bool"
    and capacity :: "'s \<Rightarrow> nat"
    and fits :: "'s \<Rightarrow> 'a \<Rightarrow> bool"
    and put :: "'a \<Rightarrow> 's \<Rightarrow> ('s \<times> bool) option"
    and get :: "'s \<Rightarrow> ('s \<times> 'a option) option"
  assumes bounded: "rep s xs \<Longrightarrow> length xs \<le> capacity s"
    and put_law: "rep s xs \<Longrightarrow> fits s a \<Longrightarrow>
      returns (put a s) (\<lambda>(s', ok). ok = (length xs < capacity s) \<and> rep s' (if ok then xs @ [a] else xs) \<and>
        capacity s' = capacity s \<and> fits s' = fits s)"
    and get_law: "rep s xs \<Longrightarrow>
      returns (get s) (\<lambda>(s', r). r = (case xs of [] \<Rightarrow> None | x # _ \<Rightarrow> Some x) \<and> rep s' (tl xs) \<and>
        capacity s' = capacity s \<and> fits s' = fits s)"
begin

text \<open>What comes out, followed by what is still inside, is what was inside followed by what went in.\<close>

lemma run_in_order:
  assumes "rep s xs" and "\<forall>a \<in> fifo_puts ops. fits s a"
  shows "returns (fifo_run put get ops s) (\<lambda>(s', ins, outs).
    \<exists>ys. rep s' ys \<and> xs @ ins = outs @ ys \<and> capacity s' = capacity s)"
  using assms
proof (induction ops arbitrary: s xs rule: fifo_puts.induct)
  case (2 a ops)
  obtain s1 ok where p: "put a s = Some (s1, ok)" "rep s1 (if ok then xs @ [a] else xs)"
    "capacity s1 = capacity s" "fits s1 = fits s"
    using put_law [OF 2(2), of a] 2(3) by (auto simp: returns_iff)
  show ?case
    using 2(1) [OF p(2)] 2(3) p by (auto elim!: returns_mono split: if_splits)
next
  case (3 ops)
  obtain s1 r where p: "get s = Some (s1, r)" "r = (case xs of [] \<Rightarrow> None | x # _ \<Rightarrow> Some x)" "rep s1 (tl xs)"
    "capacity s1 = capacity s" "fits s1 = fits s"
    using get_law [OF 3(2)] by (auto simp: returns_iff)
  show ?case
    using 3(1) [OF p(3)] 3(3) p by (cases xs) (auto elim!: returns_mono)
qed simp

text \<open>As many puts as the queue has room for are accepted, and come out unchanged.\<close>

lemma fill_and_drain:
  assumes "rep s []" and "length as \<le> capacity s" and "\<forall>a \<in> set as. fits s a"
  shows "returns (fifo_run put get (map Put as) s) (\<lambda>(s', ins, outs). ins = as \<and> rep s' as)"
proof -
  have "returns (fifo_run put get (map Put as) s) (\<lambda>(s', ins, outs). ins = as \<and> rep s' (xs @ as))"
    if "rep s xs" "length xs + length as \<le> capacity s" "\<forall>a \<in> set as. fits s a" for s xs as
    using that
  proof (induction as arbitrary: s xs)
    case (Cons a as)
    obtain s1 where p: "put a s = Some (s1, True)" "rep s1 (xs @ [a])" "capacity s1 = capacity s" "fits s1 = fits s"
      using put_law [OF Cons(2), of a] Cons(3,4) by (auto simp: returns_iff)
    show ?case using Cons(1) [OF p(2)] Cons(3,4) p by (auto elim!: returns_mono)
  qed simp
  from this [OF assms(1)] assms(2,3) show ?thesis by simp
qed

end

section \<open>Block allocators\<close>

datatype 'q pool_op = Alloc 'q | Free nat

text \<open>
  A sequence of calls by clients that give back only what they hold: \<open>Free i\<close> gives back the
  \<open>i\<close>-th block held (nothing when there is none).
\<close>

fun pool_run ::
  "('q \<Rightarrow> 's \<Rightarrow> ('s \<times> 'b option) option) \<Rightarrow> ('b \<Rightarrow> 's \<Rightarrow> 's option) \<Rightarrow> 'q pool_op list \<Rightarrow> 's \<Rightarrow> 'b list \<Rightarrow>
    ('s \<times> 'b list) option" where
  "pool_run alloc free [] s held = Some (s, held)"
| "pool_run alloc free (Alloc q # ops) s held =
     do { (s1, r) \<leftarrow> alloc q s;
          pool_run alloc free ops s1 (case r of None \<Rightarrow> held | Some b \<Rightarrow> b # held) }"
| "pool_run alloc free (Free i # ops) s held =
     (if i < length held then
        do { s1 \<leftarrow> free (held ! i) s;
             pool_run alloc free ops s1 (take i held @ drop (Suc i) held) }
      else pool_run alloc free ops s held)"

text \<open>
  \<open>holds s B\<close>: the blocks handed out and not given back are \<open>B\<close>. \<open>apart\<close> says that two blocks do
  not overlap; the requests a client may make are \<open>asks\<close>.
\<close>

locale block_pool =
  fixes holds :: "'s \<Rightarrow> 'b set \<Rightarrow> bool"
    and apart :: "'b \<Rightarrow> 'b \<Rightarrow> bool"
    and asks :: "'q \<Rightarrow> bool"
    and alloc :: "'q \<Rightarrow> 's \<Rightarrow> ('s \<times> 'b option) option"
    and free :: "'b \<Rightarrow> 's \<Rightarrow> 's option"
  assumes alloc_law: "holds s B \<Longrightarrow> asks q \<Longrightarrow>
      returns (alloc q s) (\<lambda>(s', r). case r of None \<Rightarrow> holds s' B | Some b \<Rightarrow> b \<notin> B \<and> holds s' (insert b B))"
    and free_law: "holds s B \<Longrightarrow> b \<in> B \<Longrightarrow> returns (free b s) (\<lambda>s'. holds s' (B - {b}))"
    and holds_apart: "holds s B \<Longrightarrow> b \<in> B \<Longrightarrow> c \<in> B \<Longrightarrow> b \<noteq> c \<Longrightarrow> apart b c"
begin

lemma run_holds:
  assumes "holds s (set held)" and "distinct held" and "\<forall>q. Alloc q \<in> set ops \<longrightarrow> asks q"
  shows "returns (pool_run alloc free ops s held) (\<lambda>(s', held'). distinct held' \<and> holds s' (set held'))"
  using assms
proof (induction ops arbitrary: s held)
  case (Cons p ops)
  show ?case
  proof (cases p)
    case (Alloc q)
    obtain s1 r where a: "alloc q s = Some (s1, r)"
      "case r of None \<Rightarrow> holds s1 (set held) | Some b \<Rightarrow> b \<notin> set held \<and> holds s1 (insert b (set held))"
      using alloc_law [OF Cons(2), of q] Cons(4) Alloc by (auto simp: returns_iff)
    show ?thesis using Cons(1) [of s1] Cons(3,4) a Alloc by (cases r) auto
  next
    case (Free i)
    show ?thesis
    proof (cases "i < length held")
      case True
      note d = drop_nth [OF True Cons(3)]
      obtain s1 where f: "free (held ! i) s = Some s1" "holds s1 (set held - {held ! i})"
        using free_law [OF Cons(2), of "held ! i"] True by (auto simp: returns_iff)
      show ?thesis using Cons(1) [of s1 "take i held @ drop (Suc i) held"] Cons(4) d f True Free by simp
    qed (use Cons Free in simp)
  qed
qed simp

text \<open>Two blocks held at the same time never overlap, whatever was allocated and given back before.\<close>

lemma run_apart:
  assumes "holds s {}" and "\<forall>q. Alloc q \<in> set ops \<longrightarrow> asks q"
  shows "returns (pool_run alloc free ops s []) (\<lambda>(s', held). distinct held \<and>
    (\<forall>b \<in> set held. \<forall>c \<in> set held. b \<noteq> c \<longrightarrow> apart b c))"
  using run_holds [of s "[]" ops] assms by (auto elim!: returns_mono dest: holds_apart)

end

end
