(* ===== verification/RT_Ring.thy ===== *)
theory RT_Ring
  imports RT_Interfaces
begin

text \<open>
  What a ring holds: \<open>n\<close> cells from the cell \<open>out\<close> on, around the end of the array. Mailboxes, the
  driver ring buffer and the data queues are rings; the lemmas on putting and taking one item or a
  block of items are shared.
\<close>

definition ring_contents :: "'a list \<Rightarrow> nat \<Rightarrow> nat \<Rightarrow> 'a list" where
  "ring_contents pool out n = map (\<lambda>i. pool ! ((out + i) mod length pool)) [0..<n]"

lemma length_ring_contents [simp]: "length (ring_contents pool out n) = n"
  by (simp add: ring_contents_def)

lemma ring_contents_0 [simp]: "ring_contents pool out 0 = []"
  by (simp add: ring_contents_def)

lemma ring_index_neq:
  assumes "j < n" and "n < (l :: nat)"
  shows "(out + j) mod l \<noteq> (out + n) mod l"
proof
  assume "(out + j) mod l = (out + n) mod l"
  then have "l dvd (out + n) - (out + j)" using assms(1) by (metis add_le_cancel_left less_imp_le mod_eq_dvd_iff_nat)
  then have "l dvd n - j" by simp
  moreover have "0 < n - j" "n - j < l" using assms by simp_all
  ultimately show False by (meson nat_dvd_not_less)
qed

lemma ring_put:
  assumes "n < length pool" and "i = (out + n) mod length pool"
  shows "ring_contents (pool[i := v]) out (Suc n) = ring_contents pool out n @ [v]"
proof -
  have "i < length pool" unfolding assms(2) by (rule mod_less_divisor) (use assms(1) in auto)
  moreover have "pool[i := v] ! ((out + j) mod length pool) = pool ! ((out + j) mod length pool)" if "j < n" for j
    using ring_index_neq [OF that assms(1), of out] assms(2) by (metis nth_list_update_neq)
  ultimately show ?thesis using assms(2) by (simp add: ring_contents_def)
qed

lemma ring_get:
  assumes "0 < n" and "out < length pool"
  shows "ring_contents pool out n = pool ! out # ring_contents pool ((out + 1) mod length pool) (n - 1)"
proof -
  have "(out + Suc i) mod length pool = ((out + 1) mod length pool + i) mod length pool" for i
    by (simp add: mod_simps)
  moreover have "[0..<n] = 0 # map Suc [0..<n - 1]" using assms(1) by (simp add: map_Suc_upt upt_conv_Cons)
  ultimately show ?thesis using assms(2) by (simp add: ring_contents_def comp_def)
qed

lemma ring_get_many:
  assumes "m \<le> n" and "out < length pool"
  shows "ring_contents pool out n =
    ring_contents pool out m @ ring_contents pool ((out + m) mod length pool) (n - m)"
proof (rule nth_equalityI)
  fix i assume "i < length (ring_contents pool out n)"
  then have i: "i < n" by simp
  have "(out + m + (i - m)) mod length pool = ((out + m) mod length pool + (i - m)) mod length pool"
    by (simp add: mod_simps)
  then show "ring_contents pool out n ! i =
      (ring_contents pool out m @ ring_contents pool ((out + m) mod length pool) (n - m)) ! i"
    using i assms(1) by (cases "i < m") (simp_all add: ring_contents_def nth_append)
qed (use assms in simp)

text \<open>Writing a block into the free cells behind the contents.\<close>

lemma ring_put_many:
  assumes len: "length pool' = length pool" and room: "c + n \<le> length pool" and src: "n \<le> length src"
    and new: "\<And>i. i < n \<Longrightarrow> pool' ! ((out + c + i) mod length pool) = src ! i"
    and old: "\<And>i. i < c \<Longrightarrow> pool' ! ((out + i) mod length pool) = pool ! ((out + i) mod length pool)"
  shows "ring_contents pool' out (c + n) = ring_contents pool out c @ take n src"
proof (rule nth_equalityI)
  fix i assume "i < length (ring_contents pool' out (c + n))"
  then have i: "i < c + n" by simp
  show "ring_contents pool' out (c + n) ! i = (ring_contents pool out c @ take n src) ! i"
  proof (cases "i < c")
    case True
    then show ?thesis using i old [of i] len by (simp add: ring_contents_def nth_append)
  next
    case False
    then obtain j where j: "i = c + j" "j < n" using i by (metis add_less_cancel_left le_Suc_ex not_less)
    then show ?thesis using new [of j] len by (simp add: ring_contents_def nth_append add.assoc)
  qed
qed (use src in simp)

text \<open>\<^verbatim>\<open>memcpy(&xs[pos], src, n)\<close>\<close>

definition copy_into :: "nat \<Rightarrow> 'a list \<Rightarrow> nat \<Rightarrow> 'a list \<Rightarrow> 'a list" where
  "copy_into pos src n xs = take pos xs @ take n src @ drop (pos + n) xs"

lemma length_copy_into [simp]:
  "pos + n \<le> length xs \<Longrightarrow> n \<le> length src \<Longrightarrow> length (copy_into pos src n xs) = length xs"
  by (simp add: copy_into_def)

lemma nth_copy_into:
  "pos + n \<le> length xs \<Longrightarrow> n \<le> length src \<Longrightarrow> i < length xs \<Longrightarrow>
     copy_into pos src n xs ! i = (if pos \<le> i \<and> i < pos + n then src ! (i - pos) else xs ! i)"
  by (auto simp: copy_into_def nth_append)

lemma copy_into_0 [simp]: "copy_into pos src 0 xs = xs"
  by (simp add: copy_into_def)

text \<open>A block that may go around the end of the array, as two copies.\<close>

definition ring_copy :: "nat \<Rightarrow> 'a list \<Rightarrow> nat \<Rightarrow> 'a list \<Rightarrow> 'a list" where
  "ring_copy pos src n xs =
     (let room = length xs - pos
      in if n < room then copy_into pos src n xs
         else copy_into 0 (drop room src) (n - room) (copy_into pos src room xs))"

lemma length_ring_copy [simp]:
  "pos < length xs \<Longrightarrow> n \<le> length xs \<Longrightarrow> n \<le> length src \<Longrightarrow> length (ring_copy pos src n xs) = length xs"
  by (auto simp: ring_copy_def Let_def)

text \<open>The distance of a cell from a position, around the end.\<close>

definition ring_dist :: "nat \<Rightarrow> nat \<Rightarrow> nat \<Rightarrow> nat" where
  "ring_dist l pos i = (if pos \<le> i then i - pos else i + l - pos)"

lemma ring_dist_mod: "i < l \<Longrightarrow> pos < l \<Longrightarrow> ring_dist l pos ((pos + i) mod l) = i"
  by (cases "pos + i < l") (auto simp: ring_dist_def mod_if)

lemma ring_dist_cell: "i < l \<Longrightarrow> pos < l \<Longrightarrow> (pos + ring_dist l pos i) mod l = i"
  by (auto simp: ring_dist_def)

lemma nth_ring_copy:
  assumes "pos < length xs" and "n \<le> length xs" and "n \<le> length src" and "i < length xs"
  shows "ring_copy pos src n xs ! i =
    (if ring_dist (length xs) pos i < n then src ! ring_dist (length xs) pos i else xs ! i)"
proof (cases "n < length xs - pos")
  case True
  then show ?thesis using assms by (auto simp: ring_copy_def nth_copy_into ring_dist_def)
next
  case False
  then show ?thesis using assms
    by (auto simp: ring_copy_def Let_def nth_copy_into ring_dist_def add.commute)
qed

lemma ring_put_block:
  assumes pos: "pos = (out + c) mod length pool" and room: "c + n \<le> length pool" and src: "n \<le> length src"
    and ne: "0 < length pool"
  shows "ring_contents (ring_copy pos src n pool) out (c + n) = ring_contents pool out c @ take n src"
proof (rule ring_put_many [OF _ room src])
  let ?l = "length pool"
  have lt: "pos < ?l" unfolding pos using ne by (intro mod_less_divisor) auto
  have mod_add: "(out + c + i) mod ?l = (pos + i) mod ?l" for i unfolding pos by (simp add: mod_simps)
  show "length (ring_copy pos src n pool) = ?l" using lt room src by simp
  show "ring_copy pos src n pool ! ((out + c + i) mod ?l) = src ! i" if "i < n" for i
    using that lt room src ne by (simp add: mod_add nth_ring_copy ring_dist_mod)
  show "ring_copy pos src n pool ! ((out + i) mod ?l) = pool ! ((out + i) mod ?l)" if i: "i < c" for i
  proof -
    let ?d = "ring_dist ?l pos ((out + i) mod ?l)"
    have "\<not> ?d < n"
    proof
      assume "?d < n"
      moreover have "(out + i) mod ?l = (out + (c + ?d)) mod ?l"
        using ring_dist_cell [of "(out + i) mod ?l" ?l pos] mod_add [of ?d] lt ne by (simp add: add.assoc)
      ultimately show False using ring_index_neq [of i "c + ?d" ?l out] i room by simp
    qed
    then show ?thesis using lt room src ne by (simp add: nth_ring_copy)
  qed
qed

text \<open>Reading a block that may go around the end, as two pieces.\<close>

lemma ring_get_block:
  assumes "n \<le> length pool" and "pos < length pool"
  shows "ring_contents pool pos n =
    (let room = length pool - pos
     in if n < room then take n (drop pos pool)
        else take room (drop pos pool) @ take (n - room) pool)"
proof (rule nth_equalityI)
  show "length (ring_contents pool pos n) = length (let room = length pool - pos
     in if n < room then take n (drop pos pool) else take room (drop pos pool) @ take (n - room) pool)"
    using assms by (auto simp: Let_def min_def)
  fix i assume "i < length (ring_contents pool pos n)"
  then have i: "i < n" by simp
  show "ring_contents pool pos n ! i = (let room = length pool - pos
     in if n < room then take n (drop pos pool) else take room (drop pos pool) @ take (n - room) pool) ! i"
  proof (cases "pos + i < length pool")
    case True
    then have "i < length pool - pos" by simp
    then show ?thesis using True i assms by (simp add: Let_def ring_contents_def nth_append)
  next
    case False
    then have "(pos + i) mod length pool = pos + i - length pool" using i assms by (simp add: mod_if)
    moreover have "\<not> i < length pool - pos" "i - (length pool - pos) = pos + i - length pool"
      using False assms by simp_all
    ultimately show ?thesis using i assms False by (simp add: Let_def ring_contents_def nth_append)
  qed
qed

end
