(* ===== verification/RT_Mailbox.thy ===== *)
theory RT_Mailbox
  imports RT_IPC RT_Ring
begin

text \<open>
  The mailboxes of src/ipc.c: a ring of 32-bit mails with a list of waiting receivers and one of
  waiting senders. The blocking functions are loops: a thread that has been woken checks again,
  with what is left of its waiting time. One round of the loop up to its scheduling point is one
  definition, what follows when the thread runs again is another.
\<close>

section \<open>The code\<close>

record rt_mailbox = rt_ipc_object +
  mb_msg_pool :: "u32 list"
  mb_size :: u16
  mb_entry :: u16
  mb_in_offset :: u16
  mb_out_offset :: u16
  suspend_sender_thread :: nat

text \<open>\<open>pool\<close>: the message buffer handed over, \<open>sz\<close> its size in mails, which is stored in 16 bits.\<close>

definition rt_mb_init ::
  "kobj \<Rightarrow> nat \<Rightarrow> nat \<Rightarrow> string \<Rightarrow> u32 list \<Rightarrow> u32 \<Rightarrow> u8 \<Rightarrow> kernel \<Rightarrow> rt_mailbox \<times> kernel \<times> rt_err" where
  "rt_mb_init ob q qs name pool sz flag k =
     (\<lparr>ipc_obj = ob, ipc_flag = flag, suspend_thread = q, mb_msg_pool = pool, mb_size = ucast sz,
       mb_entry = 0, mb_in_offset = 0, mb_out_offset = 0, suspend_sender_thread = qs\<rparr>,
      rt_ipc_object_init qs (rt_ipc_object_init q (rt_object_init ob RT_Object_Class_MailBox name k)), RT_EOK)"

definition rt_mb_detach :: "rt_mailbox \<Rightarrow> kernel \<Rightarrow> (rt_mailbox \<times> kernel \<times> rt_err) option" where
  "rt_mb_detach mb k =
     do { (k1, e1) \<leftarrow> rt_ipc_list_resume_all (suspend_thread mb) k;
          (k2, e2) \<leftarrow> rt_ipc_list_resume_all (suspend_sender_thread mb) k1;
          Some (mb, rt_object_detach (ipc_obj mb) k2, RT_EOK) }"

text \<open>\<open>alloc_pool\<close>: the buffer the allocator returned for the mails, if any.\<close>

definition rt_mb_create ::
  "kobj option \<Rightarrow> u32 list option \<Rightarrow> nat \<Rightarrow> nat \<Rightarrow> string \<Rightarrow> u32 \<Rightarrow> u8 \<Rightarrow> kernel \<Rightarrow>
    (rt_mailbox option \<times> kernel) option" where
  "rt_mb_create alloc alloc_pool q qs name sz flag k =
     do { not_in_interrupt k;
          (ob, k1) \<leftarrow> rt_object_allocate alloc RT_Object_Class_MailBox name k;
          (case ob of
             None \<Rightarrow> Some (None, k1)
           | Some obj \<Rightarrow>
               do { let k2 = rt_ipc_object_init q k1;
                    (case alloc_pool of
                       None \<Rightarrow> do { k3 \<leftarrow> rt_object_delete obj k2; Some (None, k3) }
                     | Some pool \<Rightarrow>
                         Some (Some \<lparr>ipc_obj = obj, ipc_flag = flag, suspend_thread = q, mb_msg_pool = pool,
                                     mb_size = ucast sz, mb_entry = 0, mb_in_offset = 0, mb_out_offset = 0,
                                     suspend_sender_thread = qs\<rparr>,
                               rt_ipc_object_init qs k2)) }) }"

definition rt_mb_delete :: "rt_mailbox \<Rightarrow> u32 \<Rightarrow> kernel \<Rightarrow> (kernel \<times> rt_err) option" where
  "rt_mb_delete mb pool_addr k =
     do { not_in_interrupt k;
          (k1, e1) \<leftarrow> rt_ipc_list_resume_all (suspend_thread mb) k;
          (k2, e2) \<leftarrow> rt_ipc_list_resume_all (suspend_sender_thread mb) k1;
          let k3 = k2\<lparr>kernel_freed := kernel_freed k2 @ [Block_Pool pool_addr]\<rparr>;
          k4 \<leftarrow> rt_object_delete (ipc_obj mb) k3;
          Some (k4, RT_EOK) }"

definition mb_next :: "u16 \<Rightarrow> u16 \<Rightarrow> u16" where
  "mb_next i sz = (if sz \<le> i + 1 then 0 else i + 1)"

definition mb_put :: "u32 \<Rightarrow> rt_mailbox \<Rightarrow> rt_mailbox option" where
  "mb_put val mb =
     do { rt_assert (unat (mb_in_offset mb) < length (mb_msg_pool mb));
          Some (mb\<lparr>mb_msg_pool := (mb_msg_pool mb)[unat (mb_in_offset mb) := val],
                   mb_in_offset := mb_next (mb_in_offset mb) (mb_size mb), mb_entry := mb_entry mb + 1\<rparr>) }"

definition mb_get :: "rt_mailbox \<Rightarrow> (u32 \<times> rt_mailbox) option" where
  "mb_get mb =
     do { rt_assert (unat (mb_out_offset mb) < length (mb_msg_pool mb));
          Some (mb_msg_pool mb ! unat (mb_out_offset mb),
                mb\<lparr>mb_out_offset := mb_next (mb_out_offset mb) (mb_size mb), mb_entry := mb_entry mb - 1\<rparr>) }"

text \<open>One round of the loop of \<^verbatim>\<open>rt_mb_send_wait\<close>, and the rest of the function.\<close>

definition mb_send_round ::
  "rt_mailbox \<Rightarrow> u32 \<Rightarrow> u32 \<Rightarrow> kernel \<Rightarrow> (rt_mailbox \<times> kernel \<times> rt_err wait_outcome) option" where
  "mb_send_round mb val timeout k =
     (if mb_entry mb = mb_size mb then
        do { thread \<leftarrow> rt_thread_self k;
             let k1 = upd_thread thread (\<lambda>th. th\<lparr>error := RT_EOK\<rparr>) k;
             (if timeout = 0 then Some (mb, k1, Returns (- RT_EFULL))
              else do {
                thread \<leftarrow> in_thread_context k1;
                k2 \<leftarrow> suspend_with_timeout (suspend_sender_thread mb) thread (ipc_flag mb) timeout k1;
                let tick_delta = (if 0 < sint timeout then rt_tick_get k1 else 0);
                k3 \<leftarrow> rt_schedule k2;
                Some (mb, k3, Waiting tick_delta) }) }
      else do {
        mb1 \<leftarrow> mb_put val mb;
        (if tlists k (Wait (suspend_thread mb1)) \<noteq> [] then
           do { (k1, e) \<leftarrow> rt_ipc_list_resume (suspend_thread mb1) k;
                k2 \<leftarrow> rt_schedule k1;
                Some (mb1, k2, Returns RT_EOK) }
         else Some (mb1, k, Returns RT_EOK)) })"

definition rt_mb_send_wait ::
  "rt_mailbox \<Rightarrow> u32 \<Rightarrow> u32 \<Rightarrow> kernel \<Rightarrow> (rt_mailbox \<times> kernel \<times> rt_err wait_outcome) option" where
  "rt_mb_send_wait mb val timeout k =
     (if mb_entry mb = mb_size mb \<and> timeout = 0 then Some (mb, k, Returns (- RT_EFULL))
      else mb_send_round mb val timeout k)"

definition rt_mb_send_resume ::
  "tid \<Rightarrow> rt_mailbox \<Rightarrow> u32 \<Rightarrow> u32 \<Rightarrow> u32 \<Rightarrow> kernel \<Rightarrow> (rt_mailbox \<times> kernel \<times> rt_err wait_outcome) option" where
  "rt_mb_send_resume thread mb val timeout tick_delta k =
     (if error (threads k thread) \<noteq> RT_EOK then Some (mb, k, Returns (error (threads k thread)))
      else mb_send_round mb val (time_left timeout tick_delta k) k)"


text \<open>One round of the loop of \<^verbatim>\<open>rt_mb_recv\<close>. The mail is returned with the error code.\<close>

definition mb_recv_round ::
  "rt_mailbox \<Rightarrow> u32 \<Rightarrow> kernel \<Rightarrow> (rt_mailbox \<times> kernel \<times> (rt_err \<times> u32 option) wait_outcome) option" where
  "mb_recv_round mb timeout k =
     (if mb_entry mb = 0 then
        do { thread \<leftarrow> rt_thread_self k;
             let k1 = upd_thread thread (\<lambda>th. th\<lparr>error := RT_EOK\<rparr>) k;
             (if timeout = 0 then
                Some (mb, upd_thread thread (\<lambda>th. th\<lparr>error := - RT_ETIMEOUT\<rparr>) k1, Returns (- RT_ETIMEOUT, None))
              else do {
                thread \<leftarrow> in_thread_context k1;
                k2 \<leftarrow> suspend_with_timeout (suspend_thread mb) thread (ipc_flag mb) timeout k1;
                let tick_delta = (if 0 < sint timeout then rt_tick_get k1 else 0);
                k3 \<leftarrow> rt_schedule k2;
                Some (mb, k3, Waiting tick_delta) }) }
      else do {
        (val, mb1) \<leftarrow> mb_get mb;
        (if tlists k (Wait (suspend_sender_thread mb1)) \<noteq> [] then
           do { (k1, e) \<leftarrow> rt_ipc_list_resume (suspend_sender_thread mb1) k;
                k2 \<leftarrow> rt_schedule k1;
                Some (mb1, k2, Returns (RT_EOK, Some val)) }
         else Some (mb1, k, Returns (RT_EOK, Some val))) })"

definition rt_mb_recv ::
  "rt_mailbox \<Rightarrow> u32 \<Rightarrow> kernel \<Rightarrow> (rt_mailbox \<times> kernel \<times> (rt_err \<times> u32 option) wait_outcome) option" where
  "rt_mb_recv mb timeout k =
     (if mb_entry mb = 0 \<and> timeout = 0 then Some (mb, k, Returns (- RT_ETIMEOUT, None))
      else mb_recv_round mb timeout k)"

definition rt_mb_recv_resume ::
  "tid \<Rightarrow> rt_mailbox \<Rightarrow> u32 \<Rightarrow> u32 \<Rightarrow> kernel \<Rightarrow> (rt_mailbox \<times> kernel \<times> (rt_err \<times> u32 option) wait_outcome) option" where
  "rt_mb_recv_resume thread mb timeout tick_delta k =
     (if error (threads k thread) \<noteq> RT_EOK then Some (mb, k, Returns (error (threads k thread), None))
      else mb_recv_round mb (time_left timeout tick_delta k) k)"

definition rt_mb_control :: "rt_mailbox \<Rightarrow> u8 \<Rightarrow> u32 \<Rightarrow> kernel \<Rightarrow> (rt_mailbox \<times> kernel \<times> rt_err) option" where
  "rt_mb_control mb cmd arg k =
     (if cmd = RT_IPC_CMD_RESET then
        do { (k1, e1) \<leftarrow> rt_ipc_list_resume_all (suspend_thread mb) k;
             (k2, e2) \<leftarrow> rt_ipc_list_resume_all (suspend_sender_thread mb) k1;
             let mb1 = mb\<lparr>mb_entry := 0, mb_in_offset := 0, mb_out_offset := 0\<rparr>;
             k3 \<leftarrow> rt_schedule k2;
             Some (mb1, k3, RT_EOK) }
      else Some (mb, k, - RT_ERROR))"

section \<open>A mailbox is a queue\<close>

definition mb_wf :: "rt_mailbox \<Rightarrow> bool" where
  "mb_wf mb \<longleftrightarrow> length (mb_msg_pool mb) = unat (mb_size mb) \<and> 0 < mb_size mb \<and> ipc_flag_ok (ipc_flag mb) \<and>
     mb_entry mb \<le> mb_size mb \<and> mb_in_offset mb < mb_size mb \<and> mb_out_offset mb < mb_size mb \<and>
     suspend_thread mb \<noteq> suspend_sender_thread mb \<and>
     unat (mb_in_offset mb) = (unat (mb_out_offset mb) + unat (mb_entry mb)) mod unat (mb_size mb)"

text \<open>The mails in the box, the oldest first.\<close>

definition mb_mails :: "rt_mailbox \<Rightarrow> u32 list" where
  "mb_mails mb = ring_contents (mb_msg_pool mb) (unat (mb_out_offset mb)) (unat (mb_entry mb))"

lemma mb_next_mod:
  assumes "i < sz"
  shows "unat (mb_next i sz) = (unat i + 1) mod unat sz" and "mb_next i sz < sz"
proof -
  have u: "unat i < unat sz" using assms by (simp add: word_less_nat_alt)
  moreover have "unat sz < 2 ^ 16" by (rule unat_u16)
  ultimately have s: "unat (i + 1) = unat i + 1" by (simp add: unat_word_ariths)
  have le: "sz \<le> i + 1 \<longleftrightarrow> unat sz = unat i + 1" using u s by (auto simp: word_le_nat_alt)
  show "unat (mb_next i sz) = (unat i + 1) mod unat sz"
    using u le s by (auto simp: mb_next_def)
  show "mb_next i sz < sz"
    using u le s by (auto simp: mb_next_def word_less_nat_alt)
qed

lemma unat_succ16: "(a :: u16) < b \<Longrightarrow> unat (a + 1) = unat a + 1"
proof -
  assume "a < b"
  then have "unat a < unat b" by (simp add: word_less_nat_alt)
  moreover have "unat b < 2 ^ 16" by (rule unat_u16)
  ultimately show ?thesis by (simp add: unat_word_ariths)
qed

lemma mb_put_queue:
  assumes "mb_wf mb" and "mb_entry mb \<noteq> mb_size mb"
  obtains mb' where "mb_put v mb = Some mb'" and "mb_wf mb'" and "mb_mails mb' = mb_mails mb @ [v]"
    and "suspend_thread mb' = suspend_thread mb" and "suspend_sender_thread mb' = suspend_sender_thread mb"
    and "ipc_flag mb' = ipc_flag mb" and "mb_size mb' = mb_size mb"
proof -
  let ?mb' = "mb\<lparr>mb_msg_pool := (mb_msg_pool mb)[unat (mb_in_offset mb) := v],
    mb_in_offset := mb_next (mb_in_offset mb) (mb_size mb), mb_entry := mb_entry mb + 1\<rparr>"
  have lt: "mb_entry mb < mb_size mb" using assms by (simp add: mb_wf_def order.strict_iff_order)
  note e = unat_succ16 [OF lt]
  have in_lt: "mb_in_offset mb < mb_size mb" using assms(1) by (simp add: mb_wf_def)
  note nx = mb_next_mod [OF in_lt]
  have inx: "unat (mb_in_offset mb) = (unat (mb_out_offset mb) + unat (mb_entry mb)) mod unat (mb_size mb)"
    and len: "length (mb_msg_pool mb) = unat (mb_size mb)"
    using assms(1) by (simp_all add: mb_wf_def)
  have "mb_put v mb = Some ?mb'"
    using in_lt len by (simp add: mb_put_def word_less_nat_alt)
  moreover have "mb_wf ?mb'"
    using assms(1) lt nx e inx
    by (simp add: mb_wf_def word_le_nat_alt word_less_nat_alt mod_simps add.assoc)
  moreover have "mb_mails ?mb' = mb_mails mb @ [v]"
    using ring_put [of "unat (mb_entry mb)" "mb_msg_pool mb" "unat (mb_in_offset mb)" "unat (mb_out_offset mb)" v]
      lt inx len e by (simp add: mb_mails_def word_less_nat_alt)
  ultimately show thesis using that [of ?mb'] by simp
qed

lemma mb_get_queue:
  assumes "mb_wf mb" and "mb_entry mb \<noteq> 0"
  obtains v mb' where "mb_get mb = Some (v, mb')" and "mb_wf mb'" and "mb_mails mb = v # mb_mails mb'"
    and "suspend_thread mb' = suspend_thread mb" and "suspend_sender_thread mb' = suspend_sender_thread mb"
    and "ipc_flag mb' = ipc_flag mb" and "mb_size mb' = mb_size mb"
proof -
  let ?mb' = "mb\<lparr>mb_out_offset := mb_next (mb_out_offset mb) (mb_size mb), mb_entry := mb_entry mb - 1\<rparr>"
  have out_lt: "mb_out_offset mb < mb_size mb" using assms(1) by (simp add: mb_wf_def)
  note nx = mb_next_mod [OF out_lt]
  have inx: "unat (mb_in_offset mb) = (unat (mb_out_offset mb) + unat (mb_entry mb)) mod unat (mb_size mb)"
    and len: "length (mb_msg_pool mb) = unat (mb_size mb)"
    using assms(1) by (simp_all add: mb_wf_def)
  have e: "unat (mb_entry mb - 1) = unat (mb_entry mb) - 1" using assms(2) by (simp add: unat_minus_one)
  have pos: "0 < unat (mb_entry mb)" using assms(2) by (simp add: unat_gt_0)
  have idx: "((unat (mb_out_offset mb) + 1) mod unat (mb_size mb) + (unat (mb_entry mb) - 1)) mod unat (mb_size mb) =
      (unat (mb_out_offset mb) + unat (mb_entry mb)) mod unat (mb_size mb)"
  proof -
    have "unat (mb_out_offset mb) + 1 + (unat (mb_entry mb) - 1) = unat (mb_out_offset mb) + unat (mb_entry mb)"
      using pos by simp
    then show ?thesis by (metis mod_add_left_eq)
  qed
  have "mb_get mb = Some (mb_msg_pool mb ! unat (mb_out_offset mb), ?mb')"
    using out_lt len by (simp add: mb_get_def word_less_nat_alt)
  moreover have "mb_wf ?mb'"
    using assms(1) nx e inx idx pos
    by (simp add: mb_wf_def word_le_nat_alt word_less_nat_alt) (metis diff_le_self le_trans)
  moreover have "mb_mails mb = mb_msg_pool mb ! unat (mb_out_offset mb) # mb_mails ?mb'"
    using ring_get [OF pos, of "unat (mb_out_offset mb)" "mb_msg_pool mb"] out_lt len nx(1) e
    by (simp add: mb_mails_def word_less_nat_alt)
  ultimately show thesis using that [of _ ?mb'] by simp
qed


text \<open>
  C16. \<^verbatim>\<open>rt_mb_send_wait\<close>: when the box is not full the mail becomes the last of the queue
  and the first waiting receiver, if any, is made ready; when it is full and no time is given the
  call returns \<^verbatim>\<open>-RT_EFULL\<close> and nothing changes; otherwise the sender is queued on the senders' list
  and another thread runs, with the mails as they were.
\<close>

theorem mb_send_correct:
  assumes k: "kernel_inv Od k" and wf: "mb_wf mb"
    and block: "mb_entry mb = mb_size mb \<Longrightarrow> timeout \<noteq> 0 \<Longrightarrow> may_block k c \<and> rt_interrupt_nest k = 0 \<and>
      rt_scheduler_lock_nest k = 0 \<and> wait_time_ok timeout"
  shows "returns (rt_mb_send_wait mb v timeout k) (\<lambda>(mb', k', r). kernel_inv Od k' \<and> mb_wf mb' \<and>
    (if mb_entry mb \<noteq> mb_size mb
     then r = Returns RT_EOK \<and> mb_mails mb' = mb_mails mb @ [v] \<and> wakes_first (suspend_thread mb) k k'
     else mb' = mb \<and>
       (if timeout = 0 then r = Returns (- RT_EFULL) \<and> k' = k
        else r = Waiting (if 0 < sint timeout then rt_tick k else 0) \<and> rt_current_thread k' \<noteq> Some c \<and>
          scheduled k' \<and> tlists k' (Wait (suspend_sender_thread mb)) =
            enqueue (ipc_flag mb) (prio_of k) c (tlists k (Wait (suspend_sender_thread mb))))))"
proof (cases "mb_entry mb = mb_size mb")
  case False
  obtain mb' where p: "mb_put v mb = Some mb'" "mb_wf mb'" "mb_mails mb' = mb_mails mb @ [v]"
    "suspend_thread mb' = suspend_thread mb"
    by (rule mb_put_queue [OF wf False])
  show ?thesis
  proof (cases "tlists k (Wait (suspend_thread mb)) = []")
    case True
    then show ?thesis using False p k by (simp add: rt_mb_send_wait_def mb_send_round_def wakes_first_def)
  next
    case ne: False
    obtain k1 k' where w: "rt_ipc_list_resume (suspend_thread mb) k = Some (k1, RT_EOK)" "rt_schedule k1 = Some k'"
      "kernel_inv Od k'" "wakes_first (suspend_thread mb) k k'"
      by (rule wake_one [OF k ne])
    then show ?thesis using False p ne by (simp add: rt_mb_send_wait_def mb_send_round_def)
  qed
next
  case True
  show ?thesis
  proof (cases "timeout = 0")
    case False
    then have b: "may_block k c" "rt_interrupt_nest k = 0" "rt_scheduler_lock_nest k = 0" "wait_time_ok timeout"
      using block True by auto
    have cur: "rt_current_thread k = Some c" using b(1) by (simp add: may_block_def)
    have flag: "ipc_flag_ok (ipc_flag mb)" using wf by (simp add: mb_wf_def)
    have ctx: "in_thread_context (upd_thread c (\<lambda>th. th\<lparr>error := RT_EOK\<rparr>) k) = Some c"
      by (rule in_thread_context_eq) (simp_all add: cur b)
    obtain k2 k' where r: "suspend_with_timeout (suspend_sender_thread mb) c (ipc_flag mb) timeout
        (upd_thread c (\<lambda>th. th\<lparr>error := RT_EOK\<rparr>) k) = Some k2" "rt_schedule k2 = Some k'" "kernel_inv Od k'"
      "scheduled k'" "rt_current_thread k' \<noteq> Some c"
      "tlists k' (Wait (suspend_sender_thread mb)) =
        enqueue (ipc_flag mb) (prio_of k) c (tlists k (Wait (suspend_sender_thread mb)))"
      by (rule round_blocks [OF k b(1) flag b(4,3), of "suspend_sender_thread mb"]) blast
    show ?thesis
      using True False r wf cur
      by (simp add: rt_mb_send_wait_def mb_send_round_def rt_thread_self_def rt_tick_get_def ctx)
  qed (use True k wf in \<open>simp add: rt_mb_send_wait_def\<close>)
qed

text \<open>
  \<^verbatim>\<open>rt_mb_recv\<close>: when there is a mail the oldest is returned and taken out, and the
  first waiting sender, if any, is made ready; when there is none and no time is given the call
  returns \<^verbatim>\<open>-RT_ETIMEOUT\<close> and nothing changes; otherwise the receiver is queued and another thread runs.
\<close>

theorem mb_recv_correct:
  assumes k: "kernel_inv Od k" and wf: "mb_wf mb"
    and block: "mb_entry mb = 0 \<Longrightarrow> timeout \<noteq> 0 \<Longrightarrow> may_block k c \<and> rt_interrupt_nest k = 0 \<and>
      rt_scheduler_lock_nest k = 0 \<and> wait_time_ok timeout"
  shows "returns (rt_mb_recv mb timeout k) (\<lambda>(mb', k', r). kernel_inv Od k' \<and> mb_wf mb' \<and>
    (case mb_mails mb of
       v # vs \<Rightarrow> r = Returns (RT_EOK, Some v) \<and> mb_mails mb' = vs \<and> wakes_first (suspend_sender_thread mb) k k'
     | [] \<Rightarrow> mb' = mb \<and>
       (if timeout = 0 then r = Returns (- RT_ETIMEOUT, None) \<and> k' = k
        else r = Waiting (if 0 < sint timeout then rt_tick k else 0) \<and> rt_current_thread k' \<noteq> Some c \<and>
          scheduled k' \<and> tlists k' (Wait (suspend_thread mb)) =
            enqueue (ipc_flag mb) (prio_of k) c (tlists k (Wait (suspend_thread mb))))))"
proof (cases "mb_entry mb = 0")
  case False
  obtain v mb' where p: "mb_get mb = Some (v, mb')" "mb_wf mb'" "mb_mails mb = v # mb_mails mb'"
    "suspend_sender_thread mb' = suspend_sender_thread mb"
    by (rule mb_get_queue [OF wf False])
  show ?thesis
  proof (cases "tlists k (Wait (suspend_sender_thread mb)) = []")
    case True
    then show ?thesis using False p k by (simp add: rt_mb_recv_def mb_recv_round_def wakes_first_def)
  next
    case ne: False
    obtain k1 k' where w: "rt_ipc_list_resume (suspend_sender_thread mb) k = Some (k1, RT_EOK)"
      "rt_schedule k1 = Some k'" "kernel_inv Od k'" "wakes_first (suspend_sender_thread mb) k k'"
      by (rule wake_one [OF k ne])
    then show ?thesis using False p ne by (simp add: rt_mb_recv_def mb_recv_round_def)
  qed
next
  case True
  have empty: "mb_mails mb = []" using True by (simp add: mb_mails_def)
  show ?thesis
  proof (cases "timeout = 0")
    case False
    then have b: "may_block k c" "rt_interrupt_nest k = 0" "rt_scheduler_lock_nest k = 0" "wait_time_ok timeout"
      using block True by auto
    have cur: "rt_current_thread k = Some c" using b(1) by (simp add: may_block_def)
    have flag: "ipc_flag_ok (ipc_flag mb)" using wf by (simp add: mb_wf_def)
    have ctx: "in_thread_context (upd_thread c (\<lambda>th. th\<lparr>error := RT_EOK\<rparr>) k) = Some c"
      by (rule in_thread_context_eq) (simp_all add: cur b)
    obtain k2 k' where r: "suspend_with_timeout (suspend_thread mb) c (ipc_flag mb) timeout
        (upd_thread c (\<lambda>th. th\<lparr>error := RT_EOK\<rparr>) k) = Some k2" "rt_schedule k2 = Some k'" "kernel_inv Od k'"
      "scheduled k'" "rt_current_thread k' \<noteq> Some c"
      "tlists k' (Wait (suspend_thread mb)) =
        enqueue (ipc_flag mb) (prio_of k) c (tlists k (Wait (suspend_thread mb)))"
      by (rule round_blocks [OF k b(1) flag b(4,3), of "suspend_thread mb"]) blast
    show ?thesis
      using True False r wf cur empty
      by (simp add: rt_mb_recv_def mb_recv_round_def rt_thread_self_def rt_tick_get_def ctx)
  qed (use True k wf empty in \<open>simp add: rt_mb_recv_def\<close>)
qed

section \<open>A mailbox is a bounded queue\<close>











section \<open>Concrete mailboxes\<close>

definition ex_mb :: "u16 \<Rightarrow> rt_mailbox" where
  "ex_mb n = \<lparr>ipc_obj = Obj_MailBox 0, ipc_flag = RT_IPC_FLAG_FIFO, suspend_thread = 0, mb_msg_pool = [7, 8, 9],
     mb_size = 3, mb_entry = n, mb_in_offset = (2 + n) mod 3, mb_out_offset = 2, suspend_sender_thread = 1\<rparr>"

lemma ex_mb_wf: "mb_wf (ex_mb 2)" "mb_wf (ex_mb 0)" "mb_wf (ex_mb 3)"
  by (simp_all add: mb_wf_def ex_mb_def ipc_flag_ok_def)

lemma ex_mb_simps [simp]:
  "suspend_thread (ex_mb n) = 0" "suspend_sender_thread (ex_mb n) = 1" "ipc_flag (ex_mb n) = RT_IPC_FLAG_FIFO"
  "mb_size (ex_mb n) = 3" "mb_entry (ex_mb n) = n"
  by (simp_all add: ex_mb_def)

lemma ex_mb_mails: "mb_mails (ex_mb 2) = [9, 7]" "mb_mails (ex_mb 0) = []"
  by (simp_all add: mb_mails_def ex_mb_def ring_contents_def upt_conv_Cons)

lemma mb_send_correct_witness:
  "returns (rt_mb_send_wait (ex_mb 2) 4 0 ex_wait) (\<lambda>(mb', k', r). r = Returns RT_EOK \<and> mb_mails mb' = [9, 7, 4] \<and>
     tlists k' (Wait 0) = [3])"
  by (rule returns_mono [OF mb_send_correct [OF ex_wait_inv [of "{}"] ex_mb_wf(1), where c = 5]])
    (auto simp: ex_mb_mails wakes_first_def)

lemma mb_recv_correct_witness:
  "returns (rt_mb_recv (ex_mb 0) 4 ex_run) (\<lambda>(mb', k', r). r = Waiting 100 \<and> tlists k' (Wait 0) = [5])"
  by (rule returns_mono [OF mb_recv_correct [OF ex_run_inv [of "{}"] ex_mb_wf(2), where c = 5]])
    (auto simp: ex_mb_mails ex_may_block wait_time_ok_def tick_half enqueue_def)


end
