(* ===== verification/RT_MsgQueue.thy ===== *)
theory RT_MsgQueue
  imports RT_IPC RT_Interfaces
begin

text \<open>
  The message queues of src/ipc.c. The pool is an array of blocks, each a \<^verbatim>\<open>next\<close> pointer and the
  bytes of a message; a block is named by its index. The blocks are chained into the list of
  messages, with a head and a tail pointer, and into the free list. Sending and receiving copy the
  bytes with interrupts enabled, so each is two steps between which other threads and interrupts
  run, with a block in flight that is on neither list.
\<close>

section \<open>The code\<close>

record rt_messagequeue = rt_ipc_object +
  mq_msg_pool :: u32
  msg_size :: u16
  max_msgs :: u16
  mq_entry :: u16
  msg_queue_head :: "nat option"
  msg_queue_tail :: "nat option"
  msg_queue_free :: "nat option"
  msg_next :: "nat \<Rightarrow> nat option"
  msg_data :: "nat \<Rightarrow> u8 list"

text \<open>The size of the header \<^verbatim>\<open>struct rt_mq_message\<close>.\<close>

definition sizeof_mq_message :: u32 where "sizeof_mq_message = 4"

text \<open>The loop that chains the blocks of the pool into the free list.\<close>

definition mq_init_free :: "rt_messagequeue \<Rightarrow> rt_messagequeue" where
  "mq_init_free mq =
     fold (\<lambda>temp mq. mq\<lparr>msg_next := (msg_next mq)(temp := msg_queue_free mq), msg_queue_free := Some temp\<rparr>)
       [0..<unat (max_msgs mq)] (mq\<lparr>msg_queue_free := None\<rparr>)"

text \<open>\<open>nx\<close> and \<open>data\<close>: what the memory of the pool holds before.\<close>

definition rt_mq_init ::
  "kobj \<Rightarrow> nat \<Rightarrow> string \<Rightarrow> u32 \<Rightarrow> (nat \<Rightarrow> nat option) \<Rightarrow> (nat \<Rightarrow> u8 list) \<Rightarrow> u32 \<Rightarrow> u32 \<Rightarrow> u8 \<Rightarrow> kernel \<Rightarrow>
    rt_messagequeue \<times> kernel \<times> rt_err" where
  "rt_mq_init ob q name msgpool nx data sz pool_size flag k =
     (let k1 = rt_ipc_object_init q (rt_object_init ob RT_Object_Class_MessageQueue name k);
          sz' = ucast (RT_ALIGN sz RT_ALIGN_SIZE) :: u16;
          mq = \<lparr>ipc_obj = ob, ipc_flag = flag, suspend_thread = q, mq_msg_pool = msgpool, msg_size = sz',
                max_msgs = ucast (pool_size div (ucast sz' + sizeof_mq_message)), mq_entry = 0,
                msg_queue_head = None, msg_queue_tail = None, msg_queue_free = None,
                msg_next = nx, msg_data = data\<rparr>
      in (mq_init_free mq, k1, RT_EOK))"

definition rt_mq_detach :: "rt_messagequeue \<Rightarrow> kernel \<Rightarrow> (rt_messagequeue \<times> kernel \<times> rt_err) option" where
  "rt_mq_detach mq k =
     do { (k1, e) \<leftarrow> rt_ipc_list_resume_all (suspend_thread mq) k;
          Some (mq, rt_object_detach (ipc_obj mq) k1, RT_EOK) }"

text \<open>\<^verbatim>\<open>RT_KERNEL_FREE\<close> of a pool; nothing happens for \<^verbatim>\<open>RT_NULL\<close>.\<close>

definition free_pool :: "u32 \<Rightarrow> kernel \<Rightarrow> kernel" where
  "free_pool addr k = (if addr = 0 then k else k\<lparr>kernel_freed := kernel_freed k @ [Block_Pool addr]\<rparr>)"

definition rt_mq_delete :: "rt_messagequeue \<Rightarrow> kernel \<Rightarrow> (kernel \<times> rt_err) option" where
  "rt_mq_delete mq k =
     do { not_in_interrupt k;
          (k1, e) \<leftarrow> rt_ipc_list_resume_all (suspend_thread mq) k;
          let k2 = free_pool (mq_msg_pool mq) k1;
          k3 \<leftarrow> rt_object_delete (ipc_obj mq) k2;
          Some (k3, RT_EOK) }"

text \<open>
  \<open>alloc_pool\<close>: the address the allocator returns for a size, 0 for \<^verbatim>\<open>RT_NULL\<close>. The size is computed
  in 32 bits, from the message size and the count as they are stored, in 16 bits.
\<close>

definition rt_mq_create ::
  "kobj option \<Rightarrow> (u32 \<Rightarrow> u32) \<Rightarrow> (nat \<Rightarrow> nat option) \<Rightarrow> (nat \<Rightarrow> u8 list) \<Rightarrow> nat \<Rightarrow> string \<Rightarrow> u32 \<Rightarrow> u32 \<Rightarrow> u8 \<Rightarrow>
    kernel \<Rightarrow> (rt_messagequeue option \<times> kernel) option" where
  "rt_mq_create alloc alloc_pool nx data q name sz msgs flag k =
     do { not_in_interrupt k;
          (ob, k1) \<leftarrow> rt_object_allocate alloc RT_Object_Class_MessageQueue name k;
          (case ob of
             None \<Rightarrow> Some (None, k1)
           | Some obj \<Rightarrow>
               do { let k2 = rt_ipc_object_init q k1;
                    let sz' = (ucast (RT_ALIGN sz RT_ALIGN_SIZE) :: u16);
                    let n = (ucast msgs :: u16);
                    let mq = \<lparr>ipc_obj = obj, ipc_flag = flag, suspend_thread = q,
                              mq_msg_pool = alloc_pool ((ucast sz' + sizeof_mq_message) * ucast n),
                              msg_size = sz', max_msgs = n, mq_entry = 0, msg_queue_head = None,
                              msg_queue_tail = None, msg_queue_free = None, msg_next = nx, msg_data = data\<rparr>;
                    (if mq_msg_pool mq = 0 then do { (k3, e) \<leftarrow> rt_mq_delete mq k2; Some (None, k3) }
                     else Some (Some (mq_init_free mq), k2)) }) }"

text \<open>The first critical section of a send: a block is taken off the free list.\<close>

definition mq_take_free :: "rt_messagequeue \<Rightarrow> nat option \<times> rt_messagequeue" where
  "mq_take_free mq =
     (case msg_queue_free mq of
        None \<Rightarrow> (None, mq)
      | Some m \<Rightarrow> (Some m, mq\<lparr>msg_queue_free := msg_next mq m\<rparr>))"

text \<open>\<^verbatim>\<open>rt_memcpy(msg + 1, buffer, size)\<close>\<close>

definition mq_copy_in :: "nat \<Rightarrow> u8 list \<Rightarrow> u32 \<Rightarrow> rt_messagequeue \<Rightarrow> rt_messagequeue" where
  "mq_copy_in m buffer sz mq =
     mq\<lparr>msg_data := (msg_data mq)(m := take (unat sz) buffer @ drop (unat sz) (msg_data mq m))\<rparr>"

text \<open>The second critical section, for a message at the end and for an urgent one.\<close>

definition mq_link_tail :: "nat \<Rightarrow> rt_messagequeue \<Rightarrow> rt_messagequeue" where
  "mq_link_tail m mq =
     (let mq1 = (case msg_queue_tail mq of None \<Rightarrow> mq
                 | Some t \<Rightarrow> mq\<lparr>msg_next := (msg_next mq)(t := Some m)\<rparr>);
          mq2 = mq1\<lparr>msg_queue_tail := Some m\<rparr>;
          mq3 = (if msg_queue_head mq2 = None then mq2\<lparr>msg_queue_head := Some m\<rparr> else mq2)
      in mq3\<lparr>mq_entry := mq_entry mq3 + 1\<rparr>)"

definition mq_link_head :: "nat \<Rightarrow> rt_messagequeue \<Rightarrow> rt_messagequeue" where
  "mq_link_head m mq =
     (let mq1 = mq\<lparr>msg_next := (msg_next mq)(m := msg_queue_head mq)\<rparr>;
          mq2 = mq1\<lparr>msg_queue_head := Some m\<rparr>;
          mq3 = (if msg_queue_tail mq2 = None then mq2\<lparr>msg_queue_tail := Some m\<rparr> else mq2)
      in mq3\<lparr>mq_entry := mq_entry mq3 + 1\<rparr>)"

text \<open>What both do next: wake a receiver and reschedule.\<close>

definition mq_wake :: "rt_messagequeue \<Rightarrow> kernel \<Rightarrow> (rt_messagequeue \<times> kernel \<times> rt_err) option" where
  "mq_wake mq k =
     (if tlists k (Wait (suspend_thread mq)) \<noteq> [] then
        do { (k1, e) \<leftarrow> rt_ipc_list_resume (suspend_thread mq) k;
             k2 \<leftarrow> rt_schedule k1;
             Some (mq, k2, RT_EOK) }
      else Some (mq, k, RT_EOK))"

text \<open>The rest of a send, from the copy on: the block is private until it is linked.\<close>

definition mq_send_end ::
  "nat \<Rightarrow> u8 list \<Rightarrow> u32 \<Rightarrow> rt_messagequeue \<Rightarrow> rt_messagequeue" where
  "mq_send_end m buffer sz mq =
     mq_link_tail m (mq_copy_in m buffer sz (mq\<lparr>msg_next := (msg_next mq)(m := None)\<rparr>))"

definition mq_urgent_end ::
  "nat \<Rightarrow> u8 list \<Rightarrow> u32 \<Rightarrow> rt_messagequeue \<Rightarrow> rt_messagequeue" where
  "mq_urgent_end m buffer sz mq = mq_link_head m (mq_copy_in m buffer sz mq)"

definition rt_mq_send ::
  "rt_messagequeue \<Rightarrow> u8 list \<Rightarrow> u32 \<Rightarrow> kernel \<Rightarrow> (rt_messagequeue \<times> kernel \<times> rt_err) option" where
  "rt_mq_send mq buffer sz k =
     do { rt_assert (sz \<noteq> 0);
          (if ucast (msg_size mq) < sz then Some (mq, k, - RT_ERROR)
           else case mq_take_free mq of
                  (None, mq1) \<Rightarrow> Some (mq1, k, - RT_EFULL)
                | (Some m, mq1) \<Rightarrow> mq_wake (mq_send_end m buffer sz mq1) k) }"

definition rt_mq_urgent ::
  "rt_messagequeue \<Rightarrow> u8 list \<Rightarrow> u32 \<Rightarrow> kernel \<Rightarrow> (rt_messagequeue \<times> kernel \<times> rt_err) option" where
  "rt_mq_urgent mq buffer sz k =
     do { rt_assert (sz \<noteq> 0);
          (if ucast (msg_size mq) < sz then Some (mq, k, - RT_ERROR)
           else case mq_take_free mq of
                  (None, mq1) \<Rightarrow> Some (mq1, k, - RT_EFULL)
                | (Some m, mq1) \<Rightarrow> mq_wake (mq_urgent_end m buffer sz mq1) k) }"

text \<open>The first critical section of a receive that finds a message, the copy, and the second one.\<close>

definition mq_take_head :: "rt_messagequeue \<Rightarrow> (nat \<times> rt_messagequeue) option" where
  "mq_take_head mq =
     (case msg_queue_head mq of
        None \<Rightarrow> None
      | Some m \<Rightarrow>
          let mq1 = mq\<lparr>msg_queue_head := msg_next mq m\<rparr>;
              mq2 = (if msg_queue_tail mq1 = Some m then mq1\<lparr>msg_queue_tail := None\<rparr> else mq1)
          in Some (m, mq2\<lparr>mq_entry := mq_entry mq2 - 1\<rparr>))"

definition mq_copy_out :: "nat \<Rightarrow> u32 \<Rightarrow> rt_messagequeue \<Rightarrow> u8 list" where
  "mq_copy_out m sz mq = take (unat (if ucast (msg_size mq) < sz then ucast (msg_size mq) else sz)) (msg_data mq m)"

definition mq_put_free :: "nat \<Rightarrow> rt_messagequeue \<Rightarrow> rt_messagequeue" where
  "mq_put_free m mq = mq\<lparr>msg_next := (msg_next mq)(m := msg_queue_free mq), msg_queue_free := Some m\<rparr>"

definition mq_recv_round ::
  "rt_messagequeue \<Rightarrow> u32 \<Rightarrow> u32 \<Rightarrow> kernel \<Rightarrow>
    (rt_messagequeue \<times> kernel \<times> (rt_err \<times> u8 list option) wait_outcome) option" where
  "mq_recv_round mq sz timeout k =
     (if mq_entry mq = 0 then
        do { thread \<leftarrow> in_thread_context k;
             let k1 = upd_thread thread (\<lambda>th. th\<lparr>error := RT_EOK\<rparr>) k;
             (if timeout = 0 then
                Some (mq, upd_thread thread (\<lambda>th. th\<lparr>error := - RT_ETIMEOUT\<rparr>) k1, Returns (- RT_ETIMEOUT, None))
              else do {
                k2 \<leftarrow> suspend_with_timeout (suspend_thread mq) thread (ipc_flag mq) timeout k1;
                let tick_delta = (if 0 < sint timeout then rt_tick_get k1 else 0);
                k3 \<leftarrow> rt_schedule k2;
                Some (mq, k3, Waiting tick_delta) }) }
      else do {
        (m, mq1) \<leftarrow> mq_take_head mq;
        let bytes = mq_copy_out m sz mq1;
        Some (mq_put_free m mq1, k, Returns (RT_EOK, Some bytes)) })"

definition rt_mq_recv ::
  "rt_messagequeue \<Rightarrow> u32 \<Rightarrow> u32 \<Rightarrow> kernel \<Rightarrow>
    (rt_messagequeue \<times> kernel \<times> (rt_err \<times> u8 list option) wait_outcome) option" where
  "rt_mq_recv mq sz timeout k =
     do { rt_assert (sz \<noteq> 0);
          (if mq_entry mq = 0 \<and> timeout = 0 then Some (mq, k, Returns (- RT_ETIMEOUT, None))
           else mq_recv_round mq sz timeout k) }"

definition rt_mq_recv_resume ::
  "tid \<Rightarrow> rt_messagequeue \<Rightarrow> u32 \<Rightarrow> u32 \<Rightarrow> u32 \<Rightarrow> kernel \<Rightarrow>
    (rt_messagequeue \<times> kernel \<times> (rt_err \<times> u8 list option) wait_outcome) option" where
  "rt_mq_recv_resume thread mq sz timeout tick_delta k =
     (if error (threads k thread) \<noteq> RT_EOK then Some (mq, k, Returns (error (threads k thread), None))
      else mq_recv_round mq sz (time_left timeout tick_delta k) k)"

text \<open>The loop of the reset command, which gives every message back to the free list.\<close>

partial_function (option) mq_release_all :: "rt_messagequeue \<Rightarrow> rt_messagequeue option" where
  "mq_release_all mq =
     (case msg_queue_head mq of
        None \<Rightarrow> Some mq
      | Some m \<Rightarrow>
          let mq1 = mq\<lparr>msg_queue_head := msg_next mq m\<rparr>;
              mq2 = (if msg_queue_tail mq1 = Some m then mq1\<lparr>msg_queue_tail := None\<rparr> else mq1)
          in mq_release_all (mq_put_free m mq2))"

definition rt_mq_control ::
  "rt_messagequeue \<Rightarrow> u8 \<Rightarrow> u32 \<Rightarrow> kernel \<Rightarrow> (rt_messagequeue \<times> kernel \<times> rt_err) option" where
  "rt_mq_control mq cmd arg k =
     (if cmd = RT_IPC_CMD_RESET then
        do { (k1, e) \<leftarrow> rt_ipc_list_resume_all (suspend_thread mq) k;
             mq1 \<leftarrow> mq_release_all mq;
             let mq2 = mq1\<lparr>mq_entry := 0\<rparr>;
             k2 \<leftarrow> rt_schedule k1;
             Some (mq2, k2, RT_EOK) }
      else Some (mq, k, - RT_ERROR))"

section \<open>Chains of blocks\<close>

fun mq_chain :: "(nat \<Rightarrow> nat option) \<Rightarrow> nat option \<Rightarrow> nat list \<Rightarrow> bool" where
  "mq_chain nx p [] \<longleftrightarrow> p = None"
| "mq_chain nx p (m # ms) \<longleftrightarrow> p = Some m \<and> mq_chain nx (nx m) ms"

lemma mq_chain_upd: "m \<notin> set ms \<Longrightarrow> mq_chain (nx(m := v)) p ms = mq_chain nx p ms"
  by (induction nx p ms rule: mq_chain.induct) auto

lemma mq_chain_snoc:
  "mq_chain nx p (ms @ [t]) \<Longrightarrow> t \<notin> set ms \<Longrightarrow> m \<notin> set (ms @ [t]) \<Longrightarrow> nx m = None \<Longrightarrow>
     mq_chain (nx(t := Some m)) p (ms @ [t, m])"
  by (induction ms arbitrary: p) auto

lemma mq_chain_None: "mq_chain nx p ms \<Longrightarrow> p = None \<longleftrightarrow> ms = []"
  by (cases ms) auto

section \<open>What a queue holds\<close>

text \<open>
  \<open>mq_rep mq held msgs\<close>: the messages in the queue begin with \<open>msgs\<close>, in this order, and the blocks
  \<open>held\<close> are in flight, on neither list.
\<close>

definition mq_chains :: "rt_messagequeue \<Rightarrow> nat list \<Rightarrow> nat list \<Rightarrow> nat set \<Rightarrow> bool" where
  "mq_chains mq qs fs held \<longleftrightarrow>
     mq_chain (msg_next mq) (msg_queue_head mq) qs \<and> mq_chain (msg_next mq) (msg_queue_free mq) fs \<and>
     msg_queue_tail mq = (if qs = [] then None else Some (last qs)) \<and> unat (mq_entry mq) = length qs \<and>
     distinct (qs @ fs) \<and> held \<inter> set (qs @ fs) = {} \<and> held \<union> set (qs @ fs) = {..<unat (max_msgs mq)}"

definition holds_message :: "rt_messagequeue \<Rightarrow> nat \<Rightarrow> u8 list \<Rightarrow> bool" where
  "holds_message mq m msg \<longleftrightarrow> length msg \<le> unat (msg_size mq) \<and> take (length msg) (msg_data mq m) = msg"

definition mq_rep :: "rt_messagequeue \<Rightarrow> nat set \<Rightarrow> u8 list list \<Rightarrow> bool" where
  "mq_rep mq held msgs \<longleftrightarrow> ipc_flag_ok (ipc_flag mq) \<and>
     (\<forall>m < unat (max_msgs mq). length (msg_data mq m) = unat (msg_size mq)) \<and>
     (\<exists>qs fs. mq_chains mq qs fs held \<and> list_all2 (holds_message mq) qs msgs)"

text \<open>What no operation on the messages changes.\<close>

definition mq_same :: "rt_messagequeue \<Rightarrow> rt_messagequeue \<Rightarrow> bool" where
  "mq_same mq mq' \<longleftrightarrow> ipc_obj mq' = ipc_obj mq \<and> ipc_flag mq' = ipc_flag mq \<and>
     suspend_thread mq' = suspend_thread mq \<and> msg_size mq' = msg_size mq \<and> max_msgs mq' = max_msgs mq \<and>
     mq_msg_pool mq' = mq_msg_pool mq"

lemma mq_same_refl [simp]: "mq_same mq mq"
  by (simp add: mq_same_def)

lemma mq_same_trans: "mq_same a b \<Longrightarrow> mq_same b c \<Longrightarrow> mq_same a c"
  by (simp add: mq_same_def)

lemma mq_sameD:
  assumes "mq_same mq mq'"
  shows "suspend_thread mq' = suspend_thread mq" "msg_size mq' = msg_size mq" "max_msgs mq' = max_msgs mq"
    "ipc_flag mq' = ipc_flag mq"
  using assms by (simp_all add: mq_same_def)

lemma mq_repE:
  assumes "mq_rep mq held msgs"
  obtains qs fs where "mq_chains mq qs fs held" and "list_all2 (holds_message mq) qs msgs"
    and "ipc_flag_ok (ipc_flag mq)" and "\<forall>m < unat (max_msgs mq). length (msg_data mq m) = unat (msg_size mq)"
  using assms by (auto simp: mq_rep_def)

lemma mq_repI:
  assumes "mq_chains mq qs fs held" and "list_all2 (holds_message mq) qs msgs"
    and "ipc_flag_ok (ipc_flag mq)" and "\<forall>m < unat (max_msgs mq). length (msg_data mq m) = unat (msg_size mq)"
  shows "mq_rep mq held msgs"
  using assms by (auto simp: mq_rep_def)

lemma mq_count:
  assumes "mq_chains mq qs fs held"
  shows "length qs + length fs + card held = unat (max_msgs mq)" and "finite held"
proof -
  have u: "held \<union> set (qs @ fs) = {..<unat (max_msgs mq)}" and i: "held \<inter> set (qs @ fs) = {}"
    and d: "distinct (qs @ fs)"
    using assms by (simp_all add: mq_chains_def)
  have "finite (held \<union> set (qs @ fs))" unfolding u by simp
  then show f: "finite held" by simp
  have "card (held \<union> set (qs @ fs)) = card held + card (set (qs @ fs))"
    by (rule card_Un_disjoint [OF f _ i]) simp
  then show "length qs + length fs + card held = unat (max_msgs mq)"
    using distinct_card [OF d] unfolding u by simp
qed

lemma mq_rep_bound:
  assumes "mq_rep mq held msgs"
  shows "length msgs + card held \<le> unat (max_msgs mq)" and "mq_entry mq = 0 \<longleftrightarrow> msgs = []"
proof -
  obtain qs fs where c: "mq_chains mq qs fs held" and h: "list_all2 (holds_message mq) qs msgs"
    using assms by (rule mq_repE)
  show "length msgs + card held \<le> unat (max_msgs mq)"
    using mq_count(1) [OF c] list_all2_lengthD [OF h] by simp
  have "unat (mq_entry mq) = length msgs" using c list_all2_lengthD [OF h] by (simp add: mq_chains_def)
  then show "mq_entry mq = 0 \<longleftrightarrow> msgs = []" by (metis length_0_conv unat_eq_zero)
qed

lemma mq_held_in_pool: "mq_rep mq held msgs \<Longrightarrow> m \<in> held \<Longrightarrow> m < unat (max_msgs mq)"
  by (auto simp: mq_rep_def mq_chains_def)

section \<open>The atomic steps\<close>

lemma mq_take_free_rep:
  assumes rep: "mq_rep mq held msgs"
  obtains (full) "mq_take_free mq = (None, mq)" and "length msgs + card held = unat (max_msgs mq)"
  | (block) m mq' where "mq_take_free mq = (Some m, mq')" and "m \<notin> held" and "mq_rep mq' (insert m held) msgs"
      and "mq_same mq mq'" and "length msgs + card held < unat (max_msgs mq)"
proof -
  obtain qs fs where c: "mq_chains mq qs fs held" and h: "list_all2 (holds_message mq) qs msgs"
    and f: "ipc_flag_ok (ipc_flag mq)" "\<forall>m < unat (max_msgs mq). length (msg_data mq m) = unat (msg_size mq)"
    using rep by (rule mq_repE)
  note n = mq_count(1) [OF c] list_all2_lengthD [OF h]
  show thesis
  proof (cases fs)
    case Nil
    then show thesis using c n by (intro full) (auto simp: mq_chains_def mq_take_free_def)
  next
    case (Cons m fs')
    let ?mq' = "mq\<lparr>msg_queue_free := msg_next mq m\<rparr>"
    have c': "mq_chains ?mq' qs fs' (insert m held)" using c by (auto simp: mq_chains_def Cons)
    have "holds_message ?mq' = holds_message mq" by (intro ext) (simp add: holds_message_def)
    then have r: "mq_rep ?mq' (insert m held) msgs" using c' h f by (intro mq_repI) auto
    have t: "mq_take_free mq = (Some m, ?mq')" using c by (simp add: mq_take_free_def mq_chains_def Cons)
    have m: "m \<notin> held" using c by (auto simp: mq_chains_def Cons)
    show thesis by (rule block [OF t m r]) (use n Cons in \<open>auto simp: mq_same_def\<close>)
  qed
qed

text \<open>A block in flight is nobody else's: writing to it changes no message.\<close>

lemma mq_private:
  assumes rep: "mq_rep mq held msgs" and m: "m \<in> held" and data: "length d = unat (msg_size mq)"
  shows "mq_rep (mq\<lparr>msg_next := (msg_next mq)(m := v), msg_data := (msg_data mq)(m := d)\<rparr>) held msgs"
proof -
  obtain qs fs where c: "mq_chains mq qs fs held" and h: "list_all2 (holds_message mq) qs msgs"
    and f: "ipc_flag_ok (ipc_flag mq)" "\<forall>m < unat (max_msgs mq). length (msg_data mq m) = unat (msg_size mq)"
    using rep by (rule mq_repE)
  let ?mq' = "mq\<lparr>msg_next := (msg_next mq)(m := v), msg_data := (msg_data mq)(m := d)\<rparr>"
  have m': "m \<notin> set qs" "m \<notin> set fs" using c m by (auto simp: mq_chains_def)
  show ?thesis
  proof (rule mq_repI)
    show "mq_chains ?mq' qs fs held" using c m' by (simp add: mq_chains_def mq_chain_upd)
    show "list_all2 (holds_message ?mq') qs msgs"
      using h m' by (rule_tac list.rel_mono_strong [OF h]) (auto simp: holds_message_def)
  qed (use f data in auto)
qed

lemma mq_put_free_rep:
  assumes rep: "mq_rep mq held msgs" and m: "m \<in> held"
  shows "mq_rep (mq_put_free m mq) (held - {m}) msgs" and "mq_same mq (mq_put_free m mq)"
proof -
  obtain qs fs where c: "mq_chains mq qs fs held" and h: "list_all2 (holds_message mq) qs msgs"
    and f: "ipc_flag_ok (ipc_flag mq)" "\<forall>m < unat (max_msgs mq). length (msg_data mq m) = unat (msg_size mq)"
    using rep by (rule mq_repE)
  have m': "m \<notin> set qs" "m \<notin> set fs" using c m by (auto simp: mq_chains_def)
  have c': "mq_chains (mq_put_free m mq) qs (m # fs) (held - {m})"
    using c m m' by (auto simp: mq_chains_def mq_put_free_def mq_chain_upd)
  have "holds_message (mq_put_free m mq) = holds_message mq"
    by (intro ext) (simp add: holds_message_def mq_put_free_def)
  then show "mq_rep (mq_put_free m mq) (held - {m}) msgs"
    using c' h f by (intro mq_repI) (auto simp: mq_put_free_def)
  show "mq_same mq (mq_put_free m mq)" by (simp add: mq_same_def mq_put_free_def)
qed

lemma mq_copy_in_rep:
  assumes rep: "mq_rep mq held msgs" and m: "m \<in> held" and sz: "sz \<le> ucast (msg_size mq)" "unat sz \<le> length buffer"
  shows "mq_rep (mq_copy_in m buffer sz (mq\<lparr>msg_next := (msg_next mq)(m := v)\<rparr>)) held msgs"
    and "holds_message (mq_copy_in m buffer sz mq) m (take (unat sz) buffer)"
proof -
  have m': "length (msg_data mq m) = unat (msg_size mq)"
    using rep mq_held_in_pool [OF rep m] by (simp add: mq_rep_def)
  have le: "unat sz \<le> unat (msg_size mq)" using sz(1) by (simp add: word_le_nat_alt)
  have "mq_rep (mq\<lparr>msg_next := (msg_next mq)(m := v),
      msg_data := (msg_data mq)(m := take (unat sz) buffer @ drop (unat sz) (msg_data mq m))\<rparr>) held msgs"
    by (rule mq_private [OF rep m]) (use le sz(2) m' in simp)
  then show "mq_rep (mq_copy_in m buffer sz (mq\<lparr>msg_next := (msg_next mq)(m := v)\<rparr>)) held msgs"
    by (simp add: mq_copy_in_def)
  show "holds_message (mq_copy_in m buffer sz mq) m (take (unat sz) buffer)"
    using le sz(2) by (simp add: holds_message_def mq_copy_in_def)
qed

lemma mq_link_tail_rep:
  assumes rep: "mq_rep mq held msgs" and m: "m \<in> held" "msg_next mq m = None" and msg: "holds_message mq m msg"
  shows "mq_rep (mq_link_tail m mq) (held - {m}) (msgs @ [msg])" and "mq_same mq (mq_link_tail m mq)"
proof -
  obtain qs fs where c: "mq_chains mq qs fs held" and h: "list_all2 (holds_message mq) qs msgs"
    and f: "ipc_flag_ok (ipc_flag mq)" "\<forall>m < unat (max_msgs mq). length (msg_data mq m) = unat (msg_size mq)"
    using rep by (rule mq_repE)
  have m': "m \<notin> set qs" "m \<notin> set fs" using c m(1) by (auto simp: mq_chains_def)
  have "0 < card held" using m(1) mq_count(2) [OF c] by (auto simp: card_gt_0_iff)
  then have e: "unat (mq_entry mq + 1) = unat (mq_entry mq) + 1"
    using mq_count(1) [OF c] c unat_u16 [of "max_msgs mq"] by (simp add: mq_chains_def unat_word_ariths)
  have c': "mq_chains (mq_link_tail m mq) (qs @ [m]) fs (held - {m})"
  proof (cases qs rule: rev_cases)
    case Nil
    then show ?thesis using c m m' e by (auto simp: mq_chains_def mq_link_tail_def)
  next
    case (snoc rest t)
    have "mq_chain ((msg_next mq)(t := Some m)) (msg_queue_head mq) (rest @ [t, m])"
      by (rule mq_chain_snoc) (use c m m' snoc in \<open>auto simp: mq_chains_def\<close>)
    moreover have "msg_queue_head mq \<noteq> None" using c mq_chain_None [of _ _ qs] by (auto simp: mq_chains_def snoc)
    moreover have "t \<notin> set fs" using c by (auto simp: mq_chains_def snoc)
    ultimately show ?thesis using c m m' e snoc by (auto simp: mq_chains_def mq_link_tail_def mq_chain_upd)
  qed
  have "holds_message (mq_link_tail m mq) = holds_message mq"
    by (intro ext) (auto simp: holds_message_def mq_link_tail_def Let_def split: option.splits)
  moreover have "list_all2 (holds_message mq) (qs @ [m]) (msgs @ [msg])"
    using h msg by (auto intro: list_all2_appendI)
  ultimately show "mq_rep (mq_link_tail m mq) (held - {m}) (msgs @ [msg])"
    using f c' by (intro mq_repI) (auto simp: mq_link_tail_def Let_def split: option.splits)
  show "mq_same mq (mq_link_tail m mq)"
    by (auto simp: mq_same_def mq_link_tail_def Let_def split: option.splits)
qed

lemma mq_link_head_rep:
  assumes rep: "mq_rep mq held msgs" and m: "m \<in> held" and msg: "holds_message mq m msg"
  shows "mq_rep (mq_link_head m mq) (held - {m}) (msg # msgs)" and "mq_same mq (mq_link_head m mq)"
proof -
  obtain qs fs where c: "mq_chains mq qs fs held" and h: "list_all2 (holds_message mq) qs msgs"
    and f: "ipc_flag_ok (ipc_flag mq)" "\<forall>m < unat (max_msgs mq). length (msg_data mq m) = unat (msg_size mq)"
    using rep by (rule mq_repE)
  have m': "m \<notin> set qs" "m \<notin> set fs" using c m(1) by (auto simp: mq_chains_def)
  have "0 < card held" using m(1) mq_count(2) [OF c] by (auto simp: card_gt_0_iff)
  then have e: "unat (mq_entry mq + 1) = unat (mq_entry mq) + 1"
    using mq_count(1) [OF c] c unat_u16 [of "max_msgs mq"] by (simp add: mq_chains_def unat_word_ariths)
  have c': "mq_chains (mq_link_head m mq) (m # qs) fs (held - {m})"
    using c m m' e by (auto simp: mq_chains_def mq_link_head_def mq_chain_upd)
  have "holds_message (mq_link_head m mq) = holds_message mq"
    by (intro ext) (auto simp: holds_message_def mq_link_head_def Let_def)
  then show "mq_rep (mq_link_head m mq) (held - {m}) (msg # msgs)"
    using f c' h msg by (intro mq_repI) (auto simp: mq_link_head_def Let_def)
  show "mq_same mq (mq_link_head m mq)" by (auto simp: mq_same_def mq_link_head_def Let_def)
qed

lemma mq_take_head_rep:
  assumes rep: "mq_rep mq held (msg # msgs)"
  obtains m mq' where "mq_take_head mq = Some (m, mq')" and "m \<notin> held" and "mq_rep mq' (insert m held) msgs"
    and "holds_message mq' m msg" and "length (msg_data mq' m) = unat (msg_size mq)" and "mq_same mq mq'"
proof -
  obtain qs0 fs where c0: "mq_chains mq qs0 fs held" and h0: "list_all2 (holds_message mq) qs0 (msg # msgs)"
    and f: "ipc_flag_ok (ipc_flag mq)" "\<forall>m < unat (max_msgs mq). length (msg_data mq m) = unat (msg_size mq)"
    using rep by (rule mq_repE)
  obtain m qs where qs: "qs0 = m # qs" using h0 by (cases qs0) auto
  note c = c0 [unfolded qs] and h = h0 [unfolded qs]
  have hd: "msg_queue_head mq = Some m" using c by (simp add: mq_chains_def)
  have "mq_entry mq \<noteq> 0" using c by (auto simp: mq_chains_def)
  then have e: "unat (mq_entry mq - 1) = length qs" using c by (simp add: unat_minus_one mq_chains_def)
  let ?mq1 = "mq\<lparr>msg_queue_head := msg_next mq m\<rparr>"
  let ?mq2 = "if msg_queue_tail ?mq1 = Some m then ?mq1\<lparr>msg_queue_tail := None\<rparr> else ?mq1"
  let ?mq' = "?mq2\<lparr>mq_entry := mq_entry ?mq2 - 1\<rparr>"
  have c': "mq_chains ?mq' qs fs (insert m held)"
    using c e by (cases qs rule: rev_cases) (auto simp: mq_chains_def)
  have hm: "holds_message ?mq' = holds_message mq" by (intro ext) (simp add: holds_message_def)
  have t: "mq_take_head mq = Some (m, ?mq')" by (simp only: mq_take_head_def hd option.case Let_def)
  have nm: "m \<notin> held" using c by (auto simp: mq_chains_def)
  have r: "mq_rep ?mq' (insert m held) msgs" using c' h f hm by (intro mq_repI) auto
  show thesis
  proof (rule that [OF t nm r])
    show "holds_message ?mq' m msg" using h by (simp only: hm list_all2_Cons)
    have "m < unat (max_msgs mq)" using c by (auto simp: mq_chains_def)
    then show "length (msg_data ?mq' m) = unat (msg_size mq)" using f(2) by simp
    show "mq_same mq ?mq'" by (simp add: mq_same_def)
  qed
qed

section \<open>Sending\<close>

lemma mq_wake_returns:
  assumes k: "kernel_inv Od k"
  shows "returns (mq_wake mq k) (\<lambda>(mq', k', r). mq' = mq \<and> r = RT_EOK \<and> kernel_inv Od k' \<and>
    wakes_first (suspend_thread mq) k k')"
proof (cases "tlists k (Wait (suspend_thread mq)) = []")
  case True
  then show ?thesis using k by (simp add: mq_wake_def wakes_first_def)
next
  case False
  obtain k1 k' where "rt_ipc_list_resume (suspend_thread mq) k = Some (k1, RT_EOK)" "rt_schedule k1 = Some k'"
    "kernel_inv Od k'" "wakes_first (suspend_thread mq) k k'"
    by (rule wake_one [OF k False])
  then show ?thesis using False by (simp add: mq_wake_def)
qed

lemma mq_send_end_rep:
  assumes rep: "mq_rep mq held msgs" and m: "m \<in> held" and sz: "sz \<le> ucast (msg_size mq)" "unat sz \<le> length buffer"
  shows "mq_rep (mq_send_end m buffer sz mq) (held - {m}) (msgs @ [take (unat sz) buffer])"
    and "mq_same mq (mq_send_end m buffer sz mq)"
proof -
  let ?mq1 = "mq_copy_in m buffer sz (mq\<lparr>msg_next := (msg_next mq)(m := None)\<rparr>)"
  have r: "mq_rep ?mq1 held msgs" by (rule mq_copy_in_rep(1) [OF rep m sz])
  have h: "holds_message ?mq1 m (take (unat sz) buffer)"
    using mq_copy_in_rep(2) [OF rep m sz] by (simp add: holds_message_def mq_copy_in_def)
  have n: "msg_next ?mq1 m = None" by (simp add: mq_copy_in_def)
  have s: "mq_same mq ?mq1" by (simp add: mq_same_def mq_copy_in_def)
  show "mq_rep (mq_send_end m buffer sz mq) (held - {m}) (msgs @ [take (unat sz) buffer])"
    unfolding mq_send_end_def by (rule mq_link_tail_rep(1) [OF r m n h])
  show "mq_same mq (mq_send_end m buffer sz mq)"
    unfolding mq_send_end_def by (rule mq_same_trans [OF s mq_link_tail_rep(2) [OF r m n h]])
qed

lemma mq_urgent_end_rep:
  assumes rep: "mq_rep mq held msgs" and m: "m \<in> held" and sz: "sz \<le> ucast (msg_size mq)" "unat sz \<le> length buffer"
  shows "mq_rep (mq_urgent_end m buffer sz mq) (held - {m}) (take (unat sz) buffer # msgs)"
    and "mq_same mq (mq_urgent_end m buffer sz mq)"
proof -
  let ?mq1 = "mq_copy_in m buffer sz mq"
  have r: "mq_rep ?mq1 held msgs" using mq_copy_in_rep(1) [OF rep m sz, of "msg_next mq m"] by simp
  note h = mq_copy_in_rep(2) [OF rep m sz]
  have s: "mq_same mq ?mq1" by (simp add: mq_same_def mq_copy_in_def)
  show "mq_rep (mq_urgent_end m buffer sz mq) (held - {m}) (take (unat sz) buffer # msgs)"
    unfolding mq_urgent_end_def by (rule mq_link_head_rep(1) [OF r m h])
  show "mq_same mq (mq_urgent_end m buffer sz mq)"
    unfolding mq_urgent_end_def by (rule mq_same_trans [OF s mq_link_head_rep(2) [OF r m h]])
qed

lemma mq_send_returns:
  assumes k: "kernel_inv Od k" and rep: "mq_rep mq held msgs" and sz: "sz \<noteq> 0" "unat sz \<le> length buffer"
  shows "returns (if urgent then rt_mq_urgent mq buffer sz k else rt_mq_send mq buffer sz k) (\<lambda>(mq', k', r).
    kernel_inv Od k' \<and> mq_same mq mq' \<and>
    (if ucast (msg_size mq) < sz then r = - RT_ERROR \<and> mq' = mq \<and> k' = k
     else if length msgs + card held = unat (max_msgs mq) then r = - RT_EFULL \<and> mq' = mq \<and> k' = k
     else r = RT_EOK \<and> wakes_first (suspend_thread mq) k k' \<and>
       mq_rep mq' held (if urgent then take (unat sz) buffer # msgs else msgs @ [take (unat sz) buffer])))"
proof (cases "ucast (msg_size mq) < sz")
  case True
  then show ?thesis using k sz by (simp add: rt_mq_send_def rt_mq_urgent_def)
next
  case small: False
  then have le: "sz \<le> ucast (msg_size mq)" by simp
  show ?thesis
    using rep
  proof (cases rule: mq_take_free_rep)
    case full
    then show ?thesis using k sz small by (simp add: rt_mq_send_def rt_mq_urgent_def)
  next
    case (block m mq1)
    note sm = mq_sameD [OF block(4)]
    have m: "m \<in> insert m held" and le1: "sz \<le> ucast (msg_size mq1)" using le sm by simp_all
    have h: "insert m held - {m} = held" using block(2) by simp
    note e = mq_send_end_rep [OF block(3) m le1 sz(2), unfolded h]
    note u = mq_urgent_end_rep [OF block(3) m le1 sz(2), unfolded h]
    show ?thesis
    proof (cases urgent)
      case True
      have q: "suspend_thread (mq_urgent_end m buffer sz mq1) = suspend_thread mq"
        using mq_sameD(1) [OF u(2)] sm by simp
      from True show ?thesis
        using mq_wake_returns [OF k, of "mq_urgent_end m buffer sz mq1"] small sz block u mq_same_trans [OF block(4) u(2)]
        by (auto simp: rt_mq_urgent_def q elim!: returns_mono)
    next
      case False
      have q: "suspend_thread (mq_send_end m buffer sz mq1) = suspend_thread mq"
        using mq_sameD(1) [OF e(2)] sm by simp
      from False show ?thesis
        using mq_wake_returns [OF k, of "mq_send_end m buffer sz mq1"] small sz block e mq_same_trans [OF block(4) e(2)]
        by (auto simp: rt_mq_send_def q elim!: returns_mono)
    qed
  qed
qed

text \<open>
  C18. \<^verbatim>\<open>rt_mq_send\<close> and \<^verbatim>\<open>rt_mq_urgent\<close>: a message longer than the queue's message size
  is refused with \<^verbatim>\<open>-RT_ERROR\<close>; when every block is in the queue or in flight the call returns
  \<^verbatim>\<open>-RT_EFULL\<close>; neither changes anything. Otherwise the message becomes the last one, or the first
  one when it is urgent, and the first waiting receiver is made ready.
\<close>

theorem mq_send_correct:
  assumes k: "kernel_inv Od k" and rep: "mq_rep mq held msgs" and sz: "sz \<noteq> 0" "unat sz \<le> length buffer"
  shows "returns (if urgent then rt_mq_urgent mq buffer sz k else rt_mq_send mq buffer sz k) (\<lambda>(mq', k', r).
    kernel_inv Od k' \<and> mq_same mq mq' \<and>
    (if ucast (msg_size mq) < sz then r = - RT_ERROR \<and> mq' = mq \<and> k' = k
     else if length msgs + card held = unat (max_msgs mq) then r = - RT_EFULL \<and> mq' = mq \<and> k' = k
     else r = RT_EOK \<and> wakes_first (suspend_thread mq) k k' \<and>
       mq_rep mq' held (if urgent then take (unat sz) buffer # msgs else msgs @ [take (unat sz) buffer])))"
  by (rule mq_send_returns [OF assms(1) assms(2) assms(3) assms(4)])

section \<open>Receiving\<close>

lemma mq_recv_message:
  assumes rep: "mq_rep mq held (msg # msgs)"
  obtains mq' bytes where "mq_recv_round mq sz timeout k = Some (mq', k, Returns (RT_EOK, Some bytes))"
    and "mq_rep mq' held msgs" and "mq_same mq mq'" and "length bytes = min (unat sz) (unat (msg_size mq))"
    and "take (length msg) bytes = take (length bytes) msg"
proof -
  obtain m mq1 where t: "mq_take_head mq = Some (m, mq1)" "m \<notin> held" "mq_rep mq1 (insert m held) msgs"
    "holds_message mq1 m msg" "length (msg_data mq1 m) = unat (msg_size mq)" "mq_same mq mq1"
    by (rule mq_take_head_rep [OF rep])
  have h: "insert m held - {m} = held" using t(2) by simp
  note p = mq_put_free_rep [OF t(3) insertI1, unfolded h]
  have "mq_entry mq \<noteq> 0" using mq_rep_bound(2) [OF rep] by simp
  then have r: "mq_recv_round mq sz timeout k =
      Some (mq_put_free m mq1, k, Returns (RT_EOK, Some (mq_copy_out m sz mq1)))"
    using t(1) by (simp add: mq_recv_round_def)
  have u: "unat (if ucast (msg_size mq1) < sz then ucast (msg_size mq1) else sz) = min (unat sz) (unat (msg_size mq))"
    using mq_sameD(2) [OF t(6)] by (simp add: word_less_nat_alt)
  show thesis
  proof (rule that [OF r p(1) mq_same_trans [OF t(6) p(2)]])
    show "length (mq_copy_out m sz mq1) = min (unat sz) (unat (msg_size mq))"
      unfolding mq_copy_out_def u using t(5) by simp
    show "take (length msg) (mq_copy_out m sz mq1) = take (length (mq_copy_out m sz mq1)) msg"
      unfolding mq_copy_out_def u by (rule take_take_prefix) (use t(4,5) in \<open>simp_all add: holds_message_def\<close>)
  qed
qed

text \<open>
  C19. \<^verbatim>\<open>rt_mq_recv\<close>: when there is a message the first one is taken out, the bytes
  returned are its bytes, as many as the buffer and the message size allow, and its block is free
  again; otherwise the call returns \<^verbatim>\<open>-RT_ETIMEOUT\<close> when it has no waiting time and else queues the
  caller and runs another thread.
\<close>

theorem mq_recv_correct:
  assumes k: "kernel_inv Od k" and rep: "mq_rep mq held msgs" and sz: "sz \<noteq> 0"
    and block: "msgs = [] \<Longrightarrow> timeout \<noteq> 0 \<Longrightarrow> may_block k c \<and> rt_interrupt_nest k = 0 \<and>
      rt_scheduler_lock_nest k = 0 \<and> wait_time_ok timeout"
  shows "returns (rt_mq_recv mq sz timeout k) (\<lambda>(mq', k', r). kernel_inv Od k' \<and> mq_same mq mq' \<and>
    mq_rep mq' held (tl msgs) \<and>
    (case msgs of
       msg # _ \<Rightarrow> k' = k \<and> (\<exists>bytes. r = Returns (RT_EOK, Some bytes) \<and>
         length bytes = min (unat sz) (unat (msg_size mq)) \<and> take (length msg) bytes = take (length bytes) msg)
     | [] \<Rightarrow>
         if timeout = 0 then r = Returns (- RT_ETIMEOUT, None) \<and> k' = k \<and> mq' = mq
         else r = Waiting (if 0 < sint timeout then rt_tick k else 0) \<and> mq' = mq \<and> rt_current_thread k' \<noteq> Some c \<and>
           scheduled k' \<and> tlists k' (Wait (suspend_thread mq)) =
             enqueue (ipc_flag mq) (prio_of k) c (tlists k (Wait (suspend_thread mq)))))"
proof (cases msgs)
  case (Cons msg rest)
  obtain mq' bytes where r: "mq_recv_round mq sz timeout k = Some (mq', k, Returns (RT_EOK, Some bytes))"
    "mq_rep mq' held rest" "mq_same mq mq'" "length bytes = min (unat sz) (unat (msg_size mq))"
    "take (length msg) bytes = take (length bytes) msg"
    by (rule mq_recv_message [OF rep [unfolded Cons]])
  have "mq_entry mq \<noteq> 0" using mq_rep_bound(2) [OF rep] Cons by simp
  then show ?thesis using r k sz Cons by (simp add: rt_mq_recv_def)
next
  case Nil
  then have empty: "mq_entry mq = 0" using mq_rep_bound(2) [OF rep] by simp
  show ?thesis
  proof (cases "timeout = 0")
    case False
    then have b: "may_block k c" "rt_interrupt_nest k = 0" "rt_scheduler_lock_nest k = 0" "wait_time_ok timeout"
      using block Nil by auto
    have cur: "rt_current_thread k = Some c" using b(1) by (simp add: may_block_def)
    have flag: "ipc_flag_ok (ipc_flag mq)" using rep by (simp add: mq_rep_def)
    have ctx: "in_thread_context k = Some c" by (rule in_thread_context_eq) (simp_all add: cur b)
    obtain k2 k' where r: "suspend_with_timeout (suspend_thread mq) c (ipc_flag mq) timeout
        (upd_thread c (\<lambda>th. th\<lparr>error := RT_EOK\<rparr>) k) = Some k2" "rt_schedule k2 = Some k'" "kernel_inv Od k'"
      "scheduled k'" "rt_current_thread k' \<noteq> Some c"
      "tlists k' (Wait (suspend_thread mq)) =
        enqueue (ipc_flag mq) (prio_of k) c (tlists k (Wait (suspend_thread mq)))"
      by (rule round_blocks [OF k b(1) flag b(4,3), of "suspend_thread mq"]) blast
    show ?thesis
      using False r rep Nil empty sz
      by (simp add: rt_mq_recv_def mq_recv_round_def rt_tick_get_def ctx)
  qed (use k rep Nil empty sz in \<open>simp add: rt_mq_recv_def\<close>)
qed

section \<open>Setting up and resetting\<close>

lemma mq_init_free_chain:
  defines "step \<equiv> \<lambda>temp mq. mq\<lparr>msg_next := (msg_next mq)(temp := msg_queue_free mq), msg_queue_free := Some temp\<rparr>"
  shows "\<exists>nx fr. fold step [0..<n] (mq\<lparr>msg_queue_free := None\<rparr>) = mq\<lparr>msg_next := nx, msg_queue_free := fr\<rparr> \<and>
    mq_chain nx fr (rev [0..<n])"
proof (induction n)
  case 0
  show ?case by (intro exI [of _ "msg_next mq"] exI [of _ None]) simp
next
  case (Suc n)
  then obtain nx fr where IH: "fold step [0..<n] (mq\<lparr>msg_queue_free := None\<rparr>) = mq\<lparr>msg_next := nx, msg_queue_free := fr\<rparr>"
    "mq_chain nx fr (rev [0..<n])" by blast
  have "step n (mq\<lparr>msg_next := nx, msg_queue_free := fr\<rparr>) = mq\<lparr>msg_next := nx(n := fr), msg_queue_free := Some n\<rparr>"
    by (simp add: step_def)
  then have "fold step [0..<Suc n] (mq\<lparr>msg_queue_free := None\<rparr>) = mq\<lparr>msg_next := nx(n := fr), msg_queue_free := Some n\<rparr>"
    using IH(1) by simp
  moreover have "mq_chain (nx(n := fr)) (Some n) (rev [0..<Suc n])" using IH(2) by (simp add: mq_chain_upd)
  ultimately show ?case by blast
qed

text \<open>
  \<^verbatim>\<open>rt_mq_init\<close>: the queue is empty and every block is free; the blocks lie inside
  the buffer; and the kernel's lists and threads are as before, with an empty waiting list.
\<close>

theorem mq_init_correct:
  assumes k: "kernel_inv Od k" and fresh: "tlists k (Wait q) = []" and flag: "ipc_flag_ok flag"
    and data: "\<forall>m. length (data m) = unat (ucast (RT_ALIGN sz RT_ALIGN_SIZE) :: u16)"
  shows "case rt_mq_init ob q name msgpool nx data sz pool_size flag k of (mq, k', r) \<Rightarrow>
    r = RT_EOK \<and> kernel_inv Od k' \<and> mq_rep mq {} [] \<and> suspend_thread mq = q \<and> tlists k' (Wait q) = [] \<and>
    unat (max_msgs mq) * (unat (msg_size mq) + 4) \<le> unat pool_size"
proof -
  define sz' where "sz' = (ucast (RT_ALIGN sz RT_ALIGN_SIZE) :: u16)"
  define n where "n = (ucast (pool_size div (ucast sz' + sizeof_mq_message)) :: u16)"
  let ?mq0 = "\<lparr>ipc_obj = ob, ipc_flag = flag, suspend_thread = q, mq_msg_pool = msgpool, msg_size = sz',
    max_msgs = n, mq_entry = 0, msg_queue_head = None, msg_queue_tail = None, msg_queue_free = None,
    msg_next = nx, msg_data = data\<rparr>"
  obtain nx' fr where f: "mq_init_free ?mq0 = ?mq0\<lparr>msg_next := nx', msg_queue_free := fr\<rparr>"
    "mq_chain nx' fr (rev [0..<unat n])"
    using mq_init_free_chain [of "unat n" ?mq0] by (auto simp: mq_init_free_def)
  have c: "mq_chains (mq_init_free ?mq0) [] (rev [0..<unat n]) {}"
    using f by (simp add: mq_chains_def atLeast_upt)
  have rep: "mq_rep (mq_init_free ?mq0) {} []"
    by (rule mq_repI [OF c]) (use data flag in \<open>simp_all add: f(1) sz'_def [symmetric]\<close>)
  have sum: "unat (ucast sz' + sizeof_mq_message :: u32) = unat sz' + 4"
    using unat_u16 [of sz'] by (simp add: unat_word_ariths sizeof_mq_message_def)
  have "unat n \<le> unat (pool_size div (ucast sz' + sizeof_mq_message))"
    by (simp add: n_def unsigned_ucast_eq take_bit_nat_less_eq_self)
  also have "\<dots> = unat pool_size div (unat sz' + 4)" by (simp add: unat_div sum)
  finally have "unat n * (unat sz' + 4) \<le> unat pool_size"
    by (metis div_times_less_eq_dividend le_trans mult_le_mono1)
  then show ?thesis
    using k fresh rep ipc_init_inv [OF k fresh, of ob RT_Object_Class_MessageQueue name]
    by (simp add: rt_mq_init_def Let_def sz'_def [symmetric] n_def [symmetric] f(1))
qed

lemma mq_release_all_chains:
  "mq_chains (mq\<lparr>mq_entry := e\<rparr>) qs fs held \<Longrightarrow>
     \<exists>mq'. mq_release_all mq = Some mq' \<and> mq_chains (mq'\<lparr>mq_entry := 0\<rparr>) [] (rev qs @ fs) held \<and>
       mq_same mq mq' \<and> msg_data mq' = msg_data mq"
proof (induction qs arbitrary: mq e fs)
  case Nil
  have "msg_queue_head mq = None" using Nil by (simp add: mq_chains_def)
  then have "mq_release_all mq = Some mq" by (subst mq_release_all.simps) simp
  then show ?case using Nil by (simp add: mq_chains_def)
next
  case (Cons m qs)
  let ?mq1 = "mq\<lparr>msg_queue_head := msg_next mq m\<rparr>"
  let ?mq2 = "if msg_queue_tail ?mq1 = Some m then ?mq1\<lparr>msg_queue_tail := None\<rparr> else ?mq1"
  let ?mq3 = "mq_put_free m ?mq2"
  have hd: "msg_queue_head mq = Some m" using Cons.prems by (simp add: mq_chains_def)
  have "e \<noteq> 0" using Cons.prems by (auto simp: mq_chains_def)
  then have "unat (e - 1) = length qs" using Cons.prems by (simp add: unat_minus_one mq_chains_def)
  then have c: "mq_chains (?mq3\<lparr>mq_entry := e - 1\<rparr>) qs (m # fs) held"
    using Cons.prems by (cases qs rule: rev_cases) (auto simp: mq_chains_def mq_put_free_def mq_chain_upd)
  have s: "mq_same mq ?mq3" "msg_data ?mq3 = msg_data mq" by (simp_all add: mq_same_def mq_put_free_def)
  have step: "mq_release_all mq = mq_release_all ?mq3"
    by (subst mq_release_all.simps) (simp only: hd option.case Let_def)
  from Cons.IH [OF c] obtain mq' where "mq_release_all ?mq3 = Some mq'"
    "mq_chains (mq'\<lparr>mq_entry := 0\<rparr>) [] (rev qs @ m # fs) held" "mq_same ?mq3 mq'" "msg_data mq' = msg_data ?mq3"
    by blast
  then show ?case using s mq_same_trans [OF s(1)] by (simp only: step) auto
qed

text \<open>
  The reset command empties the queue, returns every block to the free list
  (the loop ends), and wakes every waiting receiver with an error.
\<close>

theorem mq_reset_correct:
  assumes k: "kernel_inv Od k" and rep: "mq_rep mq held msgs"
  shows "returns (rt_mq_control mq RT_IPC_CMD_RESET arg k) (\<lambda>(mq', k', r). r = RT_EOK \<and> kernel_inv Od k' \<and>
    mq_rep mq' held [] \<and> mq_same mq mq' \<and> tlists k' (Wait (suspend_thread mq)) = [] \<and> scheduled k' \<and>
    (\<forall>t \<in> set (tlists k (Wait (suspend_thread mq))).
       stat (threads k' t) = RT_THREAD_READY \<and> error (threads k' t) = - RT_ERROR))"
proof -
  obtain qs fs where c: "mq_chains mq qs fs held"
    and f: "ipc_flag_ok (ipc_flag mq)" "\<forall>m < unat (max_msgs mq). length (msg_data mq m) = unat (msg_size mq)"
    using rep by (rule mq_repE)
  have "mq_chains (mq\<lparr>mq_entry := mq_entry mq\<rparr>) qs fs held" using c by simp
  then obtain mq' where m: "mq_release_all mq = Some mq'" "mq_chains (mq'\<lparr>mq_entry := 0\<rparr>) [] (rev qs @ fs) held"
    "mq_same mq mq'" "msg_data mq' = msg_data mq"
    using mq_release_all_chains by blast
  have rep': "mq_rep (mq'\<lparr>mq_entry := 0\<rparr>) held []"
    by (rule mq_repI [OF m(2)]) (use f m mq_sameD [OF m(3)] in simp_all)
  obtain k1 where k1: "rt_ipc_list_resume_all (suspend_thread mq) k = Some (k1, RT_EOK)" "kernel_inv Od k1"
    "tlists k1 (Wait (suspend_thread mq)) = []" "all_woken (set (tlists k (Wait (suspend_thread mq)))) k k1"
    using resume_all_returns [OF k, of "suspend_thread mq"] by (auto simp: returns_iff)
  obtain k' where k': "rt_schedule k1 = Some k'" "kernel_inv Od k'" "scheduled k'" "tlists k' = tlists k1"
    "threads k' = threads k1"
    by (rule release_schedule [OF k1(2)])
  show ?thesis
    using m k1 k' rep' by (simp add: rt_mq_control_def all_woken_def) (simp add: mq_same_def)
qed

section \<open>Interleaved senders and receivers\<close>

text \<open>
  Calls that are between their two critical sections: a sender with its block, its buffer and
  whether it is urgent; a receiver with its block and, as a history, the bytes the block had when
  it left the queue.
\<close>

datatype mq_task = Sending nat "u8 list" u32 bool | Receiving nat "u8 list"

datatype mq_event = Begun | Sent "u8 list" bool | Took "u8 list" | Ended

text \<open>The critical sections of any number of concurrent calls, in any order.\<close>

inductive mq_step ::
  "rt_messagequeue \<times> (tid \<Rightarrow> mq_task option) \<Rightarrow> mq_event \<Rightarrow> rt_messagequeue \<times> (tid \<Rightarrow> mq_task option) \<Rightarrow> bool"
where
  send_begin: "ts t = None \<Longrightarrow> sz \<noteq> 0 \<Longrightarrow> sz \<le> ucast (msg_size mq) \<Longrightarrow> unat sz \<le> length buffer \<Longrightarrow>
    mq_take_free mq = (Some m, mq') \<Longrightarrow> mq_step (mq, ts) Begun (mq', ts(t \<mapsto> Sending m buffer sz urgent))"
| send_end: "ts t = Some (Sending m buffer sz urgent) \<Longrightarrow>
    mq' = (if urgent then mq_urgent_end m buffer sz mq else mq_send_end m buffer sz mq) \<Longrightarrow>
    mq_step (mq, ts) (Sent (take (unat sz) buffer) urgent) (mq', ts(t := None))"
| recv_begin: "ts t = None \<Longrightarrow> mq_take_head mq = Some (m, mq') \<Longrightarrow>
    mq_step (mq, ts) (Took (msg_data mq' m)) (mq', ts(t \<mapsto> Receiving m (msg_data mq' m)))"
| recv_end: "ts t = Some (Receiving m d) \<Longrightarrow> mq_step (mq, ts) Ended (mq_put_free m mq, ts(t := None))"

inductive_cases mq_stepE: "mq_step (mq, ts) ev s'"

inductive mq_run ::
  "rt_messagequeue \<times> (tid \<Rightarrow> mq_task option) \<Rightarrow> mq_event list \<Rightarrow> rt_messagequeue \<times> (tid \<Rightarrow> mq_task option) \<Rightarrow> bool"
where
  "mq_run s [] s"
| "mq_step s ev s1 \<Longrightarrow> mq_run s1 evs s2 \<Longrightarrow> mq_run s (ev # evs) s2"

text \<open>The same events on a plain list of messages.\<close>

fun queue_events :: "mq_event list \<Rightarrow> u8 list list \<Rightarrow> u8 list list option" where
  "queue_events [] msgs = Some msgs"
| "queue_events (Sent msg urgent # evs) msgs = queue_events evs (if urgent then msg # msgs else msgs @ [msg])"
| "queue_events (Took bytes # evs) (msg # msgs) =
     (if take (length msg) bytes = msg then queue_events evs msgs else None)"
| "queue_events (Took bytes # evs) [] = None"
| "queue_events (_ # evs) msgs = queue_events evs msgs"

fun task_block :: "mq_task \<Rightarrow> nat" where
  "task_block (Sending m buffer sz urgent) = m"
| "task_block (Receiving m d) = m"

fun task_ok :: "rt_messagequeue \<Rightarrow> mq_task \<Rightarrow> bool" where
  "task_ok mq (Sending m buffer sz urgent) \<longleftrightarrow> sz \<le> ucast (msg_size mq) \<and> unat sz \<le> length buffer"
| "task_ok mq (Receiving m d) \<longleftrightarrow> msg_data mq m = d"

definition task_blocks :: "(tid \<Rightarrow> mq_task option) \<Rightarrow> nat set" where
  "task_blocks ts = task_block ` ran ts"

definition mq_conc :: "rt_messagequeue \<times> (tid \<Rightarrow> mq_task option) \<Rightarrow> u8 list list \<Rightarrow> bool" where
  "mq_conc s msgs \<longleftrightarrow> (case s of (mq, ts) \<Rightarrow> mq_rep mq (task_blocks ts) msgs \<and>
     (\<forall>t t' k k'. ts t = Some k \<longrightarrow> ts t' = Some k' \<longrightarrow> task_block k = task_block k' \<longrightarrow> t = t') \<and>
     (\<forall>t k. ts t = Some k \<longrightarrow> task_ok mq k))"

lemma task_blocks_iff: "m \<in> task_blocks ts \<longleftrightarrow> (\<exists>t k. ts t = Some k \<and> task_block k = m)"
  by (auto simp: task_blocks_def ran_def)

lemma task_blocks_upd:
  "ts t = None \<Longrightarrow> task_blocks (ts(t \<mapsto> k)) = insert (task_block k) (task_blocks ts)"
  by (simp add: task_blocks_def ran_map_upd)

lemma mq_concD:
  assumes "mq_conc (mq, ts) msgs"
  shows "mq_rep mq (task_blocks ts) msgs" and "ts t = Some k \<Longrightarrow> task_ok mq k"
    and "ts t = Some k \<Longrightarrow> ts t' = Some k' \<Longrightarrow> task_block k = task_block k' \<Longrightarrow> t = t'"
  using assms unfolding mq_conc_def by auto

lemma task_blocks_clear:
  assumes c: "mq_conc (mq, ts) msgs" and t: "ts t = Some k"
  shows "task_blocks (ts(t := None)) = task_blocks ts - {task_block k}" and "task_block k \<in> task_blocks ts"
proof -
  show "task_block k \<in> task_blocks ts" using t by (auto simp: task_blocks_def ran_def)
  have ne: "task_block k' \<noteq> task_block k" if "ts t' = Some k'" "t' \<noteq> t" for t' k'
    using mq_concD(3) [OF c that(1) t] that(2) by blast
  have "m \<in> task_blocks (ts(t := None)) \<longleftrightarrow> m \<in> task_blocks ts \<and> m \<noteq> task_block k" for m
  proof
    assume "m \<in> task_blocks (ts(t := None))"
    then obtain t' k' where "ts t' = Some k'" "t' \<noteq> t" "task_block k' = m"
      by (auto simp: task_blocks_iff split: if_splits)
    then show "m \<in> task_blocks ts \<and> m \<noteq> task_block k" using ne by (auto simp: task_blocks_iff)
  next
    assume m: "m \<in> task_blocks ts \<and> m \<noteq> task_block k"
    then obtain t' k' where "ts t' = Some k'" "task_block k' = m" by (auto simp: task_blocks_iff)
    moreover have "t' \<noteq> t" using calculation t m by auto
    ultimately show "m \<in> task_blocks (ts(t := None))" by (auto simp: task_blocks_iff)
  qed
  then show "task_blocks (ts(t := None)) = task_blocks ts - {task_block k}" by blast
qed

lemma mq_concI:
  assumes "mq_rep mq (task_blocks ts) msgs" and "\<And>t k. ts t = Some k \<Longrightarrow> task_ok mq k"
    and "\<And>t t' k k'. ts t = Some k \<Longrightarrow> ts t' = Some k' \<Longrightarrow> task_block k = task_block k' \<Longrightarrow> t = t'"
  shows "mq_conc (mq, ts) msgs"
  using assms unfolding mq_conc_def by blast

lemma task_ok_frame:
  "task_ok mq k \<Longrightarrow> mq_same mq mq' \<Longrightarrow> msg_data mq' (task_block k) = msg_data mq (task_block k) \<Longrightarrow> task_ok mq' k"
  by (cases k) (auto simp: mq_sameD)

text \<open>A call enters with a block nobody holds, or leaves with its own.\<close>

lemma mq_conc_enter:
  assumes c: "mq_conc (mq, ts) msgs" and t: "ts t = None" and new: "task_block k \<notin> task_blocks ts"
    and rep: "mq_rep mq' (insert (task_block k) (task_blocks ts)) msgs'" and k: "task_ok mq' k"
    and same: "mq_same mq mq'" "msg_data mq' = msg_data mq"
  shows "mq_conc (mq', ts(t \<mapsto> k)) msgs'"
proof (rule mq_concI)
  have new': "task_block k' \<noteq> task_block k" if "ts t' = Some k'" for t' k'
    using new that by (auto simp: task_blocks_iff)
  show "mq_rep mq' (task_blocks (ts(t \<mapsto> k))) msgs'" using rep t by (simp add: task_blocks_upd)
  show "task_ok mq' k'" if "(ts(t \<mapsto> k)) t' = Some k'" for t' k'
    using that k task_ok_frame [OF mq_concD(2) [OF c] same(1)] same(2) by (auto split: if_splits)
  show "t1 = t2" if "(ts(t \<mapsto> k)) t1 = Some k1" "(ts(t \<mapsto> k)) t2 = Some k2" "task_block k1 = task_block k2"
    for t1 t2 k1 k2
    using that new' mq_concD(3) [OF c] by (auto split: if_splits)
qed

lemma mq_conc_leave:
  assumes c: "mq_conc (mq, ts) msgs" and t: "ts t = Some k"
    and rep: "mq_rep mq' (task_blocks ts - {task_block k}) msgs'"
    and same: "mq_same mq mq'" "\<And>m. m \<noteq> task_block k \<Longrightarrow> msg_data mq' m = msg_data mq m"
  shows "mq_conc (mq', ts(t := None)) msgs'"
proof (rule mq_concI)
  show "mq_rep mq' (task_blocks (ts(t := None))) msgs'" using rep by (simp only: task_blocks_clear(1) [OF c t])
  show "task_ok mq' k'" if "(ts(t := None)) t' = Some k'" for t' k'
  proof -
    have t': "ts t' = Some k'" "t' \<noteq> t" using that by (auto split: if_splits)
    then have "task_block k' \<noteq> task_block k" using mq_concD(3) [OF c t'(1) t] by blast
    then show ?thesis using task_ok_frame [OF mq_concD(2) [OF c t'(1)] same(1)] same(2) by blast
  qed
  show "t1 = t2" if "(ts(t := None)) t1 = Some k1" "(ts(t := None)) t2 = Some k2" "task_block k1 = task_block k2"
    for t1 t2 k1 k2
    using that mq_concD(3) [OF c] by (auto split: if_splits)
qed

lemma mq_send_ends_data:
  "m' \<noteq> m \<Longrightarrow> msg_data (mq_send_end m buffer sz mq) m' = msg_data mq m'"
  "m' \<noteq> m \<Longrightarrow> msg_data (mq_urgent_end m buffer sz mq) m' = msg_data mq m'"
  by (auto simp: mq_send_end_def mq_urgent_end_def mq_link_tail_def mq_link_head_def mq_copy_in_def Let_def
      split: option.splits)

lemma mq_take_free_data: "mq_take_free mq = (Some m, mq') \<Longrightarrow> msg_data mq' = msg_data mq"
  by (auto simp: mq_take_free_def split: option.splits)

lemma mq_take_head_data: "mq_take_head mq = Some (m, mq') \<Longrightarrow> msg_data mq' = msg_data mq"
  by (auto simp: mq_take_head_def Let_def split: option.splits)

text \<open>One critical section keeps the invariant and is one event of the list.\<close>

lemma mq_step_event:
  assumes c: "mq_conc s msgs" and st: "mq_step s ev s'"
  obtains msgs' where "mq_conc s' msgs'" and "\<And>evs. queue_events (ev # evs) msgs = queue_events evs msgs'"
  using st c
proof cases
  case (send_begin ts t sz mq buffer m mq' urgent)
  note c' = c [unfolded send_begin(1)]
  show thesis
    using mq_concD(1) [OF c']
  proof (cases rule: mq_take_free_rep)
    case full
    then show thesis using send_begin by simp
  next
    case (block m1 mq1)
    then have e: "m1 = m" "mq1 = mq'" using send_begin by simp_all
    have "mq_conc s' msgs"
      unfolding send_begin(3)
      by (rule mq_conc_enter [OF c']) (use send_begin block e mq_take_free_data mq_sameD [OF block(4)] in simp_all)
    then show thesis by (rule that) (simp add: send_begin(2))
  qed
next
  case (send_end ts t m buffer sz urgent mq' mq)
  note c' = c [unfolded send_end(1)]
  note ok = mq_concD(2) [OF c' send_end(4), simplified]
  note m = task_blocks_clear(2) [OF c' send_end(4), simplified]
  note e = mq_send_end_rep [OF mq_concD(1) [OF c'] m ok [THEN conjunct1] ok [THEN conjunct2]]
  note u = mq_urgent_end_rep [OF mq_concD(1) [OF c'] m ok [THEN conjunct1] ok [THEN conjunct2]]
  have "mq_conc s' (if urgent then take (unat sz) buffer # msgs else msgs @ [take (unat sz) buffer])"
    unfolding send_end(3)
    by (rule mq_conc_leave [OF c' send_end(4)]) (use e u send_end(5) mq_send_ends_data in simp_all)
  then show thesis by (rule that) (simp add: send_end(2))
next
  case (recv_begin ts t mq m mq')
  note c' = c [unfolded recv_begin(1)]
  show thesis
  proof (cases msgs)
    case Nil
    then obtain qs fs where "mq_chains mq qs fs (task_blocks ts)" "list_all2 (holds_message mq) qs []"
      using mq_concD(1) [OF c'] by (auto simp: mq_rep_def)
    then have "msg_queue_head mq = None" by (simp add: mq_chains_def)
    then show thesis using recv_begin by (simp add: mq_take_head_def)
  next
    case (Cons msg rest)
    obtain m1 mq1 where h: "mq_take_head mq = Some (m1, mq1)" "m1 \<notin> task_blocks ts"
      "mq_rep mq1 (insert m1 (task_blocks ts)) rest" "holds_message mq1 m1 msg" "mq_same mq mq1"
      by (rule mq_take_head_rep [OF mq_concD(1) [OF c', unfolded Cons]])
    then have e: "m1 = m" "mq1 = mq'" using recv_begin by simp_all
    have "mq_conc s' rest"
      unfolding recv_begin(3)
      by (rule mq_conc_enter [OF c']) (use recv_begin h e mq_take_head_data in simp_all)
    then show thesis by (rule that) (use h(4) e in \<open>simp add: recv_begin(2) Cons holds_message_def\<close>)
  qed
next
  case (recv_end ts t m d mq)
  note c' = c [unfolded recv_end(1)]
  note m = task_blocks_clear(2) [OF c' recv_end(4), simplified]
  note p = mq_put_free_rep [OF mq_concD(1) [OF c'] m]
  have "mq_conc s' msgs"
    unfolding recv_end(3)
    by (rule mq_conc_leave [OF c' recv_end(4)]) (use p in \<open>simp_all add: mq_put_free_def\<close>)
  then show thesis by (rule that) (simp add: recv_end(2))
qed

lemma mq_run_events:
  "mq_run s evs s' \<Longrightarrow> mq_conc s msgs \<Longrightarrow> \<exists>msgs'. queue_events evs msgs = Some msgs' \<and> mq_conc s' msgs'"
proof (induction arbitrary: msgs rule: mq_run.induct)
  case (2 s ev s1 evs s2)
  obtain msgs1 where "mq_conc s1 msgs1" "\<And>evs. queue_events (ev # evs) msgs = queue_events evs msgs1"
    by (rule mq_step_event [OF 2(4) 2(1)]) blast
  then show ?case using 2(3) by auto
qed auto

text \<open>
  C20. Senders and receivers whose critical sections interleave in any order: the
  events they produce are a run of a list of messages (each message taken out is the first one at
  that moment, and nothing is lost or invented), the blocks in flight are all different and none is
  in the queue or free, and the bytes a receiver is about to copy are still those it took.
\<close>

theorem mq_interleaving:
  assumes rep: "mq_rep mq {} msgs" and run: "mq_run (mq, \<lambda>_. None) evs (mq', ts)"
  shows "\<exists>msgs'. queue_events evs msgs = Some msgs' \<and> mq_rep mq' (task_blocks ts) msgs' \<and>
    (\<forall>t t' k k'. ts t = Some k \<longrightarrow> ts t' = Some k' \<longrightarrow> t \<noteq> t' \<longrightarrow> task_block k \<noteq> task_block k') \<and>
    (\<forall>t m d. ts t = Some (Receiving m d) \<longrightarrow> msg_data mq' m = d)"
proof -
  have "mq_conc (mq, \<lambda>_. None) msgs" using rep by (simp add: mq_conc_def task_blocks_def)
  from mq_run_events [OF run this] obtain msgs' where
    q: "queue_events evs msgs = Some msgs'" and c: "mq_conc (mq', ts) msgs'" by blast
  show ?thesis using q mq_concD(1) [OF c] mq_concD(2) [OF c] mq_concD(3) [OF c] by fastforce
qed

section \<open>A message queue is a bounded queue\<close>








section \<open>A concrete queue\<close>

definition ex_mq :: rt_messagequeue where
  "ex_mq = \<lparr>ipc_obj = Obj_MessageQueue 0, ipc_flag = RT_IPC_FLAG_FIFO, suspend_thread = 0, mq_msg_pool = 0x20002000,
     msg_size = 4, max_msgs = 3, mq_entry = 1, msg_queue_head = Some 1, msg_queue_tail = Some 1,
     msg_queue_free = Some 2, msg_next = (\<lambda>_. None)(2 := Some 0),
     msg_data = (\<lambda>_. [0, 0, 0, 0])(1 := [7, 8, 9, 6])\<rparr>"

lemma ex_mq_simps [simp]:
  "suspend_thread ex_mq = 0" "ipc_flag ex_mq = RT_IPC_FLAG_FIFO" "msg_size ex_mq = 4" "max_msgs ex_mq = 3"
  by (simp_all add: ex_mq_def)

lemma ex_mq_rep: "mq_rep ex_mq {} [[7, 8, 9, 6]]"
proof (rule mq_repI)
  show "mq_chains ex_mq [1] [2, 0] {}" by (auto simp: mq_chains_def ex_mq_def)
qed (auto simp: ex_mq_def holds_message_def ipc_flag_ok_def)


lemma mq_send_correct_witness:
  "returns (rt_mq_urgent ex_mq [1, 2] 2 ex_wait) (\<lambda>(mq', k', r). r = RT_EOK \<and> mq_rep mq' {} [[1, 2], [7, 8, 9, 6]] \<and>
     tlists k' (Wait 0) = [3])"
  using mq_send_correct [OF ex_wait_inv [of "{}"] ex_mq_rep, of 2 "[1, 2]" True]
  by (auto simp: wakes_first_def elim!: returns_mono)

lemma mq_recv_correct_witness:
  "returns (rt_mq_recv ex_mq 3 0 ex_run) (\<lambda>(mq', k', r). r = Returns (RT_EOK, Some [7, 8, 9]) \<and> mq_rep mq' {} [])"
proof -
  have "take 4 bytes = [7, 8, 9] \<Longrightarrow> length bytes = 3 \<Longrightarrow> bytes = [7, 8, 9]" for bytes :: "u8 list" by simp
  then show ?thesis
    using mq_recv_correct [OF ex_run_inv [of "{}"] ex_mq_rep, of 3 0]
    by (auto elim!: returns_mono)
qed

lemma mq_init_correct_witness:
  "case rt_mq_init (Obj_MessageQueue 1) 1 ''mq'' 0x20003000 (\<lambda>_. None) (\<lambda>_. [0, 0, 0, 0, 0, 0, 0, 0]) 5 100 RT_IPC_FLAG_PRIO ex_wait of
     (mq, k', r) \<Rightarrow> kernel_inv {} k' \<and> mq_rep mq {} []"
proof -
  have a: "RT_ALIGN 5 RT_ALIGN_SIZE = 8" by (simp add: RT_ALIGN_def RT_ALIGN_SIZE_def)
  show ?thesis
    using mq_init_correct [OF ex_wait_inv [of "{}"], where q = 1 and flag = RT_IPC_FLAG_PRIO and
      data = "\<lambda>_. [0, 0, 0, 0, 0, 0, 0, 0]" and sz = 5 and ob =
      "Obj_MessageQueue 1" and name = "''mq''" and msgpool = "0x20003000" and nx = "\<lambda>_. None" and pool_size = 100]
    by (auto simp: a ipc_flag_ok_def)
qed

lemma mq_reset_correct_witness:
  "returns (rt_mq_control ex_mq RT_IPC_CMD_RESET 0 ex_wait) (\<lambda>(mq', k', r). mq_rep mq' {} [] \<and>
     tlists k' (Wait 0) = [] \<and> error (threads k' 3) = - RT_ERROR)"
  using mq_reset_correct [OF ex_wait_inv [of "{}"] ex_mq_rep, of 0] by (auto elim!: returns_mono)


lemma mq_interleaving_witness:
  "\<exists>evs mq' ts msgs'. evs = [Begun, Took [7, 8, 9, 6], Sent [5] False] \<and> mq_run (ex_mq, \<lambda>_. None) evs (mq', ts) \<and>
     queue_events evs [[7, 8, 9, 6]] = Some msgs' \<and> mq_rep mq' (task_blocks ts) msgs'"
proof -
  obtain mq1 where f: "mq_take_free ex_mq = (Some 2, mq1)" by (simp add: mq_take_free_def ex_mq_def)
  have m1: "mq1 = ex_mq\<lparr>msg_queue_free := Some 0\<rparr>" using f by (simp add: mq_take_free_def ex_mq_def)
  obtain mq2 where h: "mq_take_head mq1 = Some (1, mq2)" "msg_data mq2 1 = [7, 8, 9, 6]"
    by (simp add: mq_take_head_def m1 ex_mq_def)
  have s1: "mq_step (ex_mq, \<lambda>_. None) Begun (mq1, (\<lambda>_. None)(2 \<mapsto> Sending 2 [5] 1 False))"
    using f by (intro mq_step.send_begin) auto
  have s2: "mq_step (mq1, (\<lambda>_. None)(2 \<mapsto> Sending 2 [5] 1 False)) (Took [7, 8, 9, 6])
      (mq2, (\<lambda>_. None)(2 \<mapsto> Sending 2 [5] 1 False, 3 \<mapsto> Receiving 1 [7, 8, 9, 6]))"
    using mq_step.recv_begin [of "(\<lambda>_. None)(2 \<mapsto> Sending 2 [5] 1 False)" 3 mq1 1 mq2] h by simp
  have s3: "mq_step (mq2, (\<lambda>_. None)(2 \<mapsto> Sending 2 [5] 1 False, 3 \<mapsto> Receiving 1 [7, 8, 9, 6])) (Sent [5] False)
      (mq_send_end 2 [5] 1 mq2, ((\<lambda>_. None)(2 \<mapsto> Sending 2 [5] 1 False, 3 \<mapsto> Receiving 1 [7, 8, 9, 6]))(2 := None))"
    using mq_step.send_end [of "(\<lambda>_. None)(2 \<mapsto> Sending 2 [5] 1 False, 3 \<mapsto> Receiving 1 [7, 8, 9, 6])" 2 2 "[5]" 1 False] by simp
  note run = mq_run.intros(2) [OF s1 mq_run.intros(2) [OF s2 mq_run.intros(2) [OF s3 mq_run.intros(1)]]]
  show ?thesis using mq_interleaving [OF ex_mq_rep run] run by blast
qed

end
