(* ===== verification/RT_Mempool.thy ===== *)
theory RT_Mempool
  imports RT_IPC RT_Interfaces
begin

text \<open>
  The memory pools of src/mempool.c: a buffer cut into blocks of one size, each with a pointer in
  front of it. The pointer of a free block is the link of the free list; that of a block that was
  handed out points to the pool, which is how \<^verbatim>\<open>rt_mp_free\<close> finds it. A block is named by its index
  in the buffer. Threads wait in a list the pool counts in \<^verbatim>\<open>suspend_thread_count\<close>.
\<close>

section \<open>The code\<close>

datatype mp_word = Link "nat option" | Owner

record rt_mempool =
  mp_obj :: kobj
  mp_start_address :: u32
  mp_size :: u32
  mp_block_size :: u32
  mp_block_list :: "nat option"
  block_total_count :: u32
  block_free_count :: u32
  mp_suspend_thread :: nat
  suspend_thread_count :: u32
  mp_header :: "nat \<Rightarrow> mp_word"

definition sizeof_ptr :: u32 where "sizeof_ptr = 4"

text \<open>
  The loop that links the blocks and the write that ends the list. With no blocks that write is to the
  word in front of the buffer.
\<close>

definition mp_link_blocks :: "rt_mempool \<Rightarrow> rt_mempool option" where
  "mp_link_blocks mp =
     do { let h = fold (\<lambda>offset h. h(offset := Link (Some (offset + 1)))) [0..<unat (block_total_count mp)] (mp_header mp);
          rt_assert (block_total_count mp \<noteq> 0);
          Some (mp\<lparr>mp_header := h(unat (block_total_count mp) - 1 := Link None), mp_block_list := Some 0\<rparr>) }"

definition rt_mp_init ::
  "kobj \<Rightarrow> nat \<Rightarrow> string \<Rightarrow> u32 \<Rightarrow> (nat \<Rightarrow> mp_word) \<Rightarrow> u32 \<Rightarrow> u32 \<Rightarrow> kernel \<Rightarrow> (rt_mempool \<times> kernel \<times> rt_err) option" where
  "rt_mp_init ob q name start h sz block_size k =
     do { let k1 = rt_ipc_object_init q (rt_object_init ob RT_Object_Class_MemPool name k);
          let sz' = RT_ALIGN_DOWN sz RT_ALIGN_SIZE;
          let bs = RT_ALIGN block_size RT_ALIGN_SIZE;
          rt_assert (bs + sizeof_ptr \<noteq> 0);
          let n = sz' div (bs + sizeof_ptr);
          mp \<leftarrow> mp_link_blocks \<lparr>mp_obj = ob, mp_start_address = start, mp_size = sz', mp_block_size = bs,
                  mp_block_list = None, block_total_count = n, block_free_count = n, mp_suspend_thread = q,
                  suspend_thread_count = 0, mp_header = h\<rparr>;
          Some (mp, k1, RT_EOK) }"

text \<open>The loop of detach and delete that wakes every waiting thread.\<close>

partial_function (option) mp_wake_all :: "rt_mempool \<Rightarrow> kernel \<Rightarrow> (rt_mempool \<times> kernel) option" where
  "mp_wake_all mp k =
     (if tlists k (Wait (mp_suspend_thread mp)) = [] then Some (mp, k)
      else do {
        let thread = hd (tlists k (Wait (mp_suspend_thread mp)));
        let k1 = upd_thread thread (\<lambda>th. th\<lparr>error := - RT_ERROR\<rparr>) k;
        (k2, e) \<leftarrow> rt_thread_resume thread k1;
        mp_wake_all (mp\<lparr>suspend_thread_count := suspend_thread_count mp - 1\<rparr>) k2 })"

definition rt_mp_detach :: "rt_mempool \<Rightarrow> kernel \<Rightarrow> (rt_mempool \<times> kernel \<times> rt_err) option" where
  "rt_mp_detach mp k =
     do { (mp1, k1) \<leftarrow> mp_wake_all mp k;
          Some (mp1, rt_object_detach (mp_obj mp) k1, RT_EOK) }"

text \<open>
  \<open>alloc_pool\<close>: the address \<^verbatim>\<open>rt_malloc\<close> returns for a size, 0 for \<^verbatim>\<open>RT_NULL\<close>. The size is computed in
  32 bits; the links are written for the count asked for, which is undefined when the buffer that
  was allocated is smaller than that.
\<close>

definition rt_mp_create ::
  "kobj option \<Rightarrow> (u32 \<Rightarrow> u32) \<Rightarrow> (nat \<Rightarrow> mp_word) \<Rightarrow> nat \<Rightarrow> string \<Rightarrow> u32 \<Rightarrow> u32 \<Rightarrow> kernel \<Rightarrow>
    (rt_mempool option \<times> kernel) option" where
  "rt_mp_create alloc alloc_pool h q name block_count block_size k =
     do { not_in_interrupt k;
          (ob, k1) \<leftarrow> rt_object_allocate alloc RT_Object_Class_MemPool name k;
          (case ob of
             None \<Rightarrow> Some (None, k1)
           | Some obj \<Rightarrow>
               do { let bs = RT_ALIGN block_size RT_ALIGN_SIZE;
                    let sz = (bs + sizeof_ptr) * block_count;
                    let start = alloc_pool sz;
                    (if start = 0 then do { k2 \<leftarrow> rt_object_delete obj k1; Some (None, k2) }
                     else do {
                       let k2 = rt_ipc_object_init q k1;
                       rt_assert (unat block_count * unat (bs + sizeof_ptr) \<le> unat sz);
                       mp \<leftarrow> mp_link_blocks \<lparr>mp_obj = obj, mp_start_address = start, mp_size = sz,
                               mp_block_size = bs, mp_block_list = None, block_total_count = block_count,
                               block_free_count = block_count, mp_suspend_thread = q,
                               suspend_thread_count = 0, mp_header = h\<rparr>;
                       Some (Some mp, k2) }) }) }"

definition rt_mp_delete :: "rt_mempool \<Rightarrow> kernel \<Rightarrow> (kernel \<times> rt_err) option" where
  "rt_mp_delete mp k =
     do { not_in_interrupt k;
          (mp1, k1) \<leftarrow> mp_wake_all mp k;
          let k2 = k1\<lparr>kernel_freed := kernel_freed k1 @ [Block_Pool (mp_start_address mp)]\<rparr>;
          k3 \<leftarrow> rt_object_delete (mp_obj mp) k2;
          Some (k3, RT_EOK) }"

text \<open>
  Taking the first block off the list, which both branches of \<^verbatim>\<open>rt_mp_alloc\<close> do. It is undefined when
  the list is empty.
\<close>

definition mp_take :: "rt_mempool \<Rightarrow> (nat \<times> rt_mempool) option" where
  "mp_take mp =
     (case mp_block_list mp of
        None \<Rightarrow> None
      | Some b \<Rightarrow>
          (case mp_header mp b of
             Owner \<Rightarrow> None
           | Link n \<Rightarrow> Some (b, mp\<lparr>block_free_count := block_free_count mp - 1, mp_block_list := n,
                              mp_header := (mp_header mp)(b := Owner)\<rparr>)))"

text \<open>What \<^verbatim>\<open>rt_mp_alloc\<close> does once the thread that waited runs again.\<close>

definition rt_mp_alloc_resume :: "tid \<Rightarrow> rt_mempool \<Rightarrow> kernel \<Rightarrow> (rt_mempool \<times> nat option) option" where
  "rt_mp_alloc_resume thread mp k =
     (if error (threads k thread) \<noteq> RT_EOK then Some (mp, None)
      else do { (b, mp1) \<leftarrow> mp_take mp; Some (mp1, Some b) })"

definition rt_mp_alloc :: "rt_mempool \<Rightarrow> u32 \<Rightarrow> kernel \<Rightarrow> (rt_mempool \<times> kernel \<times> nat option outcome) option" where
  "rt_mp_alloc mp time k =
     (if block_free_count mp \<noteq> 0 then do { (b, mp1) \<leftarrow> mp_take mp; Some (mp1, k, Done (Some b)) }
      else if time = 0 then Some (mp, k, Done None)
      else do {
        not_in_interrupt k;
        thread \<leftarrow> rt_thread_self k;
        (k1, e) \<leftarrow> rt_thread_suspend thread k;
        let k2 = upd_tlists (ins_head (Wait (mp_suspend_thread mp)) thread) k1;
        let mp1 = mp\<lparr>suspend_thread_count := suspend_thread_count mp + 1\<rparr>;
        k3 \<leftarrow> start_wait_timer thread time k2;
        k4 \<leftarrow> rt_schedule k3;
        (if rt_current_thread k4 = Some thread then
           do { (mp2, r) \<leftarrow> rt_mp_alloc_resume thread mp1 k4; Some (mp2, k4, Done r) }
         else Some (mp1, k4, Blocked)) })"

text \<open>The block's pointer must be that of the pool; otherwise something else is taken for one.\<close>

definition rt_mp_free :: "rt_mempool \<Rightarrow> nat \<Rightarrow> kernel \<Rightarrow> (rt_mempool \<times> kernel) option" where
  "rt_mp_free mp b k =
     do { rt_assert (mp_header mp b = Owner);
          let mp1 = mp\<lparr>block_free_count := block_free_count mp + 1,
                       mp_header := (mp_header mp)(b := Link (mp_block_list mp)), mp_block_list := Some b\<rparr>;
          (if 0 < suspend_thread_count mp1 then
             do { rt_assert (tlists k (Wait (mp_suspend_thread mp1)) \<noteq> []);
                  let thread = hd (tlists k (Wait (mp_suspend_thread mp1)));
                  let k1 = upd_thread thread (\<lambda>th. th\<lparr>error := RT_EOK\<rparr>) k;
                  (k2, e) \<leftarrow> rt_thread_resume thread k1;
                  let mp2 = mp1\<lparr>suspend_thread_count := suspend_thread_count mp1 - 1\<rparr>;
                  k3 \<leftarrow> rt_schedule k2;
                  Some (mp2, k3) }
           else Some (mp1, k)) }"

section \<open>The free list\<close>

fun mp_chain :: "(nat \<Rightarrow> mp_word) \<Rightarrow> nat option \<Rightarrow> nat list \<Rightarrow> bool" where
  "mp_chain h p [] \<longleftrightarrow> p = None"
| "mp_chain h p (b # bs) \<longleftrightarrow> p = Some b \<and> (case h b of Link n \<Rightarrow> mp_chain h n bs | Owner \<Rightarrow> False)"

lemma mp_chain_upd: "b \<notin> set bs \<Longrightarrow> mp_chain (h(b := w)) p bs = mp_chain h p bs"
  by (induction h p bs rule: mp_chain.induct) (auto split: mp_word.splits)

text \<open>\<open>held\<close>: the blocks handed out. The others are the free list, each once, and as many as counted.\<close>

definition mp_wf :: "rt_mempool \<Rightarrow> nat set \<Rightarrow> bool" where
  "mp_wf mp held \<longleftrightarrow> (\<exists>fs. mp_chain (mp_header mp) (mp_block_list mp) fs \<and> distinct fs \<and>
     unat (block_free_count mp) = length fs \<and> held \<inter> set fs = {} \<and>
     held \<union> set fs = {..<unat (block_total_count mp)} \<and> (\<forall>b \<in> held. mp_header mp b = Owner))"

definition mp_same :: "rt_mempool \<Rightarrow> rt_mempool \<Rightarrow> bool" where
  "mp_same mp mp' \<longleftrightarrow> mp_obj mp' = mp_obj mp \<and> mp_start_address mp' = mp_start_address mp \<and>
     mp_size mp' = mp_size mp \<and> mp_block_size mp' = mp_block_size mp \<and>
     block_total_count mp' = block_total_count mp \<and> mp_suspend_thread mp' = mp_suspend_thread mp"

lemma mp_wf_waiters [simp]:
  "mp_wf (mp\<lparr>mp_suspend_thread := q, suspend_thread_count := n\<rparr>) held = mp_wf mp held"
  by (simp add: mp_wf_def)

lemma mp_wf_free_count:
  assumes "mp_wf mp held"
  shows "unat (block_free_count mp) + card held = unat (block_total_count mp)" and "finite held"
proof -
  obtain fs where u: "held \<union> set fs = {..<unat (block_total_count mp)}" and d: "distinct fs"
    and i: "held \<inter> set fs = {}" and n: "unat (block_free_count mp) = length fs"
    using assms by (auto simp: mp_wf_def)
  have "finite (held \<union> set fs)" unfolding u by simp
  then show f: "finite held" by simp
  have "card (held \<union> set fs) = card held + card (set fs)" by (rule card_Un_disjoint [OF f _ i]) simp
  then show "unat (block_free_count mp) + card held = unat (block_total_count mp)"
    using distinct_card [OF d] n unfolding u by simp
qed

lemma mp_take_wf:
  assumes wf: "mp_wf mp held" and free: "block_free_count mp \<noteq> 0"
  obtains b mp' where "mp_take mp = Some (b, mp')" and "b \<notin> held" and "mp_wf mp' (insert b held)"
    and "mp_same mp mp'" and "block_free_count mp' = block_free_count mp - 1"
    and "suspend_thread_count mp' = suspend_thread_count mp" and "b < unat (block_total_count mp)"
proof -
  obtain fs0 where c0: "mp_chain (mp_header mp) (mp_block_list mp) fs0" "distinct fs0"
    "unat (block_free_count mp) = length fs0" "held \<inter> set fs0 = {}"
    "held \<union> set fs0 = {..<unat (block_total_count mp)}" "\<forall>b \<in> held. mp_header mp b = Owner"
    using wf by (auto simp: mp_wf_def)
  obtain b fs where fs: "fs0 = b # fs" using c0(3) free by (cases fs0) (auto simp: unat_eq_0)
  note c = c0 [unfolded fs]
  obtain n where n: "mp_header mp b = Link n" using c(1) by (auto split: mp_word.splits)
  let ?mp' = "mp\<lparr>block_free_count := block_free_count mp - 1, mp_block_list := n,
    mp_header := (mp_header mp)(b := Owner)\<rparr>"
  have t: "mp_take mp = Some (b, ?mp')" using c(1) n by (simp add: mp_take_def)
  have nb: "b \<notin> held" using c(4) by auto
  have "unat (block_free_count mp - 1) = length fs" using c(3) free by (simp add: unat_minus_one)
  then have w: "mp_wf ?mp' (insert b held)"
    unfolding mp_wf_def using c n nb by (intro exI [of _ fs]) (auto simp: mp_chain_upd)
  show thesis by (rule that [OF t nb w]) (use c(5) in \<open>auto simp: mp_same_def\<close>)
qed

lemma mp_put_wf:
  assumes wf: "mp_wf mp held" and b: "b \<in> held"
  shows "mp_header mp b = Owner"
    and "mp_wf (mp\<lparr>block_free_count := block_free_count mp + 1,
      mp_header := (mp_header mp)(b := Link (mp_block_list mp)), mp_block_list := Some b,
      suspend_thread_count := n\<rparr>) (held - {b})"
proof -
  obtain fs where c: "mp_chain (mp_header mp) (mp_block_list mp) fs" "distinct fs"
    "unat (block_free_count mp) = length fs" "held \<inter> set fs = {}"
    "held \<union> set fs = {..<unat (block_total_count mp)}" "\<forall>b \<in> held. mp_header mp b = Owner"
    using wf by (auto simp: mp_wf_def)
  show "mp_header mp b = Owner" using c(6) b by blast
  have nb: "b \<notin> set fs" using c(4) b by blast
  have "0 < card held" using b mp_wf_free_count(2) [OF wf] by (auto simp: card_gt_0_iff)
  moreover have "unat (block_total_count mp) < 2 ^ 32"
    using unsigned_less [where 'b=32 and 'a=nat and w="block_total_count mp"] by simp
  ultimately have "unat (block_free_count mp + 1) = unat (block_free_count mp) + 1"
    using mp_wf_free_count(1) [OF wf] by (simp add: unat_word_ariths)
  then show "mp_wf (mp\<lparr>block_free_count := block_free_count mp + 1,
      mp_header := (mp_header mp)(b := Link (mp_block_list mp)), mp_block_list := Some b,
      suspend_thread_count := n\<rparr>) (held - {b})"
    unfolding mp_wf_def using c nb b by (intro exI [of _ "b # fs"]) (auto simp: mp_chain_upd)
qed

section \<open>Allocating\<close>

text \<open>The count of waiting threads is right; a timeout breaks it, as shown below.\<close>

definition mp_counted :: "rt_mempool \<Rightarrow> kernel \<Rightarrow> bool" where
  "mp_counted mp k \<longleftrightarrow> unat (suspend_thread_count mp) = length (tlists k (Wait (mp_suspend_thread mp)))"

lemma mp_waits:
  assumes k: "kernel_inv Od k" and c: "may_block k c" and nest: "rt_interrupt_nest k = 0"
    and open_: "rt_scheduler_lock_nest k = 0" and time: "wait_time_ok time" "time \<noteq> 0"
    and none: "block_free_count mp = 0"
  defines "q \<equiv> mp_suspend_thread mp"
  obtains k' where "rt_mp_alloc mp time k = Some (mp\<lparr>suspend_thread_count := suspend_thread_count mp + 1\<rparr>, k', Blocked)"
    and "kernel_inv Od k'" and "schedule_post (blocked_on q (c # tlists k (Wait q)) c time k) k'" and "scheduled k'"
    and "rt_current_thread k' \<noteq> Some c" and "tlists k' (Wait q) = c # tlists k (Wait q)"
    and "distinct (c # tlists k (Wait q))"
proof -
  have st: "stat (threads k c) = RT_THREAD_READY" "c \<noteq> tidle" "rt_current_thread k = Some c"
    using c by (simp_all add: may_block_def)
  have wf: "kernel_wf Od k" using k by (simp add: kernel_inv_def)
  note u = unlink_waiting [OF wf st(1), of q]
  have d: "distinct (c # tlists k (Wait q))" using u(2) inv_distinct [OF k] by simp
  note b = blocked_on_returns [OF k c time(1) d, of q, simplified]
  have ins: "upd_tlists (ins_head (Wait q) c) (suspend_state c k) =
      upd_tlists (\<lambda>T. T(Wait q := c # tlists k (Wait q))) (suspend_state c k)"
    by (simp add: upd_tlists_def ins_head_def u(1))
  obtain k' where k': "rt_schedule (blocked_on q (c # tlists k (Wait q)) c time k) = Some k'" "kernel_inv Od k'"
    "schedule_post (blocked_on q (c # tlists k (Wait q)) c time k) k'" "rt_current_thread k' \<noteq> Some c" "scheduled k'"
    by (rule suspended_schedule [OF b(2), of c]) (use st open_ in auto)
  show thesis
    by (rule that [OF _ k'(2,3,5,4) _ d])
      (use kernel_inv_suspend [OF k st(1,2)] b(1) k' time(2) none nest st(3) schedule_post_frame [OF k'(3)]
        in \<open>simp_all add: rt_mp_alloc_def not_in_interrupt_def rt_thread_self_def ins q_def [symmetric]\<close>)
qed

text \<open>
  C23. \<^verbatim>\<open>rt_mp_alloc\<close>: a free block of the pool is handed out, which is not one that
  was handed out before, and nothing else happens; with no free block the call returns \<^verbatim>\<open>RT_NULL\<close>
  when it has no waiting time, and else queues the caller, in front of those that wait already,
  and runs another thread.
\<close>

theorem mp_alloc_correct:
  assumes k: "kernel_inv Od k" and wf: "mp_wf mp held"
    and block: "block_free_count mp = 0 \<Longrightarrow> time \<noteq> 0 \<Longrightarrow> may_block k c \<and> rt_interrupt_nest k = 0 \<and>
      rt_scheduler_lock_nest k = 0 \<and> wait_time_ok time"
  shows "returns (rt_mp_alloc mp time k) (\<lambda>(mp', k', r). kernel_inv Od k' \<and> mp_same mp mp' \<and>
    (if block_free_count mp \<noteq> 0
     then k' = k \<and> (\<exists>b. r = Done (Some b) \<and> b \<notin> held \<and> b < unat (block_total_count mp) \<and> mp_wf mp' (insert b held))
     else mp_wf mp' held \<and> held = {..<unat (block_total_count mp)} \<and>
       (if time = 0 then r = Done None \<and> k' = k \<and> mp' = mp
        else r = Blocked \<and> scheduled k' \<and> rt_current_thread k' \<noteq> Some c \<and>
          tlists k' (Wait (mp_suspend_thread mp)) = c # tlists k (Wait (mp_suspend_thread mp)) \<and>
          suspend_thread_count mp' = suspend_thread_count mp + 1)))"
proof (cases "block_free_count mp = 0")
  case False
  obtain b mp' where "mp_take mp = Some (b, mp')" "b \<notin> held" "mp_wf mp' (insert b held)" "mp_same mp mp'"
    "b < unat (block_total_count mp)"
    by (rule mp_take_wf [OF wf False])
  then show ?thesis using False k by (simp add: rt_mp_alloc_def)
next
  case True
  have all: "held = {..<unat (block_total_count mp)}" using wf True by (auto simp: mp_wf_def)
  have wf': "mp_wf (mp\<lparr>suspend_thread_count := n\<rparr>) held" for n using wf by (simp add: mp_wf_def)
  show ?thesis
  proof (cases "time = 0")
    case False
    then have b: "may_block k c" "rt_interrupt_nest k = 0" "rt_scheduler_lock_nest k = 0" "wait_time_ok time"
      using block True by auto
    obtain k' where "rt_mp_alloc mp time k = Some (mp\<lparr>suspend_thread_count := suspend_thread_count mp + 1\<rparr>, k', Blocked)"
      "kernel_inv Od k'" "scheduled k'" "rt_current_thread k' \<noteq> Some c"
      "tlists k' (Wait (mp_suspend_thread mp)) = c # tlists k (Wait (mp_suspend_thread mp))"
      by (rule mp_waits [OF k b(1-4) False True])
    then show ?thesis using True False wf' all by (simp add: mp_same_def)
  qed (use True k wf all in \<open>simp add: rt_mp_alloc_def mp_same_def\<close>)
qed

section \<open>Giving back\<close>

lemma mp_free_returns:
  assumes k: "kernel_inv Od k" and wf: "mp_wf mp held" and b: "b \<in> held" and n: "mp_counted mp k"
  shows "returns (rt_mp_free mp b k) (\<lambda>(mp', k'). kernel_inv Od k' \<and> mp_same mp mp' \<and> mp_wf mp' (held - {b}) \<and>
    mp_counted mp' k' \<and> block_free_count mp' = block_free_count mp + 1 \<and>
    (case tlists k (Wait (mp_suspend_thread mp)) of
       [] \<Rightarrow> k' = k
     | t # ts \<Rightarrow> scheduled k' \<and> tlists k' (Wait (mp_suspend_thread mp)) = ts \<and>
         stat (threads k' t) = RT_THREAD_READY \<and> error (threads k' t) = RT_EOK))"
proof -
  let ?q = "mp_suspend_thread mp"
  note p = mp_put_wf [OF wf b]
  let ?mp1 = "mp\<lparr>block_free_count := block_free_count mp + 1,
      mp_header := (mp_header mp)(b := Link (mp_block_list mp)), mp_block_list := Some b\<rparr>"
  have w1: "mp_wf ?mp1 (held - {b})" using p(2) [of "suspend_thread_count mp"] by simp
  show ?thesis
  proof (cases "tlists k (Wait ?q)")
    case Nil
    then have "suspend_thread_count mp = 0" using n by (simp add: mp_counted_def unat_eq_0)
    then show ?thesis using Nil k n p(1) w1 by (simp add: rt_mp_free_def mp_same_def mp_counted_def)
  next
    case (Cons t ts)
    let ?k1 = "upd_thread t (\<lambda>th. th\<lparr>error := RT_EOK\<rparr>) k"
    have k1: "kernel_inv Od ?k1" using k by simp
    have l1: "tlists ?k1 (Wait ?q) = t # ts" using Cons by simp
    note r = resume_first [OF k1 l1]
    have res: "rt_thread_resume t ?k1 = Some (resume_state t ?k1, RT_EOK)"
      using kernel_inv_resume [OF k1] waiting_suspended [OF k1] l1 by (metis list.set_intros(1))
    obtain k' where k': "rt_schedule (resume_state t ?k1) = Some k'" "kernel_inv Od k'" "scheduled k'"
      "tlists k' = tlists (resume_state t ?k1)" "threads k' = threads (resume_state t ?k1)"
      by (rule release_schedule [OF r(2)])
    have "suspend_thread_count mp \<noteq> 0" using n Cons by (auto simp: mp_counted_def)
    then have cnt: "0 < suspend_thread_count mp" "unat (suspend_thread_count mp - 1) = length ts"
      using n Cons by (simp_all add: word_gt_0 unat_minus_one mp_counted_def)
    show ?thesis
      using Cons cnt p k' r(3) by (simp add: rt_mp_free_def res mp_same_def mp_counted_def del: resume_state_simps(1))
  qed
qed

text \<open>
  C24. \<^verbatim>\<open>rt_mp_free\<close> of a block that was handed out, when the pool's count of waiting
  threads is right: the block is free again, and the thread that began to wait last, if any, is
  made ready with no error.
\<close>

theorem mp_free_correct:
  assumes "kernel_inv Od k" and "mp_wf mp held" and "b \<in> held" and "mp_counted mp k"
  shows "returns (rt_mp_free mp b k) (\<lambda>(mp', k'). kernel_inv Od k' \<and> mp_same mp mp' \<and> mp_wf mp' (held - {b}) \<and>
    mp_counted mp' k' \<and> block_free_count mp' = block_free_count mp + 1 \<and>
    (case tlists k (Wait (mp_suspend_thread mp)) of
       [] \<Rightarrow> k' = k
     | t # ts \<Rightarrow> scheduled k' \<and> tlists k' (Wait (mp_suspend_thread mp)) = ts \<and>
         stat (threads k' t) = RT_THREAD_READY \<and> error (threads k' t) = RT_EOK))"
  by (rule mp_free_returns [OF assms])

section \<open>A pool never hands out a block twice\<close>








section \<open>Where the count and the list part ways\<close>

lemma mp_exhausted:
  assumes "mp_wf mp held" and "block_free_count mp = 0"
  shows "mp_block_list mp = None"
  using assms by (auto simp: mp_wf_def)

text \<open>
  C40. A thread that waits for a block and times out leaves the pool's count of
  waiting threads one too high: after exactly its waiting time the call returns \<^verbatim>\<open>RT_NULL\<close>, the waiting
  list is empty, and the next release of any block takes the first thread of the empty list.
\<close>

theorem mp_free_after_timeout:
  assumes k: "kernel_inv {} k" and c: "may_block k c" and nest: "rt_interrupt_nest k = 0"
    and open_: "rt_scheduler_lock_nest k = 0" and time: "wait_time_ok time" and pos: "0 < sint time"
    and only: "only_thread_timers k" and none: "block_free_count mp = 0" and n: "mp_counted mp k"
    and alone: "tlists k (Wait (mp_suspend_thread mp)) = []" and wf: "mp_wf mp held"
  shows "returns (rt_mp_alloc mp time k) (\<lambda>(mp', k', r). r = Blocked \<and>
    returns (ticks ucb (unat time) k') (\<lambda>k2. rt_mp_alloc_resume c mp' k2 = Some (mp', None) \<and>
      tlists k2 (Wait (mp_suspend_thread mp)) = [] \<and> (\<forall>b \<in> held. rt_mp_free mp' b k2 = None)))"
proof -
  let ?q = "mp_suspend_thread mp"
  have nz: "time \<noteq> 0" using pos by auto
  obtain k' where k': "rt_mp_alloc mp time k = Some (mp\<lparr>suspend_thread_count := suspend_thread_count mp + 1\<rparr>, k', Blocked)"
    "kernel_inv {} k'" "schedule_post (blocked_on ?q (c # tlists k (Wait ?q)) c time k) k'" "scheduled k'"
    "tlists k' (Wait ?q) = c # tlists k (Wait ?q)" "distinct (c # tlists k (Wait ?q))"
    by (rule mp_waits [OF k c nest open_ time nz none])
  have s: "sleeping k' c (unat time)"
    by (rule blocked_on_sleeping [OF k c time k'(6) _ pos only k'(3,2)]) simp
  have "0 < unat time" using sint_pos [OF pos] by (simp add: word_less_nat_alt)
  then obtain k2 where k2: "ticks ucb (unat time) k' = Some k2" "error (threads k2 c) = - RT_ETIMEOUT"
    "c \<notin> set (tlists k2 (Wait ?q))"
    using sleeping_wakes [OF s, of ucb] by (auto simp: returns_iff)
  have "only_thread_timers k'" using s by (simp add: sleeping_def)
  then have "set (tlists k2 (Wait ?q)) \<subseteq> set (tlists k' (Wait ?q))"
    using ticks_shrink [OF k'(2) _ k'(4), of ucb "unat time"] k2(1) by (simp add: returns_iff)
  then have "set (tlists k2 (Wait ?q)) \<subseteq> {c}" by (simp add: k'(5) alone)
  then have e: "tlists k2 (Wait ?q) = []" using k2(3) by (cases "tlists k2 (Wait ?q)") auto
  have "suspend_thread_count mp = 0" using n alone by (simp add: mp_counted_def unat_eq_0)
  then have "rt_mp_free (mp\<lparr>suspend_thread_count := suspend_thread_count mp + 1\<rparr>) b k2 = None" for b
    by (simp add: rt_mp_free_def e rt_assert_def)
  then show ?thesis using k' k2 e by (simp add: rt_mp_alloc_resume_def rt_err_defs)
qed

text \<open>
  A thread that is woken for a block does not check that it is still there: when
  the block just released is taken by another thread before the woken one runs, the latter goes on
  with an empty free list.
\<close>

theorem mp_stolen_block:
  assumes k: "kernel_inv Od k" and wf: "mp_wf mp held" and b: "b \<in> held" and n: "mp_counted mp k"
    and none: "block_free_count mp = 0" and waits: "tlists k (Wait (mp_suspend_thread mp)) = t # ts"
  shows "returns (rt_mp_free mp b k) (\<lambda>(mp1, k1). stat (threads k1 t) = RT_THREAD_READY \<and>
    returns (rt_mp_alloc mp1 0 k1) (\<lambda>(mp2, k2, r). r = Done (Some b) \<and> rt_mp_alloc_resume t mp2 k2 = None))"
proof -
  let ?mp1 = "mp\<lparr>block_free_count := block_free_count mp + 1,
      mp_header := (mp_header mp)(b := Link (mp_block_list mp)), mp_block_list := Some b,
      suspend_thread_count := suspend_thread_count mp - 1\<rparr>"
  obtain mp1 k1 where f: "rt_mp_free mp b k = Some (mp1, k1)" "stat (threads k1 t) = RT_THREAD_READY"
    "error (threads k1 t) = RT_EOK"
    using mp_free_returns [OF k wf b n] waits by (auto simp: returns_iff)
  have "mp1 = ?mp1"
    using f(1) waits n mp_put_wf(1) [OF wf b]
    by (auto simp: rt_mp_free_def Let_def mp_counted_def word_gt_0 Option.bind_eq_Some_conv split: prod.splits if_splits)
  then have "rt_mp_alloc mp1 0 k1 =
      Some (mp1\<lparr>block_free_count := block_free_count mp1 - 1, mp_block_list := None,
        mp_header := (mp_header mp1)(b := Owner)\<rparr>, k1, Done (Some b))"
    using mp_exhausted [OF wf none] none by (simp add: rt_mp_alloc_def mp_take_def)
  then show ?thesis using f by (simp add: rt_mp_alloc_resume_def mp_take_def)
qed

section \<open>Setting up\<close>

lemma mp_fold_links:
  "fold (\<lambda>offset h. h(offset := Link (Some (Suc offset)))) [0..<n] h b =
     (if b < n then Link (Some (Suc b)) else h b)"
  by (induction n) auto

lemma mp_chain_upt:
  assumes "\<And>b. i \<le> b \<Longrightarrow> b < n - 1 \<Longrightarrow> h b = Link (Some (b + 1))" and "h (n - 1) = Link None" and "i < n"
  shows "mp_chain h (Some i) [i..<n]"
  using assms
proof (induction "n - i" arbitrary: i)
  case (Suc m)
  show ?case
  proof (cases "i = n - 1")
    case True
    then show ?thesis using Suc.prems by (simp add: upt_conv_Cons)
  next
    case False
    then have "mp_chain h (Some (i + 1)) [i + 1..<n]"
      using Suc.prems Suc.hyps(2) by (intro Suc.hyps(1)) auto
    then show ?thesis using False Suc.prems by (subst upt_conv_Cons) auto
  qed
qed simp

lemma mp_link_blocks_wf:
  assumes n: "block_total_count mp \<noteq> 0" "block_free_count mp = block_total_count mp"
  obtains mp' where "mp_link_blocks mp = Some mp'" and "mp_wf mp' {}" and "mp_same mp mp'"
    and "suspend_thread_count mp' = suspend_thread_count mp" and "block_free_count mp' = block_free_count mp"
proof -
  let ?n = "unat (block_total_count mp)"
  let ?h = "fold (\<lambda>offset h. h(offset := Link (Some (offset + 1)))) [0..<?n] (mp_header mp)"
  let ?mp' = "mp\<lparr>mp_header := ?h(?n - 1 := Link None), mp_block_list := Some 0\<rparr>"
  have pos: "0 < ?n" using n(1) by (simp add: unat_gt_0)
  have "mp_chain (?h(?n - 1 := Link None)) (Some 0) [0..<?n]"
    by (rule mp_chain_upt) (use pos in \<open>auto simp: mp_fold_links\<close>)
  then have "mp_wf ?mp' {}" unfolding mp_wf_def using n by (intro exI [of _ "[0..<?n]"]) auto
  then show thesis using n(1) by (intro that [of ?mp']) (simp_all add: mp_link_blocks_def mp_same_def)
qed

text \<open>
  \<^verbatim>\<open>rt_mp_init\<close> with a buffer that has room for a block: every block is free, the
  blocks and their pointers lie inside the buffer, and nobody waits. With a buffer that has no room
  for a block the function writes in front of the buffer.
\<close>

theorem mp_init_correct:
  assumes k: "kernel_inv Od k" and fresh: "tlists k (Wait q) = []"
    and bs: "RT_ALIGN block_size RT_ALIGN_SIZE < - 4"
  shows "if unat (RT_ALIGN_DOWN sz RT_ALIGN_SIZE) < unat (RT_ALIGN block_size RT_ALIGN_SIZE) + 4
    then rt_mp_init ob q name start h sz block_size k = None
    else returns (rt_mp_init ob q name start h sz block_size k) (\<lambda>(mp, k', r). r = RT_EOK \<and> kernel_inv Od k' \<and>
      mp_wf mp {} \<and> mp_counted mp k' \<and> mp_block_size mp = RT_ALIGN block_size RT_ALIGN_SIZE \<and>
      unat (block_total_count mp) * (unat (mp_block_size mp) + 4) \<le> unat sz)"
proof -
  define bs' where "bs' = RT_ALIGN block_size RT_ALIGN_SIZE"
  define sz' where "sz' = RT_ALIGN_DOWN sz RT_ALIGN_SIZE"
  let ?n = "sz' div (bs' + sizeof_ptr)"
  have "unat bs' < unat (- 4 :: u32)" using bs unfolding bs'_def [symmetric] by (simp only: word_less_nat_alt)
  then have sum: "unat (bs' + sizeof_ptr) = unat bs' + 4"
    by (simp add: sizeof_ptr_def unat_word_ariths)
  then have nz: "bs' + sizeof_ptr \<noteq> 0" by (metis add_is_0 unat_0 zero_neq_numeral)
  have dv: "unat ?n = unat sz' div (unat bs' + 4)" by (simp add: unat_div sum)
  have le: "unat sz' \<le> unat sz"
    using word_and_le1 [of sz "NOT (RT_ALIGN_SIZE - 1)"] unfolding sz'_def RT_ALIGN_DOWN_def
    by (simp only: word_le_nat_alt) (metis and.commute word_and_le2 word_le_nat_alt)
  show ?thesis
  proof (cases "unat sz' < unat bs' + 4")
    case True
    then have "?n = 0" using dv by (simp add: unat_eq_0)
    then show ?thesis using True nz
      by (simp add: rt_mp_init_def mp_link_blocks_def bs'_def [symmetric] sz'_def [symmetric] rt_assert_def)
  next
    case False
    then have n: "?n \<noteq> 0" using dv by (metis div_greater_zero_iff le_refl not_less unat_eq_zero zero_less_iff_neq_zero add_gr_0 zero_less_numeral)
    let ?mp = "\<lparr>mp_obj = ob, mp_start_address = start, mp_size = sz', mp_block_size = bs',
                  mp_block_list = None, block_total_count = ?n, block_free_count = ?n, mp_suspend_thread = q,
                  suspend_thread_count = 0, mp_header = h\<rparr>"
    obtain mp where mp: "mp_link_blocks ?mp = Some mp" "mp_wf mp {}" "mp_same ?mp mp" "suspend_thread_count mp = 0"
      by (rule mp_link_blocks_wf [of ?mp]) (use n in auto)
    have "unat ?n * (unat bs' + 4) \<le> unat sz'" unfolding dv by simp
    then have b: "unat ?n * (unat bs' + 4) \<le> unat sz" using le by simp
    show ?thesis using False nz mp b ipc_init_inv [OF k fresh] fresh
      by (simp add: rt_mp_init_def bs'_def [symmetric] sz'_def [symmetric] mp_same_def mp_counted_def)
  qed
qed

section \<open>A concrete pool\<close>

text \<open>Two blocks of 8 bytes; \<open>ex_mp_full\<close> has both handed out.\<close>

definition ex_mp :: rt_mempool where
  "ex_mp = \<lparr>mp_obj = Obj_MemPool 0, mp_start_address = 0x20002000, mp_size = 24, mp_block_size = 8,
     mp_block_list = Some 0, block_total_count = 2, block_free_count = 2, mp_suspend_thread = 1,
     suspend_thread_count = 0, mp_header = (\<lambda>_. Owner)(0 := Link (Some 1), 1 := Link None)\<rparr>"

definition ex_mp_full :: rt_mempool where
  "ex_mp_full = ex_mp\<lparr>mp_block_list := None, block_free_count := 0, mp_header := \<lambda>_. Owner\<rparr>"

lemma ex_mp_wf: "mp_wf ex_mp {}" "mp_wf ex_mp_full {0, 1}"
proof -
  show "mp_wf ex_mp {}" unfolding mp_wf_def by (intro exI [of _ "[0, 1]"]) (auto simp: ex_mp_def)
  show "mp_wf ex_mp_full {0, 1}" unfolding mp_wf_def by (intro exI [of _ "[]"]) (auto simp: ex_mp_full_def ex_mp_def)
qed

lemma ex_mp_simps [simp]:
  "block_free_count ex_mp_full = 0" "mp_suspend_thread ex_mp_full = 1" "suspend_thread_count ex_mp_full = 0"
  by (simp_all add: ex_mp_full_def ex_mp_def)

lemma mp_alloc_correct_witness:
  "returns (rt_mp_alloc ex_mp_full 9 ex_wait) (\<lambda>(mp', k', r). r = Blocked \<and> tlists k' (Wait 1) = [5])"
  by (rule returns_mono [OF mp_alloc_correct [OF ex_wait_inv [of "{}"] ex_mp_wf(2), where c = 5]])
    (auto simp: ex_may_block wait_time_ok_def tick_half)

lemma mp_free_correct_witness:
  "returns (rt_mp_free (ex_mp_full\<lparr>mp_suspend_thread := 0, suspend_thread_count := 2\<rparr>) 1 ex_wait) (\<lambda>(mp', k').
     mp_wf mp' {0} \<and> tlists k' (Wait 0) = [3] \<and> error (threads k' 2) = RT_EOK)"
proof -
  let ?mp = "ex_mp_full\<lparr>mp_suspend_thread := 0, suspend_thread_count := 2\<rparr>"
  have "mp_wf ?mp {0, 1}" using ex_mp_wf(2) by simp
  moreover have "mp_counted ?mp ex_wait" by (simp add: mp_counted_def)
  moreover have "{0, 1} - {1 :: nat} = {0}" by auto
  ultimately show ?thesis
    using mp_free_correct [OF ex_wait_inv [of "{}"], of ?mp "{0, 1}" 1] by (auto elim!: returns_mono)
qed


lemma mp_free_after_timeout_witness:
  "returns (rt_mp_alloc ex_mp_full 3 ex_run) (\<lambda>(mp', k', r).
     returns (ticks quiet_callback (unat (3 :: u32)) k') (\<lambda>k2. rt_mp_free mp' 0 k2 = None))"
  by (rule returns_mono [OF mp_free_after_timeout [OF ex_run_inv ex_may_block(1), where ucb = quiet_callback and held = "{0, 1}"]])
    (use ex_mp_wf(2) in \<open>auto simp: wait_time_ok_def tick_half only_thread_timers_def mp_counted_def
      elim!: returns_mono\<close>)

lemma mp_stolen_block_witness:
  "returns (rt_mp_free (ex_mp_full\<lparr>mp_suspend_thread := 0, suspend_thread_count := 2\<rparr>) 1 ex_wait) (\<lambda>(mp1, k1).
    returns (rt_mp_alloc mp1 0 k1) (\<lambda>(mp2, k2, r). rt_mp_alloc_resume 2 mp2 k2 = None))"
proof -
  let ?mp = "ex_mp_full\<lparr>mp_suspend_thread := 0, suspend_thread_count := 2\<rparr>"
  have 1: "mp_wf ?mp {0, 1}" using ex_mp_wf(2) by simp
  have 2: "mp_counted ?mp ex_wait" by (simp add: mp_counted_def)
  have 3: "block_free_count ?mp = 0" by (simp add: ex_mp_full_def)
  show ?thesis
    using mp_stolen_block [OF ex_wait_inv [of "{}"] 1 _ 2 3, of 1 2 "[3]"] by (auto elim!: returns_mono)
qed

lemma mp_init_correct_witness:
  "returns (rt_mp_init (Obj_MemPool 1) 1 ''mp'' 0x20002000 (\<lambda>_. Owner) 100 6 ex_wait) (\<lambda>(mp, k', r). mp_wf mp {})"
proof -
  have a: "RT_ALIGN 6 RT_ALIGN_SIZE = 8" "RT_ALIGN_DOWN 100 RT_ALIGN_SIZE = 100"
    by (simp_all add: RT_ALIGN_def RT_ALIGN_DOWN_def RT_ALIGN_SIZE_def)
  show ?thesis
    using mp_init_correct [OF ex_wait_inv [of "{}"], of 1 6 100 "Obj_MemPool 1" "''mp''" "0x20002000" "\<lambda>_. Owner"]
    by (auto simp: a elim!: returns_mono)
qed

end
