(* ===== verification/RT_Ringbuffer.thy ===== *)
theory RT_Ringbuffer
  imports RT_Ring
begin

text \<open>
  The ring buffer of components/drivers/src/ringbuffer.c (its inline functions are in
  include/rtdevice.h). An index has 15 bits and a mirror bit beside it, which tells a full ring from
  an empty one. The size is a signed 16-bit number. Positions are compared in \<^verbatim>\<open>int\<close>.
\<close>

section \<open>The code\<close>

record rt_ringbuffer =
  buffer_ptr :: "u8 list"
  read_mirror :: bool
  read_index :: "15 word"
  write_mirror :: bool
  write_index :: "15 word"
  buffer_size :: u16

datatype rt_ringbuffer_state = RT_RINGBUFFER_EMPTY | RT_RINGBUFFER_FULL | RT_RINGBUFFER_HALFFULL

definition rt_ringbuffer_init :: "u8 list \<Rightarrow> u16 \<Rightarrow> rt_ringbuffer option" where
  "rt_ringbuffer_init pool sz =
     do { rt_assert (0 < sint sz);
          Some \<lparr>buffer_ptr = pool, read_mirror = False, read_index = 0, write_mirror = False,
                write_index = 0, buffer_size = ucast (RT_ALIGN_DOWN (scast sz) RT_ALIGN_SIZE)\<rparr> }"

definition rt_ringbuffer_get_size :: "rt_ringbuffer \<Rightarrow> u16" where
  "rt_ringbuffer_get_size rb = buffer_size rb"

definition rt_ringbuffer_status :: "rt_ringbuffer \<Rightarrow> rt_ringbuffer_state" where
  "rt_ringbuffer_status rb =
     (if read_index rb = write_index rb then
        (if read_mirror rb = write_mirror rb then RT_RINGBUFFER_EMPTY else RT_RINGBUFFER_FULL)
      else RT_RINGBUFFER_HALFFULL)"

definition rt_ringbuffer_data_len :: "rt_ringbuffer \<Rightarrow> u16" where
  "rt_ringbuffer_data_len rb =
     (case rt_ringbuffer_status rb of
        RT_RINGBUFFER_EMPTY \<Rightarrow> 0
      | RT_RINGBUFFER_FULL \<Rightarrow> buffer_size rb
      | RT_RINGBUFFER_HALFFULL \<Rightarrow>
          (if read_index rb < write_index rb then of_int (uint (write_index rb) - uint (read_index rb))
           else of_int (sint (buffer_size rb) - (uint (read_index rb) - uint (write_index rb)))))"

definition rt_ringbuffer_space_len :: "rt_ringbuffer \<Rightarrow> int" where
  "rt_ringbuffer_space_len rb = sint (buffer_size rb) - uint (rt_ringbuffer_data_len rb)"

text \<open>A \<^verbatim>\<open>memcpy\<close> into the buffer, which must stay inside the buffer and the source.\<close>

definition rb_copy_in :: "int \<Rightarrow> u8 list \<Rightarrow> int \<Rightarrow> rt_ringbuffer \<Rightarrow> rt_ringbuffer option" where
  "rb_copy_in pos src n rb =
     do { rt_assert (0 \<le> n \<and> nat pos + nat n \<le> length (buffer_ptr rb) \<and> nat n \<le> length src);
          Some (rb\<lparr>buffer_ptr := copy_into (nat pos) src (nat n) (buffer_ptr rb)\<rparr>) }"

definition rb_copy_out :: "int \<Rightarrow> int \<Rightarrow> rt_ringbuffer \<Rightarrow> u8 list option" where
  "rb_copy_out pos n rb =
     do { rt_assert (0 \<le> n \<and> nat pos + nat n \<le> length (buffer_ptr rb));
          Some (take (nat n) (drop (nat pos) (buffer_ptr rb))) }"

definition rt_ringbuffer_put :: "rt_ringbuffer \<Rightarrow> u8 list \<Rightarrow> u16 \<Rightarrow> (rt_ringbuffer \<times> u32) option" where
  "rt_ringbuffer_put rb ptr len =
     (let sz = of_int (rt_ringbuffer_space_len rb) :: u16
      in if sz = 0 then Some (rb, 0)
         else
           let len = (if sz < len then sz else len);
               room = sint (buffer_size rb) - uint (write_index rb)
           in if uint len < room then
                do { rb1 \<leftarrow> rb_copy_in (uint (write_index rb)) ptr (uint len) rb;
                     Some (rb1\<lparr>write_index := of_int (uint (write_index rb1) + uint len)\<rparr>, ucast len) }
              else
                do { rb1 \<leftarrow> rb_copy_in (uint (write_index rb)) ptr room rb;
                     rb2 \<leftarrow> rb_copy_in 0 (drop (nat room) ptr) (uint len - room) rb1;
                     Some (rb2\<lparr>write_mirror := \<not> write_mirror rb2, write_index := of_int (uint len - room)\<rparr>,
                       ucast len) })"

definition rt_ringbuffer_put_force :: "rt_ringbuffer \<Rightarrow> u8 list \<Rightarrow> u16 \<Rightarrow> (rt_ringbuffer \<times> u32) option" where
  "rt_ringbuffer_put_force rb ptr len =
     (let old_state = rt_ringbuffer_status rb;
          len = (if sint (buffer_size rb) < uint len then buffer_size rb else len);
          room = sint (buffer_size rb) - uint (write_index rb)
      in if uint len < room then
           do { rb1 \<leftarrow> rb_copy_in (uint (write_index rb)) ptr (uint len) rb;
                let rb2 = rb1\<lparr>write_index := of_int (uint (write_index rb1) + uint len)\<rparr>;
                Some (if old_state = RT_RINGBUFFER_FULL then rb2\<lparr>read_index := write_index rb2\<rparr> else rb2, ucast len) }
         else
           do { rb1 \<leftarrow> rb_copy_in (uint (write_index rb)) ptr room rb;
                rb2 \<leftarrow> rb_copy_in 0 (drop (nat room) ptr) (uint len - room) rb1;
                let rb3 = rb2\<lparr>write_mirror := \<not> write_mirror rb2, write_index := of_int (uint len - room)\<rparr>;
                Some (if old_state = RT_RINGBUFFER_FULL
                      then rb3\<lparr>read_mirror := \<not> read_mirror rb3, read_index := write_index rb3\<rparr> else rb3, ucast len) })"

definition rt_ringbuffer_get :: "rt_ringbuffer \<Rightarrow> u16 \<Rightarrow> (rt_ringbuffer \<times> u8 list \<times> u32) option" where
  "rt_ringbuffer_get rb len =
     (let sz = ucast (rt_ringbuffer_data_len rb) :: u32
      in if sz = 0 then Some (rb, [], 0)
         else
           let len = (if sz < ucast len then ucast sz else len);
               room = sint (buffer_size rb) - uint (read_index rb)
           in if uint len < room then
                do { bytes \<leftarrow> rb_copy_out (uint (read_index rb)) (uint len) rb;
                     Some (rb\<lparr>read_index := of_int (uint (read_index rb) + uint len)\<rparr>, bytes, ucast len) }
              else
                do { bytes1 \<leftarrow> rb_copy_out (uint (read_index rb)) room rb;
                     bytes2 \<leftarrow> rb_copy_out 0 (uint len - room) rb;
                     Some (rb\<lparr>read_mirror := \<not> read_mirror rb, read_index := of_int (uint len - room)\<rparr>,
                       bytes1 @ bytes2, ucast len) })"

definition rt_ringbuffer_putchar :: "rt_ringbuffer \<Rightarrow> u8 \<Rightarrow> (rt_ringbuffer \<times> u32) option" where
  "rt_ringbuffer_putchar rb ch =
     (if rt_ringbuffer_space_len rb = 0 then Some (rb, 0)
      else do {
        rt_assert (unat (write_index rb) < length (buffer_ptr rb));
        let rb1 = rb\<lparr>buffer_ptr := (buffer_ptr rb)[unat (write_index rb) := ch]\<rparr>;
        Some (if uint (write_index rb1) = sint (buffer_size rb1) - 1
              then rb1\<lparr>write_mirror := \<not> write_mirror rb1, write_index := 0\<rparr>
              else rb1\<lparr>write_index := write_index rb1 + 1\<rparr>, 1) })"

definition rt_ringbuffer_putchar_force :: "rt_ringbuffer \<Rightarrow> u8 \<Rightarrow> (rt_ringbuffer \<times> u32) option" where
  "rt_ringbuffer_putchar_force rb ch =
     do { let old_state = rt_ringbuffer_status rb;
          rt_assert (unat (write_index rb) < length (buffer_ptr rb));
          let rb1 = rb\<lparr>buffer_ptr := (buffer_ptr rb)[unat (write_index rb) := ch]\<rparr>;
          Some (if uint (write_index rb1) = sint (buffer_size rb1) - 1 then
                  (let rb2 = rb1\<lparr>write_mirror := \<not> write_mirror rb1, write_index := 0\<rparr>
                   in if old_state = RT_RINGBUFFER_FULL
                      then rb2\<lparr>read_mirror := \<not> read_mirror rb2, read_index := write_index rb2\<rparr> else rb2)
                else
                  (let rb2 = rb1\<lparr>write_index := write_index rb1 + 1\<rparr>
                   in if old_state = RT_RINGBUFFER_FULL then rb2\<lparr>read_index := write_index rb2\<rparr> else rb2), 1) }"

definition rt_ringbuffer_getchar :: "rt_ringbuffer \<Rightarrow> (rt_ringbuffer \<times> u8 option \<times> u32) option" where
  "rt_ringbuffer_getchar rb =
     (if rt_ringbuffer_data_len rb = 0 then Some (rb, None, 0)
      else do {
        rt_assert (unat (read_index rb) < length (buffer_ptr rb));
        let ch = buffer_ptr rb ! unat (read_index rb);
        Some (if uint (read_index rb) = sint (buffer_size rb) - 1
              then rb\<lparr>read_mirror := \<not> read_mirror rb, read_index := 0\<rparr>
              else rb\<lparr>read_index := read_index rb + 1\<rparr>, Some ch, 1) })"

section \<open>What a ring buffer holds\<close>

definition rb_cap :: "rt_ringbuffer \<Rightarrow> nat" where
  "rb_cap rb = nat (sint (buffer_size rb))"

text \<open>The mirror bits differ exactly while the writer is one round ahead.\<close>

definition rb_wf :: "rt_ringbuffer \<Rightarrow> bool" where
  "rb_wf rb \<longleftrightarrow> 0 < sint (buffer_size rb) \<and> length (buffer_ptr rb) = rb_cap rb \<and>
     unat (read_index rb) < rb_cap rb \<and> unat (write_index rb) < rb_cap rb \<and>
     (unat (read_index rb) < unat (write_index rb) \<longrightarrow> read_mirror rb = write_mirror rb) \<and>
     (unat (write_index rb) < unat (read_index rb) \<longrightarrow> read_mirror rb \<noteq> write_mirror rb)"

definition rb_count :: "rt_ringbuffer \<Rightarrow> nat" where
  "rb_count rb = unat (rt_ringbuffer_data_len rb)"

definition rb_contents :: "rt_ringbuffer \<Rightarrow> u8 list" where
  "rb_contents rb = ring_contents (buffer_ptr rb) (unat (read_index rb)) (rb_count rb)"

lemma rb_cap_bound: "rb_cap rb < 2 ^ 15"
proof -
  have "sint (buffer_size rb) < 2 ^ (LENGTH(16) - 1)" by (rule sint_lt)
  then show ?thesis by (simp add: rb_cap_def)
qed

lemma rb_size_eq:
  assumes "rb_wf rb"
  shows "sint (buffer_size rb) = int (rb_cap rb)" and "unat (buffer_size rb) = rb_cap rb"
    and "uint (buffer_size rb) = int (rb_cap rb)" and "0 < rb_cap rb"
proof -
  have pos: "0 < sint (buffer_size rb)" using assms by (simp add: rb_wf_def)
  show 1: "sint (buffer_size rb) = int (rb_cap rb)" using pos by (simp add: rb_cap_def)
  have "buffer_size rb = of_int (sint (buffer_size rb))" by simp
  then have e: "buffer_size rb = of_nat (rb_cap rb)" unfolding 1 by simp
  have "rb_cap rb < 2 ^ 16" using rb_cap_bound [of rb] by simp
  then show 2: "unat (buffer_size rb) = rb_cap rb"
    by (subst e) (simp add: unsigned_of_nat take_bit_nat_eq_self)
  then show "uint (buffer_size rb) = int (rb_cap rb)" by (metis uint_nat)
  show "0 < rb_cap rb" using pos 1 by simp
qed

lemma unat_of_int16: "0 \<le> x \<Longrightarrow> x < 2 ^ 15 \<Longrightarrow> unat (of_int x :: u16) = nat x"
  by (simp add: unat_eq_nat_uint uint_word_of_int_eq take_bit_int_eq_self)

lemma unat_of_int15: "0 \<le> x \<Longrightarrow> x < 2 ^ 15 \<Longrightarrow> unat (of_int x :: 15 word) = nat x"
  by (simp add: unat_eq_nat_uint uint_word_of_int_eq take_bit_int_eq_self)

lemma unat_of_diff16:
  assumes "b \<le> a" and "a < 2 ^ 15"
  shows "unat (of_int (int a - int b) :: u16) = a - b"
  using assms by (subst unat_of_int16) auto

lemma unat_of_sum15: "a + b < 2 ^ 15 \<Longrightarrow> unat (of_int (int a + int b) :: 15 word) = a + b"
  by (subst unat_of_int15) auto

lemma unat_of_diff15:
  assumes "b \<le> a" and "a < 2 ^ 15 + b"
  shows "unat (of_int (int a - int b) :: 15 word) = a - b"
  using assms by (subst unat_of_int15) auto

lemma rb_count_eq:
  assumes wf: "rb_wf rb"
  shows "rb_count rb =
    (if unat (read_index rb) = unat (write_index rb) then (if read_mirror rb = write_mirror rb then 0 else rb_cap rb)
     else if unat (read_index rb) < unat (write_index rb) then unat (write_index rb) - unat (read_index rb)
     else rb_cap rb - (unat (read_index rb) - unat (write_index rb)))"
proof -
  note s = rb_size_eq [OF wf] and b = rb_cap_bound [of rb]
  have lt: "unat (read_index rb) < rb_cap rb" "unat (write_index rb) < rb_cap rb" using wf by (simp_all add: rb_wf_def)
  have eq: "read_index rb = write_index rb \<longleftrightarrow> unat (read_index rb) = unat (write_index rb)"
    by (simp add: word_unat_eq_iff)
  note u = uint_nat
  show ?thesis
  proof (cases "unat (read_index rb) = unat (write_index rb)")
    case True
    then show ?thesis using s eq by (simp add: rb_count_def rt_ringbuffer_data_len_def rt_ringbuffer_status_def)
  next
    case False
    show ?thesis
    proof (cases "unat (read_index rb) < unat (write_index rb)")
      case True
      have "unat (of_int (uint (write_index rb) - uint (read_index rb)) :: u16) = unat (write_index rb) - unat (read_index rb)"
        unfolding u by (rule unat_of_diff16) (use True lt b in simp_all)
      then show ?thesis using True False eq
        by (simp add: rb_count_def rt_ringbuffer_data_len_def rt_ringbuffer_status_def word_less_nat_alt)
    next
      case ge: False
      have "unat (of_int (sint (buffer_size rb) - (uint (read_index rb) - uint (write_index rb))) :: u16) =
          rb_cap rb - (unat (read_index rb) - unat (write_index rb))"
        unfolding u s(1) using unat_of_diff16 [of "unat (read_index rb) - unat (write_index rb)" "rb_cap rb"] lt b ge
        by (simp add: of_nat_diff del: of_nat_unat)
      then show ?thesis using ge False eq
        by (simp add: rb_count_def rt_ringbuffer_data_len_def rt_ringbuffer_status_def word_less_nat_alt)
    qed
  qed
qed

lemma rb_count_bounds:
  assumes wf: "rb_wf rb"
  shows "rb_count rb \<le> rb_cap rb" and "rt_ringbuffer_space_len rb = int (rb_cap rb - rb_count rb)"
    and "(unat (read_index rb) + rb_count rb) mod rb_cap rb = unat (write_index rb)"
proof -
  have lt: "unat (read_index rb) < rb_cap rb" "unat (write_index rb) < rb_cap rb" using wf by (simp_all add: rb_wf_def)
  show le: "rb_count rb \<le> rb_cap rb" using lt by (auto simp: rb_count_eq [OF wf])
  have "uint (rt_ringbuffer_data_len rb) = int (rb_count rb)" by (simp add: rb_count_def)
  then show "rt_ringbuffer_space_len rb = int (rb_cap rb - rb_count rb)"
    using le by (simp add: rt_ringbuffer_space_len_def rb_size_eq [OF wf])
  show "(unat (read_index rb) + rb_count rb) mod rb_cap rb = unat (write_index rb)"
    using lt by (auto simp: rb_count_eq [OF wf] mod_if)
qed

text \<open>Moving an index on, around the end.\<close>

lemma rb_write_on:
  assumes wf: "rb_wf rb" and n: "n \<le> rb_cap rb - rb_count rb" and len: "length pool = rb_cap rb"
    and w: "unat w = (if unat (write_index rb) + n < rb_cap rb then unat (write_index rb) + n
                      else unat (write_index rb) + n - rb_cap rb)"
    and m: "m = (if unat (write_index rb) + n < rb_cap rb then write_mirror rb else \<not> write_mirror rb)"
  shows "rb_wf (rb\<lparr>buffer_ptr := pool, write_mirror := m, write_index := w\<rparr>)"
    and "rb_count (rb\<lparr>buffer_ptr := pool, write_mirror := m, write_index := w\<rparr>) = rb_count rb + n"
proof -
  let ?rb' = "rb\<lparr>buffer_ptr := pool, write_mirror := m, write_index := w\<rparr>"
  have cap: "rb_cap ?rb' = rb_cap rb" by (simp add: rb_cap_def)
  have lt: "unat (read_index rb) < rb_cap rb" "unat (write_index rb) < rb_cap rb"
    and mir: "unat (read_index rb) < unat (write_index rb) \<Longrightarrow> read_mirror rb = write_mirror rb"
      "unat (write_index rb) < unat (read_index rb) \<Longrightarrow> read_mirror rb \<noteq> write_mirror rb"
    and pos: "0 < sint (buffer_size rb)"
    using wf by (simp_all add: rb_wf_def)
  note c = rb_count_eq [OF wf]
  have le: "n \<le> rb_cap rb" using n by simp
  show wf': "rb_wf ?rb'"
    unfolding rb_wf_def cap using lt mir pos len n c w m le by (auto split: if_splits)
  show "rb_count ?rb' = rb_count rb + n"
    unfolding rb_count_eq [OF wf'] cap using lt mir n c w m le by (auto split: if_splits)
qed

lemma rb_read_on:
  assumes wf: "rb_wf rb" and n: "n \<le> rb_count rb"
    and r: "unat r = (if unat (read_index rb) + n < rb_cap rb then unat (read_index rb) + n
                      else unat (read_index rb) + n - rb_cap rb)"
    and m: "m = (if unat (read_index rb) + n < rb_cap rb then read_mirror rb else \<not> read_mirror rb)"
  shows "rb_wf (rb\<lparr>read_mirror := m, read_index := r\<rparr>)"
    and "rb_count (rb\<lparr>read_mirror := m, read_index := r\<rparr>) = rb_count rb - n"
proof -
  let ?rb' = "rb\<lparr>read_mirror := m, read_index := r\<rparr>"
  have cap: "rb_cap ?rb' = rb_cap rb" by (simp add: rb_cap_def)
  have lt: "unat (read_index rb) < rb_cap rb" "unat (write_index rb) < rb_cap rb"
    and mir: "unat (read_index rb) < unat (write_index rb) \<Longrightarrow> read_mirror rb = write_mirror rb"
      "unat (write_index rb) < unat (read_index rb) \<Longrightarrow> read_mirror rb \<noteq> write_mirror rb"
    and pos: "0 < sint (buffer_size rb)" "length (buffer_ptr rb) = rb_cap rb"
    using wf by (simp_all add: rb_wf_def)
  note c = rb_count_eq [OF wf]
  have le: "n \<le> rb_cap rb" using n rb_count_bounds(1) [OF wf] by simp
  show wf': "rb_wf ?rb'"
    unfolding rb_wf_def cap using lt mir pos n c r m le by (auto split: if_splits)
  show "rb_count ?rb' = rb_count rb - n"
    unfolding rb_count_eq [OF wf'] cap using lt mir n c r m le by (auto split: if_splits)
qed

section \<open>Putting and getting blocks\<close>

lemma rb_write_block:
  assumes wf: "rb_wf rb" and n: "n \<le> rb_cap rb - rb_count rb" and src: "n \<le> length src"
    and w: "unat w = (if unat (write_index rb) + n < rb_cap rb then unat (write_index rb) + n
                      else unat (write_index rb) + n - rb_cap rb)"
    and m: "m = (if unat (write_index rb) + n < rb_cap rb then write_mirror rb else \<not> write_mirror rb)"
  defines "rb' \<equiv> rb\<lparr>buffer_ptr := ring_copy (unat (write_index rb)) src n (buffer_ptr rb), write_mirror := m,
    write_index := w\<rparr>"
  shows "rb_wf rb'" and "rb_contents rb' = rb_contents rb @ take n src" and "rb_cap rb' = rb_cap rb"
proof -
  have len: "length (buffer_ptr rb) = rb_cap rb" "unat (write_index rb) < rb_cap rb" using wf by (simp_all add: rb_wf_def)
  have l': "length (ring_copy (unat (write_index rb)) src n (buffer_ptr rb)) = rb_cap rb" using len n src by simp
  note wr = rb_write_on [OF wf n l' w m, folded rb'_def]
  show "rb_wf rb'" by (rule wr(1))
  show "rb_cap rb' = rb_cap rb" by (simp add: rb'_def rb_cap_def)
  have "ring_contents (ring_copy (unat (write_index rb)) src n (buffer_ptr rb)) (unat (read_index rb)) (rb_count rb + n) =
      ring_contents (buffer_ptr rb) (unat (read_index rb)) (rb_count rb) @ take n src"
    by (rule ring_put_block) (use rb_count_bounds [OF wf] n src len in auto)
  then show "rb_contents rb' = rb_contents rb @ take n src" unfolding rb_contents_def wr(2) by (simp add: rb'_def)
qed

lemma rb_read_block:
  assumes wf: "rb_wf rb" and n: "n \<le> rb_count rb"
    and r: "unat r = (if unat (read_index rb) + n < rb_cap rb then unat (read_index rb) + n
                      else unat (read_index rb) + n - rb_cap rb)"
    and m: "m = (if unat (read_index rb) + n < rb_cap rb then read_mirror rb else \<not> read_mirror rb)"
  defines "rb' \<equiv> rb\<lparr>read_mirror := m, read_index := r\<rparr>"
  shows "rb_wf rb'" and "rb_contents rb = ring_contents (buffer_ptr rb) (unat (read_index rb)) n @ rb_contents rb'"
    and "rb_cap rb' = rb_cap rb"
proof -
  have len: "length (buffer_ptr rb) = rb_cap rb" "unat (read_index rb) < rb_cap rb" using wf by (simp_all add: rb_wf_def)
  note rd = rb_read_on [OF wf n r m, folded rb'_def]
  show "rb_wf rb'" by (rule rd(1))
  show "rb_cap rb' = rb_cap rb" by (simp add: rb'_def rb_cap_def)
  have "n \<le> rb_cap rb" using n rb_count_bounds(1) [OF wf] by simp
  then have "(unat (read_index rb) + n) mod length (buffer_ptr rb) = unat r" unfolding r using len by (simp add: mod_if)
  then show "rb_contents rb = ring_contents (buffer_ptr rb) (unat (read_index rb)) n @ rb_contents rb'"
    using ring_get_many [OF n, of "unat (read_index rb)" "buffer_ptr rb"] len
    unfolding rb_contents_def rd(2) by (simp add: rb'_def)
qed

text \<open>The two copies of the code are one copy around the end.\<close>

lemma rb_copy_in_once:
  assumes "rb_wf rb" and "unat (write_index rb) + n < rb_cap rb" and "n \<le> length src"
  shows "rb_copy_in (uint (write_index rb)) src (int n) rb =
    Some (rb\<lparr>buffer_ptr := ring_copy (unat (write_index rb)) src n (buffer_ptr rb)\<rparr>)"
  using assms by (auto simp: rb_copy_in_def ring_copy_def rb_wf_def Let_def uint_nat simp del: of_nat_unat)

lemma nat_diff_diff: "w \<le> c \<Longrightarrow> nat (int n - (int c - int w)) = n - (c - w)"
  by simp

lemma nat_diff_int: "nat (int c - int w) = c - w"
  by simp

lemma rb_copy_in_twice:
  assumes wf: "rb_wf rb" and n: "\<not> unat (write_index rb) + n < rb_cap rb" "n \<le> rb_cap rb" "n \<le> length src"
  defines "room \<equiv> int (rb_cap rb) - uint (write_index rb)"
  obtains rb1 where "rb_copy_in (uint (write_index rb)) src room rb = Some rb1"
    and "rb_copy_in 0 (drop (nat room) src) (int n - room) rb1 =
      Some (rb\<lparr>buffer_ptr := ring_copy (unat (write_index rb)) src n (buffer_ptr rb)\<rparr>)"
proof -
  have len: "length (buffer_ptr rb) = rb_cap rb" "unat (write_index rb) < rb_cap rb" using wf by (simp_all add: rb_wf_def)
  let ?m = "rb_cap rb - unat (write_index rb)"
  have r: "nat room = ?m" "0 \<le> room" unfolding room_def uint_nat using len by (simp_all del: of_nat_unat)
  have d: "nat (int n - room) = n - ?m" "0 \<le> int n - room"
    unfolding room_def uint_nat using len n by (simp_all del: of_nat_unat)
  have p: "nat (uint (write_index rb)) = unat (write_index rb)" by simp
  have m: "?m \<le> n" "?m \<le> length src" "n - ?m \<le> rb_cap rb" "n - ?m \<le> length src - ?m" using n by simp_all
  let ?rb1 = "rb\<lparr>buffer_ptr := copy_into (unat (write_index rb)) src ?m (buffer_ptr rb)\<rparr>"
  show thesis
  proof (rule that [of ?rb1])
    show "rb_copy_in (uint (write_index rb)) src room rb = Some ?rb1"
      using r m len by (simp add: rb_copy_in_def p)
    show "rb_copy_in 0 (drop (nat room) src) (int n - room) ?rb1 =
        Some (rb\<lparr>buffer_ptr := ring_copy (unat (write_index rb)) src n (buffer_ptr rb)\<rparr>)"
      using r(1) d m len n(1) by (simp add: rb_copy_in_def ring_copy_def Let_def del: diff_diff_left diff_diff_right Nat.diff_diff_right)
  qed
qed

text \<open>The part \<^verbatim>\<open>rt_ringbuffer_put\<close> and \<^verbatim>\<open>rt_ringbuffer_put_force\<close> share, from the comparison on.\<close>

lemma rb_write_steps:
  assumes wf: "rb_wf rb" and n: "unat len \<le> rb_cap rb" "unat len \<le> length ptr"
  defines "room \<equiv> int (rb_cap rb) - uint (write_index rb)"
    and "pool \<equiv> ring_copy (unat (write_index rb)) ptr (unat len) (buffer_ptr rb)"
  shows "uint len < room \<longleftrightarrow> unat (write_index rb) + unat len < rb_cap rb"
    and "uint len < room \<Longrightarrow> rb_copy_in (uint (write_index rb)) ptr (uint len) rb = Some (rb\<lparr>buffer_ptr := pool\<rparr>)"
    and "uint len < room \<Longrightarrow>
      unat (of_int (uint (write_index rb) + uint len) :: 15 word) = unat (write_index rb) + unat len"
    and "\<not> uint len < room \<Longrightarrow> \<exists>rb1. rb_copy_in (uint (write_index rb)) ptr room rb = Some rb1 \<and>
      rb_copy_in 0 (drop (nat room) ptr) (uint len - room) rb1 = Some (rb\<lparr>buffer_ptr := pool\<rparr>)"
    and "\<not> uint len < room \<Longrightarrow>
      unat (of_int (uint len - room) :: 15 word) = unat (write_index rb) + unat len - rb_cap rb"
proof -
  note cap = rb_cap_bound [of rb]
  have lt: "unat (write_index rb) < rb_cap rb" using wf by (simp add: rb_wf_def)
  show iff: "uint len < room \<longleftrightarrow> unat (write_index rb) + unat len < rb_cap rb"
    unfolding room_def uint_nat by linarith
  show "rb_copy_in (uint (write_index rb)) ptr (uint len) rb = Some (rb\<lparr>buffer_ptr := pool\<rparr>)" if "uint len < room"
    using rb_copy_in_once [OF wf _ n(2)] that iff unfolding pool_def by simp
  show "unat (of_int (uint (write_index rb) + uint len) :: 15 word) = unat (write_index rb) + unat len"
    if "uint len < room"
    unfolding uint_nat by (rule unat_of_sum15) (use that iff cap in simp)
  show "\<exists>rb1. rb_copy_in (uint (write_index rb)) ptr room rb = Some rb1 \<and>
      rb_copy_in 0 (drop (nat room) ptr) (uint len - room) rb1 = Some (rb\<lparr>buffer_ptr := pool\<rparr>)" if "\<not> uint len < room"
    unfolding room_def pool_def uint_nat [of len]
    by (rule rb_copy_in_twice [OF wf _ n]) (use that iff in auto)
  show "unat (of_int (uint len - room) :: 15 word) = unat (write_index rb) + unat len - rb_cap rb" if "\<not> uint len < room"
    unfolding room_def uint_nat using unat_of_diff15 [of "rb_cap rb - unat (write_index rb)" "unat len"] that iff lt n cap
    by (simp add: of_nat_diff del: of_nat_unat)
qed

lemma unat_min16: "unat (if a < b then a else (b :: u16)) = min (unat a) (unat b)"
  by (simp add: min_def word_less_nat_alt)

text \<open>
  C30. \<^verbatim>\<open>rt_ringbuffer_put\<close> appends as many of the bytes as there is room for, and
  returns their number.
\<close>

theorem rb_put_correct:
  assumes wf: "rb_wf rb" and src: "unat len \<le> length ptr"
  shows "returns (rt_ringbuffer_put rb ptr len) (\<lambda>(rb', n). rb_wf rb' \<and> rb_cap rb' = rb_cap rb \<and>
    unat n = min (unat len) (rb_cap rb - length (rb_contents rb)) \<and>
    rb_contents rb' = rb_contents rb @ take (unat n) ptr)"
proof -
  have cnt: "length (rb_contents rb) = rb_count rb" by (simp add: rb_contents_def)
  note b = rb_count_bounds [OF wf] and s = rb_size_eq [OF wf] and cap = rb_cap_bound [of rb]
  define sz where "sz = (of_int (rt_ringbuffer_space_len rb) :: u16)"
  define len' where "len' = (if sz < len then sz else len)"
  have sz: "unat sz = rb_cap rb - rb_count rb"
    unfolding b(2) sz_def using cap by (subst unat_of_int16) auto
  have n: "unat len' = min (unat len) (rb_cap rb - rb_count rb)"
    unfolding len'_def by (simp only: unat_min16 sz min.commute)
  have nle: "unat len' \<le> rb_cap rb - rb_count rb" "unat len' \<le> length ptr" "unat len' \<le> rb_cap rb" using n src by simp_all
  note st = rb_write_steps [OF wf nle(3,2)]
  let ?pool = "ring_copy (unat (write_index rb)) ptr (unat len') (buffer_ptr rb)"
  let ?room = "int (rb_cap rb) - uint (write_index rb)"
  show ?thesis
  proof (cases "sz = 0")
    case True
    then have "rb_cap rb - rb_count rb = 0" using sz by simp
    then show ?thesis using True wf by (simp add: rt_ringbuffer_put_def sz_def [symmetric] cnt)
  next
    case False
    show ?thesis
    proof (cases "uint len' < ?room")
      case True
      note wb = rb_write_block [OF wf nle(1,2), of "of_int (uint (write_index rb) + uint len')" "write_mirror rb"]
      have "rt_ringbuffer_put rb ptr len = Some (rb\<lparr>buffer_ptr := ?pool, write_mirror := write_mirror rb,
          write_index := of_int (uint (write_index rb) + uint len')\<rparr>, ucast len')"
        using False True st(2) by (simp add: rt_ringbuffer_put_def sz_def [symmetric] len'_def [symmetric] Let_def s(1))
      then show ?thesis using wb st(1,3) True n unfolding cnt by simp
    next
      case wrap: False
      note wb = rb_write_block [OF wf nle(1,2), of "of_int (uint len' - ?room)" "\<not> write_mirror rb"]
      have "rt_ringbuffer_put rb ptr len = Some (rb\<lparr>buffer_ptr := ?pool, write_mirror := \<not> write_mirror rb,
          write_index := of_int (uint len' - ?room)\<rparr>, ucast len')"
        using False wrap st(4) by (auto simp: rt_ringbuffer_put_def sz_def [symmetric] len'_def [symmetric] Let_def s(1))
      then show ?thesis using wb st(1,5) wrap n unfolding cnt by simp
    qed
  qed
qed

lemma rb_read_steps:
  assumes wf: "rb_wf rb" and n: "unat len \<le> rb_cap rb"
  defines "room \<equiv> int (rb_cap rb) - uint (read_index rb)"
    and "bytes \<equiv> ring_contents (buffer_ptr rb) (unat (read_index rb)) (unat len)"
  shows "uint len < room \<longleftrightarrow> unat (read_index rb) + unat len < rb_cap rb"
    and "uint len < room \<Longrightarrow> rb_copy_out (uint (read_index rb)) (uint len) rb = Some bytes"
    and "uint len < room \<Longrightarrow>
      unat (of_int (uint (read_index rb) + uint len) :: 15 word) = unat (read_index rb) + unat len"
    and "\<not> uint len < room \<Longrightarrow> \<exists>b1 b2. rb_copy_out (uint (read_index rb)) room rb = Some b1 \<and>
      rb_copy_out 0 (uint len - room) rb = Some b2 \<and> b1 @ b2 = bytes"
    and "\<not> uint len < room \<Longrightarrow>
      unat (of_int (uint len - room) :: 15 word) = unat (read_index rb) + unat len - rb_cap rb"
proof -
  note cap = rb_cap_bound [of rb]
  have lt: "unat (read_index rb) < rb_cap rb" and l: "length (buffer_ptr rb) = rb_cap rb"
    using wf by (simp_all add: rb_wf_def)
  show iff: "uint len < room \<longleftrightarrow> unat (read_index rb) + unat len < rb_cap rb"
    unfolding room_def uint_nat by linarith
  have bytes: "bytes = (let room = rb_cap rb - unat (read_index rb)
     in if unat len < room then take (unat len) (drop (unat (read_index rb)) (buffer_ptr rb))
        else take room (drop (unat (read_index rb)) (buffer_ptr rb)) @ take (unat len - room) (buffer_ptr rb))"
    unfolding bytes_def by (subst ring_get_block) (use n lt l in simp_all)
  show "rb_copy_out (uint (read_index rb)) (uint len) rb = Some bytes" if "uint len < room"
  proof -
    have "unat len < rb_cap rb - unat (read_index rb)" using that iff by simp
    then show ?thesis using that iff l by (simp add: rb_copy_out_def bytes Let_def)
  qed
  show "unat (of_int (uint (read_index rb) + uint len) :: 15 word) = unat (read_index rb) + unat len"
    if "uint len < room"
    unfolding uint_nat by (rule unat_of_sum15) (use that iff cap in simp)
  have r: "nat room = rb_cap rb - unat (read_index rb)" "0 \<le> room"
    unfolding room_def uint_nat using lt by (simp_all del: of_nat_unat)
  have d: "nat (uint len - room) = unat len - (rb_cap rb - unat (read_index rb))"
    unfolding room_def uint_nat using lt by (simp del: of_nat_unat)
  show "\<exists>b1 b2. rb_copy_out (uint (read_index rb)) room rb = Some b1 \<and>
      rb_copy_out 0 (uint len - room) rb = Some b2 \<and> b1 @ b2 = bytes" if "\<not> uint len < room"
  proof -
    have b: "0 \<le> uint len - room" "unat len - (rb_cap rb - unat (read_index rb)) \<le> rb_cap rb"
      using that n by simp_all
    have nl: "\<not> unat len < rb_cap rb - unat (read_index rb)" using that iff by simp
    show ?thesis
      using b r l lt nl by (simp add: rb_copy_out_def d bytes Let_def del: diff_diff_right Nat.diff_diff_right)
  qed
  show "unat (of_int (uint len - room) :: 15 word) = unat (read_index rb) + unat len - rb_cap rb" if "\<not> uint len < room"
    unfolding room_def uint_nat using unat_of_diff15 [of "rb_cap rb - unat (read_index rb)" "unat len"] that iff lt n cap
    by (simp add: of_nat_diff del: of_nat_unat)
qed

text \<open>
  \<^verbatim>\<open>rt_ringbuffer_get\<close> takes out the oldest bytes, as many as are asked for and
  there are, and returns them and their number.
\<close>

theorem rb_get_correct:
  assumes wf: "rb_wf rb"
  shows "returns (rt_ringbuffer_get rb len) (\<lambda>(rb', bytes, n). rb_wf rb' \<and> rb_cap rb' = rb_cap rb \<and>
    unat n = min (unat len) (length (rb_contents rb)) \<and> bytes = take (unat n) (rb_contents rb) \<and>
    rb_contents rb' = drop (unat n) (rb_contents rb))"
proof -
  have cnt: "length (rb_contents rb) = rb_count rb" by (simp add: rb_contents_def)
  note b = rb_count_bounds [OF wf] and s = rb_size_eq [OF wf]
  define sz where "sz = (ucast (rt_ringbuffer_data_len rb) :: u32)"
  define len' where "len' = (if sz < ucast len then ucast sz else len)"
  have sz: "unat sz = rb_count rb" by (simp add: sz_def rb_count_def)
  have us: "(ucast sz :: u16) = rt_ringbuffer_data_len rb"
    unfolding sz_def by (rule bit_word_eqI) (simp add: bit_ucast_iff)
  have n: "unat len' = min (unat len) (rb_count rb)"
    unfolding len'_def us by (simp add: word_less_nat_alt sz min_def rb_count_def)
  have nle: "unat len' \<le> rb_count rb" "unat len' \<le> rb_cap rb" using n b(1) by simp_all
  note st = rb_read_steps [OF wf nle(2)]
  let ?room = "int (rb_cap rb) - uint (read_index rb)"
  let ?bytes = "ring_contents (buffer_ptr rb) (unat (read_index rb)) (unat len')"
  have fin: ?thesis if r: "rt_ringbuffer_get rb len = Some (rb', ?bytes, ucast len')"
    and rb': "rb_wf rb'" "rb_contents rb = ?bytes @ rb_contents rb'" "rb_cap rb' = rb_cap rb" for rb'
  proof -
    have "take (unat len') (rb_contents rb) = ?bytes" "drop (unat len') (rb_contents rb) = rb_contents rb'"
      unfolding rb'(2) by simp_all
    then show ?thesis using r rb'(1,3) n by (simp add: cnt)
  qed
  show ?thesis
  proof (cases "sz = 0")
    case True
    then have c0: "rb_count rb = 0" using sz by simp
    then have "rb_contents rb = []" by (simp add: rb_contents_def)
    then show ?thesis using True wf c0 by (simp add: rt_ringbuffer_get_def sz_def [symmetric])
  next
    case False
    show ?thesis
    proof (cases "uint len' < ?room")
      case True
      note rd = rb_read_block [OF wf nle(1), of "of_int (uint (read_index rb) + uint len')" "read_mirror rb"]
      have "rt_ringbuffer_get rb len = Some (rb\<lparr>read_mirror := read_mirror rb,
          read_index := of_int (uint (read_index rb) + uint len')\<rparr>, ?bytes, ucast len')"
        using False True st(2) by (simp add: rt_ringbuffer_get_def sz_def [symmetric] len'_def [symmetric] Let_def s(1))
      then show ?thesis by (rule fin) (use rd st(1,3) True in simp_all)
    next
      case wrap: False
      note rd = rb_read_block [OF wf nle(1), of "of_int (uint len' - ?room)" "\<not> read_mirror rb"]
      have "rt_ringbuffer_get rb len = Some (rb\<lparr>read_mirror := \<not> read_mirror rb,
          read_index := of_int (uint len' - ?room)\<rparr>, ?bytes, ucast len')"
        using False wrap st(4) by (auto simp: rt_ringbuffer_get_def sz_def [symmetric] len'_def [symmetric] Let_def s(1))
      then show ?thesis by (rule fin) (use rd st(1,5) wrap in simp_all)
    qed
  qed
qed

section \<open>Overwriting\<close>

lemma rb_full_contents:
  assumes wf: "rb_wf rb" and full: "rb_count rb = rb_cap rb" and n: "n \<le> rb_cap rb" "n \<le> length src"
    and w: "unat w = (unat (write_index rb) + n) mod rb_cap rb"
  shows "ring_contents (ring_copy (unat (write_index rb)) src n (buffer_ptr rb)) (unat w) (rb_cap rb) =
    drop n (rb_contents rb) @ take n src"
proof -
  have l: "length (buffer_ptr rb) = rb_cap rb" and lt: "unat (read_index rb) < rb_cap rb" and pos: "0 < rb_cap rb"
    using wf rb_size_eq(4) [OF wf] by (simp_all add: rb_wf_def)
  have rw: "unat (read_index rb) = unat (write_index rb)"
    using rb_count_bounds(3) [OF wf] full lt by (simp add: mod_simps)
  have p: "unat (write_index rb) = (unat w + (rb_cap rb - n)) mod length (buffer_ptr rb)"
  proof -
    have "(unat w + (rb_cap rb - n)) mod rb_cap rb = (unat (write_index rb) + n + (rb_cap rb - n)) mod rb_cap rb"
      unfolding w by (simp add: mod_simps)
    also have "\<dots> = unat (write_index rb)" using n(1) lt rw by simp
    finally show ?thesis by (simp add: l)
  qed
  have "ring_contents (ring_copy (unat (write_index rb)) src n (buffer_ptr rb)) (unat w) (rb_cap rb - n + n) =
      ring_contents (buffer_ptr rb) (unat w) (rb_cap rb - n) @ take n src"
    by (rule ring_put_block [OF p]) (use n l pos in auto)
  moreover have "drop n (rb_contents rb) = ring_contents (buffer_ptr rb) (unat w) (rb_cap rb - n)"
    using ring_get_many [of n "rb_cap rb" "unat (read_index rb)" "buffer_ptr rb"] n lt l
    by (simp add: rb_contents_def full rw w)
  ultimately show ?thesis using n by simp
qed

lemma rb_full_status:
  assumes wf: "rb_wf rb"
  shows "rt_ringbuffer_status rb = RT_RINGBUFFER_FULL \<longleftrightarrow> rb_count rb = rb_cap rb"
proof -
  have lt: "unat (read_index rb) < rb_cap rb" "unat (write_index rb) < rb_cap rb" "0 < rb_cap rb"
    using wf rb_size_eq(4) [OF wf] by (simp_all add: rb_wf_def)
  show ?thesis using lt
    by (auto simp: rt_ringbuffer_status_def rb_count_eq [OF wf] word_unat_eq_iff)
qed

text \<open>
  What \<^verbatim>\<open>rt_ringbuffer_put_force\<close> leaves: the write index moved on by \<open>n\<close>, and the read index with it if
  the ring was full.
\<close>

lemma rb_put_force_state:
  assumes wf: "rb_wf rb" and src: "unat len \<le> length ptr"
  defines "n \<equiv> min (unat len) (rb_cap rb)"
  defines "wrap \<equiv> \<not> unat (write_index rb) + n < rb_cap rb"
  obtains w k where "rt_ringbuffer_put_force rb ptr len = Some
      (rb\<lparr>buffer_ptr := ring_copy (unat (write_index rb)) ptr n (buffer_ptr rb),
          write_mirror := (if wrap then \<not> write_mirror rb else write_mirror rb), write_index := w,
          read_mirror := (if rb_count rb = rb_cap rb \<and> wrap then \<not> read_mirror rb else read_mirror rb),
          read_index := (if rb_count rb = rb_cap rb then w else read_index rb)\<rparr>, k)"
    and "unat k = n"
    and "unat w = (if wrap then unat (write_index rb) + n - rb_cap rb else unat (write_index rb) + n)"
proof -
  note s = rb_size_eq [OF wf] and full = rb_full_status [OF wf]
  define len' where "len' = (if sint (buffer_size rb) < uint len then buffer_size rb else len)"
  have lf: "(if int (rb_cap rb) < uint len then buffer_size rb else len) = len'" by (simp add: len'_def s(1))
  have n: "unat len' = n" unfolding len'_def n_def using s by (auto simp: uint_nat min_def simp del: of_nat_unat)
  have nle: "unat len' \<le> rb_cap rb" "unat len' \<le> length ptr" using src by (simp_all add: n n_def)
  note st = rb_write_steps [OF wf nle]
  let ?pool = "ring_copy (unat (write_index rb)) ptr (unat len') (buffer_ptr rb)"
  let ?room = "int (rb_cap rb) - uint (write_index rb)"
  show thesis
  proof (cases "uint len' < ?room")
    case True
    let ?w = "of_int (uint (write_index rb) + uint len') :: 15 word"
    have "rt_ringbuffer_put_force rb ptr len = Some (if rb_count rb = rb_cap rb
        then rb\<lparr>buffer_ptr := ?pool, write_index := ?w, read_index := ?w\<rparr>
        else rb\<lparr>buffer_ptr := ?pool, write_index := ?w\<rparr>, ucast len')"
      using True st(2) full by (simp add: rt_ringbuffer_put_force_def Let_def s(1) lf)
    then show thesis using True st(1,3) by (intro that [of ?w "ucast len'"]) (auto simp: n wrap_def)
  next
    case False
    let ?w = "of_int (uint len' - ?room) :: 15 word"
    have "rt_ringbuffer_put_force rb ptr len = Some (if rb_count rb = rb_cap rb
        then rb\<lparr>buffer_ptr := ?pool, write_mirror := \<not> write_mirror rb, write_index := ?w,
                read_mirror := \<not> read_mirror rb, read_index := ?w\<rparr>
        else rb\<lparr>buffer_ptr := ?pool, write_mirror := \<not> write_mirror rb, write_index := ?w\<rparr>, ucast len')"
      using False st(4) full by (auto simp: rt_ringbuffer_put_force_def Let_def s(1) lf)
    then show thesis using False st(1,5) by (intro that [of ?w "ucast len'"]) (auto simp: n wrap_def)
  qed
qed

text \<open>
  \<^verbatim>\<open>rt_ringbuffer_put_force\<close>, with \<open>n\<close> the length, at most the size of the
  ring. When the ring is full, or has room for the bytes, the ring then holds the last bytes of what it
  held followed by the new ones, as many as fit: the oldest are overwritten. When it is neither
  full nor has room, the read index is not moved: fewer bytes can be read than before, although the
  ring has been overrun, and the mirror bits no longer tell a full ring from an empty one.
\<close>

theorem rb_put_force_correct:
  assumes wf: "rb_wf rb" and src: "unat len \<le> length ptr"
  defines "n \<equiv> min (unat len) (rb_cap rb)" and "c \<equiv> length (rb_contents rb)"
  shows "returns (rt_ringbuffer_put_force rb ptr len) (\<lambda>(rb', k). unat k = n \<and> rb_cap rb' = rb_cap rb \<and>
    (if c = rb_cap rb \<or> n \<le> rb_cap rb - c
     then rb_wf rb' \<and> rb_contents rb' = drop (c + n - rb_cap rb) (rb_contents rb @ take n ptr)
     else \<not> rb_wf rb' \<and> length (rb_contents rb') = c + n - rb_cap rb))"
proof -
  have cnt: "c = rb_count rb" by (simp add: c_def rb_contents_def)
  note b = rb_count_bounds [OF wf] and s = rb_size_eq [OF wf] and ce = rb_count_eq [OF wf]
  have l: "length (buffer_ptr rb) = rb_cap rb" and lt: "unat (read_index rb) < rb_cap rb" "unat (write_index rb) < rb_cap rb"
    and mir: "unat (read_index rb) < unat (write_index rb) \<Longrightarrow> read_mirror rb = write_mirror rb"
      "unat (write_index rb) < unat (read_index rb) \<Longrightarrow> read_mirror rb \<noteq> write_mirror rb"
    and pos: "0 < sint (buffer_size rb)"
    using wf by (simp_all add: rb_wf_def)
  let ?wrap = "\<not> unat (write_index rb) + n < rb_cap rb"
  let ?pool = "ring_copy (unat (write_index rb)) ptr n (buffer_ptr rb)"
  have n: "n \<le> rb_cap rb" "n \<le> length ptr" using src by (simp_all add: n_def)
  obtain w k where r: "rt_ringbuffer_put_force rb ptr len = Some
      (rb\<lparr>buffer_ptr := ?pool, write_mirror := (if ?wrap then \<not> write_mirror rb else write_mirror rb), write_index := w,
          read_mirror := (if rb_count rb = rb_cap rb \<and> ?wrap then \<not> read_mirror rb else read_mirror rb),
          read_index := (if rb_count rb = rb_cap rb then w else read_index rb)\<rparr>, k)"
    "unat k = n" "unat w = (if ?wrap then unat (write_index rb) + n - rb_cap rb else unat (write_index rb) + n)"
    by (rule rb_put_force_state [OF wf src]) (simp only: n_def [symmetric])
  have lp: "length ?pool = rb_cap rb" using n lt l by simp
  consider "rb_count rb = rb_cap rb" | "rb_count rb \<noteq> rb_cap rb" "n \<le> rb_cap rb - rb_count rb"
    | "rb_count rb \<noteq> rb_cap rb" "\<not> n \<le> rb_cap rb - rb_count rb"
    by blast
  then show ?thesis
  proof cases
    case 1
    let ?rb' = "rb\<lparr>buffer_ptr := ?pool, write_mirror := (if ?wrap then \<not> write_mirror rb else write_mirror rb),
      write_index := w, read_mirror := (if ?wrap then \<not> read_mirror rb else read_mirror rb), read_index := w\<rparr>"
    have cap: "rb_cap ?rb' = rb_cap rb" by (simp add: rb_cap_def)
    have rw: "unat (read_index rb) = unat (write_index rb)" "read_mirror rb \<noteq> write_mirror rb"
      using 1 ce lt s(4) by (auto split: if_splits)
    have wlt: "unat w < rb_cap rb" unfolding r(3) using n lt by auto
    have wf': "rb_wf ?rb'" unfolding rb_wf_def cap using pos lp wlt by simp
    have c': "rb_count ?rb' = rb_cap rb" unfolding rb_count_eq [OF wf'] cap using rw by auto
    have w: "unat w = (unat (write_index rb) + n) mod rb_cap rb" unfolding r(3) using n lt by (auto simp: mod_if)
    have "rb_contents ?rb' = drop n (rb_contents rb) @ take n ptr"
      unfolding rb_contents_def [of ?rb'] c' using rb_full_contents [OF wf 1 n w] by simp
    moreover have "n \<le> length (rb_contents rb)" using n 1 by (simp add: rb_contents_def)
    ultimately show ?thesis using r(1,2) 1 wf' cap unfolding cnt by simp
  next
    case 2
    have m: "(if ?wrap then \<not> write_mirror rb else write_mirror rb) =
        (if unat (write_index rb) + n < rb_cap rb then write_mirror rb else \<not> write_mirror rb)" by simp
    have w: "unat w = (if unat (write_index rb) + n < rb_cap rb then unat (write_index rb) + n
        else unat (write_index rb) + n - rb_cap rb)" using r(3) by simp
    note wb = rb_write_block [OF wf 2(2) n(2) w m]
    have eq: "rb\<lparr>buffer_ptr := ?pool, write_mirror := (if ?wrap then \<not> write_mirror rb else write_mirror rb), write_index := w,
        read_mirror := read_mirror rb, read_index := read_index rb\<rparr> =
      rb\<lparr>buffer_ptr := ?pool, write_mirror := (if ?wrap then \<not> write_mirror rb else write_mirror rb), write_index := w\<rparr>"
      by simp
    have z: "rb_count rb + n - rb_cap rb = 0" using 2(2) b(1) by simp
    show ?thesis using r(1,2) 2 wb eq unfolding cnt by (simp add: z)
  next
    case 3
    let ?rb' = "rb\<lparr>buffer_ptr := ?pool, write_mirror := (if ?wrap then \<not> write_mirror rb else write_mirror rb), write_index := w\<rparr>"
    have cap: "rb_cap ?rb' = rb_cap rb" by (simp add: rb_cap_def)
    have "rb_count rb \<noteq> 0" using 3 n by auto
    then have ne: "unat (read_index rb) \<noteq> unat (write_index rb)" using ce 3(1) by (auto split: if_splits)
    have bad: "unat (read_index rb) < unat w \<and> read_mirror rb \<noteq> write_mirror ?rb' \<or>
        unat w < unat (read_index rb) \<and> read_mirror rb = write_mirror ?rb'"
      using 3 ne ce lt mir n r(3) by (auto split: if_splits)
    then have nwf: "\<not> rb_wf ?rb'" by (auto simp: rb_wf_def)
    have "unat (of_int (uint w - uint (read_index rb)) :: u16) = unat w - unat (read_index rb)"
      if "unat (read_index rb) < unat w"
      unfolding uint_nat by (rule unat_of_diff16) (use that r(3) lt n rb_cap_bound [of rb] in \<open>auto split: if_splits\<close>)
    moreover have "unat (of_int (int (rb_cap rb) - (uint (read_index rb) - uint w)) :: u16) =
        rb_cap rb - (unat (read_index rb) - unat w)" if "unat w < unat (read_index rb)"
      unfolding uint_nat using unat_of_diff16 [of "unat (read_index rb) - unat w" "rb_cap rb"] that lt rb_cap_bound [of rb]
      by (simp add: of_nat_diff del: of_nat_unat)
    ultimately have cl: "rb_count ?rb' = (if unat (read_index rb) < unat w then unat w - unat (read_index rb)
        else rb_cap rb - (unat (read_index rb) - unat w))"
      using bad by (auto simp: rb_count_def rt_ringbuffer_data_len_def rt_ringbuffer_status_def word_less_nat_alt s(1))
    have "rb_count ?rb' = rb_count rb + n - rb_cap rb"
      unfolding cl using 3 ne ce lt n r(3) by (auto split: if_splits)
    then have "length (rb_contents ?rb') = rb_count rb + n - rb_cap rb" by (simp add: rb_contents_def)
    then show ?thesis using r(1,2) 3 nwf cap unfolding cnt by simp
  qed
qed

section \<open>Characters\<close>

lemma ring_copy_one: "pos < length xs \<Longrightarrow> ring_copy pos [x] 1 xs = xs[pos := x]"
  by (simp add: ring_copy_def Let_def copy_into_def upd_conv_take_nth_drop)

lemma rb_last_index:
  assumes "rb_wf rb"
  shows "uint (i :: 15 word) = sint (buffer_size rb) - 1 \<longleftrightarrow> unat i + 1 = rb_cap rb"
  using rb_size_eq(1,4) [OF assms] unfolding uint_nat by linarith

lemma rb_succ_index: "unat i + 1 < rb_cap rb \<Longrightarrow> unat ((i :: 15 word) + 1) = unat i + 1"
  using rb_cap_bound [of rb] by (simp add: unat_word_ariths)

lemma rb_putchar_state:
  assumes wf: "rb_wf rb" and room: "rb_count rb < rb_cap rb"
  obtains rb' where "rt_ringbuffer_putchar rb ch = Some (rb', 1)" and "rb_wf rb'"
    and "rb_contents rb' = rb_contents rb @ [ch]" and "rb_cap rb' = rb_cap rb"
proof -
  have l: "length (buffer_ptr rb) = rb_cap rb" and lt: "unat (write_index rb) < rb_cap rb"
    using wf by (simp_all add: rb_wf_def)
  have sp: "rt_ringbuffer_space_len rb \<noteq> 0" using rb_count_bounds(2) [OF wf] room by simp
  define last where "last = (unat (write_index rb) + 1 = rb_cap rb)"
  define w where "w = (if last then 0 else write_index rb + 1)"
  define m where "m = (if last then \<not> write_mirror rb else write_mirror rb)"
  have w: "unat w = (if unat (write_index rb) + 1 < rb_cap rb then unat (write_index rb) + 1
      else unat (write_index rb) + 1 - rb_cap rb)"
    using lt rb_succ_index [of "write_index rb" rb] by (auto simp: w_def last_def)
  have m: "m = (if unat (write_index rb) + 1 < rb_cap rb then write_mirror rb else \<not> write_mirror rb)"
    using lt by (auto simp: m_def last_def)
  have n: "1 \<le> rb_cap rb - rb_count rb" "1 \<le> length [ch]" using room by simp_all
  note wb = rb_write_block [OF wf n w m]
  have c: "ring_copy (unat (write_index rb)) [ch] 1 (buffer_ptr rb) = (buffer_ptr rb)[unat (write_index rb) := ch]"
    by (rule ring_copy_one) (simp add: l lt)
  let ?rb1 = "rb\<lparr>buffer_ptr := (buffer_ptr rb)[unat (write_index rb) := ch]\<rparr>"
  have "uint (write_index ?rb1) = sint (buffer_size ?rb1) - 1 \<longleftrightarrow> last"
    using rb_last_index [OF wf] by (simp add: last_def)
  then have r: "rt_ringbuffer_putchar rb ch =
      Some (rb\<lparr>buffer_ptr := (buffer_ptr rb)[unat (write_index rb) := ch], write_mirror := m, write_index := w\<rparr>, 1)"
    using sp lt l by (simp add: rt_ringbuffer_putchar_def m_def w_def)
  show thesis by (rule that [OF r]) (use wb in \<open>unfold c, simp_all\<close>)
qed

lemma rb_getchar_state:
  assumes wf: "rb_wf rb" and some: "rb_count rb \<noteq> 0"
  obtains rb' ch where "rt_ringbuffer_getchar rb = Some (rb', Some ch, 1)" and "rb_wf rb'"
    and "rb_contents rb = ch # rb_contents rb'" and "rb_cap rb' = rb_cap rb"
proof -
  have l: "length (buffer_ptr rb) = rb_cap rb" and lt: "unat (read_index rb) < rb_cap rb"
    using wf by (simp_all add: rb_wf_def)
  have dl: "rt_ringbuffer_data_len rb \<noteq> 0" using some by (auto simp: rb_count_def)
  define last where "last = (unat (read_index rb) + 1 = rb_cap rb)"
  define i where "i = (if last then 0 else read_index rb + 1)"
  define m where "m = (if last then \<not> read_mirror rb else read_mirror rb)"
  have i: "unat i = (if unat (read_index rb) + 1 < rb_cap rb then unat (read_index rb) + 1
      else unat (read_index rb) + 1 - rb_cap rb)"
    using lt rb_succ_index [of "read_index rb" rb] by (auto simp: i_def last_def)
  have m: "m = (if unat (read_index rb) + 1 < rb_cap rb then read_mirror rb else \<not> read_mirror rb)"
    using lt by (auto simp: m_def last_def)
  have n: "1 \<le> rb_count rb" using some by simp
  note rd = rb_read_block [OF wf n i m]
  have c: "ring_contents (buffer_ptr rb) (unat (read_index rb)) 1 = [buffer_ptr rb ! unat (read_index rb)]"
    using l lt by (simp add: ring_contents_def)
  have r: "rt_ringbuffer_getchar rb =
      Some (rb\<lparr>read_mirror := m, read_index := i\<rparr>, Some (buffer_ptr rb ! unat (read_index rb)), 1)"
    using dl lt l rb_last_index [OF wf, of "read_index rb"]
    by (simp add: rt_ringbuffer_getchar_def m_def i_def last_def)
  show thesis by (rule that [OF r]) (use rd in \<open>unfold c, simp_all\<close>)
qed

definition rb_try_put :: "u8 \<Rightarrow> rt_ringbuffer \<Rightarrow> (rt_ringbuffer \<times> bool) option" where
  "rb_try_put ch rb = map_option (\<lambda>(rb', n). (rb', n = 1)) (rt_ringbuffer_putchar rb ch)"

definition rb_try_get :: "rt_ringbuffer \<Rightarrow> (rt_ringbuffer \<times> u8 option) option" where
  "rb_try_get rb = map_option (\<lambda>(rb', ch, n). (rb', ch)) (rt_ringbuffer_getchar rb)"

definition rb_holds :: "rt_ringbuffer \<Rightarrow> u8 list \<Rightarrow> bool" where
  "rb_holds rb bytes \<longleftrightarrow> rb_wf rb \<and> rb_contents rb = bytes"

interpretation rbf: fifo rb_holds rb_cap "\<lambda>rb ch. True" rb_try_put rb_try_get
proof unfold_locales
  fix rb bytes
  assume h: "rb_holds rb bytes"
  then have wf: "rb_wf rb" and c: "length bytes = rb_count rb" by (auto simp: rb_holds_def rb_contents_def)
  then show le: "length bytes \<le> rb_cap rb" using rb_count_bounds(1) by simp
  show "returns (rb_try_put ch rb) (\<lambda>(rb', ok). ok = (length bytes < rb_cap rb) \<and>
      rb_holds rb' (if ok then bytes @ [ch] else bytes) \<and> rb_cap rb' = rb_cap rb \<and> (\<lambda>ch. True) = (\<lambda>ch. True))" for ch
  proof (cases "rb_count rb < rb_cap rb")
    case True
    obtain rb' where "rt_ringbuffer_putchar rb ch = Some (rb', 1)" "rb_wf rb'" "rb_contents rb' = rb_contents rb @ [ch]"
      "rb_cap rb' = rb_cap rb"
      by (rule rb_putchar_state [OF wf True])
    then show ?thesis using True h c by (simp add: rb_try_put_def rb_holds_def)
  next
    case False
    then have "rt_ringbuffer_putchar rb ch = Some (rb, 0)"
      using rb_count_bounds(2) [OF wf] by (simp add: rt_ringbuffer_putchar_def)
    then show ?thesis using False h c by (simp add: rb_try_put_def)
  qed
  show "returns (rb_try_get rb) (\<lambda>(rb', r). r = (case bytes of [] \<Rightarrow> None | x # _ \<Rightarrow> Some x) \<and>
      rb_holds rb' (tl bytes) \<and> rb_cap rb' = rb_cap rb \<and> (\<lambda>ch. True) = (\<lambda>ch. True))"
  proof (cases "rb_count rb = 0")
    case True
    then have "rt_ringbuffer_getchar rb = Some (rb, None, 0)"
      by (simp add: rt_ringbuffer_getchar_def rb_count_def unat_eq_0)
    then show ?thesis using True h c by (simp add: rb_try_get_def)
  next
    case False
    obtain rb' ch where r: "rt_ringbuffer_getchar rb = Some (rb', Some ch, 1)" "rb_wf rb'"
      "rb_contents rb = ch # rb_contents rb'" "rb_cap rb' = rb_cap rb"
      by (rule rb_getchar_state [OF wf False])
    then have "bytes = ch # rb_contents rb'" using h by (simp add: rb_holds_def)
    then show ?thesis using r by (simp add: rb_try_get_def rb_holds_def)
  qed
qed

text \<open>
  C29. Any sequence of \<^verbatim>\<open>rt_ringbuffer_putchar\<close> and \<^verbatim>\<open>rt_ringbuffer_getchar\<close>: the bytes read,
  followed by those still in the ring, are the bytes that were in the ring followed by those
  accepted, in order.
\<close>

theorem rb_fifo:
  assumes "rb_holds rb bytes"
  shows "returns (fifo_run rb_try_put rb_try_get ops rb) (\<lambda>(rb', ins, outs).
    \<exists>rest. rb_holds rb' rest \<and> bytes @ ins = outs @ rest \<and> rb_cap rb' = rb_cap rb)"
  by (rule rbf.run_in_order [OF assms]) simp

section \<open>Concrete rings\<close>

text \<open>Eight cells, four bytes in the ring around its end; and the ring full.\<close>

definition ex_rb :: rt_ringbuffer where
  "ex_rb = \<lparr>buffer_ptr = [3, 4, 0, 0, 0, 0, 1, 2], read_mirror = False, read_index = 6, write_mirror = True,
     write_index = 2, buffer_size = 8\<rparr>"

lemma ex_rb_wf: "rb_wf ex_rb" "rb_cap ex_rb = 8" "rb_contents ex_rb = [1, 2, 3, 4]"
proof -
  show cap: "rb_cap ex_rb = 8" by (simp add: rb_cap_def ex_rb_def)
  show wf: "rb_wf ex_rb" using cap by (simp add: rb_wf_def) (simp add: ex_rb_def)
  have "rb_count ex_rb = 4" unfolding rb_count_eq [OF wf] cap by (simp add: ex_rb_def)
  then show "rb_contents ex_rb = [1, 2, 3, 4]"
    by (simp add: rb_contents_def) (simp add: ex_rb_def ring_contents_def upt_conv_Cons)
qed

lemma rb_put_correct_witness:
  "returns (rt_ringbuffer_put ex_rb [5, 6, 7, 8, 9] 5) (\<lambda>(rb', n). n = 4 \<and> rb_contents rb' = [1, 2, 3, 4, 5, 6, 7, 8])"
proof -
  have "unat n = 4 \<Longrightarrow> n = 4" for n :: u32 by (simp add: word_unat_eq_iff)
  then show ?thesis
    using rb_put_correct [OF ex_rb_wf(1), of 5 "[5, 6, 7, 8, 9]"] by (auto simp: ex_rb_wf(2,3) elim!: returns_mono)
qed

lemma rb_get_correct_witness:
  "returns (rt_ringbuffer_get ex_rb 3) (\<lambda>(rb', bytes, n). bytes = [1, 2, 3] \<and> rb_contents rb' = [4])"
  using rb_get_correct [OF ex_rb_wf(1), of 3] by (auto simp: ex_rb_wf(2,3) elim!: returns_mono)

lemma rb_put_force_correct_witness:
  "returns (rt_ringbuffer_put_force ex_rb [5, 6, 7, 8, 9] 5) (\<lambda>(rb', n). length (rb_contents rb') = 1 \<and> \<not> rb_wf rb')"
  using rb_put_force_correct [OF ex_rb_wf(1), of 5 "[5, 6, 7, 8, 9]"] by (auto simp: ex_rb_wf(2,3) elim!: returns_mono)

lemma rb_fifo_witness:
  "returns (fifo_run rb_try_put rb_try_get [Get, Put 5, Get, Get] ex_rb) (\<lambda>(rb', ins, outs).
    \<exists>rest. rb_holds rb' rest \<and> [1, 2, 3, 4] @ ins = outs @ rest)"
proof -
  have "rb_holds ex_rb [1, 2, 3, 4]" using ex_rb_wf by (simp add: rb_holds_def)
  from rb_fifo [OF this] show ?thesis by (rule returns_mono) auto
qed

end
