(* ===== verification/RT_Mem.thy ===== *)
theory RT_Mem
  imports RT_Sem RT_Interfaces
begin

text \<open>
  The heap of src/mem.c (\<^verbatim>\<open>RT_USING_SMALL_MEM\<close>, with \<^verbatim>\<open>RT_MEM_STATS\<close>). A block starts with a
  \<^verbatim>\<open>struct heap_mem\<close> of 12 bytes; blocks are named by the offset of that header from \<^verbatim>\<open>heap_ptr\<close>, as the
  fields \<^verbatim>\<open>next\<close> and \<^verbatim>\<open>prev\<close> name them. The memory is split: \<open>hp_hdr\<close> is what the header at an offset
  reads as, \<open>hp_bytes\<close> the bytes of the blocks by address. Clients write only the bytes of blocks they
  hold, which leaves the headers alone. What happens between \<^verbatim>\<open>rt_sem_take\<close> and \<^verbatim>\<open>rt_sem_release\<close> of the
  heap's semaphore is one step; the calls around it are cut where they may block.
\<close>

section \<open>The code\<close>

record heap_mem =
  hm_magic :: u16
  hm_used :: u16
  hm_next :: u32
  hm_prev :: u32

record small_heap =
  hp_ptr :: u32
  hp_hdr :: "u32 \<Rightarrow> heap_mem"
  hp_bytes :: "u32 \<Rightarrow> u8"
  hp_end :: u32
  hp_lfree :: u32
  mem_size_aligned :: u32
  used_mem :: u32
  max_mem :: u32
  heap_sem :: rt_semaphore

definition HEAP_MAGIC :: u16 where "HEAP_MAGIC = 0x1ea0"
definition MIN_SIZE :: u32 where "MIN_SIZE = 12"
definition MIN_SIZE_ALIGNED :: u32 where "MIN_SIZE_ALIGNED = RT_ALIGN MIN_SIZE RT_ALIGN_SIZE"
definition SIZEOF_STRUCT_MEM :: u32 where "SIZEOF_STRUCT_MEM = RT_ALIGN 12 RT_ALIGN_SIZE"
definition RT_WAITING_FOREVER :: u32 where "RT_WAITING_FOREVER = - 1"

definition upd_hdr :: "u32 \<Rightarrow> (heap_mem \<Rightarrow> heap_mem) \<Rightarrow> small_heap \<Rightarrow> small_heap" where
  "upd_hdr p f h = h\<lparr>hp_hdr := (hp_hdr h)(p := f (hp_hdr h p))\<rparr>"

definition plug_holes :: "u32 \<Rightarrow> small_heap \<Rightarrow> small_heap option" where
  "plug_holes mem h =
     do { rt_assert (hp_ptr h \<le> hp_ptr h + mem);
          rt_assert (hp_ptr h + mem < hp_ptr h + hp_end h);
          rt_assert (hm_used (hp_hdr h mem) = 0);
          let nmem = hm_next (hp_hdr h mem);
          let h1 = (if mem \<noteq> nmem \<and> hm_used (hp_hdr h nmem) = 0 \<and> nmem \<noteq> hp_end h then
                      (let h' = (if hp_lfree h = nmem then h\<lparr>hp_lfree := mem\<rparr> else h);
                           h'' = upd_hdr mem (\<lambda>b. b\<lparr>hm_next := hm_next (hp_hdr h' nmem)\<rparr>) h'
                       in upd_hdr (hm_next (hp_hdr h'' nmem)) (\<lambda>b. b\<lparr>hm_prev := mem\<rparr>) h'')
                    else h);
          let pmem = hm_prev (hp_hdr h1 mem);
          Some (if pmem \<noteq> mem \<and> hm_used (hp_hdr h1 pmem) = 0 then
                  (let h' = (if hp_lfree h1 = mem then h1\<lparr>hp_lfree := pmem\<rparr> else h1);
                       h'' = upd_hdr pmem (\<lambda>b. b\<lparr>hm_next := hm_next (hp_hdr h' mem)\<rparr>) h'
                   in upd_hdr (hm_next (hp_hdr h'' mem)) (\<lambda>b. b\<lparr>hm_prev := pmem\<rparr>) h'')
                else h1) }"

text \<open>A region that is too small leaves the heap as it was (and prints a message).\<close>

definition rt_system_heap_init ::
  "kobj \<Rightarrow> nat \<Rightarrow> u32 \<Rightarrow> u32 \<Rightarrow> small_heap \<Rightarrow> kernel \<Rightarrow> (small_heap \<times> kernel) option" where
  "rt_system_heap_init ob q begin_addr end_addr h k =
     do { let begin_align = RT_ALIGN begin_addr RT_ALIGN_SIZE;
          let end_align = RT_ALIGN_DOWN end_addr RT_ALIGN_SIZE;
          not_in_interrupt k;
          (if 2 * SIZEOF_STRUCT_MEM < end_align \<and> begin_align \<le> end_align - 2 * SIZEOF_STRUCT_MEM then
             do { let sz = end_align - begin_align - 2 * SIZEOF_STRUCT_MEM;
                  let h1 = h\<lparr>mem_size_aligned := sz, hp_ptr := begin_align\<rparr>;
                  let nxt = mem_size_aligned h1 + SIZEOF_STRUCT_MEM;
                  let h2 = upd_hdr 0 (\<lambda>_. \<lparr>hm_magic = HEAP_MAGIC, hm_used = 0, hm_next = nxt, hm_prev = 0\<rparr>) h1;
                  let h3 = upd_hdr nxt (\<lambda>_. \<lparr>hm_magic = HEAP_MAGIC, hm_used = 1, hm_next = nxt, hm_prev = nxt\<rparr>)
                             (h2\<lparr>hp_end := nxt\<rparr>);
                  let (sem, k1, e) = rt_sem_init ob q ''heap'' 1 RT_IPC_FLAG_FIFO k;
                  Some (h3\<lparr>heap_sem := sem, hp_lfree := 0\<rparr>, k1) }
           else Some (h, k)) }"

text \<open>The search for the first block that fits, from \<open>ptr\<close> on.\<close>

partial_function (option) malloc_find :: "u32 \<Rightarrow> u32 \<Rightarrow> small_heap \<Rightarrow> u32 option option" where
  "malloc_find sz ptr h =
     (if ptr < mem_size_aligned h - sz then
        (if hm_used (hp_hdr h ptr) = 0 \<and> sz \<le> hm_next (hp_hdr h ptr) - (ptr + SIZEOF_STRUCT_MEM)
         then Some (Some ptr)
         else malloc_find sz (hm_next (hp_hdr h ptr)) h)
      else Some None)"

definition count_used :: "u32 \<Rightarrow> small_heap \<Rightarrow> small_heap" where
  "count_used n h =
     (let h1 = h\<lparr>used_mem := used_mem h + n\<rparr>
      in if max_mem h1 < used_mem h1 then h1\<lparr>max_mem := used_mem h1\<rparr> else h1)"

definition malloc_place :: "u32 \<Rightarrow> u32 \<Rightarrow> small_heap \<Rightarrow> small_heap" where
  "malloc_place sz ptr h =
     (if sz + SIZEOF_STRUCT_MEM + MIN_SIZE_ALIGNED \<le> hm_next (hp_hdr h ptr) - (ptr + SIZEOF_STRUCT_MEM) then
        (let ptr2 = ptr + SIZEOF_STRUCT_MEM + sz;
             h1 = upd_hdr ptr2 (\<lambda>b. b\<lparr>hm_used := 0, hm_next := hm_next (hp_hdr h ptr), hm_prev := ptr\<rparr>) h;
             h2 = upd_hdr ptr (\<lambda>b. b\<lparr>hm_next := ptr2, hm_used := 1\<rparr>) h1;
             next2 = hm_next (hp_hdr h2 ptr2);
             h3 = (if next2 \<noteq> mem_size_aligned h2 + SIZEOF_STRUCT_MEM
                   then upd_hdr next2 (\<lambda>b. b\<lparr>hm_prev := ptr2\<rparr>) h2 else h2)
         in count_used (sz + SIZEOF_STRUCT_MEM) h3)
      else
        (let h1 = upd_hdr ptr (\<lambda>b. b\<lparr>hm_used := 1\<rparr>) h
         in count_used (hm_next (hp_hdr h1 ptr) - ptr) h1))"

partial_function (option) lfree_advance :: "u32 \<Rightarrow> small_heap \<Rightarrow> u32 option" where
  "lfree_advance lf h =
     (if hm_used (hp_hdr h lf) \<noteq> 0 \<and> lf \<noteq> hp_end h then lfree_advance (hm_next (hp_hdr h lf)) h
      else Some lf)"

text \<open>The part of \<^verbatim>\<open>rt_malloc\<close> under the semaphore; \<^const>\<open>None\<close> as a result is \<^verbatim>\<open>RT_NULL\<close>.\<close>

definition malloc_locked :: "u32 \<Rightarrow> small_heap \<Rightarrow> (small_heap \<times> u32 option) option" where
  "malloc_locked sz h =
     do { found \<leftarrow> malloc_find sz (hp_lfree h) h;
          (case found of
             None \<Rightarrow> Some (h, None)
           | Some ptr \<Rightarrow>
               do { let h1 = upd_hdr ptr (\<lambda>b. b\<lparr>hm_magic := HEAP_MAGIC\<rparr>) (malloc_place sz ptr h);
                    h2 \<leftarrow> (if ptr = hp_lfree h1 then
                             do { lf \<leftarrow> lfree_advance (hp_lfree h1) h1;
                                  rt_assert (lf = hp_end h1 \<or> hm_used (hp_hdr h1 lf) = 0);
                                  Some (h1\<lparr>hp_lfree := lf\<rparr>) }
                           else Some h1);
                    rt_assert (hp_ptr h2 + ptr + SIZEOF_STRUCT_MEM + sz \<le> hp_ptr h2 + hp_end h2);
                    rt_assert ((hp_ptr h2 + ptr + SIZEOF_STRUCT_MEM) mod RT_ALIGN_SIZE = 0);
                    rt_assert ((hp_ptr h2 + ptr) AND (RT_ALIGN_SIZE - 1) = 0);
                    Some (h2, Some (hp_ptr h2 + ptr + SIZEOF_STRUCT_MEM)) }) }"

text \<open>The part of \<^verbatim>\<open>rt_free\<close> under the semaphore, for the block at \<open>mem\<close>.\<close>

definition free_locked :: "u32 \<Rightarrow> small_heap \<Rightarrow> small_heap option" where
  "free_locked mem h =
     do { rt_assert (hm_used (hp_hdr h mem) \<noteq> 0);
          rt_assert (hm_magic (hp_hdr h mem) = HEAP_MAGIC);
          let h1 = upd_hdr mem (\<lambda>b. b\<lparr>hm_used := 0, hm_magic := 0\<rparr>) h;
          let h2 = (if hp_ptr h1 + mem < hp_ptr h1 + hp_lfree h1 then h1\<lparr>hp_lfree := mem\<rparr> else h1);
          let h3 = h2\<lparr>used_mem := used_mem h2 - (hm_next (hp_hdr h2 mem) - mem)\<rparr>;
          plug_holes mem h3 }"

text \<open>Where a heap call waits for the semaphore, and how it ends.\<close>

datatype heap_point = In_Malloc u32 | In_Calloc u32 u32 | In_Free u32 | In_Realloc u32 u32
  | In_Realloc_Malloc u32 u32 u32 u32 | In_Realloc_Free u32 "u32 option"

datatype 'r heap_outcome = Heap_Done 'r | Heap_Waits heap_point

definition heap_take :: "heap_point \<Rightarrow> small_heap \<Rightarrow> kernel \<Rightarrow>
    (small_heap \<Rightarrow> kernel \<Rightarrow> (small_heap \<times> kernel \<times> 'r heap_outcome) option) \<Rightarrow>
    (small_heap \<times> kernel \<times> 'r heap_outcome) option" where
  "heap_take pt h k cont =
     do { (sem, k1, r) \<leftarrow> rt_sem_take (heap_sem h) RT_WAITING_FOREVER k;
          (case r of
             Done e \<Rightarrow> cont (h\<lparr>heap_sem := sem\<rparr>) k1
           | Blocked \<Rightarrow> Some (h\<lparr>heap_sem := sem\<rparr>, k1, Heap_Waits pt)) }"

definition heap_release :: "small_heap \<Rightarrow> kernel \<Rightarrow> (small_heap \<times> kernel) option" where
  "heap_release h k =
     do { (sem, k1, e) \<leftarrow> rt_sem_release (heap_sem h) k; Some (h\<lparr>heap_sem := sem\<rparr>, k1) }"

definition malloc_enter ::
  "u32 \<Rightarrow> small_heap \<Rightarrow> kernel \<Rightarrow> (small_heap \<times> kernel \<times> u32 option heap_outcome) option" where
  "malloc_enter sz h k =
     do { (h1, p) \<leftarrow> malloc_locked sz h; (h2, k2) \<leftarrow> heap_release h1 k; Some (h2, k2, Heap_Done p) }"

text \<open>\<^verbatim>\<open>rt_malloc\<close>, for a caller that will wait at \<open>pt\<close>, given the size it will wait with.\<close>

definition malloc_at ::
  "(u32 \<Rightarrow> heap_point) \<Rightarrow> u32 \<Rightarrow> small_heap \<Rightarrow> kernel \<Rightarrow>
    (small_heap \<times> kernel \<times> u32 option heap_outcome) option" where
  "malloc_at pt sz h k =
     do { not_in_interrupt k;
          (if sz = 0 then Some (h, k, Heap_Done None)
           else do {
             let sz1 = RT_ALIGN sz RT_ALIGN_SIZE;
             (if mem_size_aligned h < sz1 then Some (h, k, Heap_Done None)
              else do {
                let sz2 = (if sz1 < MIN_SIZE_ALIGNED then MIN_SIZE_ALIGNED else sz1);
                heap_take (pt sz2) h k (malloc_enter sz2) }) }) }"

definition rt_malloc ::
  "u32 \<Rightarrow> small_heap \<Rightarrow> kernel \<Rightarrow> (small_heap \<times> kernel \<times> u32 option heap_outcome) option" where
  "rt_malloc sz h k = malloc_at In_Malloc sz h k"

text \<open>\<^verbatim>\<open>rt_memset\<close> and \<^verbatim>\<open>rt_memcpy\<close> on regions that do not overlap, by what they leave in memory.\<close>

definition set_bytes :: "u32 \<Rightarrow> nat \<Rightarrow> u8 \<Rightarrow> (u32 \<Rightarrow> u8) \<Rightarrow> u32 \<Rightarrow> u8" where
  "set_bytes dst n v B = (\<lambda>x. if unat (x - dst) < n then v else B x)"

definition copy_bytes :: "u32 \<Rightarrow> u32 \<Rightarrow> nat \<Rightarrow> (u32 \<Rightarrow> u8) \<Rightarrow> u32 \<Rightarrow> u8" where
  "copy_bytes dst src n B = (\<lambda>x. if unat (x - dst) < n then B (src + (x - dst)) else B x)"

text \<open>\<open>count * size\<close> is computed in 32 bits.\<close>

definition calloc_end ::
  "u32 \<Rightarrow> small_heap \<times> kernel \<times> u32 option heap_outcome \<Rightarrow> small_heap \<times> kernel \<times> u32 option heap_outcome" where
  "calloc_end n res =
     (case res of
        (h, k, Heap_Done (Some p)) \<Rightarrow> (h\<lparr>hp_bytes := set_bytes p (unat n) 0 (hp_bytes h)\<rparr>, k, Heap_Done (Some p))
      | _ \<Rightarrow> res)"

definition rt_calloc ::
  "u32 \<Rightarrow> u32 \<Rightarrow> small_heap \<Rightarrow> kernel \<Rightarrow> (small_heap \<times> kernel \<times> u32 option heap_outcome) option" where
  "rt_calloc cnt sz h k =
     do { not_in_interrupt k;
          res \<leftarrow> malloc_at (In_Calloc (cnt * sz)) (cnt * sz) h k;
          Some (calloc_end (cnt * sz) res) }"

text \<open>\<^verbatim>\<open>rt_free\<close>; the second range check repeats the assertion. \<open>r\<close>: what the caller returns then.\<close>

definition free_enter ::
  "u32 \<Rightarrow> 'r \<Rightarrow> small_heap \<Rightarrow> kernel \<Rightarrow> (small_heap \<times> kernel \<times> 'r heap_outcome) option" where
  "free_enter rmem r h k =
     do { h1 \<leftarrow> free_locked (rmem - SIZEOF_STRUCT_MEM - hp_ptr h) h;
          (h2, k2) \<leftarrow> heap_release h1 k;
          Some (h2, k2, Heap_Done r) }"

definition free_at ::
  "heap_point \<Rightarrow> u32 \<Rightarrow> 'r \<Rightarrow> small_heap \<Rightarrow> kernel \<Rightarrow> (small_heap \<times> kernel \<times> 'r heap_outcome) option" where
  "free_at pt rmem r h k =
     do { not_in_interrupt k;
          (if rmem = 0 then Some (h, k, Heap_Done r)
           else do {
             rt_assert (rmem AND (RT_ALIGN_SIZE - 1) = 0);
             rt_assert (hp_ptr h \<le> rmem \<and> rmem < hp_ptr h + hp_end h);
             heap_take pt h k (free_enter rmem r) }) }"

definition rt_free ::
  "u32 \<Rightarrow> small_heap \<Rightarrow> kernel \<Rightarrow> (small_heap \<times> kernel \<times> u32 option heap_outcome) option" where
  "rt_free rmem h k = free_at (In_Free rmem) rmem None h k"

text \<open>\<^verbatim>\<open>rt_realloc\<close>: the block is cut in place, or moved.\<close>

definition realloc_split :: "u32 \<Rightarrow> u32 \<Rightarrow> u32 \<Rightarrow> small_heap \<Rightarrow> small_heap option" where
  "realloc_split ptr newsize sz h =
     (let h1 = h\<lparr>used_mem := used_mem h - (sz - newsize)\<rparr>;
          ptr2 = ptr + SIZEOF_STRUCT_MEM + newsize;
          h2 = upd_hdr ptr2 (\<lambda>_. \<lparr>hm_magic = HEAP_MAGIC, hm_used = 0, hm_next = hm_next (hp_hdr h1 ptr), hm_prev = ptr\<rparr>) h1;
          h3 = upd_hdr ptr (\<lambda>b. b\<lparr>hm_next := ptr2\<rparr>) h2;
          next2 = hm_next (hp_hdr h3 ptr2);
          h4 = (if next2 \<noteq> mem_size_aligned h3 + SIZEOF_STRUCT_MEM
                then upd_hdr next2 (\<lambda>b. b\<lparr>hm_prev := ptr2\<rparr>) h3 else h3)
      in plug_holes ptr2 h4)"

definition realloc_move ::
  "u32 \<Rightarrow> u32 \<Rightarrow> u32 \<Rightarrow> small_heap \<times> kernel \<times> u32 option heap_outcome \<Rightarrow>
    (small_heap \<times> kernel \<times> u32 option heap_outcome) option" where
  "realloc_move rmem sz newsize res =
     (case res of
        (h, k, Heap_Waits pt) \<Rightarrow> Some (h, k, Heap_Waits pt)
      | (h, k, Heap_Done None) \<Rightarrow> Some (h, k, Heap_Done None)
      | (h, k, Heap_Done (Some nmem)) \<Rightarrow>
          free_at (In_Realloc_Free rmem (Some nmem)) rmem (Some nmem)
            (h\<lparr>hp_bytes := copy_bytes nmem rmem (unat (if sz < newsize then sz else newsize)) (hp_bytes h)\<rparr>) k)"

definition realloc_enter ::
  "u32 \<Rightarrow> u32 \<Rightarrow> small_heap \<Rightarrow> kernel \<Rightarrow> (small_heap \<times> kernel \<times> u32 option heap_outcome) option" where
  "realloc_enter rmem newsize h k =
     (if rmem < hp_ptr h \<or> hp_ptr h + hp_end h \<le> rmem then
        do { (h1, k1) \<leftarrow> heap_release h k; Some (h1, k1, Heap_Done (Some rmem)) }
      else do {
        let ptr = rmem - SIZEOF_STRUCT_MEM - hp_ptr h;
        let sz = hm_next (hp_hdr h ptr) - ptr - SIZEOF_STRUCT_MEM;
        (if sz = newsize then
           do { (h1, k1) \<leftarrow> heap_release h k; Some (h1, k1, Heap_Done (Some rmem)) }
         else if newsize + SIZEOF_STRUCT_MEM + MIN_SIZE < sz then
           do { h1 \<leftarrow> realloc_split ptr newsize sz h;
                (h2, k2) \<leftarrow> heap_release h1 k;
                Some (h2, k2, Heap_Done (Some rmem)) }
         else
           do { (h1, k1) \<leftarrow> heap_release h k;
                res \<leftarrow> malloc_at (In_Realloc_Malloc rmem sz newsize) newsize h1 k1;
                realloc_move rmem sz newsize res }) })"

definition rt_realloc ::
  "u32 \<Rightarrow> u32 \<Rightarrow> small_heap \<Rightarrow> kernel \<Rightarrow> (small_heap \<times> kernel \<times> u32 option heap_outcome) option" where
  "rt_realloc rmem newsize0 h k =
     do { not_in_interrupt k;
          let newsize = RT_ALIGN newsize0 RT_ALIGN_SIZE;
          (if mem_size_aligned h < newsize then Some (h, k, Heap_Done None)
           else if rmem = 0 then rt_malloc newsize h k
           else heap_take (In_Realloc rmem newsize) h k (realloc_enter rmem newsize)) }"

text \<open>What a call does once the thread that waited for the semaphore has it.\<close>

fun heap_resume ::
  "heap_point \<Rightarrow> small_heap \<Rightarrow> kernel \<Rightarrow> (small_heap \<times> kernel \<times> u32 option heap_outcome) option" where
  "heap_resume (In_Malloc sz) h k = malloc_enter sz h k"
| "heap_resume (In_Calloc n sz) h k = do { res \<leftarrow> malloc_enter sz h k; Some (calloc_end n res) }"
| "heap_resume (In_Free rmem) h k = free_enter rmem None h k"
| "heap_resume (In_Realloc rmem newsize) h k = realloc_enter rmem newsize h k"
| "heap_resume (In_Realloc_Malloc rmem sz newsize sz2) h k =
     do { res \<leftarrow> malloc_enter sz2 h k; realloc_move rmem sz newsize res }"
| "heap_resume (In_Realloc_Free rmem nmem) h k = free_enter rmem nmem h k"

text \<open>The three totals \<^verbatim>\<open>rt_memory_info\<close> reports.\<close>

definition rt_memory_info :: "small_heap \<Rightarrow> u32 \<times> u32 \<times> u32" where
  "rt_memory_info h = (mem_size_aligned h, used_mem h, max_mem h)"

end
