(* ===== verification/RT_Heap.thy ===== *)
theory RT_Heap
  imports RT_Mem
begin

text \<open>
  What the heap of RT_Mem promises: its headers chain the blocks of a list from the first to the end
  marker (\<open>heap_rep\<close>), and the parts of \<^verbatim>\<open>rt_malloc\<close>, \<^verbatim>\<open>rt_free\<close> and \<^verbatim>\<open>rt_realloc\<close> under the
  semaphore are operations on that list.
\<close>

section \<open>Hints\<close>

lemmas heap_consts = SIZEOF_STRUCT_MEM_def MIN_SIZE_ALIGNED_def MIN_SIZE_def RT_ALIGN_SIZE_def RT_ALIGN_def

lemma heap_const_simps [simp]:
  "SIZEOF_STRUCT_MEM = 12" "MIN_SIZE_ALIGNED = 12" "MIN_SIZE = 12" "RT_ALIGN_SIZE = 4"
  by (simp_all add: heap_consts)

lemma upd_hdr_simps [simp]:
  "hp_hdr (upd_hdr p f h) = (hp_hdr h)(p := f (hp_hdr h p))"
  "hp_ptr (upd_hdr p f h) = hp_ptr h" "hp_bytes (upd_hdr p f h) = hp_bytes h"
  "hp_end (upd_hdr p f h) = hp_end h" "hp_lfree (upd_hdr p f h) = hp_lfree h"
  "mem_size_aligned (upd_hdr p f h) = mem_size_aligned h" "used_mem (upd_hdr p f h) = used_mem h"
  "max_mem (upd_hdr p f h) = max_mem h" "heap_sem (upd_hdr p f h) = heap_sem h"
  by (simp_all add: upd_hdr_def)

lemma count_used_simps [simp]:
  "hp_hdr (count_used n h) = hp_hdr h" "hp_ptr (count_used n h) = hp_ptr h" "hp_bytes (count_used n h) = hp_bytes h"
  "hp_end (count_used n h) = hp_end h" "hp_lfree (count_used n h) = hp_lfree h"
  "mem_size_aligned (count_used n h) = mem_size_aligned h" "heap_sem (count_used n h) = heap_sem h"
  "used_mem (count_used n h) = used_mem h + n"
  by (simp_all add: count_used_def Let_def)

text \<open>Offsets as numbers: a sum stays one number.\<close>

declare of_nat_add [simp del]

lemma unat_off [simp]: "n < 4294967296 \<Longrightarrow> unat (of_nat n :: u32) = n"
  by (simp add: unsigned_of_nat take_bit_nat_eq_self)

lemma off_less: "a < 4294967296 \<Longrightarrow> b < 4294967296 \<Longrightarrow> (of_nat a :: u32) < of_nat b \<longleftrightarrow> a < b"
  by (simp add: word_less_nat_alt)

lemma off_le: "a < 4294967296 \<Longrightarrow> b < 4294967296 \<Longrightarrow> (of_nat a :: u32) \<le> of_nat b \<longleftrightarrow> a \<le> b"
  by (simp add: word_le_nat_alt)

lemma off_eq: "a < 4294967296 \<Longrightarrow> b < 4294967296 \<Longrightarrow> (of_nat a :: u32) = of_nat b \<longleftrightarrow> a = b"
  by (metis unat_off)

lemma off_diff: "b \<le> a \<Longrightarrow> (of_nat a :: u32) - of_nat b = of_nat (a - b)"
  by simp

lemma off_sub: "s \<le> unat m \<Longrightarrow> (m :: u32) - of_nat s = of_nat (unat m - s)"
  by (simp add: of_nat_diff)

section \<open>A heap is a sequence of blocks\<close>

text \<open>
  A block by its length in bytes, header included, and whether it is in use. \<open>blocks f p x bs\<close>: from
  offset \<open>x\<close> on, with \<open>p\<close> the offset of the block before, the headers in \<open>f\<close> chain the blocks \<open>bs\<close>.
\<close>

type_synonym block = "nat \<times> bool"

definition total :: "block list \<Rightarrow> nat" where
  "total bs = sum_list (map fst bs)"

lemma total_simps [simp]: "total [] = 0" "total (b # bs) = fst b + total bs" "total (us @ vs) = total us + total vs"
  by (simp_all add: total_def)

definition header_ok :: "heap_mem \<Rightarrow> nat \<Rightarrow> nat \<Rightarrow> block \<Rightarrow> bool" where
  "header_ok m p x b \<longleftrightarrow> hm_next m = of_nat (x + fst b) \<and> hm_prev m = of_nat p \<and>
     (hm_used m \<noteq> 0 \<longleftrightarrow> snd b) \<and> (snd b \<longrightarrow> hm_magic m = HEAP_MAGIC) \<and> 12 \<le> fst b \<and> 4 dvd fst b"

fun blocks :: "(u32 \<Rightarrow> heap_mem) \<Rightarrow> nat \<Rightarrow> nat \<Rightarrow> block list \<Rightarrow> bool" where
  "blocks f p x [] \<longleftrightarrow> True"
| "blocks f p x (b # bs) \<longleftrightarrow> header_ok (f (of_nat x)) p x b \<and> blocks f x (x + fst b) bs"

text \<open>The offset of the last block, the one before \<open>x\<close> if there is none.\<close>

fun last_at :: "nat \<Rightarrow> nat \<Rightarrow> block list \<Rightarrow> nat" where
  "last_at p x [] = p"
| "last_at p x (b # bs) = last_at x (x + fst b) bs"

text \<open>The offsets where blocks begin, and where the last one ends.\<close>

fun starts :: "nat \<Rightarrow> block list \<Rightarrow> nat set" where
  "starts x [] = {x}"
| "starts x (b # bs) = insert x (starts (x + fst b) bs)"

lemma blocks_append [simp]:
  "blocks f p x (us @ vs) \<longleftrightarrow> blocks f p x us \<and> blocks f (last_at p x us) (x + total us) vs"
  by (induction us arbitrary: p x) (auto simp: add.assoc)

lemma last_at_append [simp]: "last_at p x (us @ vs) = last_at (last_at p x us) (x + total us) vs"
  by (induction us arbitrary: p x) (auto simp: add.assoc)

lemma last_at_le: "p \<le> x \<Longrightarrow> last_at p x us \<le> x + total us"
proof (induction us arbitrary: p x)
  case (Cons b us)
  show ?case using Cons(1) [of x "x + fst b"] by simp
qed simp

lemma starts_refl [simp]: "x \<in> starts x bs"
  by (cases bs) auto

lemma starts_append [simp]: "starts x (us @ vs) = starts x us \<union> starts (x + total us) vs"
  by (induction us arbitrary: x) (auto simp: add.assoc)

lemma starts_end [simp]: "x + total bs \<in> starts x bs"
  by (induction bs arbitrary: x) (auto simp: add.assoc [symmetric])

lemma starts_bounds: "y \<in> starts x bs \<Longrightarrow> x \<le> y \<and> y \<le> x + total bs"
  by (induction bs arbitrary: x) (auto, (fastforce)+)

lemma starts_split: "y \<in> starts x bs \<Longrightarrow> \<exists>us vs. bs = us @ vs \<and> y = x + total us"
proof (induction bs arbitrary: x)
  case (Cons b bs)
  show ?case
  proof (cases "y = x")
    case True
    then show ?thesis by (intro exI [of _ "[]"] exI [of _ "b # bs"]) auto
  next
    case False
    then obtain us vs where "bs = us @ vs" "y = x + fst b + total us" using Cons.IH [of "x + fst b"] Cons.prems by auto
    then have "b # bs = (b # us) @ vs \<and> y = x + total (b # us)" by simp
    then show ?thesis by blast
  qed
qed auto

text \<open>Only the headers of the region matter.\<close>

lemma blocks_upd_other:
  assumes "y < 4294967296" and "x + total bs \<le> 4294967296" and "y < x \<or> x + total bs \<le> y"
  shows "blocks (f(of_nat y := m)) p x bs \<longleftrightarrow> blocks f p x bs"
  using assms
proof (induction bs arbitrary: p x)
  case (Cons b bs)
  show ?case
  proof (cases "12 \<le> fst b")
    case True
    then have "(of_nat x :: u32) \<noteq> of_nat y" using Cons.prems by (subst off_eq) auto
    moreover have "blocks (f(of_nat y := m)) x (x + fst b) bs = blocks f x (x + fst b) bs"
      by (rule Cons.IH) (use Cons.prems in auto)
    ultimately show ?thesis by (simp add: fun_upd_other del: fun_upd_apply)
  qed (simp add: header_ok_def)
qed simp

text \<open>A block that now follows another one.\<close>

lemma blocks_upd_prev:
  assumes "blocks f p z bs" and "z + total bs \<le> 4294967296"
  shows "blocks (f(of_nat z := (f (of_nat z))\<lparr>hm_prev := of_nat p'\<rparr>)) p' z bs"
proof (cases bs)
  case (Cons b cs)
  then have "12 \<le> fst b" using assms(1) by (simp add: header_ok_def)
  then have "blocks (f(of_nat z := m)) z (z + fst b) cs = blocks f z (z + fst b) cs" for m
    using assms(2) Cons by (intro blocks_upd_other) auto
  then show ?thesis using assms Cons by (simp add: header_ok_def)
qed simp

text \<open>No two free blocks in a row.\<close>

fun coalesced :: "block list \<Rightarrow> bool" where
  "coalesced (b # c # bs) \<longleftrightarrow> (snd b \<or> snd c) \<and> coalesced (c # bs)"
| "coalesced bs \<longleftrightarrow> True"

definition in_use :: "block list \<Rightarrow> nat" where
  "in_use bs = sum_list (map fst (filter snd bs))"

lemma in_use_simps [simp]:
  "in_use [] = 0" "in_use ((n, u) # bs) = (if u then n else 0) + in_use bs" "in_use (us @ vs) = in_use us + in_use vs"
  by (simp_all add: in_use_def)

text \<open>The heap with the blocks \<open>bs\<close> and \<^verbatim>\<open>lfree\<close> at \<open>l\<close>.\<close>

definition heap_rep :: "small_heap \<Rightarrow> block list \<Rightarrow> nat \<Rightarrow> bool" where
  "heap_rep h bs l \<longleftrightarrow> blocks (hp_hdr h) 0 0 bs \<and> total bs = unat (mem_size_aligned h) + 12 \<and>
     hp_end h = of_nat (total bs) \<and> hm_used (hp_hdr h (hp_end h)) \<noteq> 0 \<and>
     hp_lfree h = of_nat l \<and> l \<in> starts 0 bs \<and> unat (hp_ptr h) + total bs + 12 < 2 ^ 32 \<and>
     4 dvd unat (hp_ptr h) \<and> used_mem h = of_nat (in_use bs)"

text \<open>What no operation changes but the headers, \<^verbatim>\<open>lfree\<close> and the statistics.\<close>

definition same_heap :: "small_heap \<Rightarrow> small_heap \<Rightarrow> bool" where
  "same_heap h h' \<longleftrightarrow> hp_ptr h' = hp_ptr h \<and> hp_bytes h' = hp_bytes h \<and> hp_end h' = hp_end h \<and>
     mem_size_aligned h' = mem_size_aligned h \<and> heap_sem h' = heap_sem h"

lemma same_heap_refl [simp]: "same_heap h h"
  by (simp add: same_heap_def)

lemma same_heap_trans: "same_heap h h1 \<Longrightarrow> same_heap h1 h2 \<Longrightarrow> same_heap h h2"
  by (simp add: same_heap_def)

lemma heap_rep_at:
  assumes "heap_rep h (us @ (n, u) # vs) l"
  shows "header_ok (hp_hdr h (of_nat (total us))) (last_at 0 0 us) (total us) (n, u)"
    and "12 \<le> n" and "4 dvd n" and "total us + n + total vs + 12 < 4294967296" and "4 dvd total us"
proof -
  have b: "blocks (hp_hdr h) 0 0 us" "header_ok (hp_hdr h (of_nat (total us))) (last_at 0 0 us) (total us) (n, u)"
    using assms by (auto simp: heap_rep_def)
  show "header_ok (hp_hdr h (of_nat (total us))) (last_at 0 0 us) (total us) (n, u)" by (rule b)
  show "12 \<le> n" "4 dvd n" using b by (simp_all add: header_ok_def)
  show "total us + n + total vs + 12 < 4294967296" using assms by (auto simp: heap_rep_def)
  have "blocks f p x us \<Longrightarrow> 4 dvd total us" for f p x
    by (induction us arbitrary: p x) (auto simp: header_ok_def)
  then show "4 dvd total us" using b(1) by blast
qed

section \<open>Joining free blocks\<close>

text \<open>Both halves of \<^const>\<open>plug_holes\<close>: the free block at \<open>q\<close> becomes part of the one at \<open>p\<close> before it.\<close>

definition join :: "u32 \<Rightarrow> u32 \<Rightarrow> small_heap \<Rightarrow> small_heap" where
  "join p q h =
     (let h' = (if hp_lfree h = q then h\<lparr>hp_lfree := p\<rparr> else h);
          h'' = upd_hdr p (\<lambda>b. b\<lparr>hm_next := hm_next (hp_hdr h' q)\<rparr>) h'
      in upd_hdr (hm_next (hp_hdr h'' q)) (\<lambda>b. b\<lparr>hm_prev := p\<rparr>) h'')"

lemma join_rep:
  assumes r: "heap_rep h (us @ (n, False) # (m, False) # vs) l"
  defines "h' \<equiv> join (of_nat (total us)) (of_nat (total us + n)) h"
  shows "heap_rep h' (us @ (n + m, False) # vs) (if l = total us + n then total us else l)" and "same_heap h h'"
proof -
  let ?x = "total us"
  note a = heap_rep_at [OF r]
  have "heap_rep h ((us @ [(n, False)]) @ (m, False) # vs) l" using r by simp
  note b = heap_rep_at [OF this]
  have bl: "blocks (hp_hdr h) 0 0 us" "blocks (hp_hdr h) (?x + n) (?x + n + m) vs"
    using r by (auto simp: heap_rep_def)
  have q: "hm_next (hp_hdr h (of_nat (?x + n))) = of_nat (?x + n + m)" using b(1) by (simp add: header_ok_def)
  have ne: "(of_nat (?x + n) :: u32) \<noteq> of_nat ?x" "(of_nat (?x + n + m) :: u32) \<noteq> of_nat ?x"
    using a b by (subst off_eq; simp)+
  have hdr: "hp_hdr h' = (hp_hdr h)(of_nat ?x := (hp_hdr h (of_nat ?x))\<lparr>hm_next := of_nat (?x + n + m)\<rparr>,
      of_nat (?x + n + m) := (hp_hdr h (of_nat (?x + n + m)))\<lparr>hm_prev := of_nat ?x\<rparr>)"
    using ne q by (simp add: h'_def join_def Let_def fun_upd_other del: fun_upd_apply)
  show sm: "same_heap h h'" by (simp add: same_heap_def h'_def join_def Let_def)
  have used: "used_mem h' = used_mem h" by (simp add: h'_def join_def Let_def)
  let ?F = "(hp_hdr h)(of_nat ?x := (hp_hdr h (of_nat ?x))\<lparr>hm_next := of_nat (?x + n + m)\<rparr>)"
  have us': "blocks (hp_hdr h') 0 0 us"
    unfolding hdr using a b bl(1) by (simp add: blocks_upd_other del: fun_upd_apply)
  have vs': "blocks (hp_hdr h') ?x (?x + (n + m)) vs"
  proof -
    have "blocks ?F (?x + n) (?x + n + m) vs"
      using a b bl(2) by (simp add: blocks_upd_other del: fun_upd_apply)
    from blocks_upd_prev [OF this, of ?x] show ?thesis
      using b ne unfolding hdr by (simp add: fun_upd_other add.assoc del: fun_upd_apply)
  qed
  have hd': "header_ok (hp_hdr h' (of_nat ?x)) (last_at 0 0 us) ?x (n + m, False)"
    using a(1,2,3) b(2,3) ne unfolding hdr by (simp add: header_ok_def add.assoc)
  have lf: "hp_lfree h' = of_nat (if l = ?x + n then ?x else l)" "l \<in> starts 0 (us @ (n, False) # (m, False) # vs)"
  proof -
    show l: "l \<in> starts 0 (us @ (n, False) # (m, False) # vs)" using r by (simp add: heap_rep_def)
    then have "l < 4294967296" using starts_bounds [OF l] a(4) b(4) by simp
    then show "hp_lfree h' = of_nat (if l = ?x + n then ?x else l)"
      using r a(4) b(4) off_eq [of l "?x + n"] by (simp add: h'_def join_def Let_def heap_rep_def)
  qed
  have "hm_used (hp_hdr h' (hp_end h)) \<noteq> 0"
    using r ne a b unfolding hdr by (auto simp: heap_rep_def off_eq add.assoc)
  then show "heap_rep h' (us @ (n + m, False) # vs) (if l = total us + n then total us else l)"
    unfolding heap_rep_def using r us' vs' hd' lf used sm by (simp add: heap_rep_def same_heap_def add.assoc) (auto split: if_splits)
qed

lemma plug_holes_join:
  "plug_holes mem h =
     do { rt_assert (hp_ptr h \<le> hp_ptr h + mem);
          rt_assert (hp_ptr h + mem < hp_ptr h + hp_end h);
          rt_assert (hm_used (hp_hdr h mem) = 0);
          let nmem = hm_next (hp_hdr h mem);
          let h1 = (if mem \<noteq> nmem \<and> hm_used (hp_hdr h nmem) = 0 \<and> nmem \<noteq> hp_end h then join mem nmem h else h);
          let pmem = hm_prev (hp_hdr h1 mem);
          Some (if pmem \<noteq> mem \<and> hm_used (hp_hdr h1 pmem) = 0 then join pmem mem h1 else h1) }"
  unfolding plug_holes_def join_def by (rule refl)

text \<open>The list after joining the block \<open>(n, False)\<close> with the free ones around it.\<close>

fun join_next :: "nat \<Rightarrow> block list \<Rightarrow> block list" where
  "join_next n ((m, False) # vs) = (n + m, False) # vs"
| "join_next n vs = (n, False) # vs"

fun join_prev :: "block list \<Rightarrow> block list \<Rightarrow> block list" where
  "join_prev [] vs = vs"
| "join_prev [(m, False)] ((n, False) # vs) = (m + n, False) # vs"
| "join_prev [u] vs = u # vs"
| "join_prev (u # us) vs = u # join_prev us vs"

lemma join_prev_snoc_free [simp]: "join_prev (us @ [(m, False)]) ((n, False) # vs) = us @ (m + n, False) # vs"
proof (induction us)
  case (Cons u us)
  then show ?case by (cases "us @ [(m, False)]") auto
qed simp

lemma join_prev_snoc_used [simp]: "join_prev (us @ [(m, True)]) vs = us @ (m, True) # vs"
proof (induction us)
  case (Cons u us)
  then show ?case by (cases "us @ [(m, True)]") auto
qed simp

lemma join_next_Cons: "\<exists>n' vs'. join_next n vs = (n', False) # vs'"
  by (cases "(n, vs)" rule: join_next.cases) auto

lemma off_end_cases:
  assumes "heap_rep h (us @ (n, u) # vs) l"
  shows "(of_nat (total us + n) :: u32) = hp_end h \<longleftrightarrow> vs = []"
proof -
  note a = heap_rep_at [OF assms]
  have "vs = [] \<or> 12 \<le> total vs" using assms by (cases vs) (auto simp: heap_rep_def header_ok_def)
  moreover have "hp_end h = of_nat (total us + n + total vs)" using assms by (simp add: heap_rep_def add.assoc)
  ultimately show ?thesis using a(4) by (auto simp: off_eq)
qed

lemma plug_next_rep:
  assumes r: "heap_rep h (us @ (n, False) # vs) l"
  defines "mem \<equiv> of_nat (total us)"
  defines "h1 \<equiv> (let nmem = hm_next (hp_hdr h mem) in
    if mem \<noteq> nmem \<and> hm_used (hp_hdr h nmem) = 0 \<and> nmem \<noteq> hp_end h then join mem nmem h else h)"
  shows "\<exists>l'. heap_rep h1 (us @ join_next n vs) l' \<and> l' \<le> l" and "same_heap h h1"
proof -
  note a = heap_rep_at [OF r]
  have nx: "hm_next (hp_hdr h mem) = of_nat (total us + n)" using a(1) by (simp add: header_ok_def mem_def)
  have ne: "mem \<noteq> of_nat (total us + n)" using a unfolding mem_def by (subst off_eq) auto
  have "(\<exists>l'. heap_rep h1 (us @ join_next n vs) l' \<and> l' \<le> l) \<and> same_heap h h1"
  proof (cases vs)
    case Nil
    then show ?thesis using r nx off_end_cases [OF r] by (auto simp: h1_def)
  next
    case (Cons b ws)
    obtain m u where b: "b = (m, u)" by (cases b)
    have e: "of_nat (total us + n) \<noteq> hp_end h" using off_end_cases [OF r] Cons by simp
    have "heap_rep h ((us @ [(n, False)]) @ (m, u) # ws) l" using r Cons b by simp
    from heap_rep_at(1) [OF this] have used: "hm_used (hp_hdr h (of_nat (total us + n))) \<noteq> 0 \<longleftrightarrow> u"
      by (simp add: header_ok_def)
    show ?thesis
    proof (cases u)
      case True
      then show ?thesis using used r nx Cons b by (auto simp: h1_def)
    next
      case False
      then have r': "heap_rep h (us @ (n, False) # (m, False) # ws) l" using r Cons b by simp
      have "h1 = join mem (of_nat (total us + n)) h" using used False nx ne e by (simp add: h1_def)
      then show ?thesis using join_rep [OF r'] Cons b False by (auto simp: mem_def)
    qed
  qed
  then show "\<exists>l'. heap_rep h1 (us @ join_next n vs) l' \<and> l' \<le> l" "same_heap h h1" by blast+
qed

lemma plug_prev_rep:
  assumes r: "heap_rep h (us @ (n, False) # vs) l"
  defines "mem \<equiv> of_nat (total us)"
  defines "h1 \<equiv> (let pmem = hm_prev (hp_hdr h mem) in
    if pmem \<noteq> mem \<and> hm_used (hp_hdr h pmem) = 0 then join pmem mem h else h)"
  shows "\<exists>l'. heap_rep h1 (join_prev us ((n, False) # vs)) l' \<and> l' \<le> l" and "same_heap h h1"
proof -
  note a = heap_rep_at [OF r]
  have pv: "hm_prev (hp_hdr h mem) = of_nat (last_at 0 0 us)" using a(1) by (simp add: header_ok_def mem_def)
  have "(\<exists>l'. heap_rep h1 (join_prev us ((n, False) # vs)) l' \<and> l' \<le> l) \<and> same_heap h h1"
  proof (cases us rule: rev_cases)
    case Nil
    then show ?thesis using r pv by (auto simp: h1_def mem_def)
  next
    case (snoc us' b)
    obtain m u where b: "b = (m, u)" by (cases b)
    have r': "heap_rep h (us' @ (m, u) # (n, False) # vs) l" using r snoc b by simp
    note c = heap_rep_at [OF r']
    have ne: "(of_nat (total us') :: u32) \<noteq> mem" using a c snoc b unfolding mem_def by (subst off_eq) auto
    have used: "hm_used (hp_hdr h (of_nat (total us'))) \<noteq> 0 \<longleftrightarrow> u" using c(1) by (simp add: header_ok_def)
    show ?thesis
    proof (cases u)
      case True
      then show ?thesis using used r' pv snoc b by (auto simp: h1_def)
    next
      case False
      then have r'': "heap_rep h (us' @ (m, False) # (n, False) # vs) l" using r' by simp
      have "h1 = join (of_nat (total us')) mem h" using used False pv ne snoc b by (simp add: h1_def)
      then show ?thesis using join_rep [OF r''] snoc b False by (auto simp: mem_def)
    qed
  qed
  then show "\<exists>l'. heap_rep h1 (join_prev us ((n, False) # vs)) l' \<and> l' \<le> l" "same_heap h h1" by blast+
qed

lemma plug_holes_rep:
  assumes r: "heap_rep h (us @ (n, False) # vs) l"
  shows "returns (plug_holes (of_nat (total us)) h) (\<lambda>h'.
    same_heap h h' \<and> (\<exists>l'. heap_rep h' (join_prev us (join_next n vs)) l' \<and> l' \<le> l))"
proof -
  let ?mem = "of_nat (total us) :: u32"
  let ?h1 = "let nmem = hm_next (hp_hdr h ?mem) in
    if ?mem \<noteq> nmem \<and> hm_used (hp_hdr h nmem) = 0 \<and> nmem \<noteq> hp_end h then join ?mem nmem h else h"
  note a = heap_rep_at [OF r]
  have pb: "unat (hp_ptr h) + (total us + (n + total vs)) + 12 < 4294967296" and e: "hp_end h = of_nat (total us + (n + total vs))"
    using r by (simp_all add: heap_rep_def)
  have plus: "unat (hp_ptr h + of_nat k) = unat (hp_ptr h) + k" if "k \<le> total us + (n + total vs)" for k
    using that pb by (simp add: unat_word_ariths)
  have asserts: "hp_ptr h \<le> hp_ptr h + ?mem" "hp_ptr h + ?mem < hp_ptr h + hp_end h" "hm_used (hp_hdr h ?mem) = 0"
    using plus [of "total us"] plus [of "total us + (n + total vs)"] a e
    by (simp_all add: word_le_nat_alt word_less_nat_alt header_ok_def)
  obtain l1 where l1: "heap_rep ?h1 (us @ join_next n vs) l1" "l1 \<le> l" "same_heap h ?h1"
    using plug_next_rep [OF r] by blast
  obtain n' vs' where j: "join_next n vs = (n', False) # vs'" using join_next_Cons by blast
  from plug_prev_rep [of ?h1 us n' vs' l1] l1 j show ?thesis
    unfolding plug_holes_join using asserts by (auto simp: Let_def elim: same_heap_trans intro: order.trans)
qed

section \<open>Marking and splitting a block\<close>

lemma mark_rep:
  assumes r: "heap_rep h (us @ (n, u) # vs) l" and m: "header_ok m (last_at 0 0 us) (total us) (n, u')"
    and hdr: "hp_hdr h' = (hp_hdr h)(of_nat (total us) := m)" and sm: "same_heap h h'"
    and lf: "hp_lfree h' = of_nat l'" "l' \<in> starts 0 (us @ (n, u) # vs)"
    and used: "used_mem h' = of_nat (in_use (us @ (n, u') # vs))"
  shows "heap_rep h' (us @ (n, u') # vs) l'"
proof -
  note a = heap_rep_at [OF r]
  have "blocks (hp_hdr h') 0 0 us" "blocks (hp_hdr h') (total us) (total us + n) vs"
    using r a unfolding hdr by (simp_all add: heap_rep_def blocks_upd_other del: fun_upd_apply)
  moreover have "hp_end h = of_nat (total us + (n + total vs))" using r by (simp add: heap_rep_def)
  then have "hp_end h \<noteq> of_nat (total us)" using a by (simp add: off_eq)
  ultimately show ?thesis
    unfolding heap_rep_def using r m lf used sm hdr by (auto simp: heap_rep_def same_heap_def)
qed

lemma split_rep:
  assumes r: "heap_rep h (us @ (n, u) # vs) l" and c: "12 \<le> c" "c + 12 \<le> n"
    and m1: "header_ok m1 (last_at 0 0 us) (total us) (c, u')"
    and m2: "header_ok m2 (total us) (total us + c) (n - c, u'')"
    and hdr: "g = (hp_hdr h)(of_nat (total us + c) := m2, of_nat (total us) := m1)"
      "hp_hdr h' = (if vs = [] then g
         else g(of_nat (total us + n) := (g (of_nat (total us + n)))\<lparr>hm_prev := of_nat (total us + c)\<rparr>))"
    and sm: "same_heap h h'"
    and lf: "hp_lfree h' = of_nat l'" "l' \<in> starts 0 (us @ (c, u') # (n - c, u'') # vs)"
    and used: "used_mem h' = of_nat (in_use (us @ (c, u') # (n - c, u'') # vs))"
  shows "heap_rep h' (us @ (c, u') # (n - c, u'') # vs) l'"
proof -
  let ?x = "total us"
  note a = heap_rep_at [OF r]
  have bl: "blocks (hp_hdr h) 0 0 us" "blocks (hp_hdr h) ?x (?x + n) vs" using r by (auto simp: heap_rep_def)
  have g: "g (of_nat ?x) = m1" "g (of_nat (?x + c)) = m2" using a c by (auto simp: hdr(1) off_eq)
  have bg: "blocks g 0 0 us" "blocks g ?x (?x + n) vs"
    unfolding hdr(1) using a bl c by (simp_all add: blocks_upd_other del: fun_upd_apply)
  have hdr2: "hp_hdr h' = g \<or> hp_hdr h' = g(of_nat (?x + n) := (g (of_nat (?x + n)))\<lparr>hm_prev := of_nat (?x + c)\<rparr>)"
    using hdr(2) by simp
  have us': "blocks (hp_hdr h') 0 0 us"
    using hdr2 bg(1) a by (auto simp add: blocks_upd_other simp del: fun_upd_apply)
  have h': "hp_hdr h' (of_nat ?x) = m1" "hp_hdr h' (of_nat (?x + c)) = m2" using hdr2 g a c by (auto simp: off_eq)
  have vs': "blocks (hp_hdr h') (?x + c) (?x + n) vs"
    using blocks_upd_prev [OF bg(2), of "?x + c"] a(4) by (simp add: hdr(2))
  have e: "hp_end h = of_nat (?x + (n + total vs))" using r by (simp add: heap_rep_def)
  then have "g (hp_end h) = hp_hdr h (hp_end h)" using a c by (simp add: hdr(1) off_eq)
  moreover have "hm_used (hp_hdr h (hp_end h)) \<noteq> 0" using r unfolding heap_rep_def by blast
  moreover have "hm_used (hp_hdr h' y) = hm_used (g y)" for y using hdr2 by auto
  ultimately have "hm_used (hp_hdr h' (hp_end h)) \<noteq> 0" by simp
  then show ?thesis
    unfolding heap_rep_def using r m1 m2 lf used sm us' vs' h' c
    by (simp add: heap_rep_def same_heap_def add.assoc)
qed

section \<open>Allocation\<close>

text \<open>
  The block that \<^verbatim>\<open>rt_malloc\<close> takes is the first free one from \<^verbatim>\<open>lfree\<close> on that is long enough; but a
  last block that fits exactly is not found. It is cut when a block with 12 bytes of data is left over.
\<close>

fun first_fit :: "nat \<Rightarrow> block list \<Rightarrow> nat option" where
  "first_fit s [] = None"
| "first_fit s ((n, u) # vs) =
     (if \<not> u \<and> s + 12 \<le> n \<and> \<not> (vs = [] \<and> n = s + 12) then Some 0 else map_option Suc (first_fit s vs))"

definition place :: "nat \<Rightarrow> nat \<Rightarrow> block list" where
  "place s n = (if s + 36 \<le> n then [(s + 12, True), (n - (s + 12), False)] else [(n, True)])"

lemma total_place [simp]: "total (place s n) = n"
  by (simp add: place_def)

lemma first_fit_Some:
  "first_fit s vs = Some i \<Longrightarrow>
    \<exists>n. i < length vs \<and> vs ! i = (n, False) \<and> s + 12 \<le> n \<and> (drop (Suc i) vs = [] \<longrightarrow> n \<noteq> s + 12)"
  by (induction s vs arbitrary: i rule: first_fit.induct) (auto split: if_splits)

lemma first_fit_None:
  "first_fit s vs = None \<longleftrightarrow>
     (\<forall>us n ws. vs = us @ (n, False) # ws \<longrightarrow> n < s + 12 \<or> ws = [] \<and> n = s + 12)"
proof (induction s vs rule: first_fit.induct)
  case (2 s n u vs)
  show ?case (is "?l \<longleftrightarrow> ?r")
  proof
    assume ?l
    then have h: "u \<or> n < s + 12 \<or> vs = [] \<and> n = s + 12" "first_fit s vs = None" by (auto split: if_splits)
    show ?r
    proof (intro allI impI)
      fix us m ws
      assume e: "(n, u) # vs = us @ (m, False) # ws"
      show "m < s + 12 \<or> ws = [] \<and> m = s + 12"
      proof (cases us)
        case Nil
        then show ?thesis using e h by auto
      next
        case (Cons a us')
        then have v: "vs = us' @ (m, False) # ws" using e by simp
        have "first_fit s vs = None \<longleftrightarrow> (\<forall>us n ws. vs = us @ (n, False) # ws \<longrightarrow> n < s + 12 \<or> ws = [] \<and> n = s + 12)"
        proof (cases "\<not> u \<and> s + 12 \<le> n \<and> \<not> (vs = [] \<and> n = s + 12)")
          case True
          then show ?thesis using h by auto
        qed (rule 2)
        then show ?thesis using h(2) v by blast
      qed
    qed
  next
    assume r: ?r
    have c: "\<not> (\<not> u \<and> s + 12 \<le> n \<and> \<not> (vs = [] \<and> n = s + 12))"
      using r [rule_format, of "[]" n vs] by auto
    have "first_fit s vs = None"
      unfolding 2 [OF c] using r by (metis append_Cons)
    then show ?l using c by auto
  qed
qed simp

lemma malloc_find_rep:
  assumes "blocks (hp_hdr h) p x vs" and "x + total vs = unat (mem_size_aligned h) + 12"
    and "x + total vs < 4294967296" and "s \<le> unat (mem_size_aligned h)"
  shows "malloc_find (of_nat s) (of_nat x) h =
    Some (map_option (\<lambda>i. of_nat (x + total (take i vs))) (first_fit s vs))"
  using assms
proof (induction vs arbitrary: p x)
  case Nil
  then have lim: "mem_size_aligned h - of_nat s = of_nat (x - 12 - s)" using off_sub [of s "mem_size_aligned h"] by simp
  have "\<not> (of_nat x :: u32) < of_nat (x - 12 - s)" using Nil by (subst off_less) auto
  then have "\<not> of_nat x < mem_size_aligned h - of_nat s" by (simp add: lim)
  then show ?case by (subst malloc_find.simps) simp
next
  case (Cons b vs)
  obtain n u where b: "b = (n, u)" by (cases b)
  have hd: "header_ok (hp_hdr h (of_nat x)) p x (n, u)" "12 \<le> n" and tl: "blocks (hp_hdr h) x (x + n) vs"
    using Cons.prems(1) b by (auto simp: header_ok_def)
  have m: "unat (mem_size_aligned h) = x + n + total vs - 12" using Cons.prems(2) b by simp
  have lim: "mem_size_aligned h - of_nat s = of_nat (x + n + total vs - 12 - s)"
    using off_sub [OF Cons.prems(4)] m by simp
  have cond: "(of_nat x < mem_size_aligned h - of_nat s) = (s + 12 < n + total vs)"
    unfolding lim using Cons.prems(3) b hd(2) by (subst off_less) auto
  have room: "(of_nat (x + n) :: u32) - (of_nat x + 12) = of_nat (n - 12)"
    using hd(2) by (simp add: of_nat_add of_nat_diff)
  have fit: "of_nat s \<le> (of_nat (n - 12) :: u32) \<longleftrightarrow> s + 12 \<le> n"
    using Cons.prems(3,4) m b hd(2) by (subst off_le) auto
  have vs: "vs = [] \<or> 12 \<le> total vs" using tl by (cases vs) (auto simp: header_ok_def)
  have ih: "malloc_find (of_nat s) (of_nat (x + n)) h =
      Some (map_option (\<lambda>i. of_nat (x + n + total (take i vs))) (first_fit s vs))"
    by (rule Cons.IH [OF tl]) (use Cons.prems b in auto)
  have none: "first_fit s ((n, u) # vs) = None" if "\<not> s + 12 < n + total vs"
  proof (subst first_fit_None, intro allI impI)
    fix us m ws
    assume e: "(n, u) # vs = us @ (m, False) # ws"
    then have "blocks (hp_hdr h) p x (us @ (m, False) # ws)" using Cons.prems(1) b by simp
    then have "ws = [] \<or> 12 \<le> total ws" by (cases ws) (auto simp: header_ok_def)
    moreover have "n + total vs = total us + m + total ws" using arg_cong [OF e, of total] by simp
    ultimately show "m < s + 12 \<or> ws = [] \<and> m = s + 12" using that by auto
  qed
  have used: "hm_used (hp_hdr h (of_nat x)) = 0 \<longleftrightarrow> \<not> u" and nx: "hm_next (hp_hdr h (of_nat x)) = of_nat (x + n)"
    using hd by (auto simp: header_ok_def)
  show ?case
  proof (cases "s + 12 < n + total vs")
    case True
    then show ?thesis
      by (subst malloc_find.simps)
        (use vs in \<open>auto simp: b cond room fit used nx ih option.map_comp comp_def add.assoc split: if_splits intro: option.map_cong\<close>)
  next
    case False
    then show ?thesis by (subst malloc_find.simps) (use none [OF False] in \<open>simp add: b cond\<close>)
  qed
qed

lemma heap_rep_words:
  assumes "heap_rep h bs l"
  shows "mem_size_aligned h + 12 = hp_end h" and "hp_end h = of_nat (total bs)" and "hp_lfree h = of_nat l" and "l \<in> starts 0 bs"
    and "used_mem h = of_nat (in_use bs)" and "l \<le> total bs" and "unat (hp_ptr h) + total bs + 12 < 4294967296"
    and "4 dvd unat (hp_ptr h)" and "total bs = unat (mem_size_aligned h) + 12"
proof -
  show e: "hp_end h = of_nat (total bs)" "hp_lfree h = of_nat l" "l \<in> starts 0 bs" "used_mem h = of_nat (in_use bs)"
    "unat (hp_ptr h) + total bs + 12 < 4294967296" "4 dvd unat (hp_ptr h)" and t: "total bs = unat (mem_size_aligned h) + 12"
    using assms by (simp_all add: heap_rep_def)
  show "mem_size_aligned h + 12 = hp_end h" unfolding e t by (simp add: of_nat_add)
  show "l \<le> total bs" using starts_bounds [OF e(3)] by simp
qed

lemma malloc_place_rep:
  assumes r: "heap_rep h (us @ (n, False) # vs) l" and s: "12 \<le> s" "4 dvd s" "s + 12 \<le> n"
  defines "h1 \<equiv> upd_hdr (of_nat (total us)) (\<lambda>b. b\<lparr>hm_magic := HEAP_MAGIC\<rparr>) (malloc_place (of_nat s) (of_nat (total us)) h)"
  shows "heap_rep h1 (us @ place s n @ vs) l \<and> same_heap h h1"
proof -
  let ?x = "total us"
  let ?p = "of_nat ?x :: u32"
  note a = heap_rep_at [OF r] and w = heap_rep_words [OF r]
  have hd: "hm_next (hp_hdr h ?p) = of_nat (?x + n)" "hm_prev (hp_hdr h ?p) = of_nat (last_at 0 0 us)"
    using a(1) by (simp_all add: header_ok_def)
  have room: "(of_nat (?x + n) :: u32) - (?p + 12) = of_nat (n - 12)"
    using a(2) by (simp add: of_nat_add of_nat_diff)
  have split: "of_nat s + 12 + 12 \<le> (of_nat (n - 12) :: u32) \<longleftrightarrow> s + 36 \<le> n"
  proof -
    have "of_nat s + 12 + 12 = (of_nat (s + 24) :: u32)" by (simp add: of_nat_add)
    moreover have "(of_nat (s + 24) :: u32) \<le> of_nat (n - 12) \<longleftrightarrow> s + 36 \<le> n"
      using a s by (subst off_le) auto
    ultimately show ?thesis by simp
  qed
  have sm: "same_heap h h1" by (simp add: h1_def malloc_place_def same_heap_def Let_def)
  have lf: "hp_lfree h1 = of_nat l" using w(3) by (simp add: h1_def malloc_place_def Let_def)
  have used: "used_mem h = of_nat (in_use us + in_use vs)" using w(5) by simp
  show ?thesis
  proof (cases "s + 36 \<le> n")
    case False
    let ?m = "(hp_hdr h ?p)\<lparr>hm_used := 1, hm_magic := HEAP_MAGIC\<rparr>"
    have pl: "h1 = upd_hdr ?p (\<lambda>b. b\<lparr>hm_magic := HEAP_MAGIC\<rparr>)
        (count_used (of_nat (?x + n) - ?p) (upd_hdr ?p (\<lambda>b. b\<lparr>hm_used := 1\<rparr>) h))"
      using False split by (simp add: h1_def malloc_place_def Let_def hd room)
    have "heap_rep h1 (us @ (n, True) # vs) l"
    proof (rule mark_rep [OF r _ _ sm lf])
      show "header_ok ?m (last_at 0 0 us) ?x (n, True)" using a hd by (simp add: header_ok_def)
      show "hp_hdr h1 = (hp_hdr h)(?p := ?m)" by (simp add: pl)
      show "l \<in> starts 0 (us @ (n, False) # vs)" by (rule w(4))
      show "used_mem h1 = of_nat (in_use (us @ (n, True) # vs))"
        by (simp add: pl used of_nat_add)
    qed
    then show ?thesis using False sm by (simp add: place_def)
  next
    case True
    let ?c = "s + 12"
    have p2: "?p + 12 + of_nat s = of_nat (?x + ?c)" by (simp add: of_nat_add)
    have ne: "(of_nat (?x + ?c) :: u32) \<noteq> ?p" "(of_nat (?x + n) :: u32) \<noteq> ?p" "(of_nat (?x + n) :: u32) \<noteq> of_nat (?x + ?c)"
      using a True by (subst off_eq; simp)+
    let ?m2 = "(hp_hdr h (of_nat (?x + ?c)))\<lparr>hm_used := 0, hm_next := of_nat (?x + n), hm_prev := ?p\<rparr>"
    let ?m1 = "(hp_hdr h ?p)\<lparr>hm_next := of_nat (?x + ?c), hm_used := 1, hm_magic := HEAP_MAGIC\<rparr>"
    let ?g = "(hp_hdr h)(of_nat (?x + ?c) := ?m2, ?p := ?m1)"
    have e: "(of_nat (?x + n) :: u32) \<noteq> mem_size_aligned h + 12 \<longleftrightarrow> vs \<noteq> []"
      using off_end_cases [OF r] by (simp add: w(1))
    have hdr: "hp_hdr h1 = (if vs = [] then ?g
        else ?g(of_nat (?x + n) := (?g (of_nat (?x + n)))\<lparr>hm_prev := of_nat (?x + ?c)\<rparr>))"
      using True split ne e by (auto simp: h1_def malloc_place_def Let_def hd room p2 fun_upd_twist)
    have "heap_rep h1 (us @ (?c, True) # (n - ?c, False) # vs) l"
    proof (rule split_rep [OF r _ _ _ _ refl hdr sm lf])
      show "header_ok ?m1 (last_at 0 0 us) ?x (?c, True)" "header_ok ?m2 ?x (?x + ?c) (n - ?c, False)"
        using a hd s True by (simp_all add: header_ok_def)
      show "l \<in> starts 0 (us @ (?c, True) # (n - ?c, False) # vs)" using w(4) s True by auto
      show "used_mem h1 = of_nat (in_use (us @ (?c, True) # (n - ?c, False) # vs))"
        using True split by (simp add: h1_def malloc_place_def Let_def hd room used of_nat_add)
    qed (use True in auto)
    then show ?thesis using True sm by (simp add: place_def)
  qed
qed

lemma lfree_advance_rep:
  assumes "blocks (hp_hdr h) p x vs" and "hp_end h = of_nat (x + total vs)" and "x + total vs < 4294967296"
  shows "\<exists>us ws. vs = us @ ws \<and> lfree_advance (of_nat x) h = Some (of_nat (x + total us)) \<and>
    (\<forall>b \<in> set us. snd b) \<and> (ws = [] \<or> \<not> snd (hd ws))"
  using assms
proof (induction vs arbitrary: p x)
  case Nil
  then show ?case by (subst lfree_advance.simps) simp
next
  case (Cons b vs)
  have hd: "header_ok (hp_hdr h (of_nat x)) p x b" "12 \<le> fst b" using Cons.prems(1) by (simp_all add: header_ok_def)
  have e: "of_nat x \<noteq> hp_end h" using Cons.prems hd(2) by (simp add: off_eq)
  show ?case
  proof (cases "snd b")
    case True
    obtain us ws where "vs = us @ ws" "lfree_advance (of_nat (x + fst b)) h = Some (of_nat (x + fst b + total us))"
      "\<forall>b \<in> set us. snd b" "ws = [] \<or> \<not> snd (hd ws)"
      using Cons.IH [of x "x + fst b"] Cons.prems by (auto simp: add.assoc)
    then show ?thesis using hd e True
      by (intro exI [of _ "b # us"] exI [of _ ws], subst lfree_advance.simps) (auto simp: header_ok_def add.assoc)
  next
    case False
    then show ?thesis using hd
      by (intro exI [of _ "[]"] exI [of _ "b # vs"], subst lfree_advance.simps) (auto simp: header_ok_def)
  qed
qed

lemma and_3_mod_4: "(w :: u32) AND 3 = w mod 4"
  using take_bit_eq_mask [of 2 w] take_bit_eq_mod [of 2 w] by (simp add: mask_eq_exp_minus_1)

lemma mod_4_dvd: "(w :: u32) mod 4 = 0 \<longleftrightarrow> 4 dvd unat w"
  by (simp add: word_eq_iff_unsigned unat_mod dvd_eq_mod_eq_0 unsigned_eq_0_iff flip: unat_eq_0)

lemma unat_ptr:
  assumes "heap_rep h bs l" and "k \<le> total bs + 12"
  shows "unat (hp_ptr h + of_nat k) = unat (hp_ptr h) + k"
  using heap_rep_words(7) [OF assms(1)] assms(2) by (simp add: unat_word_ariths)

lemma heap_rep_lfree:
  assumes "heap_rep h bs l" and "l' \<in> starts 0 bs"
  shows "heap_rep (h\<lparr>hp_lfree := of_nat l'\<rparr>) bs l'"
  using assms by (auto simp: heap_rep_def)

lemma malloc_asserts:
  assumes r: "heap_rep h bs l" and sm: "same_heap h h2" and x: "x + 12 + s \<le> total bs" "4 dvd x"
  shows "hp_ptr h2 + of_nat x + SIZEOF_STRUCT_MEM + of_nat s \<le> hp_ptr h2 + hp_end h2"
    and "(hp_ptr h2 + of_nat x + SIZEOF_STRUCT_MEM) mod RT_ALIGN_SIZE = 0"
    and "(hp_ptr h2 + of_nat x) AND (RT_ALIGN_SIZE - 1) = 0"
proof -
  note w = heap_rep_words [OF r]
  have p: "hp_ptr h2 = hp_ptr h" "hp_end h2 = of_nat (total bs)" using sm w(2) by (simp_all add: same_heap_def)
  have 1: "hp_ptr h + of_nat x + 12 = hp_ptr h + of_nat (x + 12)" "hp_ptr h + of_nat x + 12 + of_nat s = hp_ptr h + of_nat (x + (12 + s))"
    by (simp_all only: of_nat_add of_nat_numeral add.assoc)
  show "hp_ptr h2 + of_nat x + SIZEOF_STRUCT_MEM + of_nat s \<le> hp_ptr h2 + hp_end h2"
    using x(1) unat_ptr [OF r] by (simp only: p heap_const_simps 1(2) word_le_nat_alt)
  show "(hp_ptr h2 + of_nat x + SIZEOF_STRUCT_MEM) mod RT_ALIGN_SIZE = 0"
    using x w(8) unat_ptr [OF r, of "x + 12"] by (simp add: p 1 mod_4_dvd)
  show "(hp_ptr h2 + of_nat x) AND (RT_ALIGN_SIZE - 1) = 0"
    using x w(8) unat_ptr [OF r, of x] by (simp add: p and_3_mod_4 mod_4_dvd)
qed

lemma malloc_locked_rep:
  assumes r: "heap_rep h (as @ cs) (total as)" and s: "12 \<le> s" "4 dvd s" "s \<le> unat (mem_size_aligned h)"
  shows "returns (malloc_locked (of_nat s) h) (\<lambda>(h', res). same_heap h h' \<and>
    (case first_fit s cs of
       None \<Rightarrow> h' = h \<and> res = None
     | Some i \<Rightarrow> res = Some (hp_ptr h + of_nat (total (as @ take i cs) + 12)) \<and>
         (\<exists>as' cs'. as @ take i cs @ place s (fst (cs ! i)) @ drop (Suc i) cs = as' @ cs' \<and>
           heap_rep h' (as' @ cs') (total as') \<and> (\<forall>b \<in> set as'. snd b \<or> b \<in> set as))))"
proof -
  note w = heap_rep_words [OF r]
  have find: "malloc_find (of_nat s) (hp_lfree h) h =
      Some (map_option (\<lambda>i. of_nat (total as + total (take i cs))) (first_fit s cs))"
    unfolding w(3) by (rule malloc_find_rep) (use r s w in \<open>auto simp: heap_rep_def\<close>)
  show ?thesis
  proof (cases "first_fit s cs")
    case None
    then show ?thesis by (simp add: malloc_locked_def find)
  next
    case (Some i)
    let ?us = "as @ take i cs" and ?vs = "drop (Suc i) cs"
    let ?x = "total ?us"
    let ?p = "of_nat ?x :: u32"
    obtain n where i: "i < length cs" "cs ! i = (n, False)" "s + 12 \<le> n" using first_fit_Some [OF Some] by blast
    have bs: "as @ cs = ?us @ (n, False) # ?vs" using id_take_nth_drop [OF i(1)] i(2) by simp
    have r1: "heap_rep h (?us @ (n, False) # ?vs) (total as)" using r unfolding bs by simp
    note a = heap_rep_at [OF r1]
    define h1 where "h1 = upd_hdr ?p (\<lambda>b. b\<lparr>hm_magic := HEAP_MAGIC\<rparr>) (malloc_place (of_nat s) ?p h)"
    have h1: "heap_rep h1 (?us @ place s n @ ?vs) (total as)" "same_heap h h1"
      using malloc_place_rep [OF r1 s(1,2) i(3)] by (simp_all add: h1_def)
    note w1 = heap_rep_words [OF h1(1)]
    have pl: "place s n = (if s + 36 \<le> n then s + 12 else n, True) # (if s + 36 \<le> n then [(n - (s + 12), False)] else [])"
      by (simp add: place_def)
    have eq: "?p = hp_lfree h1 \<longleftrightarrow> i = 0"
    proof -
      have "0 < total (take i cs)" if "i \<noteq> 0"
      proof (cases cs)
        case (Cons b cs')
        then have "12 \<le> fst b" using r by (simp add: heap_rep_def header_ok_def)
        then show ?thesis using that Cons by (cases i) auto
      qed (use i in simp)
      then show ?thesis using w1(3,6) a(4) by (cases "i = 0") (auto simp: off_eq)
    qed
    have tb: "total (as @ cs) = ?x + n + total ?vs" unfolding bs by simp
    have fin: "hp_ptr h2 + ?p + SIZEOF_STRUCT_MEM + of_nat s \<le> hp_ptr h2 + hp_end h2"
      "(hp_ptr h2 + ?p + SIZEOF_STRUCT_MEM) mod RT_ALIGN_SIZE = 0"
      "(hp_ptr h2 + ?p) AND (RT_ALIGN_SIZE - 1) = 0" if "same_heap h h2" for h2
      by (rule malloc_asserts [OF r that, of ?x s]; use a(5) i(3) tb in simp)+
    have unf: "malloc_locked (of_nat s) h =
        do { h2 \<leftarrow> (if ?p = hp_lfree h1 then
               do { lf \<leftarrow> lfree_advance (hp_lfree h1) h1;
                    rt_assert (lf = hp_end h1 \<or> hm_used (hp_hdr h1 lf) = 0);
                    Some (h1\<lparr>hp_lfree := lf\<rparr>) }
             else Some h1);
             rt_assert (hp_ptr h2 + ?p + SIZEOF_STRUCT_MEM + of_nat s \<le> hp_ptr h2 + hp_end h2);
             rt_assert ((hp_ptr h2 + ?p + SIZEOF_STRUCT_MEM) mod RT_ALIGN_SIZE = 0);
             rt_assert ((hp_ptr h2 + ?p) AND (RT_ALIGN_SIZE - 1) = 0);
             Some (h2, Some (hp_ptr h2 + ?p + SIZEOF_STRUCT_MEM)) }"
      using Some by (simp add: malloc_locked_def find h1_def Let_def)
    have res: "hp_ptr h + ?p + 12 = hp_ptr h + of_nat (?x + 12)"
      by (simp only: of_nat_add of_nat_numeral add.assoc)
    show ?thesis
    proof (cases "i = 0")
      case True
      have bl: "blocks (hp_hdr h1) (last_at 0 0 as) (total as) (place s n @ ?vs)" "hp_end h1 = of_nat (total as + total (place s n @ ?vs))"
        "total as + total (place s n @ ?vs) < 4294967296"
        using h1(1) w1 True by (auto simp: heap_rep_def)
      obtain us ws where adv: "place s n @ ?vs = us @ ws" "lfree_advance (of_nat (total as)) h1 = Some (of_nat (total as + total us))"
        "\<forall>b \<in> set us. snd b" "ws = [] \<or> \<not> snd (hd ws)"
        using lfree_advance_rep [OF bl] by blast
      let ?h2 = "h1\<lparr>hp_lfree := of_nat (total as + total us)\<rparr>"
      have r2: "heap_rep ?h2 (as @ us @ ws) (total as + total us)"
        by (rule heap_rep_lfree) (use h1(1) True adv(1) in auto)
      have free: "of_nat (total as + total us) = hp_end h1 \<or> hm_used (hp_hdr h1 (of_nat (total as + total us))) = 0"
      proof (cases ws)
        case Nil
        then show ?thesis using bl(2) arg_cong [OF adv(1), of total] by simp
      next
        case (Cons b ws')
        then have "header_ok (hp_hdr h1 (of_nat (total as + total us))) (last_at 0 0 (as @ us)) (total as + total us) b"
          using r2 by (simp add: heap_rep_def)
        then show ?thesis using adv(4) Cons by (simp add: header_ok_def)
      qed
      have sm: "same_heap h ?h2" using h1(2) by (simp add: same_heap_def)
      have "malloc_locked (of_nat s) h = Some (?h2, Some (hp_ptr h + of_nat (total as + 12)))"
        using Some fin [OF sm] free adv(2) eq True w1(3) res h1(2)
        by (simp add: unf same_heap_def)
      moreover have "\<exists>as' cs'. as @ place s n @ ?vs = as' @ cs' \<and> heap_rep ?h2 (as' @ cs') (total as') \<and>
          (\<forall>b \<in> set as'. snd b \<or> b \<in> set as)"
        by (rule exI [of _ "as @ us"], rule exI [of _ ws]) (use r2 adv(1,3) in auto)
      ultimately show ?thesis using Some True sm i by simp
    next
      case False
      have "malloc_locked (of_nat s) h = Some (h1, Some (hp_ptr h + of_nat (?x + 12)))"
        using Some fin [OF h1(2)] eq False res h1(2)
        by (simp add: unf same_heap_def)
      moreover have "\<exists>as' cs'. as @ take i cs @ place s n @ ?vs = as' @ cs' \<and> heap_rep h1 (as' @ cs') (total as') \<and>
          (\<forall>b \<in> set as'. snd b \<or> b \<in> set as)"
        by (rule exI [of _ as], rule exI [of _ "take i cs @ place s n @ ?vs"]) (use h1 in auto)
      ultimately show ?thesis using Some h1(2) i by simp
    qed
  qed
qed

section \<open>Release\<close>

text \<open>Where the free blocks begin.\<close>

fun holes :: "nat \<Rightarrow> block list \<Rightarrow> nat set" where
  "holes x [] = {}"
| "holes x ((n, u) # bs) = (if u then {} else {x}) \<union> holes (x + n) bs"

lemma holes_append [simp]: "holes x (us @ vs) = holes x us \<union> holes (x + total us) vs"
  by (induction us arbitrary: x) (auto simp: add.assoc)

lemma holes_bounds: "y \<in> holes x bs \<Longrightarrow> x \<le> y \<and> (blocks f p x bs \<longrightarrow> y < x + total bs)"
proof (induction bs arbitrary: p x)
  case (Cons b bs)
  then show ?case by (cases b) (auto simp: header_ok_def split: if_splits, (fastforce)+)
qed simp

lemma holes_used: "(\<forall>b \<in> set bs. snd b) \<longleftrightarrow> holes x bs = {}"
proof (induction bs arbitrary: x)
  case (Cons b bs)
  show ?case using Cons.IH [of "x + fst b"] by (cases b) simp
qed simp

lemma holes_join_next: "holes x (join_next n vs) \<subseteq> insert x (holes (x + n) vs)"
  by (cases "(n, vs)" rule: join_next.cases) (auto simp: add.assoc)

lemma holes_join_prev: "holes x (join_prev us ((n, False) # vs)) \<subseteq> holes x (us @ (n, False) # vs)"
proof (cases us rule: rev_cases)
  case (snoc us' b)
  obtain m u where "b = (m, u)" by (cases b)
  then show ?thesis using snoc by (cases u) (auto simp: add.assoc)
qed simp

lemma holes_join: "holes x (join_prev us (join_next n vs)) \<subseteq> insert (x + total us) (holes x (us @ (n, True) # vs))"
proof -
  obtain n' vs' where j: "join_next n vs = (n', False) # vs'" using join_next_Cons by blast
  have "holes x (join_prev us ((n', False) # vs')) \<subseteq> holes x us \<union> holes (x + total us) (join_next n vs)"
    using holes_join_prev [of x us n' vs'] j by simp
  then show ?thesis using holes_join_next [of "x + total us" n vs] j by auto
qed

lemma coalesced_Cons: "coalesced (b # bs) \<longleftrightarrow> (bs = [] \<or> snd b \<or> snd (hd bs)) \<and> coalesced bs"
  by (cases bs) auto

lemma coalesced_append:
  "coalesced (us @ vs) \<longleftrightarrow> coalesced us \<and> coalesced vs \<and> (us = [] \<or> vs = [] \<or> snd (last us) \<or> snd (hd vs))"
proof (induction us)
  case (Cons b us)
  then show ?case by (cases us; cases vs) (auto simp: coalesced_Cons)
qed simp

lemma coalesced_join_next: "coalesced ((n, True) # vs) \<Longrightarrow> coalesced (join_next n vs)"
  by (cases "(n, vs)" rule: join_next.cases) (auto simp: coalesced_Cons)

lemma coalesced_join:
  assumes "coalesced (us @ (n, True) # vs)"
  shows "coalesced (join_prev us (join_next n vs))"
proof -
  obtain n' vs' where j: "join_next n vs = (n', False) # vs'" using join_next_Cons by blast
  have c: "coalesced us" "coalesced ((n', False) # vs')"
    using assms coalesced_join_next [of n vs] j by (simp_all add: coalesced_append)
  show ?thesis
  proof (cases us rule: rev_cases)
    case (snoc us' b)
    obtain m u where "b = (m, u)" by (cases b)
    then show ?thesis using snoc c j by (cases u) (auto simp: coalesced_append coalesced_Cons)
  qed (use c j in simp)
qed

lemma coalesced_place:
  assumes "coalesced (us @ (n, False) # vs)"
  shows "coalesced (us @ place s n @ vs)"
  using assms by (auto simp: place_def coalesced_append coalesced_Cons)

lemma free_locked_rep:
  assumes r: "heap_rep h (us @ (n, True) # vs) l"
  shows "returns (free_locked (of_nat (total us)) h) (\<lambda>h'. same_heap h h' \<and>
    (\<exists>l'. heap_rep h' (join_prev us (join_next n vs)) l' \<and> l' \<le> l \<and> l' \<le> total us))"
proof -
  let ?p = "of_nat (total us) :: u32"
  note a = heap_rep_at [OF r] and w = heap_rep_words [OF r]
  have hd: "hm_used (hp_hdr h ?p) \<noteq> 0" "hm_magic (hp_hdr h ?p) = HEAP_MAGIC" "hm_next (hp_hdr h ?p) = of_nat (total us + n)"
    using a(1) by (simp_all add: header_ok_def)
  let ?l1 = "if total us < l then total us else l"
  define h3 where "h3 = (let h1 = upd_hdr ?p (\<lambda>b. b\<lparr>hm_used := 0, hm_magic := 0\<rparr>) h;
        h2 = (if hp_ptr h1 + ?p < hp_ptr h1 + hp_lfree h1 then h1\<lparr>hp_lfree := ?p\<rparr> else h1)
      in h2\<lparr>used_mem := used_mem h2 - (hm_next (hp_hdr h2 ?p) - ?p)\<rparr>)"
  have less: "hp_ptr h + ?p < hp_ptr h + hp_lfree h \<longleftrightarrow> total us < l"
    using unat_ptr [OF r, of l] unat_ptr [OF r, of "total us"] w(3,6) by (simp add: word_less_nat_alt)
  have sm: "same_heap h h3" by (simp add: h3_def same_heap_def Let_def)
  have "heap_rep h3 (us @ (n, False) # vs) ?l1"
  proof (rule mark_rep [OF r _ _ sm])
    show "header_ok ((hp_hdr h ?p)\<lparr>hm_used := 0, hm_magic := 0\<rparr>) (last_at 0 0 us) (total us) (n, False)"
      using a by (simp add: header_ok_def)
    show "hp_hdr h3 = (hp_hdr h)(?p := (hp_hdr h ?p)\<lparr>hm_used := 0, hm_magic := 0\<rparr>)" by (simp add: h3_def Let_def)
    show "hp_lfree h3 = of_nat ?l1" using less w(3) by (simp add: h3_def Let_def)
    show "?l1 \<in> starts 0 (us @ (n, True) # vs)" using w(4) by auto
    show "used_mem h3 = of_nat (in_use (us @ (n, False) # vs))"
      using w(5) by (simp add: h3_def Let_def hd of_nat_add)
  qed
  from plug_holes_rep [OF this]
  have p: "returns (plug_holes ?p h3) (\<lambda>h'. same_heap h3 h' \<and>
    (\<exists>l'. heap_rep h' (join_prev us (join_next n vs)) l' \<and> l' \<le> ?l1))" .
  have "free_locked ?p h = plug_holes ?p h3" using hd by (simp add: free_locked_def h3_def Let_def)
  then show ?thesis using p sm by (auto elim!: returns_mono intro: same_heap_trans split: if_splits)
qed

lemma realloc_split_rep:
  assumes r: "heap_rep h (us @ (n, True) # vs) l" and c: "s + 36 < n" "4 dvd s"
  shows "returns (realloc_split (of_nat (total us)) (of_nat s) (of_nat (n - 12)) h) (\<lambda>h'. same_heap h h' \<and>
    (\<exists>l'. heap_rep h' (us @ (s + 12, True) # join_next (n - (s + 12)) vs) l' \<and> l' \<le> l))"
proof -
  let ?x = "total us"
  let ?p = "of_nat ?x :: u32"
  let ?c = "s + 12"
  note a = heap_rep_at [OF r] and w = heap_rep_words [OF r]
  have hd: "hm_next (hp_hdr h ?p) = of_nat (?x + n)" "hm_prev (hp_hdr h ?p) = of_nat (last_at 0 0 us)"
    "hm_used (hp_hdr h ?p) \<noteq> 0" "hm_magic (hp_hdr h ?p) = HEAP_MAGIC"
    using a(1) by (simp_all add: header_ok_def)
  have p2: "?p + 12 + of_nat s = of_nat (?x + ?c)" by (simp add: of_nat_add)
  have ne: "(of_nat (?x + ?c) :: u32) \<noteq> ?p" "(of_nat (?x + n) :: u32) \<noteq> ?p" "(of_nat (?x + n) :: u32) \<noteq> of_nat (?x + ?c)"
    using a c by (subst off_eq; simp)+
  have e: "(of_nat (?x + n) :: u32) \<noteq> mem_size_aligned h + 12 \<longleftrightarrow> vs \<noteq> []"
    using off_end_cases [OF r] by (simp add: w(1))
  let ?m2 = "\<lparr>hm_magic = HEAP_MAGIC, hm_used = 0, hm_next = of_nat (?x + n), hm_prev = ?p\<rparr>"
  let ?m1 = "(hp_hdr h ?p)\<lparr>hm_next := of_nat (?x + ?c)\<rparr>"
  let ?g = "(hp_hdr h)(of_nat (?x + ?c) := ?m2, ?p := ?m1)"
  define h4 where "h4 = (let h1 = h\<lparr>used_mem := used_mem h - (of_nat (n - 12) - of_nat s)\<rparr>;
          ptr2 = ?p + SIZEOF_STRUCT_MEM + of_nat s;
          h2 = upd_hdr ptr2 (\<lambda>_. \<lparr>hm_magic = HEAP_MAGIC, hm_used = 0, hm_next = hm_next (hp_hdr h1 ?p), hm_prev = ?p\<rparr>) h1;
          h3 = upd_hdr ?p (\<lambda>b. b\<lparr>hm_next := ptr2\<rparr>) h2;
          next2 = hm_next (hp_hdr h3 ptr2)
      in if next2 \<noteq> mem_size_aligned h3 + SIZEOF_STRUCT_MEM
                then upd_hdr next2 (\<lambda>b. b\<lparr>hm_prev := ptr2\<rparr>) h3 else h3)"
  have hdr: "hp_hdr h4 = (if vs = [] then ?g
      else ?g(of_nat (?x + n) := (?g (of_nat (?x + n)))\<lparr>hm_prev := of_nat (?x + ?c)\<rparr>))"
    using ne e by (auto simp: h4_def Let_def hd p2)
  have sm: "same_heap h h4" by (simp add: h4_def same_heap_def Let_def)
  have lf: "hp_lfree h4 = of_nat l" using w(3) by (simp add: h4_def Let_def)
  have "heap_rep h4 (us @ (?c, True) # (n - ?c, False) # vs) l"
  proof (rule split_rep [OF r _ _ _ _ refl hdr sm lf])
    show "header_ok ?m1 (last_at 0 0 us) ?x (?c, True)" "header_ok ?m2 ?x (?x + ?c) (n - ?c, False)"
      using a hd c by (simp_all add: header_ok_def)
    show "l \<in> starts 0 (us @ (?c, True) # (n - ?c, False) # vs)" using w(4) c by auto
    have "(of_nat (n - 12) - of_nat s :: u32) = of_nat (n - ?c)" using c by (simp add: of_nat_diff of_nat_add)
    moreover have "used_mem h = of_nat (in_use us + ?c + in_use vs) + of_nat (n - ?c)"
      using w(5) c by (simp add: of_nat_add of_nat_diff)
    ultimately show "used_mem h4 = of_nat (in_use (us @ (?c, True) # (n - ?c, False) # vs))"
      by (simp add: h4_def Let_def add.assoc)
  qed (use c in auto)
  then have "heap_rep h4 ((us @ [(?c, True)]) @ (n - ?c, False) # vs) l" by simp
  from plug_holes_rep [OF this]
  have p: "returns (plug_holes (of_nat (?x + ?c)) h4) (\<lambda>h'. same_heap h4 h' \<and>
    (\<exists>l'. heap_rep h' (us @ (?c, True) # join_next (n - ?c) vs) l' \<and> l' \<le> l))" by simp
  have "realloc_split ?p (of_nat s) (of_nat (n - 12)) h = plug_holes (of_nat (?x + ?c)) h4"
    by (simp only: realloc_split_def h4_def Let_def heap_const_simps p2)
  then show ?thesis using p sm by (auto elim!: returns_mono intro: same_heap_trans)
qed

end
