(* ===== verification/RT_HeapOps.thy ===== *)
theory RT_HeapOps
  imports RT_Heap
begin

text \<open>
  The calls of the heap, made by a thread while nobody else is inside (\<open>heap_ready\<close>): what \<^verbatim>\<open>rt_malloc\<close>,
  \<^verbatim>\<open>rt_free\<close>, \<^verbatim>\<open>rt_realloc\<close> and \<^verbatim>\<open>rt_calloc\<close> do to the list of blocks and to the bytes, and that the heap
  is a block allocator in the sense of RT_Interfaces.
\<close>

section \<open>Sizes\<close>

lemma unat_u32: "unat (w :: u32) < 4294967296"
proof -
  have "unat w < 2 ^ LENGTH(32)" by (rule unsigned_less)
  then show ?thesis by simp
qed

lemma and_not_3: "(w :: u32) AND NOT 3 = push_bit 2 (drop_bit 2 w)"
proof -
  have "2 \<le> n \<Longrightarrow> Suc (Suc (n - 2)) = n" for n by simp
  then have "(w :: u32) AND NOT (mask 2) = push_bit 2 (drop_bit 2 w)"
    by (intro bit_eqI) (auto simp: bit_simps)
  then show ?thesis by (simp add: mask_eq_exp_minus_1)
qed

lemma unat_align_down: "unat (RT_ALIGN_DOWN w 4) = unat w div 4 * 4"
proof -
  have "unat (drop_bit 2 w) = unat w div 4"
    by (simp only: unat_drop_bit_eq) (simp add: drop_bit_eq_div)
  moreover have "unat w div 4 * 4 < 4294967296" using unat_u32 [of w] by simp
  ultimately have "unat (push_bit 2 (drop_bit 2 w)) = unat w div 4 * 4"
    by (simp only: push_bit_eq_mult) (simp add: unat_word_ariths)
  moreover have "RT_ALIGN_DOWN w 4 = w AND NOT 3" by (simp add: RT_ALIGN_DOWN_def)
  ultimately show ?thesis by (simp only: and_not_3)
qed

lemma unat_align: "unat (RT_ALIGN w 4) = unat (w + 3) div 4 * 4"
proof -
  have "RT_ALIGN w 4 = RT_ALIGN_DOWN (w + 3) 4" by (simp add: RT_ALIGN_def RT_ALIGN_DOWN_def add.commute)
  then show ?thesis by (simp only: unat_align_down)
qed

lemma align_dvd: "4 dvd unat (RT_ALIGN w 4)"
  by (simp add: unat_align)

text \<open>\<^verbatim>\<open>RT_ALIGN\<close> rounds up, unless the sum wraps around; then it is zero.\<close>

lemma unat_align_le: "w \<le> 0xfffffffc \<Longrightarrow> unat (RT_ALIGN w 4) = (unat w + 3) div 4 * 4"
  by (simp add: unat_align word_le_nat_alt unat_word_ariths)

lemma align_wraps:
  assumes "0xfffffffc < w"
  shows "RT_ALIGN w 4 = 0"
proof -
  have "4294967292 < unat w" using assms by (simp add: word_less_nat_alt)
  moreover have "unat w < 4294967296" using unat_u32 [of w] by simp
  ultimately have "unat w + 3 - 4294967296 < 3" "4294967296 \<le> unat w + 3" by linarith+
  then have "(unat w + 3) mod 4294967296 < 3"
    by (subst le_mod_geq) (auto intro: le_less_trans [OF mod_less_eq_dividend])
  then have "unat (w + 3) < 3" by (simp add: unat_word_ariths)
  then show ?thesis by (simp add: unat_align flip: unat_eq_0)
qed

definition data_size :: "u32 \<Rightarrow> nat" where
  "data_size q = max 12 (unat (RT_ALIGN q RT_ALIGN_SIZE))"

lemma data_size: "12 \<le> data_size q" "4 dvd data_size q" "q \<le> 0xfffffffc \<Longrightarrow> unat q \<le> data_size q" "data_size q < 4294967296"
proof -
  show "12 \<le> data_size q" "4 dvd data_size q" by (auto simp: data_size_def max_def align_dvd)
  show "q \<le> 0xfffffffc \<Longrightarrow> unat q \<le> data_size q" by (simp add: data_size_def unat_align_le)
  show "data_size q < 4294967296" using unat_u32 [of "RT_ALIGN q RT_ALIGN_SIZE"] by (simp add: data_size_def)
qed

section \<open>A call while nobody else is inside\<close>

definition heap_ready :: "small_heap \<Rightarrow> kernel \<Rightarrow> bool" where
  "heap_ready h k \<longleftrightarrow> sem_value (heap_sem h) = 1 \<and> tlists k (Wait (suspend_thread (heap_sem h))) = [] \<and>
     rt_interrupt_nest k = 0"

definition locked :: "small_heap \<Rightarrow> small_heap" where
  "locked h = h\<lparr>heap_sem := (heap_sem h)\<lparr>sem_value := 0\<rparr>\<rparr>"

definition unlock :: "small_heap \<Rightarrow> small_heap \<Rightarrow> small_heap" where
  "unlock h h1 = h1\<lparr>heap_sem := heap_sem h\<rparr>"

lemma heap_rep_sem [simp]: "heap_rep (h\<lparr>heap_sem := s\<rparr>) = heap_rep h"
  by (intro ext) (simp add: heap_rep_def)

lemma heap_rep_locked [simp]: "heap_rep (locked h) = heap_rep h" "heap_rep (unlock h h1) = heap_rep h1"
  by (simp_all add: locked_def unlock_def)

lemma heap_rep_bytes [simp]: "heap_rep (h\<lparr>hp_bytes := B\<rparr>) = heap_rep h"
  by (intro ext) (simp add: heap_rep_def)

lemma locked_simps [simp]:
  "hp_ptr (locked h) = hp_ptr h" "hp_end (locked h) = hp_end h" "hp_hdr (locked h) = hp_hdr h"
  "mem_size_aligned (locked h) = mem_size_aligned h" "hp_bytes (locked h) = hp_bytes h" "hp_lfree (locked h) = hp_lfree h"
  by (simp_all add: locked_def)

lemma unlock_locked [simp]: "unlock h (locked h) = h"
  by (simp add: unlock_def locked_def)

lemma same_heap_unlock: "same_heap (locked h) h1 \<Longrightarrow> same_heap h (unlock h h1)"
  by (simp add: same_heap_def locked_def unlock_def)

lemma heap_ready_same: "same_heap h h' \<Longrightarrow> heap_ready h k \<Longrightarrow> heap_ready h' k"
  by (simp add: heap_ready_def same_heap_def)

lemma heap_take_ready:
  "heap_ready h k \<Longrightarrow> heap_take pt h k cont = cont (locked h) k"
  by (simp add: heap_take_def heap_ready_def rt_sem_take_def locked_def)

lemma heap_release_ready:
  assumes "heap_ready h k" and "same_heap (locked h) h1"
  shows "heap_release h1 k = Some (unlock h h1, k)"
proof -
  have "heap_sem h1 = (heap_sem h)\<lparr>sem_value := 0\<rparr>" using assms(2) by (simp add: same_heap_def locked_def)
  moreover have "(heap_sem h)\<lparr>sem_value := 1\<rparr> = heap_sem h"
    using assms(1) by (cases "heap_sem h") (simp add: heap_ready_def)
  ultimately show ?thesis
    using assms(1) by (simp add: heap_release_def rt_sem_release_def heap_ready_def unlock_def)
qed

text \<open>
  The blocks are as the headers say, no two free blocks touch, one block with 12 bytes of data fits
  into the heap, and the last block is more than a header. \<open>lowest\<close>: no free block lies in front of \<^verbatim>\<open>lfree\<close>.
\<close>

definition heap_inv :: "small_heap \<Rightarrow> block list \<Rightarrow> nat \<Rightarrow> bool" where
  "heap_inv h bs l \<longleftrightarrow> heap_rep h bs l \<and> coalesced bs \<and> 12 \<le> unat (mem_size_aligned h) \<and> 12 < fst (last bs)"

definition lowest :: "block list \<Rightarrow> nat \<Rightarrow> bool" where
  "lowest bs l \<longleftrightarrow> (\<forall>y \<in> holes 0 bs. l \<le> y)"

lemma heap_inv_split:
  assumes "heap_inv h bs l"
  obtains as cs where "bs = as @ cs" and "l = total as" and "heap_rep h (as @ cs) (total as)"
    and "lowest bs l \<longrightarrow> (\<forall>b \<in> set as. snd b)"
proof -
  have r: "heap_rep h bs l" using assms by (simp add: heap_inv_def)
  then obtain as cs where s: "bs = as @ cs" "l = 0 + total as"
    using starts_split [OF heap_rep_words(4) [OF r]] by blast
  have "blocks (hp_hdr h) 0 0 as" using r s by (simp add: heap_rep_def)
  then have "y < total as" if "y \<in> holes 0 as" for y using holes_bounds [OF that, of "hp_hdr h" 0] by simp
  then have "lowest bs l \<Longrightarrow> holes 0 as = {}" using s by (auto simp: lowest_def not_less [symmetric])
  then have low: "lowest bs l \<longrightarrow> (\<forall>b \<in> set as. snd b)" by (simp add: holes_used [of as 0])
  show thesis by (rule that [OF _ _ _ low]) (use s r in auto)
qed

section \<open>\<^verbatim>\<open>rt_malloc\<close>\<close>

definition malloc_post :: "nat \<Rightarrow> small_heap \<Rightarrow> block list \<Rightarrow> nat \<Rightarrow> small_heap \<Rightarrow> u32 option \<Rightarrow> bool" where
  "malloc_post s h bs l h' r \<longleftrightarrow> same_heap h h' \<and>
     (case r of
        None \<Rightarrow> h' = h \<and>
          (\<forall>us n vs. bs = us @ (n, False) # vs \<and> l \<le> total us \<longrightarrow> n < s + 12 \<or> vs = [] \<and> n = s + 12)
      | Some p \<Rightarrow> (\<exists>us n vs l'. bs = us @ (n, False) # vs \<and> s + 12 \<le> n \<and> (vs = [] \<longrightarrow> n \<noteq> s + 12) \<and>
          unat p = unat (hp_ptr h) + total us + 12 \<and> 4 dvd unat p \<and>
          heap_inv h' (us @ place s n @ vs) l' \<and> (lowest bs l \<longrightarrow> lowest (us @ place s n @ vs) l')))"

lemma malloc_postI:
  "bs = us @ (n, False) # vs \<Longrightarrow> s + 12 \<le> n \<Longrightarrow> (vs = [] \<longrightarrow> n \<noteq> s + 12) \<Longrightarrow> unat p = unat (hp_ptr h) + total us + 12 \<Longrightarrow> 4 dvd unat p \<Longrightarrow>
    heap_inv h' (us @ place s n @ vs) l' \<Longrightarrow> (lowest bs l \<Longrightarrow> lowest (us @ place s n @ vs) l') \<Longrightarrow> same_heap h h' \<Longrightarrow>
    malloc_post s h bs l h' (Some p)"
  unfolding malloc_post_def by (simp del: append_assoc total_simps(3)) blast

lemma malloc_locked_post:
  assumes i: "heap_inv h bs l" and s: "12 \<le> s" "4 dvd s" "s \<le> unat (mem_size_aligned h)"
  shows "returns (malloc_locked (of_nat s) h) (\<lambda>(h', r). malloc_post s h bs l h' r)"
proof -
  obtain as cs where b: "bs = as @ cs" "l = total as" and r: "heap_rep h (as @ cs) (total as)"
    and low: "lowest bs l \<longrightarrow> (\<forall>b \<in> set as. snd b)"
    by (rule heap_inv_split [OF i])
  have c: "coalesced (as @ cs)" and m: "12 \<le> unat (mem_size_aligned h)" using i b by (simp_all add: heap_inv_def)
  obtain h' res where ml: "malloc_locked (of_nat s) h = Some (h', res)" "same_heap h h'"
    and res: "case first_fit s cs of
       None \<Rightarrow> h' = h \<and> res = None
     | Some i \<Rightarrow> res = Some (hp_ptr h + of_nat (total (as @ take i cs) + 12)) \<and>
         (\<exists>as' cs'. as @ take i cs @ place s (fst (cs ! i)) @ drop (Suc i) cs = as' @ cs' \<and>
           heap_rep h' (as' @ cs') (total as') \<and> (\<forall>b \<in> set as'. snd b \<or> b \<in> set as))"
    using malloc_locked_rep [OF r s] by (auto simp: returns_iff)
  have "malloc_post s h bs l h' res"
  proof (cases "first_fit s cs")
    case None
    have "n < s + 12 \<or> vs = [] \<and> n = s + 12" if e: "bs = us @ (n, False) # vs" "l \<le> total us" for us n vs
    proof -
      have "blocks (hp_hdr h) 0 0 us" "12 \<le> n" using r e b by (auto simp: heap_rep_def header_ok_def dest!: arg_cong [of _ _ "blocks (hp_hdr h) 0 0"])
      have "\<exists>us'. cs = us' @ (n, False) # vs"
      proof -
        have ap: "as @ cs = us @ (n, False) # vs" using e b by simp
        from append_eq_append_conv2 [THEN iffD1, OF ap] obtain zs where
          z: "as = us @ zs \<and> zs @ cs = (n, False) # vs \<or> as @ zs = us \<and> cs = zs @ (n, False) # vs" by auto
        show ?thesis
        proof (cases "as @ zs = us \<and> cs = zs @ (n, False) # vs")
          case False
          then have z': "as = us @ zs" "zs @ cs = (n, False) # vs" using z by auto
          then have "total zs = 0" using e b by simp
          then have "zs = []" using z' \<open>12 \<le> n\<close> by (cases zs) auto
          then show ?thesis using z' by auto
        qed auto
      qed
      then show ?thesis using None unfolding first_fit_None by blast
    qed
    then show ?thesis using None res by (simp add: malloc_post_def)
  next
    case (Some i)
    let ?us = "as @ take i cs" and ?vs = "drop (Suc i) cs"
    obtain n where n: "i < length cs" "cs ! i = (n, False)" "s + 12 \<le> n" and ex: "?vs = [] \<longrightarrow> n \<noteq> s + 12" using first_fit_Some [OF Some] by blast
    have bs: "as @ cs = ?us @ (n, False) # ?vs" using id_take_nth_drop [OF n(1)] n(2) by simp
    have r1: "heap_rep h (?us @ (n, False) # ?vs) (total as)" using r unfolding bs .
    note a = heap_rep_at [OF r1]
    obtain as' cs' where e: "as @ take i cs @ place s n @ ?vs = as' @ cs'" "heap_rep h' (as' @ cs') (total as')"
      "\<forall>b \<in> set as'. snd b \<or> b \<in> set as" and p: "res = Some (hp_ptr h + of_nat (total ?us + 12))"
      using res Some n by auto
    have up: "unat (hp_ptr h + of_nat (total ?us + 12)) = unat (hp_ptr h) + (total ?us + 12)"
      by (rule unat_ptr [OF r1]) simp
    have "coalesced (?us @ place s n @ ?vs)" using c unfolding bs by (rule coalesced_place)
    moreover have "12 < fst (last (?us @ place s n @ ?vs))"
      using i n(3) s(1) unfolding b(1) bs by (auto simp: heap_inv_def place_def)
    ultimately have inv: "heap_inv h' (?us @ place s n @ ?vs) (total as')"
      using e(1,2) m ml(2) by (simp add: heap_inv_def same_heap_def)
    have "lowest (?us @ place s n @ ?vs) (total as')" if "lowest bs l"
    proof -
      have "\<forall>b \<in> set as'. snd b" using low that e(3) by blast
      then have "holes 0 as' = {}" using holes_used by blast
      then have "holes 0 (as' @ cs') = holes (total as') cs'" by simp
      then have "\<forall>y \<in> holes 0 (as' @ cs'). total as' \<le> y" using holes_bounds by auto
      then show ?thesis using e(1) by (simp add: lowest_def)
    qed
    moreover have "4 dvd unat (hp_ptr h) + total ?us + 12" using a(5) heap_rep_words(8) [OF r] by simp
    ultimately show ?thesis unfolding p
      by (intro malloc_postI [of bs ?us n ?vs]) (use ml(2) inv n(3) ex b(1) bs up in \<open>simp_all only: add.assoc append_assoc True_implies_equals\<close>)
  qed
  then show ?thesis using ml by simp
qed

lemma no_fit:
  assumes "heap_rep h bs l" and "unat (mem_size_aligned h) < s" and "bs = us @ (n, False) # vs"
  shows "n < s + 12"
  using heap_rep_words(9) [OF assms(1)] assms(2) unfolding assms(3) by simp

lemma malloc_at_post:
  assumes i: "heap_inv h bs l" and rd: "heap_ready h k" and q: "0 < q"
  shows "returns (malloc_at pt q h k) (\<lambda>(h', k', r).
    k' = k \<and> heap_ready h' k \<and> (\<exists>p. r = Heap_Done p \<and> malloc_post (data_size q) h bs l h' p))"
proof -
  have m: "12 \<le> unat (mem_size_aligned h)" and r: "heap_rep h bs l" using i by (simp_all add: heap_inv_def)
  have q0: "q \<noteq> 0" using q by auto
  have nest: "not_in_interrupt k = Some ()" using rd by (simp add: heap_ready_def not_in_interrupt_def)
  have sz: "(if RT_ALIGN q 4 < 12 then MIN_SIZE_ALIGNED else RT_ALIGN q 4) = of_nat (data_size q)"
    by (auto simp: data_size_def word_less_nat_alt max_def)
  show ?thesis
  proof (cases "mem_size_aligned h < RT_ALIGN q 4")
    case True
    then have "unat (mem_size_aligned h) < data_size q" using m by (simp add: data_size_def word_less_nat_alt)
    then have "malloc_post (data_size q) h bs l h None"
      using no_fit [OF r] by (auto simp: malloc_post_def)
    then show ?thesis using True q0 rd by (simp add: malloc_at_def nest)
  next
    case False
    then have le: "data_size q \<le> unat (mem_size_aligned h)" using m by (simp add: data_size_def word_less_nat_alt)
    have "heap_inv (locked h) bs l" using i by (simp add: heap_inv_def)
    from malloc_locked_post [OF this data_size(1) [of q] data_size(2) [of q]] le
    obtain h1 p where ml: "malloc_locked (of_nat (data_size q)) (locked h) = Some (h1, p)"
      "malloc_post (data_size q) (locked h) bs l h1 p" by (auto simp: returns_iff)
    have sm: "same_heap (locked h) h1" using ml(2) by (simp add: malloc_post_def)
    have rdy: "heap_ready (unlock h h1) k" using heap_ready_same [OF same_heap_unlock [OF sm] rd] .
    have "malloc_at pt q h k = Some (unlock h h1, k, Heap_Done p)"
      using False q0 ml(1) heap_release_ready [OF rd sm]
      by (simp add: malloc_at_def nest heap_take_ready [OF rd] malloc_enter_def Let_def sz)
    moreover have "malloc_post (data_size q) h bs l (unlock h h1) p"
      using ml(2) same_heap_unlock [OF sm] by (auto simp: malloc_post_def heap_inv_def unlock_def locked_def split: option.splits)
    ultimately show ?thesis using rdy by simp
  qed
qed

section \<open>The blocks in use\<close>

text \<open>Offset and length, header included, of the blocks in use.\<close>

fun live :: "nat \<Rightarrow> block list \<Rightarrow> (nat \<times> nat) set" where
  "live x [] = {}"
| "live x ((n, u) # bs) = (if u then {(x, n)} else {}) \<union> live (x + n) bs"

lemma live_append [simp]: "live x (us @ vs) = live x us \<union> live (x + total us) vs"
  by (induction us arbitrary: x) (auto simp: add.assoc)

lemma live_split: "(y, n) \<in> live x bs \<Longrightarrow> \<exists>us vs. bs = us @ (n, True) # vs \<and> y = x + total us"
proof (induction bs arbitrary: x)
  case (Cons b bs)
  obtain m u where b: "b = (m, u)" by (cases b)
  show ?case
  proof (cases "u \<and> (y, n) = (x, m)")
    case True
    then show ?thesis using b by (intro exI [of _ "[]"] exI [of _ bs]) auto
  next
    case False
    then have "(y, n) \<in> live (x + m) bs" using Cons.prems b by (auto split: if_splits)
    then obtain us vs where "bs = us @ (n, True) # vs" "y = x + m + total us" using Cons.IH by blast
    then have "b # bs = (b # us) @ (n, True) # vs \<and> y = x + total (b # us)" using b by simp
    then show ?thesis by blast
  qed
qed simp

lemma live_bounds: "blocks f p x bs \<Longrightarrow> (y, n) \<in> live x bs \<Longrightarrow> x \<le> y \<and> y + n \<le> x + total bs \<and> 12 \<le> n"
proof (induction bs arbitrary: p x)
  case (Cons b bs)
  then show ?case by (cases b) (auto simp: header_ok_def split: if_splits, (fastforce)+)
qed simp

lemma live_apart:
  "blocks f p x bs \<Longrightarrow> (y, n) \<in> live x bs \<Longrightarrow> (z, m) \<in> live x bs \<Longrightarrow> (y, n) \<noteq> (z, m) \<Longrightarrow> y + n \<le> z \<or> z + m \<le> y"
proof (induction bs arbitrary: p x)
  case (Cons b bs)
  obtain c u where b: "b = (c, u)" by (cases b)
  have bl: "blocks f x (x + c) bs" using Cons.prems(1) b by simp
  show ?case
    using Cons.prems(2-4) Cons.IH [OF bl] live_bounds [OF bl, of y n] live_bounds [OF bl, of z m] b
    by (auto split: if_splits)
qed simp

lemma live_join: "live x (join_prev us (join_next n vs)) = live x us \<union> live (x + total us + n) vs"
proof -
  obtain n' vs' where j: "join_next n vs = (n', False) # vs'" using join_next_Cons by blast
  have 1: "live y (join_next n vs) = live (y + n) vs" for y
    by (cases "(n, vs)" rule: join_next.cases) (auto simp: add.assoc)
  have "live x (join_prev us ((n', False) # vs')) = live x (us @ (n', False) # vs')"
  proof (cases us rule: rev_cases)
    case (snoc us' b)
    obtain m u where "b = (m, u)" by (cases b)
    then show ?thesis using snoc by (cases u) (auto simp: add.assoc)
  qed simp
  then show ?thesis using j 1 [of "x + total us"] by simp
qed

lemma live_place: "live x (place s n) = {(x, if s + 36 \<le> n then s + 12 else n)}"
  by (simp add: place_def)

text \<open>The addresses and lengths of the data a client may use.\<close>

definition data :: "small_heap \<Rightarrow> block list \<Rightarrow> (nat \<times> nat) set" where
  "data h bs = (\<lambda>(y, n). (unat (hp_ptr h) + y + 12, n - 12)) ` live 0 bs"

lemma data_split:
  assumes "(a, n) \<in> data h bs" and "heap_rep h bs l"
  obtains us vs where "bs = us @ (n + 12, True) # vs" and "a = unat (hp_ptr h) + total us + 12"
proof -
  obtain y m where y: "(y, m) \<in> live 0 bs" "a = unat (hp_ptr h) + y + 12" "n = m - 12" using assms(1) by (auto simp: data_def)
  have "12 \<le> m" using live_bounds [of "hp_hdr h" 0 0 bs y m] y(1) assms(2) by (simp add: heap_rep_def)
  then show thesis using live_split [OF y(1)] y that by auto
qed

lemma data_apart:
  assumes "heap_rep h bs l" and "(a, n) \<in> data h bs" and "(b, m) \<in> data h bs" and "(a, n) \<noteq> (b, m)"
  shows "a + n + 12 \<le> b \<or> b + m + 12 \<le> a"
proof -
  have bl: "blocks (hp_hdr h) 0 0 bs" using assms(1) by (simp add: heap_rep_def)
  obtain y n' where y: "(y, n') \<in> live 0 bs" "a = unat (hp_ptr h) + y + 12" "n = n' - 12" using assms(2) by (auto simp: data_def)
  obtain z m' where z: "(z, m') \<in> live 0 bs" "b = unat (hp_ptr h) + z + 12" "m = m' - 12" using assms(3) by (auto simp: data_def)
  have "y + n' \<le> z \<or> z + m' \<le> y" using live_apart [OF bl y(1) z(1)] assms(4) y z by auto
  then show ?thesis using live_bounds [OF bl y(1)] live_bounds [OF bl z(1)] y z by auto
qed

lemma data_diff:
  assumes "heap_rep h bs l" and x: "(x, m) \<in> live 0 bs"
  shows "(\<lambda>(y, n). (unat (hp_ptr h) + y + 12, n - 12)) ` (live 0 bs - {(x, m)}) =
    data h bs - {(unat (hp_ptr h) + x + 12, m - 12)}"
proof -
  let ?f = "\<lambda>(y, n). (unat (hp_ptr h) + y + 12, n - 12)"
  have bl: "blocks (hp_hdr h) 0 0 bs" using assms(1) by (simp add: heap_rep_def)
  have inj: "inj_on ?f (live 0 bs)"
  proof (rule inj_onI)
    fix u v assume "u \<in> live 0 bs" "v \<in> live 0 bs" "?f u = ?f v"
    then show "u = v"
      using live_bounds [OF bl, of "fst u" "snd u"] live_bounds [OF bl, of "fst v" "snd v"] by (cases u; cases v) auto
  qed
  have "?f ` (live 0 bs - {(x, m)}) = ?f ` live 0 bs - ?f ` {(x, m)}"
    by (rule inj_on_image_set_diff [OF inj]) (use x in auto)
  then show ?thesis by (simp add: data_def)
qed

lemma data_in_heap:
  assumes "heap_rep h bs l" and "(a, n) \<in> data h bs"
  shows "unat (hp_ptr h) + 12 \<le> a" and "a + n \<le> unat (hp_ptr h) + unat (mem_size_aligned h) + 12"
proof -
  obtain us vs where "bs = us @ (n + 12, True) # vs" "a = unat (hp_ptr h) + total us + 12"
    by (rule data_split [OF assms(2,1)])
  then show "unat (hp_ptr h) + 12 \<le> a" "a + n \<le> unat (hp_ptr h) + unat (mem_size_aligned h) + 12"
    using heap_rep_words(9) [OF assms(1)] by simp_all
qed

lemma malloc_post_data:
  assumes "malloc_post s h bs l h' (Some p)" and r: "heap_rep h bs l"
  obtains bs' l' n where "heap_inv h' bs' l'" and "lowest bs l \<longrightarrow> lowest bs' l'" and "s \<le> n" and "n < s + 24" and "4 dvd unat p"
    and "data h' bs' = insert (unat p, n) (data h bs)" and "same_heap h h'" and "(unat p, n) \<in> data h' bs'"
    and "unat p \<notin> fst ` data h bs"
proof -
  obtain us n vs l' where e: "bs = us @ (n, False) # vs" "s + 12 \<le> n" "unat p = unat (hp_ptr h) + total us + 12" "4 dvd unat p"
      "heap_inv h' (us @ place s n @ vs) l'" "lowest bs l \<longrightarrow> lowest (us @ place s n @ vs) l'" and sm: "same_heap h h'"
    using assms(1) by (auto simp: malloc_post_def)
  let ?n = "if s + 36 \<le> n then s + 12 else n"
  have "live 0 (us @ place s n @ vs) = insert (total us, ?n) (live 0 bs)"
    by (auto simp: e(1) live_place)
  then have d: "data h' (us @ place s n @ vs) = insert (unat p, ?n - 12) (data h bs)"
    using sm e(3) by (simp add: data_def same_heap_def)
  have bl: "blocks (hp_hdr h) 0 0 us" "blocks (hp_hdr h) (total us) (total us + n) vs" "12 \<le> n"
    using r by (auto simp: heap_rep_def e(1) header_ok_def)
  have "(total us, m) \<notin> live 0 bs" for m
    using live_bounds [OF bl(1), of "total us" m] live_bounds [OF bl(2), of "total us" m] bl(3) by (auto simp: e(1))
  then have "unat p \<notin> fst ` data h bs" using e(3) by (auto simp: data_def)
  then show thesis by (intro that [OF e(5,6) _ _ e(4) d sm]) (use d e(2) in auto)
qed

text \<open>A block is given back.\<close>

lemma last_join_next: "vs \<noteq> [] \<or> 12 < n \<Longrightarrow> 12 < fst (last ((n, True) # vs)) \<Longrightarrow> 12 < fst (last (join_next n vs))"
  by (cases "(n, vs)" rule: join_next.cases) (auto split: if_splits)

lemma last_join:
  assumes "12 < fst (last (us @ (n, True) # vs))"
  shows "12 < fst (last (join_prev us (join_next n vs)))"
proof -
  obtain n' vs' where j: "join_next n vs = (n', False) # vs'" using join_next_Cons by blast
  have l: "12 < fst (last ((n', False) # vs'))"
    using last_join_next [of vs n] assms j by (auto split: if_splits)
  show ?thesis
  proof (cases us rule: rev_cases)
    case (snoc us' b)
    obtain m u where "b = (m, u)" by (cases b)
    then show ?thesis using snoc l j by (cases u) (auto split: if_splits)
  qed (use l j in simp)
qed

lemma in_use_join: "in_use (join_prev us (join_next n vs)) = in_use us + in_use vs"
proof -
  obtain n' vs' where j: "join_next n vs = (n', False) # vs'" using join_next_Cons by blast
  have 1: "in_use (join_next n vs) = in_use vs" by (cases "(n, vs)" rule: join_next.cases) auto
  have "in_use (join_prev us ((n', False) # vs')) = in_use us + in_use ((n', False) # vs')"
  proof (cases us rule: rev_cases)
    case (snoc us' b)
    obtain m u where "b = (m, u)" by (cases b)
    then show ?thesis using snoc by (cases u) auto
  qed simp
  then show ?thesis using j 1 by simp
qed

definition free_post :: "small_heap \<Rightarrow> block list \<Rightarrow> nat \<Rightarrow> nat \<times> nat \<Rightarrow> small_heap \<Rightarrow> bool" where
  "free_post h bs l d h' \<longleftrightarrow> same_heap h h' \<and>
     (\<exists>bs' l'. heap_inv h' bs' l' \<and> data h' bs' = data h bs - {d} \<and> in_use bs' + snd d + 12 = in_use bs \<and>
        (lowest bs l \<longrightarrow> lowest bs' l'))"

lemma free_locked_post:
  assumes i: "heap_inv h (us @ (n, True) # vs) l"
  shows "returns (free_locked (of_nat (total us)) h)
    (free_post h (us @ (n, True) # vs) l (unat (hp_ptr h) + total us + 12, n - 12))"
proof -
  let ?bs = "us @ (n, True) # vs" and ?bs' = "join_prev us (join_next n vs)"
  have r: "heap_rep h ?bs l" and c: "coalesced ?bs" and m: "12 \<le> unat (mem_size_aligned h)" "12 < fst (last ?bs)"
    using i by (simp_all only: heap_inv_def)
  obtain h' l' where f: "free_locked (of_nat (total us)) h = Some h'" "same_heap h h'" "heap_rep h' ?bs' l'" "l' \<le> l" "l' \<le> total us"
    using free_locked_rep [OF r] by (auto simp: returns_iff)
  have inv: "heap_inv h' ?bs' l'"
    using f(2,3) coalesced_join [OF c] last_join [OF m(2)] m(1) by (simp add: heap_inv_def same_heap_def)
  have bl: "blocks (hp_hdr h) 0 0 ?bs" using r by (simp add: heap_rep_def)
  have n: "12 \<le> n" using heap_rep_at(2) [OF r] .
  have lv: "live 0 ?bs' = live 0 ?bs - {(total us, n)}"
  proof -
    have "(total us, n) \<notin> live 0 us" using live_bounds [of "hp_hdr h" 0 0 us "total us" n] bl n by auto
    moreover have "(total us, n) \<notin> live (total us + n) vs"
      using live_bounds [of "hp_hdr h" "total us" "total us + n" vs "total us" n] bl n by auto
    ultimately show ?thesis by (auto simp: live_join)
  qed
  have "hp_ptr h' = hp_ptr h" using f(2) by (simp add: same_heap_def)
  then have d: "data h' ?bs' = data h ?bs - {(unat (hp_ptr h) + total us + 12, n - 12)}"
    using data_diff [OF r, of "total us" n] by (simp add: data_def [of h'] lv)
  have low: "lowest ?bs' l'" if "lowest ?bs l"
  proof (unfold lowest_def, rule ballI)
    fix y assume "y \<in> holes 0 ?bs'"
    then have "y = total us \<or> y \<in> holes 0 ?bs" using holes_join [of 0 us n vs] by auto
    then show "l' \<le> y" using that f(4,5) unfolding lowest_def by (metis order.trans)
  qed
  have use: "in_use ?bs' + n = in_use ?bs" by (simp add: in_use_join)
  show ?thesis using f(1,2) inv d low use n by (auto simp: free_post_def)
qed

lemma ptr_of_block:
  assumes "heap_rep h (us @ (n, True) # vs) l" and "unat p = unat (hp_ptr h) + total us + 12"
  shows "p - 12 - hp_ptr h = of_nat (total us)"
proof -
  have "unat (hp_ptr h + of_nat (total us + 12)) = unat p"
    using unat_ptr [OF assms(1), of "total us + 12"] assms(2) by simp
  then have "p = hp_ptr h + of_nat (total us + 12)" by (metis word_unat_eq_iff)
  then show ?thesis by (simp add: of_nat_add)
qed

lemma held_in_range:
  assumes i: "heap_inv h bs l" and bs: "bs = us @ (n + 12, True) # vs" and up: "unat p = unat (hp_ptr h) + total us + 12"
  shows "p \<noteq> 0" and "p AND 3 = 0" and "hp_ptr h \<le> p" and "p < hp_ptr h + hp_end h"
proof -
  have rep: "heap_rep h bs l" using i by (simp add: heap_inv_def)
  note r = rep [unfolded bs]
  note a = heap_rep_at [OF r] and w = heap_rep_words [OF r]
  have "0 < n \<or> vs \<noteq> []" using i unfolding bs by (auto simp: heap_inv_def)
  moreover have "vs = [] \<or> 12 \<le> total vs" using r by (cases vs) (auto simp: heap_rep_def header_ok_def)
  ultimately have lt: "total us + 12 < total bs" unfolding bs by auto
  show "p \<noteq> 0" using up by auto
  show "p AND 3 = 0" using up a(5) w(8) by (simp add: and_3_mod_4 mod_4_dvd)
  show "hp_ptr h \<le> p" using up by (simp add: word_le_nat_alt)
  have "hp_ptr h + hp_end h = hp_ptr h + of_nat (total bs)" using w(2) by (simp add: bs)
  then show "p < hp_ptr h + hp_end h" using up lt unat_ptr [OF rep, of "total bs"] by (simp add: word_less_nat_alt)
qed

lemma free_at_post:
  assumes i: "heap_inv h bs l" and rd: "heap_ready h k" and p: "(unat p, n) \<in> data h bs"
  shows "returns (free_at pt p r h k) (\<lambda>(h', k', o').
    k' = k \<and> heap_ready h' k \<and> o' = Heap_Done r \<and> free_post h bs l (unat p, n) h')"
proof -
  have rep: "heap_rep h bs l" using i by (simp add: heap_inv_def)
  obtain us vs where bs: "bs = us @ (n + 12, True) # vs" and up: "unat p = unat (hp_ptr h) + total us + 12"
    by (rule data_split [OF p rep])
  note r = rep [unfolded bs]
  note a = heap_rep_at [OF r] and w = heap_rep_words [OF r]
  have nest: "not_in_interrupt k = Some ()" using rd by (simp add: heap_ready_def not_in_interrupt_def)
  note checks = held_in_range [OF i bs up]
  have "heap_inv (locked h) (us @ (n + 12, True) # vs) l" using i by (simp add: bs heap_inv_def)
  from free_locked_post [OF this]
  obtain h1 where f: "free_locked (of_nat (total us)) (locked h) = Some h1" "free_post (locked h) bs l (unat p, n) h1"
    by (auto simp: returns_iff bs up)
  have sm: "same_heap (locked h) h1" using f(2) by (simp add: free_post_def)
  have po: "p - 12 - hp_ptr h = of_nat (total us)" by (rule ptr_of_block [OF r up])
  have "free_at pt p r h k = Some (unlock h h1, k, Heap_Done r)"
    using checks f(1) heap_release_ready [OF rd sm]
    by (simp add: free_at_def nest heap_take_ready [OF rd] free_enter_def po)
  moreover have "free_post h bs l (unat p, n) (unlock h h1)"
    using f(2) same_heap_unlock [OF sm] by (auto simp: free_post_def heap_inv_def unlock_def data_def)
  ultimately show ?thesis using heap_ready_same [OF same_heap_unlock [OF sm] rd] by simp
qed

section \<open>The heap as an allocator\<close>

text \<open>A block as a client sees it: the address it got, and the size it asked for.\<close>

type_synonym client_block = "u32 \<times> u32"

definition heap_region :: "client_block \<Rightarrow> nat set" where
  "heap_region b = {unat (fst b) ..< unat (fst b) + unat (snd b)}"

definition heap_alloc :: "u32 \<Rightarrow> small_heap \<times> kernel \<Rightarrow> ((small_heap \<times> kernel) \<times> client_block option) option" where
  "heap_alloc q = (\<lambda>(h, k).
     do { (h', k', r) \<leftarrow> rt_malloc q h k;
          Some ((h', k'), case r of Heap_Done (Some p) \<Rightarrow> Some (p, q) | _ \<Rightarrow> None) })"

definition heap_give_back :: "client_block \<Rightarrow> small_heap \<times> kernel \<Rightarrow> (small_heap \<times> kernel) option" where
  "heap_give_back b = (\<lambda>(h, k). do { (h', k', r) \<leftarrow> rt_free (fst b) h k; Some (h', k') })"

text \<open>The blocks in use are those the clients hold, each at least as long as it was asked for.\<close>

definition heap_holds :: "small_heap \<times> kernel \<Rightarrow> client_block set \<Rightarrow> bool" where
  "heap_holds = (\<lambda>(h, k) B. heap_ready h k \<and> (\<exists>bs l. heap_inv h bs l \<and> lowest bs l \<and> inj_on fst B \<and>
     (\<lambda>b. unat (fst b)) ` B = fst ` data h bs \<and> (\<forall>b \<in> B. \<forall>n. (unat (fst b), n) \<in> data h bs \<longrightarrow> unat (snd b) \<le> n)))"

lemma data_fst_unique:
  assumes "heap_rep h bs l" and "(a, n) \<in> data h bs" and "(a, m) \<in> data h bs"
  shows "n = m"
  using data_apart [OF assms] by fastforce

lemma fst_image_remove: "(\<And>m. (a, m) \<in> S \<Longrightarrow> m = n) \<Longrightarrow> fst ` (S - {(a, n)}) = fst ` S - {a}"
  by force

interpretation hpp: block_pool heap_holds "\<lambda>b c. heap_region b \<inter> heap_region c = {}" "\<lambda>q. 0 < q \<and> q \<le> 0xfffffffc"
  heap_alloc heap_give_back
proof unfold_locales
  fix s B q
  assume hd: "heap_holds s B" and q: "0 < q \<and> q \<le> (0xfffffffc :: u32)"
  obtain h k bs l where s: "s = (h, k)" and rd: "heap_ready h k" and i: "heap_inv h bs l" "lowest bs l"
    and B: "inj_on fst B" "(\<lambda>b. unat (fst b)) ` B = fst ` data h bs"
      "\<forall>b \<in> B. \<forall>n. (unat (fst b), n) \<in> data h bs \<longrightarrow> unat (snd b) \<le> n"
    using hd by (auto simp: heap_holds_def)
  have rep: "heap_rep h bs l" using i(1) by (simp add: heap_inv_def)
  obtain h' p where m: "rt_malloc q h k = Some (h', k, Heap_Done p)" "heap_ready h' k" "malloc_post (data_size q) h bs l h' p"
    using malloc_at_post [OF i(1) rd, of q In_Malloc] q by (auto simp: returns_iff rt_malloc_def)
  show "returns (heap_alloc q s) (\<lambda>(s', r). case r of None \<Rightarrow> heap_holds s' B
      | Some b \<Rightarrow> b \<notin> B \<and> heap_holds s' (insert b B))"
  proof (cases p)
    case None
    then show ?thesis using m hd by (simp add: heap_alloc_def s malloc_post_def)
  next
    case (Some a)
    obtain bs' l' n where e: "heap_inv h' bs' l'" "lowest bs l \<longrightarrow> lowest bs' l'" "data_size q \<le> n" "n < data_size q + 24"
      "4 dvd unat a" "data h' bs' = insert (unat a, n) (data h bs)" "same_heap h h'" "(unat a, n) \<in> data h' bs'"
      and new: "unat a \<notin> fst ` data h bs"
      using malloc_post_data [OF m(3) [unfolded Some] rep] by blast
    have out: "fst b \<noteq> a" if "b \<in> B" for b
    proof
      assume "fst b = a"
      then have "unat a \<in> (\<lambda>b. unat (fst b)) ` B" using that by blast
      then show False using new unfolding B(2) by simp
    qed
    have uq: "n' = n" if "(unat a, n') \<in> data h' bs'" for n'
      using data_fst_unique [of h' bs' l', OF _ that e(8)] e(1) by (simp add: heap_inv_def)
    have img: "(\<lambda>b. unat (fst b)) ` insert (a, q) B = fst ` data h' bs'" by (simp add: e(6) B(2))
    have inj: "inj_on fst (insert (a, q) B)" using B(1) out by (auto simp: inj_on_def)
    have qn: "unat q \<le> n" using data_size(3) [of q] q e(3) by simp
    have len: "unat (snd b) \<le> m" if "b \<in> insert (a, q) B" "(unat (fst b), m) \<in> data h' bs'" for b m
    proof (cases "b = (a, q)")
      case True
      then show ?thesis using uq [of m] that(2) qn by simp
    next
      case False
      then have "b \<in> B" "fst b \<noteq> a" using that(1) out by auto
      then have "unat (fst b) \<noteq> unat a" by (metis word_unat_eq_iff)
      then have "(unat (fst b), m) \<in> data h bs" using that(2) by (simp add: e(6))
      then show ?thesis using B(3) \<open>b \<in> B\<close> by blast
    qed
    have "heap_holds (h', k) (insert (a, q) B)"
      unfolding heap_holds_def prod.case
      by (intro conjI exI [of _ bs'] exI [of _ l'] m(2) e(1) inj img) (use e(2) i(2) len in auto)
    moreover have "(a, q) \<notin> B" using out by force
    ultimately show ?thesis using m Some by (simp add: heap_alloc_def s)
  qed
next
  fix s B b
  assume hd: "heap_holds s B" and b: "b \<in> B"
  obtain h k bs l where s: "s = (h, k)" and rd: "heap_ready h k" and i: "heap_inv h bs l" "lowest bs l"
    and B: "inj_on fst B" "(\<lambda>b. unat (fst b)) ` B = fst ` data h bs"
      "\<forall>b \<in> B. \<forall>n. (unat (fst b), n) \<in> data h bs \<longrightarrow> unat (snd b) \<le> n"
    using hd by (auto simp: heap_holds_def)
  have rep: "heap_rep h bs l" using i(1) by (simp add: heap_inv_def)
  have "unat (fst b) \<in> fst ` data h bs" using b unfolding B(2) [symmetric] by (rule imageI)
  then obtain n where n: "(unat (fst b), n) \<in> data h bs" by force
  obtain h' where f: "rt_free (fst b) h k = Some (h', k, Heap_Done None)" "heap_ready h' k" "free_post h bs l (unat (fst b), n) h'"
    using free_at_post [OF i(1) rd n, of "In_Free (fst b)" None] by (auto simp: returns_iff rt_free_def)
  obtain bs' l' where e: "heap_inv h' bs' l'" "data h' bs' = data h bs - {(unat (fst b), n)}" "lowest bs' l'"
    using f(3) i(2) by (auto simp: free_post_def)
  have "(\<lambda>b. unat (fst b)) ` (B - {b}) = (\<lambda>b. unat (fst b)) ` B - {unat (fst b)}"
    using B(1) b by (auto simp: inj_on_def simp flip: word_unat_eq_iff)
  moreover have "fst ` (data h bs - {(unat (fst b), n)}) = fst ` data h bs - {unat (fst b)}"
    by (rule fst_image_remove) (rule data_fst_unique [OF rep _ n])
  ultimately have img: "(\<lambda>b. unat (fst b)) ` (B - {b}) = fst ` data h' bs'" by (simp add: e(2) B(2))
  have "heap_holds (h', k) (B - {b})"
    unfolding heap_holds_def prod.case using f(2) e(1,3) img B(1,3)
    by (intro conjI exI [of _ bs'] exI [of _ l']) (auto simp: e(2) intro: inj_on_diff)
  then show "returns (heap_give_back b s) (\<lambda>s'. heap_holds s' (B - {b}))"
    using f(1) by (simp add: heap_give_back_def s)
next
  fix s B b c
  assume hd: "heap_holds s B" and b: "b \<in> B" "c \<in> B" "b \<noteq> c"
  obtain h k bs l where rep: "heap_rep h bs l"
    and B: "inj_on fst B" "(\<lambda>b. unat (fst b)) ` B = fst ` data h bs"
      "\<forall>b \<in> B. \<forall>n. (unat (fst b), n) \<in> data h bs \<longrightarrow> unat (snd b) \<le> n"
    using hd by (auto simp: heap_holds_def heap_inv_def)
  have "unat (fst b) \<in> fst ` data h bs" "unat (fst c) \<in> fst ` data h bs"
    using b(1,2) unfolding B(2) [symmetric] by blast+
  then obtain n m where n: "(unat (fst b), n) \<in> data h bs" "(unat (fst c), m) \<in> data h bs" by force
  have "fst b \<noteq> fst c" using B(1) b by (auto simp: inj_on_def)
  then have "unat (fst b) \<noteq> unat (fst c)" by (metis word_unat_eq_iff)
  then have "unat (fst b) + n + 12 \<le> unat (fst c) \<or> unat (fst c) + m + 12 \<le> unat (fst b)"
    using data_apart [OF rep n] by blast
  moreover have "unat (snd b) \<le> n" "unat (snd c) \<le> m" using B(3) b(1,2) n by blast+
  ultimately show "heap_region b \<inter> heap_region c = {}" by (auto simp: heap_region_def)
qed

end
