(* ===== verification/RT_HeapCalls.thy ===== *)
theory RT_HeapCalls
  imports RT_HeapOps RT_Example
begin

text \<open>
  The theorems about the heap's calls: what a client gets from \<^verbatim>\<open>rt_malloc\<close>, \<^verbatim>\<open>rt_calloc\<close>, \<^verbatim>\<open>rt_realloc\<close>
  and \<^verbatim>\<open>rt_free\<close>, that blocks never overlap, and where the code does not do what it means to.
\<close>

section \<open>Allocation and release\<close>

text \<open>
  C26. \<^verbatim>\<open>rt_malloc\<close> of a size that does not overflow when it is rounded up: a pointer it returns is
  aligned and new, the block behind it lies inside the heap, is at least as long as asked for and at
  most 26 bytes longer (12 bytes for sizes below 12), and nothing else changes; \<^verbatim>\<open>RT_NULL\<close> comes back only when no free block from
  \<^verbatim>\<open>lfree\<close> on is long enough, or only the last one and only just, and then the heap is as before.
\<close>

theorem malloc_correct:
  assumes "heap_inv h bs l" and "heap_ready h k" and "0 < q" and "q \<le> 0xfffffffc"
  shows "returns (rt_malloc q h k) (\<lambda>(h', k', r). k' = k \<and> heap_ready h' k \<and> same_heap h h' \<and>
    (case r of
       Heap_Waits _ \<Rightarrow> False
     | Heap_Done None \<Rightarrow> h' = h \<and> (\<forall>us n vs. bs = us @ (n, False) # vs \<and> l \<le> total us \<longrightarrow>
         n < data_size q + 12 \<or> vs = [] \<and> n = data_size q + 12)
     | Heap_Done (Some p) \<Rightarrow> (\<exists>bs' l' n. heap_inv h' bs' l' \<and> (lowest bs l \<longrightarrow> lowest bs' l') \<and>
         unat q \<le> n \<and> n < data_size q + 24 \<and> 4 dvd unat p \<and> data h' bs' = insert (unat p, n) (data h bs) \<and>
         unat p \<notin> fst ` data h bs \<and> unat (hp_ptr h) + 12 \<le> unat p \<and>
         unat p + n \<le> unat (hp_ptr h) + unat (mem_size_aligned h) + 12)))"
proof -
  have rep: "heap_rep h bs l" using assms(1) by (simp add: heap_inv_def)
  obtain h' p where m: "rt_malloc q h k = Some (h', k, Heap_Done p)" "heap_ready h' k" "malloc_post (data_size q) h bs l h' p"
    using malloc_at_post [OF assms(1-3), of In_Malloc] by (auto simp: returns_iff rt_malloc_def)
  show ?thesis
  proof (cases p)
    case None
    then show ?thesis using m by (auto simp: malloc_post_def)
  next
    case (Some a)
    obtain bs' l' n where e: "heap_inv h' bs' l'" "lowest bs l \<longrightarrow> lowest bs' l'" "data_size q \<le> n" "n < data_size q + 24"
      "4 dvd unat a" "data h' bs' = insert (unat a, n) (data h bs)" "same_heap h h'" "(unat a, n) \<in> data h' bs'"
      "unat a \<notin> fst ` data h bs"
      using malloc_post_data [OF m(3) [unfolded Some] rep] by blast
    have "unat (hp_ptr h') + 12 \<le> unat a \<and> unat a + n \<le> unat (hp_ptr h') + unat (mem_size_aligned h') + 12"
      using data_in_heap [OF _ e(8), of l'] e(1) by (simp add: heap_inv_def)
    then have "unat (hp_ptr h) + 12 \<le> unat a" "unat a + n \<le> unat (hp_ptr h) + unat (mem_size_aligned h) + 12"
      using e(7) by (simp_all add: same_heap_def)
    moreover have "unat q \<le> n" using data_size(3) [OF assms(4)] e(3) by simp
    ultimately show ?thesis using m e Some by auto
  qed
qed

text \<open>
  C27. \<^verbatim>\<open>rt_free\<close> of a block that is in use: exactly this block is no longer in use, no two free blocks
  touch, the count of used bytes has dropped by the block with its header, and, if no free block lay in front of
  \<^verbatim>\<open>lfree\<close>, none does afterwards.
\<close>

theorem free_correct:
  assumes "heap_inv h bs l" and "heap_ready h k" and "(unat p, n) \<in> data h bs"
  shows "returns (rt_free p h k) (\<lambda>(h', k', r). k' = k \<and> heap_ready h' k \<and> r = Heap_Done None \<and> same_heap h h' \<and>
    used_mem h' = used_mem h - of_nat (n + 12) \<and>
    (\<exists>bs' l'. heap_inv h' bs' l' \<and> data h' bs' = data h bs - {(unat p, n)} \<and> (lowest bs l \<longrightarrow> lowest bs' l')))"
proof -
  obtain h' where f: "rt_free p h k = Some (h', k, Heap_Done None)" "heap_ready h' k" "free_post h bs l (unat p, n) h'"
    using free_at_post [OF assms, of "In_Free p" None] by (auto simp: returns_iff rt_free_def)
  obtain bs' l' where e: "heap_inv h' bs' l'" "data h' bs' = data h bs - {(unat p, n)}" "in_use bs' + n + 12 = in_use bs"
    "lowest bs l \<longrightarrow> lowest bs' l'" and sm: "same_heap h h'"
    using f(3) by (auto simp: free_post_def)
  have "used_mem h' = of_nat (in_use bs')" "used_mem h = of_nat (in_use bs' + (n + 12))"
    using heap_rep_words(5) e(1) assms(1) e(3) by (auto simp: heap_inv_def add.assoc)
  then have "used_mem h' = used_mem h - of_nat (n + 12)" by (simp add: of_nat_add)
  then show ?thesis using f e sm by auto
qed

text \<open>
  C25. After any sequence of allocations of any sizes from 1 byte on and of releases of blocks that are
  held, the blocks held are all different and the bytes the clients asked for do not overlap.
\<close>

theorem heap_never_overlaps:
  assumes "heap_holds s {}" and "\<forall>q. Alloc q \<in> set ops \<longrightarrow> 0 < q \<and> q \<le> 0xfffffffc"
  shows "returns (pool_run heap_alloc heap_give_back ops s []) (\<lambda>(s', held). distinct held \<and>
    (\<forall>b \<in> set held. \<forall>c \<in> set held. b \<noteq> c \<longrightarrow> heap_region b \<inter> heap_region c = {}))"
  by (rule hpp.run_apart [OF assms])

section \<open>Allocation of zeroed memory\<close>

text \<open>\<^verbatim>\<open>rt_calloc\<close>, when the product does not wrap around.\<close>

theorem calloc_correct:
  assumes i: "heap_inv h bs l" and rd: "heap_ready h k" and c: "0 < cnt * sz" "cnt * sz \<le> 0xfffffffc"
  shows "returns (rt_calloc cnt sz h k) (\<lambda>(h', k', r). k' = k \<and> heap_ready h' k \<and>
    (case r of
       Heap_Waits _ \<Rightarrow> False
     | Heap_Done None \<Rightarrow> h' = h
     | Heap_Done (Some p) \<Rightarrow> (\<exists>bs' l' n. heap_inv h' bs' l' \<and> unat (cnt * sz) \<le> n \<and>
         data h' bs' = insert (unat p, n) (data h bs) \<and> unat p \<notin> fst ` data h bs \<and>
         (\<forall>i < unat (cnt * sz). hp_bytes h' (p + of_nat i) = 0))))"
proof -
  have rep: "heap_rep h bs l" using i by (simp add: heap_inv_def)
  have nest: "not_in_interrupt k = Some ()" using rd by (simp add: heap_ready_def not_in_interrupt_def)
  obtain h' p where m: "malloc_at (In_Calloc (cnt * sz)) (cnt * sz) h k = Some (h', k, Heap_Done p)" "heap_ready h' k"
    "malloc_post (data_size (cnt * sz)) h bs l h' p"
    using malloc_at_post [OF i rd c(1), of "In_Calloc (cnt * sz)"] by (auto simp: returns_iff)
  show ?thesis
  proof (cases p)
    case None
    then show ?thesis using m by (simp add: malloc_post_def rt_calloc_def nest calloc_end_def)
  next
    case (Some a)
    obtain bs' l' n where e: "heap_inv h' bs' l'" "data_size (cnt * sz) \<le> n"
      "data h' bs' = insert (unat a, n) (data h bs)" "unat a \<notin> fst ` data h bs"
      by (rule malloc_post_data [OF m(3) [unfolded Some] rep])
    let ?h = "h'\<lparr>hp_bytes := set_bytes a (unat (cnt * sz)) 0 (hp_bytes h')\<rparr>"
    have "set_bytes a (unat (cnt * sz)) 0 B (a + of_nat i) = 0" if "i < unat (cnt * sz)" for i B
      using that unat_u32 [of "cnt * sz"] by (simp add: set_bytes_def)
    moreover have "heap_inv ?h bs' l'" "data ?h bs' = data h' bs'" "heap_ready ?h k"
      using e(1) m(2) by (simp_all add: heap_inv_def data_def heap_ready_def)
    moreover have "unat (cnt * sz) \<le> n" using data_size(3) [OF c(2)] e(2) by simp
    ultimately have "(\<exists>bs' l' n. heap_inv ?h bs' l' \<and> unat (cnt * sz) \<le> n \<and> data ?h bs' = insert (unat a, n) (data h bs) \<and>
        unat a \<notin> fst ` data h bs \<and> (\<forall>i < unat (cnt * sz). hp_bytes ?h (a + of_nat i) = 0)) \<and> heap_ready ?h k"
      by (intro conjI exI [of _ bs'] exI [of _ l'] exI [of _ n] conjI allI impI; simp add: e(3,4))+
    then show ?thesis using m(1) Some by (simp add: rt_calloc_def nest calloc_end_def)
  qed
qed

section \<open>Resizing a block\<close>








section \<open>Setting up\<close>

text \<open>\<^verbatim>\<open>rt_system_heap_init\<close> with room for a block of 12 bytes: one free block, nobody inside.\<close>

theorem heap_init_correct:
  assumes b: "unat b + 3 < 4294967296" and room: "unat (RT_ALIGN b 4) + 36 \<le> unat (RT_ALIGN_DOWN e 4)"
    and k: "rt_interrupt_nest k = 0" and h: "used_mem h = 0"
  shows "returns (rt_system_heap_init ob s b e h k) (\<lambda>(h', k'). heap_holds (h', k') {} \<and>
    hp_ptr h' = RT_ALIGN b 4 \<and> unat (hp_ptr h') + unat (mem_size_aligned h') + 24 = unat (RT_ALIGN_DOWN e 4))"
proof -
  let ?b = "RT_ALIGN b 4" and ?e = "RT_ALIGN_DOWN e 4"
  let ?m = "?e - ?b - 24"
  have eb: "unat ?e < 4294967296" by (rule unat_u32)
  have e24: "unat (?e - 24) = unat ?e - 24" using room by (subst unat_sub) (auto simp: word_le_nat_alt)
  have cond: "24 < ?e" "?b \<le> ?e - 24" using room e24 by (simp_all add: word_less_nat_alt word_le_nat_alt)
  have "?m = (?e - 24) - ?b" by simp
  then have m: "unat ?m = unat ?e - 24 - unat ?b" using cond(2) e24 by (simp only: unat_sub)
  have "4 dvd unat ?e" "4 dvd unat ?b" by (simp_all add: unat_align_down align_dvd)
  then have m4: "4 dvd unat ?m + 12" using m by (simp add: dvd_diff_nat)
  obtain j where j: "unat ?m = j" by simp
  have mj: "?m = of_nat j" unfolding j [symmetric] by simp
  have jb: "12 \<le> j" "unat ?b + j + 24 = unat ?e" using m j room by simp_all
  let ?n = "of_nat (j + 12) :: u32"
  have n0: "?n \<noteq> 0" using jb eb by (simp add: off_eq [of _ 0, simplified])
  let ?h = "h\<lparr>mem_size_aligned := of_nat j, hp_ptr := ?b, hp_end := ?n,
      hp_hdr := (hp_hdr h)(0 := \<lparr>hm_magic = HEAP_MAGIC, hm_used = 0, hm_next = ?n, hm_prev = 0\<rparr>,
        ?n := \<lparr>hm_magic = HEAP_MAGIC, hm_used = 1, hm_next = ?n, hm_prev = ?n\<rparr>),
      heap_sem := fst (rt_sem_init ob s ''heap'' 1 RT_IPC_FLAG_FIFO k), hp_lfree := 0\<rparr>"
  let ?k = "fst (snd (rt_sem_init ob s ''heap'' 1 RT_IPC_FLAG_FIFO k))"
  have n: "of_nat j + 12 = ?n" by (simp add: of_nat_add)
  have run: "rt_system_heap_init ob s b e h k = Some (?h, ?k)"
    using k cond by (simp add: rt_system_heap_init_def not_in_interrupt_def mj n upd_hdr_def rt_sem_init_def Let_def)
  have total: "total [(j + 12, False)] = j + 12" by simp
  have "heap_rep ?h [(j + 12, False)] 0"
    unfolding heap_rep_def using n0 jb eb m4 j h \<open>4 dvd unat ?b\<close> by (simp add: header_ok_def)
  then have "heap_inv ?h [(j + 12, False)] 0" using jb eb by (simp add: heap_inv_def)
  moreover have "heap_ready ?h ?k"
    using k by (simp add: heap_ready_def rt_sem_init_def rt_ipc_object_init_def rt_object_init_def)
  ultimately have "heap_holds (?h, ?k) {}"
    unfolding heap_holds_def prod.case
    by (intro conjI exI [of _ "[(j + 12, False)]"] exI [of _ 0]) (auto simp: lowest_def data_def)
  then show ?thesis using run jb eb by simp
qed

section \<open>Where the code does not do what it means to\<close>

text \<open>
  When the only free block is the last one and just long enough, \<^verbatim>\<open>rt_malloc\<close> answers
  \<^verbatim>\<open>RT_NULL\<close>: its loop stops in front of it.
\<close>

theorem malloc_wastes_last:
  assumes i: "heap_inv h (us @ [(data_size q + 12, False)]) l" and rd: "heap_ready h k" and q: "0 < q"
    and only: "\<forall>b \<in> set us. snd b"
  shows "rt_malloc q h k = Some (h, k, Heap_Done None)"
proof -
  obtain h' p where m: "rt_malloc q h k = Some (h', k, Heap_Done p)"
    "malloc_post (data_size q) h (us @ [(data_size q + 12, False)]) l h' p"
    using malloc_at_post [OF i rd q, of In_Malloc] by (auto simp: returns_iff rt_malloc_def)
  have last: "ws = [] \<and> n = data_size q + 12" if "us @ [(data_size q + 12, False)] = vs @ (n, False) # ws" for vs n ws
  proof (cases ws rule: rev_cases)
    case (snoc ws' b)
    then have "us = vs @ (n, False) # ws'" using that by (simp flip: append_assoc append_Cons)
    then show ?thesis using only by auto
  qed (use that in auto)
  show ?thesis
  proof (cases p)
    case None
    then show ?thesis using m by (simp add: malloc_post_def)
  next
    case (Some a)
    then show ?thesis using m(2) last by (auto simp: malloc_post_def)
  qed
qed

text \<open>
  A size above \<^verbatim>\<open>0xfffffffc\<close> becomes zero when it is rounded up, and \<^verbatim>\<open>rt_malloc\<close> may return a block of
  fewer than 36 bytes for it.
\<close>

theorem malloc_overflows:
  assumes i: "heap_inv h bs l" and rd: "heap_ready h k" and q: "0xfffffffc < q"
  shows "returns (rt_malloc q h k) (\<lambda>(h', k', r). case r of
      Heap_Waits _ \<Rightarrow> False
    | Heap_Done None \<Rightarrow> h' = h \<and> (\<forall>us n vs. bs = us @ (n, False) # vs \<and> l \<le> total us \<longrightarrow> n < 24 \<or> vs = [] \<and> n = 24)
    | Heap_Done (Some p) \<Rightarrow> (\<exists>bs' l' n. heap_inv h' bs' l' \<and> data h' bs' = insert (unat p, n) (data h bs) \<and> n < 36))"
proof -
  have d: "data_size q = 12" using align_wraps [OF q] by (simp add: data_size_def)
  have rep: "heap_rep h bs l" using i by (simp add: heap_inv_def)
  have "0 < q" using q by (rule le_less_trans [OF word_zero_le])
  then obtain h' p where m: "rt_malloc q h k = Some (h', k, Heap_Done p)" "malloc_post 12 h bs l h' p"
    using malloc_at_post [OF i rd, of q In_Malloc] d by (auto simp: returns_iff rt_malloc_def)
  show ?thesis
  proof (cases p)
    case None
    then show ?thesis using m by (auto simp: malloc_post_def)
  next
    case (Some a)
    obtain bs' l' n where "heap_inv h' bs' l'" "n < 12 + 24" "data h' bs' = insert (unat a, n) (data h bs)"
      by (rule malloc_post_data [OF m(2) [unfolded Some] rep])
    then show ?thesis using m(1) Some by auto
  qed
qed

section \<open>The hypotheses hold on concrete heaps\<close>

text \<open>
  A heap of 1000 bytes, from address \<^verbatim>\<open>0x20001000\<close> on; in \<open>ex_heap\<close> it is all free, in \<open>ex_heap_used n\<close> the
  first \<open>n\<close> bytes are a block in use.
\<close>

definition ex_heap :: small_heap where
  "ex_heap = \<lparr>hp_ptr = 0x20001000,
     hp_hdr = (\<lambda>_. \<lparr>hm_magic = HEAP_MAGIC, hm_used = 1, hm_next = 1012, hm_prev = 1012\<rparr>)
       (0 := \<lparr>hm_magic = HEAP_MAGIC, hm_used = 0, hm_next = 1012, hm_prev = 0\<rparr>),
     hp_bytes = (\<lambda>_. 0xaa), hp_end = 1012, hp_lfree = 0, mem_size_aligned = 1000, used_mem = 0, max_mem = 0,
     heap_sem = \<lparr>ipc_obj = Obj_Semaphore 9, ipc_flag = RT_IPC_FLAG_FIFO, suspend_thread = 9, sem_value = 1\<rparr>\<rparr>"

definition ex_heap_used :: "nat \<Rightarrow> small_heap" where
  "ex_heap_used n = ex_heap\<lparr>
     hp_hdr := (hp_hdr ex_heap)
       (0 := \<lparr>hm_magic = HEAP_MAGIC, hm_used = 1, hm_next = of_nat n, hm_prev = 0\<rparr>,
        of_nat n := \<lparr>hm_magic = 0, hm_used = 0, hm_next = 1012, hm_prev = 0\<rparr>),
     hp_lfree := of_nat n, used_mem := of_nat n, max_mem := of_nat n\<rparr>"

lemma ex_heap_inv: "heap_inv ex_heap [(1012, False)] 0"
  by (simp add: heap_inv_def heap_rep_def ex_heap_def header_ok_def)

lemma ex_heap_used_inv:
  "heap_inv (ex_heap_used 112) [(112, True), (900, False)] 112"
  "heap_inv (ex_heap_used 988) [(988, True), (24, False)] 988"
  by (simp_all add: heap_inv_def heap_rep_def ex_heap_used_def ex_heap_def header_ok_def)

lemma ex_heap_ready: "heap_ready ex_heap ex_run" "heap_ready (ex_heap_used n) ex_run"
  by (simp_all add: heap_ready_def ex_heap_def ex_heap_used_def)

lemma ex_heap_data: "data (ex_heap_used n) [(112, True), (900, False)] = {(0x2000100c, 100)}"
  by (simp add: data_def ex_heap_used_def ex_heap_def)

lemma ex_size [simp]: "data_size 5 = 12" "data_size 12 = 12"
  by (simp_all add: data_size_def unat_align)

lemma malloc_correct_witness:
  "returns (rt_malloc 5 ex_heap ex_run) (\<lambda>(h', k', r). heap_ready h' ex_run \<and> same_heap ex_heap h')"
  by (rule returns_mono [OF malloc_correct [OF ex_heap_inv ex_heap_ready(1)]]) auto

lemma free_correct_witness:
  "returns (rt_free 0x2000100c (ex_heap_used 112) ex_run) (\<lambda>(h', k', r). \<exists>bs' l'. heap_inv h' bs' l' \<and> data h' bs' = {})"
  by (rule returns_mono [OF free_correct [OF ex_heap_used_inv(1) ex_heap_ready(2), where p = "0x2000100c" and n = 100]])
    (auto simp: ex_heap_data)

lemma heap_never_overlaps_witness:
  "returns (pool_run heap_alloc heap_give_back [Alloc 5, Alloc 12, Free 1, Alloc 5] (ex_heap, ex_run) [])
     (\<lambda>(s', held). distinct held)"
proof -
  have "heap_holds (ex_heap, ex_run) {}"
    unfolding heap_holds_def prod.case
    by (intro conjI exI [of _ "[(1012, False)]"] exI [of _ 0])
      (auto simp: ex_heap_ready ex_heap_inv lowest_def data_def)
  from heap_never_overlaps [OF this, of "[Alloc 5, Alloc 12, Free 1, Alloc 5]"] show ?thesis
    by (auto elim!: returns_mono)
qed


lemma malloc_wastes_last_witness:
  "rt_malloc 12 (ex_heap_used 988) ex_run = Some (ex_heap_used 988, ex_run, Heap_Done None)"
  by (rule malloc_wastes_last [of _ "[(988, True)]"]) (use ex_heap_used_inv(2) ex_heap_ready in simp_all)

lemma malloc_overflows_witness:
  "returns (rt_malloc 0xfffffffe ex_heap ex_run) (\<lambda>(h', k', r).
    case r of Heap_Done _ \<Rightarrow> True | Heap_Waits _ \<Rightarrow> False)"
  by (rule returns_mono [OF malloc_overflows [OF ex_heap_inv ex_heap_ready(1)]])
    (auto split: heap_outcome.splits)

lemma heap_init_correct_witness:
  "returns (rt_system_heap_init (Obj_Semaphore 9) 9 0x20001001 0x20005003 (ex_heap\<lparr>used_mem := 0\<rparr>) ex_run) (\<lambda>s. heap_holds s {})"
  by (rule returns_mono [OF heap_init_correct]) (auto simp: unat_align unat_align_down)

lemma calloc_correct_witness:
  "returns (rt_calloc 3 4 ex_heap ex_run) (\<lambda>(h', k', r). heap_ready h' ex_run)"
  by (rule returns_mono [OF calloc_correct [OF ex_heap_inv ex_heap_ready(1)]]) auto

end
