(* ===== verification/RT_Kprintf.thy ===== *)
theory RT_Kprintf
  imports RT_Prelude "HOL-Library.Char_ord"
begin

text \<open>
  Formatted printing, src/kservice.c: \<^verbatim>\<open>print_number\<close>, \<^verbatim>\<open>rt_vsnprintf\<close> and the routines over it, up to
  \<^verbatim>\<open>rt_kprintf\<close>. The configuration leaves the precision, the \<^verbatim>\<open>long long\<close> and the \<^verbatim>\<open>#\<close> options of the
  formatter out. The buffer is the list of its bytes; \<open>str\<close> and \<open>end\<close> are offsets into it, and writing
  behind the list is \<^const>\<open>None\<close>, as is an argument of the wrong kind or too few of them.
\<close>

section \<open>Characters into the buffer\<close>

text \<open>An argument: a number, or a string, which may be RT_NULL.\<close>

datatype print_arg = Arg_int u32 | Arg_str "string option"

type_synonym print_buf = "string \<times> nat"

definition put_char :: "nat \<Rightarrow> char \<Rightarrow> print_buf \<Rightarrow> print_buf option" where
  "put_char e c = (\<lambda>(b, p).
     if p \<le> e then (if p < length b then Some (b[p := c], p + 1) else None) else Some (b, p + 1))"

primrec put_chars :: "nat \<Rightarrow> string \<Rightarrow> print_buf \<Rightarrow> print_buf option" where
  "put_chars e [] st = Some st"
| "put_chars e (c # cs) st = do { st \<leftarrow> put_char e c st; put_chars e cs st }"

definition pad :: "nat \<Rightarrow> char \<Rightarrow> int \<Rightarrow> print_buf \<Rightarrow> print_buf option" where
  "pad e c n st = put_chars e (replicate (nat n) c) st"

text \<open>The counter of a loop \<^verbatim>\<open>while (n-- > 0)\<close> after the loop.\<close>

definition run_down :: "int \<Rightarrow> int" where "run_down n = min n 0 - 1"

section \<open>Numbers\<close>

definition ZEROPAD :: u8 where "ZEROPAD = 1"
definition SIGN :: u8 where "SIGN = 2"
definition PLUS :: u8 where "PLUS = 4"
definition SPACE :: u8 where "SPACE = 8"
definition LEFT :: u8 where "LEFT = 16"
definition SPECIAL :: u8 where "SPECIAL = 32"
definition LARGE :: u8 where "LARGE = 64"

lemmas print_flags = ZEROPAD_def SIGN_def PLUS_def SPACE_def LEFT_def SPECIAL_def LARGE_def

text \<open>A digit and what is left of the number.\<close>

definition divide :: "u32 \<Rightarrow> u32 \<Rightarrow> u32 \<times> u32" where
  "divide n base = (if base = 10 then (n mod 10, n div 10) else (n mod 16, n div 16))"

definition small_digits :: string where "small_digits = ''0123456789abcdef''"
definition large_digits :: string where "large_digits = ''0123456789ABCDEF''"

lemma unat_div_less: "n \<noteq> 0 \<Longrightarrow> unat (n div 10) < unat (n :: u32)" "n \<noteq> 0 \<Longrightarrow> unat (n div 16) < unat (n :: u32)"
  by (simp_all add: unat_div word_unat_eq_iff)

text \<open>The digits of a number, the last one first.\<close>

function number_digits :: "string \<Rightarrow> u32 \<Rightarrow> u32 \<Rightarrow> string" where
  "number_digits ds base n =
     (if n = 0 then [] else case divide n base of (r, n) \<Rightarrow> ds ! unat r # number_digits ds base n)"
  by pat_completeness auto

termination
  by (relation "measure (\<lambda>(ds, base, n). unat n)") (auto simp: divide_def unat_div_less split: if_splits)

declare number_digits.simps [simp del]

text \<open>The sign and the number to print without it.\<close>

definition number_sign :: "u32 \<Rightarrow> u8 \<Rightarrow> char option \<times> u32" where
  "number_sign num ty =
     (if ty AND SIGN \<noteq> 0 then
        (if sint num < 0 then (Some (CHR ''-''), - num)
         else if ty AND PLUS \<noteq> 0 then (Some (CHR ''+''), num)
         else if ty AND SPACE \<noteq> 0 then (Some (CHR '' ''), num) else (None, num))
      else (None, num))"

definition print_number :: "nat \<Rightarrow> u32 \<Rightarrow> u32 \<Rightarrow> int \<Rightarrow> u8 \<Rightarrow> print_buf \<Rightarrow> print_buf option" where
  "print_number e num base s ty st =
     (let digits = (if ty AND LARGE \<noteq> 0 then large_digits else small_digits);
          ty = (if ty AND LEFT \<noteq> 0 then ty AND NOT ZEROPAD else ty);
          c = (if ty AND ZEROPAD \<noteq> 0 then CHR ''0'' else CHR '' '');
          (sign, num) = number_sign num ty;
          tmp = (if num = 0 then ''0'' else number_digits digits base num);
          size = s - int (length tmp) in
      do { (st, size) \<leftarrow>
             (if ty AND (ZEROPAD OR LEFT) = 0 then
                let size = (if sign \<noteq> None \<and> 0 < size then size - 1 else size) in
                do { st \<leftarrow> pad e (CHR '' '') size st; Some (st, run_down size) }
              else Some (st, size));
           (st, size) \<leftarrow>
             (case sign of
                None \<Rightarrow> Some (st, size)
              | Some g \<Rightarrow> do { st' \<leftarrow> put_char e g st; Some (st', if snd st \<le> e then size - 1 else size) });
           (st, size) \<leftarrow>
             (if ty AND LEFT = 0 then do { st \<leftarrow> pad e c size st; Some (st, run_down size) } else Some (st, size));
           st \<leftarrow> put_chars e (rev tmp) st;
           pad e (CHR '' '') size st })"

section \<open>Conversions\<close>

definition flag_of :: "char \<Rightarrow> u8 option" where
  "flag_of = map_of [(CHR ''-'', LEFT), (CHR ''+'', PLUS), (CHR '' '', SPACE), (CHR ''#'', SPECIAL), (CHR ''0'', ZEROPAD)]"

fun parse_flags :: "string \<Rightarrow> u8 \<Rightarrow> string \<times> u8" where
  "parse_flags [] f = ([], f)"
| "parse_flags (c # cs) f = (case flag_of c of Some g \<Rightarrow> parse_flags cs (f OR g) | None \<Rightarrow> (c # cs, f))"

definition isdigit :: "char \<Rightarrow> bool" where "isdigit c \<longleftrightarrow> 48 \<le> (of_char c :: nat) \<and> (of_char c :: nat) < 58"

fun skip_atoi :: "string \<Rightarrow> int \<Rightarrow> int \<times> string" where
  "skip_atoi [] i = (i, [])"
| "skip_atoi (c # cs) i = (if isdigit c then skip_atoi cs (i * 10 + (of_char c - 48)) else (i, c # cs))"

text \<open>The field width; a width that does not fit an \<^verbatim>\<open>int\<close> is \<^const>\<open>None\<close>.\<close>

definition parse_width :: "string \<Rightarrow> u8 \<Rightarrow> print_arg list \<Rightarrow> (string \<times> int \<times> u8 \<times> print_arg list) option" where
  "parse_width cs f args =
     (case cs of
        [] \<Rightarrow> Some ([], - 1, f, args)
      | c # cs' \<Rightarrow>
          if isdigit c then
            (case skip_atoi cs 0 of (w, cs) \<Rightarrow> do { rt_assert (w < 2 ^ 31); Some (cs, w, f, args) })
          else if c = CHR ''*'' then
            (case args of
               Arg_int a # args \<Rightarrow>
                 do { rt_assert (- (2 ^ 31) < sint a);
                      Some (cs', \<bar>sint a\<bar>, if sint a < 0 then f OR LEFT else f, args) }
             | _ \<Rightarrow> None)
          else Some (cs, - 1, f, args))"

definition parse_qualifier :: "string \<Rightarrow> string \<times> char option" where
  "parse_qualifier cs =
     (case cs of
        c # cs' \<Rightarrow> (if c = CHR ''h'' \<or> c = CHR ''l'' then (cs', Some c) else (cs, None))
      | [] \<Rightarrow> ([], None))"

text \<open>The number an integer conversion prints: a half word with the qualifier h.\<close>

definition number_arg :: "char option \<Rightarrow> u8 \<Rightarrow> u32 \<Rightarrow> u32" where
  "number_arg q f a =
     (if q = Some (CHR ''h'') then (if f AND SIGN \<noteq> 0 then scast (ucast a :: u16) else ucast (ucast a :: u16)) else a)"

definition print_char :: "nat \<Rightarrow> u8 \<Rightarrow> int \<Rightarrow> u32 \<Rightarrow> print_buf \<Rightarrow> print_buf option" where
  "print_char e f w a st =
     do { (st, w) \<leftarrow> (if f AND LEFT = 0 then do { st \<leftarrow> pad e (CHR '' '') (w - 1) st; Some (st, min (w - 1) 0) } else Some (st, w));
          st \<leftarrow> put_char e (char_of (unat a)) st;
          pad e (CHR '' '') (w - 1) st }"

definition print_string :: "nat \<Rightarrow> u8 \<Rightarrow> int \<Rightarrow> string option \<Rightarrow> print_buf \<Rightarrow> print_buf option" where
  "print_string e f w a st =
     (let s = (case a of Some s \<Rightarrow> s | None \<Rightarrow> ''(NULL)''); len = int (length s) in
      do { (st, w) \<leftarrow> (if f AND LEFT = 0 then do { st \<leftarrow> pad e (CHR '' '') (w - len) st; Some (st, min w len - 1) } else Some (st, w));
           st \<leftarrow> put_chars e s st;
           pad e (CHR '' '') (w - len) st })"

text \<open>The conversions of integers: their base, and the flags they add.\<close>

definition integer_conversion :: "char \<Rightarrow> (u32 \<times> u8) option" where
  "integer_conversion = map_of
     [(CHR ''o'', 8, 0), (CHR ''X'', 16, LARGE), (CHR ''x'', 16, 0), (CHR ''d'', 10, SIGN), (CHR ''i'', 10, SIGN), (CHR ''u'', 10, 0)]"

definition convert :: "nat \<Rightarrow> char \<Rightarrow> u8 \<Rightarrow> int \<Rightarrow> char option \<Rightarrow> print_arg list \<Rightarrow> print_buf \<Rightarrow> (print_arg list \<times> print_buf) option" where
  "convert e k f w q args st =
     (if k = CHR ''c'' then
        (case args of Arg_int a # args \<Rightarrow> do { st \<leftarrow> print_char e f w a st; Some (args, st) } | _ \<Rightarrow> None)
      else if k = CHR ''s'' then
        (case args of Arg_str a # args \<Rightarrow> do { st \<leftarrow> print_string e f w a st; Some (args, st) } | _ \<Rightarrow> None)
      else if k = CHR ''p'' then
        (case args of
           Arg_int a # args \<Rightarrow>
             do { st \<leftarrow> (if w = - 1 then print_number e a 16 8 (f OR ZEROPAD) st else print_number e a 16 w f st);
                  Some (args, st) }
         | _ \<Rightarrow> None)
      else if k = CHR 0x25 then do { st \<leftarrow> put_char e k st; Some (args, st) }
      else
        (case integer_conversion k of
           Some (base, g) \<Rightarrow>
             (case args of
                Arg_int a # args \<Rightarrow>
                  do { st \<leftarrow> print_number e (number_arg q (f OR g) a) base w (f OR g) st; Some (args, st) }
              | _ \<Rightarrow> None)
         | None \<Rightarrow> do { st \<leftarrow> put_char e (CHR 0x25) st; st \<leftarrow> put_char e k st; Some (args, st) }))"

lemma parse_flags_length: "parse_flags cs f = (cs', f') \<Longrightarrow> length cs' \<le> length cs"
  by (induct cs f rule: parse_flags.induct) (auto split: option.splits)

lemma skip_atoi_length: "skip_atoi cs i = (w, cs') \<Longrightarrow> length cs' \<le> length cs"
  by (induct cs i rule: skip_atoi.induct) (auto split: if_splits)

lemma parse_width_length: "parse_width cs f args = Some (cs', w, f', args') \<Longrightarrow> length cs' \<le> length cs"
  by (auto simp: parse_width_def Option.bind_eq_Some_conv split: list.splits if_splits prod.splits print_arg.splits
      dest!: skip_atoi_length)

lemma parse_qualifier_length: "parse_qualifier cs = (cs', q) \<Longrightarrow> length cs' \<le> length cs"
  by (auto simp: parse_qualifier_def split: list.splits if_splits)

text \<open>What stands between the \<^verbatim>\<open>%\<close> and the character of the conversion.\<close>

definition parse_spec :: "string \<Rightarrow> print_arg list \<Rightarrow> (string \<times> u8 \<times> int \<times> char option \<times> print_arg list) option" where
  "parse_spec cs args =
     (case parse_flags cs 0 of (cs, f) \<Rightarrow>
        do { (cs, w, f, args) \<leftarrow> parse_width cs f args;
             case parse_qualifier cs of (cs, q) \<Rightarrow> Some (cs, f, w, q, args) })"

lemma parse_spec_length: "parse_spec cs args = Some (cs', r) \<Longrightarrow> length cs' \<le> length cs"
proof -
  assume "parse_spec cs args = Some (cs', r)"
  then obtain w f1 args1 cs1 where w: "parse_width (fst (parse_flags cs 0)) (snd (parse_flags cs 0)) args = Some (cs1, w, f1, args1)"
    and q: "cs' = fst (parse_qualifier cs1)"
    by (auto simp: parse_spec_def case_prod_unfold Option.bind_eq_Some_conv)
  have "length cs' \<le> length cs1" using q parse_qualifier_length [of cs1] by (cases "parse_qualifier cs1") auto
  also have "\<dots> \<le> length (fst (parse_flags cs 0))" by (rule parse_width_length [OF w])
  also have "\<dots> \<le> length cs" using parse_flags_length [of cs 0] by (cases "parse_flags cs 0") auto
  finally show ?thesis .
qed

function vsnprintf_loop :: "nat \<Rightarrow> string \<Rightarrow> print_arg list \<Rightarrow> print_buf \<Rightarrow> print_buf option" where
  "vsnprintf_loop e [] args st = Some st"
| "vsnprintf_loop e (c # cs) args st =
     (if c \<noteq> CHR 0x25 then do { st \<leftarrow> put_char e c st; vsnprintf_loop e cs args st }
      else case parse_spec cs args of
        None \<Rightarrow> None
      | Some (cs, f, w, q, args) \<Rightarrow>
          (case cs of
             [] \<Rightarrow> put_char e (CHR 0x25) st
           | k # cs \<Rightarrow> do { (args, st) \<leftarrow> convert e k f w q args st; vsnprintf_loop e cs args st }))"
  by pat_completeness auto
termination
  by (relation "measure (\<lambda>(e, cs, args, st). length cs)") (auto dest!: parse_spec_length)

text \<open>
  \<open>a\<close> is the address of the buffer. A size of 0, or one that wraps around the address space, makes the
  end the last address there is.
\<close>

definition rt_vsnprintf :: "u32 \<Rightarrow> string \<Rightarrow> u32 \<Rightarrow> string \<Rightarrow> print_arg list \<Rightarrow> (string \<times> u32) option" where
  "rt_vsnprintf a b sz fmt args =
     (let e = a + sz - 1; e = unat ((if e < a then 0xffffffff else e) - a) in
      do { (b, p) \<leftarrow> vsnprintf_loop e fmt args (b, 0);
           let q = min p e;
           rt_assert (q < length b);
           Some (b[q := CHR 0x00], of_nat p) })"

definition rt_snprintf :: "u32 \<Rightarrow> string \<Rightarrow> u32 \<Rightarrow> string \<Rightarrow> print_arg list \<Rightarrow> (string \<times> u32) option" where
  "rt_snprintf a b sz fmt args = rt_vsnprintf a b sz fmt args"

definition rt_vsprintf :: "u32 \<Rightarrow> string \<Rightarrow> string \<Rightarrow> print_arg list \<Rightarrow> (string \<times> u32) option" where
  "rt_vsprintf a b fmt args = rt_vsnprintf a b (- 1) fmt args"

definition rt_sprintf :: "u32 \<Rightarrow> string \<Rightarrow> string \<Rightarrow> print_arg list \<Rightarrow> (string \<times> u32) option" where
  "rt_sprintf a b fmt args = rt_vsprintf a b fmt args"

section \<open>The console\<close>

definition RT_CONSOLEBUF_SIZE :: nat where "RT_CONSOLEBUF_SIZE = 128"

text \<open>The buffer of rt_kprintf with its address, and what has been written to the console device.\<close>

record console =
  rt_log_buf :: string
  rt_log_buf_at :: u32
  console_output :: string

definition rt_kprintf :: "string \<Rightarrow> print_arg list \<Rightarrow> console \<Rightarrow> console option" where
  "rt_kprintf fmt args c =
     do { (b, n) \<leftarrow> rt_vsnprintf (rt_log_buf_at c) (rt_log_buf c) (of_nat (RT_CONSOLEBUF_SIZE - 1)) fmt args;
          let n = min (unat n) (RT_CONSOLEBUF_SIZE - 1);
          Some (c\<lparr>rt_log_buf := b, console_output := console_output c @ take n b\<rparr>) }"


section \<open>Writing never leaves the buffer\<close>

text \<open>
  What the routines do to a buffer of at least \<open>e + 1\<close> bytes when they write the text \<open>x\<close>: the part of
  it that fits replaces what was there.
\<close>

primrec written :: "nat \<Rightarrow> string \<Rightarrow> print_buf \<Rightarrow> print_buf" where
  "written e [] st = st"
| "written e (c # cs) st = written e cs (if snd st \<le> e then (fst st)[snd st := c] else fst st, snd st + 1)"

lemma written_simps [simp]:
  "length (fst (written e x st)) = length (fst st)" "snd (written e x st) = snd st + length x"
  "drop (Suc e) (fst (written e x st)) = drop (Suc e) (fst st)" "written e y (written e x st) = written e (x @ y) st"
  by (induct x arbitrary: st) simp_all

lemma written_fits:
  "p + length x \<le> Suc e \<Longrightarrow> e < length b \<Longrightarrow> written e x (b, p) = (take p b @ x @ drop (p + length x) b, p + length x)"
proof (induct x arbitrary: b p)
  case (Cons c x)
  then have "take (Suc p) (b[p := c]) = take p b @ [c]" by (simp add: take_Suc_conv_app_nth take_update_cancel)
  then show ?case using Cons by simp
qed simp

lemma put_char_written: "e < length (fst st) \<Longrightarrow> put_char e c st = Some (written e [c] st)"
  by (cases st) (simp add: put_char_def)

lemma put_chars_written: "e < length (fst st) \<Longrightarrow> put_chars e cs st = Some (written e cs st)"
  by (induct cs arbitrary: st) (simp_all add: put_char_written)

lemma pad_written: "e < length (fst st) \<Longrightarrow> pad e c n st = Some (written e (replicate (nat n) c) st)"
  by (simp add: pad_def put_chars_written)


section \<open>What is meant to be printed\<close>

text \<open>A number in base \<open>b\<close>, the sign, and the field it is put in.\<close>

fun numeral_text :: "string \<Rightarrow> nat \<Rightarrow> nat \<Rightarrow> string" where
  "numeral_text ds b n = (if n < b \<or> b < 2 then [ds ! n] else numeral_text ds b (n div b) @ [ds ! (n mod b)])"

declare numeral_text.simps [simp del]

definition sign_text :: "u8 \<Rightarrow> int \<Rightarrow> string" where
  "sign_text f v =
     (if v < 0 then ''-'' else if f AND PLUS \<noteq> 0 then ''+'' else if f AND SPACE \<noteq> 0 then '' '' else '''')"

definition field :: "u8 \<Rightarrow> int \<Rightarrow> string \<Rightarrow> string \<Rightarrow> string" where
  "field f w g x =
     (let n = nat (w - int (length g) - int (length x)) in
      if f AND LEFT \<noteq> 0 then g @ x @ replicate n (CHR '' '')
      else if f AND ZEROPAD \<noteq> 0 then g @ replicate n (CHR ''0'') @ x
      else replicate n (CHR '' '') @ g @ x)"

definition number_text :: "u32 \<Rightarrow> u32 \<Rightarrow> int \<Rightarrow> u8 \<Rightarrow> string" where
  "number_text num base w f =
     (let ds = (if f AND LARGE \<noteq> 0 then large_digits else small_digits); b = (if base = 10 then 10 else 16) in
      if f AND SIGN \<noteq> 0 then field f w (sign_text f (sint num)) (numeral_text ds b (nat \<bar>sint num\<bar>))
      else field f w '''' (numeral_text ds b (unat num)))"

lemma divide_unat:
  "divide n base = (r, m) \<Longrightarrow> unat r = unat n mod (if base = 10 then 10 else 16) \<and> unat m = unat n div (if base = 10 then 10 else 16)"
  by (auto simp: divide_def unat_mod unat_div)

lemma number_digits_text:
  "n \<noteq> 0 \<Longrightarrow> rev (number_digits ds base n) = numeral_text ds (if base = 10 then 10 else 16) (unat n)"
proof (induct ds base n rule: number_digits.induct)
  case (1 ds base n)
  obtain b where b: "b = (if base = 10 then 10 else 16 :: nat)" "1 < b" by auto
  obtain r m where d: "divide n base = (r, m)" by (cases "divide n base")
  have u: "unat r = unat n mod b" "unat m = unat n div b" using divide_unat [OF d] b(1) by simp_all
  have n: "number_digits ds base n = ds ! unat r # number_digits ds base m"
    using 1(2) d by (simp add: number_digits.simps [of ds base n])
  have "rev (number_digits ds base n) = numeral_text ds b (unat n)"
  proof (cases "m = 0")
    case True
    then have "unat n < b" using u(2) b(2) by (simp add: div_eq_0_iff)
    then show ?thesis using n True u(1) by (simp add: number_digits.simps [of ds base 0] numeral_text.simps [of ds b "unat n"])
  next
    case False
    then have "unat n div b \<noteq> 0" unfolding u(2) [symmetric] by (simp add: word_unat_eq_iff)
    then have "\<not> unat n < b" by auto
    moreover have "rev (number_digits ds base m) = numeral_text ds b (unat m)"
      using 1(1) [OF 1(2) d [symmetric] False] b(1) by simp
    ultimately show ?thesis using n u b(2) by (simp add: numeral_text.simps [of ds b "unat n"])
  qed
  then show ?case using b(1) by simp
qed


lemma number_digits_pos: "n \<noteq> 0 \<Longrightarrow> number_digits ds base n \<noteq> []"
  by (simp add: number_digits.simps [of ds base n] split: prod.splits)

text \<open>The digits to print: the code's temporary buffer is read backwards.\<close>

lemma tmp_text:
  "rev (if n = 0 then ''0'' else number_digits (if L then large_digits else small_digits) base n)
     = numeral_text (if L then large_digits else small_digits) (if base = 10 then 10 else 16) (unat n)"
  using number_digits_text [of n "if L then large_digits else small_digits" base]
  by (auto simp: numeral_text.simps [of _ _ 0] large_digits_def small_digits_def)

lemma sint_range: "- (2 ^ 31) \<le> sint (n :: u32)" "sint n < 2 ^ 31"
  using sint_greater_eq [of n] sint_less [of n] by simp_all

lemma unat_neg: "sint (n :: u32) < 0 \<Longrightarrow> unat (- n) = nat (- sint n)"
proof -
  assume n: "sint n < 0"
  have "uint (word_of_int (- sint n) :: u32) = - sint n mod 2 ^ 32" by (simp only: uint_word_of_int_eq take_bit_eq_mod) simp
  also have "\<dots> = - sint n" using n sint_range(1) [of n] by (intro mod_pos_pos_trivial) auto
  finally show ?thesis by (simp add: unat_eq_nat_uint)
qed

lemma unat_nonneg: "0 \<le> sint (n :: u32) \<Longrightarrow> unat n = nat (sint n)"
proof -
  assume n: "0 \<le> sint n"
  have "uint (word_of_int (sint n) :: u32) = sint n mod 2 ^ 32" by (simp only: uint_word_of_int_eq take_bit_eq_mod) simp
  also have "\<dots> = sint n" using n sint_range(2) [of n] by (intro mod_pos_pos_trivial) auto
  finally show ?thesis by (simp add: unat_eq_nat_uint)
qed


text \<open>
  A number is printed as it is meant to be, where its sign is not cut off by the end of the buffer; if it
  is, the field comes out one character too wide.
\<close>

lemma sign_number:
  "number_sign num ty = (g, n) \<Longrightarrow>
     (case g of None \<Rightarrow> '''' | Some c \<Rightarrow> [c]) = (if ty AND SIGN \<noteq> 0 then sign_text ty (sint num) else '''')
     \<and> unat n = (if ty AND SIGN \<noteq> 0 then nat \<bar>sint num\<bar> else unat num)"
  by (auto simp: number_sign_def sign_text_def unat_neg unat_nonneg split: if_splits)

text \<open>
  What is written for the text \<open>t\<close> with \<open>m\<close> bytes left: it agrees with \<open>t\<close> as far as the buffer goes, and
  only behind the end of the buffer it may be longer.
\<close>

definition agrees :: "nat \<Rightarrow> string \<Rightarrow> string \<Rightarrow> bool" where
  "agrees m x t \<longleftrightarrow> take m x = take m t \<and> length t \<le> length x \<and> length x \<le> 2 * length t \<and> (length t \<le> m \<longrightarrow> x = t)"

lemma agrees_refl [simp, intro]: "agrees m x x"
  by (simp add: agrees_def)

lemma agrees_append: "agrees m x t \<Longrightarrow> agrees (m - length x) y u \<Longrightarrow> agrees m (x @ y) (t @ u)"
  by (cases "length t \<le> m") (auto simp: agrees_def)

lemma sign_step:
  "e < length (fst st) \<Longrightarrow>
   (case g of
      None \<Rightarrow> Some (st, n)
    | Some c \<Rightarrow> do { st' \<leftarrow> put_char e c st; Some (st', if snd st \<le> e then n - 1 else n) })
   = Some (written e (case g of None \<Rightarrow> '''' | Some c \<Rightarrow> [c]) st, if g \<noteq> None \<and> snd st \<le> e then n - 1 else n)"
  by (cases g) (simp_all add: put_char_written)

text \<open>A number is printed as it is meant to be; a field whose sign falls behind the end is one character longer.\<close>

lemma print_number_written:
  assumes e: "e < length (fst st)"
  shows "\<exists>x. print_number e num base s ty st = Some (written e x st)
    \<and> agrees (Suc e - snd st) x (number_text num base s ty)"
proof -
  define ty' where "ty' = (if ty AND LEFT \<noteq> 0 then ty AND NOT ZEROPAD else ty)"
  have ty': "ty' AND SIGN = ty AND SIGN" "ty' AND LEFT = ty AND LEFT"
    "ty' AND PLUS = ty AND PLUS" "ty' AND SPACE = ty AND SPACE"
    by (simp_all add: ty'_def print_flags and.assoc)
  have zl: "ty' AND (ZEROPAD OR LEFT) = 0 \<longleftrightarrow> ty' AND ZEROPAD = 0 \<and> ty AND LEFT = 0"
    unfolding bit.conj_disj_distrib or_eq_0_iff ty'(2) by simp
  have z: "ty' AND ZEROPAD = (if ty AND LEFT \<noteq> 0 then 0 else ty AND ZEROPAD)"
    by (simp add: ty'_def print_flags and.assoc)
  obtain g n where gn: "number_sign num ty' = (g, n)" by (cases "number_sign num ty'")
  define ds where "ds = (if ty AND LARGE \<noteq> 0 then large_digits else small_digits)"
  define sg where "sg = (case g of None \<Rightarrow> '''' | Some c \<Rightarrow> [c])"
  define tmp where "tmp = (if n = 0 then ''0'' else number_digits ds base n)"
  have sg: "sg = (if ty AND SIGN \<noteq> 0 then sign_text ty (sint num) else '''')"
    "unat n = (if ty AND SIGN \<noteq> 0 then nat \<bar>sint num\<bar> else unat num)"
    using sign_number [OF gn] by (simp_all add: sg_def ty' sign_text_def)
  have "rev tmp = numeral_text ds (if base = 10 then 10 else 16) (unat n)"
    unfolding tmp_def ds_def by (rule tmp_text)
  then have T: "number_text num base s ty = field ty s sg (rev tmp)"
    by (auto simp: number_text_def Let_def ds_def [symmetric] sg)
  have lsg: "length sg = (if g = None then 0 else 1)" by (simp add: sg_def split: option.splits)
  show ?thesis
  proof (cases "ty' AND ZEROPAD = 0 \<and> ty AND LEFT = 0")
    case True
    then show ?thesis
      unfolding T print_number_def ty'_def [symmetric] ds_def [symmetric] Let_def gn prod.case tmp_def [symmetric] zl
      using e z lsg
      by (auto simp: pad_written put_chars_written sign_step sg_def [symmetric] ty' run_down_def field_def
          algebra_simps)
  next
    case False
    then show ?thesis
      unfolding T print_number_def ty'_def [symmetric] ds_def [symmetric] Let_def gn prod.case tmp_def [symmetric] zl
      using e z lsg
      by (auto simp: pad_written put_chars_written sign_step sg_def [symmetric] ty' run_down_def field_def
          algebra_simps agrees_def)
  qed
qed


text \<open>The text of a character and of a string.\<close>

definition char_text :: "u8 \<Rightarrow> int \<Rightarrow> u32 \<Rightarrow> string" where
  "char_text f w a =
     (let n = nat (w - 1); c = char_of (unat a) in
      if f AND LEFT \<noteq> 0 then c # replicate n (CHR '' '') else replicate n (CHR '' '') @ [c])"

definition string_text :: "u8 \<Rightarrow> int \<Rightarrow> string option \<Rightarrow> string" where
  "string_text f w a =
     (let s = (case a of Some s \<Rightarrow> s | None \<Rightarrow> ''(NULL)''); n = nat (w - int (length s)) in
      if f AND LEFT \<noteq> 0 then s @ replicate n (CHR '' '') else replicate n (CHR '' '') @ s)"

lemma print_char_written: "e < length (fst st) \<Longrightarrow> print_char e f w a st = Some (written e (char_text f w a) st)"
  by (simp add: print_char_def char_text_def pad_written put_char_written Let_def)

lemma print_string_written: "e < length (fst st) \<Longrightarrow> print_string e f w a st = Some (written e (string_text f w a) st)"
  by (simp add: print_string_def string_text_def pad_written put_chars_written Let_def)

text \<open>The text of a conversion and of a format, whatever the buffer.\<close>

definition conversion_text :: "char \<Rightarrow> u8 \<Rightarrow> int \<Rightarrow> char option \<Rightarrow> print_arg list \<Rightarrow> (print_arg list \<times> string) option" where
  "conversion_text k f w q args =
     (if k = CHR ''c'' then (case args of Arg_int a # args \<Rightarrow> Some (args, char_text f w a) | _ \<Rightarrow> None)
      else if k = CHR ''s'' then (case args of Arg_str a # args \<Rightarrow> Some (args, string_text f w a) | _ \<Rightarrow> None)
      else if k = CHR ''p'' then
        (case args of
           Arg_int a # args \<Rightarrow>
             Some (args, if w = - 1 then number_text a 16 8 (f OR ZEROPAD) else number_text a 16 w f)
         | _ \<Rightarrow> None)
      else if k = CHR 0x25 then Some (args, [k])
      else
        (case integer_conversion k of
           Some (base, g) \<Rightarrow>
             (case args of
                Arg_int a # args \<Rightarrow> Some (args, number_text (number_arg q (f OR g) a) base w (f OR g))
              | _ \<Rightarrow> None)
         | None \<Rightarrow> Some (args, [CHR 0x25, k])))"

function format_text :: "string \<Rightarrow> print_arg list \<Rightarrow> string option" where
  "format_text [] args = Some ''''"
| "format_text (c # cs) args =
     (if c \<noteq> CHR 0x25 then map_option ((#) c) (format_text cs args)
      else case parse_spec cs args of
        None \<Rightarrow> None
      | Some (cs, f, w, q, args) \<Rightarrow>
          (case cs of
             [] \<Rightarrow> Some [CHR 0x25]
           | k # cs \<Rightarrow> do { (args, t) \<leftarrow> conversion_text k f w q args; u \<leftarrow> format_text cs args; Some (t @ u) }))"
  by pat_completeness auto
termination
  by (relation "measure (\<lambda>(cs, args). length cs)") (auto dest!: parse_spec_length)

text \<open>The bytes left from a position on; the text that is written there.\<close>

abbreviation writes :: "nat \<Rightarrow> print_buf \<Rightarrow> print_buf option \<Rightarrow> string \<Rightarrow> bool" where
  "writes e st r t \<equiv> \<exists>x. r = Some (written e x st) \<and> agrees (Suc e - snd st) x t"

lemma args_cases:
  obtains "args = []" | s as where "args = Arg_str s # as" | a as where "args = Arg_int a # as"
  by (metis list.exhaust print_arg.exhaust)

lemma convert_written:
  assumes e: "e < length (fst st)"
  shows "case conversion_text k f w q args of
      None \<Rightarrow> convert e k f w q args st = None
    | Some (args', t) \<Rightarrow> \<exists>x. convert e k f w q args st = Some (args', written e x st) \<and> agrees (Suc e - snd st) x t"
proof -
  have p: "\<exists>x. do { st \<leftarrow> print_number e a base s ty st; Some (args', st) } = Some (args', written e x st)
      \<and> agrees (Suc e - snd st) x (number_text a base s ty)" for a base s ty args'
    using print_number_written [OF e, of a base s ty] by auto
  note [simp] = convert_def conversion_text_def
  consider "k = CHR ''c''" | "k = CHR ''s''" | "k = CHR ''p''" | "k = CHR 0x25"
    | "k \<noteq> CHR ''c''" "k \<noteq> CHR ''s''" "k \<noteq> CHR ''p''" "k \<noteq> CHR 0x25" by blast
  then show ?thesis
  proof cases
    case 1
    then show ?thesis using e by (cases args rule: args_cases) (auto simp: print_char_written)
  next
    case 2
    then show ?thesis using e by (cases args rule: args_cases) (auto simp: print_string_written)
  next
    case 3
    show ?thesis
    proof (cases args rule: args_cases)
      case (3 a as)
      then show ?thesis using p [of a 16 8 "f OR ZEROPAD" as] p [of a 16 w f as] \<open>k = CHR ''p''\<close> by simp
    qed (use 3 in simp_all)
  next
    case 4
    then show ?thesis using e
      by (auto simp: put_char_written simp del: written.simps intro!: exI [of _ "[k]"])
  next
    case 5
    show ?thesis
    proof (cases "integer_conversion k")
      case None
      then show ?thesis using e 5
        by (auto simp: put_char_written simp del: written.simps intro!: exI [of _ "[CHR 0x25, k]"])
    next
      case (Some r)
      obtain base g where r: "r = (base, g)" by (cases r)
      show ?thesis
      proof (cases args rule: args_cases)
        case (3 a as)
        then show ?thesis using p [of "number_arg q (f OR g) a" base w "f OR g" as] 5 Some r by simp
      qed (use 5 Some r in simp_all)
    qed
  qed
qed

lemma loop_written:
  "e < length (fst st) \<Longrightarrow>
     (case format_text fmt args of
        None \<Rightarrow> vsnprintf_loop e fmt args st = None
      | Some t \<Rightarrow> writes e st (vsnprintf_loop e fmt args st) t)"
proof (induct fmt args arbitrary: st rule: format_text.induct)
  case (1 args)
  then show ?case by (auto intro!: exI [of _ "''''"])
next
  case (2 c cs args)
  show ?case
  proof (cases "c = CHR 0x25")
    case False
    have e: "e < length (fst (written e [c] st))" using 2(3) by simp
    have run: "vsnprintf_loop e (c # cs) args st = vsnprintf_loop e cs args (written e [c] st)"
      using False put_char_written [OF 2(3)] by simp
    show ?thesis
    proof (cases "format_text cs args")
      case None
      then show ?thesis using 2(1) [OF False e] False run by simp
    next
      case (Some t)
      then obtain x where x: "vsnprintf_loop e cs args (written e [c] st) = Some (written e x (written e [c] st))"
        "agrees (Suc e - Suc (snd st)) x t"
        using 2(1) [OF False e] by auto
      have "agrees (Suc e - snd st) ([c] @ x) ([c] @ t)" using x(2) by (intro agrees_append) auto
      then show ?thesis using Some False run x(1) by (auto simp del: written.simps)
    qed
  next
    case True
    show ?thesis
    proof (cases "parse_spec cs args")
      case None
      then show ?thesis using True by simp
    next
      case (Some r)
      obtain cs1 f w q args1 where r: "r = (cs1, f, w, q, args1)" by (cases r) auto
      show ?thesis
      proof (cases cs1)
        case Nil
        then show ?thesis using True Some r 2(3)
          by (auto simp: put_char_written simp del: written.simps intro!: exI [of _ "''%''"])
      next
        case (Cons k cs2)
        note c = convert_written [OF 2(3), of k f w q args1]
        show ?thesis
        proof (cases "conversion_text k f w q args1")
          case None
          then show ?thesis using True Some r Cons c by simp
        next
          case conv: (Some p)
          obtain args2 t where p: "p = (args2, t)" by (cases p)
          obtain x where x: "convert e k f w q args1 st = Some (args2, written e x st)" "agrees (Suc e - snd st) x t"
            using c conv p by auto
          have e: "e < length (fst (written e x st))" using 2(3) by simp
          have run: "vsnprintf_loop e (c # cs) args st = vsnprintf_loop e cs2 args2 (written e x st)"
            using True Some r Cons x(1) by simp
          have IH: "case format_text cs2 args2 of
              None \<Rightarrow> vsnprintf_loop e cs2 args2 (written e x st) = None
            | Some t \<Rightarrow> writes e (written e x st) (vsnprintf_loop e cs2 args2 (written e x st)) t"
            by (rule 2(2) [OF _ Some r [symmetric] refl refl refl Cons conv p [symmetric] e]) (simp add: True)
          show ?thesis
          proof (cases "format_text cs2 args2")
            case None
            then show ?thesis using IH True Some r Cons conv p run by simp
          next
            case rest: (Some u)
            then obtain y where y: "vsnprintf_loop e cs2 args2 (written e x st) = Some (written e y (written e x st))"
              "agrees (Suc e - snd st - length x) y u" using IH by auto
            have "agrees (Suc e - snd st) (x @ y) (t @ u)" by (rule agrees_append [OF x(2) y(2)])
            then show ?thesis using rest True Some r Cons conv p run y(1) by auto
          qed
        qed
      qed
    qed
  qed
qed


section \<open>The buffer and the console\<close>

text \<open>A text in the buffer: what fits of it, and a NUL behind it.\<close>

definition buffer_text :: "nat \<Rightarrow> string \<Rightarrow> string \<Rightarrow> string" where
  "buffer_text e t b = take e t @ CHR 0x00 # drop (Suc (min (length t) e)) b"

lemma written_nth: "k \<le> e \<Longrightarrow> e < length b \<Longrightarrow> p \<le> k \<Longrightarrow> k < p + length x \<Longrightarrow> fst (written e x (b, p)) ! k = x ! (k - p)"
proof (induct x arbitrary: b p)
  case (Cons c x)
  have keep: "k < p \<Longrightarrow> k < length b \<Longrightarrow> fst (written e y (b, p)) ! k = b ! k" for y k p and b :: string
    by (induct y arbitrary: b p) auto
  show ?case using Cons keep [of k "Suc p" "b[p := c]" x] by (cases "k = p") (auto simp: nth_Cons')
qed simp

lemma written_keep: "k < length b \<Longrightarrow> k < p \<or> e < k \<or> p + length x \<le> k \<Longrightarrow> fst (written e x (b, p)) ! k = b ! k"
  by (induct x arbitrary: b p) (auto simp: nth_list_update)

lemma overlay_nth: "length xs = n \<Longrightarrow> n < i \<Longrightarrow> i < length b \<Longrightarrow> (xs @ c # drop (Suc n) b) ! i = b ! i"
  by (simp add: nth_append nth_Cons')

lemma written_buffer:
  assumes e: "e < length b" and x: "agrees (Suc e) x t"
  shows "(fst (written e x (b, 0)))[min (length x) e := CHR 0x00] = buffer_text e t b"
proof (rule nth_equalityI)
  have l: "min (length x) e = min (length t) e" using x by (auto simp: agrees_def)
  show "length ((fst (written e x (b, 0)))[min (length x) e := CHR 0x00]) = length (buffer_text e t b)"
    using e by (simp add: buffer_text_def min_def)
  fix i assume "i < length ((fst (written e x (b, 0)))[min (length x) e := CHR 0x00])"
  then have i: "i < length b" by simp
  have same: "i < length t \<Longrightarrow> i \<le> e \<Longrightarrow> x ! i = t ! i"
    using x by (metis agrees_def less_Suc_eq_le nth_take)
  have keep: "length t \<le> i \<Longrightarrow> i \<le> e \<Longrightarrow> fst (written e x (b, 0)) ! i = b ! i"
    using x i by (intro written_keep) (auto simp: agrees_def)
  consider "i < min (length t) e" | "i = min (length t) e" | "min (length t) e < i" by linarith
  then show "(fst (written e x (b, 0)))[min (length x) e := CHR 0x00] ! i = buffer_text e t b ! i"
  proof cases
    case 1
    then have "fst (written e x (b, 0)) ! i = x ! i"
      using e l by (subst written_nth) auto
    moreover have "i \<noteq> min (length x) e" using 1 l by linarith
    ultimately show ?thesis using 1 same by (simp add: buffer_text_def nth_append)
  next
    case 2
    then show ?thesis using i l e by (simp add: buffer_text_def nth_append)
  next
    case 3
    have "fst (written e x (b, 0)) ! i = b ! i"
      using 3 keep i written_keep [of i b 0 e x] by (cases "e < i") (auto simp: min_def split: if_splits)
    moreover have "buffer_text e t b ! i = b ! i"
      unfolding buffer_text_def by (rule overlay_nth) (use 3 i in auto)
    ultimately show ?thesis using 3 l by simp
  qed
qed

text \<open>
  In a buffer of at least one byte nothing behind it is written, the text is cut off so that the NUL fits,
  and a text that fits is counted.
\<close>

lemma vsnprintf_text:
  assumes sz: "1 \<le> sz" "unat sz \<le> length b" "unat a + unat sz \<le> 2 ^ 32" and t: "format_text fmt args = Some t"
  shows "\<exists>n. rt_vsnprintf a b sz fmt args = Some (buffer_text (unat sz - 1) t b, of_nat n)
    \<and> length t \<le> n \<and> n \<le> 2 * length t \<and> (length t \<le> unat sz \<longrightarrow> n = length t)"
proof -
  define e where "e = unat sz - 1"
  have s1: "unat sz = Suc e" using sz(1) by (simp add: e_def word_le_nat_alt)
  have "a + sz - 1 = a + (sz - 1)" by simp
  moreover have u: "unat (sz - 1) = e" using sz(1) by (simp add: e_def unat_sub)
  moreover have "unat (a + (sz - 1)) = unat a + unat (sz - 1)"
    by (rule unat_add_lem [THEN iffD1]) (use sz(3) s1 u in simp)
  ultimately have ue: "unat (a + sz - 1) = unat a + e" using u by (simp only:)
  then have "\<not> a + sz - 1 < a" by (simp add: word_less_nat_alt)
  moreover have "unat (a + sz - 1 - a) = e" using u by simp
  ultimately have run: "rt_vsnprintf a b sz fmt args =
      do { (b, p) \<leftarrow> vsnprintf_loop e fmt args (b, 0);
           rt_assert (min p e < length b); Some (b[min p e := CHR 0x00], of_nat p) }"
    unfolding rt_vsnprintf_def Let_def by simp
  have e: "e < length b" using sz(2) s1 by simp
  then obtain x where x: "vsnprintf_loop e fmt args (b, 0) = Some (written e x (b, 0))" "agrees (Suc e) x t"
    using loop_written [of e "(b, 0)" fmt args] t by auto
  obtain b' where b': "written e x (b, 0) = (b', length x)" "length b' = length b"
    by (metis add_0 fst_conv prod.collapse snd_conv written_simps(1,2))
  have "b'[min (length x) e := CHR 0x00] = buffer_text e t b" using written_buffer [OF e x(2)] b'(1) by simp
  then show ?thesis using run x b' e s1 by (auto simp: agrees_def e_def [symmetric] rt_assert_def intro!: exI [of _ "length x"])
qed

text \<open>What the console shows: 126 characters of a longer text, and a NUL.\<close>

lemma kprintf_text:
  assumes t: "format_text fmt args = Some t" "2 * length t < 2 ^ 32"
    and c: "length (rt_log_buf c) = RT_CONSOLEBUF_SIZE" "unat (rt_log_buf_at c) + RT_CONSOLEBUF_SIZE \<le> 2 ^ 32"
  shows "rt_kprintf fmt args c = Some (c\<lparr>rt_log_buf := buffer_text 126 t (rt_log_buf c),
    console_output := console_output c @ (if length t \<le> 126 then t else take 126 t @ [CHR 0x00])\<rparr>)"
proof -
  have u: "unat (of_nat (RT_CONSOLEBUF_SIZE - 1) :: u32) = 127" by (simp add: RT_CONSOLEBUF_SIZE_def)
  obtain n where n: "rt_vsnprintf (rt_log_buf_at c) (rt_log_buf c) (of_nat (RT_CONSOLEBUF_SIZE - 1)) fmt args
      = Some (buffer_text 126 t (rt_log_buf c), of_nat n)"
    "length t \<le> n" "n \<le> 2 * length t" "length t \<le> 127 \<longrightarrow> n = length t"
    using vsnprintf_text [of "of_nat (RT_CONSOLEBUF_SIZE - 1)" "rt_log_buf c" "rt_log_buf_at c" fmt args t] t(1) c
    unfolding u by (auto simp: RT_CONSOLEBUF_SIZE_def word_le_nat_alt)
  have "unat (of_nat n :: u32) = n" using n(3) t(2) by (simp add: unat_of_nat)
  moreover have "take (min n 127) (buffer_text 126 t (rt_log_buf c)) = (if length t \<le> 126 then t else take 126 t @ [CHR 0x00])"
    using n(2,4) c(1)
    by (auto simp: buffer_text_def min_def RT_CONSOLEBUF_SIZE_def intro: le_antisym split: if_splits)
      (simp add: take_Cons')?
  ultimately show ?thesis unfolding rt_kprintf_def n(1) by (simp add: RT_CONSOLEBUF_SIZE_def)
qed


section \<open>Results\<close>

text \<open>C31. Formatted output of at least one byte: the buffer holds the text of the format, cut off so that a NUL fits
  behind it, and no byte behind the text or behind the given size is written; the result is the length of
  the text if it fits, and at least that length otherwise.\<close>

theorem vsnprintf_correct:
  assumes "1 \<le> sz" "unat sz \<le> length b" "unat a + unat sz \<le> 2 ^ 32" "format_text fmt args = Some t"
  shows "\<exists>n. rt_vsnprintf a b sz fmt args
      = Some (take (unat sz - 1) t @ CHR 0x00 # drop (Suc (min (length t) (unat sz - 1))) b, of_nat n)
    \<and> length t \<le> n \<and> n \<le> 2 * length t \<and> (length t \<le> unat sz \<longrightarrow> n = length t)"
  using vsnprintf_text [OF assms] unfolding buffer_text_def .

lemma demo_format: "format_text ''%d-%s'' [Arg_int (- 12), Arg_str (Some ''abcdef'')] = Some ''-12-abcdef''"
proof -
  have "sint (- 12 :: u32) = - 12" by simp
  moreover have "numeral_text small_digits 10 12 = ''12''"
    by (simp add: numeral_text.simps [of _ 10 12] numeral_text.simps [of _ 10 "Suc 0"] small_digits_def)
  ultimately show ?thesis
    by (simp add: parse_spec_def flag_of_def parse_width_def isdigit_def parse_qualifier_def conversion_text_def
        integer_conversion_def number_arg_def string_text_def number_text_def field_def sign_text_def print_flags Let_def)
qed

lemma vsnprintf_correct_witness:
  "\<exists>n. rt_vsnprintf 0x20000000 (replicate 10 (CHR ''.'')) 8 ''%d-%s'' [Arg_int (- 12), Arg_str (Some ''abcdef'')]
    = Some (''-12-abc'' @ CHR 0x00 # ''..'', of_nat n) \<and> 10 \<le> n"
proof -
  obtain n where "rt_vsnprintf 0x20000000 (replicate 10 (CHR ''.'')) 8 ''%d-%s'' [Arg_int (- 12), Arg_str (Some ''abcdef'')]
      = Some (take 7 ''-12-abcdef'' @ CHR 0x00 # drop 8 (replicate 10 (CHR ''.'')), of_nat n)" "10 \<le> n"
    using vsnprintf_correct [where sz = 8 and b = "replicate 10 (CHR ''.'')" and a = "0x20000000", OF _ _ _ demo_format] by auto
  moreover have "drop 8 (replicate 10 (CHR ''.'')) = ''..''" by (simp add: eval_nat_numeral)
  ultimately show ?thesis by auto
qed

text \<open>C32. The console is sent the text of the format; of a text longer than 126 characters it is sent the first 126 and
  a NUL, since the size handed on is one less than that of the buffer.\<close>

theorem kprintf_correct:
  assumes "format_text fmt args = Some t" "2 * length t < 2 ^ 32" "length (rt_log_buf c) = RT_CONSOLEBUF_SIZE"
    "unat (rt_log_buf_at c) + RT_CONSOLEBUF_SIZE \<le> 2 ^ 32"
  shows "map_option console_output (rt_kprintf fmt args c)
    = Some (console_output c @ (if length t \<le> 126 then t else take 126 t @ [CHR 0x00]))"
  using kprintf_text [OF assms] by simp

lemma kprintf_correct_witness:
  "map_option console_output (rt_kprintf (replicate 200 (CHR ''x'')) []
      \<lparr>rt_log_buf = replicate 128 (CHR 0x00), rt_log_buf_at = 0x20000000, console_output = ''>''\<rparr>)
    = Some (''>'' @ replicate 126 (CHR ''x'') @ [CHR 0x00])"
proof -
  have "format_text (replicate n (CHR ''x'')) args = Some (replicate n (CHR ''x''))" for n args by (induct n) simp_all
  from kprintf_correct [OF this [of 200 "[]"], of "\<lparr>rt_log_buf = replicate 128 (CHR 0x00), rt_log_buf_at = 0x20000000, console_output = ''>''\<rparr>"]
  show ?thesis by (simp add: RT_CONSOLEBUF_SIZE_def)
qed

end
