(* ===== verification/Finsh_VM.thy ===== *)
theory Finsh_VM
  imports RT_Prelude "HOL-Library.Signed_Division"
begin

text \<open>
  The virtual machine of the FinSH shell: components/finsh/finsh_vm.c and finsh_ops.c. Its stack is an
  array of unions; a union is the four bytes of its \<^verbatim>\<open>long\<close>, of which the \<^verbatim>\<open>char\<close> and the \<^verbatim>\<open>short\<close> are the
  low ones (the target is little endian), so that storing a \<^verbatim>\<open>char\<close> leaves the upper bytes as they were.
  Plain \<^verbatim>\<open>char\<close> is unsigned on the target. Signed sums that overflow wrap around; a division by zero, a
  shift by a negative count or by 32 and more, and every access outside the stack or the text segment
  are \<^const>\<open>None\<close>. Loads and stores go to \<open>vm_mem\<close>, the data memory, which holds neither the stack
  nor the text segment. The functions that \<^verbatim>\<open>OP_call\<close> calls are a parameter.
\<close>

section \<open>State\<close>

definition FINSH_STACK_MAX :: nat where "FINSH_STACK_MAX = 64"
definition FINSH_TEXT_MAX :: nat where "FINSH_TEXT_MAX = 128"

type_synonym memory = "u32 \<Rightarrow> u8"

record finsh_vm =
  vm_stack :: "u32 list"
  finsh_sp :: nat
  text_segment :: "u8 list"
  finsh_pc :: nat
  vm_mem :: memory

text \<open>A function in memory, by its address: what it does to the memory, and its result.\<close>

type_synonym vm_funs = "u32 \<Rightarrow> u32 list \<Rightarrow> memory \<Rightarrow> (memory \<times> u32) option"

type_synonym vm_op = "finsh_vm \<Rightarrow> finsh_vm option"

definition char_value :: "u32 \<Rightarrow> u8" where "char_value v = ucast v"
definition short_value :: "u32 \<Rightarrow> u16" where "short_value v = ucast v"
definition long_value :: "u32 \<Rightarrow> u32" where "long_value v = v"

definition set_char :: "u32 \<Rightarrow> u8 \<Rightarrow> u32" where "set_char v c = (v AND NOT 0xff) OR ucast c"
definition set_short :: "u32 \<Rightarrow> u16 \<Rightarrow> u32" where "set_short v s = (v AND NOT 0xffff) OR ucast s"
definition set_long :: "u32 \<Rightarrow> u32 \<Rightarrow> u32" where "set_long v l = l"

lemma set_value [simp]: "char_value (set_char v c) = c" "short_value (set_short v h) = h" "long_value (set_long v l) = l"
proof -
  have m: "(0xff :: u32) = mask 8" "(0xffff :: u32) = mask 16" by (simp_all add: mask_eq_exp_minus_1)
  show "char_value (set_char v c) = c" "short_value (set_short v h) = h" "long_value (set_long v l) = l"
    unfolding char_value_def set_char_def short_value_def set_short_def long_value_def set_long_def m
    by (auto intro!: bit_word_eqI simp: bit_simps)
qed

definition FINSH_GET16 :: "u8 \<Rightarrow> u8 \<Rightarrow> u16" where
  "FINSH_GET16 a b = ucast a OR push_bit 8 (ucast b)"

definition FINSH_GET32 :: "u8 \<Rightarrow> u8 \<Rightarrow> u8 \<Rightarrow> u8 \<Rightarrow> u32" where
  "FINSH_GET32 a b c d = ucast a OR push_bit 8 (ucast b) OR push_bit 16 (ucast c) OR push_bit 24 (ucast d)"

definition get_mem16 :: "memory \<Rightarrow> u32 \<Rightarrow> u16" where
  "get_mem16 m a = FINSH_GET16 (m a) (m (a + 1))"

definition get_mem32 :: "memory \<Rightarrow> u32 \<Rightarrow> u32" where
  "get_mem32 m a = FINSH_GET32 (m a) (m (a + 1)) (m (a + 2)) (m (a + 3))"

definition put_mem16 :: "u32 \<Rightarrow> u16 \<Rightarrow> memory \<Rightarrow> memory" where
  "put_mem16 a v m = m(a := ucast v, a + 1 := ucast (drop_bit 8 v))"

definition put_mem32 :: "u32 \<Rightarrow> u32 \<Rightarrow> memory \<Rightarrow> memory" where
  "put_mem32 a v m = m(a := ucast v, a + 1 := ucast (drop_bit 8 v), a + 2 := ucast (drop_bit 16 v), a + 3 := ucast (drop_bit 24 v))"

definition vm_slot :: "nat \<Rightarrow> finsh_vm \<Rightarrow> u32 option" where
  "vm_slot i s = (if i < length (vm_stack s) then Some (vm_stack s ! i) else None)"

definition vm_text :: "nat \<Rightarrow> finsh_vm \<Rightarrow> u8 option" where
  "vm_text i s = (if i < length (text_segment s) then Some (text_segment s ! i) else None)"

text \<open>The slot \<open>finsh_sp - n\<close>; \<^const>\<open>None\<close> below the stack.\<close>

definition vm_top :: "nat \<Rightarrow> finsh_vm \<Rightarrow> u32 option" where
  "vm_top n s = (if n \<le> finsh_sp s then vm_slot (finsh_sp s - n) s else None)"

section \<open>The operations\<close>

definition op_bin_byte :: "(u8 \<Rightarrow> u8 \<Rightarrow> u8 option) \<Rightarrow> vm_op" where
  "op_bin_byte f s =
     do { v \<leftarrow> vm_top 2 s; w \<leftarrow> vm_top 1 s;
          r \<leftarrow> f (char_value v) (char_value w);
          Some (s\<lparr>vm_stack := (vm_stack s)[finsh_sp s - 2 := set_char v r], finsh_sp := finsh_sp s - 1\<rparr>) }"

definition op_bin_word :: "(u16 \<Rightarrow> u16 \<Rightarrow> u16 option) \<Rightarrow> vm_op" where
  "op_bin_word f s =
     do { v \<leftarrow> vm_top 2 s; w \<leftarrow> vm_top 1 s;
          r \<leftarrow> f (short_value v) (short_value w);
          Some (s\<lparr>vm_stack := (vm_stack s)[finsh_sp s - 2 := set_short v r], finsh_sp := finsh_sp s - 1\<rparr>) }"

definition op_bin_dword :: "(u32 \<Rightarrow> u32 \<Rightarrow> u32 option) \<Rightarrow> vm_op" where
  "op_bin_dword f s =
     do { v \<leftarrow> vm_top 2 s; w \<leftarrow> vm_top 1 s;
          r \<leftarrow> f (long_value v) (long_value w);
          Some (s\<lparr>vm_stack := (vm_stack s)[finsh_sp s - 2 := set_long v r], finsh_sp := finsh_sp s - 1\<rparr>) }"

text \<open>An operation on the top of the stack alone.\<close>

definition op_top :: "(finsh_vm \<Rightarrow> u32 \<Rightarrow> u32 option) \<Rightarrow> vm_op" where
  "op_top f s =
     do { v \<leftarrow> vm_top 1 s; r \<leftarrow> f s v;
          Some (s\<lparr>vm_stack := (vm_stack s)[finsh_sp s - 1 := r]\<rparr>) }"

text \<open>A load of \<open>n\<close> bytes of the text segment: the value goes into the free slot above the stack.\<close>

definition op_load :: "nat \<Rightarrow> (finsh_vm \<Rightarrow> u32 \<Rightarrow> u32 option) \<Rightarrow> vm_op" where
  "op_load n f s =
     do { v \<leftarrow> vm_slot (finsh_sp s) s; r \<leftarrow> f s v;
          Some (s\<lparr>vm_stack := (vm_stack s)[finsh_sp s := r], finsh_sp := finsh_sp s + 1, finsh_pc := finsh_pc s + n\<rparr>) }"

definition text16 :: "finsh_vm \<Rightarrow> u16 option" where
  "text16 s = do { a \<leftarrow> vm_text (finsh_pc s) s; b \<leftarrow> vm_text (finsh_pc s + 1) s; Some (FINSH_GET16 a b) }"

definition text32 :: "finsh_vm \<Rightarrow> u32 option" where
  "text32 s =
     do { a \<leftarrow> vm_text (finsh_pc s) s; b \<leftarrow> vm_text (finsh_pc s + 1) s;
          c \<leftarrow> vm_text (finsh_pc s + 2) s; d \<leftarrow> vm_text (finsh_pc s + 3) s;
          Some (FINSH_GET32 a b c d) }"

text \<open>Division and shifts, where the operands are promoted to \<^verbatim>\<open>int\<close>.\<close>

definition byte_div :: "u8 \<Rightarrow> u8 \<Rightarrow> u8 option" where
  "byte_div a b = (if b = 0 then None else Some (a div b))"
definition word_div :: "u16 \<Rightarrow> u16 \<Rightarrow> u16 option" where
  "word_div a b = (if b = 0 then None else Some (word_of_int (sint a sdiv sint b)))"
definition dword_div :: "u32 \<Rightarrow> u32 \<Rightarrow> u32 option" where
  "dword_div a b = (if b = 0 \<or> sint a = - (2 ^ 31) \<and> sint b = - 1 then None else Some (word_of_int (sint a sdiv sint b)))"

definition byte_mod :: "u8 \<Rightarrow> u8 \<Rightarrow> u8 option" where
  "byte_mod a b = (if b = 0 then None else Some (a mod b))"
definition word_mod :: "u16 \<Rightarrow> u16 \<Rightarrow> u16 option" where
  "word_mod a b = (if b = 0 then None else Some (word_of_int (sint a smod sint b)))"
definition dword_mod :: "u32 \<Rightarrow> u32 \<Rightarrow> u32 option" where
  "dword_mod a b = (if b = 0 \<or> sint a = - (2 ^ 31) \<and> sint b = - 1 then None else Some (word_of_int (sint a smod sint b)))"

definition byte_shl :: "u8 \<Rightarrow> u8 \<Rightarrow> u8 option" where
  "byte_shl a b = (if unat b < 32 then Some (ucast (push_bit (unat b) (ucast a :: u32))) else None)"
definition word_shl :: "u16 \<Rightarrow> u16 \<Rightarrow> u16 option" where
  "word_shl a b = (if 0 \<le> sint b \<and> sint b < 32 then Some (ucast (push_bit (unat b) (scast a :: u32))) else None)"
definition dword_shl :: "u32 \<Rightarrow> u32 \<Rightarrow> u32 option" where
  "dword_shl a b = (if 0 \<le> sint b \<and> sint b < 32 then Some (push_bit (unat b) a) else None)"

definition byte_shr :: "u8 \<Rightarrow> u8 \<Rightarrow> u8 option" where
  "byte_shr a b = (if unat b < 32 then Some (drop_bit (unat b) a) else None)"
definition word_shr :: "u16 \<Rightarrow> u16 \<Rightarrow> u16 option" where
  "word_shr a b = (if 0 \<le> sint b \<and> sint b < 32 then Some (signed_drop_bit (unat b) a) else None)"
definition dword_shr :: "u32 \<Rightarrow> u32 \<Rightarrow> u32 option" where
  "dword_shr a b = (if 0 \<le> sint b \<and> sint b < 32 then Some (signed_drop_bit (unat b) a) else None)"

definition OP_no_op :: vm_op where "OP_no_op s = Some s"

definition OP_add_byte :: vm_op where "OP_add_byte = op_bin_byte (\<lambda>a b. Some (a + b))"
definition OP_add_word :: vm_op where "OP_add_word = op_bin_word (\<lambda>a b. Some (a + b))"
definition OP_add_dword :: vm_op where "OP_add_dword = op_bin_dword (\<lambda>a b. Some (a + b))"
definition OP_sub_byte :: vm_op where "OP_sub_byte = op_bin_byte (\<lambda>a b. Some (a - b))"
definition OP_sub_word :: vm_op where "OP_sub_word = op_bin_word (\<lambda>a b. Some (a - b))"
definition OP_sub_dword :: vm_op where "OP_sub_dword = op_bin_dword (\<lambda>a b. Some (a - b))"
definition OP_div_byte :: vm_op where "OP_div_byte = op_bin_byte byte_div"
definition OP_div_word :: vm_op where "OP_div_word = op_bin_word word_div"
definition OP_div_dword :: vm_op where "OP_div_dword = op_bin_dword dword_div"
definition OP_mod_byte :: vm_op where "OP_mod_byte = op_bin_byte byte_mod"
definition OP_mod_word :: vm_op where "OP_mod_word = op_bin_word word_mod"
definition OP_mod_dword :: vm_op where "OP_mod_dword = op_bin_dword dword_mod"
definition OP_mul_byte :: vm_op where "OP_mul_byte = op_bin_byte (\<lambda>a b. Some (a * b))"
definition OP_mul_word :: vm_op where "OP_mul_word = op_bin_word (\<lambda>a b. Some (a * b))"
definition OP_mul_dword :: vm_op where "OP_mul_dword = op_bin_dword (\<lambda>a b. Some (a * b))"
definition OP_and_byte :: vm_op where "OP_and_byte = op_bin_byte (\<lambda>a b. Some (a AND b))"
definition OP_and_word :: vm_op where "OP_and_word = op_bin_word (\<lambda>a b. Some (a AND b))"
definition OP_and_dword :: vm_op where "OP_and_dword = op_bin_dword (\<lambda>a b. Some (a AND b))"
definition OP_or_byte :: vm_op where "OP_or_byte = op_bin_byte (\<lambda>a b. Some (a OR b))"
definition OP_or_word :: vm_op where "OP_or_word = op_bin_word (\<lambda>a b. Some (a OR b))"
definition OP_or_dword :: vm_op where "OP_or_dword = op_bin_dword (\<lambda>a b. Some (a OR b))"
definition OP_xor_byte :: vm_op where "OP_xor_byte = op_bin_byte (\<lambda>a b. Some (a XOR b))"
definition OP_xor_word :: vm_op where "OP_xor_word = op_bin_word (\<lambda>a b. Some (a XOR b))"
definition OP_xor_dword :: vm_op where "OP_xor_dword = op_bin_dword (\<lambda>a b. Some (a XOR b))"
definition OP_bw_byte :: vm_op where
  "OP_bw_byte = op_top (\<lambda>s v. Some (set_char v (NOT (char_value v))))"
definition OP_bw_word :: vm_op where
  "OP_bw_word = op_top (\<lambda>s v. Some (set_short v (NOT (short_value v))))"
definition OP_bw_dword :: vm_op where
  "OP_bw_dword = op_top (\<lambda>s v. Some (set_long v (NOT (long_value v))))"
definition OP_shl_byte :: vm_op where "OP_shl_byte = op_bin_byte byte_shl"
definition OP_shl_word :: vm_op where "OP_shl_word = op_bin_word word_shl"
definition OP_shl_dword :: vm_op where "OP_shl_dword = op_bin_dword dword_shl"
definition OP_shr_byte :: vm_op where "OP_shr_byte = op_bin_byte byte_shr"
definition OP_shr_word :: vm_op where "OP_shr_word = op_bin_word word_shr"
definition OP_shr_dword :: vm_op where "OP_shr_dword = op_bin_dword dword_shr"

definition OP_ld_byte :: vm_op where
  "OP_ld_byte = op_load 1 (\<lambda>s v. do { c \<leftarrow> vm_text (finsh_pc s) s; Some (set_char v c) })"
definition OP_ld_word :: vm_op where
  "OP_ld_word = op_load 2 (\<lambda>s v. do { x \<leftarrow> text16 s; Some (set_short v x) })"
definition OP_ld_dword :: vm_op where
  "OP_ld_dword = op_load 4 (\<lambda>s v. do { x \<leftarrow> text32 s; Some (set_long v x) })"
definition OP_ld_value_byte :: vm_op where
  "OP_ld_value_byte = op_load 4 (\<lambda>s v. do { c \<leftarrow> text32 s; Some (set_char v (vm_mem s c)) })"
definition OP_ld_value_byte_stack :: vm_op where
  "OP_ld_value_byte_stack = op_top (\<lambda>s v. Some (set_char v (vm_mem s (long_value v))))"
definition OP_ld_value_word :: vm_op where
  "OP_ld_value_word = op_load 4 (\<lambda>s v. do { x \<leftarrow> text32 s; Some (set_short v (get_mem16 (vm_mem s) x)) })"
definition OP_ld_value_word_stack :: vm_op where
  "OP_ld_value_word_stack = op_top (\<lambda>s v. Some (set_short v (get_mem16 (vm_mem s) (long_value v))))"
definition OP_ld_value_dword :: vm_op where
  "OP_ld_value_dword = op_load 4 (\<lambda>s v. do { x \<leftarrow> text32 s; Some (set_long v (get_mem32 (vm_mem s) x)) })"
definition OP_ld_value_dword_stack :: vm_op where
  "OP_ld_value_dword_stack = op_top (\<lambda>s v. Some (set_long v (get_mem32 (vm_mem s) (long_value v))))"

definition OP_st_byte :: vm_op where
  "OP_st_byte s =
     do { a \<leftarrow> vm_top 2 s; v \<leftarrow> vm_top 1 s;
          Some (s\<lparr>vm_mem := (vm_mem s)(long_value a := char_value v), finsh_sp := finsh_sp s - 1\<rparr>) }"
definition OP_st_word :: vm_op where
  "OP_st_word s =
     do { a \<leftarrow> vm_top 2 s; v \<leftarrow> vm_top 1 s;
          Some (s\<lparr>vm_mem := put_mem16 (long_value a) (short_value v) (vm_mem s), finsh_sp := finsh_sp s - 1\<rparr>) }"
definition OP_st_dword :: vm_op where
  "OP_st_dword s =
     do { a \<leftarrow> vm_top 2 s; v \<leftarrow> vm_top 1 s;
          Some (s\<lparr>vm_mem := put_mem32 (long_value a) (long_value v) (vm_mem s), finsh_sp := finsh_sp s - 1\<rparr>) }"

definition OP_pop :: vm_op where
  "OP_pop s = (if 0 < finsh_sp s then Some (s\<lparr>finsh_sp := finsh_sp s - 1\<rparr>) else None)"

text \<open>
  A call with \<open>n\<close> arguments: they are on top of the stack, the last one uppermost, and the address of
  the function below them. There is room for 16.
\<close>

definition OP_call :: "vm_funs \<Rightarrow> vm_op" where
  "OP_call call s =
     do { p \<leftarrow> vm_text (finsh_pc s) s;
          let n = unat p;
          rt_assert (n \<le> 16);
          rt_assert (n + 1 \<le> finsh_sp s \<and> finsh_sp s \<le> length (vm_stack s));
          let base = finsh_sp s - (n + 1);
          (m, r) \<leftarrow> call (long_value (vm_stack s ! base)) (take n (drop (base + 1) (vm_stack s))) (vm_mem s);
          Some (s\<lparr>vm_stack := (vm_stack s)[base := set_long (vm_stack s ! base) r], finsh_sp := base + 1,
                  finsh_pc := finsh_pc s + 1, vm_mem := m\<rparr>) }"

definition op_table :: "vm_funs \<Rightarrow> vm_op list" where
  "op_table call =
     [OP_no_op, OP_add_byte, OP_add_word, OP_add_dword, OP_sub_byte, OP_sub_word, OP_sub_dword,
      OP_div_byte, OP_div_word, OP_div_dword, OP_mod_byte, OP_mod_word, OP_mod_dword,
      OP_mul_byte, OP_mul_word, OP_mul_dword, OP_and_byte, OP_and_word, OP_and_dword,
      OP_or_byte, OP_or_word, OP_or_dword, OP_xor_byte, OP_xor_word, OP_xor_dword,
      OP_bw_byte, OP_bw_word, OP_bw_dword, OP_shl_byte, OP_shl_word, OP_shl_dword,
      OP_shr_byte, OP_shr_word, OP_shr_dword, OP_ld_byte, OP_ld_word, OP_ld_dword,
      OP_ld_value_byte, OP_ld_value_word, OP_ld_value_dword, OP_st_byte, OP_st_word, OP_st_dword,
      OP_pop, OP_call call, OP_ld_value_byte_stack, OP_ld_value_word_stack, OP_ld_value_dword_stack]"

text \<open>One turn of the loop; an operation code outside the table is a call of no function.\<close>

definition vm_step :: "vm_funs \<Rightarrow> vm_op" where
  "vm_step call s =
     do { op \<leftarrow> vm_text (finsh_pc s) s;
          rt_assert (unat op < length (op_table call));
          (op_table call ! unat op) (s\<lparr>finsh_pc := finsh_pc s + 1\<rparr>) }"

text \<open>No operation moves the program counter back.\<close>

lemmas op_bin_defs = OP_add_byte_def OP_add_word_def OP_add_dword_def OP_sub_byte_def OP_sub_word_def OP_sub_dword_def
  OP_div_byte_def OP_div_word_def OP_div_dword_def OP_mod_byte_def OP_mod_word_def OP_mod_dword_def
  OP_mul_byte_def OP_mul_word_def OP_mul_dword_def OP_and_byte_def OP_and_word_def OP_and_dword_def
  OP_or_byte_def OP_or_word_def OP_or_dword_def OP_xor_byte_def OP_xor_word_def OP_xor_dword_def
  OP_shl_byte_def OP_shl_word_def OP_shl_dword_def OP_shr_byte_def OP_shr_word_def OP_shr_dword_def

lemmas op_top_defs = OP_bw_byte_def OP_bw_word_def OP_bw_dword_def
  OP_ld_value_byte_stack_def OP_ld_value_word_stack_def OP_ld_value_dword_stack_def

lemmas op_load_defs = OP_ld_byte_def OP_ld_word_def OP_ld_dword_def
  OP_ld_value_byte_def OP_ld_value_word_def OP_ld_value_dword_def

definition forward :: "vm_op \<Rightarrow> bool" where
  "forward f \<longleftrightarrow> (\<forall>s s'. f s = Some s' \<longrightarrow> finsh_pc s \<le> finsh_pc s' \<and> length (text_segment s') = length (text_segment s))"

lemma forward_kinds [simp]:
  "forward (op_bin_byte f)" "forward (op_bin_word f')" "forward (op_bin_dword f'')" "forward (op_top g)" "forward (op_load n g)"
  by (auto simp: forward_def op_bin_byte_def op_bin_word_def op_bin_dword_def op_top_def op_load_def
      Option.bind_eq_Some_conv)

lemma op_table_forward: "\<forall>f \<in> set (op_table call). forward f"
proof -
  have "forward OP_no_op" "forward OP_st_byte" "forward OP_st_word" "forward OP_st_dword" "forward OP_pop"
    by (auto simp: forward_def OP_no_op_def OP_st_byte_def OP_st_word_def OP_st_dword_def OP_pop_def
        Option.bind_eq_Some_conv split: if_splits)
  moreover have "forward (OP_call call)"
    by (auto simp: forward_def OP_call_def Let_def Option.bind_eq_Some_conv split: prod.splits)
  ultimately show ?thesis by (simp add: op_table_def op_bin_defs op_top_defs op_load_defs)
qed

lemma vm_step_forward:
  assumes "vm_step call s = Some s'"
  shows "finsh_pc s < finsh_pc s'" and "finsh_pc s < length (text_segment s)" and "length (text_segment s') = length (text_segment s)"
proof -
  obtain op where op: "vm_text (finsh_pc s) s = Some op" "unat op < length (op_table call)"
    "(op_table call ! unat op) (s\<lparr>finsh_pc := finsh_pc s + 1\<rparr>) = Some s'"
    using assms by (auto simp: vm_step_def Option.bind_eq_Some_conv rt_assert_def split: if_splits)
  then have "forward (op_table call ! unat op)" using op_table_forward nth_mem by blast
  then show "finsh_pc s < finsh_pc s'" "length (text_segment s') = length (text_segment s)"
    using op(3) unfolding forward_def by fastforce+
  show "finsh_pc s < length (text_segment s)" using op(1) by (simp add: vm_text_def split: if_splits)
qed

section \<open>The loop\<close>

text \<open>The program counter only moves up, so the loop of \<^verbatim>\<open>finsh_vm_run\<close> ends.\<close>

function vm_loop :: "vm_funs \<Rightarrow> finsh_vm \<Rightarrow> finsh_vm option" where
  "vm_loop call s =
     (if finsh_pc s < FINSH_TEXT_MAX then do { s' \<leftarrow> vm_step call s; vm_loop call s' } else Some s)"
  by pat_completeness auto
termination
  by (relation "measure (\<lambda>(call, s). FINSH_TEXT_MAX - finsh_pc s)") (auto dest!: vm_step_forward(1))

declare vm_loop.simps [simp del]

definition finsh_vm_run :: "vm_funs \<Rightarrow> finsh_vm \<Rightarrow> finsh_vm option" where
  "finsh_vm_run call s = vm_loop call (s\<lparr>finsh_sp := 0, finsh_pc := 0\<rparr>)"

definition finsh_stack_bottom :: "finsh_vm \<Rightarrow> u32" where
  "finsh_stack_bottom s = long_value (vm_stack s ! 0)"

end
