(* ===== verification/Finsh_Node.thy ===== *)
theory Finsh_Node
  imports Finsh_VM
begin

text \<open>
  The data of the FinSH shell: types, variables and syntax trees of finsh.h and finsh_node.h, the error
  number of finsh_error.c and the state that the parts of the shell share. A pointer to a node is the
  tree below the node: every node is allocated fresh and only one pointer refers to it. The table the
  nodes come from is \<open>nodes_used\<close>, the number of entries taken; they are only given back all at once.
  The values of the shell's variables are in the data memory, where programs reach them through their
  addresses; their names and types are in \<open>global_variable\<close>.
\<close>

section \<open>Types\<close>

datatype finsh_type =
    finsh_type_unknown | finsh_type_void | finsh_type_voidp
  | finsh_type_char | finsh_type_uchar | finsh_type_charp
  | finsh_type_short | finsh_type_ushort | finsh_type_shortp
  | finsh_type_int | finsh_type_uint | finsh_type_intp
  | finsh_type_long | finsh_type_ulong | finsh_type_longp

text \<open>The number of a type, which a cast stores as the data type of a node.\<close>

primrec finsh_type_code :: "finsh_type \<Rightarrow> u8" where
  "finsh_type_code finsh_type_unknown = 0"
| "finsh_type_code finsh_type_void = 1"
| "finsh_type_code finsh_type_voidp = 2"
| "finsh_type_code finsh_type_char = 3"
| "finsh_type_code finsh_type_uchar = 4"
| "finsh_type_code finsh_type_charp = 5"
| "finsh_type_code finsh_type_short = 6"
| "finsh_type_code finsh_type_ushort = 7"
| "finsh_type_code finsh_type_shortp = 8"
| "finsh_type_code finsh_type_int = 9"
| "finsh_type_code finsh_type_uint = 10"
| "finsh_type_code finsh_type_intp = 11"
| "finsh_type_code finsh_type_long = 12"
| "finsh_type_code finsh_type_ulong = 13"
| "finsh_type_code finsh_type_longp = 14"

datatype node_type =
    FINSH_NODE_UNKNOWN | FINSH_NODE_ID
  | FINSH_NODE_VALUE_CHAR | FINSH_NODE_VALUE_INT | FINSH_NODE_VALUE_LONG | FINSH_NODE_VALUE_STRING | FINSH_NODE_VALUE_NULL
  | FINSH_NODE_SYS_ADD | FINSH_NODE_SYS_SUB | FINSH_NODE_SYS_MUL | FINSH_NODE_SYS_DIV | FINSH_NODE_SYS_MOD
  | FINSH_NODE_SYS_AND | FINSH_NODE_SYS_OR | FINSH_NODE_SYS_XOR | FINSH_NODE_SYS_BITWISE | FINSH_NODE_SYS_SHL | FINSH_NODE_SYS_SHR
  | FINSH_NODE_SYS_FUNC | FINSH_NODE_SYS_ASSIGN | FINSH_NODE_SYS_CAST
  | FINSH_NODE_SYS_PREINC | FINSH_NODE_SYS_PREDEC | FINSH_NODE_SYS_INC | FINSH_NODE_SYS_DEC
  | FINSH_NODE_SYS_GETVALUE | FINSH_NODE_SYS_GETADDR | FINSH_NODE_SYS_NULL

definition FINSH_DATA_TYPE_VOID :: u8 where "FINSH_DATA_TYPE_VOID = 0"
definition FINSH_DATA_TYPE_BYTE :: u8 where "FINSH_DATA_TYPE_BYTE = 1"
definition FINSH_DATA_TYPE_WORD :: u8 where "FINSH_DATA_TYPE_WORD = 2"
definition FINSH_DATA_TYPE_DWORD :: u8 where "FINSH_DATA_TYPE_DWORD = 3"

definition FINSH_IDTYPE_VAR :: u8 where "FINSH_IDTYPE_VAR = 1"
definition FINSH_IDTYPE_SYSVAR :: u8 where "FINSH_IDTYPE_SYSVAR = 2"
definition FINSH_IDTYPE_SYSCALL :: u8 where "FINSH_IDTYPE_SYSCALL = 4"
definition FINSH_IDTYPE_ADDRESS :: u8 where "FINSH_IDTYPE_ADDRESS = 8"
definition FINSH_NODE_VALUE :: u8 where "FINSH_NODE_VALUE = 0"

definition FINSH_NAME_MAX :: nat where "FINSH_NAME_MAX = 16"
definition FINSH_NODE_MAX :: nat where "FINSH_NODE_MAX = 16"
definition FINSH_VARIABLE_MAX :: nat where "FINSH_VARIABLE_MAX = 8"

lemmas finsh_type_defs = FINSH_DATA_TYPE_VOID_def FINSH_DATA_TYPE_BYTE_def FINSH_DATA_TYPE_WORD_def FINSH_DATA_TYPE_DWORD_def
lemmas finsh_idtype_defs = FINSH_IDTYPE_VAR_def FINSH_IDTYPE_SYSVAR_def FINSH_IDTYPE_SYSCALL_def FINSH_IDTYPE_ADDRESS_def FINSH_NODE_VALUE_def

section \<open>Symbols and nodes\<close>

record finsh_var =
  var_name :: string
  var_type :: finsh_type

text \<open>A system variable and where its record is, and a system call.\<close>

record finsh_sysvar =
  sysvar_at :: u32
  sysvar_name :: string
  sysvar_type :: finsh_type
  sysvar_var :: u32

record finsh_syscall =
  syscall_name :: string
  syscall_func :: u32

text \<open>The union \<open>id\<close> of a node: the index of a variable, a system variable or a system call.\<close>

datatype node_id = Id_none | Id_var nat | Id_sysvar finsh_sysvar | Id_syscall finsh_syscall

datatype finsh_node =
    Null
  | Node (node_type: node_type) (data_type: u8) (idtype: u8) (node_value: u32) (node_id: node_id)
         (sibling: finsh_node) (child: finsh_node)

primrec set_sibling :: "finsh_node \<Rightarrow> finsh_node \<Rightarrow> finsh_node" where
  "set_sibling s Null = Null"
| "set_sibling s (Node t d i v x s' c) = Node t d i v x s c"

primrec set_data_type :: "u8 \<Rightarrow> finsh_node \<Rightarrow> finsh_node" where
  "set_data_type d Null = Null"
| "set_data_type d (Node t d' i v x s c) = Node t d i v x s c"

primrec node_siblings :: "finsh_node \<Rightarrow> nat" where
  "node_siblings Null = 0"
| "node_siblings (Node t d i v x s c) = Suc (node_siblings s)"

primrec node_count :: "finsh_node \<Rightarrow> nat" where
  "node_count Null = 0"
| "node_count (Node t d i v x s c) = Suc (node_count s + node_count c)"

section \<open>State\<close>

text \<open>A block of the heap for strings: the offset of its header and the length of its data.\<close>

record finsh_block =
  block_at :: nat
  block_length :: nat

record finsh =
  vm :: finsh_vm
  finsh_compile_pc :: nat
  global_errno :: u8
  parser_root :: finsh_node
  nodes_used :: nat
  global_variable :: "finsh_var list"
  global_variable_at :: u32
  sysvar_table :: "finsh_sysvar list"
  global_sysvar_list :: "finsh_sysvar list"
  syscall_table :: "finsh_syscall list"
  global_syscall_list :: "finsh_syscall list"
  finsh_heap_at :: u32
  free_list :: "finsh_block list"
  allocate_list :: "finsh_block list"

definition FINSH_ERROR_OK :: u8 where "FINSH_ERROR_OK = 0"
definition FINSH_ERROR_INVALID_TOKEN :: u8 where "FINSH_ERROR_INVALID_TOKEN = 1"
definition FINSH_ERROR_EXPECT_TYPE :: u8 where "FINSH_ERROR_EXPECT_TYPE = 2"
definition FINSH_ERROR_UNKNOWN_TYPE :: u8 where "FINSH_ERROR_UNKNOWN_TYPE = 3"
definition FINSH_ERROR_VARIABLE_EXIST :: u8 where "FINSH_ERROR_VARIABLE_EXIST = 4"
definition FINSH_ERROR_EXPECT_OPERATOR :: u8 where "FINSH_ERROR_EXPECT_OPERATOR = 5"
definition FINSH_ERROR_MEMORY_FULL :: u8 where "FINSH_ERROR_MEMORY_FULL = 6"
definition FINSH_ERROR_UNKNOWN_NODE :: u8 where "FINSH_ERROR_UNKNOWN_NODE = 8"
definition FINSH_ERROR_EXPECT_CHAR :: u8 where "FINSH_ERROR_EXPECT_CHAR = 9"
definition FINSH_ERROR_UNEXPECT_END :: u8 where "FINSH_ERROR_UNEXPECT_END = 10"
definition FINSH_ERROR_UNKNOWN_TOKEN :: u8 where "FINSH_ERROR_UNKNOWN_TOKEN = 11"
definition FINSH_ERROR_UNKNOWN_SYMBOL :: u8 where "FINSH_ERROR_UNKNOWN_SYMBOL = 13"
definition FINSH_ERROR_NULL_NODE :: u8 where "FINSH_ERROR_NULL_NODE = 14"

definition finsh_error_init :: "finsh \<Rightarrow> finsh" where "finsh_error_init s = s\<lparr>global_errno := FINSH_ERROR_OK\<rparr>"
definition finsh_error_set :: "u8 \<Rightarrow> finsh \<Rightarrow> finsh" where "finsh_error_set e s = s\<lparr>global_errno := e\<rparr>"
definition finsh_errno :: "finsh \<Rightarrow> u8" where "finsh_errno s = global_errno s"

text \<open>
  The address of the value of a variable: an entry of the table has 24 bytes, the value is at offset 20.
\<close>

definition var_value_at :: "finsh \<Rightarrow> nat \<Rightarrow> u32" where
  "var_value_at s i = global_variable_at s + 24 * of_nat i + 20"

end
