(* ===== verification/Finsh_Token.thy ===== *)
theory Finsh_Token
  imports Finsh_Node "HOL-Library.Char_ord"
begin

text \<open>
  The lexer of the FinSH shell, components/finsh/finsh_token.c. A line is the list of its characters up
  to the terminating NUL, and the buffer of a token keeps all its 128 bytes. At the end of the line the
  lexer sets \<open>eof\<close> and goes back to the start of the line. Writing past a buffer is \<^const>\<open>None\<close>.
\<close>

section \<open>Tokens\<close>

datatype finsh_token_type =
    finsh_token_type_left_paren | finsh_token_type_right_paren | finsh_token_type_comma | finsh_token_type_semicolon
  | finsh_token_type_mul | finsh_token_type_add | finsh_token_type_inc | finsh_token_type_sub | finsh_token_type_dec
  | finsh_token_type_div | finsh_token_type_mod | finsh_token_type_assign | finsh_token_type_and | finsh_token_type_or
  | finsh_token_type_xor | finsh_token_type_bitwise | finsh_token_type_shl | finsh_token_type_shr | finsh_token_type_comments
  | finsh_token_type_void | finsh_token_type_char | finsh_token_type_short | finsh_token_type_int | finsh_token_type_long
  | finsh_token_type_unsigned
  | finsh_token_type_value_char | finsh_token_type_value_int | finsh_token_type_value_long | finsh_token_type_value_string
  | finsh_token_type_value_null
  | finsh_token_type_identifier | finsh_token_type_bad | finsh_token_type_eof

record finsh_token =
  tok_eof :: bool
  tok_replay :: bool
  tok_position :: nat
  current_token :: "finsh_token_type option"
  tok_value :: u32
  tok_string :: string
  tok_line :: string

definition FINSH_STRING_MAX :: nat where "FINSH_STRING_MAX = 128"

abbreviation NUL :: char where "NUL \<equiv> CHR 0x00"

definition c_string :: "string \<Rightarrow> string" where "c_string b = takeWhile (\<lambda>c. c \<noteq> NUL) b"

definition code_of :: "char \<Rightarrow> int" where "code_of c = of_char c"

definition is_digit :: "char \<Rightarrow> bool" where "is_digit c \<longleftrightarrow> 48 \<le> code_of c \<and> code_of c \<le> 57"

definition is_alpha :: "char \<Rightarrow> bool" where
  "is_alpha c \<longleftrightarrow> 65 \<le> code_of c \<and> code_of c \<le> 90 \<or> 97 \<le> code_of c \<and> code_of c \<le> 122"

definition is_separator :: "char \<Rightarrow> bool" where
  "is_separator c \<longleftrightarrow> \<not> (97 \<le> code_of c \<and> code_of c \<le> 122 \<or> 65 \<le> code_of c \<and> code_of c \<le> 90 \<or> is_digit c \<or> c = CHR ''_'')"

definition finsh_token_init :: "string \<Rightarrow> finsh_token" where
  "finsh_token_init line =
     \<lparr>tok_eof = False, tok_replay = False, tok_position = 0, current_token = None, tok_value = 0,
      tok_string = replicate FINSH_STRING_MAX NUL, tok_line = line\<rparr>"

section \<open>Characters\<close>

text \<open>The position never exceeds the length of the line.\<close>

definition token_next_char :: "finsh_token \<Rightarrow> char \<times> finsh_token" where
  "token_next_char t =
     (if tok_eof t then (NUL, t)
      else if length (tok_line t) \<le> tok_position t \<or> tok_line t ! tok_position t = CHR 0x0A
      then (NUL, t\<lparr>tok_eof := True, tok_position := 0\<rparr>)
      else (tok_line t ! tok_position t, t\<lparr>tok_position := tok_position t + 1\<rparr>))"

definition token_prev_char :: "finsh_token \<Rightarrow> finsh_token" where
  "token_prev_char t =
     (if tok_eof t then t else if tok_position t = 0 then t else t\<lparr>tok_position := tok_position t - 1\<rparr>)"

lemma next_char_cases:
  assumes "token_next_char t = (c, t')"
  obtains "tok_eof t" "c = NUL" "t' = t"
  | "\<not> tok_eof t" "c = NUL" "t' = t\<lparr>tok_eof := True, tok_position := 0\<rparr>"
  | "\<not> tok_eof t" "tok_position t < length (tok_line t)" "c = tok_line t ! tok_position t" "c \<noteq> CHR 0x0A"
    "t' = t\<lparr>tok_position := tok_position t + 1\<rparr>"
  using assms by (auto simp: token_next_char_def split: if_splits)

function token_trim_space :: "finsh_token \<Rightarrow> finsh_token" where
  "token_trim_space t =
     (case token_next_char t of (c, t') \<Rightarrow>
        if c = CHR '' '' \<or> c = CHR 0x09 \<or> c = CHR 0x0D then token_trim_space t' else token_prev_char t')"
  by pat_completeness auto
termination
  by (relation "measure (\<lambda>t. length (tok_line t) - tok_position t)") (auto elim!: next_char_cases [OF sym])

declare token_trim_space.simps [simp del]

text \<open>
  Read on from the character \<open>c\<close> while \<open>P\<close> holds: the characters read, the first one after them and the
  state. No condition of the lexer holds for NUL.
\<close>

function read_while :: "(char \<Rightarrow> bool) \<Rightarrow> char \<Rightarrow> finsh_token \<Rightarrow> string \<times> char \<times> finsh_token" where
  "read_while P c t =
     (if P c \<and> c \<noteq> NUL
      then case token_next_char t of (c', t') \<Rightarrow> case read_while P c' t' of (cs, r) \<Rightarrow> (c # cs, r)
      else ([], c, t))"
  by pat_completeness auto
termination
  by (relation "measure (\<lambda>(P, c, t). if c = NUL then 0 else Suc (length (tok_line t) - tok_position t))")
    (auto simp: token_next_char_def)

declare read_while.simps [simp del]

section \<open>Identifiers\<close>

definition token_get_string :: "finsh_token \<Rightarrow> finsh_token option" where
  "token_get_string t =
     (case token_next_char t of (c, t) \<Rightarrow>
        if tok_eof t then Some t
        else
          let t = t\<lparr>tok_string := (tok_string t)[0 := NUL]\<rparr> in
          if is_digit c then Some (token_prev_char t)
          else case read_while (\<lambda>c. \<not> is_separator c) c t of (cs, _, t) \<Rightarrow>
            if length cs < FINSH_STRING_MAX
            then Some (token_prev_char (t\<lparr>tok_eof := False, tok_string := cs @ [NUL] @ drop (length cs + 1) (tok_string t)\<rparr>))
            else None)"

definition finsh_name_table :: "(string \<times> finsh_token_type) list" where
  "finsh_name_table =
     [(''void'', finsh_token_type_void), (''char'', finsh_token_type_char), (''short'', finsh_token_type_short),
      (''int'', finsh_token_type_int), (''long'', finsh_token_type_long), (''unsigned'', finsh_token_type_unsigned),
      (''NULL'', finsh_token_type_value_null), (''null'', finsh_token_type_value_null)]"

definition token_match_name :: "string \<Rightarrow> finsh_token_type option" where
  "token_match_name str = map_of finsh_name_table str"

section \<open>Numbers\<close>

text \<open>A number of two words is built, digit by digit; its lower word is the result.\<close>

definition digit_value :: "char \<Rightarrow> u32" where
  "digit_value c =
     (if 97 \<le> code_of c \<and> code_of c \<le> 102 then word_of_int (code_of c - 97 + 10)
      else if 65 \<le> code_of c \<and> code_of c \<le> 70 then word_of_int (code_of c - 65 + 10)
      else word_of_int (code_of c - 48))"

definition number_shift :: "nat \<Rightarrow> nat" where
  "number_shift b = (if b = 16 then 4 else if b = 8 then 3 else 1)"

definition spec_digit :: "nat \<Rightarrow> char \<Rightarrow> u32 \<times> u32 \<Rightarrow> u32 \<times> u32" where
  "spec_digit sh c bn =
     (push_bit sh (fst bn) OR digit_value c, push_bit sh (snd bn) OR drop_bit (32 - sh) (fst bn))"

definition token_spec_number :: "string \<Rightarrow> nat \<Rightarrow> u32" where
  "token_spec_number str b = fst (fold (spec_digit (number_shift b)) str (0, 0))"

definition decimal :: "string \<Rightarrow> u32" where
  "decimal str = fold (\<lambda>c v. v * 10 + word_of_int (code_of c - 48)) str 0"

definition token_suffix :: "char \<Rightarrow> u32 \<Rightarrow> finsh_token \<Rightarrow> finsh_token" where
  "token_suffix c v t =
     (if c = CHR ''l'' \<or> c = CHR ''L''
      then t\<lparr>tok_value := v, current_token := Some finsh_token_type_value_long\<rparr>
      else token_prev_char (t\<lparr>tok_value := v, current_token := Some finsh_token_type_value_int\<rparr>))"

definition token_based :: "(char \<Rightarrow> bool) \<Rightarrow> nat \<Rightarrow> char \<Rightarrow> finsh_token \<Rightarrow> finsh_token option" where
  "token_based P b c t =
     (case read_while P c t of (cs, c, t) \<Rightarrow>
        if length cs < 128 then Some (token_suffix c (token_spec_number cs b) t) else None)"

definition token_proc_number :: "finsh_token \<Rightarrow> finsh_token option" where
  "token_proc_number t =
     (case token_next_char t of (c, t) \<Rightarrow>
        if c = CHR ''0'' then
          (case token_next_char t of (c, t) \<Rightarrow>
             if c = CHR ''x'' \<or> c = CHR ''X'' then
               (case token_next_char t of (c, t) \<Rightarrow> token_based (\<lambda>c. is_digit c \<or> is_alpha c) 16 c t)
             else if c = CHR ''b'' \<or> c = CHR ''B'' then
               (case token_next_char t of (c, t) \<Rightarrow> token_based (\<lambda>c. c = CHR ''0'' \<or> c = CHR ''1'') 2 c t)
             else token_based is_digit 8 c t)
        else (case read_while is_digit c t of (cs, c, t) \<Rightarrow> Some (token_suffix c (decimal cs) t)))"

section \<open>Characters and strings\<close>

text \<open>
  An escape in a string. The hexadecimal form takes every character from 0 to ?, the octal one 0 to 7;
  the result is cut to a character.
\<close>

definition escape_digit :: "int \<Rightarrow> char \<Rightarrow> bool" where
  "escape_digit b c \<longleftrightarrow> 0 \<le> code_of c - 48 \<and> code_of c - 48 < b"

definition escape_number :: "int \<Rightarrow> string \<Rightarrow> char" where
  "escape_number b str = char_of (uint (fold (\<lambda>c v. v * word_of_int b + word_of_int (code_of c) - 48) str (0 :: u32)))"

definition token_proc_escape :: "finsh_token \<Rightarrow> char \<times> finsh_token" where
  "token_proc_escape t =
     (case token_next_char t of (c, t) \<Rightarrow>
        if c = CHR ''n'' then (CHR 0x0A, t) else if c = CHR ''t'' then (CHR 0x09, t)
        else if c = CHR ''v'' then (CHR 0x0B, t) else if c = CHR ''b'' then (CHR 0x08, t)
        else if c = CHR ''r'' then (CHR 0x0D, t) else if c = CHR ''f'' then (CHR 0x0C, t)
        else if c = CHR ''a'' then (CHR 0x07, t)
        else if c = CHR ''x'' then
          (case token_next_char t of (c, t) \<Rightarrow> case read_while (escape_digit 16) c t of (cs, _, t) \<Rightarrow>
             (escape_number 16 cs, token_prev_char t))
        else if escape_digit 8 c then
          (case read_while (escape_digit 8) c t of (cs, _, t) \<Rightarrow> (escape_number 8 cs, token_prev_char t))
        else (NUL, t))"

function string_loop :: "nat \<Rightarrow> finsh_token \<Rightarrow> finsh \<Rightarrow> finsh_token \<times> finsh" where
  "string_loop n t s =
     (if n < FINSH_STRING_MAX then
        (case token_next_char t of (c, t) \<Rightarrow>
           if tok_eof t then (t, finsh_error_set FINSH_ERROR_UNEXPECT_END s)
           else if c = CHR 0x5C then
             (case token_proc_escape t of (c, t) \<Rightarrow> string_loop (n + 1) (t\<lparr>tok_string := (tok_string t)[n := c]\<rparr>) s)
           else if c = CHR 0x22 then (t\<lparr>tok_string := (tok_string t)[n := NUL]\<rparr>, s)
           else string_loop (n + 1) (t\<lparr>tok_string := (tok_string t)[n := c]\<rparr>) s)
      else (t, s))"
  by pat_completeness auto
termination
  by (relation "measure (\<lambda>(n, t, s). FINSH_STRING_MAX - n)") auto

declare string_loop.simps [simp del]

definition token_proc_string :: "finsh_token \<Rightarrow> finsh \<Rightarrow> finsh_token \<times> finsh" where
  "token_proc_string t s = string_loop 0 t s"

text \<open>
  A character constant. The digits after a backslash go into a buffer of four characters, shifted by one,
  and the number is then read from behind them: it is always 0.
\<close>

definition token_proc_char :: "finsh_token \<Rightarrow> finsh \<Rightarrow> (char \<times> finsh_token \<times> finsh) option" where
  "token_proc_char t s =
     (let close = (\<lambda>c t.
        case token_next_char t of (e, t) \<Rightarrow>
          if e \<noteq> CHR 0x27 then (c, token_prev_char t, finsh_error_set FINSH_ERROR_EXPECT_CHAR s) else (c, t, s)) in
      case token_next_char t of (c, t) \<Rightarrow>
        if c = CHR 0x5C then
          (case token_next_char t of (c, t) \<Rightarrow>
             if c = CHR ''n'' then Some (close (CHR 0x0A) t) else if c = CHR ''t'' then Some (close (CHR 0x09) t)
             else if c = CHR ''v'' then Some (close (CHR 0x0B) t) else if c = CHR ''b'' then Some (close (CHR 0x08) t)
             else if c = CHR ''r'' then Some (close (CHR 0x0D) t) else if c = CHR 0x5C then Some (close (CHR 0x5C) t)
             else if c = CHR 0x27 then Some (close (CHR 0x27) t)
             else (case read_while is_digit c t of (cs, _, t) \<Rightarrow>
                     if length cs < 4 then Some (close NUL (token_prev_char t)) else None))
        else Some (close c t))"

section \<open>The next token\<close>

definition operator_token :: "char \<Rightarrow> finsh_token_type option" where
  "operator_token c = map_of
     [(CHR ''('', finsh_token_type_left_paren), (CHR '')'', finsh_token_type_right_paren), (CHR '','', finsh_token_type_comma),
      (CHR '';'', finsh_token_type_semicolon), (CHR ''&'', finsh_token_type_and), (CHR ''*'', finsh_token_type_mul),
      (CHR ''|'', finsh_token_type_or), (CHR ''%'', finsh_token_type_mod), (CHR ''~'', finsh_token_type_bitwise),
      (CHR ''^'', finsh_token_type_xor), (CHR ''='', finsh_token_type_assign)] c"

text \<open>The operators that may be doubled: what a second character makes of them, and what they are alone.\<close>

definition double_token :: "char \<Rightarrow> (finsh_token_type \<times> finsh_token_type) option" where
  "double_token c = map_of
     [(CHR ''+'', finsh_token_type_inc, finsh_token_type_add), (CHR ''-'', finsh_token_type_dec, finsh_token_type_sub),
      (CHR ''/'', finsh_token_type_eof, finsh_token_type_div), (CHR ''<'', finsh_token_type_shl, finsh_token_type_bad),
      (CHR ''>'', finsh_token_type_shr, finsh_token_type_bad)] c"

definition token_operator :: "finsh_token \<Rightarrow> finsh \<Rightarrow> (finsh_token \<times> finsh) option" where
  "token_operator t s =
     (case token_next_char t of (c, t) \<Rightarrow>
        case operator_token c of
          Some k \<Rightarrow> Some (t\<lparr>current_token := Some k\<rparr>, s)
        | None \<Rightarrow>
          (case double_token c of
             Some (k2, k1) \<Rightarrow>
               (case token_next_char t of (c', t) \<Rightarrow>
                  if c' = c then Some (t\<lparr>current_token := Some k2\<rparr>, s)
                  else Some ((token_prev_char t)\<lparr>current_token := Some k1\<rparr>, s))
           | None \<Rightarrow>
               if c = CHR 0x27 then
                 do { (c, t, s) \<leftarrow> token_proc_char t s;
                      Some (t\<lparr>tok_value := set_char (tok_value t) (word_of_int (code_of c)),
                              current_token := Some finsh_token_type_value_char\<rparr>, s) }
               else if c = CHR 0x22 then
                 (case token_proc_string t s of (t, s) \<Rightarrow> Some (t\<lparr>current_token := Some finsh_token_type_value_string\<rparr>, s))
               else if is_digit c then
                 do { t \<leftarrow> token_proc_number (token_prev_char t); Some (t, s) }
               else Some (t\<lparr>current_token := Some finsh_token_type_bad\<rparr>, finsh_error_set FINSH_ERROR_UNKNOWN_TOKEN s)))"

definition token_run :: "finsh_token \<Rightarrow> finsh \<Rightarrow> (finsh_token \<times> finsh) option" where
  "token_run t s =
     do { t \<leftarrow> token_get_string (token_trim_space t);
          if tok_eof t then Some (t\<lparr>current_token := Some finsh_token_type_eof\<rparr>, s)
          else if tok_string t ! 0 \<noteq> NUL then
            (case token_match_name (c_string (tok_string t)) of
               Some k \<Rightarrow> Some (t\<lparr>current_token := Some k\<rparr>, s)
             | None \<Rightarrow> Some (t\<lparr>current_token := Some finsh_token_type_identifier\<rparr>, s))
          else token_operator t s }"

definition finsh_token_token :: "finsh_token \<Rightarrow> finsh \<Rightarrow> (finsh_token \<times> finsh) option" where
  "finsh_token_token t s = (if tok_replay t then Some (t\<lparr>tok_replay := False\<rparr>, s) else token_run t s)"

definition finsh_token_replay :: "finsh_token \<Rightarrow> finsh_token" where
  "finsh_token_replay t = t\<lparr>tok_replay := True\<rparr>"

end
