(* ===== verification/Finsh_Symbols.thy ===== *)
theory Finsh_Symbols
  imports Finsh_Node
begin

text \<open>
  Where names and nodes come from: components/finsh/finsh_var.c, finsh_node.c, finsh_heap.c and
  finsh_init.c, and the look-up of system calls in finsh_vm.c. The two lists of the heap for strings are
  lists of blocks by increasing address. A block that is entered at the end of a list keeps its \<open>next\<close>
  pointer; where that is not NULL, the list would run on into another one, which is \<^const>\<open>None\<close>.
\<close>

section \<open>Variables\<close>

definition empty_var :: finsh_var where "empty_var = \<lparr>var_name = [], var_type = finsh_type_unknown\<rparr>"

definition zero_bytes :: "u32 \<Rightarrow> nat \<Rightarrow> memory \<Rightarrow> memory" where
  "zero_bytes a n m = (\<lambda>b. if unat (b - a) < n then 0 else m b)"

definition set_vm_mem :: "memory \<Rightarrow> finsh \<Rightarrow> finsh" where
  "set_vm_mem m s = s\<lparr>vm := (vm s)\<lparr>vm_mem := m\<rparr>\<rparr>"

definition finsh_var_init :: "finsh \<Rightarrow> finsh" where
  "finsh_var_init s =
     set_vm_mem (zero_bytes (global_variable_at s) (24 * FINSH_VARIABLE_MAX) (vm_mem (vm s)))
       (s\<lparr>global_variable := replicate FINSH_VARIABLE_MAX empty_var\<rparr>)"

text \<open>The first entry of a list that satisfies \<open>P\<close>, by its index.\<close>

fun find_index :: "('a \<Rightarrow> bool) \<Rightarrow> 'a list \<Rightarrow> nat option" where
  "find_index P [] = None"
| "find_index P (x # xs) = (if P x then Some 0 else map_option Suc (find_index P xs))"

definition same_name :: "string \<Rightarrow> string \<Rightarrow> bool" where
  "same_name a b \<longleftrightarrow> take FINSH_NAME_MAX a = take FINSH_NAME_MAX b"

definition finsh_var_lookup :: "string \<Rightarrow> finsh \<Rightarrow> nat option" where
  "finsh_var_lookup name s = find_index (\<lambda>v. same_name (var_name v) name) (global_variable s)"

definition finsh_var_insert :: "string \<Rightarrow> finsh_type \<Rightarrow> finsh \<Rightarrow> nat option \<times> finsh" where
  "finsh_var_insert name t s =
     (if finsh_var_lookup name s \<noteq> None then (None, s)
      else case find_index (\<lambda>v. var_type v = finsh_type_unknown) (global_variable s) of
        None \<Rightarrow> (None, s)
      | Some i \<Rightarrow>
          (Some i, s\<lparr>global_variable := (global_variable s)[i := \<lparr>var_name = take FINSH_NAME_MAX name, var_type = t\<rparr>]\<rparr>))"

definition finsh_var_delete :: "string \<Rightarrow> finsh \<Rightarrow> bool \<times> finsh" where
  "finsh_var_delete name s =
     (case finsh_var_lookup name s of
        None \<Rightarrow> (False, s)
      | Some i \<Rightarrow>
          (True, set_vm_mem (zero_bytes (global_variable_at s + 24 * of_nat i) 24 (vm_mem (vm s)))
                   (s\<lparr>global_variable := (global_variable s)[i := empty_var]\<rparr>)))"

section \<open>System variables and calls\<close>

text \<open>
  Entries of the table are compared in full, those of the list only as far as the name reaches. A name of
  16 characters and more fills its buffer up to the last byte, which is never written: comparing it is
  \<^const>\<open>None\<close>.
\<close>

definition name_prefix :: "string \<Rightarrow> string \<Rightarrow> bool" where
  "name_prefix name n \<longleftrightarrow> take (length name) n = name"

definition finsh_sysvar_lookup :: "string \<Rightarrow> finsh \<Rightarrow> finsh_sysvar option option" where
  "finsh_sysvar_lookup name s =
     (if length name < FINSH_NAME_MAX then
        Some (case List.find (\<lambda>v. sysvar_name v = name) (sysvar_table s) of
                Some v \<Rightarrow> Some v
              | None \<Rightarrow> List.find (\<lambda>v. name_prefix name (sysvar_name v)) (global_sysvar_list s))
      else None)"

definition finsh_syscall_lookup :: "string \<Rightarrow> finsh \<Rightarrow> finsh_syscall option option" where
  "finsh_syscall_lookup name s =
     (if length name < FINSH_NAME_MAX then
        Some (case List.find (\<lambda>c. syscall_name c = name) (syscall_table s) of
                Some c \<Rightarrow> Some c
              | None \<Rightarrow> List.find (\<lambda>c. name_prefix name (syscall_name c)) (global_syscall_list s))
      else None)"

text \<open>Registration takes a block from the kernel heap, if there is one; \<open>a\<close> is where the record is then.\<close>

definition finsh_sysvar_append :: "u32 option \<Rightarrow> string \<Rightarrow> finsh_type \<Rightarrow> u32 \<Rightarrow> finsh \<Rightarrow> finsh" where
  "finsh_sysvar_append a name t addr s =
     (case a of
        None \<Rightarrow> s
      | Some a \<Rightarrow> s\<lparr>global_sysvar_list :=
          \<lparr>sysvar_at = a, sysvar_name = name, sysvar_type = t, sysvar_var = addr\<rparr> # global_sysvar_list s\<rparr>)"

definition finsh_syscall_append :: "bool \<Rightarrow> string \<Rightarrow> u32 \<Rightarrow> finsh \<Rightarrow> finsh" where
  "finsh_syscall_append room name f s =
     (if room then s\<lparr>global_syscall_list := \<lparr>syscall_name = name, syscall_func = f\<rparr> # global_syscall_list s\<rparr> else s)"

section \<open>The heap for strings\<close>

definition FINSH_HEAP_MAX :: nat where "FINSH_HEAP_MAX = 128"
definition HEADER :: nat where "HEADER = 8"

definition HEAP_ALIGN_SIZE :: "nat \<Rightarrow> nat" where "HEAP_ALIGN_SIZE n = (n + 3) div 4 * 4"

definition block_end :: "finsh_block \<Rightarrow> nat" where "block_end b = block_at b + HEADER + block_length b"

definition finsh_heap_init :: "finsh \<Rightarrow> finsh" where
  "finsh_heap_init s =
     set_vm_mem (zero_bytes (finsh_heap_at s) FINSH_HEAP_MAX (vm_mem (vm s)))
       (s\<lparr>free_list := [\<lparr>block_at = 0, block_length = FINSH_HEAP_MAX - HEADER\<rparr>], allocate_list := []\<rparr>)"

text \<open>
  Entering the block \<open>b\<close>, whose pointer \<open>next\<close> is NULL or not: in front, between two blocks, or at the
  end, where the pointer stays.
\<close>

fun finsh_block_insert :: "finsh_block \<Rightarrow> bool \<Rightarrow> finsh_block list \<Rightarrow> finsh_block list option" where
  "finsh_block_insert b stale [] = (if stale then None else Some [b])"
| "finsh_block_insert b stale (c # cs) =
     (if block_at c > block_at b then Some (b # c # cs) else map_option (Cons c) (finsh_block_insert b stale cs))"

text \<open>The list without the block at \<open>a\<close>, and whether the pointer \<open>next\<close> of the block is still set.\<close>

fun block_remove_after :: "nat \<Rightarrow> finsh_block list \<Rightarrow> finsh_block list \<times> bool" where
  "block_remove_after a [] = ([], False)"
| "block_remove_after a (c # cs) =
     (if block_at c = a then (cs, cs \<noteq> []) else case block_remove_after a cs of (cs, st) \<Rightarrow> (c # cs, st))"

fun finsh_block_remove :: "nat \<Rightarrow> finsh_block list \<Rightarrow> finsh_block list \<times> bool" where
  "finsh_block_remove a [] = ([], False)"
| "finsh_block_remove a (c # cs) =
     (if block_at c = a then (cs, False) else case block_remove_after a cs of (cs, st) \<Rightarrow> (c # cs, st))"

text \<open>The block at \<open>a\<close> is cut to \<open>n\<close> bytes; what is left of it becomes a block of its own.\<close>

fun finsh_block_split :: "nat \<Rightarrow> nat \<Rightarrow> finsh_block list \<Rightarrow> finsh_block list" where
  "finsh_block_split a n [] = []"
| "finsh_block_split a n (c # cs) =
     (if block_at c = a
      then c\<lparr>block_length := n\<rparr> # \<lparr>block_at = a + HEADER + n, block_length = block_length c - HEADER - n\<rparr> # cs
      else c # finsh_block_split a n cs)"

text \<open>The block at \<open>a\<close> is joined with its neighbours, where they touch.\<close>

definition finsh_join_next :: "finsh_block \<Rightarrow> finsh_block list \<Rightarrow> finsh_block list" where
  "finsh_join_next b cs =
     (case cs of
        c # cs' \<Rightarrow> (if block_end b = block_at c then b\<lparr>block_length := block_length b + HEADER + block_length c\<rparr> # cs' else b # cs)
      | [] \<Rightarrow> [b])"

fun merge_after :: "nat \<Rightarrow> finsh_block list \<Rightarrow> finsh_block list" where
  "merge_after a (p # b # cs) =
     (if block_at b = a
      then (if block_end p = a then finsh_join_next (p\<lparr>block_length := block_length p + HEADER + block_length b\<rparr>) cs
            else p # finsh_join_next b cs)
      else p # merge_after a (b # cs))"
| "merge_after a cs = cs"

definition finsh_block_merge :: "nat \<Rightarrow> finsh_block list \<Rightarrow> finsh_block list" where
  "finsh_block_merge a cs =
     (case cs of b # cs' \<Rightarrow> (if block_at b = a then finsh_join_next b cs' else merge_after a cs) | [] \<Rightarrow> [])"

definition finsh_heap_free :: "finsh_block \<Rightarrow> finsh \<Rightarrow> finsh option" where
  "finsh_heap_free b s =
     (case finsh_block_remove (block_at b) (allocate_list s) of (as, stale) \<Rightarrow>
        do { fs \<leftarrow> finsh_block_insert b stale (free_list s);
             Some (s\<lparr>allocate_list := as, free_list := finsh_block_merge (block_at b) fs\<rparr>) })"

text \<open>The address of the data of a block; whether a variable holds it.\<close>

definition block_data :: "finsh_block \<Rightarrow> finsh \<Rightarrow> u32" where
  "block_data b s = finsh_heap_at s + of_nat (block_at b + HEADER)"

definition block_used :: "finsh_block \<Rightarrow> finsh \<Rightarrow> bool" where
  "block_used b s \<longleftrightarrow>
     list_ex (\<lambda>i. var_type (global_variable s ! i) \<noteq> finsh_type_unknown
        \<and> get_mem32 (vm_mem (vm s)) (var_value_at s i) = block_data b s) [0..<length (global_variable s)]"

fun gc_loop :: "finsh_block list \<Rightarrow> finsh \<Rightarrow> finsh option" where
  "gc_loop [] s = Some s"
| "gc_loop (b # bs) s = do { s \<leftarrow> (if block_used b s then Some s else finsh_heap_free b s); gc_loop bs s }"

definition finsh_heap_gc :: "finsh \<Rightarrow> finsh option" where
  "finsh_heap_gc s = gc_loop (allocate_list s) s"

definition finsh_heap_take :: "finsh_block \<Rightarrow> nat \<Rightarrow> finsh \<Rightarrow> (u32 \<times> finsh) option" where
  "finsh_heap_take b n s =
     (let b' = b\<lparr>block_length := n\<rparr> in
      do { as \<leftarrow> finsh_block_insert b' False (allocate_list s);
           let s = s\<lparr>free_list := fst (finsh_block_remove (block_at b) (finsh_block_split (block_at b) n (free_list s))),
                     allocate_list := as\<rparr>;
           Some (block_data b s, set_vm_mem (zero_bytes (block_data b s) n (vm_mem (vm s))) s) })"

text \<open>The address of the data; 0 when there is no room even after the unused blocks were given back.\<close>

definition finsh_heap_allocate :: "nat \<Rightarrow> finsh \<Rightarrow> (u32 \<times> finsh) option" where
  "finsh_heap_allocate sz s =
     (let n = HEAP_ALIGN_SIZE sz in
      case List.find (\<lambda>b. n + HEADER < block_length b) (free_list s) of
        Some b \<Rightarrow> finsh_heap_take b n s
      | None \<Rightarrow>
          do { s \<leftarrow> finsh_heap_gc s;
               case List.find (\<lambda>b. n + HEADER \<le> block_length b) (free_list s) of
                 Some b \<Rightarrow> finsh_heap_take b n s
               | None \<Rightarrow> Some (0, s) })"

section \<open>Nodes\<close>

definition finsh_node_init :: "finsh \<Rightarrow> finsh" where "finsh_node_init s = s\<lparr>nodes_used := 0\<rparr>"

definition finsh_node_allocate :: "node_type \<Rightarrow> finsh \<Rightarrow> finsh_node \<times> finsh" where
  "finsh_node_allocate t s =
     (if nodes_used s < FINSH_NODE_MAX
      then (Node t 0 0 0 Id_none Null Null, s\<lparr>nodes_used := nodes_used s + 1\<rparr>)
      else (Null, s))"

text \<open>A node with its fields filled in, or an error.\<close>

definition node_filled :: "node_type \<Rightarrow> u8 \<Rightarrow> u32 \<Rightarrow> node_id \<Rightarrow> finsh \<Rightarrow> finsh_node \<times> finsh" where
  "node_filled t idt v x s =
     (case finsh_node_allocate t s of (n, s) \<Rightarrow>
        if n = Null then (Null, finsh_error_set FINSH_ERROR_MEMORY_FULL s) else (Node t 0 idt v x Null Null, s))"

definition finsh_node_new_id :: "string \<Rightarrow> finsh \<Rightarrow> (finsh_node \<times> finsh) option" where
  "finsh_node_new_id name s =
     (case finsh_var_lookup name s of
        Some i \<Rightarrow> Some (node_filled FINSH_NODE_ID FINSH_IDTYPE_VAR 0 (Id_var i) s)
      | None \<Rightarrow>
          do { v \<leftarrow> finsh_sysvar_lookup name s;
               case v of
                 Some v \<Rightarrow> Some (node_filled FINSH_NODE_ID FINSH_IDTYPE_SYSVAR 0 (Id_sysvar v) s)
               | None \<Rightarrow>
                   do { c \<leftarrow> finsh_syscall_lookup name s;
                        case c of
                          Some c \<Rightarrow> Some (node_filled FINSH_NODE_ID FINSH_IDTYPE_SYSCALL 0 (Id_syscall c) s)
                        | None \<Rightarrow> Some (Null, finsh_error_set FINSH_ERROR_UNKNOWN_SYMBOL s) } })"

definition finsh_node_new_char :: "u8 \<Rightarrow> finsh \<Rightarrow> finsh_node \<times> finsh" where
  "finsh_node_new_char c s = node_filled FINSH_NODE_VALUE_CHAR 0 (ucast c) Id_none s"

definition finsh_node_new_int :: "u32 \<Rightarrow> finsh \<Rightarrow> finsh_node \<times> finsh" where
  "finsh_node_new_int i s = node_filled FINSH_NODE_VALUE_INT 0 i Id_none s"

definition finsh_node_new_long :: "u32 \<Rightarrow> finsh \<Rightarrow> finsh_node \<times> finsh" where
  "finsh_node_new_long l s = node_filled FINSH_NODE_VALUE_LONG 0 l Id_none s"

definition finsh_node_new_ptr :: "u32 \<Rightarrow> finsh \<Rightarrow> finsh_node \<times> finsh" where
  "finsh_node_new_ptr p s = node_filled FINSH_NODE_VALUE_NULL 0 p Id_none s"

text \<open>The string is copied to the heap; without room the copy goes to address 0, which is \<^const>\<open>None\<close>.\<close>

definition put_string :: "u32 \<Rightarrow> string \<Rightarrow> memory \<Rightarrow> memory" where
  "put_string a str m =
     (\<lambda>b. if unat (b - a) < length str then of_char (str ! unat (b - a))
          else if unat (b - a) = length str then 0 else m b)"

definition finsh_node_new_string :: "string \<Rightarrow> finsh \<Rightarrow> (finsh_node \<times> finsh) option" where
  "finsh_node_new_string str s =
     (case finsh_node_allocate FINSH_NODE_VALUE_STRING s of (n, s) \<Rightarrow>
        if n = Null then Some (Null, finsh_error_set FINSH_ERROR_MEMORY_FULL s)
        else do { (a, s) \<leftarrow> finsh_heap_allocate (length str + 1) s;
                  rt_assert (a \<noteq> 0);
                  Some (Node FINSH_NODE_VALUE_STRING 0 0 a Id_none Null Null,
                        set_vm_mem (put_string a str (vm_mem (vm s))) s) })"

section \<open>Start-up\<close>

definition finsh_parser_init :: "finsh \<Rightarrow> finsh" where "finsh_parser_init s = s\<lparr>parser_root := Null\<rparr>"

definition finsh_init :: "finsh \<Rightarrow> finsh" where
  "finsh_init s = finsh_heap_init (finsh_error_init (finsh_var_init (finsh_node_init (finsh_parser_init s))))"

definition finsh_reset :: "finsh \<Rightarrow> finsh" where
  "finsh_reset s = finsh_heap_init (finsh_error_init (finsh_var_init (finsh_node_init s)))"

definition finsh_flush :: "finsh \<Rightarrow> finsh" where
  "finsh_flush s = finsh_error_init (finsh_node_init (finsh_parser_init s))"

end
