(* ===== verification/Finsh_Parser.thy ===== *)
theory Finsh_Parser
  imports Finsh_Token Finsh_Symbols
begin

text \<open>
  The parser of the FinSH shell, components/finsh/finsh_parser.c: recursive descent over the lexer. A
  procedure takes the state of the lexer and of the shell and returns a tree with the states after it.
  The number it takes bounds its calls and loops; \<^const>\<open>None\<close> is what does not return or is undefined.
  A chain of siblings under construction is a list.
\<close>

type_synonym 'a proc = "finsh_token \<Rightarrow> finsh \<Rightarrow> ('a \<times> finsh_token \<times> finsh) option"

section \<open>Tokens and nodes\<close>

definition next_token :: "finsh_token_type proc" where
  "next_token t s = do { (t, s) \<leftarrow> finsh_token_token t s; k \<leftarrow> current_token t; Some (k, t, s) }"

definition check_token :: "finsh_token_type \<Rightarrow> finsh_token_type \<Rightarrow> finsh_token \<Rightarrow> finsh \<Rightarrow> finsh_token \<times> finsh" where
  "check_token k want t s =
     (if k \<noteq> want then (finsh_token_replay t, finsh_error_set FINSH_ERROR_INVALID_TOKEN s) else (t, s))"

definition match_token :: "finsh_token_type \<Rightarrow> finsh_token \<Rightarrow> finsh \<Rightarrow> (finsh_token \<times> finsh) option" where
  "match_token want t s = do { (k, t, s) \<leftarrow> next_token t s; Some (check_token k want t s) }"

definition is_base_type :: "finsh_token_type \<Rightarrow> bool" where
  "is_base_type k \<longleftrightarrow> k \<in> {finsh_token_type_void, finsh_token_type_char, finsh_token_type_short,
     finsh_token_type_int, finsh_token_type_long}"

definition make_sys_node :: "node_type \<Rightarrow> finsh_node \<Rightarrow> finsh_node \<Rightarrow> finsh \<Rightarrow> finsh_node \<times> finsh" where
  "make_sys_node nt node1 node2 s =
     (case finsh_node_allocate nt s of (n, s) \<Rightarrow>
        if node1 \<noteq> Null \<and> n \<noteq> Null then (Node nt 0 0 0 Id_none Null (set_sibling node2 node1), s)
        else (n, finsh_error_set FINSH_ERROR_NULL_NODE s))"

primrec chain_of :: "finsh_node list \<Rightarrow> finsh_node" where
  "chain_of [] = Null"
| "chain_of (n # ns) = set_sibling (chain_of ns) n"

section \<open>Types and identifiers\<close>

definition base_type :: "finsh_token_type \<Rightarrow> finsh_type" where
  "base_type k =
     (case k of
        finsh_token_type_void \<Rightarrow> finsh_type_void | finsh_token_type_char \<Rightarrow> finsh_type_char
      | finsh_token_type_short \<Rightarrow> finsh_type_short | finsh_token_type_int \<Rightarrow> finsh_type_int
      | finsh_token_type_long \<Rightarrow> finsh_type_long | _ \<Rightarrow> finsh_type_unknown)"

definition unsigned_type :: "finsh_token_type \<Rightarrow> finsh_type" where
  "unsigned_type k =
     (case k of
        finsh_token_type_char \<Rightarrow> finsh_type_uchar | finsh_token_type_short \<Rightarrow> finsh_type_ushort
      | finsh_token_type_int \<Rightarrow> finsh_type_uint | finsh_token_type_long \<Rightarrow> finsh_type_ulong
      | _ \<Rightarrow> finsh_type_unknown)"

definition pointer_type :: "finsh_type \<Rightarrow> finsh_type" where
  "pointer_type ty =
     (case ty of
        finsh_type_char \<Rightarrow> finsh_type_charp | finsh_type_uchar \<Rightarrow> finsh_type_charp
      | finsh_type_short \<Rightarrow> finsh_type_shortp | finsh_type_ushort \<Rightarrow> finsh_type_shortp
      | finsh_type_int \<Rightarrow> finsh_type_intp | finsh_type_uint \<Rightarrow> finsh_type_intp
      | finsh_type_long \<Rightarrow> finsh_type_longp | finsh_type_ulong \<Rightarrow> finsh_type_longp
      | _ \<Rightarrow> finsh_type_voidp)"

definition proc_pointer :: "finsh_type \<Rightarrow> finsh_type proc" where
  "proc_pointer ty t s =
     do { (k, t, s) \<leftarrow> next_token t s;
          if k = finsh_token_type_mul then Some (pointer_type ty, t, s) else Some (ty, finsh_token_replay t, s) }"

definition type_failed :: "finsh_type proc" where
  "type_failed t s = Some (finsh_type_unknown, finsh_token_replay t, finsh_error_set FINSH_ERROR_UNKNOWN_TYPE s)"

definition proc_type :: "finsh_type proc" where
  "proc_type t s =
     do { (k, t, s) \<leftarrow> next_token t s;
          if is_base_type k then proc_pointer (base_type k) t s
          else if k = finsh_token_type_unsigned then
            do { (k, t, s) \<leftarrow> next_token t s;
                 if is_base_type k then
                   (if k = finsh_token_type_void then type_failed t s else proc_pointer (unsigned_type k) t s)
                 else proc_pointer finsh_type_unknown (finsh_token_replay t) (finsh_error_set FINSH_ERROR_EXPECT_TYPE s) }
          else type_failed t s }"

definition proc_identifier :: "string proc" where
  "proc_identifier t s =
     do { (t, s) \<leftarrow> match_token finsh_token_type_identifier t s;
          Some (take FINSH_NAME_MAX (c_string (tok_string t)), t, s) }"

section \<open>Expressions\<close>

text \<open>
  The binary operators of one level, to the left: the loop of proc_inclusive_or_expr,
  proc_exclusive_or_expr, proc_and_expr, proc_shift_expr, proc_additive_expr and
  proc_multiplicative_expr, with the operands of the next level.
\<close>

fun binary_loop :: "nat \<Rightarrow> (finsh_token_type \<Rightarrow> node_type option) \<Rightarrow> finsh_node proc \<Rightarrow> finsh_node \<Rightarrow> finsh_token_type \<Rightarrow> finsh_node proc" where
  "binary_loop 0 ops sub left k t s = None"
| "binary_loop (Suc n) ops sub left k t s =
     (case ops k of
        None \<Rightarrow> Some (left, finsh_token_replay t, s)
      | Some nt \<Rightarrow>
          do { (new, t, s) \<leftarrow> sub t s;
               let (left, s) = (if new = Null then (left, finsh_error_set FINSH_ERROR_EXPECT_OPERATOR s)
                                else make_sys_node nt left new s);
               (k, t, s) \<leftarrow> next_token t s;
               binary_loop n ops sub left k t s })"

definition proc_binary :: "nat \<Rightarrow> (finsh_token_type \<Rightarrow> node_type option) \<Rightarrow> finsh_node proc \<Rightarrow> finsh_node proc" where
  "proc_binary n ops sub t s =
     do { (left, t, s) \<leftarrow> sub t s; (k, t, s) \<leftarrow> next_token t s; binary_loop n ops sub left k t s }"

definition proc_multiplicative_expr :: "nat \<Rightarrow> finsh_node proc \<Rightarrow> finsh_node proc" where
  "proc_multiplicative_expr n = proc_binary n
     (map_of [(finsh_token_type_mul, FINSH_NODE_SYS_MUL), (finsh_token_type_div, FINSH_NODE_SYS_DIV),
              (finsh_token_type_mod, FINSH_NODE_SYS_MOD)])"

definition proc_additive_expr :: "nat \<Rightarrow> finsh_node proc \<Rightarrow> finsh_node proc" where
  "proc_additive_expr n = proc_binary n
     (map_of [(finsh_token_type_sub, FINSH_NODE_SYS_SUB), (finsh_token_type_add, FINSH_NODE_SYS_ADD)])"

definition proc_shift_expr :: "nat \<Rightarrow> finsh_node proc \<Rightarrow> finsh_node proc" where
  "proc_shift_expr n = proc_binary n
     (map_of [(finsh_token_type_shl, FINSH_NODE_SYS_SHL), (finsh_token_type_shr, FINSH_NODE_SYS_SHR)])"

definition proc_and_expr :: "nat \<Rightarrow> finsh_node proc \<Rightarrow> finsh_node proc" where
  "proc_and_expr n = proc_binary n (map_of [(finsh_token_type_and, FINSH_NODE_SYS_AND)])"

definition proc_exclusive_or_expr :: "nat \<Rightarrow> finsh_node proc \<Rightarrow> finsh_node proc" where
  "proc_exclusive_or_expr n = proc_binary n (map_of [(finsh_token_type_xor, FINSH_NODE_SYS_XOR)])"

definition proc_inclusive_or_expr :: "nat \<Rightarrow> finsh_node proc \<Rightarrow> finsh_node proc" where
  "proc_inclusive_or_expr n = proc_binary n (map_of [(finsh_token_type_or, FINSH_NODE_SYS_OR)])"

text \<open>\<^const>\<open>None\<close> for a string that fills the buffer: its end is read behind it.\<close>

definition proc_primary_expr :: "finsh_node proc \<Rightarrow> finsh_node proc" where
  "proc_primary_expr expr t s =
     do { (k, t, s) \<leftarrow> next_token t s;
          case k of
            finsh_token_type_identifier \<Rightarrow>
              do { (idn, t, s) \<leftarrow> proc_identifier (finsh_token_replay t) s;
                   (n, s) \<leftarrow> finsh_node_new_id idn s; Some (n, t, s) }
          | finsh_token_type_left_paren \<Rightarrow>
              do { (n, t, s) \<leftarrow> expr t s; (t, s) \<leftarrow> match_token finsh_token_type_right_paren t s; Some (n, t, s) }
          | finsh_token_type_value_int \<Rightarrow> (case finsh_node_new_int (tok_value t) s of (n, s) \<Rightarrow> Some (n, t, s))
          | finsh_token_type_value_long \<Rightarrow> (case finsh_node_new_long (tok_value t) s of (n, s) \<Rightarrow> Some (n, t, s))
          | finsh_token_type_value_char \<Rightarrow> (case finsh_node_new_char (char_value (tok_value t)) s of (n, s) \<Rightarrow> Some (n, t, s))
          | finsh_token_type_value_string \<Rightarrow>
              do { rt_assert (NUL \<in> set (tok_string t));
                   (n, s) \<leftarrow> finsh_node_new_string (c_string (tok_string t)) s; Some (n, t, s) }
          | finsh_token_type_value_null \<Rightarrow> (case finsh_node_new_ptr 0 s of (n, s) \<Rightarrow> Some (n, t, s))
          | _ \<Rightarrow> Some (Null, t, finsh_error_set FINSH_ERROR_INVALID_TOKEN s) }"

fun param_loop :: "nat \<Rightarrow> finsh_node proc \<Rightarrow> finsh_node list \<Rightarrow> finsh_token_type \<Rightarrow> finsh_node list proc" where
  "param_loop 0 assign ns k t s = None"
| "param_loop (Suc n) assign ns k t s =
     (if k = finsh_token_type_comma then
        do { (a, t, s) \<leftarrow> assign t s;
             let (ns, s) = (if a \<noteq> Null then (ns @ [a], s) else (ns, finsh_error_set FINSH_ERROR_EXPECT_OPERATOR s));
             (k, t, s) \<leftarrow> next_token t s;
             param_loop n assign ns k t s }
      else Some (ns, finsh_token_replay t, s))"

definition proc_param_list :: "nat \<Rightarrow> finsh_node proc \<Rightarrow> finsh_node proc" where
  "proc_param_list n assign t s =
     do { (a, t, s) \<leftarrow> assign t s;
          if a = Null then Some (Null, t, s)
          else do { (k, t, s) \<leftarrow> next_token t s; (ns, t, s) \<leftarrow> param_loop n assign [a] k t s; Some (chain_of ns, t, s) } }"

fun postfix_loop :: "nat \<Rightarrow> finsh_node proc \<Rightarrow> finsh_node \<Rightarrow> finsh_token_type \<Rightarrow> finsh_node proc" where
  "postfix_loop 0 params left k t s = None"
| "postfix_loop (Suc n) params left k t s =
     (if k = finsh_token_type_inc \<or> k = finsh_token_type_dec then
        case make_sys_node (if k = finsh_token_type_inc then FINSH_NODE_SYS_INC else FINSH_NODE_SYS_DEC) left Null s of (left, s) \<Rightarrow>
          do { (k, t, s) \<leftarrow> next_token t s; postfix_loop n params left k t s }
      else if k = finsh_token_type_left_paren then
        do { (k, t, s) \<leftarrow> next_token t s;
             (ps, t, s) \<leftarrow> (if k \<noteq> finsh_token_type_right_paren then
                              do { (ps, t, s) \<leftarrow> params (finsh_token_replay t) s;
                                   (t, s) \<leftarrow> match_token finsh_token_type_right_paren t s; Some (ps, t, s) }
                            else Some (Null, t, s));
             let (left, s) = make_sys_node FINSH_NODE_SYS_FUNC left ps s;
             (k, t, s) \<leftarrow> next_token t s;
             postfix_loop n params left k t s }
      else Some (left, finsh_token_replay t, s))"

definition proc_postfix_expr :: "nat \<Rightarrow> finsh_node proc \<Rightarrow> finsh_node proc" where
  "proc_postfix_expr n assign t s =
     do { (left, t, s) \<leftarrow> proc_primary_expr assign t s;
          (k, t, s) \<leftarrow> next_token t s;
          postfix_loop n (proc_param_list n assign) left k t s }"

definition unary_node :: "finsh_token_type \<Rightarrow> node_type option" where
  "unary_node = map_of
     [(finsh_token_type_inc, FINSH_NODE_SYS_PREINC), (finsh_token_type_dec, FINSH_NODE_SYS_PREDEC),
      (finsh_token_type_bitwise, FINSH_NODE_SYS_BITWISE), (finsh_token_type_mul, FINSH_NODE_SYS_GETVALUE),
      (finsh_token_type_and, FINSH_NODE_SYS_GETADDR)]"

definition proc_unary_expr :: "nat \<Rightarrow> finsh_node proc \<Rightarrow> finsh_node proc \<Rightarrow> finsh_node proc" where
  "proc_unary_expr n cast assign t s =
     do { (k, t, s) \<leftarrow> next_token t s;
          if k = finsh_token_type_add then cast t s
          else if k = finsh_token_type_sub then
            do { (c, t, s) \<leftarrow> cast t s;
                 let (z, s) = finsh_node_new_long 0 s;
                 let (n, s) = make_sys_node FINSH_NODE_SYS_SUB z c s;
                 Some (n, t, s) }
          else case unary_node k of
            Some nt \<Rightarrow> do { (c, t, s) \<leftarrow> cast t s; let (n, s) = make_sys_node nt c Null s; Some (n, t, s) }
          | None \<Rightarrow> proc_postfix_expr n assign (finsh_token_replay t) s }"

text \<open>Every opening parenthesis is first taken for that of a cast.\<close>

fun proc_cast_expr :: "nat \<Rightarrow> finsh_node proc" and proc_assign_expr :: "nat \<Rightarrow> finsh_node proc" where
  "proc_cast_expr 0 = (\<lambda>t s. None)"
| "proc_cast_expr (Suc n) = (\<lambda>t s.
     do { (k, t, s) \<leftarrow> next_token t s;
          if k = finsh_token_type_left_paren then
            do { (ty, t, s) \<leftarrow> proc_type t s;
                 (t, s) \<leftarrow> match_token finsh_token_type_right_paren t s;
                 (c, t, s) \<leftarrow> proc_cast_expr n t s;
                 if c \<noteq> Null then Some (set_data_type (finsh_type_code ty) c, t, s)
                 else proc_unary_expr n (proc_cast_expr n) (proc_assign_expr n) (finsh_token_replay t) s }
          else proc_unary_expr n (proc_cast_expr n) (proc_assign_expr n) (finsh_token_replay t) s })"
| "proc_assign_expr 0 = (\<lambda>t s. None)"
| "proc_assign_expr (Suc n) = (\<lambda>t s.
     do { (left, t, s) \<leftarrow>
            proc_inclusive_or_expr n (proc_exclusive_or_expr n (proc_and_expr n (proc_shift_expr n
              (proc_additive_expr n (proc_multiplicative_expr n (proc_cast_expr n)))))) t s;
          (k, t, s) \<leftarrow> next_token t s;
          if k = finsh_token_type_assign then
            do { (right, t, s) \<leftarrow> proc_assign_expr n t s;
                 let (a, s) = make_sys_node FINSH_NODE_SYS_ASSIGN left right s;
                 Some (a, t, s) }
          else Some (left, finsh_token_replay t, s) })"

definition proc_expr :: "nat \<Rightarrow> finsh_node proc" where "proc_expr n = proc_assign_expr n"

definition proc_expr_statement :: "nat \<Rightarrow> finsh_node proc" where
  "proc_expr_statement n t s =
     do { (k, t, s) \<leftarrow> next_token t s;
          if k \<noteq> finsh_token_type_semicolon then
            do { (e, t, s) \<leftarrow> proc_expr n (finsh_token_replay t) s;
                 (t, s) \<leftarrow> match_token finsh_token_type_semicolon t s; Some (e, t, s) }
          else Some (Null, t, s) }"

section \<open>Declarations\<close>

definition declare_var :: "string \<Rightarrow> finsh_type \<Rightarrow> finsh \<Rightarrow> finsh" where
  "declare_var idn ty s =
     (case finsh_var_insert idn ty s of
        (None, s) \<Rightarrow> finsh_error_set FINSH_ERROR_VARIABLE_EXIST s
      | (Some _, s) \<Rightarrow> s)"

text \<open>
  An initialiser, after its assignment sign: the assignments so far are \<open>ns\<close>, and \<open>lost\<close> says that the
  last one found no node. Behind that one the next would be linked through NULL.
\<close>

definition decl_assign ::
  "nat \<Rightarrow> string \<Rightarrow> finsh_token_type \<Rightarrow> finsh_node list \<Rightarrow> bool \<Rightarrow> finsh_token \<Rightarrow> finsh
    \<Rightarrow> (finsh_token_type \<times> finsh_node list \<times> bool \<times> finsh_token \<times> finsh) option" where
  "decl_assign n idn k ns lost t s =
     do { (a, t, s) \<leftarrow> proc_assign_expr n t s;
          if a \<noteq> Null then
            do { (i, s) \<leftarrow> finsh_node_new_id idn s;
                 let (e, s) = make_sys_node FINSH_NODE_SYS_ASSIGN i a s;
                 rt_assert (ns = [] \<or> \<not> lost);
                 (k, t, s) \<leftarrow> next_token t s;
                 Some (k, if e = Null then ns else ns @ [e], ns \<noteq> [] \<and> e = Null, t, s) }
          else Some (k, ns, lost, t, s) }"

fun decl_loop :: "nat \<Rightarrow> finsh_type \<Rightarrow> finsh_token_type \<Rightarrow> finsh_node list \<Rightarrow> bool \<Rightarrow> finsh_node list proc" where
  "decl_loop 0 ty k ns lost t s = None"
| "decl_loop (Suc n) ty k ns lost t s =
     (if k = finsh_token_type_comma then
        do { (idn, t, s) \<leftarrow> proc_identifier t s;
             let s = declare_var idn ty s;
             (k, t, s) \<leftarrow> next_token t s;
             (k, ns, lost, t, s) \<leftarrow>
               (if k = finsh_token_type_assign then decl_assign n idn k ns lost t s else Some (k, ns, lost, t, s));
             decl_loop n ty k ns lost t s }
      else case check_token k finsh_token_type_semicolon t s of (t, s) \<Rightarrow> Some (ns, t, s))"

definition proc_variable_decl :: "nat \<Rightarrow> finsh_node list proc" where
  "proc_variable_decl n t s =
     do { (ty, t, s) \<leftarrow> proc_type t s;
          (idn, t, s) \<leftarrow> proc_identifier t s;
          let s = declare_var idn ty s;
          (k, t, s) \<leftarrow> next_token t s;
          if k = finsh_token_type_comma then decl_loop n ty k [] False t s
          else if k = finsh_token_type_assign then
            do { (k, ns, lost, t, s) \<leftarrow> decl_assign n idn k [] False t s; decl_loop n ty k ns lost t s }
          else if k = finsh_token_type_semicolon then Some ([], t, s)
          else Some ([], t, finsh_error_set FINSH_ERROR_EXPECT_TYPE s) }"

section \<open>Lines\<close>

text \<open>
  The statements of a line become siblings of the root. \<open>pre\<close> are the nodes up to the one the next
  statement is linked to; \<open>post\<close> are those that hang behind it and are cut off by the next statement.
\<close>

definition is_type_token :: "finsh_token_type \<Rightarrow> bool" where
  "is_type_token k \<longleftrightarrow> is_base_type k \<or> k = finsh_token_type_unsigned"

definition proc_statement :: "nat \<Rightarrow> finsh_token_type \<Rightarrow> finsh_node list proc" where
  "proc_statement n k t s =
     (if is_type_token k then proc_variable_decl n t s
      else do { (e, t, s) \<leftarrow> proc_expr_statement n t s; Some (if e = Null then [] else [e], t, s) })"

fun parser_loop :: "nat \<Rightarrow> finsh_node list \<Rightarrow> finsh_node list \<Rightarrow> finsh_token_type \<Rightarrow> finsh_node list proc" where
  "parser_loop 0 pre post k t s = None"
| "parser_loop (Suc n) pre post k t s =
     (if k = finsh_token_type_eof \<or> k = finsh_token_type_bad then Some (pre @ post, t, s)
      else
        do { (c, t, s) \<leftarrow> proc_statement n k (finsh_token_replay t) s;
             (t, s) \<leftarrow>
               (if pre \<noteq> [] \<and> c = [] \<and> k \<noteq> finsh_token_type_identifier \<and> \<not> is_type_token k
                then do { (k, t, s) \<leftarrow> next_token t s; Some (t, s) } else Some (t, s));
             let pre = pre @ take 1 c;
             if pre = [] then Some ([], t, s)
             else do { (k, t, s) \<leftarrow> next_token t s; parser_loop n pre (drop 1 c) k t s } })"

definition finsh_parser_run :: "nat \<Rightarrow> string \<Rightarrow> finsh \<Rightarrow> finsh option" where
  "finsh_parser_run n line s =
     do { (k, t, s) \<leftarrow> next_token (finsh_token_init line) s;
          if k = finsh_token_type_eof \<or> k = finsh_token_type_bad then Some s
          else do { rt_assert (parser_root s = Null);
                    (ns, t, s) \<leftarrow> parser_loop n [] [] k t s;
                    Some (s\<lparr>parser_root := chain_of ns\<rparr>) } }"

end
