(* ===== verification/Finsh_Compiler.thy ===== *)
theory Finsh_Compiler
  imports Finsh_Node
begin

text \<open>
  The compiler of the FinSH shell, components/finsh/finsh_compiler.c: the type check of a tree, the code
  for each kind of node and the loop over the statements of a line. Code goes into the text segment of
  the virtual machine. The compiler does not check where the segment ends; writing past it is \<^const>\<open>None\<close>.
\<close>

section \<open>Operation codes\<close>

definition FINSH_OP_LD_BYTE :: u8 where "FINSH_OP_LD_BYTE = 0x22"
definition FINSH_OP_LD_WORD :: u8 where "FINSH_OP_LD_WORD = 0x23"
definition FINSH_OP_LD_DWORD :: u8 where "FINSH_OP_LD_DWORD = 0x24"
definition FINSH_OP_LD_VALUE_BYTE :: u8 where "FINSH_OP_LD_VALUE_BYTE = 0x25"
definition FINSH_OP_LD_VALUE_WORD :: u8 where "FINSH_OP_LD_VALUE_WORD = 0x26"
definition FINSH_OP_LD_VALUE_DWORD :: u8 where "FINSH_OP_LD_VALUE_DWORD = 0x27"
definition FINSH_OP_ST_BYTE :: u8 where "FINSH_OP_ST_BYTE = 0x28"
definition FINSH_OP_ST_WORD :: u8 where "FINSH_OP_ST_WORD = 0x29"
definition FINSH_OP_ST_DWORD :: u8 where "FINSH_OP_ST_DWORD = 0x2A"
definition FINSH_OP_POP :: u8 where "FINSH_OP_POP = 0x2B"
definition FINSH_OP_SYSCALL :: u8 where "FINSH_OP_SYSCALL = 0x2C"
definition FINSH_OP_LD_VALUE_BYTE_STACK :: u8 where "FINSH_OP_LD_VALUE_BYTE_STACK = 0x2D"
definition FINSH_OP_LD_VALUE_WORD_STACK :: u8 where "FINSH_OP_LD_VALUE_WORD_STACK = 0x2E"
definition FINSH_OP_LD_VALUE_DWORD_STACK :: u8 where "FINSH_OP_LD_VALUE_DWORD_STACK = 0x2F"

text \<open>
  The operators come in threes, for bytes, words and double words; this is the code of the first.
\<close>

fun op_code :: "node_type \<Rightarrow> u8" where
  "op_code FINSH_NODE_SYS_ADD = 0x01"
| "op_code FINSH_NODE_SYS_SUB = 0x04"
| "op_code FINSH_NODE_SYS_DIV = 0x07"
| "op_code FINSH_NODE_SYS_MOD = 0x0A"
| "op_code FINSH_NODE_SYS_MUL = 0x0D"
| "op_code FINSH_NODE_SYS_AND = 0x10"
| "op_code FINSH_NODE_SYS_OR = 0x13"
| "op_code FINSH_NODE_SYS_XOR = 0x16"
| "op_code FINSH_NODE_SYS_BITWISE = 0x19"
| "op_code FINSH_NODE_SYS_SHL = 0x1C"
| "op_code FINSH_NODE_SYS_SHR = 0x1F"
| "op_code _ = 0"

section \<open>Emitting code\<close>

definition finsh_code_byte :: "u8 \<Rightarrow> finsh \<Rightarrow> finsh option" where
  "finsh_code_byte x s =
     (if finsh_compile_pc s < length (text_segment (vm s))
      then Some (s\<lparr>vm := (vm s)\<lparr>text_segment := (text_segment (vm s))[finsh_compile_pc s := x]\<rparr>,
                   finsh_compile_pc := finsh_compile_pc s + 1\<rparr>)
      else None)"

definition finsh_code_word :: "u16 \<Rightarrow> finsh \<Rightarrow> finsh option" where
  "finsh_code_word x s = do { s \<leftarrow> finsh_code_byte (ucast x) s; finsh_code_byte (ucast (drop_bit 8 x)) s }"

definition finsh_code_dword :: "u32 \<Rightarrow> finsh \<Rightarrow> finsh option" where
  "finsh_code_dword x s =
     do { s \<leftarrow> finsh_code_byte (ucast x) s; s \<leftarrow> finsh_code_byte (ucast (drop_bit 8 x)) s;
          s \<leftarrow> finsh_code_byte (ucast (drop_bit 16 x)) s; finsh_code_byte (ucast (drop_bit 24 x)) s }"

section \<open>The code of a node\<close>

text \<open>An identifier: its address, or its value with the load of its type.\<close>

definition load_op :: "finsh_type \<Rightarrow> u8 option" where
  "load_op t =
     (case t of
        finsh_type_char \<Rightarrow> Some FINSH_OP_LD_VALUE_BYTE | finsh_type_uchar \<Rightarrow> Some FINSH_OP_LD_VALUE_BYTE
      | finsh_type_short \<Rightarrow> Some FINSH_OP_LD_VALUE_WORD | finsh_type_ushort \<Rightarrow> Some FINSH_OP_LD_VALUE_WORD
      | finsh_type_int \<Rightarrow> Some FINSH_OP_LD_VALUE_DWORD | finsh_type_uint \<Rightarrow> Some FINSH_OP_LD_VALUE_DWORD
      | finsh_type_long \<Rightarrow> Some FINSH_OP_LD_VALUE_DWORD | finsh_type_ulong \<Rightarrow> Some FINSH_OP_LD_VALUE_DWORD
      | finsh_type_charp \<Rightarrow> Some FINSH_OP_LD_VALUE_DWORD | finsh_type_shortp \<Rightarrow> Some FINSH_OP_LD_VALUE_DWORD
      | finsh_type_intp \<Rightarrow> Some FINSH_OP_LD_VALUE_DWORD | finsh_type_longp \<Rightarrow> Some FINSH_OP_LD_VALUE_DWORD
      | _ \<Rightarrow> None)"

definition compile_load :: "finsh_type \<Rightarrow> u8 \<Rightarrow> u32 \<Rightarrow> finsh \<Rightarrow> finsh option" where
  "compile_load t idt a s =
     (case load_op t of
        None \<Rightarrow> Some s
      | Some op \<Rightarrow>
          do { s \<leftarrow> finsh_code_byte (if idt AND FINSH_IDTYPE_ADDRESS \<noteq> 0 then FINSH_OP_LD_DWORD else op) s;
               finsh_code_dword a s })"

text \<open>
  \<^const>\<open>None\<close> where a member of the union \<open>id\<close> is read that was not written, or the variable is not in
  the table.
\<close>

definition compile_id :: "u8 \<Rightarrow> node_id \<Rightarrow> finsh \<Rightarrow> finsh option" where
  "compile_id idt x s =
     (if idt AND FINSH_IDTYPE_SYSCALL \<noteq> 0 then
        (case x of
           Id_syscall c \<Rightarrow> do { s \<leftarrow> finsh_code_byte FINSH_OP_LD_DWORD s; finsh_code_dword (syscall_func c) s }
         | _ \<Rightarrow> None)
      else if idt AND FINSH_IDTYPE_SYSVAR \<noteq> 0 then
        (case x of
           Id_none \<Rightarrow> Some s
         | Id_sysvar v \<Rightarrow> compile_load (sysvar_type v) idt (sysvar_var v) s
         | _ \<Rightarrow> None)
      else
        (case x of
           Id_none \<Rightarrow> Some s
         | Id_var i \<Rightarrow>
             do { rt_assert (i < length (global_variable s));
                  compile_load (var_type (global_variable s ! i)) idt (var_value_at s i) s }
         | _ \<Rightarrow> None))"

text \<open>An operator; nothing for a type that is none of the three.\<close>

definition compile_op :: "node_type \<Rightarrow> u8 \<Rightarrow> finsh \<Rightarrow> finsh option" where
  "compile_op t d s =
     (if d = FINSH_DATA_TYPE_BYTE then finsh_code_byte (op_code t) s
      else if d = FINSH_DATA_TYPE_WORD then finsh_code_byte (op_code t + 1) s
      else if d = FINSH_DATA_TYPE_DWORD then finsh_code_byte (op_code t + 2) s
      else Some s)"

definition compile_func :: "finsh_node \<Rightarrow> finsh \<Rightarrow> finsh option" where
  "compile_func ch s =
     (if ch = Null then Some s
      else do { s \<leftarrow> finsh_code_byte FINSH_OP_SYSCALL s; finsh_code_byte (of_nat (node_siblings (sibling ch))) s })"

definition compile_store :: "u8 \<Rightarrow> finsh \<Rightarrow> finsh option" where
  "compile_store d s =
     (if d = FINSH_DATA_TYPE_BYTE
      then do { s \<leftarrow> finsh_code_byte FINSH_OP_ST_BYTE s; finsh_code_byte FINSH_OP_LD_VALUE_BYTE_STACK s }
      else if d = FINSH_DATA_TYPE_WORD
      then do { s \<leftarrow> finsh_code_byte FINSH_OP_ST_WORD s; finsh_code_byte FINSH_OP_LD_VALUE_WORD_STACK s }
      else if d = FINSH_DATA_TYPE_DWORD
      then do { s \<leftarrow> finsh_code_byte FINSH_OP_ST_DWORD s; finsh_code_byte FINSH_OP_LD_VALUE_DWORD_STACK s }
      else Some (finsh_error_set FINSH_ERROR_UNKNOWN_TYPE s))"

definition compile_assign :: "finsh_node \<Rightarrow> finsh \<Rightarrow> finsh option" where
  "compile_assign ch s =
     (if ch = Null then None
      else if node_type ch = FINSH_NODE_ID then compile_store (data_type ch) s
      else if node_type ch = FINSH_NODE_SYS_GETVALUE then compile_store (data_type ch AND 0x0F) s
      else Some s)"

text \<open>
  Increments take the identifier for a variable of the shell. For a system variable the address is 20
  bytes into its record, and a system call has no data type.
\<close>

definition inc_value_at :: "node_id \<Rightarrow> finsh \<Rightarrow> u32 option" where
  "inc_value_at x s =
     (case x of
        Id_var i \<Rightarrow> Some (var_value_at s i)
      | Id_sysvar v \<Rightarrow> Some (sysvar_at v + 20)
      | _ \<Rightarrow> None)"

text \<open>The value at \<open>a\<close>, plus or minus one (\<open>t\<close> is the operator), is stored.\<close>

definition compile_step :: "node_type \<Rightarrow> u8 \<Rightarrow> u32 \<Rightarrow> finsh \<Rightarrow> finsh option" where
  "compile_step t d a s =
     (if d = FINSH_DATA_TYPE_BYTE then
        do { s \<leftarrow> finsh_code_byte FINSH_OP_LD_VALUE_BYTE s; s \<leftarrow> finsh_code_dword a s;
             s \<leftarrow> finsh_code_byte FINSH_OP_LD_BYTE s; s \<leftarrow> finsh_code_byte 1 s;
             s \<leftarrow> finsh_code_byte (op_code t) s; finsh_code_byte FINSH_OP_ST_BYTE s }
      else if d = FINSH_DATA_TYPE_WORD then
        do { s \<leftarrow> finsh_code_byte FINSH_OP_LD_VALUE_WORD s; s \<leftarrow> finsh_code_dword a s;
             s \<leftarrow> finsh_code_byte FINSH_OP_LD_WORD s; s \<leftarrow> finsh_code_word 1 s;
             s \<leftarrow> finsh_code_byte (op_code t + 1) s; finsh_code_byte FINSH_OP_ST_WORD s }
      else
        do { s \<leftarrow> finsh_code_byte FINSH_OP_LD_VALUE_DWORD s; s \<leftarrow> finsh_code_dword a s;
             s \<leftarrow> finsh_code_byte FINSH_OP_LD_DWORD s; s \<leftarrow> finsh_code_dword 1 s;
             s \<leftarrow> finsh_code_byte (op_code t + 2) s; finsh_code_byte FINSH_OP_ST_DWORD s })"

definition has_width :: "u8 \<Rightarrow> bool" where
  "has_width d \<longleftrightarrow> d = FINSH_DATA_TYPE_BYTE \<or> d = FINSH_DATA_TYPE_WORD \<or> d = FINSH_DATA_TYPE_DWORD"

definition compile_preinc :: "node_type \<Rightarrow> u8 \<Rightarrow> finsh_node \<Rightarrow> finsh \<Rightarrow> finsh option" where
  "compile_preinc t d ch s =
     (if ch \<noteq> Null \<and> node_type ch = FINSH_NODE_ID \<and> has_width d
      then do { a \<leftarrow> inc_value_at (node_id ch) s; s \<leftarrow> compile_step t d a s;
                finsh_code_byte FINSH_OP_LD_VALUE_DWORD_STACK s }
      else Some s)"

definition compile_inc :: "node_type \<Rightarrow> u8 \<Rightarrow> finsh_node \<Rightarrow> finsh \<Rightarrow> finsh option" where
  "compile_inc t d ch s =
     (if ch \<noteq> Null \<and> node_type ch = FINSH_NODE_ID \<and> has_width d
      then do { a \<leftarrow> inc_value_at (node_id ch) s;
                s \<leftarrow> finsh_code_byte FINSH_OP_LD_DWORD s; s \<leftarrow> finsh_code_dword a s;
                s \<leftarrow> compile_step t d a s; finsh_code_byte FINSH_OP_POP s }
      else Some s)"

definition compile_getvalue :: "u8 \<Rightarrow> u8 \<Rightarrow> finsh \<Rightarrow> finsh option" where
  "compile_getvalue idt d s =
     (if idt AND FINSH_IDTYPE_ADDRESS \<noteq> 0 then Some s
      else if d = FINSH_DATA_TYPE_BYTE then finsh_code_byte FINSH_OP_LD_VALUE_BYTE_STACK s
      else if d = FINSH_DATA_TYPE_WORD then finsh_code_byte FINSH_OP_LD_VALUE_WORD_STACK s
      else if d = FINSH_DATA_TYPE_DWORD then finsh_code_byte FINSH_OP_LD_VALUE_DWORD_STACK s
      else Some s)"

definition compile_node :: "node_type \<Rightarrow> u8 \<Rightarrow> u8 \<Rightarrow> u32 \<Rightarrow> node_id \<Rightarrow> finsh_node \<Rightarrow> finsh \<Rightarrow> finsh option" where
  "compile_node t d idt v x ch s =
     (case t of
        FINSH_NODE_ID \<Rightarrow> compile_id idt x s
      | FINSH_NODE_VALUE_CHAR \<Rightarrow> do { s \<leftarrow> finsh_code_byte FINSH_OP_LD_BYTE s; finsh_code_byte (ucast v) s }
      | FINSH_NODE_VALUE_INT \<Rightarrow> do { s \<leftarrow> finsh_code_byte FINSH_OP_LD_DWORD s; finsh_code_dword v s }
      | FINSH_NODE_VALUE_LONG \<Rightarrow> do { s \<leftarrow> finsh_code_byte FINSH_OP_LD_DWORD s; finsh_code_dword v s }
      | FINSH_NODE_VALUE_NULL \<Rightarrow> do { s \<leftarrow> finsh_code_byte FINSH_OP_LD_DWORD s; finsh_code_dword v s }
      | FINSH_NODE_VALUE_STRING \<Rightarrow> do { s \<leftarrow> finsh_code_byte FINSH_OP_LD_DWORD s; finsh_code_dword v s }
      | FINSH_NODE_SYS_ADD \<Rightarrow> compile_op t d s | FINSH_NODE_SYS_SUB \<Rightarrow> compile_op t d s
      | FINSH_NODE_SYS_MUL \<Rightarrow> compile_op t d s | FINSH_NODE_SYS_DIV \<Rightarrow> compile_op t d s
      | FINSH_NODE_SYS_MOD \<Rightarrow> compile_op t d s | FINSH_NODE_SYS_AND \<Rightarrow> compile_op t d s
      | FINSH_NODE_SYS_OR \<Rightarrow> compile_op t d s | FINSH_NODE_SYS_XOR \<Rightarrow> compile_op t d s
      | FINSH_NODE_SYS_BITWISE \<Rightarrow> compile_op t d s | FINSH_NODE_SYS_SHL \<Rightarrow> compile_op t d s
      | FINSH_NODE_SYS_SHR \<Rightarrow> compile_op t d s
      | FINSH_NODE_SYS_FUNC \<Rightarrow> compile_func ch s
      | FINSH_NODE_SYS_ASSIGN \<Rightarrow> compile_assign ch s
      | FINSH_NODE_SYS_PREINC \<Rightarrow> compile_preinc FINSH_NODE_SYS_ADD d ch s
      | FINSH_NODE_SYS_PREDEC \<Rightarrow> compile_preinc FINSH_NODE_SYS_SUB d ch s
      | FINSH_NODE_SYS_INC \<Rightarrow> compile_inc FINSH_NODE_SYS_ADD d ch s
      | FINSH_NODE_SYS_DEC \<Rightarrow> compile_inc FINSH_NODE_SYS_SUB d ch s
      | FINSH_NODE_SYS_NULL \<Rightarrow> finsh_code_dword 0 s
      | FINSH_NODE_SYS_GETVALUE \<Rightarrow> compile_getvalue idt d s
      | FINSH_NODE_SYS_GETADDR \<Rightarrow> Some s
      | _ \<Rightarrow> Some (finsh_error_set FINSH_ERROR_UNKNOWN_NODE s))"

text \<open>The child comes first, with its siblings, then the node, then its siblings.\<close>

primrec finsh_compile :: "finsh_node \<Rightarrow> finsh \<Rightarrow> finsh option" where
  "finsh_compile Null s = Some s"
| "finsh_compile (Node t d idt v x sib ch) s =
     do { s \<leftarrow> finsh_compile ch s; s \<leftarrow> compile_node t d idt v x ch s; finsh_compile sib s }"

section \<open>The type check\<close>

definition type_data_type :: "finsh_type \<Rightarrow> u8 option" where
  "type_data_type t =
     (case t of
        finsh_type_void \<Rightarrow> Some FINSH_DATA_TYPE_VOID
      | finsh_type_char \<Rightarrow> Some FINSH_DATA_TYPE_BYTE | finsh_type_uchar \<Rightarrow> Some FINSH_DATA_TYPE_BYTE
      | finsh_type_short \<Rightarrow> Some FINSH_DATA_TYPE_WORD | finsh_type_ushort \<Rightarrow> Some FINSH_DATA_TYPE_WORD
      | finsh_type_int \<Rightarrow> Some FINSH_DATA_TYPE_DWORD | finsh_type_uint \<Rightarrow> Some FINSH_DATA_TYPE_DWORD
      | finsh_type_long \<Rightarrow> Some FINSH_DATA_TYPE_DWORD | finsh_type_ulong \<Rightarrow> Some FINSH_DATA_TYPE_DWORD
      | finsh_type_charp \<Rightarrow> Some FINSH_DATA_TYPE_DWORD | finsh_type_voidp \<Rightarrow> Some FINSH_DATA_TYPE_DWORD
      | finsh_type_shortp \<Rightarrow> Some FINSH_DATA_TYPE_DWORD | finsh_type_intp \<Rightarrow> Some FINSH_DATA_TYPE_DWORD
      | finsh_type_longp \<Rightarrow> Some FINSH_DATA_TYPE_DWORD
      | finsh_type_unknown \<Rightarrow> None)"

definition type_of_id :: "finsh_type \<Rightarrow> u8 \<Rightarrow> finsh \<Rightarrow> (u8 \<times> finsh) option" where
  "type_of_id t d s =
     (case type_data_type t of
        Some d' \<Rightarrow> Some (d', s)
      | None \<Rightarrow> Some (d, finsh_error_set FINSH_ERROR_UNKNOWN_TYPE s))"

text \<open>The data type of a node without a child.\<close>

definition leaf_data_type :: "node_type \<Rightarrow> u8 \<Rightarrow> u8 \<Rightarrow> node_id \<Rightarrow> finsh \<Rightarrow> (u8 \<times> finsh) option" where
  "leaf_data_type t d idt x s =
     (if t = FINSH_NODE_ID then
        (if idt AND FINSH_IDTYPE_VAR \<noteq> 0 then
           (case x of
              Id_none \<Rightarrow> Some (d, s)
            | Id_var i \<Rightarrow>
                do { rt_assert (i < length (global_variable s));
                     type_of_id (var_type (global_variable s ! i)) d s }
            | _ \<Rightarrow> None)
         else if idt AND FINSH_IDTYPE_SYSVAR \<noteq> 0 then
           (case x of
              Id_none \<Rightarrow> Some (d, s)
            | Id_sysvar v \<Rightarrow> type_of_id (sysvar_type v) d s
            | _ \<Rightarrow> None)
         else Some (d, s))
      else if t = FINSH_NODE_VALUE_CHAR then Some (FINSH_DATA_TYPE_BYTE, s)
      else if t = FINSH_NODE_VALUE_INT \<or> t = FINSH_NODE_VALUE_LONG \<or> t = FINSH_NODE_VALUE_STRING \<or> t = FINSH_NODE_VALUE_NULL
      then Some (FINSH_DATA_TYPE_DWORD, s)
      else Some (d, s))"

definition child_is_addr :: "node_type \<Rightarrow> u8 \<Rightarrow> u8" where
  "child_is_addr t a =
     (if t = FINSH_NODE_SYS_ASSIGN \<or> t = FINSH_NODE_SYS_PREINC \<or> t = FINSH_NODE_SYS_PREDEC \<or> t = FINSH_NODE_SYS_GETADDR
      then FINSH_IDTYPE_ADDRESS
      else if t = FINSH_NODE_SYS_GETVALUE \<and> a \<noteq> 0 then 0
      else a)"

primrec finsh_type_check :: "finsh_node \<Rightarrow> u8 \<Rightarrow> finsh \<Rightarrow> (finsh_node \<times> finsh) option" where
  "finsh_type_check Null a s = Some (Null, s)"
| "finsh_type_check (Node t d idt v x sib ch) a s =
     do { (ch, s) \<leftarrow> finsh_type_check ch (child_is_addr t a) s;
          (sib, s) \<leftarrow> finsh_type_check sib FINSH_NODE_VALUE s;
          let idt = (if idt \<noteq> FINSH_IDTYPE_SYSCALL then idt OR a else idt);
          if ch \<noteq> Null then Some (Node t (data_type ch) idt v x sib ch, s)
          else do { (d, s) \<leftarrow> leaf_data_type t d idt x s; Some (Node t d idt v x sib ch, s) } }"

section \<open>A line\<close>

text \<open>The siblings of the root are the statements of the line; all but the last value are dropped.\<close>

primrec compile_line :: "finsh_node \<Rightarrow> finsh \<Rightarrow> finsh option" where
  "compile_line Null s = Some s"
| "compile_line (Node t d idt v x sib ch) s =
     do { s \<leftarrow> finsh_compile (Node t d idt v x Null ch) s;
          s \<leftarrow> (if sib \<noteq> Null then finsh_code_byte FINSH_OP_POP s else Some s);
          compile_line sib s }"

definition compile_reset :: "finsh \<Rightarrow> finsh" where
  "compile_reset s =
     s\<lparr>vm := (vm s)\<lparr>text_segment := replicate FINSH_TEXT_MAX 0, vm_stack := (vm_stack (vm s))[0 := 0]\<rparr>,
       finsh_compile_pc := 0\<rparr>"

definition finsh_compiler_run :: "finsh_node \<Rightarrow> finsh \<Rightarrow> finsh option" where
  "finsh_compiler_run n s =
     do { (n, s) \<leftarrow> finsh_type_check n FINSH_NODE_VALUE s; compile_line n (compile_reset s) }"

end
