(* ===== verification/Finsh_Shell.thy ===== *)
theory Finsh_Shell
  imports RT_Kprintf Finsh_Parser Finsh_Compiler
begin

text \<open>
  The shell of FinSH: the thread of shell.c that reads the characters of the console, its line editor with
  the history, the completion of names (cmd.c), and the running of a line. The characters that wait in the
  device are a list; reading one at a time takes its head. Accesses outside of the buffer of the line are
  \<^const>\<open>None\<close>. The configuration has no file system, so the prompt is a constant, and no MSH mode.
\<close>

section \<open>State\<close>

definition FINSH_CMD_SIZE :: nat where "FINSH_CMD_SIZE = 80"
definition FINSH_HISTORY_LINES :: nat where "FINSH_HISTORY_LINES = 5"
definition FINSH_PROMPT :: string where "FINSH_PROMPT = ''malooei test>>''"

datatype input_stat = WAIT_NORMAL | WAIT_SPEC_KEY | WAIT_FUNC_KEY

text \<open>The shell with the interpreter, the console, and the descriptions in the symbol tables.\<close>

record finsh_shell =
  stat :: input_stat
  echo_mode :: bool
  current_history :: u16
  history_count :: u16
  cmd_history :: "string list"
  shell_line :: string
  line_position :: u8
  line_curpos :: u8
  interp :: finsh
  con :: console
  syscall_desc :: "string list"
  sysvar_desc :: "string list"

text \<open>The mode is a field of one bit.\<close>

definition finsh_set_echo :: "u32 \<Rightarrow> finsh_shell \<Rightarrow> finsh_shell" where
  "finsh_set_echo e s = s\<lparr>echo_mode := odd (unat e)\<rparr>"

definition finsh_get_echo :: "finsh_shell \<Rightarrow> u32" where
  "finsh_get_echo s = (if echo_mode s then 1 else 0)"

definition kprint :: "string \<Rightarrow> print_arg list \<Rightarrow> finsh_shell \<Rightarrow> finsh_shell option" where
  "kprint fmt args s = do { c \<leftarrow> rt_kprintf fmt args (con s); Some (s\<lparr>con := c\<rparr>) }"

section \<open>Bytes\<close>

text \<open>The string at an offset of a buffer; it ends in the buffer.\<close>

definition string_at :: "string \<Rightarrow> nat \<Rightarrow> string option" where
  "string_at b i = (if NUL \<in> set (drop i b) then Some (c_string (drop i b)) else None)"

definition set_byte :: "nat \<Rightarrow> char \<Rightarrow> string \<Rightarrow> string option" where
  "set_byte i c b = (if i < length b then Some (b[i := c]) else None)"

definition get_byte :: "nat \<Rightarrow> string \<Rightarrow> char option" where
  "get_byte i b = (if i < length b then Some (b ! i) else None)"

definition rt_memmove :: "nat \<Rightarrow> nat \<Rightarrow> nat \<Rightarrow> string \<Rightarrow> string option" where
  "rt_memmove d k n b =
     (if d + n \<le> length b \<and> k + n \<le> length b
      then Some (take d b @ take n (drop k b) @ drop (d + n) b) else None)"

text \<open>At most \<open>n\<close> bytes of the string, filled up with NUL.\<close>

definition strncpy_line :: "string \<Rightarrow> nat \<Rightarrow> string \<Rightarrow> string option" where
  "strncpy_line str n b =
     (if n \<le> length b then Some (take n (str @ replicate n NUL) @ drop n b) else None)"

section \<open>Errors\<close>

definition finsh_error_string_table :: "string list" where
  "finsh_error_string_table =
     [''No error'', ''Invalid token'', ''Expect a type'', ''Unknown type'', ''Variable exist'', ''Expect a operater'',
      ''Memory full'', ''Unknown operator'', ''Unknown node'', ''Expect a character'', ''Unexpect end'', ''Unknown token'',
      ''Float not supported'', ''Unknown symbol'', ''Null node'']"

definition finsh_error_string :: "u8 \<Rightarrow> string option" where
  "finsh_error_string e =
     (if unat e < length finsh_error_string_table then Some (finsh_error_string_table ! unat e) else None)"

section \<open>Running a line\<close>

definition result_format :: string where "result_format = CHR 0x09 # ''%d, 0x%08x'' @ [CHR 0x0A]"
definition result_char_format :: string where
  "result_char_format = [CHR 0x09, CHR 0x27] @ ''%c'' @ [CHR 0x27] @ '', %d, 0x%08x'' @ [CHR 0x0A]"

definition print_result :: "u32 \<Rightarrow> finsh_shell \<Rightarrow> finsh_shell option" where
  "print_result v s =
     (let ch = (ucast v :: u8) in
      if 0x20 < ch \<and> ch < 0x7e then kprint result_char_format [Arg_int (ucast ch), Arg_int v, Arg_int v] s
      else kprint result_format [Arg_int v, Arg_int v] s)"

definition finsh_run_line :: "vm_funs \<Rightarrow> nat \<Rightarrow> string \<Rightarrow> finsh_shell \<Rightarrow> finsh_shell option" where
  "finsh_run_line call n line s =
     do { s \<leftarrow> kprint [CHR 0x0A] [] s;
          f \<leftarrow> finsh_parser_run n line (interp s);
          let s = s\<lparr>interp := f\<rparr>;
          s \<leftarrow> (if finsh_errno f = 0 then
                   do { f \<leftarrow> finsh_compiler_run (parser_root f) f; Some (s\<lparr>interp := f\<rparr>) }
                 else
                   do { e \<leftarrow> finsh_error_string (finsh_errno f); kprint (''%s'' @ [CHR 0x0A]) [Arg_str (Some e)] s });
          s \<leftarrow> (if finsh_errno (interp s) = 0 then
                   do { v \<leftarrow> finsh_vm_run call (vm (interp s));
                        print_result (finsh_stack_bottom v) (s\<lparr>interp := (interp s)\<lparr>vm := v\<rparr>\<rparr>) }
                 else Some s);
          Some (s\<lparr>interp := finsh_flush (interp s)\<rparr>) }"

section \<open>History\<close>

definition shell_handle_history :: "finsh_shell \<Rightarrow> finsh_shell option" where
  "shell_handle_history s =
     do { s \<leftarrow> kprint (CHR 0x1B # ''[2K'' @ [CHR 0x0D]) [] s;
          l \<leftarrow> string_at (shell_line s) 0;
          kprint ''%s%s'' [Arg_str (Some FINSH_PROMPT), Arg_str (Some l)] s }"

text \<open>An entry of the history: the bytes of the line up to the position, and NULs.\<close>

definition history_entry :: "finsh_shell \<Rightarrow> string option" where
  "history_entry s =
     (let p = unat (line_position s) in
      if p \<le> FINSH_CMD_SIZE then Some (take p (shell_line s) @ replicate (FINSH_CMD_SIZE - p) NUL) else None)"

definition shell_push_history :: "finsh_shell \<Rightarrow> finsh_shell option" where
  "shell_push_history s =
     do { s \<leftarrow> (if line_position s \<noteq> 0 then
                   do { l \<leftarrow> history_entry s;
                        Some (if of_nat FINSH_HISTORY_LINES \<le> history_count s
                          then s\<lparr>cmd_history := List.tl (cmd_history s) @ [l], history_count := of_nat FINSH_HISTORY_LINES\<rparr>
                          else s\<lparr>cmd_history := (cmd_history s)[unat (history_count s) := l],
                                 history_count := history_count s + 1\<rparr>) }
                 else Some s);
          Some (s\<lparr>current_history := history_count s\<rparr>) }"

text \<open>The line becomes an entry of the history.\<close>

definition load_history :: "finsh_shell \<Rightarrow> finsh_shell option" where
  "load_history s =
     (if unat (current_history s) < length (cmd_history s) then
        do { let s = s\<lparr>shell_line := cmd_history s ! unat (current_history s)\<rparr>;
             l \<leftarrow> string_at (shell_line s) 0;
             shell_handle_history (s\<lparr>line_curpos := of_nat (length l), line_position := of_nat (length l)\<rparr>) }
      else None)"

definition up_key :: "finsh_shell \<Rightarrow> finsh_shell option" where
  "up_key s =
     (if 0 < current_history s then load_history (s\<lparr>current_history := current_history s - 1\<rparr>)
      else Some (s\<lparr>current_history := 0\<rparr>))"

definition down_key :: "finsh_shell \<Rightarrow> finsh_shell option" where
  "down_key s =
     (if uint (current_history s) < uint (history_count s) - 1
      then load_history (s\<lparr>current_history := current_history s + 1\<rparr>)
      else if history_count s \<noteq> 0 then load_history (s\<lparr>current_history := history_count s - 1\<rparr>)
      else Some s)"

definition left_key :: "finsh_shell \<Rightarrow> finsh_shell option" where
  "left_key s =
     (if line_curpos s \<noteq> 0
      then do { s \<leftarrow> kprint [CHR 0x08] [] s; Some (s\<lparr>line_curpos := line_curpos s - 1\<rparr>) } else Some s)"

definition right_key :: "finsh_shell \<Rightarrow> finsh_shell option" where
  "right_key s =
     (if line_curpos s < line_position s
      then do { c \<leftarrow> get_byte (unat (line_curpos s)) (shell_line s);
                s \<leftarrow> kprint ''%c'' [Arg_int (of_char c)] s; Some (s\<lparr>line_curpos := line_curpos s + 1\<rparr>) }
      else Some s)"

text \<open>The escape sequences of the cursor keys; the result tells whether the character was part of one.\<close>

definition shell_escape :: "char \<Rightarrow> finsh_shell \<Rightarrow> (bool \<times> finsh_shell) option" where
  "shell_escape c s =
     (if c = CHR 0x1B then Some (True, s\<lparr>stat := WAIT_SPEC_KEY\<rparr>)
      else case stat s of
        WAIT_SPEC_KEY \<Rightarrow>
          (if c = CHR 0x5B then Some (True, s\<lparr>stat := WAIT_FUNC_KEY\<rparr>) else Some (False, s\<lparr>stat := WAIT_NORMAL\<rparr>))
      | WAIT_FUNC_KEY \<Rightarrow>
          (let s = s\<lparr>stat := WAIT_NORMAL\<rparr> in
           if c = CHR 0x41 then map_option (Pair True) (up_key s)
           else if c = CHR 0x42 then map_option (Pair True) (down_key s)
           else if c = CHR 0x44 then map_option (Pair True) (left_key s)
           else if c = CHR 0x43 then map_option (Pair True) (right_key s)
           else Some (False, s))
      | WAIT_NORMAL \<Rightarrow> Some (False, s))"

section \<open>Completion\<close>

definition str_is_prefix :: "string \<Rightarrow> string \<Rightarrow> bool" where
  "str_is_prefix p str \<longleftrightarrow> take (length p) str = p"

fun str_common :: "string \<Rightarrow> string \<Rightarrow> nat" where
  "str_common (a # x) (b # y) = (if a = b then Suc (str_common x y) else 0)"
| "str_common x y = 0"

text \<open>
  What the listing carries from name to name: the count of a section, the name that completes the line,
  and how much of it all the names share.
\<close>

record listing =
  list_cnt :: u16
  name_ptr :: "string option"
  min_length :: nat

text \<open>One name of a section: \<open>first\<close> is the section that does not look whether there is a name yet.\<close>

definition list_name ::
  "bool \<Rightarrow> string \<Rightarrow> string \<Rightarrow> string \<Rightarrow> (string \<times> print_arg list) \<Rightarrow> listing \<times> finsh_shell \<Rightarrow> (listing \<times> finsh_shell) option"
where
  "list_name first prefix header name shown ls =
     (if str_is_prefix prefix name then
        do { let (l, s) = ls;
             s \<leftarrow> (if list_cnt l = 0 then kprint header [] s else Some s);
             let l = (if list_cnt l = 0 \<and> prefix \<noteq> [] \<and> (first \<or> name_ptr l = None)
                      then l\<lparr>name_ptr := Some name, min_length := length name\<rparr> else l);
             let l = l\<lparr>list_cnt := list_cnt l + 1\<rparr>;
             l \<leftarrow> (if prefix \<noteq> [] then
                      do { p \<leftarrow> name_ptr l; Some (l\<lparr>min_length := min (min_length l) (str_common p name)\<rparr>) }
                    else Some l);
             s \<leftarrow> kprint (fst shown) (snd shown) s;
             Some (l, s) }
      else Some ls)"

definition function_header :: string where "function_header = ''--function:'' @ [CHR 0x0A]"
definition variable_header :: string where "variable_header = ''--variable:'' @ [CHR 0x0A]"

fun list_names ::
  "bool \<Rightarrow> string \<Rightarrow> string \<Rightarrow> (string \<times> string \<times> print_arg list) list \<Rightarrow> listing \<times> finsh_shell \<Rightarrow> (listing \<times> finsh_shell) option"
where
  "list_names first prefix header [] ls = Some ls"
| "list_names first prefix header ((name, shown) # ns) ls =
     do { ls \<leftarrow> list_name first prefix header name shown ls; list_names first prefix header ns ls }"

definition described :: "string \<Rightarrow> string \<Rightarrow> string \<times> string \<times> print_arg list" where
  "described name d = (name, ''%-16s -- %s'' @ [CHR 0x0A], [Arg_str (Some name), Arg_str (Some d)])"

definition marked :: "char \<Rightarrow> string \<Rightarrow> string \<times> string \<times> print_arg list" where
  "marked c name = (name, [CHR ''['', c] @ ''] %s'' @ [CHR 0x0A], [Arg_str (Some name)])"

definition list_prefix :: "string \<Rightarrow> finsh_shell \<Rightarrow> finsh_shell option" where
  "list_prefix prefix s =
     (let f = interp s;
          calls = map (\<lambda>(c, d). described (syscall_name c) d) (zip (syscall_table f) (syscall_desc s));
          vars = map (\<lambda>(v, d). described (sysvar_name v) d) (zip (sysvar_table f) (sysvar_desc s)) in
      do { ls \<leftarrow> list_names True prefix function_header (filter (\<lambda>(x, _). \<not> str_is_prefix ''__'' x) calls)
             (\<lparr>list_cnt = 0, name_ptr = None, min_length = 0\<rparr>, s);
           (l, s) \<leftarrow> list_names False prefix function_header (map (\<lambda>c. marked (CHR ''l'') (syscall_name c)) (global_syscall_list f)) ls;
           ls \<leftarrow> list_names False prefix variable_header vars (l\<lparr>list_cnt := 0\<rparr>, s);
           (l, s) \<leftarrow> list_names False prefix variable_header (map (\<lambda>v. marked (CHR ''v'') (sysvar_name v)) (global_sysvar_list f)) ls;
           case name_ptr l of
             None \<Rightarrow> Some s
           | Some name \<Rightarrow> do { b \<leftarrow> strncpy_line name (min_length l) (shell_line s); Some (s\<lparr>shell_line := b\<rparr>) } })"

definition shell_auto_complete :: "finsh_shell \<Rightarrow> finsh_shell option" where
  "shell_auto_complete s =
     do { s \<leftarrow> kprint [CHR 0x0A] [] s;
          prefix \<leftarrow> string_at (shell_line s) 0;
          s \<leftarrow> list_prefix prefix s;
          l \<leftarrow> string_at (shell_line s) 0;
          kprint ''%s%s'' [Arg_str (Some FINSH_PROMPT), Arg_str (Some l)] s }"

section \<open>Keys\<close>

text \<open>The cursor moves left, one call of the console for each column.\<close>

fun backspaces :: "nat \<Rightarrow> finsh_shell \<Rightarrow> finsh_shell option" where
  "backspaces 0 s = Some s"
| "backspaces (Suc n) s = do { s \<leftarrow> kprint [CHR 0x08] [] s; backspaces n s }"

definition tab_key :: "finsh_shell \<Rightarrow> finsh_shell option" where
  "tab_key s =
     do { s \<leftarrow> backspaces (unat (line_curpos s)) s;
          s \<leftarrow> shell_auto_complete s;
          l \<leftarrow> string_at (shell_line s) 0;
          Some (s\<lparr>line_curpos := of_nat (length l), line_position := of_nat (length l)\<rparr>) }"

definition backspace_key :: "finsh_shell \<Rightarrow> finsh_shell option" where
  "backspace_key s =
     (if line_curpos s = 0 then Some s
      else
        let p = line_position s - 1; c = line_curpos s - 1; s = s\<lparr>line_position := p, line_curpos := c\<rparr> in
        if c < p then
          do { b \<leftarrow> rt_memmove (unat c) (unat c + 1) (unat p - unat c) (shell_line s);
               b \<leftarrow> set_byte (unat p) NUL b;
               l \<leftarrow> string_at b (unat c);
               s \<leftarrow> kprint (CHR 0x08 # ''%s  '' @ [CHR 0x08]) [Arg_str (Some l)] (s\<lparr>shell_line := b\<rparr>);
               backspaces (unat p - unat c + 1) s }
        else
          do { s \<leftarrow> kprint [CHR 0x08, CHR '' '', CHR 0x08] [] s;
               b \<leftarrow> set_byte (unat p) NUL (shell_line s);
               Some (s\<lparr>shell_line := b\<rparr>) })"

definition enter_key :: "vm_funs \<Rightarrow> nat \<Rightarrow> finsh_shell \<Rightarrow> finsh_shell option" where
  "enter_key call n s =
     do { s \<leftarrow> shell_push_history s;
          b \<leftarrow> set_byte (unat (line_position s)) (CHR '';'') (shell_line s);
          let s = s\<lparr>shell_line := b\<rparr>;
          s \<leftarrow> (if line_position s \<noteq> 0
                 then do { l \<leftarrow> string_at (shell_line s) 0; finsh_run_line call n l s }
                 else kprint [CHR 0x0A] [] s);
          s \<leftarrow> kprint FINSH_PROMPT [] s;
          Some (s\<lparr>shell_line := replicate FINSH_CMD_SIZE NUL, line_curpos := 0, line_position := 0\<rparr>) }"

definition character_key :: "char \<Rightarrow> finsh_shell \<Rightarrow> finsh_shell option" where
  "character_key ch s =
     (let p = (if FINSH_CMD_SIZE \<le> unat (line_position s) then 0 else line_position s); c = line_curpos s;
          s = s\<lparr>line_position := p\<rparr> in
      do { s \<leftarrow>
             (if c < p then
                do { b \<leftarrow> rt_memmove (unat c + 1) (unat c) (unat p - unat c) (shell_line s);
                     b \<leftarrow> set_byte (unat c) ch b;
                     let s = s\<lparr>shell_line := b\<rparr>;
                     s \<leftarrow> (if echo_mode s
                            then do { l \<leftarrow> string_at b (unat c); kprint ''%s'' [Arg_str (Some l)] s } else Some s);
                     backspaces (unat p - unat c) s }
              else
                do { b \<leftarrow> set_byte (unat p) ch (shell_line s);
                     kprint ''%c'' [Arg_int (of_char ch)] (s\<lparr>shell_line := b\<rparr>) });
           Some (s\<lparr>line_position := p + 1, line_curpos := c + 1\<rparr>) })"

section \<open>The thread\<close>

text \<open>
  The characters that wait are handled until none is left or a line has been run; the characters left are
  the result. A carriage return takes the place of the character behind it.
\<close>

definition next_key :: "char \<Rightarrow> string \<Rightarrow> char \<times> string" where
  "next_key c cs = (if c = CHR 0x0D then (case cs of [] \<Rightarrow> (c, []) | d # cs \<Rightarrow> (d, cs)) else (c, cs))"

lemma next_key_length: "(d, ds) = next_key c cs \<Longrightarrow> length ds < Suc (length cs)"
  by (auto simp: next_key_def split: if_splits list.splits)

function shell_read :: "vm_funs \<Rightarrow> nat \<Rightarrow> string \<Rightarrow> finsh_shell \<Rightarrow> (string \<times> finsh_shell) option" where
  "shell_read call n [] s = Some ([], s)"
| "shell_read call n (c # cs) s =
     do { (taken, s) \<leftarrow> shell_escape c s;
          if taken then shell_read call n cs s
          else if c = CHR 0x09 then do { s \<leftarrow> tab_key s; shell_read call n cs s }
          else if c = CHR 0x7F \<or> c = CHR 0x08 then do { s \<leftarrow> backspace_key s; shell_read call n cs s }
          else case next_key c cs of (d, ds) \<Rightarrow>
            if d = CHR 0x0D \<or> d = CHR 0x0A then do { s \<leftarrow> enter_key call n s; Some (ds, s) }
            else do { s \<leftarrow> character_key d s; shell_read call n ds s } }"
  by pat_completeness auto
termination
  by (relation "measure (\<lambda>(call, n, cs, s). length cs)") (auto dest!: next_key_length)

definition shell_start :: "finsh_shell \<Rightarrow> finsh_shell option" where
  "shell_start s = kprint FINSH_PROMPT [] (s\<lparr>echo_mode := True, interp := finsh_init (interp s)\<rparr>)"

text \<open>Each entry of the list is what arrives in the device before the semaphore of the shell is taken again.\<close>

fun shell_loop :: "vm_funs \<Rightarrow> nat \<Rightarrow> string list \<Rightarrow> string \<Rightarrow> finsh_shell \<Rightarrow> (string \<times> finsh_shell) option" where
  "shell_loop call n [] waiting s = Some (waiting, s)"
| "shell_loop call n (cs # css) waiting s =
     do { (waiting, s) \<leftarrow> shell_read call n (waiting @ cs) s; shell_loop call n css waiting s }"

definition finsh_thread_entry :: "vm_funs \<Rightarrow> nat \<Rightarrow> string list \<Rightarrow> finsh_shell \<Rightarrow> (string \<times> finsh_shell) option" where
  "finsh_thread_entry call n css s = do { s \<leftarrow> shell_start s; shell_loop call n css [] s }"

end
