(* ===== verification/Finsh_Edit.thy ===== *)
theory Finsh_Edit
  imports Finsh_Shell
begin

text \<open>
  The line editor of the shell refines a text with a cursor and a history, and what the terminal shows is
  that text behind the prompt.
\<close>

section \<open>Printing\<close>

definition console_ok :: "console \<Rightarrow> bool" where
  "console_ok c \<longleftrightarrow> length (rt_log_buf c) = RT_CONSOLEBUF_SIZE \<and> unat (rt_log_buf_at c) + RT_CONSOLEBUF_SIZE \<le> 2 ^ 32"

definition printed :: "string \<Rightarrow> finsh_shell \<Rightarrow> finsh_shell" where
  "printed t s = s\<lparr>con := (con s)\<lparr>rt_log_buf := buffer_text 126 t (rt_log_buf (con s)),
     console_output := console_output (con s) @ t\<rparr>\<rparr>"

lemma printed_simps [simp]:
  "stat (printed t s) = stat s" "echo_mode (printed t s) = echo_mode s"
  "current_history (printed t s) = current_history s" "history_count (printed t s) = history_count s"
  "cmd_history (printed t s) = cmd_history s" "shell_line (printed t s) = shell_line s"
  "line_position (printed t s) = line_position s" "line_curpos (printed t s) = line_curpos s"
  "interp (printed t s) = interp s" "console_output (con (printed t s)) = console_output (con s) @ t"
  by (simp_all add: printed_def)

lemma buffer_text_length: "126 < length b \<Longrightarrow> length (buffer_text 126 t b) = length b"
  by (simp add: buffer_text_def min_def)

lemma printed_ok [simp]: "console_ok (con s) \<Longrightarrow> console_ok (con (printed t s))"
  by (simp add: console_ok_def printed_def buffer_text_length RT_CONSOLEBUF_SIZE_def)

lemma kprint_printed:
  assumes "console_ok (con s)" "format_text fmt args = Some t" "length t \<le> 126"
  shows "kprint fmt args s = Some (printed t s)"
  using kprintf_text [of fmt args t "con s"] assms
  by (simp add: kprint_def console_ok_def printed_def RT_CONSOLEBUF_SIZE_def)

lemma format_plain: "CHR 0x25 \<notin> set fmt \<Longrightarrow> format_text fmt args = Some fmt"
  by (induct fmt) auto

lemma format_c: "format_text ''%c'' [Arg_int a] = Some [char_of (unat a)]"
  by (simp add: parse_spec_def flag_of_def parse_width_def isdigit_def parse_qualifier_def conversion_text_def char_text_def)

lemma format_s: "format_text (''%s'' @ cs) (Arg_str (Some x) # args) = map_option ((@) x) (format_text cs args)"
  by (cases "format_text cs args")
    (simp_all add: parse_spec_def flag_of_def parse_width_def isdigit_def parse_qualifier_def conversion_text_def string_text_def)

section \<open>The terminal\<close>

text \<open>
  The row the cursor is in, the column, and the characters of an escape sequence so far. A row has no
  end to the right; behind its characters it is blank.
\<close>

type_synonym terminal = "string \<times> nat \<times> string"

definition put_at :: "nat \<Rightarrow> char \<Rightarrow> string \<Rightarrow> string" where
  "put_at c ch r = (if c < length r then r[c := ch] else r @ replicate (c - length r) (CHR '' '') @ [ch])"

definition ERASE_LINE :: string where "ERASE_LINE = CHR 0x1B # ''[2K''"

fun tty :: "terminal \<Rightarrow> char \<Rightarrow> terminal" where
  "tty (r, c, e) ch =
     (if e \<noteq> [] then (if e @ [ch] = ERASE_LINE then ([], c, []) else (r, c, e @ [ch]))
      else if ch = CHR 0x1B then (r, c, [ch])
      else if ch = CHR 0x0D then (r, 0, [])
      else if ch = CHR 0x0A then ([], 0, [])
      else if ch = CHR 0x08 then (r, c - 1, [])
      else (put_at c ch r, c + 1, []))"

definition screen :: "finsh_shell \<Rightarrow> terminal" where
  "screen s = foldl tty ([], 0, []) (console_output (con s))"

lemma screen_printed: "screen (printed t s) = foldl tty (screen s) t"
  by (simp add: screen_def)

definition plain :: "char \<Rightarrow> bool" where
  "plain c \<longleftrightarrow> c \<notin> {CHR 0x00, CHR 0x08, CHR 0x09, CHR 0x0A, CHR 0x0D, CHR 0x1B, CHR 0x7F}"

text \<open>The row shows the text \<open>x\<close>, with the cursor in column \<open>c\<close>.\<close>

definition row_shows :: "string \<Rightarrow> nat \<Rightarrow> terminal \<Rightarrow> bool" where
  "row_shows x c t \<longleftrightarrow> (\<exists>k. t = (x @ replicate k (CHR '' ''), c, []))"

lemma tty_plain: "list_all plain x \<Longrightarrow> c \<le> length r \<Longrightarrow>
   foldl tty (r, c, []) x = (take c r @ x @ drop (c + length x) r, c + length x, [])"
proof (induct x arbitrary: r c)
  case (Cons a x)
  have "tty (r, c, []) a = (take c r @ a # drop (Suc c) r, Suc c, [])"
    using Cons(2,3) by (auto simp: plain_def put_at_def upd_conv_take_nth_drop)
  moreover have "foldl tty (take c r @ a # drop (Suc c) r, Suc c, []) x
      = (take (Suc c) (take c r @ a # drop (Suc c) r) @ x @ drop (Suc c + length x) (take c r @ a # drop (Suc c) r), Suc c + length x, [])"
    by (rule Cons(1)) (use Cons(2,3) in auto)
  ultimately show ?case using Cons(3) by (simp add: min_def add.commute del: tty.simps)
qed simp

lemma tty_backspaces: "foldl tty (r, c, []) (replicate n (CHR 0x08)) = (r, c - n, [])"
  by (induct n arbitrary: c) simp_all


section \<open>What the editor promises\<close>

record editor =
  edited :: string
  cursor :: nat
  past :: "string list"
  chosen :: nat

datatype key = Key_char char | Key_left | Key_right | Key_up | Key_down | Key_backspace

definition LINE_MAX :: nat where "LINE_MAX = FINSH_CMD_SIZE - 2"

definition recall :: "nat \<Rightarrow> editor \<Rightarrow> editor" where
  "recall i a = a\<lparr>edited := past a ! i, cursor := length (past a ! i), chosen := i\<rparr>"

text \<open>A full line takes no more characters.\<close>

primrec edit :: "key \<Rightarrow> editor \<Rightarrow> editor option" where
  "edit (Key_char c) a =
     (if plain c \<and> length (edited a) < LINE_MAX
      then Some (a\<lparr>edited := take (cursor a) (edited a) @ c # drop (cursor a) (edited a), cursor := cursor a + 1\<rparr>)
      else None)"
| "edit Key_left a = Some (a\<lparr>cursor := cursor a - 1\<rparr>)"
| "edit Key_right a = Some (a\<lparr>cursor := min (cursor a + 1) (length (edited a))\<rparr>)"
| "edit Key_up a = Some (if chosen a = 0 then a else recall (chosen a - 1) a)"
| "edit Key_down a = Some (if past a = [] then a else recall (min (chosen a + 1) (length (past a) - 1)) a)"
| "edit Key_backspace a =
     Some (if cursor a = 0 then a
           else a\<lparr>edited := take (cursor a - 1) (edited a) @ drop (cursor a) (edited a), cursor := cursor a - 1\<rparr>)"

fun edit_all :: "key list \<Rightarrow> editor \<Rightarrow> editor option" where
  "edit_all [] a = Some a"
| "edit_all (k # ks) a = do { a \<leftarrow> edit k a; edit_all ks a }"

primrec key_bytes :: "key \<Rightarrow> string" where
  "key_bytes (Key_char c) = [c]"
| "key_bytes Key_left = [CHR 0x1B, CHR ''['', CHR ''D'']"
| "key_bytes Key_right = [CHR 0x1B, CHR ''['', CHR ''C'']"
| "key_bytes Key_up = [CHR 0x1B, CHR ''['', CHR ''A'']"
| "key_bytes Key_down = [CHR 0x1B, CHR ''['', CHR ''B'']"
| "key_bytes Key_backspace = [CHR 0x7F]"

section \<open>How the buffers hold it\<close>

definition padded :: "string \<Rightarrow> string" where
  "padded x = x @ replicate (FINSH_CMD_SIZE - length x) NUL"

definition good_line :: "string \<Rightarrow> bool" where
  "good_line x \<longleftrightarrow> list_all plain x \<and> length x \<le> LINE_MAX"

definition holds_past :: "finsh_shell \<Rightarrow> string list \<Rightarrow> bool" where
  "holds_past s h \<longleftrightarrow> length h \<le> FINSH_HISTORY_LINES \<and> unat (history_count s) = length h
     \<and> length (cmd_history s) = FINSH_HISTORY_LINES \<and> take (length h) (cmd_history s) = map padded h
     \<and> list_all good_line h"

definition edits :: "finsh_shell \<Rightarrow> editor \<Rightarrow> bool" where
  "edits s a \<longleftrightarrow> stat s = WAIT_NORMAL \<and> echo_mode s \<and> console_ok (con s)
     \<and> good_line (edited a) \<and> cursor a \<le> length (edited a) \<and> chosen a \<le> length (past a)
     \<and> shell_line s = padded (edited a) \<and> unat (line_position s) = length (edited a) \<and> unat (line_curpos s) = cursor a
     \<and> holds_past s (past a) \<and> unat (current_history s) = chosen a
     \<and> row_shows (FINSH_PROMPT @ edited a) (length FINSH_PROMPT + cursor a) (screen s)"

lemmas line_sizes = FINSH_CMD_SIZE_def LINE_MAX_def FINSH_HISTORY_LINES_def

lemma plain_NUL: "list_all plain x \<Longrightarrow> NUL \<notin> set x"
  by (auto simp: list_all_iff plain_def)

lemma padded_length: "length x \<le> FINSH_CMD_SIZE \<Longrightarrow> length (padded x) = FINSH_CMD_SIZE"
  by (simp add: padded_def)

lemma string_at_padded:
  assumes "good_line x" "i \<le> length x"
  shows "string_at (padded x) i = Some (drop i x)"
proof -
  have n: "NUL \<notin> set (drop i x)" using plain_NUL [of x] assms(1) by (auto simp: good_line_def dest: in_set_dropD)
  have "takeWhile (\<lambda>c. c \<noteq> NUL) (drop i x @ replicate k NUL) = drop i x" for k
    by (subst takeWhile_append2) (use n in \<open>auto simp: takeWhile_replicate\<close>)
  then show ?thesis using assms by (simp add: string_at_def padded_def c_string_def good_line_def line_sizes)
qed

lemma nth_padded: "i < length x \<Longrightarrow> padded x ! i = x ! i"
  by (simp add: padded_def nth_append)

lemma good_insert:
  "good_line x \<Longrightarrow> plain c \<Longrightarrow> length x < LINE_MAX \<Longrightarrow> good_line (take i x @ c # drop i x)"
  by (auto simp: good_line_def list_all_iff dest: in_set_takeD in_set_dropD)

lemma good_delete: "good_line x \<Longrightarrow> good_line (take i x @ drop j x)" if "i \<le> j"
  using that by (auto simp: good_line_def list_all_iff dest: in_set_takeD in_set_dropD)

lemma padded_nth: "length x \<le> 80 \<Longrightarrow> i < 80 \<Longrightarrow> padded x ! i = (if i < length x then x ! i else NUL)"
  by (simp add: padded_def nth_append line_sizes)

lemma insert_padded:
  assumes "i \<le> length x" "length x < FINSH_CMD_SIZE"
  shows "\<exists>b. rt_memmove (i + 1) i (length x - i) (padded x) = Some b \<and> set_byte i c b = Some (padded (take i x @ c # drop i x))"
proof -
  let ?b = "take (i + 1) (padded x) @ take (length x - i) (drop i (padded x)) @ drop (length x + 1) (padded x)"
  have l: "length (padded x) = 80" using padded_length [of x] assms(2) by (simp add: line_sizes)
  have "?b[i := c] = padded (take i x @ c # drop i x)"
  proof (rule nth_equalityI)
    show "length (?b[i := c]) = length (padded (take i x @ c # drop i x))"
      using assms l by (simp add: padded_def line_sizes)
    fix j assume "j < length (?b[i := c])"
    then have "j < 80" using assms l by (simp add: line_sizes)
    then show "?b[i := c] ! j = padded (take i x @ c # drop i x) ! j"
      using assms l by (auto simp: nth_list_update nth_append padded_nth nth_Cons' line_sizes min_def)
  qed
  then show ?thesis using assms l by (simp add: rt_memmove_def set_byte_def line_sizes)
qed

lemma delete_padded:
  assumes "i < length x" "length x \<le> FINSH_CMD_SIZE"
  shows "\<exists>b. rt_memmove i (i + 1) (length x - 1 - i) (padded x) = Some b
    \<and> set_byte (length x - 1) NUL b = Some (padded (take i x @ drop (i + 1) x))"
proof -
  let ?b = "take i (padded x) @ take (length x - 1 - i) (drop (i + 1) (padded x)) @ drop (i + (length x - 1 - i)) (padded x)"
  have l: "length (padded x) = 80" using padded_length [of x] assms(2) by (simp add: line_sizes)
  have "?b[length x - 1 := NUL] = padded (take i x @ drop (i + 1) x)"
  proof (rule nth_equalityI)
    show "length (?b[length x - 1 := NUL]) = length (padded (take i x @ drop (i + 1) x))"
      using assms l by (simp add: padded_def line_sizes)
    fix j assume "j < length (?b[length x - 1 := NUL])"
    then have "j < 80" using assms l by (simp add: line_sizes)
    then show "?b[length x - 1 := NUL] ! j = padded (take i x @ drop (i + 1) x) ! j"
      using assms l by (auto simp: nth_list_update nth_append padded_nth line_sizes min_def)
  qed
  then show ?thesis using assms l by (auto simp: rt_memmove_def set_byte_def line_sizes)
qed


section \<open>Each key\<close>

lemma row_shows_type:
  "row_shows x c t \<Longrightarrow> c \<le> length x \<Longrightarrow> list_all plain y
     \<Longrightarrow> row_shows (take c x @ y @ drop (c + length y) x) (c + length y) (foldl tty t y)"
  by (auto simp: row_shows_def tty_plain simp del: tty.simps)

lemma row_shows_blanks: "row_shows (x @ replicate n (CHR '' '')) c t \<Longrightarrow> row_shows x c t"
  by (auto simp: row_shows_def simp flip: replicate_add)

lemma row_shows_erase: "row_shows x c t \<Longrightarrow> row_shows [] 0 (foldl tty t (CHR 0x1B # ''[2K'' @ [CHR 0x0D]))"
  by (auto simp: row_shows_def ERASE_LINE_def intro: exI [of _ 0])

lemma row_shows_left: "row_shows x c t \<Longrightarrow> row_shows x (c - n) (foldl tty t (replicate n (CHR 0x08)))"
  by (auto simp: row_shows_def tty_backspaces simp del: tty.simps)

lemma screen_left: "row_shows x c (screen s) \<Longrightarrow> row_shows x (c - 1) (screen (printed [CHR 0x08] s))"
  using row_shows_left [of x c "screen s" 1] by (simp add: screen_printed)

lemma kprint_text: "console_ok (con s) \<Longrightarrow> CHR 0x25 \<notin> set fmt \<Longrightarrow> length fmt \<le> 126 \<Longrightarrow> kprint fmt [] s = Some (printed fmt s)"
  by (rule kprint_printed) (auto intro: format_plain)

lemma kprint_char: "console_ok (con s) \<Longrightarrow> kprint ''%c'' [Arg_int (of_char c)] s = Some (printed [c] s)"
proof -
  have "of_char c = (of_nat (of_char c) :: u32)" by (rule of_nat_of_char [symmetric])
  then have "unat (of_char c :: u32) = of_char c mod 2 ^ 32" by (simp only: unat_of_nat) simp
  then have "unat (of_char c :: u32) = of_char c" using nat_of_char_less_256 [of c] by simp
  then show "console_ok (con s) \<Longrightarrow> ?thesis" using kprint_printed [of s "''%c''" "[Arg_int (of_char c)]" "[c]"] format_c [of "of_char c"] by simp
qed

text \<open>An operation that only prints.\<close>

definition prints :: "finsh_shell option \<Rightarrow> finsh_shell \<Rightarrow> string \<Rightarrow> bool" where
  "prints m s t \<longleftrightarrow> (\<exists>c. m = Some (s\<lparr>con := c\<rparr>) \<and> console_ok c \<and> console_output c = console_output (con s) @ t)"

lemma backspaces_prints: "console_ok (con s) \<Longrightarrow> prints (backspaces n s) s (replicate n (CHR 0x08))"
proof (induct n arbitrary: s)
  case (Suc n)
  have "prints (backspaces n (printed [CHR 0x08] s)) (printed [CHR 0x08] s) (replicate n (CHR 0x08))"
    by (rule Suc(1)) (simp add: Suc(2))
  then show ?case using Suc(2) by (auto simp: prints_def kprint_text printed_def)
qed (auto simp: prints_def intro!: exI [of _ "con s" for s])


lemma screen_con: "screen (s\<lparr>con := c\<rparr>) = foldl tty ([], 0, []) (console_output c)"
  by (simp add: screen_def)

lemma left_edits:
  assumes "edits s a"
  shows "\<exists>s'. left_key s = Some s' \<and> edits s' (a\<lparr>cursor := cursor a - 1\<rparr>) \<and> interp s' = interp s"
proof (cases "line_curpos s = 0")
  case True
  then have "cursor a = 0" using assms by (auto simp: edits_def)
  then show ?thesis using True assms by (simp add: left_key_def edits_def)
next
  case False
  then have "unat (line_curpos s) \<noteq> 0" by (simp add: unat_eq_zero)
  then have "0 < cursor a" "unat (line_curpos s - 1) = cursor a - 1"
    using assms False by (auto simp: edits_def unat_minus_one)
  moreover have "row_shows (FINSH_PROMPT @ edited a) (length FINSH_PROMPT + cursor a - 1) (screen (printed [CHR 0x08] s))"
    by (rule screen_left) (use assms in \<open>simp add: edits_def\<close>)
  ultimately show ?thesis using False assms
    by (auto simp: left_key_def kprint_text edits_def holds_past_def screen_def)
qed

lemma unat_Suc8: "unat (p :: u8) < 255 \<Longrightarrow> unat (p + 1) = unat p + 1"
  by (subst unat_add_lem [THEN iffD1]) simp_all

lemma row_shows_retype:
  assumes "row_shows x c t" "c < length x" "plain (x ! c)"
  shows "row_shows x (c + 1) (tty t (x ! c))"
  using row_shows_type [OF assms(1), of "[x ! c]"] assms(2,3) id_take_nth_drop [of c x] by simp

lemma right_edits:
  assumes "edits s a"
  shows "\<exists>s'. right_key s = Some s' \<and> edits s' (a\<lparr>cursor := min (cursor a + 1) (length (edited a))\<rparr>) \<and> interp s' = interp s"
proof (cases "line_curpos s < line_position s")
  case False
  then have "cursor a = length (edited a)" using assms by (auto simp: edits_def word_less_nat_alt)
  then show ?thesis using False assms by (simp add: right_key_def edits_def)
next
  case True
  then have c: "cursor a < length (edited a)" using assms by (auto simp: edits_def word_less_nat_alt)
  let ?c = "edited a ! cursor a"
  have g: "get_byte (unat (line_curpos s)) (shell_line s) = Some ?c"
    using c assms by (simp add: edits_def get_byte_def padded_def good_line_def line_sizes nth_append)
  have "plain ?c" using c assms by (auto simp: edits_def good_line_def list_all_length)
  then have "row_shows (FINSH_PROMPT @ edited a) (length FINSH_PROMPT + cursor a + 1) (screen (printed [?c] s))"
    using row_shows_retype [of "FINSH_PROMPT @ edited a" "length FINSH_PROMPT + cursor a" "screen s"] c assms
    by (simp add: edits_def screen_printed nth_append)
  moreover have "unat (line_curpos s + 1) = cursor a + 1"
    using c assms by (subst unat_Suc8) (auto simp: edits_def good_line_def line_sizes)
  ultimately show ?thesis using True assms g c
    by (simp add: right_key_def kprint_char edits_def holds_past_def screen_def min_def)
qed


lemma set_end:
  assumes "length x < FINSH_CMD_SIZE"
  shows "set_byte (length x) c (padded x) = Some (padded (x @ [c]))"
proof -
  have "FINSH_CMD_SIZE - length x = Suc (FINSH_CMD_SIZE - Suc (length x))" using assms by simp
  then show ?thesis using assms by (simp add: set_byte_def padded_def list_update_append)
qed

lemma kprint_s: "console_ok (con s) \<Longrightarrow> length x \<le> 126 \<Longrightarrow> kprint ''%s'' [Arg_str (Some x)] s = Some (printed x s)"
  using kprint_printed [of s "''%s''" "[Arg_str (Some x)]" x] format_s [of "''''" x "[]"] by simp

lemma take_Suc_snoc: "i < length x \<Longrightarrow> take (Suc i) x = take i x @ [x ! i]"
  by (rule take_Suc_conv_app_nth)

lemma character_edits:
  assumes e: "edits s a" and ch: "plain ch" "length (edited a) < LINE_MAX"
  shows "\<exists>s'. character_key ch s = Some s'
    \<and> edits s' (a\<lparr>edited := take (cursor a) (edited a) @ ch # drop (cursor a) (edited a), cursor := cursor a + 1\<rparr>)
    \<and> interp s' = interp s"
proof -
  let ?x = "edited a" and ?c = "cursor a" and ?p = "length FINSH_PROMPT"
  let ?x' = "take ?c ?x @ ch # drop ?c ?x"
  have good: "good_line ?x'" using e ch by (auto simp: edits_def intro: good_insert)
  have l: "\<not> FINSH_CMD_SIZE \<le> unat (line_position s)" using e ch(2) by (simp add: edits_def line_sizes)
  have u: "unat (line_position s + 1) = length ?x + 1" "unat (line_curpos s + 1) = ?c + 1"
    using e ch(2) by (auto simp: edits_def line_sizes unat_Suc8)
  note d = e [unfolded edits_def]
  show ?thesis
  proof (cases "line_curpos s < line_position s")
    case False
    then have c: "?c = length ?x" using d by (auto simp: word_less_nat_alt)
    have b: "set_byte (unat (line_position s)) ch (shell_line s) = Some (padded (?x @ [ch]))"
      using set_end [of ?x ch] d ch(2) by (simp add: line_sizes)
    have "row_shows (FINSH_PROMPT @ ?x @ [ch]) (?p + (length ?x + 1)) (screen (printed [ch] s))"
      using row_shows_type [of "FINSH_PROMPT @ ?x" "?p + length ?x" "screen s" "[ch]"] d c ch(1)
      by (simp add: screen_printed del: tty.simps)
    then show ?thesis using False l b u good c d
      by (simp add: character_key_def Let_def kprint_char holds_past_def screen_def edits_def del: tty.simps)
  next
    case True
    then have c: "?c < length ?x" using d by (auto simp: word_less_nat_alt)
    obtain b where b: "rt_memmove (?c + 1) ?c (length ?x - ?c) (padded ?x) = Some b" "set_byte ?c ch b = Some (padded ?x')"
      using insert_padded [of ?c ?x ch] c ch(2) by (auto simp: line_sizes)
    have str: "string_at (padded ?x') ?c = Some (ch # drop ?c ?x)"
      using string_at_padded [OF good, of ?c] c by (simp add: min_def)
    let ?y = "ch # drop ?c ?x"
    let ?s = "printed ?y (s\<lparr>shell_line := padded ?x'\<rparr>)"
    have k: "kprint ''%s'' [Arg_str (Some ?y)] (s\<lparr>shell_line := padded ?x'\<rparr>) = Some ?s"
      using d ch(2) by (intro kprint_s) (auto simp: line_sizes)
    have ok: "console_ok (con ?s)" using d by simp
    obtain k where bs: "backspaces (length ?x - ?c) ?s = Some (?s\<lparr>con := k\<rparr>)" "console_ok k"
      "console_output k = console_output (con ?s) @ replicate (length ?x - ?c) (CHR 0x08)"
      using backspaces_prints [OF ok, of "length ?x - ?c"] by (auto simp: prints_def)
    have "list_all plain ?y" using good by (simp add: good_line_def)
    then have "row_shows (FINSH_PROMPT @ ?x') (?p + ?c + length ?y) (foldl tty (screen s) ?y)"
      using row_shows_type [of "FINSH_PROMPT @ ?x" "?p + ?c" "screen s" ?y] d c by (simp add: Suc_diff_le)
    from row_shows_left [OF this, of "length ?x - ?c"]
    have "row_shows (FINSH_PROMPT @ ?x') (?p + (?c + 1)) (foldl tty ([], 0, []) (console_output k))"
      using c by (simp add: bs(3) screen_def del: tty.simps)
    then show ?thesis using True l b str k bs(1,2) u good c d
      by (simp add: character_key_def Let_def holds_past_def screen_def edits_def del: tty.simps)
  qed
qed


lemma format_backspace:
  "format_text (CHR 0x08 # ''%s  '' @ [CHR 0x08]) [Arg_str (Some x)] = Some (CHR 0x08 # x @ [CHR '' '', CHR '' '', CHR 0x08])"
  using format_s [of "[CHR '' '', CHR '' '', CHR 0x08]" x "[]"] by simp

lemma row_shows_step_left: "row_shows x c t \<Longrightarrow> row_shows x (c - 1) (tty t (CHR 0x08))"
  using row_shows_left [of x c t 1] by simp

lemma plain_blank: "plain (CHR '' '')"
  by (simp add: plain_def)

lemma backspace_edits:
  assumes e: "edits s a" and pos: "0 < cursor a"
  shows "\<exists>s'. backspace_key s = Some s'
    \<and> edits s' (a\<lparr>edited := take (cursor a - 1) (edited a) @ drop (cursor a) (edited a), cursor := cursor a - 1\<rparr>)
    \<and> interp s' = interp s"
proof -
  let ?x = "edited a" and ?c = "cursor a - 1" and ?p = "length FINSH_PROMPT"
  let ?x' = "take ?c ?x @ drop (cursor a) ?x"
  note d = e [unfolded edits_def]
  have c1: "cursor a = Suc ?c" using pos by simp
  have c: "?c < length ?x" using d pos by linarith
  have good: "good_line ?x'" using d by (intro good_delete) auto
  have n0: "line_curpos s \<noteq> 0" "line_position s \<noteq> 0"
    using d pos by (auto simp: word_unat_eq_iff)
  have u: "unat (line_position s - 1) = length ?x - 1" "unat (line_curpos s - 1) = ?c"
    using d n0 by (simp_all add: unat_minus_one)
  let ?s0 = "s\<lparr>line_position := line_position s - 1, line_curpos := line_curpos s - 1\<rparr>"
  have left: "row_shows (FINSH_PROMPT @ ?x) (?p + ?c) (tty (screen s) (CHR 0x08))"
    using row_shows_step_left [of "FINSH_PROMPT @ ?x" "?p + cursor a" "screen s"] d pos by simp
  show ?thesis
  proof (cases "line_curpos s - 1 < line_position s - 1")
    case False
    then have "\<not> ?c < length ?x - 1" using u by (simp add: word_less_nat_alt)
    moreover have "cursor a \<le> length ?x" using d by simp
    ultimately have end': "length ?x = cursor a" using pos by linarith
    have b: "set_byte (length ?x - 1) NUL (padded ?x) = Some (padded ?x')"
      using delete_padded [OF c] d end' c1
      by (auto simp: rt_memmove_def good_line_def line_sizes split: if_splits)
    have "row_shows ((FINSH_PROMPT @ take ?c ?x) @ replicate 1 (CHR '' '')) (?p + ?c + 1)
        (foldl tty (tty (screen s) (CHR 0x08)) '' '')"
      using row_shows_type [OF left, of "'' ''"] c c1 end' plain_blank by (simp del: tty.simps)
    from row_shows_step_left [OF row_shows_blanks [OF this]]
    have "row_shows (FINSH_PROMPT @ ?x') (?p + ?c) (screen (printed [CHR 0x08, CHR '' '', CHR 0x08] ?s0))"
      using end' by (simp add: screen_printed screen_def del: tty.simps)
    then show ?thesis using False n0 b u good d end'
      by (simp add: backspace_key_def Let_def kprint_text holds_past_def screen_def edits_def del: tty.simps)
  next
    case True
    then have "?c < length ?x - 1" using u by (simp add: word_less_nat_alt)
    then have c2: "cursor a < length ?x" using pos by linarith
    let ?y = "drop (cursor a) ?x"
    obtain b where b: "rt_memmove ?c (?c + 1) (length ?x - 1 - ?c) (padded ?x) = Some b"
      "set_byte (length ?x - 1) NUL b = Some (padded ?x')"
      using delete_padded [OF c] d c1 by (auto simp: good_line_def line_sizes)
    have str: "string_at (padded ?x') ?c = Some ?y"
      using string_at_padded [OF good, of ?c] c by (simp add: min_def)
    let ?t = "CHR 0x08 # ?y @ [CHR '' '', CHR '' '', CHR 0x08]"
    let ?s1 = "?s0\<lparr>shell_line := padded ?x'\<rparr>" and ?s = "printed ?t (?s0\<lparr>shell_line := padded ?x'\<rparr>)"
    have k: "kprint (CHR 0x08 # ''%s  '' @ [CHR 0x08]) [Arg_str (Some ?y)] ?s1 = Some ?s"
      by (rule kprint_printed) (use d format_backspace in \<open>auto simp: good_line_def line_sizes\<close>)
    have ok: "console_ok (con ?s)" using d by simp
    let ?n = "length ?x - 1 - ?c + 1"
    obtain q where bs: "backspaces ?n ?s = Some (?s\<lparr>con := q\<rparr>)" "console_ok q"
      "console_output q = console_output (con ?s) @ replicate ?n (CHR 0x08)"
      using backspaces_prints [OF ok, of ?n] by (auto simp: prints_def)
    have y: "list_all plain (?y @ '' '' @ '' '')"
      using good plain_blank by (simp add: good_line_def)
    have "row_shows ((FINSH_PROMPT @ ?x') @ replicate 2 (CHR '' '')) (?p + ?c + (length ?y + 2))
        (foldl tty (tty (screen s) (CHR 0x08)) (?y @ '' '' @ '' ''))"
      using row_shows_type [OF left _ y] c c2 by (simp add: numeral_2_eq_2 del: tty.simps)
    from row_shows_left [OF row_shows_step_left [OF row_shows_blanks [OF this]], of ?n]
    have "row_shows (FINSH_PROMPT @ ?x') (?p + ?c) (foldl tty ([], 0, []) (console_output q))"
      using c2 c1 by (simp add: bs(3) screen_def del: tty.simps)
    then show ?thesis using True n0 b str k bs(1,2) u good c d
      by (simp add: backspace_key_def Let_def holds_past_def screen_def edits_def del: tty.simps backspaces.simps)
        (use c2 pos in linarith)
  qed
qed


lemma kprint_line:
  assumes "console_ok (con s)" "length x \<le> LINE_MAX"
  shows "kprint ''%s%s'' [Arg_str (Some FINSH_PROMPT), Arg_str (Some x)] s = Some (printed (FINSH_PROMPT @ x) s)"
proof (rule kprint_printed [OF assms(1)])
  show "format_text ''%s%s'' [Arg_str (Some FINSH_PROMPT), Arg_str (Some x)] = Some (FINSH_PROMPT @ x)"
    using format_s [of "''%s''" FINSH_PROMPT "[Arg_str (Some x)]"] format_s [of "''''" x "[]"] by simp
  show "length (FINSH_PROMPT @ x) \<le> 126" using assms(2) by (simp add: FINSH_PROMPT_def line_sizes)
qed

lemma plain_prompt: "list_all plain FINSH_PROMPT"
  by (simp add: FINSH_PROMPT_def plain_def)

lemma past_nth:
  assumes "holds_past s h" "i < length h"
  shows "cmd_history s ! i = padded (h ! i)" "good_line (h ! i)" "i < length (cmd_history s)"
proof -
  have "take (length h) (cmd_history s) ! i = map padded h ! i" using assms by (simp add: holds_past_def)
  then show "cmd_history s ! i = padded (h ! i)" using assms(2) by simp
qed (use assms in \<open>auto simp: holds_past_def list_all_length\<close>)

lemma load_edits:
  assumes e: "edits s a" and i: "i < length (past a)" "unat k = i"
  shows "\<exists>s'. load_history (s\<lparr>current_history := k\<rparr>) = Some s' \<and> edits s' (recall i a) \<and> interp s' = interp s"
proof -
  note d = e [unfolded edits_def]
  let ?x = "past a ! i"
  have h: "holds_past s (past a)" using d by simp
  note p = past_nth [OF h i(1)]
  have g: "list_all plain ?x" "length ?x \<le> LINE_MAX" using p(2) by (simp_all add: good_line_def)
  then have u: "unat (of_nat (length ?x) :: u8) = length ?x" by (simp add: unat_of_nat line_sizes)
  have str: "string_at (padded ?x) 0 = Some ?x" using string_at_padded [OF p(2), of 0] by simp
  let ?e = "CHR 0x1B # ''[2K'' @ [CHR 0x0D]"
  have "row_shows (FINSH_PROMPT @ ?x) (length FINSH_PROMPT + length ?x) (foldl tty (foldl tty (screen s) ?e) (FINSH_PROMPT @ ?x))"
    using row_shows_type [OF row_shows_erase, of "FINSH_PROMPT @ edited a" "length FINSH_PROMPT + cursor a" "screen s" "FINSH_PROMPT @ ?x"]
      d g(1) plain_prompt by (simp del: tty.simps)
  then show ?thesis using d p i u str g(2)
    by (simp add: load_history_def shell_handle_history_def Let_def kprint_text kprint_line edits_def recall_def holds_past_def
        screen_def line_sizes del: tty.simps)
qed

lemma up_edits:
  assumes e: "edits s a"
  shows "\<exists>s'. up_key s = Some s' \<and> edits s' (if chosen a = 0 then a else recall (chosen a - 1) a) \<and> interp s' = interp s"
proof (cases "chosen a = 0")
  case True
  then have "current_history s = 0" using e by (simp add: edits_def unat_eq_zero)
  then show ?thesis using True e by (simp add: up_key_def edits_def holds_past_def screen_def)
next
  case False
  then have "current_history s \<noteq> 0" using e by (auto simp: edits_def)
  then have "unat (current_history s - 1) = chosen a - 1" "0 < current_history s"
    using e by (auto simp: edits_def unat_minus_one word_gt_0)
  moreover have "chosen a - 1 < length (past a)" using e False unfolding edits_def by linarith
  ultimately show ?thesis using load_edits [OF e] False by (simp add: up_key_def)
qed

lemma down_edits:
  assumes e: "edits s a"
  shows "\<exists>s'. down_key s = Some s'
    \<and> edits s' (if past a = [] then a else recall (min (chosen a + 1) (length (past a) - 1)) a) \<and> interp s' = interp s"
proof -
  have u: "unat (history_count s) = length (past a)" "unat (current_history s) = chosen a"
    "chosen a \<le> length (past a)" "length (past a) \<le> 5"
    using e by (auto simp: edits_def holds_past_def line_sizes)
  have "uint (current_history s) = int (chosen a)" "uint (history_count s) = int (length (past a))"
    using u by (metis uint_nat)+
  then have c: "uint (current_history s) < uint (history_count s) - 1 \<longleftrightarrow> chosen a + 1 < length (past a)" by auto
  have n: "history_count s = 0 \<longleftrightarrow> past a = []" using u(1) by (auto simp: unat_eq_zero word_unat_eq_iff)
  show ?thesis
  proof (cases "chosen a + 1 < length (past a)")
    case True
    then have "unat (current_history s + 1) = chosen a + 1"
      using u by (subst unat_add_lem [THEN iffD1]) auto
    then show ?thesis using load_edits [OF e True] True c by (auto simp: down_key_def min_def)
  next
    case False
    show ?thesis
    proof (cases "past a = []")
      case True
      then show ?thesis using False c n e by (simp add: down_key_def)
    next
      case ne: False
      then have "unat (history_count s - 1) = length (past a) - 1" using n u(1) by (simp add: unat_minus_one)
      moreover have "min (chosen a + 1) (length (past a) - 1) = length (past a) - 1" using False ne by (simp add: min_def)
      moreover have "length (past a) - 1 < length (past a)" using ne by simp
      ultimately show ?thesis using load_edits [OF e, of "length (past a) - 1"] False c n ne by (simp add: down_key_def)
    qed
  qed
qed

text \<open>Every key does to the buffers and to the terminal what it is meant to do.\<close>

lemma idle_escape:
  "stat s = WAIT_NORMAL \<Longrightarrow> c \<noteq> CHR 0x1B \<Longrightarrow> shell_escape c s = Some (False, s)"
  by (simp add: shell_escape_def)

lemma escape_sequence:
  assumes "stat s = WAIT_NORMAL" "f \<in> {CHR ''A'', CHR ''B'', CHR ''C'', CHR ''D''}"
  shows "shell_read call n (CHR 0x1B # CHR ''['' # f # cs) s =
    (do { s \<leftarrow> (if f = CHR ''A'' then up_key s else if f = CHR ''B'' then down_key s
                 else if f = CHR ''D'' then left_key s else right_key s); shell_read call n cs s })"
proof -
  have "s\<lparr>stat := WAIT_NORMAL\<rparr> = s" using assms(1) by simp
  then show ?thesis using assms(2) by (auto simp: shell_escape_def bind_map_option o_def)
qed

lemma key_edits:
  assumes e: "edits s a" and k: "edit k a = Some a'"
  shows "\<exists>s'. shell_read call n (key_bytes k @ cs) s = shell_read call n cs s' \<and> edits s' a' \<and> interp s' = interp s"
proof -
  have st: "stat s = WAIT_NORMAL" using e by (simp add: edits_def)
  show ?thesis
  proof (cases k)
    case (Key_char c)
    then have c: "plain c" "length (edited a) < LINE_MAX" using k by (auto split: if_splits)
    then have "c \<notin> {CHR 0x1B, CHR 0x09, CHR 0x7F, CHR 0x08, CHR 0x0D, CHR 0x0A}" by (auto simp: plain_def)
    then have "shell_read call n (key_bytes k @ cs) s = do { s \<leftarrow> character_key c s; shell_read call n cs s }"
      using Key_char by (simp add: idle_escape st next_key_def)
    then show ?thesis using character_edits [OF e c] k Key_char c by auto
  next
    case Key_backspace
    then have "shell_read call n (key_bytes k @ cs) s = do { s \<leftarrow> backspace_key s; shell_read call n cs s }"
      by (simp add: idle_escape st)
    moreover have "cursor a = 0 \<Longrightarrow> backspace_key s = Some s"
      using e by (simp add: backspace_key_def edits_def unat_eq_zero)
    ultimately show ?thesis using backspace_edits [OF e] k Key_backspace e by (cases "cursor a = 0") auto
  qed (use k st left_edits [OF e] right_edits [OF e] up_edits [OF e] down_edits [OF e] in \<open>auto simp: escape_sequence simp del: shell_read.simps\<close>)
qed

lemma keys_edit:
  "edits s a \<Longrightarrow> edit_all ks a = Some a' \<Longrightarrow>
     \<exists>s'. shell_read call n (concat (map key_bytes ks) @ cs) s = shell_read call n cs s' \<and> edits s' a' \<and> interp s' = interp s"
proof (induct ks arbitrary: s a)
  case (Cons k ks)
  then obtain a1 where a1: "edit k a = Some a1" "edit_all ks a1 = Some a'" by (auto simp: Option.bind_eq_Some_conv)
  obtain s1 where s1: "shell_read call n (key_bytes k @ concat (map key_bytes ks) @ cs) s = shell_read call n (concat (map key_bytes ks) @ cs) s1"
    "edits s1 a1" "interp s1 = interp s"
    using key_edits [OF Cons(2) a1(1), of call n "concat (map key_bytes ks) @ cs"] by auto
  show ?case using Cons(1) [OF s1(2) a1(2)] s1 by auto
qed auto

end
