(* ===== verification/Finsh_Lex.thy ===== *)
theory Finsh_Lex
  imports Finsh_Token
begin

text \<open>
  What the lexer makes of a line of tokens that are separated by blanks: the tokens, one after the
  other, with their values, and then the end.
\<close>

section \<open>Tokens as text\<close>

datatype tok = TId string | TInt u32 | TLong u32 | TChar u8 | TNull | TOp finsh_token_type

fun digits :: "nat \<Rightarrow> string" where
  "digits n = (if n < 10 then [char_of (48 + n)] else digits (n div 10) @ [char_of (48 + n mod 10)])"

declare digits.simps [simp del]

definition op_text :: "finsh_token_type \<Rightarrow> string" where
  "op_text k =
     (case k of
        finsh_token_type_left_paren \<Rightarrow> ''('' | finsh_token_type_right_paren \<Rightarrow> '')'' | finsh_token_type_comma \<Rightarrow> '',''
      | finsh_token_type_semicolon \<Rightarrow> '';'' | finsh_token_type_mul \<Rightarrow> ''*'' | finsh_token_type_add \<Rightarrow> ''+''
      | finsh_token_type_inc \<Rightarrow> ''++'' | finsh_token_type_sub \<Rightarrow> ''-'' | finsh_token_type_dec \<Rightarrow> ''--''
      | finsh_token_type_div \<Rightarrow> ''/'' | finsh_token_type_mod \<Rightarrow> ''%'' | finsh_token_type_assign \<Rightarrow> ''=''
      | finsh_token_type_and \<Rightarrow> ''&'' | finsh_token_type_or \<Rightarrow> ''|'' | finsh_token_type_xor \<Rightarrow> ''^''
      | finsh_token_type_bitwise \<Rightarrow> ''~'' | finsh_token_type_shl \<Rightarrow> ''<<'' | finsh_token_type_shr \<Rightarrow> ''>>''
      | _ \<Rightarrow> '''')"

primrec tok_text :: "tok \<Rightarrow> string" where
  "tok_text (TId x) = x"
| "tok_text (TInt i) = digits (unat i)"
| "tok_text (TLong i) = digits (unat i) @ ''L''"
| "tok_text (TChar c) = [CHR 0x27, char_of (unat c), CHR 0x27]"
| "tok_text TNull = ''NULL''"
| "tok_text (TOp k) = op_text k"

primrec tok_type :: "tok \<Rightarrow> finsh_token_type" where
  "tok_type (TId x) = finsh_token_type_identifier"
| "tok_type (TInt i) = finsh_token_type_value_int"
| "tok_type (TLong i) = finsh_token_type_value_long"
| "tok_type (TChar c) = finsh_token_type_value_char"
| "tok_type TNull = finsh_token_type_value_null"
| "tok_type (TOp k) = k"

text \<open>The value a token leaves in the state of the lexer.\<close>

primrec holds :: "tok \<Rightarrow> finsh_token \<Rightarrow> bool" where
  "holds (TId x) t \<longleftrightarrow> c_string (tok_string t) = x"
| "holds (TInt i) t \<longleftrightarrow> tok_value t = i"
| "holds (TLong i) t \<longleftrightarrow> tok_value t = i"
| "holds (TChar c) t \<longleftrightarrow> char_value (tok_value t) = c"
| "holds TNull t \<longleftrightarrow> True"
| "holds (TOp k) t \<longleftrightarrow> True"

definition is_name :: "string \<Rightarrow> bool" where
  "is_name x \<longleftrightarrow> x \<noteq> [] \<and> \<not> is_digit (hd x) \<and> list_all (\<lambda>c. \<not> is_separator c) x \<and> length x < FINSH_STRING_MAX"

definition is_identifier :: "string \<Rightarrow> bool" where
  "is_identifier x \<longleftrightarrow> is_name x \<and> map_of finsh_name_table x = None"

primrec valid_tok :: "tok \<Rightarrow> bool" where
  "valid_tok (TId x) \<longleftrightarrow> is_identifier x"
| "valid_tok (TInt i) \<longleftrightarrow> True"
| "valid_tok (TLong i) \<longleftrightarrow> True"
| "valid_tok (TChar c) \<longleftrightarrow> c \<noteq> 0 \<and> c \<noteq> 10 \<and> c \<noteq> 92"
| "valid_tok TNull \<longleftrightarrow> True"
| "valid_tok (TOp k) \<longleftrightarrow> op_text k \<noteq> []"

text \<open>A blank behind every token but a last semicolon.\<close>

primrec toks_text :: "tok list \<Rightarrow> string" where
  "toks_text [] = []"
| "toks_text (k # ks) =
     (if k = TOp finsh_token_type_semicolon \<and> ks = [] then '';'' else tok_text k @ CHR '' '' # toks_text ks)"

section \<open>Reading\<close>

definition rest :: "finsh_token \<Rightarrow> string" where "rest t = drop (tok_position t) (tok_line t)"

definition adv :: "nat \<Rightarrow> finsh_token \<Rightarrow> finsh_token" where "adv n t = t\<lparr>tok_position := tok_position t + n\<rparr>"

lemma rest_adv [simp]: "rest (adv n t) = drop n (rest t)"
  by (simp add: rest_def adv_def add.commute)

lemma adv_simps [simp]:
  "tok_eof (adv n t) = tok_eof t" "tok_replay (adv n t) = tok_replay t" "tok_string (adv n t) = tok_string t"
  "tok_line (adv n t) = tok_line t" "tok_value (adv n t) = tok_value t" "adv m (adv n t) = adv (n + m) t" "adv 0 t = t"
  by (simp_all add: adv_def)

lemma rest_update [simp]:
  "rest (t\<lparr>tok_string := x\<rparr>) = rest t" "rest (t\<lparr>tok_value := v\<rparr>) = rest t" "rest (t\<lparr>current_token := k\<rparr>) = rest t"
  "rest (t\<lparr>tok_eof := e\<rparr>) = rest t" "rest (t\<lparr>tok_replay := e\<rparr>) = rest t"
  by (simp_all add: rest_def)

lemma next_char_rest:
  assumes "\<not> tok_eof t" "rest t = c # r" "c \<noteq> CHR 0x0A"
  shows "token_next_char t = (c, adv 1 t)"
proof -
  have p: "tok_position t < length (tok_line t)" using assms(2) by (simp add: rest_def) (metis drop_eq_Nil list.distinct(1) not_less)
  then have "tok_line t ! tok_position t = c" using assms(2) by (simp add: rest_def Cons_nth_drop_Suc [symmetric])
  with p assms show ?thesis by (simp add: token_next_char_def adv_def)
qed

lemma prev_char_adv [simp]: "\<not> tok_eof t \<Longrightarrow> token_prev_char (adv (Suc n) t) = adv n t"
  by (simp add: token_prev_char_def adv_def)

lemma read_while_rest:
  assumes "\<not> tok_eof t" "rest t = cs @ d # r" "\<forall>x \<in> set (c # cs). P x \<and> x \<noteq> NUL \<and> x \<noteq> CHR 0x0A" "\<not> P d" "d \<noteq> CHR 0x0A"
  shows "read_while P c t = (c # cs, d, adv (Suc (length cs)) t)"
  using assms
proof (induct cs arbitrary: c t)
  case Nil
  then show ?case
    by (simp add: read_while.simps [of P c] read_while.simps [of P d] next_char_rest)
next
  case (Cons c' cs)
  have "token_next_char t = (c', adv 1 t)" using Cons by (intro next_char_rest) auto
  moreover have "read_while P c' (adv 1 t) = (c' # cs, d, adv (Suc (length cs)) (adv 1 t))"
    using Cons by (intro Cons(1)) auto
  ultimately show ?case using Cons(4) by (simp add: read_while.simps [of P c])
qed

section \<open>Numbers\<close>

lemma code_of_char [simp]: "n < 256 \<Longrightarrow> code_of (char_of n) = int n"
proof -
  assume n: "n < 256"
  have "of_char (char_of (int n)) = int n mod 256" by (rule of_char_of)
  with n show ?thesis by (simp add: code_of_def)
qed

lemma digits_digits: "x \<in> set (digits n) \<Longrightarrow> is_digit x"
proof (induct n arbitrary: x rule: digits.induct)
  case (1 n)
  then show ?case by (auto simp: digits.simps [of n] is_digit_def split: if_splits)
qed

lemma digits_not_Nil [simp]: "digits n \<noteq> []"
  by (simp add: digits.simps [of n])

lemma decimal_append: "decimal (xs @ [c]) = decimal xs * 10 + word_of_int (code_of c - 48)"
  by (simp add: decimal_def)

lemma decimal_digits: "decimal (digits n) = of_nat n"
proof (induct n rule: digits.induct)
  case (1 n)
  show ?case
  proof (cases "n < 10")
    case True
    then show ?thesis by (simp add: digits.simps [of n] decimal_def)
  next
    case False
    have "decimal (digits n) = of_nat (n div 10) * 10 + of_nat (n mod 10)"
      using False 1 by (simp add: digits.simps [of n] decimal_append)
    also have "\<dots> = of_nat (n div 10 * 10 + n mod 10)" by (simp only: of_nat_add of_nat_mult of_nat_numeral)
    finally show ?thesis by simp
  qed
qed

lemma hd_digits: "hd (digits n) = CHR ''0'' \<longleftrightarrow> n = 0"
proof (induct n rule: digits.induct)
  case (1 n)
  have "char_of (48 + n) = CHR ''0'' \<longleftrightarrow> n = 0" if "n < 10"
    using that by (simp add: char_of_eq_iff take_bit_eq_mod)
  then show ?case using 1 by (auto simp: digits.simps [of n])
qed

lemma digit_plain: "is_digit c \<Longrightarrow> c \<noteq> NUL \<and> c \<noteq> CHR 0x0A \<and> c \<noteq> CHR '' '' \<and> \<not> is_separator c"
  by (auto simp: is_digit_def is_separator_def code_of_def)

lemma separator_plain: "\<not> is_separator c \<Longrightarrow> c \<noteq> NUL \<and> c \<noteq> CHR 0x0A \<and> c \<noteq> CHR '' '' \<and> c \<noteq> CHR 0x09 \<and> c \<noteq> CHR 0x0D"
  by (auto simp: is_digit_def is_separator_def code_of_def)

definition number_end :: "char \<Rightarrow> bool" where "number_end d \<longleftrightarrow> d = CHR '' '' \<or> d = CHR ''L''"

lemma proc_number_digits:
  assumes "\<not> tok_eof t" "rest t = digits n @ d # r" "number_end d"
  shows "token_proc_number t = Some (token_suffix d (of_nat n) (adv (Suc (length (digits n))) t))"
proof -
  obtain c cs where c: "digits n = c # cs" by (cases "digits n") auto
  have all: "\<forall>x \<in> set (c # cs). is_digit x \<and> x \<noteq> NUL \<and> x \<noteq> CHR 0x0A"
    using digits_digits [of _ n] digit_plain c by auto
  have d: "\<not> is_digit d" "d \<noteq> CHR 0x0A" "d \<noteq> CHR ''x''" "d \<noteq> CHR ''X''" "d \<noteq> CHR ''b''" "d \<noteq> CHR ''B''"
    using assms(3) by (auto simp: number_end_def is_digit_def code_of_def)
  have 1: "token_next_char t = (c, adv 1 t)" using assms c all by (intro next_char_rest) auto
  have hd: "c = CHR ''0'' \<longleftrightarrow> n = 0" using hd_digits [of n] c by simp
  show ?thesis
  proof (cases "n = 0")
    case True
    then have cs: "cs = []" "c = CHR ''0''" using c hd by (auto simp: digits.simps [of 0])
    have "token_next_char (adv 1 t) = (d, adv 1 (adv 1 t))" using assms c cs d by (intro next_char_rest) auto
    then show ?thesis using True 1 c cs d
      by (simp add: token_proc_number_def token_based_def read_while.simps [of is_digit d] token_spec_number_def)
  next
    case False
    have "read_while is_digit c (adv 1 t) = (c # cs, d, adv (Suc (length cs)) (adv 1 t))"
      using assms c all d by (intro read_while_rest) auto
    then show ?thesis using False 1 hd decimal_digits [of n] c by (simp add: token_proc_number_def)
  qed
qed

section \<open>One token\<close>

definition lex_at :: "finsh_token \<Rightarrow> tok list \<Rightarrow> bool" where
  "lex_at t ks \<longleftrightarrow> \<not> tok_eof t \<and> \<not> tok_replay t \<and> length (tok_string t) = FINSH_STRING_MAX
     \<and> (rest t = toks_text ks \<or> rest t = CHR '' '' # toks_text ks)"

definition blank :: "char \<Rightarrow> bool" where "blank c \<longleftrightarrow> c = CHR '' '' \<or> c = CHR 0x09 \<or> c = CHR 0x0D"

lemma trim_plain:
  assumes "\<not> tok_eof t" "rest t = c # r" "\<not> blank c" "c \<noteq> CHR 0x0A"
  shows "token_trim_space t = t"
  using assms prev_char_adv [of t 0] by (simp add: token_trim_space.simps [of t] next_char_rest blank_def)

lemma trim_blank:
  assumes "\<not> tok_eof t" "rest t = CHR '' '' # c # r" "\<not> blank c" "c \<noteq> CHR 0x0A"
  shows "token_trim_space t = adv 1 t"
  using assms trim_plain [of "adv 1 t" c r] by (simp add: token_trim_space.simps [of t] next_char_rest)

text \<open>A digit or a separator ahead: no identifier is read.\<close>

lemma get_string_other:
  assumes "\<not> tok_eof t" "rest t = c # r" "is_digit c \<or> is_separator c" "c \<noteq> CHR 0x0A" "tok_string t \<noteq> []"
  shows "\<exists>b. token_get_string t = Some (t\<lparr>tok_string := NUL # b\<rparr>) \<and> length b + 1 = length (tok_string t)"
proof -
  obtain x b where b: "tok_string t = x # b" using assms(5) by (cases "tok_string t") auto
  have 1: "token_next_char t = (c, adv 1 t)" using assms by (intro next_char_rest) auto
  have p: "token_prev_char (adv 1 t\<lparr>tok_string := NUL # b\<rparr>) = t\<lparr>tok_string := NUL # b\<rparr>"
    using assms(1) by (simp add: token_prev_char_def adv_def)
  have p': "token_prev_char (adv 1 t\<lparr>tok_string := NUL # b, tok_eof := False\<rparr>) = t\<lparr>tok_string := NUL # b\<rparr>"
    using assms(1) by (simp add: token_prev_char_def adv_def)
  show ?thesis
  proof (cases "is_digit c")
    case True
    then show ?thesis using assms(1) 1 b p by (auto simp: token_get_string_def intro!: exI [of _ b])
  next
    case False
    then have "is_separator c" using assms(3) by simp
    then have "read_while (\<lambda>c. \<not> is_separator c) c t' = ([], c, t')" for t' by (simp add: read_while.simps)
    moreover have "token_prev_char (adv 1 t\<lparr>tok_eof := False, tok_string := NUL # b\<rparr>) = t\<lparr>tok_string := NUL # b\<rparr>"
      by (rule finsh_token.equality) (use assms(1) in \<open>simp_all add: token_prev_char_def adv_def\<close>)
    ultimately show ?thesis using False assms(1) 1 b
      by (auto simp: token_get_string_def FINSH_STRING_MAX_def intro!: exI [of _ b])
  qed
qed

lemma get_string_identifier:
  assumes "\<not> tok_eof t" "rest t = x @ CHR '' '' # r" "is_name x" "length (tok_string t) = FINSH_STRING_MAX"
  shows "\<exists>b. token_get_string t = Some ((adv (length x) t)\<lparr>tok_string := x @ NUL # b\<rparr>) \<and> length x + 1 + length b = FINSH_STRING_MAX"
proof -
  obtain c cs where c: "x = c # cs" using assms(3) by (cases x) (auto simp: is_name_def)
  obtain y b where b: "tok_string t = y # b" using assms(4) by (cases "tok_string t") (auto simp: FINSH_STRING_MAX_def)
  have all: "\<forall>z \<in> set (c # cs). \<not> is_separator z \<and> z \<noteq> NUL \<and> z \<noteq> CHR 0x0A"
    using assms(3) separator_plain c by (auto simp: is_name_def list_all_iff)
  have 1: "token_next_char t = (c, adv 1 t)" using assms c all by (intro next_char_rest) auto
  let ?t = "adv 1 t\<lparr>tok_string := NUL # b\<rparr>"
  have "read_while (\<lambda>c. \<not> is_separator c) c ?t = (c # cs, CHR '' '', adv (Suc (length cs)) ?t)"
    using assms c all by (intro read_while_rest [where r = r]) (auto simp: is_separator_def is_digit_def code_of_def)
  then have "token_get_string t = Some (token_prev_char ((adv (Suc (length cs)) ?t)\<lparr>tok_eof := False,
      tok_string := x @ NUL # drop (Suc (length cs)) b\<rparr>))"
    using assms 1 c b all by (simp add: token_get_string_def is_name_def)
  also have "token_prev_char ((adv (Suc (length cs)) ?t)\<lparr>tok_eof := False, tok_string := x @ NUL # drop (Suc (length cs)) b\<rparr>)
      = (adv (length x) t)\<lparr>tok_string := x @ NUL # drop (Suc (length cs)) b\<rparr>"
    by (rule finsh_token.equality) (use assms(1) c in \<open>simp_all add: token_prev_char_def adv_def\<close>)
  finally show ?thesis using assms(3,4) b c by (auto simp: is_name_def FINSH_STRING_MAX_def)
qed

lemma tok_text_hd:
  assumes "valid_tok k"
  shows "\<exists>c r. tok_text k = c # r \<and> \<not> blank c \<and> c \<noteq> CHR 0x0A"
proof (cases k)
  case (TId x)
  then obtain c r where "x = c # r" "\<not> is_separator c" using assms by (cases x) (auto simp: is_identifier_def is_name_def)
  then show ?thesis using separator_plain [of c] TId by (auto simp: blank_def)
next
  case (TInt i)
  obtain c r where "digits (unat i) = c # r" by (cases "digits (unat i)") auto
  then show ?thesis using digits_digits [of c "unat i"] digit_plain [of c] separator_plain [of c] TInt by (auto simp: blank_def)
next
  case (TLong i)
  obtain c r where "digits (unat i) = c # r" by (cases "digits (unat i)") auto
  then show ?thesis using digits_digits [of c "unat i"] digit_plain [of c] separator_plain [of c] TLong by (auto simp: blank_def)
next
  case (TOp k')
  then show ?thesis using assms by (cases k') (auto simp: op_text_def blank_def)
qed (auto simp: blank_def)

text \<open>The lexer in front of a token, after the blank.\<close>

lemma trim_at:
  assumes "lex_at t (k # ks)" "valid_tok k"
  obtains t1 where "token_trim_space t = t1" "\<not> tok_eof t1" "\<not> tok_replay t1" "length (tok_string t1) = FINSH_STRING_MAX"
    "rest t1 = toks_text (k # ks)"
proof -
  obtain c r where c: "tok_text k = c # r" "\<not> blank c" "c \<noteq> CHR 0x0A" using tok_text_hd [OF assms(2)] by blast
  obtain r' where r': "toks_text (k # ks) = c # r'" using c(1) by (cases "k = TOp finsh_token_type_semicolon \<and> ks = []") (auto simp: op_text_def)
  have l: "\<not> tok_eof t" "\<not> tok_replay t" "length (tok_string t) = FINSH_STRING_MAX"
    and r: "rest t = toks_text (k # ks) \<or> rest t = CHR '' '' # toks_text (k # ks)"
    using assms(1) by (auto simp: lex_at_def simp del: toks_text.simps)
  from r show thesis
  proof
    assume "rest t = toks_text (k # ks)"
    then show thesis using that [of t] l trim_plain [OF l(1) _ c(2,3)] r' by (simp del: toks_text.simps)
  next
    assume "rest t = CHR '' '' # toks_text (k # ks)"
    then show thesis using that [of "adv 1 t"] l trim_blank [OF l(1) _ c(2,3)] r' by (simp del: toks_text.simps)
  qed
qed

lemma lex_atI:
  assumes "\<not> tok_eof t" "\<not> tok_replay t" "length (tok_string t) = FINSH_STRING_MAX" "rest t = CHR '' '' # toks_text ks"
  shows "lex_at t ks"
  using assms by (simp add: lex_at_def)

lemma lex_at_upd [simp]:
  "lex_at (t\<lparr>current_token := k\<rparr>) ks = lex_at t ks" "lex_at (t\<lparr>tok_value := v\<rparr>) ks = lex_at t ks"
  by (simp_all add: lex_at_def)

text \<open>Operators: \<open>t\<close> stands before the operator, its buffer cleared.\<close>

lemma operator_at:
  assumes "\<not> tok_eof t" "\<not> tok_replay t" "length (tok_string t) = FINSH_STRING_MAX" "rest t = op_text k @ CHR '' '' # toks_text ks"
    "op_text k \<noteq> []"
  shows "\<exists>t'. token_operator t s = Some (t', s) \<and> current_token t' = Some k \<and> lex_at t' ks"
proof -
  have single: ?thesis if "op_text k = [c]" "operator_token c = Some k" "c \<noteq> CHR 0x0A" for c
    using that assms next_char_rest [of t c] by (auto simp: token_operator_def intro!: lex_atI)
  have double: ?thesis if "op_text k = [c, c]" "map_option fst (double_token c) = Some k" "operator_token c = None" "c \<noteq> CHR 0x0A" for c
    using that assms next_char_rest [of t c] next_char_rest [of "adv 1 t" c] by (auto simp: token_operator_def intro!: lex_atI)
  have half: ?thesis if "op_text k = [c]" "map_option snd (double_token c) = Some k" "operator_token c = None" "c \<noteq> CHR 0x0A" "c \<noteq> CHR '' ''" for c
    using that assms next_char_rest [of t c] next_char_rest [of "adv 1 t" "CHR '' ''"] by (auto simp: token_operator_def intro!: lex_atI)
  define c where "c = hd (op_text k)"
  have "op_text k = [c] \<and> operator_token c = Some k \<and> c \<noteq> CHR 0x0A
      \<or> op_text k = [c, c] \<and> map_option fst (double_token c) = Some k \<and> operator_token c = None \<and> c \<noteq> CHR 0x0A
      \<or> op_text k = [c] \<and> map_option snd (double_token c) = Some k \<and> operator_token c = None \<and> c \<noteq> CHR 0x0A \<and> c \<noteq> CHR '' ''"
    using assms(5) unfolding c_def by (cases k) (simp_all add: op_text_def operator_token_def double_token_def)
  then show ?thesis by (elim disjE conjE) (erule single double half; assumption)+
qed

lemma takeWhile_NUL: "NUL \<notin> set x \<Longrightarrow> takeWhile (\<lambda>c. c \<noteq> NUL) (x @ NUL # b) = x"
  by (induct x) auto

lemma digit_no_operator:
  "is_digit c \<Longrightarrow> operator_token c = None \<and> double_token c = None \<and> c \<noteq> CHR 0x27 \<and> c \<noteq> CHR 0x22"
proof -
  assume d: "is_digit c"
  have "list_all (\<lambda>x. \<not> is_digit x) ([CHR 0x27, CHR 0x22] @ ''(),;&*|%~^=+-/<>'')"
    by (simp add: is_digit_def code_of_def)
  then have "c \<notin> set ([CHR 0x27, CHR 0x22] @ ''(),;&*|%~^=+-/<>'')" using d unfolding list_all_iff by blast
  then show ?thesis by (simp add: operator_token_def double_token_def)
qed

text \<open>Numbers, with their suffix, and characters.\<close>

lemma number_at:
  assumes "\<not> tok_eof t" "\<not> tok_replay t" "length (tok_string t) = FINSH_STRING_MAX"
    "rest t = digits n @ suf @ CHR '' '' # toks_text ks" "suf = '''' \<or> suf = ''L''"
  shows "\<exists>t'. token_operator t s = Some (t', s) \<and> tok_value t' = of_nat n \<and> lex_at t' ks
    \<and> current_token t' = Some (if suf = [] then finsh_token_type_value_int else finsh_token_type_value_long)"
proof -
  obtain c cs where c: "digits n = c # cs" "is_digit c" using digits_digits [of _ n] by (cases "digits n") auto
  obtain d r where d: "suf @ CHR '' '' # toks_text ks = d # r" "number_end d" "d = CHR ''L'' \<longleftrightarrow> suf \<noteq> []"
    using assms(5) by (auto simp: number_end_def)
  have 1: "token_next_char t = (c, adv 1 t)" using assms c digit_plain [of c] by (intro next_char_rest) auto
  have "token_proc_number t = Some (token_suffix d (of_nat n) (adv (Suc (length (digits n))) t))"
    using proc_number_digits [of t n d r] assms d by simp
  then have "token_operator t s = Some (token_suffix d (of_nat n) (adv (Suc (length (digits n))) t), s)"
    using 1 c digit_no_operator [of c] prev_char_adv [of t 0] assms(1) by (simp add: token_operator_def)
  moreover have "token_suffix d (of_nat n) (adv (Suc (length (digits n))) t)
      = (adv (length (digits n) + length suf) t)\<lparr>tok_value := of_nat n,
          current_token := Some (if suf = [] then finsh_token_type_value_int else finsh_token_type_value_long)\<rparr>"
    using assms(1,5) d(2,3) by (auto simp: token_suffix_def token_prev_char_def adv_def number_end_def intro!: finsh_token.equality)
  ultimately show ?thesis using assms by (auto intro!: lex_atI)
qed

lemma char_at:
  assumes "\<not> tok_eof t" "\<not> tok_replay t" "length (tok_string t) = FINSH_STRING_MAX"
    "rest t = CHR 0x27 # char_of (unat c) # CHR 0x27 # CHR '' '' # toks_text ks" "c \<noteq> 0 \<and> c \<noteq> 10 \<and> c \<noteq> (92 :: u8)"
  shows "\<exists>t'. token_operator t s = Some (t', s) \<and> char_value (tok_value t') = c \<and> lex_at t' ks
    \<and> current_token t' = Some finsh_token_type_value_char"
proof -
  have u: "unat c < 256" by (rule order_less_le_trans [OF unsigned_less]) simp
  have "code_of (char_of (unat c)) = int (unat c)" using u by simp
  then have v: "code_of (char_of (unat c)) = uint c" by simp
  have c: "char_of (unat c) \<noteq> CHR 0x0A" "char_of (unat c) \<noteq> CHR 0x5C"
  proof -
    have "unat c \<noteq> 10" "unat c \<noteq> 92" using assms(5) by (auto simp: word_unat_eq_iff)
    then show "char_of (unat c) \<noteq> CHR 0x0A" "char_of (unat c) \<noteq> CHR 0x5C" using u by (auto simp: char_of_eq_iff take_bit_eq_mod)
  qed
  have 1: "token_next_char t = (CHR 0x27, adv 1 t)" "token_next_char (adv 1 t) = (char_of (unat c), adv 1 (adv 1 t))"
    "token_next_char (adv 2 t) = (CHR 0x27, adv 1 (adv 2 t))"
    using assms c next_char_rest [of t "CHR 0x27"] next_char_rest [of "adv 1 t" "char_of (unat c)"] next_char_rest [of "adv 2 t" "CHR 0x27"]
    by (simp_all add: numeral_2_eq_2)
  have "token_proc_char (adv 1 t) s = Some (char_of (unat c), adv 3 t, s)"
    using 1 c by (simp add: token_proc_char_def Let_def numeral_2_eq_2 numeral_3_eq_3)
  then have "token_operator t s = Some ((adv 3 t)\<lparr>tok_value := set_char (tok_value t) c, current_token := Some finsh_token_type_value_char\<rparr>, s)"
    using 1(1) v by (simp add: token_operator_def operator_token_def double_token_def)
  then show ?thesis using assms by (auto intro!: lex_atI simp: eval_nat_numeral)
qed

lemma token_at:
  assumes t1: "token_trim_space t = t1" "\<not> tok_eof t1" "\<not> tok_replay t1" "length (tok_string t1) = FINSH_STRING_MAX"
    "rest t1 = tok_text k @ CHR '' '' # toks_text ks" and valid: "valid_tok k"
  shows "\<exists>t'. token_run t s = Some (t', s) \<and> current_token t' = Some (tok_type k) \<and> holds k t' \<and> lex_at t' ks"
proof -
  have ne: "tok_string t1 \<noteq> []" using t1(4) by (auto simp: FINSH_STRING_MAX_def)
  have other: "\<exists>b. token_run t s = token_operator (t1\<lparr>tok_string := NUL # b\<rparr>) s \<and> Suc (length b) = FINSH_STRING_MAX"
    if h: "tok_text k = c # r" "is_digit c \<or> is_separator c" "c \<noteq> CHR 0x0A" for c r
  proof -
    obtain b where "token_get_string t1 = Some (t1\<lparr>tok_string := NUL # b\<rparr>)" "length b + 1 = length (tok_string t1)"
      using get_string_other [of t1 c "r @ CHR '' '' # toks_text ks"] t1 ne h by auto
    then show ?thesis using t1 by (auto simp: token_run_def)
  qed
  have ident: "\<exists>b. token_get_string t1 = Some ((adv (length x) t1)\<lparr>tok_string := x @ NUL # b\<rparr>) \<and> length x + 1 + length b = FINSH_STRING_MAX"
    if "tok_text k = x" "is_name x" for x
    using get_string_identifier [of t1 x "toks_text ks"] t1 that by auto
  show ?thesis
  proof (cases k)
    case (TId x)
    then have x: "is_identifier x" "x \<noteq> []" "NUL \<notin> set x"
      using valid separator_plain by (auto simp: is_identifier_def is_name_def list_all_iff)
    obtain b where b: "token_get_string t1 = Some ((adv (length x) t1)\<lparr>tok_string := x @ NUL # b\<rparr>)" "length x + 1 + length b = FINSH_STRING_MAX"
      using ident [of x] TId x(1) by (auto simp: is_identifier_def)
    have "c_string (x @ NUL # b) = x" using x(3) by (simp add: c_string_def takeWhile_NUL)
    moreover have "(x @ NUL # b) ! 0 \<noteq> NUL" using x(2,3) by (cases x) auto
    ultimately show ?thesis using TId t1 b x by (auto simp: token_run_def token_match_name_def is_identifier_def intro!: lex_atI)
  next
    case (TOp k')
    then obtain c r where c: "tok_text k = c # r" "is_separator c" "c \<noteq> CHR 0x0A"
      using valid by (cases k') (auto simp: op_text_def is_separator_def is_digit_def code_of_def)
    obtain b where b: "token_run t s = token_operator (t1\<lparr>tok_string := NUL # b\<rparr>) s" "Suc (length b) = FINSH_STRING_MAX"
      using other [of c r] c by auto
    then show ?thesis using operator_at [of "t1\<lparr>tok_string := NUL # b\<rparr>" k' ks s] TOp t1 valid by auto
  next
    case TNull
    obtain b where b: "token_get_string t1 = Some ((adv 4 t1)\<lparr>tok_string := ''NULL'' @ NUL # b\<rparr>)" "length b + 5 = FINSH_STRING_MAX"
      using ident [of "''NULL''"] TNull by (auto simp: is_name_def is_digit_def is_separator_def code_of_def FINSH_STRING_MAX_def numeral_eq_Suc)
    have "c_string (''NULL'' @ NUL # b) = ''NULL''" by (simp add: c_string_def)
    then show ?thesis using TNull t1 b
      by (auto simp: token_run_def token_match_name_def finsh_name_table_def intro!: lex_atI)
  next
    case (TInt i)
    obtain b where b: "token_run t s = token_operator (t1\<lparr>tok_string := NUL # b\<rparr>) s" "Suc (length b) = FINSH_STRING_MAX"
      using other [of "hd (digits (unat i))" "tl (digits (unat i))"] TInt digits_digits [of "hd (digits (unat i))" "unat i"] digit_plain
      by auto
    then show ?thesis
      using number_at [of "t1\<lparr>tok_string := NUL # b\<rparr>" "unat i" "''''" ks s] t1 TInt by auto
  next
    case (TLong i)
    obtain b where b: "token_run t s = token_operator (t1\<lparr>tok_string := NUL # b\<rparr>) s" "Suc (length b) = FINSH_STRING_MAX"
      using other [of "hd (digits (unat i))" "tl (digits (unat i)) @ ''L''"] TLong digits_digits [of "hd (digits (unat i))" "unat i"] digit_plain
      by auto
    then show ?thesis
      using number_at [of "t1\<lparr>tok_string := NUL # b\<rparr>" "unat i" "''L''" ks s] t1 TLong by auto
  next
    case (TChar c)
    obtain b where b: "token_run t s = token_operator (t1\<lparr>tok_string := NUL # b\<rparr>) s" "Suc (length b) = FINSH_STRING_MAX"
      using other [of "CHR 0x27" "[char_of (unat c), CHR 0x27]"] TChar by (auto simp: is_separator_def is_digit_def code_of_def)
    then show ?thesis
      using char_at [of "t1\<lparr>tok_string := NUL # b\<rparr>" c ks s] t1 TChar valid by auto
  qed
qed

text \<open>A token is read, with its value, and nothing else changes.\<close>

lemma token_run_at:
  assumes "lex_at t (k # ks)" "valid_tok k"
  shows "\<exists>t'. token_run t s = Some (t', s) \<and> current_token t' = Some (tok_type k) \<and> holds k t' \<and> lex_at t' ks"
proof -
  obtain t1 where t0: "token_trim_space t = t1" "\<not> tok_eof t1" "\<not> tok_replay t1" "length (tok_string t1) = FINSH_STRING_MAX"
    "rest t1 = toks_text (k # ks)" using trim_at [OF assms] .
  have last: ?thesis if h: "k = TOp finsh_token_type_semicolon" "ks = []"
  proof -
    have r: "rest t1 = '';''" using t0(5) h by simp
    have ne: "tok_string t1 \<noteq> []" using t0(4) by (auto simp: FINSH_STRING_MAX_def)
    obtain b where "token_get_string t1 = Some (t1\<lparr>tok_string := NUL # b\<rparr>)" "length b + 1 = length (tok_string t1)"
      using get_string_other [of t1 "CHR '';''" "[]"] t0(2) ne r by (auto simp: is_separator_def is_digit_def code_of_def)
    then show ?thesis using t0 r h next_char_rest [of "t1\<lparr>tok_string := NUL # b\<rparr>" "CHR '';''" "[]"]
      by (auto simp: token_run_def token_operator_def operator_token_def lex_at_def)
  qed
  show ?thesis
  proof (cases "k = TOp finsh_token_type_semicolon \<and> ks = []")
    case True
    then show ?thesis using last by blast
  next
    case False
    then have t1: "token_trim_space t = t1" "\<not> tok_eof t1" "\<not> tok_replay t1" "length (tok_string t1) = FINSH_STRING_MAX"
      "rest t1 = tok_text k @ CHR '' '' # toks_text ks" using t0 by auto
    show ?thesis by (rule token_at [OF t1 assms(2)])
  qed
qed

lemma next_char_end:
  assumes "\<not> tok_eof t" "rest t = []"
  shows "token_next_char t = (NUL, t\<lparr>tok_eof := True, tok_position := 0\<rparr>)"
  using assms by (simp add: token_next_char_def rest_def)

lemma trim_end:
  assumes "\<not> tok_eof t" "rest t = []"
  shows "token_trim_space t = t\<lparr>tok_eof := True, tok_position := 0\<rparr>"
  using assms by (simp add: token_trim_space.simps [of t] next_char_end token_prev_char_def)

lemma token_run_end:
  assumes "lex_at t []"
  shows "\<exists>t'. token_run t s = Some (t', s) \<and> current_token t' = Some finsh_token_type_eof"
proof -
  have t: "\<not> tok_eof t" "rest t = [] \<or> rest t = '' ''" using assms by (auto simp: lex_at_def)
  have "\<exists>t1. token_trim_space t = t1 \<and> tok_eof t1"
  proof (cases "rest t = []")
    case True
    then show ?thesis using t trim_end [of t] by simp
  next
    case False
    then have "token_next_char t = (CHR '' '', adv 1 t)" using t by (intro next_char_rest) auto
    then show ?thesis using t False trim_end [of "adv 1 t"] by (simp add: token_trim_space.simps [of t])
  qed
  then show ?thesis by (auto simp: token_run_def token_get_string_def token_next_char_def)
qed

section \<open>A stream of tokens\<close>

text \<open>
  The tokens that are still to come, whether the lexer is to give out the last one again or not. Behind
  the last one is the end.
\<close>

definition ahead :: "finsh_token \<Rightarrow> tok list \<Rightarrow> bool" where
  "ahead t ks \<longleftrightarrow> list_all valid_tok ks \<and>
     (if tok_replay t
      then (\<exists>k ks'. ks = k # ks' \<and> current_token t = Some (tok_type k) \<and> holds k t \<and> lex_at (t\<lparr>tok_replay := False\<rparr>) ks')
      else lex_at t ks)"

definition behind :: "finsh_token \<Rightarrow> tok \<Rightarrow> tok list \<Rightarrow> bool" where
  "behind t k ks \<longleftrightarrow> holds k t \<and> ahead t ks \<and> ahead (finsh_token_replay t) (k # ks)"

lemma holds_replay [simp]: "holds k (t\<lparr>tok_replay := b\<rparr>) = holds k t"
  by (cases k) simp_all

lemma token_ahead:
  assumes "ahead t (k # ks)"
  shows "\<exists>t'. finsh_token_token t s = Some (t', s) \<and> current_token t' = Some (tok_type k) \<and> behind t' k ks"
proof (cases "tok_replay t")
  case True
  then show ?thesis using assms
    by (auto simp: ahead_def behind_def finsh_token_token_def finsh_token_replay_def lex_at_def)
next
  case False
  then obtain t' where "token_run t s = Some (t', s)" "current_token t' = Some (tok_type k)" "holds k t'" "lex_at t' ks"
    using token_run_at [of t k ks s] assms by (auto simp: ahead_def)
  moreover have "lex_at (t'\<lparr>tok_replay := False\<rparr>) ks" "\<not> tok_replay t'" using \<open>lex_at t' ks\<close> by (simp_all add: lex_at_def)
  ultimately show ?thesis using False assms
    by (auto simp: ahead_def behind_def finsh_token_token_def finsh_token_replay_def)
qed

lemma token_ahead_end:
  assumes "ahead t []"
  shows "\<exists>t'. finsh_token_token t s = Some (t', s) \<and> current_token t' = Some finsh_token_type_eof"
  using assms token_run_end [of t s] by (auto simp: ahead_def finsh_token_token_def split: if_splits)

lemma ahead_init: "list_all valid_tok ks \<Longrightarrow> ahead (finsh_token_init (toks_text ks)) ks"
  by (simp add: ahead_def lex_at_def finsh_token_init_def rest_def)

end
