(* ===== verification/Finsh_Lang.thy ===== *)
theory Finsh_Lang
  imports Finsh_Compiler
begin

text \<open>
  What an expression of the FinSH shell means: abstract expressions, their widths, the trees the parser
  builds for them, and an evaluator over integers. A \<^verbatim>\<open>char\<close> is an unsigned byte, the other types are
  signed; the arithmetic is that of the integers, cut to the width of the operation. Operations take
  the width of their left operand, so \<open>fits\<close> asks that both operands have it. This is the reference the
  compiler and the virtual machine are compared with; no code is modelled here.
\<close>

section \<open>Expressions\<close>

datatype width = W8 | W16 | W32

datatype fop = Add | Sub | Mul | Div | Mod | And | Or | Xor | Shl | Shr

datatype fvar = Local nat | Sysvar finsh_sysvar

datatype fexpr =
    EChar u8 | EInt u32 | ELong u32 | EString u32 | ENull
  | EVar fvar
  | EAddr fvar
  | EBin fop fexpr fexpr
  | ENot fexpr
  | EAssign fvar fexpr
  | EStore fexpr fexpr
  | EDeref fexpr
  | EPost bool nat
  | EPre bool nat
  | ECall finsh_syscall fargs
and fargs = ANil | ACons fexpr fargs

primrec size_args :: "fargs \<Rightarrow> nat" where
  "size_args ANil = 0"
| "size_args (ACons e as) = Suc (size_args as)"

definition type_width :: "finsh_type \<Rightarrow> width option" where
  "type_width t =
     (if t \<in> {finsh_type_char, finsh_type_uchar} then Some W8
      else if t \<in> {finsh_type_short, finsh_type_ushort} then Some W16
      else if t \<in> {finsh_type_unknown, finsh_type_void, finsh_type_voidp} then None
      else Some W32)"

primrec fvar_width :: "finsh \<Rightarrow> fvar \<Rightarrow> width option" where
  "fvar_width s (Local i) =
     (if i < length (global_variable s) then type_width (var_type (global_variable s ! i)) else None)"
| "fvar_width s (Sysvar v) = type_width (sysvar_type v)"

primrec fvar_at :: "finsh \<Rightarrow> fvar \<Rightarrow> u32" where
  "fvar_at s (Local i) = var_value_at s i"
| "fvar_at s (Sysvar v) = sysvar_var v"

text \<open>The width an expression has as the left operand; a call has none.\<close>

primrec ewidth :: "finsh \<Rightarrow> fexpr \<Rightarrow> width option" where
  "ewidth s (EChar c) = Some W8"
| "ewidth s (EInt i) = Some W32"
| "ewidth s (ELong i) = Some W32"
| "ewidth s (EString p) = Some W32"
| "ewidth s ENull = Some W32"
| "ewidth s (EVar v) = fvar_width s v"
| "ewidth s (EAddr v) = fvar_width s v"
| "ewidth s (EBin f a b) = ewidth s a"
| "ewidth s (ENot a) = ewidth s a"
| "ewidth s (EAssign v e) = fvar_width s v"
| "ewidth s (EStore p e) = ewidth s p"
| "ewidth s (EDeref p) = ewidth s p"
| "ewidth s (EPost up i) = fvar_width s (Local i)"
| "ewidth s (EPre up i) = fvar_width s (Local i)"
| "ewidth s (ECall f as) = None"

text \<open>Which expressions may stand where a value of width \<open>w\<close> is wanted.\<close>

primrec fits :: "finsh \<Rightarrow> fexpr \<Rightarrow> width \<Rightarrow> bool" and fits_all :: "finsh \<Rightarrow> fargs \<Rightarrow> bool" where
  "fits s (EChar c) w \<longleftrightarrow> w = W8"
| "fits s (EInt i) w \<longleftrightarrow> w = W32"
| "fits s (ELong i) w \<longleftrightarrow> w = W32"
| "fits s (EString p) w \<longleftrightarrow> w = W32"
| "fits s ENull w \<longleftrightarrow> w = W32"
| "fits s (EVar v) w \<longleftrightarrow> fvar_width s v = Some w"
| "fits s (EAddr v) w \<longleftrightarrow> w = W32 \<and> fvar_width s v \<noteq> None"
| "fits s (EBin f a b) w \<longleftrightarrow> ewidth s a = Some w \<and> fits s a w \<and> fits s b w"
| "fits s (ENot a) w \<longleftrightarrow> ewidth s a = Some w \<and> fits s a w"
| "fits s (EAssign v e) w \<longleftrightarrow> fvar_width s v = Some w \<and> fits s e w"
| "fits s (EStore p e) w \<longleftrightarrow> w = W32 \<and> ewidth s p = Some W32 \<and> fits s p W32 \<and> fits s e W32"
| "fits s (EDeref p) w \<longleftrightarrow> w = W32 \<and> ewidth s p = Some W32 \<and> fits s p W32"
| "fits s (EPost up i) w \<longleftrightarrow> fvar_width s (Local i) = Some w"
| "fits s (EPre up i) w \<longleftrightarrow> fvar_width s (Local i) = Some w"
| "fits s (ECall f as) w \<longleftrightarrow> w = W32 \<and> fits_all s as"
| "fits_all s ANil \<longleftrightarrow> True"
| "fits_all s (ACons e as) \<longleftrightarrow> fits s e W32 \<and> fits_all s as"

section \<open>Values\<close>

definition wrap :: "width \<Rightarrow> int \<Rightarrow> int" where
  "wrap w x = (case w of W8 \<Rightarrow> take_bit 8 x | W16 \<Rightarrow> signed_take_bit 15 x | W32 \<Rightarrow> signed_take_bit 31 x)"

text \<open>The value of the given width in a slot of the stack.\<close>

definition slot_value :: "width \<Rightarrow> u32 \<Rightarrow> int" where
  "slot_value w v = wrap w (uint v)"

definition fetch :: "width \<Rightarrow> memory \<Rightarrow> u32 \<Rightarrow> int" where
  "fetch w m a =
     (case w of W8 \<Rightarrow> uint (m a) | W16 \<Rightarrow> sint (get_mem16 m a) | W32 \<Rightarrow> sint (get_mem32 m a))"

definition store :: "width \<Rightarrow> u32 \<Rightarrow> int \<Rightarrow> memory \<Rightarrow> memory" where
  "store w a x m =
     (case w of
        W8 \<Rightarrow> m(a := word_of_int x)
      | W16 \<Rightarrow> put_mem16 a (word_of_int x) m
      | W32 \<Rightarrow> put_mem32 a (word_of_int x) m)"

text \<open>
  The operators on integers, \<^const>\<open>None\<close> where C leaves them undefined; a quotient may not leave the
  range of an \<^verbatim>\<open>int\<close>.
\<close>

definition c_op :: "fop \<Rightarrow> int \<Rightarrow> int \<Rightarrow> int option" where
  "c_op f a b =
     (case f of
        Add \<Rightarrow> Some (a + b) | Sub \<Rightarrow> Some (a - b) | Mul \<Rightarrow> Some (a * b)
      | Div \<Rightarrow> (if b = 0 \<or> a = - (2 ^ 31) \<and> b = - 1 then None else Some (a sdiv b))
      | Mod \<Rightarrow> (if b = 0 \<or> a = - (2 ^ 31) \<and> b = - 1 then None else Some (a smod b))
      | And \<Rightarrow> Some (a AND b) | Or \<Rightarrow> Some (a OR b) | Xor \<Rightarrow> Some (a XOR b)
      | Shl \<Rightarrow> (if 0 \<le> b \<and> b < 32 then Some (a * 2 ^ nat b) else None)
      | Shr \<Rightarrow> (if 0 \<le> b \<and> b < 32 then Some (a div 2 ^ nat b) else None))"

definition bin :: "width \<Rightarrow> fop \<Rightarrow> int \<Rightarrow> int \<Rightarrow> int option" where
  "bin w f a b = map_option (wrap w) (c_op f a b)"

definition step :: "bool \<Rightarrow> int \<Rightarrow> int" where
  "step up x = (if up then x + 1 else x - 1)"

section \<open>Evaluation\<close>

definition the_width :: "finsh \<Rightarrow> fexpr \<Rightarrow> width" where
  "the_width s e = (case ewidth s e of Some w \<Rightarrow> w | None \<Rightarrow> W32)"

definition var_width :: "finsh \<Rightarrow> fvar \<Rightarrow> width" where
  "var_width s v = (case fvar_width s v of Some w \<Rightarrow> w | None \<Rightarrow> W32)"

primrec eval :: "vm_funs \<Rightarrow> finsh \<Rightarrow> fexpr \<Rightarrow> memory \<Rightarrow> (memory \<times> int) option"
  and eval_all :: "vm_funs \<Rightarrow> finsh \<Rightarrow> fargs \<Rightarrow> memory \<Rightarrow> (memory \<times> int list) option"
where
  "eval call s (EChar c) m = Some (m, uint c)"
| "eval call s (EInt i) m = Some (m, sint i)"
| "eval call s (ELong i) m = Some (m, sint i)"
| "eval call s (EString p) m = Some (m, sint p)"
| "eval call s ENull m = Some (m, 0)"
| "eval call s (EVar v) m = Some (m, fetch (var_width s v) m (fvar_at s v))"
| "eval call s (EAddr v) m = Some (m, sint (fvar_at s v))"
| "eval call s (EBin f a b) m =
     do { (m, x) \<leftarrow> eval call s a m; (m, y) \<leftarrow> eval call s b m;
          r \<leftarrow> bin (the_width s a) f x y; Some (m, r) }"
| "eval call s (ENot a) m =
     do { (m, x) \<leftarrow> eval call s a m; Some (m, wrap (the_width s a) (NOT x)) }"
| "eval call s (EAssign v e) m =
     do { (m, x) \<leftarrow> eval call s e m; Some (store (var_width s v) (fvar_at s v) x m, x) }"
| "eval call s (EStore p e) m =
     do { (m, a) \<leftarrow> eval call s p m; (m, x) \<leftarrow> eval call s e m; Some (store W32 (word_of_int a) x m, x) }"
| "eval call s (EDeref p) m =
     do { (m, a) \<leftarrow> eval call s p m; Some (m, fetch W32 m (word_of_int a)) }"
| "eval call s (EPost up i) m =
     (let w = var_width s (Local i); a = fvar_at s (Local i); x = fetch w m a in
        Some (store w a (step up x) m, x))"
| "eval call s (EPre up i) m =
     (let w = var_width s (Local i); a = fvar_at s (Local i); x = wrap w (step up (fetch w m a)) in
        Some (store w a x m, x))"
| "eval call s (ECall f as) m =
     do { (m, xs) \<leftarrow> eval_all call s as m;
          (m, r) \<leftarrow> call (syscall_func f) (List.map word_of_int xs) m; Some (m, sint r) }"
| "eval_all call s ANil m = Some (m, [])"
| "eval_all call s (ACons e as) m =
     do { (m, x) \<leftarrow> eval call s e m; (m, xs) \<leftarrow> eval_all call s as m; Some (m, x # xs) }"

section \<open>The tree of an expression\<close>

primrec op_node :: "fop \<Rightarrow> node_type" where
  "op_node Add = FINSH_NODE_SYS_ADD" | "op_node Sub = FINSH_NODE_SYS_SUB" | "op_node Mul = FINSH_NODE_SYS_MUL"
| "op_node Div = FINSH_NODE_SYS_DIV" | "op_node Mod = FINSH_NODE_SYS_MOD" | "op_node And = FINSH_NODE_SYS_AND"
| "op_node Or = FINSH_NODE_SYS_OR" | "op_node Xor = FINSH_NODE_SYS_XOR" | "op_node Shl = FINSH_NODE_SYS_SHL"
| "op_node Shr = FINSH_NODE_SYS_SHR"

primrec var_node :: "u8 \<Rightarrow> u8 \<Rightarrow> fvar \<Rightarrow> finsh_node \<Rightarrow> finsh_node" where
  "var_node d a (Local i) sib = Node FINSH_NODE_ID d (FINSH_IDTYPE_VAR OR a) 0 (Id_var i) sib Null"
| "var_node d a (Sysvar v) sib = Node FINSH_NODE_ID d (FINSH_IDTYPE_SYSVAR OR a) 0 (Id_sysvar v) sib Null"

definition sys_node :: "node_type \<Rightarrow> u8 \<Rightarrow> u8 \<Rightarrow> finsh_node \<Rightarrow> finsh_node" where
  "sys_node t d i ch = Node t d i 0 Id_none Null ch"

definition call_node :: "u8 \<Rightarrow> finsh_syscall \<Rightarrow> finsh_node \<Rightarrow> finsh_node" where
  "call_node d f as =
     Node FINSH_NODE_SYS_FUNC d 0 0 Id_none Null (Node FINSH_NODE_ID 0 FINSH_IDTYPE_SYSCALL 0 (Id_syscall f) as Null)"

primrec node_of :: "fexpr \<Rightarrow> finsh_node" and nodes_of :: "fargs \<Rightarrow> finsh_node" where
  "node_of (EChar c) = Node FINSH_NODE_VALUE_CHAR 0 0 (ucast c) Id_none Null Null"
| "node_of (EInt i) = Node FINSH_NODE_VALUE_INT 0 0 i Id_none Null Null"
| "node_of (ELong i) = Node FINSH_NODE_VALUE_LONG 0 0 i Id_none Null Null"
| "node_of (EString p) = Node FINSH_NODE_VALUE_STRING 0 0 p Id_none Null Null"
| "node_of ENull = Node FINSH_NODE_VALUE_NULL 0 0 0 Id_none Null Null"
| "node_of (EVar v) = var_node 0 0 v Null"
| "node_of (EAddr v) = sys_node FINSH_NODE_SYS_GETADDR 0 0 (var_node 0 0 v Null)"
| "node_of (EBin f a b) = sys_node (op_node f) 0 0 (set_sibling (node_of b) (node_of a))"
| "node_of (ENot a) = sys_node FINSH_NODE_SYS_BITWISE 0 0 (node_of a)"
| "node_of (EAssign v e) = sys_node FINSH_NODE_SYS_ASSIGN 0 0 (var_node 0 0 v (node_of e))"
| "node_of (EStore p e) =
     sys_node FINSH_NODE_SYS_ASSIGN 0 0 (set_sibling (node_of e) (sys_node FINSH_NODE_SYS_GETVALUE 0 0 (node_of p)))"
| "node_of (EDeref p) = sys_node FINSH_NODE_SYS_GETVALUE 0 0 (node_of p)"
| "node_of (EPost up i) = sys_node (if up then FINSH_NODE_SYS_INC else FINSH_NODE_SYS_DEC) 0 0 (var_node 0 0 (Local i) Null)"
| "node_of (EPre up i) = sys_node (if up then FINSH_NODE_SYS_PREINC else FINSH_NODE_SYS_PREDEC) 0 0 (var_node 0 0 (Local i) Null)"
| "node_of (ECall f as) = call_node 0 f (nodes_of as)"
| "nodes_of ANil = Null"
| "nodes_of (ACons e as) = set_sibling (nodes_of as) (node_of e)"

end
