(* ===== verification/Finsh_Emit.thy ===== *)
theory Finsh_Emit
  imports Finsh_Lang
begin

text \<open>
  What the compiler emits. \<open>code\<close> gives the bytes of an expression, \<open>tnode\<close> its tree after the type
  check; the type check of the tree of an expression yields the second, the compiler applied to that
  emits the first.
\<close>

section \<open>Bytes\<close>

definition le16 :: "u16 \<Rightarrow> u8 list" where "le16 x = [ucast x, ucast (drop_bit 8 x)]"
definition le32 :: "u32 \<Rightarrow> u8 list" where
  "le32 x = [ucast x, ucast (drop_bit 8 x), ucast (drop_bit 16 x), ucast (drop_bit 24 x)]"

primrec emit :: "u8 list \<Rightarrow> finsh \<Rightarrow> finsh option" where
  "emit [] s = Some s"
| "emit (x # xs) s = do { s \<leftarrow> finsh_code_byte x s; emit xs s }"

lemma emit_append: "emit (xs @ ys) s = do { s \<leftarrow> emit xs s; emit ys s }"
  by (induct xs arbitrary: s) (auto split: bind_splits)

lemma code_byte_emit: "finsh_code_byte x s = emit [x] s"
  by simp

lemma code_word_emit: "finsh_code_word x = emit (le16 x)"
  by (simp add: finsh_code_word_def le16_def fun_eq_iff)

lemma code_dword_emit: "finsh_code_dword x = emit (le32 x)"
  by (simp add: finsh_code_dword_def le32_def fun_eq_iff)

text \<open>The closed form: the bytes are spliced into the text segment, if they fit.\<close>

lemma emit_eq:
  "emit xs s =
     (if finsh_compile_pc s + length xs \<le> length (text_segment (vm s)) \<or> xs = []
      then Some (s\<lparr>vm := (vm s)\<lparr>text_segment := take (finsh_compile_pc s) (text_segment (vm s)) @ xs
                            @ drop (finsh_compile_pc s + length xs) (text_segment (vm s))\<rparr>,
                   finsh_compile_pc := finsh_compile_pc s + length xs\<rparr>)
      else None)"
proof (induct xs arbitrary: s)
  case (Cons x xs)
  then show ?case
    by (auto simp: finsh_code_byte_def take_Suc_conv_app_nth upd_conv_take_nth_drop min_def ac_simps)
qed simp

definition same_env :: "finsh \<Rightarrow> finsh \<Rightarrow> bool" where
  "same_env s s' \<longleftrightarrow> global_variable s' = global_variable s \<and> global_variable_at s' = global_variable_at s"

lemma same_env_emit [intro]: "same_env s s1 \<Longrightarrow> emit xs s1 = Some s2 \<Longrightarrow> same_env s s2"
  by (auto simp: emit_eq same_env_def split: if_splits)

lemma same_env_refl [simp]: "same_env s s"
  by (simp add: same_env_def)

section \<open>Code\<close>

primrec width_code :: "width \<Rightarrow> u8" where
  "width_code W8 = 1" | "width_code W16 = 2" | "width_code W32 = 3"

definition ocode :: "width option \<Rightarrow> u8" where
  "ocode w = (case w of None \<Rightarrow> 0 | Some w \<Rightarrow> width_code w)"

text \<open>The code of an operator, a load, a store or a reload at a width.\<close>

definition wop :: "u8 \<Rightarrow> width \<Rightarrow> u8" where "wop c w = c + width_code w - 1"

definition le :: "width \<Rightarrow> u32 \<Rightarrow> u8 list" where
  "le w x = (case w of W8 \<Rightarrow> [ucast x] | W16 \<Rightarrow> le16 (ucast x) | W32 \<Rightarrow> le32 x)"

definition step_code :: "bool \<Rightarrow> width \<Rightarrow> u32 \<Rightarrow> u8 list" where
  "step_code up w a =
     wop FINSH_OP_LD_VALUE_BYTE w # le32 a @ wop FINSH_OP_LD_BYTE w # le w 1
       @ [wop (op_code (if up then FINSH_NODE_SYS_ADD else FINSH_NODE_SYS_SUB)) w, wop FINSH_OP_ST_BYTE w]"

primrec code :: "finsh \<Rightarrow> fexpr \<Rightarrow> u8 list" and codes :: "finsh \<Rightarrow> fargs \<Rightarrow> u8 list" where
  "code s (EChar c) = [FINSH_OP_LD_BYTE, c]"
| "code s (EInt i) = FINSH_OP_LD_DWORD # le32 i"
| "code s (ELong i) = FINSH_OP_LD_DWORD # le32 i"
| "code s (EString p) = FINSH_OP_LD_DWORD # le32 p"
| "code s ENull = FINSH_OP_LD_DWORD # le32 0"
| "code s (EVar v) = wop FINSH_OP_LD_VALUE_BYTE (var_width s v) # le32 (fvar_at s v)"
| "code s (EAddr v) = FINSH_OP_LD_DWORD # le32 (fvar_at s v)"
| "code s (EBin f a b) = code s a @ code s b @ [wop (op_code (op_node f)) (the_width s a)]"
| "code s (ENot a) = code s a @ [wop (op_code FINSH_NODE_SYS_BITWISE) (the_width s a)]"
| "code s (EAssign v e) =
     FINSH_OP_LD_DWORD # le32 (fvar_at s v) @ code s e
       @ [wop FINSH_OP_ST_BYTE (var_width s v), wop FINSH_OP_LD_VALUE_BYTE_STACK (var_width s v)]"
| "code s (EStore p e) = code s p @ code s e @ [FINSH_OP_ST_DWORD, FINSH_OP_LD_VALUE_DWORD_STACK]"
| "code s (EDeref p) = code s p @ [FINSH_OP_LD_VALUE_DWORD_STACK]"
| "code s (EPost up i) =
     wop FINSH_OP_LD_VALUE_BYTE (var_width s (Local i)) # le32 (fvar_at s (Local i))
       @ FINSH_OP_LD_DWORD # le32 (fvar_at s (Local i))
       @ step_code up (var_width s (Local i)) (fvar_at s (Local i)) @ [FINSH_OP_POP]"
| "code s (EPre up i) =
     FINSH_OP_LD_DWORD # le32 (fvar_at s (Local i))
       @ step_code up (var_width s (Local i)) (fvar_at s (Local i)) @ [FINSH_OP_LD_VALUE_DWORD_STACK]"
| "code s (ECall f as) = FINSH_OP_LD_DWORD # le32 (syscall_func f) @ codes s as @ [FINSH_OP_SYSCALL, of_nat (size_args as)]"
| "codes s ANil = []"
| "codes s (ACons e as) = code s e @ codes s as"

section \<open>The checked tree\<close>

definition vcode :: "finsh \<Rightarrow> fvar \<Rightarrow> u8" where "vcode s v = ocode (fvar_width s v)"
definition ecode :: "finsh \<Rightarrow> fexpr \<Rightarrow> u8" where "ecode s e = ocode (ewidth s e)"

primrec tnode :: "finsh \<Rightarrow> fexpr \<Rightarrow> finsh_node" and tnodes :: "finsh \<Rightarrow> fargs \<Rightarrow> finsh_node" where
  "tnode s (EChar c) = Node FINSH_NODE_VALUE_CHAR 1 0 (ucast c) Id_none Null Null"
| "tnode s (EInt i) = Node FINSH_NODE_VALUE_INT 3 0 i Id_none Null Null"
| "tnode s (ELong i) = Node FINSH_NODE_VALUE_LONG 3 0 i Id_none Null Null"
| "tnode s (EString p) = Node FINSH_NODE_VALUE_STRING 3 0 p Id_none Null Null"
| "tnode s ENull = Node FINSH_NODE_VALUE_NULL 3 0 0 Id_none Null Null"
| "tnode s (EVar v) = var_node (vcode s v) 0 v Null"
| "tnode s (EAddr v) = sys_node FINSH_NODE_SYS_GETADDR (vcode s v) 0 (var_node (vcode s v) 8 v Null)"
| "tnode s (EBin f a b) = sys_node (op_node f) (ecode s a) 0 (set_sibling (tnode s b) (tnode s a))"
| "tnode s (ENot a) = sys_node FINSH_NODE_SYS_BITWISE (ecode s a) 0 (tnode s a)"
| "tnode s (EAssign v e) = sys_node FINSH_NODE_SYS_ASSIGN (vcode s v) 0 (var_node (vcode s v) 8 v (tnode s e))"
| "tnode s (EStore p e) =
     sys_node FINSH_NODE_SYS_ASSIGN (ecode s p) 0
       (set_sibling (tnode s e) (sys_node FINSH_NODE_SYS_GETVALUE (ecode s p) 8 (tnode s p)))"
| "tnode s (EDeref p) = sys_node FINSH_NODE_SYS_GETVALUE (ecode s p) 0 (tnode s p)"
| "tnode s (EPost up i) =
     sys_node (if up then FINSH_NODE_SYS_INC else FINSH_NODE_SYS_DEC) (vcode s (Local i)) 0
       (var_node (vcode s (Local i)) 0 (Local i) Null)"
| "tnode s (EPre up i) =
     sys_node (if up then FINSH_NODE_SYS_PREINC else FINSH_NODE_SYS_PREDEC) (vcode s (Local i)) 0
       (var_node (vcode s (Local i)) 8 (Local i) Null)"
| "tnode s (ECall f as) = call_node 0 f (tnodes s as)"
| "tnodes s ANil = Null"
| "tnodes s (ACons e as) = set_sibling (tnodes s as) (tnode s e)"

lemma set_sibling_var_node [simp]: "set_sibling sb (var_node d a v sb') = var_node d a v sb"
  by (cases v) simp_all

lemma set_sibling_set_sibling [simp]: "set_sibling sb (set_sibling sb' n) = set_sibling sb n"
  by (cases n) simp_all

lemma var_node_not_Null [simp]: "var_node d a v sb \<noteq> Null" "data_type (var_node d a v sb) = d"
  "node_type (var_node d a v sb) = FINSH_NODE_ID" "node_id (var_node d a (Local i) sb) = Id_var i"
  by (cases v; simp)+

lemma set_sibling_Null [simp]: "set_sibling sb n = Null \<longleftrightarrow> n = Null"
  by (cases n) simp_all

lemma data_type_set_sibling [simp]: "n \<noteq> Null \<Longrightarrow> data_type (set_sibling sb n) = data_type n"
  by (cases n) simp_all

lemma node_of_not_Null [simp]: "node_of e \<noteq> Null"
  by (cases e) (simp_all add: sys_node_def call_node_def)

lemma tnode_not_Null [simp]: "tnode s e \<noteq> Null"
  by (cases e) (simp_all add: sys_node_def call_node_def)

lemma data_type_tnode [simp]: "data_type (tnode s e) = ecode s e"
  by (cases e) (simp_all add: sys_node_def call_node_def ecode_def ocode_def vcode_def)

lemma type_of_id_width:
  "type_width t = Some w \<Longrightarrow> type_of_id t d s = Some (width_code w, s)"
  by (cases t) (auto simp: type_width_def type_of_id_def type_data_type_def finsh_type_defs split: if_splits)

lemma check_var_node:
  assumes "fvar_width s v \<noteq> None" "a = 0 \<or> a = 8" "finsh_type_check sb 0 s = Some (sb', s)"
  shows "finsh_type_check (var_node 0 0 v sb) a s = Some (var_node (vcode s v) a v sb', s)"
proof -
  obtain w where "fvar_width s v = Some w" using assms(1) by blast
  then show ?thesis
    using assms(2,3) by (cases v)
      (auto simp: leaf_data_type_def finsh_idtype_defs rt_assert_def type_of_id_width vcode_def ocode_def split: if_splits)
qed

lemma fits_width: "fits s e w \<Longrightarrow> fvar_width s v = Some w \<Longrightarrow> fvar_width s v \<noteq> None"
  by simp

lemma op_node_simps [simp]:
  "op_node f \<noteq> FINSH_NODE_SYS_ASSIGN" "op_node f \<noteq> FINSH_NODE_SYS_PREINC" "op_node f \<noteq> FINSH_NODE_SYS_PREDEC"
  "op_node f \<noteq> FINSH_NODE_SYS_GETADDR" "op_node f \<noteq> FINSH_NODE_SYS_GETVALUE"
  by (cases f; simp)+

lemma set_sibling_id: "sibling n = Null \<Longrightarrow> n \<noteq> Null \<Longrightarrow> set_sibling Null n = n"
  by (cases n) simp_all

lemma sibling_var_node [simp]: "sibling (var_node d a v sb) = sb"
  by (cases v) simp_all

lemma sibling_node_of [simp]: "sibling (node_of e) = Null"
  by (cases e) (simp_all add: sys_node_def call_node_def)

lemma sibling_tnode [simp]: "sibling (tnode s e) = Null"
  by (cases e) (simp_all add: sys_node_def call_node_def)

lemma set_sibling_own [simp]: "set_sibling Null (node_of e) = node_of e" "set_sibling Null (tnode s e) = tnode s e"
  by (simp_all add: set_sibling_id)

lemmas checks = sys_node_def call_node_def child_is_addr_def finsh_idtype_defs finsh_type_defs leaf_data_type_def
  ecode_def vcode_def

text \<open>The type check turns the tree of an expression into its checked tree and sets no error.\<close>

lemma type_check_expr:
  "fits s e w \<Longrightarrow> finsh_type_check sb 0 s = Some (sb', s) \<Longrightarrow>
     finsh_type_check (set_sibling sb (node_of e)) 0 s = Some (set_sibling sb' (tnode s e), s)"
  "fits_all s as \<Longrightarrow> finsh_type_check (nodes_of as) 0 s = Some (tnodes s as, s)"
proof (induct e and as arbitrary: w sb sb' and rule: fexpr.induct fargs.induct)
  case (EBin f a b)
  have b: "finsh_type_check (node_of b) 0 s = Some (tnode s b, s)"
    using EBin.hyps(2) [of w Null Null] EBin.prems by simp
  have "finsh_type_check (set_sibling (node_of b) (node_of a)) 0 s = Some (set_sibling (tnode s b) (tnode s a), s)"
    using EBin.hyps(1) EBin.prems b by auto
  then show ?case using EBin.prems by (simp add: checks)
next
  case (EStore p e)
  have e: "finsh_type_check (node_of e) 0 s = Some (tnode s e, s)"
    using EStore.hyps(2) [of W32 Null Null] EStore.prems by simp
  have p: "finsh_type_check (node_of p) 0 s = Some (tnode s p, s)"
    using EStore.hyps(1) [of W32 Null Null] EStore.prems by simp
  show ?case using EStore.prems e p by (simp add: checks)
next
  case (ECall f as)
  then show ?case
    by (simp add: checks)
next
  case (ENot a)
  then have "finsh_type_check (node_of a) 0 s = Some (tnode s a, s)"
    using ENot.hyps [of w Null Null] by simp
  then show ?case using ENot.prems by (simp add: checks)
next
  case (EDeref p)
  then have "finsh_type_check (node_of p) 0 s = Some (tnode s p, s)"
    using EDeref.hyps [of w Null Null] by simp
  then show ?case using EDeref.prems by (simp add: checks)
next
  case (EAssign v e)
  then have "finsh_type_check (node_of e) 0 s = Some (tnode s e, s)"
    using EAssign.hyps [of w Null Null] by simp
  then show ?case using EAssign.prems check_var_node [of s v 8 "node_of e"] by (simp add: checks)
next
  case (EPost up i)
  then show ?case using check_var_node [of s "Local i" 0 Null Null] by (simp add: checks del: var_node.simps fvar_width.simps)
next
  case (EPre up i)
  then show ?case using check_var_node [of s "Local i" 8 Null Null] by (simp add: checks del: var_node.simps fvar_width.simps)
next
  case (ACons e as)
  then show ?case by auto
qed (use check_var_node in \<open>auto simp: checks\<close>)

section \<open>The compiler\<close>

lemma emit_bind_cong:
  assumes "same_env s s1" "\<And>s2. same_env s s2 \<Longrightarrow> f s2 = g s2"
  shows "(do { s2 \<leftarrow> emit xs s1; f s2 }) = (do { s2 \<leftarrow> emit xs s1; g s2 })"
  using assms by (cases "emit xs s1") auto

lemma emit_Cons: "(do { s \<leftarrow> finsh_code_byte x s; emit xs s }) = emit (x # xs) s"
  by simp

lemma emit_load: "emit (x # le32 a @ ys) s = (do { s2 \<leftarrow> emit (x # le32 a) s; emit ys s2 })"
  by (simp add: emit_append)

lemma ucast_8_32 [simp]: "(ucast (ucast (x :: u8) :: u32) :: u8) = x"
  by transfer simp

lemma emit_two: "emit [x, y] s = (do { s \<leftarrow> finsh_code_byte x s; finsh_code_byte y s })"
  by simp

lemma load_op_width: "type_width t = Some w \<Longrightarrow> load_op t = Some (wop FINSH_OP_LD_VALUE_BYTE w)"
  by (cases t) (auto simp: type_width_def load_op_def wop_def FINSH_OP_LD_VALUE_BYTE_def FINSH_OP_LD_VALUE_WORD_def
      FINSH_OP_LD_VALUE_DWORD_def split: if_splits)

lemma compile_load_emit:
  "type_width t = Some w \<Longrightarrow>
     compile_load t i a s = emit ((if i AND 8 \<noteq> 0 then FINSH_OP_LD_DWORD else wop FINSH_OP_LD_VALUE_BYTE w) # le32 a) s"
  by (simp add: compile_load_def load_op_width code_dword_emit finsh_idtype_defs)

lemma compile_var_node:
  assumes "same_env s s1" "fvar_width s v = Some w" "a = 0 \<or> a = 8"
  shows "finsh_compile (var_node d a v sb) s1 =
    do { s2 \<leftarrow> emit ((if a = 8 then FINSH_OP_LD_DWORD else wop FINSH_OP_LD_VALUE_BYTE w) # le32 (fvar_at s v)) s1;
         finsh_compile sb s2 }"
proof (cases v)
  case (Local i)
  then have i: "i < length (global_variable s)" "type_width (var_type (global_variable s ! i)) = Some w"
    using assms(2) by (auto split: if_splits)
  have "var_value_at s1 i = var_value_at s i" "global_variable s1 = global_variable s"
    using assms(1) by (simp_all add: same_env_def var_value_at_def)
  with i show ?thesis using assms(3) Local
    by (auto simp: compile_node_def compile_id_def finsh_idtype_defs rt_assert_def compile_load_emit)
next
  case (Sysvar x)
  then show ?thesis using assms
    by (auto simp: compile_node_def compile_id_def finsh_idtype_defs compile_load_emit)
qed

lemmas op_defs = FINSH_OP_LD_BYTE_def FINSH_OP_LD_WORD_def FINSH_OP_LD_DWORD_def
  FINSH_OP_LD_VALUE_BYTE_def FINSH_OP_LD_VALUE_WORD_def FINSH_OP_LD_VALUE_DWORD_def
  FINSH_OP_ST_BYTE_def FINSH_OP_ST_WORD_def FINSH_OP_ST_DWORD_def
  FINSH_OP_LD_VALUE_BYTE_STACK_def FINSH_OP_LD_VALUE_WORD_STACK_def FINSH_OP_LD_VALUE_DWORD_STACK_def

lemma compile_op_emit: "compile_op t (width_code w) s = emit [wop (op_code t) w] s"
  by (cases w) (simp_all add: compile_op_def wop_def finsh_type_defs add.commute)

lemma compile_store_emit:
  "compile_store (width_code w) s = emit [wop FINSH_OP_ST_BYTE w, wop FINSH_OP_LD_VALUE_BYTE_STACK w] s"
  by (cases w) (simp_all add: compile_store_def wop_def finsh_type_defs op_defs)

lemma compile_getvalue_emit: "compile_getvalue 0 (width_code w) s = emit [wop FINSH_OP_LD_VALUE_BYTE_STACK w] s"
  by (cases w) (simp_all add: compile_getvalue_def wop_def finsh_type_defs op_defs)

lemma compile_step_emit:
  "compile_step (if up then FINSH_NODE_SYS_ADD else FINSH_NODE_SYS_SUB) (width_code w) a s = emit (step_code up w a) s"
  by (cases w) (simp_all add: compile_step_def step_code_def wop_def finsh_type_defs op_defs code_dword_emit code_word_emit
      le_def le16_def le32_def)

lemma wop_32 [simp]:
  "wop FINSH_OP_ST_BYTE W32 = FINSH_OP_ST_DWORD" "wop FINSH_OP_LD_VALUE_BYTE_STACK W32 = FINSH_OP_LD_VALUE_DWORD_STACK"
  by (simp_all add: wop_def op_defs)

lemma node_siblings_tnodes [simp]: "node_siblings (set_sibling sb (tnode s e)) = Suc (node_siblings sb)"
  by (cases "tnode s e") (use tnode_not_Null in auto)

lemma node_siblings_args [simp]: "node_siblings (tnodes s as) = size_args as"
  by (induct as rule: fargs.induct [where ?P1.0 = "\<lambda>_. True"]) simp_all

text \<open>The compiler, applied to the checked tree of an expression, emits its code.\<close>

lemma compile_op_node:
  "compile_node (op_node f) d i v x ch s = compile_op (op_node f) d s"
  by (cases f) (simp_all add: compile_node_def)

lemma fits_codes:
  "ewidth s e = Some w \<Longrightarrow> ecode s e = width_code w \<and> the_width s e = w"
  "fvar_width s v = Some w \<Longrightarrow> vcode s v = width_code w \<and> var_width s v = w"
  by (simp_all add: ecode_def vcode_def ocode_def the_width_def var_width_def)

lemma width_code_has [simp]: "has_width (width_code w)" "width_code w AND 15 = width_code w"
  by (cases w; simp add: has_width_def finsh_type_defs)+

lemma same_env_at: "same_env s s1 \<Longrightarrow> var_value_at s1 i = var_value_at s i"
  by (simp add: same_env_def var_value_at_def)

lemma compile_expr:
  "fits s e w \<Longrightarrow> same_env s s1 \<Longrightarrow>
     finsh_compile (set_sibling sb (tnode s e)) s1 = (do { s2 \<leftarrow> emit (code s e) s1; finsh_compile sb s2 })"
  "fits_all s as \<Longrightarrow> same_env s s1 \<Longrightarrow> finsh_compile (tnodes s as) s1 = emit (codes s as) s1"
proof (induct e and as arbitrary: w sb s1 and s1 rule: fexpr.induct fargs.induct)
  case (EBin f a b)
  have b: "finsh_compile (tnode s b) s2 = emit (code s b) s2" if "same_env s s2" for s2
    using EBin.hyps(2) [of w s2 Null] EBin.prems that by simp
  show ?case using EBin.prems EBin.hyps(1) [of w s1 "tnode s b"]
    by (auto simp: sys_node_def compile_op_node compile_op_emit fits_codes emit_append b
        simp del: emit.simps(2) intro!: emit_bind_cong [of s])
next
  case (ENot a)
  then show ?case using ENot.hyps [of w s1 Null]
    by (auto simp: sys_node_def compile_node_def compile_op_emit fits_codes emit_append simp del: emit.simps(2))
next
  case (EDeref p)
  then show ?case using EDeref.hyps [of W32 s1 Null] compile_getvalue_emit [of W32]
    by (auto simp: sys_node_def compile_node_def fits_codes emit_append
        simp del: emit.simps(2))
next
  case (EStore p e)
  have e: "finsh_compile (tnode s e) s2 = emit (code s e) s2" if "same_env s s2" for s2
    using EStore.hyps(2) [of W32 s2 Null] EStore.prems that by simp
  have p: "finsh_compile (tnode s p) s1 = emit (code s p) s1"
    using EStore.hyps(1) [of W32 s1 Null] EStore.prems by simp
  show ?case using EStore.prems compile_store_emit [of W32]
    by (auto simp: sys_node_def compile_node_def compile_getvalue_def compile_assign_def fits_codes emit_append e p
        finsh_idtype_defs simp del: emit.simps(2) intro!: emit_bind_cong [of s])
next
  case (EAssign v e)
  have e: "finsh_compile (tnode s e) s2 = emit (code s e) s2" if "same_env s s2" for s2
    using EAssign.hyps [of w s2 Null] EAssign.prems that by simp
  show ?case using EAssign.prems
    by (auto simp: sys_node_def compile_node_def compile_assign_def fits_codes emit_load emit_append e compile_var_node
        compile_store_emit simp del: emit.simps(2) var_node.simps intro!: emit_bind_cong [of s])
next
  case (EAddr v)
  then show ?case
    by (auto simp: sys_node_def compile_node_def compile_var_node simp del: emit.simps(2) var_node.simps)
next
  case (EVar v)
  then show ?case by (simp add: compile_var_node fits_codes del: var_node.simps emit.simps(2))
next
  case (ECall f as)
  have as: "finsh_compile (tnodes s as) s2 = emit (codes s as) s2" if "same_env s s2" for s2
    using ECall that by simp
  show ?case using ECall.prems
    by (auto simp: call_node_def compile_node_def compile_func_def compile_id_def emit_load emit_append emit_two as code_dword_emit emit_Cons
        finsh_idtype_defs simp del: emit.simps(2) intro!: emit_bind_cong [of s])
next
  case (ACons e as)
  then show ?case by (auto simp: emit_append intro!: emit_bind_cong [of s])
next
  case (EPost up i)
  define a where "a = fvar_at s (Local i)"
  have c: "code s (EPost up i) = (wop FINSH_OP_LD_VALUE_BYTE w # le32 a) @ (FINSH_OP_LD_DWORD # le32 a)
      @ step_code up w a @ [FINSH_OP_POP]" (is "_ = ?c1 @ ?c2 @ ?c3 @ ?c4")
    using EPost.prems by (simp add: fits_codes a_def del: fvar_width.simps)
  have "compile_inc (if up then FINSH_NODE_SYS_ADD else FINSH_NODE_SYS_SUB) (width_code w)
        (var_node (width_code w) 0 (Local i) Null) s2 = emit (?c2 @ ?c3 @ ?c4) s2" if "same_env s s2" for s2
    using that by (simp add: compile_inc_def inc_value_at_def same_env_at a_def code_dword_emit compile_step_emit emit_load emit_append
        del: var_node.simps)
  with EPost.prems show ?case unfolding c
    by (auto simp: sys_node_def compile_node_def fits_codes compile_var_node a_def emit_append
        simp del: emit.simps(2) var_node.simps fvar_width.simps append_Cons intro!: emit_bind_cong [of s])
next
  case (EPre up i)
  define a where "a = fvar_at s (Local i)"
  have c: "code s (EPre up i) = (FINSH_OP_LD_DWORD # le32 a) @ step_code up w a @ [FINSH_OP_LD_VALUE_DWORD_STACK]"
      (is "_ = ?c1 @ ?c2 @ ?c3")
    using EPre.prems by (simp add: fits_codes a_def del: fvar_width.simps)
  have "compile_preinc (if up then FINSH_NODE_SYS_ADD else FINSH_NODE_SYS_SUB) (width_code w)
        (var_node (width_code w) 8 (Local i) Null) s2 = emit (?c2 @ ?c3) s2" if "same_env s s2" for s2
    using that by (simp add: compile_preinc_def inc_value_at_def same_env_at a_def compile_step_emit emit_append
        del: var_node.simps)
  with EPre.prems show ?case unfolding c
    by (auto simp: sys_node_def compile_node_def fits_codes compile_var_node a_def emit_append
        simp del: emit.simps(2) var_node.simps fvar_width.simps append_Cons intro!: emit_bind_cong [of s])
qed (simp_all add: compile_node_def code_dword_emit)

end

