(* ===== verification/Finsh_Exec.thy ===== *)
theory Finsh_Exec
  imports Finsh_Emit
begin

text \<open>
  The virtual machine runs what the compiler emits: each operation computes what the reference semantics
  says, at its width, and the code of an expression pushes its value.
\<close>

section \<open>Arithmetic\<close>

definition byte_fun :: "fop \<Rightarrow> u8 \<Rightarrow> u8 \<Rightarrow> u8 option" where
  "byte_fun f = (case f of
     Add \<Rightarrow> (\<lambda>a b. Some (a + b)) | Sub \<Rightarrow> (\<lambda>a b. Some (a - b)) | Mul \<Rightarrow> (\<lambda>a b. Some (a * b))
   | Div \<Rightarrow> byte_div | Mod \<Rightarrow> byte_mod
   | And \<Rightarrow> (\<lambda>a b. Some (a AND b)) | Or \<Rightarrow> (\<lambda>a b. Some (a OR b)) | Xor \<Rightarrow> (\<lambda>a b. Some (a XOR b))
   | Shl \<Rightarrow> byte_shl | Shr \<Rightarrow> byte_shr)"

definition word_fun :: "fop \<Rightarrow> u16 \<Rightarrow> u16 \<Rightarrow> u16 option" where
  "word_fun f = (case f of
     Add \<Rightarrow> (\<lambda>a b. Some (a + b)) | Sub \<Rightarrow> (\<lambda>a b. Some (a - b)) | Mul \<Rightarrow> (\<lambda>a b. Some (a * b))
   | Div \<Rightarrow> word_div | Mod \<Rightarrow> word_mod
   | And \<Rightarrow> (\<lambda>a b. Some (a AND b)) | Or \<Rightarrow> (\<lambda>a b. Some (a OR b)) | Xor \<Rightarrow> (\<lambda>a b. Some (a XOR b))
   | Shl \<Rightarrow> word_shl | Shr \<Rightarrow> word_shr)"

definition dword_fun :: "fop \<Rightarrow> u32 \<Rightarrow> u32 \<Rightarrow> u32 option" where
  "dword_fun f = (case f of
     Add \<Rightarrow> (\<lambda>a b. Some (a + b)) | Sub \<Rightarrow> (\<lambda>a b. Some (a - b)) | Mul \<Rightarrow> (\<lambda>a b. Some (a * b))
   | Div \<Rightarrow> dword_div | Mod \<Rightarrow> dword_mod
   | And \<Rightarrow> (\<lambda>a b. Some (a AND b)) | Or \<Rightarrow> (\<lambda>a b. Some (a OR b)) | Xor \<Rightarrow> (\<lambda>a b. Some (a XOR b))
   | Shl \<Rightarrow> dword_shl | Shr \<Rightarrow> dword_shr)"

lemma table_bin:
  "op_table call ! unat (wop (op_code (op_node f)) W8) = op_bin_byte (byte_fun f)"
  "op_table call ! unat (wop (op_code (op_node f)) W16) = op_bin_word (word_fun f)"
  "op_table call ! unat (wop (op_code (op_node f)) W32) = op_bin_dword (dword_fun f)"
  by (cases f; simp add: wop_def op_table_def op_bin_defs byte_fun_def word_fun_def dword_fun_def)+

lemma sdiv_nonneg: "0 \<le> x \<Longrightarrow> 0 \<le> y \<Longrightarrow> x sdiv y = x div (y :: int)" "0 \<le> x \<Longrightarrow> 0 \<le> y \<Longrightarrow> x smod y = x mod y"
  by (cases "x = 0"; cases "y = 0"; simp add: signed_divide_int_def signed_modulo_int_def)+

lemma uint_sdiv: "word_of_int (uint a sdiv uint b) = a div (b :: 'a :: len word)" "word_of_int (uint a smod uint b) = a mod b"
  by (simp_all only: sdiv_nonneg [OF uint_ge_0 uint_ge_0] word_of_int_uint flip: uint_div_distrib uint_mod_distrib)

lemma unat_less_32: "uint b < 32 \<Longrightarrow> unat (b :: u8) < 32"
proof -
  assume "uint b < 32"
  moreover have "int (unat b) = uint b" by simp
  ultimately show ?thesis by linarith
qed

lemma nat_sint:
  assumes "0 \<le> sint b"
  shows "nat (sint b) = unat (b :: 'a :: len word)"
proof -
  have "sint b < 2 ^ LENGTH('a)"
    using sint_lt [of b] by (rule order_less_le_trans) simp
  then have "take_bit LENGTH('a) (sint b) = sint b" using assms by (simp add: take_bit_int_eq_self)
  then have "uint (word_of_int (sint b) :: 'a word) = sint b" by (simp only: uint_word_of_int_eq)
  then show ?thesis by (simp add: unat_eq_nat_uint)
qed

lemma word_bits:
  "word_of_int (uint a AND uint b) = a AND (b :: 'a :: len word)" "word_of_int (sint a AND sint b) = a AND b"
  "word_of_int (uint a OR uint b) = a OR b" "word_of_int (sint a OR sint b) = a OR b"
  "word_of_int (uint a XOR uint b) = a XOR b" "word_of_int (sint a XOR sint b) = a XOR b"
  by (simp_all flip: unsigned_and_eq signed_and_eq unsigned_or_eq signed_or_eq unsigned_xor_eq signed_xor_eq)

lemma shl_words:
  "(ucast (push_bit n (ucast (a :: u8) :: u32)) :: u8) = a * 2 ^ n"
  "(ucast (push_bit n (scast (a' :: u16) :: u32)) :: u16) = a' * 2 ^ n"
  "push_bit n (a'' :: u32) = a'' * 2 ^ n"
  by (auto simp flip: push_bit_eq_mult intro!: bit_word_eqI simp: bit_simps)

lemma shr_words:
  "word_of_int (uint a div 2 ^ n) = drop_bit n (a :: 'a :: len word)"
  "word_of_int (sint a div 2 ^ n) = signed_drop_bit n a"
proof -
  have t: "take_bit LENGTH('a) (uint a) = uint a" by transfer simp
  have "uint (drop_bit n a) = drop_bit n (uint a)" by (simp only: unsigned_drop_bit_eq t)
  then have "uint a div 2 ^ n = uint (drop_bit n a)" by (simp only: drop_bit_eq_div)
  moreover have "sint a div 2 ^ n = sint (signed_drop_bit n a)" by (simp only: sint_signed_drop_bit_eq drop_bit_eq_div)
  ultimately show "word_of_int (uint a div 2 ^ n) = drop_bit n a" "word_of_int (sint a div 2 ^ n) = signed_drop_bit n a"
    by simp_all
qed

lemma byte_fun_c_op:
  assumes "c_op f (uint a) (uint b) = Some r"
  shows "byte_fun f a b = Some (word_of_int r)"
proof (cases f)
  case Div
  then show ?thesis using assms by (auto simp: byte_fun_def c_op_def byte_div_def uint_sdiv uint_0_iff split: if_splits)
next
  case Mod
  then show ?thesis using assms by (auto simp: byte_fun_def c_op_def byte_mod_def uint_sdiv uint_0_iff split: if_splits)
next
  case Shl
  then show ?thesis using assms
    by (auto simp: byte_fun_def c_op_def byte_shl_def shl_words(1) nat_uint_eq unat_less_32 split: if_splits)
next
  case Shr
  then show ?thesis using assms by (auto simp: byte_fun_def c_op_def byte_shr_def shr_words nat_uint_eq unat_less_32 split: if_splits)
qed (use assms in \<open>auto simp: byte_fun_def c_op_def word_bits wi_hom_syms\<close>)

lemma word_fun_c_op:
  assumes "c_op f (sint a) (sint b) = Some r"
  shows "word_fun f a b = Some (word_of_int r)"
proof (cases f)
  case Div
  then show ?thesis using assms by (auto simp: word_fun_def c_op_def word_div_def split: if_splits)
next
  case Mod
  then show ?thesis using assms by (auto simp: word_fun_def c_op_def word_mod_def split: if_splits)
next
  case Shl
  then show ?thesis using assms by (auto simp: word_fun_def c_op_def word_shl_def shl_words(2) nat_sint split: if_splits)
next
  case Shr
  then show ?thesis using assms by (auto simp: word_fun_def c_op_def word_shr_def shr_words nat_sint split: if_splits)
qed (use assms in \<open>auto simp: word_fun_def c_op_def word_bits wi_hom_syms\<close>)

lemma dword_fun_c_op:
  assumes "c_op f (sint a) (sint b) = Some r"
  shows "dword_fun f a b = Some (word_of_int r)"
proof (cases f)
  case Div
  then show ?thesis using assms by (auto simp: dword_fun_def c_op_def dword_div_def split: if_splits)
next
  case Mod
  then show ?thesis using assms by (auto simp: dword_fun_def c_op_def dword_mod_def split: if_splits)
next
  case Shl
  then show ?thesis using assms by (auto simp: dword_fun_def c_op_def dword_shl_def shl_words(3) nat_sint split: if_splits)
next
  case Shr
  then show ?thesis using assms by (auto simp: dword_fun_def c_op_def dword_shr_def shr_words nat_sint split: if_splits)
qed (use assms in \<open>auto simp: dword_fun_def c_op_def word_bits wi_hom_syms\<close>)

section \<open>Slots and bytes\<close>

lemma GET16_le16 [simp]: "FINSH_GET16 (ucast x) (ucast (drop_bit 8 x)) = x"
  unfolding FINSH_GET16_def by (rule bit_word_eqI) (auto simp: bit_simps)

lemma GET32_le32 [simp]:
  "FINSH_GET32 (ucast x) (ucast (drop_bit 8 x)) (ucast (drop_bit 16 x)) (ucast (drop_bit 24 x)) = x"
proof (rule bit_word_eqI)
  fix n assume "n < LENGTH(32)"
  then show "bit (FINSH_GET32 (ucast x) (ucast (drop_bit 8 x)) (ucast (drop_bit 16 x)) (ucast (drop_bit 24 x))) n = bit x n"
    unfolding FINSH_GET32_def by (cases "n < 8"; cases "n < 16"; cases "n < 24") (auto simp: bit_simps)
qed

lemma slot_value_eq:
  "slot_value W8 v = uint (char_value v)" "slot_value W16 v = sint (short_value v)" "slot_value W32 v = sint (long_value v)"
  unfolding slot_value_def wrap_def char_value_def short_value_def long_value_def
  by (simp_all add: unsigned_ucast_eq sint_uint signed_take_bit_take_bit)

lemma wrap_word:
  "wrap W8 x = uint (word_of_int x :: u8)" "wrap W16 x = sint (word_of_int x :: u16)" "wrap W32 x = sint (word_of_int x :: u32)"
  by (simp_all add: wrap_def uint_word_of_int_eq sint_uint signed_take_bit_take_bit)

text \<open>Bytes \<open>bs\<close> at position \<open>p\<close> of the text segment.\<close>

definition code_at :: "nat \<Rightarrow> u8 list \<Rightarrow> u8 list \<Rightarrow> bool" where
  "code_at p bs t \<longleftrightarrow> p + length bs \<le> length t \<and> take (length bs) (drop p t) = bs"

lemma code_at_Cons [simp]: "code_at p (b # bs) t \<longleftrightarrow> p < length t \<and> t ! p = b \<and> code_at (Suc p) bs t"
  by (cases "p < length t") (auto simp: code_at_def Cons_nth_drop_Suc [symmetric])

lemma code_at_Nil [simp]: "code_at p [] t \<longleftrightarrow> p \<le> length t"
  by (simp add: code_at_def)

lemma code_at_le: "code_at p bs t \<Longrightarrow> p \<le> length t"
  by (simp add: code_at_def)

lemma code_at_append [simp]: "code_at p (xs @ ys) t \<longleftrightarrow> code_at p xs t \<and> code_at (p + length xs) ys t"
  by (induct xs arbitrary: p) (auto dest: code_at_le)

lemma le16_length [simp]: "length (le16 x) = 2" "length (le32 y) = 4"
  by (simp_all add: le16_def le32_def)

lemma text16_le16:
  "code_at (finsh_pc s) (le16 x) (text_segment s) \<Longrightarrow> text16 s = Some x"
  by (simp add: text16_def le16_def vm_text_def)

lemma text32_le32:
  "code_at (finsh_pc s) (le32 x) (text_segment s) \<Longrightarrow> text32 s = Some x"
  by (simp add: text32_def le32_def vm_text_def numeral_2_eq_2 numeral_3_eq_3)

section \<open>Single steps\<close>

definition upd :: "u32 list \<Rightarrow> nat \<Rightarrow> nat \<Rightarrow> memory \<Rightarrow> finsh_vm \<Rightarrow> finsh_vm" where
  "upd st n p m s = s\<lparr>vm_stack := st, finsh_sp := n, finsh_pc := p, vm_mem := m\<rparr>"

lemma upd_simps [simp]:
  "vm_stack (upd st n p m s) = st" "finsh_sp (upd st n p m s) = n" "finsh_pc (upd st n p m s) = p"
  "vm_mem (upd st n p m s) = m" "text_segment (upd st n p m s) = text_segment s"
  "upd st n p m (upd st' n' p' m' s) = upd st n p m s"
  by (simp_all add: upd_def)

text \<open>The stack \<open>st\<close> is \<open>old\<close> with a slot of value \<open>x\<close> at \<open>n\<close>; the slots above do not matter.\<close>

definition pushed :: "nat \<Rightarrow> width \<Rightarrow> int \<Rightarrow> u32 list \<Rightarrow> u32 list \<Rightarrow> bool" where
  "pushed n w x old st \<longleftrightarrow> length st = length old \<and> n < length old \<and> take n st = take n old \<and> slot_value w (st ! n) = x"

definition vm_next :: "vm_funs \<Rightarrow> finsh_vm \<Rightarrow> finsh_vm \<Rightarrow> bool" where
  "vm_next call s s' \<longleftrightarrow> finsh_pc s < FINSH_TEXT_MAX \<and> vm_step call s = Some s'"

lemma vm_loop_next:
  "rtranclp (vm_next call) s s' \<Longrightarrow> vm_loop call s = vm_loop call s'"
  by (induct rule: converse_rtranclp_induct) (auto simp: vm_next_def vm_loop.simps [of call])

lemma vm_stepI:
  assumes "code_at (finsh_pc s) [op] (text_segment s)" "length (text_segment s) = FINSH_TEXT_MAX"
    "unat op < 48" "(op_table call ! unat op) (s\<lparr>finsh_pc := finsh_pc s + 1\<rparr>) = Some s'"
  shows "vm_next call s s'"
proof -
  have "length (op_table call) = 48" by (simp add: op_table_def)
  with assms show ?thesis by (simp add: vm_next_def vm_step_def vm_text_def rt_assert_def)
qed

lemma wop_op_less: "unat (wop (op_code (op_node f)) w) < 48"
  by (cases f; cases w; simp add: wop_def)

lemma step_bin:
  assumes "code_at (finsh_pc s) [wop (op_code (op_node f)) w] (text_segment s)" "length (text_segment s) = FINSH_TEXT_MAX"
    "finsh_sp s = n + 2" "n + 2 \<le> length (vm_stack s)" "slot_value w (vm_stack s ! n) = x"
    "slot_value w (vm_stack s ! (n + 1)) = y" "bin w f x y = Some r"
  shows "\<exists>st. vm_next call s (upd st (n + 1) (finsh_pc s + 1) (vm_mem s) s) \<and> pushed n w r (vm_stack s) st"
proof -
  obtain r0 where r0: "c_op f x y = Some r0" "r = wrap w r0" using assms(7) by (auto simp: bin_def)
  define v where "v = (case w of
      W8 \<Rightarrow> set_char (vm_stack s ! n) (word_of_int r0)
    | W16 \<Rightarrow> set_short (vm_stack s ! n) (word_of_int r0)
    | W32 \<Rightarrow> set_long (vm_stack s ! n) (word_of_int r0))"
  have "(op_table call ! unat (wop (op_code (op_node f)) w)) (s\<lparr>finsh_pc := finsh_pc s + 1\<rparr>)
      = Some (upd ((vm_stack s)[n := v]) (n + 1) (finsh_pc s + 1) (vm_mem s) s)"
    using assms r0 byte_fun_c_op [of f] word_fun_c_op [of f] dword_fun_c_op [of f]
    by (cases w) (auto simp: table_bin op_bin_byte_def op_bin_word_def op_bin_dword_def vm_top_def vm_slot_def
        slot_value_eq upd_def v_def)
  moreover have "pushed n w r (vm_stack s) ((vm_stack s)[n := v])"
    using assms r0 by (cases w) (auto simp: pushed_def v_def slot_value_eq wrap_word)
  ultimately show ?thesis using vm_stepI [OF assms(1,2) wop_op_less] by blast
qed

lemma code_at_load:
  "code_at p (x # bs) t \<Longrightarrow> code_at p [x] t \<and> code_at (p + 1) bs t"
  by (auto dest: code_at_le)

lemma length_le [simp]: "length (le w v) = (case w of W8 \<Rightarrow> 1 | W16 \<Rightarrow> 2 | W32 \<Rightarrow> 4)"
  by (cases w) (simp_all add: le_def)

lemma wop_less:
  "unat (wop FINSH_OP_LD_BYTE w) < 48" "unat (wop FINSH_OP_LD_VALUE_BYTE w) < 48" "unat (wop FINSH_OP_ST_BYTE w) < 48"
  "unat (wop FINSH_OP_LD_VALUE_BYTE_STACK w) < 48" "unat (wop (op_code FINSH_NODE_SYS_BITWISE) w) < 48"
  by (cases w; simp add: wop_def op_defs)+

lemma step_const:
  assumes "code_at (finsh_pc s) (wop FINSH_OP_LD_BYTE w # le w v) (text_segment s)" "length (text_segment s) = FINSH_TEXT_MAX"
    "finsh_sp s < length (vm_stack s)"
  shows "\<exists>st. vm_next call s (upd st (finsh_sp s + 1) (finsh_pc s + 1 + length (le w v)) (vm_mem s) s)
    \<and> pushed (finsh_sp s) w (slot_value w v) (vm_stack s) st"
proof -
  define u where "u = (case w of
      W8 \<Rightarrow> set_char (vm_stack s ! finsh_sp s) (ucast v)
    | W16 \<Rightarrow> set_short (vm_stack s ! finsh_sp s) (ucast v)
    | W32 \<Rightarrow> set_long (vm_stack s ! finsh_sp s) v)"
  note c = code_at_load [OF assms(1)]
  have "(op_table call ! unat (wop FINSH_OP_LD_BYTE w)) (s\<lparr>finsh_pc := finsh_pc s + 1\<rparr>)
      = Some (upd ((vm_stack s)[finsh_sp s := u]) (finsh_sp s + 1) (finsh_pc s + 1 + length (le w v)) (vm_mem s) s)"
  proof (cases w)
    case W8
    then show ?thesis using assms(3) c
      by (simp add: op_table_def wop_def op_defs OP_ld_byte_def op_load_def vm_slot_def vm_text_def upd_def u_def le_def)
  next
    case W16
    then have "text16 (s\<lparr>finsh_pc := finsh_pc s + 1\<rparr>) = Some (ucast v)" using c by (simp add: text16_le16 le_def)
    then show ?thesis using assms(3) W16
      by (simp add: op_table_def wop_def op_defs OP_ld_word_def op_load_def vm_slot_def upd_def u_def)
  next
    case W32
    then have "text32 (s\<lparr>finsh_pc := finsh_pc s + 1\<rparr>) = Some v" using c by (simp add: text32_le32 le_def)
    then show ?thesis using assms(3) W32
      by (simp add: op_table_def wop_def op_defs OP_ld_dword_def op_load_def vm_slot_def upd_def u_def)
  qed
  moreover have "pushed (finsh_sp s) w (slot_value w v) (vm_stack s) ((vm_stack s)[finsh_sp s := u])"
    using assms(3) by (cases w) (auto simp: pushed_def u_def slot_value_eq char_value_def short_value_def long_value_def
        set_value [unfolded char_value_def short_value_def long_value_def])
  ultimately show ?thesis using vm_stepI [OF _ assms(2) wop_less(1)] c by blast
qed

lemma fetch_slot:
  "slot_value w (case w of W8 \<Rightarrow> set_char u (m a) | W16 \<Rightarrow> set_short u (get_mem16 m a) | W32 \<Rightarrow> set_long u (get_mem32 m a))
     = fetch w m a"
  by (cases w) (simp_all add: slot_value_eq fetch_def)

lemma step_load:
  assumes "code_at (finsh_pc s) (wop FINSH_OP_LD_VALUE_BYTE w # le32 a) (text_segment s)" "length (text_segment s) = FINSH_TEXT_MAX"
    "finsh_sp s < length (vm_stack s)"
  shows "\<exists>st. vm_next call s (upd st (finsh_sp s + 1) (finsh_pc s + 5) (vm_mem s) s)
    \<and> pushed (finsh_sp s) w (fetch w (vm_mem s) a) (vm_stack s) st"
proof -
  define u where "u = (case w of
      W8 \<Rightarrow> set_char (vm_stack s ! finsh_sp s) (vm_mem s a)
    | W16 \<Rightarrow> set_short (vm_stack s ! finsh_sp s) (get_mem16 (vm_mem s) a)
    | W32 \<Rightarrow> set_long (vm_stack s ! finsh_sp s) (get_mem32 (vm_mem s) a))"
  note c = code_at_load [OF assms(1)]
  have "text32 (s\<lparr>finsh_pc := finsh_pc s + 1\<rparr>) = Some a" using c by (simp add: text32_le32)
  then have "(op_table call ! unat (wop FINSH_OP_LD_VALUE_BYTE w)) (s\<lparr>finsh_pc := finsh_pc s + 1\<rparr>)
      = Some (upd ((vm_stack s)[finsh_sp s := u]) (finsh_sp s + 1) (finsh_pc s + 5) (vm_mem s) s)"
    using assms(3) by (cases w) (simp_all add: op_table_def wop_def op_defs OP_ld_value_byte_def OP_ld_value_word_def
        OP_ld_value_dword_def op_load_def vm_slot_def upd_def u_def)
  moreover have "pushed (finsh_sp s) w (fetch w (vm_mem s) a) (vm_stack s) ((vm_stack s)[finsh_sp s := u])"
    using assms(3) by (auto simp: pushed_def u_def fetch_slot)
  ultimately show ?thesis using vm_stepI [OF _ assms(2) wop_less(2)] c by blast
qed

lemma step_reload:
  assumes "code_at (finsh_pc s) [wop FINSH_OP_LD_VALUE_BYTE_STACK w] (text_segment s)" "length (text_segment s) = FINSH_TEXT_MAX"
    "finsh_sp s = n + 1" "n < length (vm_stack s)"
  shows "\<exists>st. vm_next call s (upd st (n + 1) (finsh_pc s + 1) (vm_mem s) s)
    \<and> pushed n w (fetch w (vm_mem s) (vm_stack s ! n)) (vm_stack s) st"
proof -
  let ?a = "vm_stack s ! n"
  define u where "u = (case w of
      W8 \<Rightarrow> set_char ?a (vm_mem s ?a) | W16 \<Rightarrow> set_short ?a (get_mem16 (vm_mem s) ?a)
    | W32 \<Rightarrow> set_long ?a (get_mem32 (vm_mem s) ?a))"
  have "(op_table call ! unat (wop FINSH_OP_LD_VALUE_BYTE_STACK w)) (s\<lparr>finsh_pc := finsh_pc s + 1\<rparr>)
      = Some (upd ((vm_stack s)[n := u]) (n + 1) (finsh_pc s + 1) (vm_mem s) s)"
    using assms(3,4) by (cases w) (simp_all add: op_table_def wop_def op_defs op_top_defs long_value_def
        op_top_def vm_top_def vm_slot_def upd_def u_def)
  moreover have "pushed n w (fetch w (vm_mem s) ?a) (vm_stack s) ((vm_stack s)[n := u])"
    using assms(4) by (auto simp: pushed_def u_def fetch_slot)
  ultimately show ?thesis using vm_stepI [OF assms(1,2) wop_less(4)] by blast
qed

lemma word_nots: "word_of_int (NOT (uint v)) = NOT (v :: 'a :: len word)" "word_of_int (NOT (sint v)) = NOT v"
  by (simp_all add: not_eq_complement)

lemma step_not:
  assumes "code_at (finsh_pc s) [wop (op_code FINSH_NODE_SYS_BITWISE) w] (text_segment s)" "length (text_segment s) = FINSH_TEXT_MAX"
    "finsh_sp s = n + 1" "n < length (vm_stack s)" "slot_value w (vm_stack s ! n) = x"
  shows "\<exists>st. vm_next call s (upd st (n + 1) (finsh_pc s + 1) (vm_mem s) s)
    \<and> pushed n w (wrap w (NOT x)) (vm_stack s) st"
proof -
  let ?v = "vm_stack s ! n"
  define u where "u = (case w of
      W8 \<Rightarrow> set_char ?v (NOT (char_value ?v)) | W16 \<Rightarrow> set_short ?v (NOT (short_value ?v))
    | W32 \<Rightarrow> set_long ?v (NOT (long_value ?v)))"
  have "(op_table call ! unat (wop (op_code FINSH_NODE_SYS_BITWISE) w)) (s\<lparr>finsh_pc := finsh_pc s + 1\<rparr>)
      = Some (upd ((vm_stack s)[n := u]) (n + 1) (finsh_pc s + 1) (vm_mem s) s)"
    using assms(3,4) by (cases w) (simp_all add: op_table_def wop_def op_top_defs
        op_top_def vm_top_def vm_slot_def upd_def u_def)
  moreover have "slot_value w u = wrap w (NOT x)"
    using assms(5) by (cases w) (auto simp: u_def slot_value_eq wrap_word word_nots)
  ultimately show ?thesis using vm_stepI [OF assms(1,2) wop_less(5)] assms(4)
    by (auto simp: pushed_def intro!: exI [of _ "(vm_stack s)[n := u]"])
qed

lemma word_of_slot:
  "slot_value W8 v = x \<Longrightarrow> word_of_int x = char_value v" "slot_value W16 v = x \<Longrightarrow> word_of_int x = short_value v"
  "slot_value W32 v = x \<Longrightarrow> word_of_int x = long_value v"
  by (auto simp: slot_value_eq)

lemma step_store:
  assumes "code_at (finsh_pc s) [wop FINSH_OP_ST_BYTE w] (text_segment s)" "length (text_segment s) = FINSH_TEXT_MAX"
    "finsh_sp s = n + 2" "n + 2 \<le> length (vm_stack s)" "slot_value w (vm_stack s ! (n + 1)) = x"
  shows "vm_next call s (upd (vm_stack s) (n + 1) (finsh_pc s + 1) (store w (vm_stack s ! n) x (vm_mem s)) s)"
proof -
  have "(op_table call ! unat (wop FINSH_OP_ST_BYTE w)) (s\<lparr>finsh_pc := finsh_pc s + 1\<rparr>)
      = Some (upd (vm_stack s) (n + 1) (finsh_pc s + 1) (store w (vm_stack s ! n) x (vm_mem s)) s)"
    using assms(3-5) by (cases w) (auto simp: op_table_def wop_def op_defs OP_st_byte_def OP_st_word_def OP_st_dword_def
        vm_top_def vm_slot_def upd_def store_def word_of_slot long_value_def)
  then show ?thesis using vm_stepI [OF assms(1,2) wop_less(3)] by blast
qed

lemma step_pop:
  assumes "code_at (finsh_pc s) [FINSH_OP_POP] (text_segment s)" "length (text_segment s) = FINSH_TEXT_MAX" "finsh_sp s = n + 1"
  shows "vm_next call s (upd (vm_stack s) n (finsh_pc s + 1) (vm_mem s) s)"
  by (rule vm_stepI) (use assms in \<open>auto simp: op_table_def FINSH_OP_POP_def OP_pop_def upd_def\<close>)

section \<open>Expressions\<close>

text \<open>How many slots the code of an expression takes at most.\<close>

primrec depth :: "fexpr \<Rightarrow> nat" and depths :: "fargs \<Rightarrow> nat" where
  "depth (EChar c) = 1" | "depth (EInt i) = 1" | "depth (ELong i) = 1" | "depth (EString p) = 1" | "depth ENull = 1"
| "depth (EVar v) = 1"
| "depth (EAddr v) = 1"
| "depth (EBin f a b) = max (depth a) (Suc (depth b))"
| "depth (ENot a) = depth a"
| "depth (EAssign v e) = Suc (depth e)"
| "depth (EStore p e) = max (depth p) (Suc (depth e))"
| "depth (EDeref p) = depth p"
| "depth (EPost up i) = 4"
| "depth (EPre up i) = 3"
| "depth (ECall f as) = Suc (depths as)"
| "depths ANil = 0"
| "depths (ACons e as) = max (depth e) (Suc (depths as))"

definition reaches :: "vm_funs \<Rightarrow> finsh_vm \<Rightarrow> u32 list \<Rightarrow> nat \<Rightarrow> nat \<Rightarrow> memory \<Rightarrow> bool" where
  "reaches call s st n p m \<longleftrightarrow> rtranclp (vm_next call) s (upd st n p m s)"

lemma reaches_next: "vm_next call s (upd st n p m s) \<Longrightarrow> reaches call s st n p m"
  by (simp add: reaches_def r_into_rtranclp)

lemma reaches_trans:
  assumes "reaches call s st n p m" "reaches call (upd st n p m s) st' n' p' m'"
  shows "reaches call s st' n' p' m'"
  using assms by (auto simp: reaches_def intro: rtranclp_trans)

lemma reaches_step:
  assumes "reaches call s st n p m" "vm_next call (upd st n p m s) (upd st' n' p' m' s)"
  shows "reaches call s st' n' p' m'"
  using assms unfolding reaches_def by (rule rtranclp.rtrancl_into_rtrancl)

lemma pushed_pushed:
  assumes "pushed n w x a b" "pushed (n + 1) w' y b c"
  shows "slot_value w (c ! n) = x" "c ! n = b ! n" "slot_value w' (c ! (n + 1)) = y" "take n c = take n a" "length c = length a"
    "n + 2 \<le> length c"
proof -
  have l: "length b = length a" "length c = length b" "n + 1 < length c"
    and t: "take n b = take n a" "take (n + 1) c = take (n + 1) b" and v: "slot_value w (b ! n) = x" "slot_value w' (c ! (n + 1)) = y"
    using assms by (auto simp: pushed_def)
  have "take (n + 1) c ! n = take (n + 1) b ! n" "take n (take (n + 1) c) = take n (take (n + 1) b)"
    using t(2) by simp_all
  then have n: "c ! n = b ! n" and t': "take n c = take n b" by (simp_all add: min_def)
  show "c ! n = b ! n" by (rule n)
  show "slot_value w (c ! n) = x" using v(1) n by simp
  show "slot_value w' (c ! (n + 1)) = y" by (rule v(2))
  show "take n c = take n a" using t' t(1) by simp
  show "length c = length a" "n + 2 \<le> length c" using l by simp_all
qed

lemma pushed_cong: "pushed n w x b c \<Longrightarrow> take n b = take n a \<Longrightarrow> length b = length a \<Longrightarrow> pushed n w x a c"
  by (simp add: pushed_def)

lemma get_put_mem [simp]: "get_mem16 (put_mem16 a v m) a = v" "get_mem32 (put_mem32 a u m) a = u"
  by (simp_all add: put_mem16_def get_mem16_def put_mem32_def get_mem32_def)

lemma fetch_store [simp]: "fetch w (store w a x m) a = wrap w x"
  by (cases w) (simp_all add: fetch_def store_def wrap_word)

lemma wrap_slot [simp]: "wrap w (slot_value w v) = slot_value w v"
  by (cases w) (simp_all add: slot_value_def wrap_def)

lemma const_slot: "slot_value W8 (ucast c) = uint (c :: u8)" "slot_value W32 i = sint i"
  by (simp_all add: slot_value_eq char_value_def long_value_def)

lemma load_ops [simp]: "wop FINSH_OP_LD_BYTE W8 = FINSH_OP_LD_BYTE" "wop FINSH_OP_LD_BYTE W32 = FINSH_OP_LD_DWORD"
  "le W8 v = [ucast v]" "le W32 v = le32 v"
  by (simp_all add: wop_def op_defs le_def)

text \<open>An address or a constant of 32 bits.\<close>

lemma step_dword:
  assumes "code_at (finsh_pc s) (FINSH_OP_LD_DWORD # le32 v) (text_segment s)" "length (text_segment s) = FINSH_TEXT_MAX"
    "finsh_sp s < length (vm_stack s)"
  shows "\<exists>st. reaches call s st (finsh_sp s + 1) (finsh_pc s + 5) (vm_mem s)
    \<and> pushed (finsh_sp s) W32 (sint v) (vm_stack s) st"
  using step_const [of s W32 v call] assms by (auto intro: reaches_next simp: const_slot add.commute)

lemma slot_32: "slot_value W32 v = sint u \<longleftrightarrow> v = u"
  unfolding slot_value_eq long_value_def by (metis signed_word_eqI)

lemma word_of_slot_32: "slot_value W32 v = x \<Longrightarrow> word_of_int x = v"
  by (auto simp: slot_value_eq long_value_def)

text \<open>The code of an expression pushes its value and leaves the slots below as they were.\<close>

lemma exec_bin:
  assumes "reaches call s st1 (n + 1) p1 m1" "pushed n w x (vm_stack s) st1"
    "reaches call (upd st1 (n + 1) p1 m1 s) st2 (n + 2) p2 m2" "pushed (n + 1) w y st1 st2"
    "code_at p2 [wop (op_code (op_node f)) w] (text_segment s)" "length (text_segment s) = FINSH_TEXT_MAX"
    "bin w f x y = Some r"
  shows "\<exists>st. reaches call s st (n + 1) (p2 + 1) m2 \<and> pushed n w r (vm_stack s) st"
proof -
  note p = pushed_pushed [OF assms(2,4)]
  obtain st where st: "vm_next call (upd st2 (n + 2) p2 m2 s) (upd st (n + 1) (p2 + 1) m2 s)" "pushed n w r st2 st"
    using step_bin [of "upd st2 (n + 2) p2 m2 s" f w n x y r call] assms(5-7) p by auto
  have "reaches call s st (n + 1) (p2 + 1) m2"
    using reaches_step [OF reaches_trans [OF assms(1,3)] st(1)] .
  moreover have "pushed n w r (vm_stack s) st" using pushed_cong [OF st(2)] p by simp
  ultimately show ?thesis by blast
qed

lemma exec_store:
  assumes "reaches call s st1 (n + 1) p1 m1" "pushed n W32 (sint a) (vm_stack s) st1"
    "reaches call (upd st1 (n + 1) p1 m1 s) st2 (n + 2) p2 m2" "pushed (n + 1) w x st1 st2"
    "code_at p2 [wop FINSH_OP_ST_BYTE w] (text_segment s)" "length (text_segment s) = FINSH_TEXT_MAX"
  shows "reaches call s st2 (n + 1) (p2 + 1) (store w a x m2)" "st2 ! n = a" "take n st2 = take n (vm_stack s)"
    "length st2 = length (vm_stack s)" "n < length st2"
proof -
  note p = pushed_pushed [OF assms(2,4)]
  show a: "st2 ! n = a" using p(1) by (simp add: slot_32)
  have "vm_next call (upd st2 (n + 2) p2 m2 s) (upd st2 (n + 1) (p2 + 1) (store w a x m2) s)"
    using step_store [of "upd st2 (n + 2) p2 m2 s" w n x call] assms(5,6) p a by simp
  then show "reaches call s st2 (n + 1) (p2 + 1) (store w a x m2)"
    using reaches_step [OF reaches_trans [OF assms(1,3)]] by blast
  show "take n st2 = take n (vm_stack s)" "length st2 = length (vm_stack s)" "n < length st2" using p by simp_all
qed

lemma exec_reload:
  assumes "reaches call s st (n + 1) p m" "n < length st" "take n st = take n (vm_stack s)" "length st = length (vm_stack s)"
    "code_at p [wop FINSH_OP_LD_VALUE_BYTE_STACK w] (text_segment s)" "length (text_segment s) = FINSH_TEXT_MAX"
  shows "\<exists>st'. reaches call s st' (n + 1) (p + 1) m \<and> pushed n w (fetch w m (st ! n)) (vm_stack s) st'"
proof -
  obtain st' where st': "vm_next call (upd st (n + 1) p m s) (upd st' (n + 1) (p + 1) m s)" "pushed n w (fetch w m (st ! n)) st st'"
    using step_reload [of "upd st (n + 1) p m s" w n call] assms by auto
  then show ?thesis using reaches_step [OF assms(1)] pushed_cong [OF st'(2)] assms(3,4) by blast
qed

lemma exec_not:
  assumes "reaches call s st (n + 1) p m" "pushed n w x (vm_stack s) st"
    "code_at p [wop (op_code FINSH_NODE_SYS_BITWISE) w] (text_segment s)" "length (text_segment s) = FINSH_TEXT_MAX"
  shows "\<exists>st'. reaches call s st' (n + 1) (p + 1) m \<and> pushed n w (wrap w (NOT x)) (vm_stack s) st'"
proof -
  obtain st' where st': "vm_next call (upd st (n + 1) p m s) (upd st' (n + 1) (p + 1) m s)" "pushed n w (wrap w (NOT x)) st st'"
    using step_not [of "upd st (n + 1) p m s" w n x call] assms by (auto simp: pushed_def)
  have "pushed n w (wrap w (NOT x)) (vm_stack s) st'"
    using pushed_cong [OF st'(2)] assms(2) by (simp add: pushed_def)
  then show ?thesis using reaches_step [OF assms(1) st'(1)] by blast
qed

text \<open>The code that adds one: the address is on the stack, the value goes above it.\<close>

lemma exec_step:
  assumes "code_at (finsh_pc s) (step_code up w a) (text_segment s)" "length (text_segment s) = FINSH_TEXT_MAX"
    "finsh_sp s = n + 1" "n + 3 \<le> length (vm_stack s)" "vm_stack s ! n = a"
  shows "\<exists>st. reaches call s st (n + 1) (finsh_pc s + length (step_code up w a))
           (store w a (wrap w (step up (fetch w (vm_mem s) a))) (vm_mem s))
    \<and> length st = length (vm_stack s) \<and> take (n + 1) st = take (n + 1) (vm_stack s)"
proof -
  let ?x = "fetch w (vm_mem s) a" and ?m = "vm_mem s" and ?f = "if up then Add else Sub"
  define p where "p = finsh_pc s + 5"
  define q where "q = p + 1 + length (le w 1)"
  have c: "code_at (finsh_pc s) (wop FINSH_OP_LD_VALUE_BYTE w # le32 a) (text_segment s)"
    "code_at p (wop FINSH_OP_LD_BYTE w # le w 1) (text_segment s)"
    "code_at q [wop (op_code (op_node ?f)) w] (text_segment s)" "code_at (q + 1) [wop FINSH_OP_ST_BYTE w] (text_segment s)"
    "finsh_pc s + length (step_code up w a) = q + 2"
    using assms(1) by (auto simp: step_code_def p_def q_def algebra_simps dest: code_at_le split: if_splits)
  obtain st1 where 1: "vm_next call s (upd st1 (n + 2) p ?m s)" "pushed (n + 1) w ?x (vm_stack s) st1"
    using step_load [OF c(1) assms(2), of call] assms(3,4) by (auto simp: p_def)
  obtain st2 where 2: "vm_next call (upd st1 (n + 2) p ?m s) (upd st2 (n + 3) q ?m s)" "pushed (n + 2) w (slot_value w 1) st1 st2"
    using step_const [of "upd st1 (n + 2) p ?m s" w 1 call] c(2) assms(2,4) 1(2) by (auto simp: q_def pushed_def numeral_eq_Suc)
  have r2: "reaches call (upd st1 (n + 2) p ?m s) st2 (n + 3) q ?m" using 2(1) by (simp add: reaches_def r_into_rtranclp)
  have one: "slot_value w 1 = 1" by (cases w) (simp_all add: slot_value_def wrap_def)
  have "bin w ?f ?x 1 = Some (wrap w (step up ?x))" by (simp add: bin_def c_op_def step_def)
  then obtain st3 where 3: "reaches call s st3 (n + 2) (q + 1) ?m" "pushed (n + 1) w (wrap w (step up ?x)) (vm_stack s) st3"
    using exec_bin [of call s st1 "n + 1" p ?m w ?x st2 q ?m 1 ?f] reaches_next [OF 1(1)] r2 1(2) 2(2)
      c(3) assms(2) by (auto simp: one numeral_3_eq_3)
  have n: "st3 ! n = a" "length st3 = length (vm_stack s)" "take (n + 1) st3 = take (n + 1) (vm_stack s)"
  proof -
    have "take (n + 1) st3 ! n = take (n + 1) (vm_stack s) ! n" using 3(2) by (simp add: pushed_def)
    then show "st3 ! n = a" using assms(5) by simp
  qed (use 3(2) in \<open>simp_all add: pushed_def\<close>)
  have v: "vm_next call (upd st3 (n + 2) (q + 1) ?m s) (upd st3 (n + 1) (q + 2) (store w a (wrap w (step up ?x)) ?m) s)"
    using step_store [of "upd st3 (n + 2) (q + 1) ?m s" w n "wrap w (step up ?x)" call] c(4) assms(2,4) n 3(2)
    by (auto simp: pushed_def)
  show ?thesis unfolding c(5) using reaches_step [OF 3(1) v] n(2,3) by blast
qed

lemma exec_call:
  assumes "reaches call s st (n + 1 + k) p m" "code_at p [FINSH_OP_SYSCALL, of_nat k] (text_segment s)"
    "length (text_segment s) = FINSH_TEXT_MAX" "k \<le> 16" "n + 1 + k \<le> length st" "length st = length (vm_stack s)"
    "st ! n = f" "take k (drop (n + 1) st) = xs" "take n st = take n (vm_stack s)" "call f xs m = Some (m', r)"
  shows "\<exists>st'. reaches call s st' (n + 1) (p + 2) m' \<and> pushed n W32 (sint r) (vm_stack s) st'"
proof -
  have k: "unat (of_nat k :: u8) = k" using assms(4) by (simp add: unat_of_nat)
  have "vm_next call (upd st (n + 1 + k) p m s) (upd (st[n := r]) (n + 1) (p + 2) m' s)"
    by (rule vm_stepI) (use assms k in \<open>auto simp: FINSH_OP_SYSCALL_def op_table_def OP_call_def vm_text_def rt_assert_def
        long_value_def set_long_def upd_def\<close>)
  then have "reaches call s (st[n := r]) (n + 1) (p + 2) m'" by (rule reaches_step [OF assms(1)])
  moreover have "pushed n W32 (sint r) (vm_stack s) (st[n := r])"
    using assms by (simp add: pushed_def slot_32)
  ultimately show ?thesis by blast
qed

lemma store_wrap: "store w a (wrap w x) m = store w a x m"
  by (cases w) (simp_all add: store_def wrap_word)

lemma wrap_wrap: "wrap w (wrap w x) = wrap w x"
  by (cases w) (simp_all add: wrap_def)

lemma slot_get_mem32: "slot_value w (get_mem32 m a) = fetch w m a"
proof -
  have "ucast (FINSH_GET32 b c d e) = b" "ucast (FINSH_GET32 b c d e) = FINSH_GET16 b c" for b c d e
    unfolding FINSH_GET32_def FINSH_GET16_def by (auto intro!: bit_word_eqI simp: bit_simps)
  then show ?thesis
    by (cases w) (simp_all add: slot_value_eq fetch_def get_mem32_def get_mem16_def char_value_def short_value_def long_value_def)
qed

text \<open>The arguments of a call pile up in order.\<close>

definition piled :: "nat \<Rightarrow> int list \<Rightarrow> u32 list \<Rightarrow> u32 list \<Rightarrow> bool" where
  "piled n xs old st \<longleftrightarrow> length st = length old \<and> n + length xs \<le> length old \<and> take n st = take n old
     \<and> take (length xs) (drop n st) = map word_of_int xs"

lemma piled_Cons:
  assumes "pushed n W32 x old st1" "piled (n + 1) xs st1 st"
  shows "piled n (x # xs) old st"
proof -
  have t: "take (n + 1) st = take (n + 1) st1" using assms(2) by (simp add: piled_def)
  then have "take (n + 1) st ! n = take (n + 1) st1 ! n" "take n (take (n + 1) st) = take n (take (n + 1) st1)" by simp_all
  then have "st ! n = word_of_int x" "take n st = take n old"
    using assms(1) by (auto simp: pushed_def min_def word_of_slot_32)
  then show ?thesis using assms by (auto simp: piled_def pushed_def Cons_nth_drop_Suc [symmetric])
qed

text \<open>No call has more arguments than the virtual machine passes on.\<close>

primrec args_ok :: "fexpr \<Rightarrow> bool" and args_all :: "fargs \<Rightarrow> bool" where
  "args_ok (EChar c) = True" | "args_ok (EInt i) = True" | "args_ok (ELong i) = True" | "args_ok (EString p) = True"
| "args_ok ENull = True" | "args_ok (EVar v) = True" | "args_ok (EAddr v) = True"
| "args_ok (EBin f a b) \<longleftrightarrow> args_ok a \<and> args_ok b"
| "args_ok (ENot a) = args_ok a"
| "args_ok (EAssign v e) = args_ok e"
| "args_ok (EStore p e) \<longleftrightarrow> args_ok p \<and> args_ok e"
| "args_ok (EDeref p) = args_ok p"
| "args_ok (EPost up i) = True" | "args_ok (EPre up i) = True"
| "args_ok (ECall f as) \<longleftrightarrow> size_args as \<le> 16 \<and> args_all as"
| "args_all ANil = True"
| "args_all (ACons e as) \<longleftrightarrow> args_ok e \<and> args_all as"

lemma exec_expr:
  "fits s0 e w \<Longrightarrow> args_ok e \<Longrightarrow> eval call s0 e (vm_mem s) = Some (m, x) \<Longrightarrow> code_at (finsh_pc s) (code s0 e) (text_segment s) \<Longrightarrow>
     length (text_segment s) = FINSH_TEXT_MAX \<Longrightarrow> finsh_sp s + depth e \<le> length (vm_stack s) \<Longrightarrow>
     \<exists>st. reaches call s st (finsh_sp s + 1) (finsh_pc s + length (code s0 e)) m \<and> pushed (finsh_sp s) w x (vm_stack s) st"
  "fits_all s0 as \<Longrightarrow> args_all as \<Longrightarrow> eval_all call s0 as (vm_mem s) = Some (m, xs) \<Longrightarrow> code_at (finsh_pc s) (codes s0 as) (text_segment s) \<Longrightarrow>
     length (text_segment s) = FINSH_TEXT_MAX \<Longrightarrow> finsh_sp s + depths as \<le> length (vm_stack s) \<Longrightarrow>
     length xs = size_args as \<and>
     (\<exists>st. reaches call s st (finsh_sp s + size_args as) (finsh_pc s + length (codes s0 as)) m \<and> piled (finsh_sp s) xs (vm_stack s) st)"
proof (induct e and as arbitrary: w s m x and s m xs rule: fexpr.induct fargs.induct)
  case (EBin f a b)
  obtain x1 m1 y r where e: "eval call s0 a (vm_mem s) = Some (m1, x1)" "eval call s0 b m1 = Some (m, y)"
    "bin w f x1 y = Some x"
    using EBin.prems by (auto simp: Option.bind_eq_Some_conv the_width_def)
  define p where "p = finsh_pc s + length (code s0 a)"
  define q where "q = p + length (code s0 b)"
  have c: "code_at (finsh_pc s) (code s0 a) (text_segment s)" "code_at p (code s0 b) (text_segment s)"
    "code_at q [wop (op_code (op_node f)) w] (text_segment s)"
    using EBin.prems by (auto simp: p_def q_def add.assoc the_width_def)
  have d: "finsh_sp s + depth a \<le> length (vm_stack s)" "finsh_sp s + 1 + depth b \<le> length (vm_stack s)"
    using EBin.prems(6) by simp_all
  obtain st1 where 1: "reaches call s st1 (finsh_sp s + 1) p m1" "pushed (finsh_sp s) w x1 (vm_stack s) st1"
    using EBin.hyps(1) [of w s m1 x1] EBin.prems(1,2,5) d e(1) c(1) by (auto simp: p_def)
  obtain st2 where 2: "reaches call (upd st1 (finsh_sp s + 1) p m1 s) st2 (finsh_sp s + 2) q m" "pushed (finsh_sp s + 1) w y st1 st2"
    using EBin.hyps(2) [of w "upd st1 (finsh_sp s + 1) p m1 s" m y] EBin.prems(1,2,5) d e(2) c(2) 1(2) by (auto simp: q_def pushed_def)
  show ?case using exec_bin [OF 1 2 c(3) _ e(3)] EBin.prems by (auto simp: p_def q_def add.assoc)
next
  case (ENot a)
  obtain x1 where e: "eval call s0 a (vm_mem s) = Some (m, x1)" "x = wrap w (NOT x1)"
    using ENot.prems by (auto simp: Option.bind_eq_Some_conv the_width_def)
  define p where "p = finsh_pc s + length (code s0 a)"
  have c: "code_at (finsh_pc s) (code s0 a) (text_segment s)" "code_at p [wop (op_code FINSH_NODE_SYS_BITWISE) w] (text_segment s)"
    using ENot.prems by (auto simp: p_def the_width_def)
  obtain st1 where 1: "reaches call s st1 (finsh_sp s + 1) p m" "pushed (finsh_sp s) w x1 (vm_stack s) st1"
    using ENot.hyps [of w s m x1] ENot.prems e(1) c(1) by (auto simp: p_def)
  show ?case using exec_not [OF 1 c(2)] ENot.prems by (auto simp: p_def e(2))
next
  case (EDeref q)
  obtain a where e: "eval call s0 q (vm_mem s) = Some (m, a)" "x = fetch W32 m (word_of_int a)"
    using EDeref.prems by (auto simp: Option.bind_eq_Some_conv)
  define p where "p = finsh_pc s + length (code s0 q)"
  have c: "code_at (finsh_pc s) (code s0 q) (text_segment s)" "code_at p [wop FINSH_OP_LD_VALUE_BYTE_STACK W32] (text_segment s)"
    using EDeref.prems by (auto simp: p_def)
  obtain st1 where 1: "reaches call s st1 (finsh_sp s + 1) p m" "pushed (finsh_sp s) W32 a (vm_stack s) st1"
    using EDeref.hyps [of W32 s m a] EDeref.prems e(1) c(1) by (auto simp: p_def)
  show ?case using exec_reload [OF 1(1) _ _ _ c(2)] 1(2) EDeref.prems e(2)
    by (auto simp: p_def pushed_def word_of_slot_32)
next
  case (EAssign v e)
  obtain x1 m1 where e: "eval call s0 e (vm_mem s) = Some (m1, x)" "m = store w (fvar_at s0 v) x m1"
    using EAssign.prems by (auto simp: Option.bind_eq_Some_conv fits_codes)
  define p where "p = finsh_pc s + 5"
  define q where "q = p + length (code s0 e)"
  have c: "code_at (finsh_pc s) (FINSH_OP_LD_DWORD # le32 (fvar_at s0 v)) (text_segment s)" "code_at p (code s0 e) (text_segment s)"
    "code_at q [wop FINSH_OP_ST_BYTE w] (text_segment s)" "code_at (q + 1) [wop FINSH_OP_LD_VALUE_BYTE_STACK w] (text_segment s)"
    using EAssign.prems by (auto simp: p_def q_def fits_codes algebra_simps)
  obtain st1 where 1: "reaches call s st1 (finsh_sp s + 1) p (vm_mem s)" "pushed (finsh_sp s) W32 (sint (fvar_at s0 v)) (vm_stack s) st1"
    using step_dword [OF c(1)] EAssign.prems by (auto simp: p_def)
  obtain st2 where 2: "reaches call (upd st1 (finsh_sp s + 1) p (vm_mem s) s) st2 (finsh_sp s + 2) q m1" "pushed (finsh_sp s + 1) w x st1 st2"
    using EAssign.hyps [of w "upd st1 (finsh_sp s + 1) p (vm_mem s) s" m1 x] EAssign.prems e(1) c(2) 1(2) by (auto simp: q_def pushed_def)
  note st = exec_store [OF 1 2 c(3) EAssign.prems(5)]
  have "wrap w x = x" using 2(2) by (auto simp: pushed_def)
  then show ?case
    using exec_reload [OF st(1) st(5) st(3) st(4) c(4) EAssign.prems(5)] st(2) e(2) EAssign.prems
    by (auto simp: p_def q_def fits_codes algebra_simps)
next
  case (EStore a e)
  obtain x1 m1 m2 where e: "eval call s0 a (vm_mem s) = Some (m1, x1)" "eval call s0 e m1 = Some (m2, x)"
    "m = store W32 (word_of_int x1) x m2"
    using EStore.prems by (auto simp: Option.bind_eq_Some_conv)
  define p where "p = finsh_pc s + length (code s0 a)"
  define q where "q = p + length (code s0 e)"
  have c: "code_at (finsh_pc s) (code s0 a) (text_segment s)" "code_at p (code s0 e) (text_segment s)"
    "code_at q [wop FINSH_OP_ST_BYTE W32] (text_segment s)" "code_at (q + 1) [wop FINSH_OP_LD_VALUE_BYTE_STACK W32] (text_segment s)"
    using EStore.prems by (auto simp: p_def q_def algebra_simps)
  have d: "finsh_sp s + depth a \<le> length (vm_stack s)" "finsh_sp s + 1 + depth e \<le> length (vm_stack s)"
    using EStore.prems(6) by simp_all
  obtain st1 where 1: "reaches call s st1 (finsh_sp s + 1) p m1" "pushed (finsh_sp s) W32 x1 (vm_stack s) st1"
    using EStore.hyps(1) [of W32 s m1 x1] EStore.prems(1,2,5) d e(1) c(1) by (auto simp: p_def)
  then have 1: "reaches call s st1 (finsh_sp s + 1) p m1" "pushed (finsh_sp s) W32 (sint (word_of_int x1 :: u32)) (vm_stack s) st1"
    by (auto simp: pushed_def slot_32 word_of_slot_32)
  obtain st2 where 2: "reaches call (upd st1 (finsh_sp s + 1) p m1 s) st2 (finsh_sp s + 2) q m2" "pushed (finsh_sp s + 1) W32 x st1 st2"
    using EStore.hyps(2) [of W32 "upd st1 (finsh_sp s + 1) p m1 s" m2 x] EStore.prems(1,2,5) d e(2) c(2) 1(2) by (auto simp: q_def pushed_def)
  note st = exec_store [OF 1 2 c(3) EStore.prems(5)]
  have "wrap W32 x = x" using 2(2) by (auto simp: pushed_def)
  then show ?case
    using exec_reload [OF st(1) st(5) st(3) st(4) c(4) EStore.prems(5)] st(2) e(3) EStore.prems
    by (auto simp: p_def q_def algebra_simps)
next
  case (EPost up i)
  define a where "a = fvar_at s0 (Local i)"
  define p where "p = finsh_pc s + 5"
  define q where "q = p + 5"
  define r where "r = q + length (step_code up w a)"
  have e: "x = fetch w (vm_mem s) a" "m = store w a (step up x) (vm_mem s)"
    using EPost.prems(1,3) by (auto simp: fits_codes a_def Let_def simp del: fvar_width.simps)
  have code: "code s0 (EPost up i) = (wop FINSH_OP_LD_VALUE_BYTE w # le32 a) @ (FINSH_OP_LD_DWORD # le32 a) @ step_code up w a @ [FINSH_OP_POP]"
    using EPost.prems(1) by (auto simp: fits_codes a_def simp del: fvar_width.simps)
  have c: "code_at (finsh_pc s) (wop FINSH_OP_LD_VALUE_BYTE w # le32 a) (text_segment s)"
    "code_at p (FINSH_OP_LD_DWORD # le32 a) (text_segment s)" "code_at q (step_code up w a) (text_segment s)"
    "code_at r [FINSH_OP_POP] (text_segment s)"
    using EPost.prems(4) unfolding code by (auto simp: p_def q_def r_def algebra_simps)
  have d: "finsh_sp s + 4 \<le> length (vm_stack s)" using EPost.prems(6) by simp
  obtain st1 where 1: "vm_next call s (upd st1 (finsh_sp s + 1) p (vm_mem s) s)" "pushed (finsh_sp s) w x (vm_stack s) st1"
    using step_load [OF c(1) EPost.prems(5), of call] d by (auto simp: p_def e(1))
  obtain st2 where 2: "reaches call (upd st1 (finsh_sp s + 1) p (vm_mem s) s) st2 (finsh_sp s + 2) q (vm_mem s)"
    "pushed (finsh_sp s + 1) W32 (sint a) st1 st2"
    using step_dword [of "upd st1 (finsh_sp s + 1) p (vm_mem s) s" a call] c(2) EPost.prems(5) d 1(2)
    by (auto simp: q_def pushed_def)
  note p12 = pushed_pushed [OF 1(2) 2(2)]
  have b: "vm_stack (upd st2 (finsh_sp s + 2) q (vm_mem s) s) ! (finsh_sp s + 1) = a" using p12(3) by (simp add: slot_32)
  obtain st3 where 3: "reaches call (upd st2 (finsh_sp s + 2) q (vm_mem s) s) st3 (finsh_sp s + 2) r (store w a (wrap w (step up x)) (vm_mem s))"
    "length st3 = length st2" "take (finsh_sp s + 2) st3 = take (finsh_sp s + 2) st2"
    using exec_step [OF _ _ _ _ b, of up w call] c(3) EPost.prems(5) d p12 by (auto simp: r_def e(1))
  have r: "reaches call s st3 (finsh_sp s + 2) r m"
    using reaches_trans [OF reaches_trans [OF reaches_next [OF 1(1)] 2(1)]] 3(1) by (simp add: e(2) store_wrap)
  have "vm_next call (upd st3 (finsh_sp s + 2) r m s) (upd st3 (finsh_sp s + 1) (r + 1) m s)"
    using step_pop [of "upd st3 (finsh_sp s + 2) r m s" "finsh_sp s + 1" call] c(4) EPost.prems(5) by simp
  note r' = reaches_step [OF r this]
  have "take (finsh_sp s + 2) st3 ! finsh_sp s = take (finsh_sp s + 2) st2 ! finsh_sp s"
    "take (finsh_sp s) (take (finsh_sp s + 2) st3) = take (finsh_sp s) (take (finsh_sp s + 2) st2)" using 3(3) by simp_all
  then have "pushed (finsh_sp s) w x (vm_stack s) st3" using p12 3(2) 1(2) by (simp add: pushed_def min_def)
  moreover have "finsh_pc s + length (code s0 (EPost up i)) = r + 1" unfolding code by (simp add: r_def q_def p_def)
  ultimately show ?case using r' by (simp only:) blast
next
  case (EPre up i)
  define a where "a = fvar_at s0 (Local i)"
  define p where "p = finsh_pc s + 5"
  define q where "q = p + length (step_code up w a)"
  have e: "x = wrap w (step up (fetch w (vm_mem s) a))" "m = store w a x (vm_mem s)"
    using EPre.prems(1,3) by (auto simp: fits_codes a_def Let_def simp del: fvar_width.simps)
  have code: "code s0 (EPre up i) = (FINSH_OP_LD_DWORD # le32 a) @ step_code up w a @ [wop FINSH_OP_LD_VALUE_BYTE_STACK W32]"
    using EPre.prems(1) by (auto simp: fits_codes a_def simp del: fvar_width.simps)
  have c: "code_at (finsh_pc s) (FINSH_OP_LD_DWORD # le32 a) (text_segment s)" "code_at p (step_code up w a) (text_segment s)"
    "code_at q [wop FINSH_OP_LD_VALUE_BYTE_STACK W32] (text_segment s)"
    using EPre.prems(4) unfolding code by (auto simp: p_def q_def algebra_simps)
  have d: "finsh_sp s + 3 \<le> length (vm_stack s)" using EPre.prems(6) by simp
  obtain st1 where 1: "reaches call s st1 (finsh_sp s + 1) p (vm_mem s)" "pushed (finsh_sp s) W32 (sint a) (vm_stack s) st1"
    using step_dword [OF c(1) EPre.prems(5), of call] d by (auto simp: p_def)
  have b: "vm_stack (upd st1 (finsh_sp s + 1) p (vm_mem s) s) ! finsh_sp s = a" using 1(2) by (simp add: pushed_def slot_32)
  obtain st2 where 2: "reaches call (upd st1 (finsh_sp s + 1) p (vm_mem s) s) st2 (finsh_sp s + 1) q m"
    "length st2 = length st1" "take (finsh_sp s + 1) st2 = take (finsh_sp s + 1) st1"
    using exec_step [OF _ _ _ _ b, of up w call] c(2) EPre.prems(5) d 1(2) by (auto simp: q_def e pushed_def)
  have "take (finsh_sp s + 1) st2 ! finsh_sp s = take (finsh_sp s + 1) st1 ! finsh_sp s"
    "take (finsh_sp s) (take (finsh_sp s + 1) st2) = take (finsh_sp s) (take (finsh_sp s + 1) st1)" using 2(3) by simp_all
  then have s2: "st2 ! finsh_sp s = a" "take (finsh_sp s) st2 = take (finsh_sp s) (vm_stack s)" "length st2 = length (vm_stack s)"
    using b 1(2) 2(2) by (auto simp: pushed_def min_def)
  obtain st3 where 3: "reaches call s st3 (finsh_sp s + 1) (q + 1) m" "pushed (finsh_sp s) W32 (fetch W32 m a) (vm_stack s) st3"
    using exec_reload [OF reaches_trans [OF 1(1) 2(1)] _ s2(2,3) c(3) EPre.prems(5)] s2 d by auto
  then have "st3 ! finsh_sp s = get_mem32 m a" by (simp add: pushed_def fetch_def slot_32)
  then have "slot_value w (st3 ! finsh_sp s) = x" by (simp add: slot_get_mem32 e wrap_wrap)
  then have "pushed (finsh_sp s) w x (vm_stack s) st3" using 3(2) by (simp add: pushed_def)
  moreover have "finsh_pc s + length (code s0 (EPre up i)) = q + 1" unfolding code by (simp add: q_def p_def)
  ultimately show ?case using 3(1) by (simp only:) blast
next
  case (ECall f as)
  obtain xs m1 r where e: "eval_all call s0 as (vm_mem s) = Some (m1, xs)" "call (syscall_func f) (map word_of_int xs) m1 = Some (m, r)"
    "x = sint r" using ECall.prems by (auto simp: Option.bind_eq_Some_conv)
  define p where "p = finsh_pc s + 5"
  define q where "q = p + length (codes s0 as)"
  have c: "code_at (finsh_pc s) (FINSH_OP_LD_DWORD # le32 (syscall_func f)) (text_segment s)" "code_at p (codes s0 as) (text_segment s)"
    "code_at q [FINSH_OP_SYSCALL, of_nat (size_args as)] (text_segment s)"
    using ECall.prems by (auto simp: p_def q_def algebra_simps)
  obtain st1 where 1: "reaches call s st1 (finsh_sp s + 1) p (vm_mem s)" "pushed (finsh_sp s) W32 (sint (syscall_func f)) (vm_stack s) st1"
    using step_dword [OF c(1)] ECall.prems by (auto simp: p_def)
  obtain st2 where 2: "length xs = size_args as"
    "reaches call (upd st1 (finsh_sp s + 1) p (vm_mem s) s) st2 (finsh_sp s + 1 + size_args as) q m1" "piled (finsh_sp s + 1) xs st1 st2"
    using ECall.hyps [of "upd st1 (finsh_sp s + 1) p (vm_mem s) s" m1 xs] ECall.prems e(1) c(2) 1(2) by (auto simp: q_def pushed_def)
  have "take (finsh_sp s + 1) st2 ! finsh_sp s = take (finsh_sp s + 1) st1 ! finsh_sp s"
    "take (finsh_sp s) (take (finsh_sp s + 1) st2) = take (finsh_sp s) (take (finsh_sp s + 1) st1)" using 2(3) by (simp_all add: piled_def)
  then have s2: "st2 ! finsh_sp s = syscall_func f" "take (finsh_sp s) st2 = take (finsh_sp s) (vm_stack s)" "length st2 = length (vm_stack s)"
    using 1(2) 2(3) by (auto simp: pushed_def piled_def min_def slot_32)
  obtain st3 where "reaches call s st3 (finsh_sp s + 1) (q + 2) m" "pushed (finsh_sp s) W32 (sint r) (vm_stack s) st3"
    using exec_call [OF reaches_trans [OF 1(1) 2(2)] c(3) ECall.prems(5) _ _ s2(3,1) _ s2(2) e(2)] 2 ECall.prems s2 by (auto simp: piled_def)
  then show ?case using ECall.prems e(3) by (auto simp: p_def q_def algebra_simps)
next
  case (ACons e as)
  obtain x m1 ys where e: "eval call s0 e (vm_mem s) = Some (m1, x)" "eval_all call s0 as m1 = Some (m, ys)" "xs = x # ys"
    using ACons.prems by (auto simp: Option.bind_eq_Some_conv)
  define p where "p = finsh_pc s + length (code s0 e)"
  have c: "code_at (finsh_pc s) (code s0 e) (text_segment s)" "code_at p (codes s0 as) (text_segment s)"
    using ACons.prems by (auto simp: p_def)
  have d: "finsh_sp s + depth e \<le> length (vm_stack s)" "finsh_sp s + 1 + depths as \<le> length (vm_stack s)"
    using ACons.prems(6) by simp_all
  obtain st1 where 1: "reaches call s st1 (finsh_sp s + 1) p m1" "pushed (finsh_sp s) W32 x (vm_stack s) st1"
    using ACons.hyps(1) [of W32 s m1 x] ACons.prems(1,2,5) d e(1) c(1) by (auto simp: p_def)
  obtain st2 where 2: "length ys = size_args as"
    "reaches call (upd st1 (finsh_sp s + 1) p m1 s) st2 (finsh_sp s + 1 + size_args as) (p + length (codes s0 as)) m"
    "piled (finsh_sp s + 1) ys st1 st2"
    using ACons.hyps(2) [of "upd st1 (finsh_sp s + 1) p m1 s" m ys] ACons.prems(1,2,5) d e(2) c(2) 1(2) by (auto simp: pushed_def)
  show ?case using reaches_trans [OF 1(1) 2(2)] piled_Cons [OF 1(2) 2(3)] 2(1) by (auto simp: p_def e(3) add.assoc)
next
  case (EVar v)
  then show ?case using step_load [of s w "fvar_at s0 v" call] by (auto simp: fits_codes intro: reaches_next)
next
  case (EChar c)
  then show ?case using step_const [of s W8 "ucast c" call] by (auto simp: const_slot intro: reaches_next)
next
  case ANil
  then show ?case by (auto simp: reaches_def upd_def piled_def intro!: exI [of _ "vm_stack s"])
qed (use step_dword in \<open>fastforce\<close>)+

end
