(* ===== verification/Finsh_Line.thy ===== *)
theory Finsh_Line
  imports Finsh_Exec
begin

text \<open>
  Whole lines: the compiler and the virtual machine together compute what the reference semantics says,
  and where they do not.
\<close>

section \<open>Lines\<close>

primrec line_of :: "fexpr list \<Rightarrow> finsh_node" where
  "line_of [] = Null"
| "line_of (e # es) = set_sibling (line_of es) (node_of e)"

primrec tline :: "finsh \<Rightarrow> fexpr list \<Rightarrow> finsh_node" where
  "tline s [] = Null"
| "tline s (e # es) = set_sibling (tline s es) (tnode s e)"

fun line_code :: "finsh \<Rightarrow> fexpr list \<Rightarrow> u8 list" where
  "line_code s [] = []"
| "line_code s [e] = code s e"
| "line_code s (e # es) = code s e @ [FINSH_OP_POP] @ line_code s es"

text \<open>Every statement has a width; the value of the last one is the result.\<close>

definition well_typed :: "finsh \<Rightarrow> fexpr list \<Rightarrow> bool" where
  "well_typed s es \<longleftrightarrow> (\<forall>e \<in> set es. \<exists>w. fits s e w)"

fun eval_line :: "vm_funs \<Rightarrow> finsh \<Rightarrow> fexpr list \<Rightarrow> memory \<Rightarrow> (memory \<times> int) option" where
  "eval_line call s [] m = None"
| "eval_line call s [e] m = eval call s e m"
| "eval_line call s (e # es) m = do { (m, x) \<leftarrow> eval call s e m; eval_line call s es m }"

lemma type_check_line:
  "well_typed s es \<Longrightarrow> finsh_type_check (line_of es) 0 s = Some (tline s es, s)"
  by (induct es) (auto simp: well_typed_def intro: type_check_expr(1))

lemma compile_line_set_sibling:
  "n \<noteq> Null \<Longrightarrow> compile_line (set_sibling sb n) s =
     (do { s \<leftarrow> finsh_compile (set_sibling Null n) s;
           s \<leftarrow> (if sb \<noteq> Null then finsh_code_byte FINSH_OP_POP s else Some s); compile_line sb s })"
  by (cases n) simp_all

lemma tline_Null [simp]: "tline s es = Null \<longleftrightarrow> es = []"
  by (cases es) simp_all

lemma compile_line_emit:
  "well_typed s es \<Longrightarrow> same_env s s1 \<Longrightarrow> compile_line (tline s es) s1 = emit (line_code s es) s1"
proof (induct s es arbitrary: s1 rule: line_code.induct)
  case (2 s e)
  then obtain w where "fits s e w" by (auto simp: well_typed_def)
  then show ?case using compile_expr(1) [of s e w s1 Null] 2 compile_line_set_sibling [of "tnode s e" Null s1] by simp
next
  case (3 s e e' es)
  then obtain w where "fits s e w" by (auto simp: well_typed_def)
  then have e: "finsh_compile (tnode s e) s1 = emit (code s e) s1"
    using compile_expr(1) [of s e w s1 Null] 3 by simp
  have es: "compile_line (tline s (e' # es)) s2 = emit (line_code s (e' # es)) s2" if "same_env s s2" for s2
    using 3 that by (simp add: well_typed_def)
  have "compile_line (tline s (e # e' # es)) s1 =
      (do { s2 \<leftarrow> emit (code s e) s1; s2 \<leftarrow> emit [FINSH_OP_POP] s2; compile_line (tline s (e' # es)) s2 })"
    using compile_line_set_sibling [of "tnode s e" "tline s (e' # es)" s1] by (simp add: e)
  also have "\<dots> = (do { s2 \<leftarrow> emit (code s e) s1; s2 \<leftarrow> emit [FINSH_OP_POP] s2; emit (line_code s (e' # es)) s2 })"
    by (intro emit_bind_cong [OF 3(3)] emit_bind_cong [of s] es)
  finally show ?case by (simp add: emit_append)
qed simp

section \<open>Bounds\<close>

text \<open>Each node takes at most one slot, an increment two more: the stack is never too small.\<close>

lemma node_count_set_sibling [simp]:
  "node_count (set_sibling sb (node_of e)) = node_count sb + node_count (node_of e)"
proof (cases "node_of e")
  case (Node t d i v x sb' ch)
  then have "sb' = Null" using sibling_node_of [of e] by simp
  with Node show ?thesis by simp
qed (use node_of_not_Null in auto)

lemma node_count_var [simp]: "node_count (var_node d a v sb) = Suc (node_count sb)"
  by (cases v) simp_all

lemma node_count_pos [simp]: "0 < node_count (node_of e)"
  by (cases "node_of e") (use node_of_not_Null in auto)

lemma depth_nodes:
  "depth e \<le> node_count (node_of e) + 2"
  "depths as \<le> node_count (nodes_of as) + 2"
proof (induct e and as rule: fexpr.induct fargs.induct)
  case (ACons e as)
  then show ?case using node_count_pos [of e] by (simp del: node_count_pos)
qed (auto simp: sys_node_def call_node_def)

lemma args_nodes:
  "node_count (node_of e) \<le> 17 \<Longrightarrow> args_ok e"
  "size_args as \<le> node_count (nodes_of as) \<and> (node_count (nodes_of as) \<le> 17 \<longrightarrow> args_all as)"
proof (induct e and as rule: fexpr.induct fargs.induct)
  case (ACons e as)
  then show ?case using node_count_pos [of e] by (simp del: node_count_pos)
qed (auto simp: sys_node_def call_node_def)

lemma line_nodes: "e \<in> set es \<Longrightarrow> node_count (node_of e) \<le> node_count (line_of es)"
  by (induct es) auto

section \<open>Running a line\<close>

lemma exec_noops:
  assumes "length (text_segment s) = FINSH_TEXT_MAX" "finsh_pc s \<le> FINSH_TEXT_MAX" "\<forall>i < FINSH_TEXT_MAX. finsh_pc s \<le> i \<longrightarrow> text_segment s ! i = 0"
  shows "reaches call s (vm_stack s) (finsh_sp s) FINSH_TEXT_MAX (vm_mem s)"
  using assms
proof (induct "FINSH_TEXT_MAX - finsh_pc s" arbitrary: s)
  case 0
  then have "upd (vm_stack s) (finsh_sp s) FINSH_TEXT_MAX (vm_mem s) s = s" by (simp add: upd_def)
  then show ?case by (simp add: reaches_def)
next
  case (Suc k)
  let ?s = "upd (vm_stack s) (finsh_sp s) (finsh_pc s + 1) (vm_mem s) s"
  have "vm_next call s ?s"
    by (rule vm_stepI) (use Suc in \<open>auto simp: op_table_def OP_no_op_def upd_def Suc_le_eq\<close>)
  moreover have "reaches call ?s (vm_stack s) (finsh_sp s) FINSH_TEXT_MAX (vm_mem s)"
    using Suc(1) [of ?s] Suc(2-) by simp
  ultimately show ?case by (blast intro: reaches_trans reaches_next)
qed

lemma exec_line:
  assumes "well_typed s0 es" "fits s0 (last es) w" "eval_line call s0 es (vm_mem s) = Some (m, x)"
    "code_at (finsh_pc s) (line_code s0 es) (text_segment s)" "length (text_segment s) = FINSH_TEXT_MAX"
    "finsh_sp s = 0" "\<forall>e \<in> set es. args_ok e \<and> depth e \<le> length (vm_stack s)"
  shows "\<exists>st. reaches call s st 1 (finsh_pc s + length (line_code s0 es)) m \<and> pushed 0 w x (vm_stack s) st"
  using assms
proof (induct s0 es arbitrary: s rule: line_code.induct)
  case (2 s0 e)
  then show ?case using exec_expr(1) [of s0 e w call s m x] by simp
next
  case (3 s0 e e' es)
  obtain w1 where w1: "fits s0 e w1" using 3 by (auto simp: well_typed_def)
  obtain m1 x1 where e: "eval call s0 e (vm_mem s) = Some (m1, x1)" "eval_line call s0 (e' # es) m1 = Some (m, x)"
    using 3 by (auto simp: Option.bind_eq_Some_conv)
  define p where "p = finsh_pc s + length (code s0 e)"
  have c: "code_at (finsh_pc s) (code s0 e) (text_segment s)" "code_at p [FINSH_OP_POP] (text_segment s)"
    "code_at (p + 1) (line_code s0 (e' # es)) (text_segment s)"
    using 3(5) by (auto simp: p_def dest: code_at_le)
  obtain st1 where 1: "reaches call s st1 1 p m1" "pushed 0 w1 x1 (vm_stack s) st1"
    using exec_expr(1) [OF w1 _ e(1) c(1)] 3 by (auto simp: p_def)
  have "vm_next call (upd st1 1 p m1 s) (upd st1 0 (p + 1) m1 s)"
    using step_pop [of "upd st1 1 p m1 s" 0 call] c(2) 3 by simp
  note r = reaches_step [OF 1(1) this]
  obtain st2 where 2: "reaches call (upd st1 0 (p + 1) m1 s) st2 1 (p + 1 + length (line_code s0 (e' # es))) m" "pushed 0 w x st1 st2"
    using 3(1) [of "upd st1 0 (p + 1) m1 s"] 3(2-) e(2) c(3) 1(2) by (auto simp: well_typed_def pushed_def)
  show ?case using reaches_trans [OF r 2(1)] 2(2) 1(2) by (auto simp: p_def pushed_def algebra_simps)
qed simp

text \<open>How a line of emitted code starts up: the virtual machine in front of it.\<close>

definition loaded :: "u8 list \<Rightarrow> finsh \<Rightarrow> finsh_vm" where
  "loaded bs s = (vm s)\<lparr>vm_stack := (vm_stack (vm s))[0 := 0],
     text_segment := bs @ replicate (FINSH_TEXT_MAX - length bs) 0, finsh_sp := 0, finsh_pc := 0\<rparr>"

lemma run_emitted:
  assumes "emit bs (compile_reset s) = Some s1"
  shows "finsh_vm_run call (vm s1) = vm_loop call (loaded bs s)" "length bs \<le> FINSH_TEXT_MAX"
  using assms by (auto simp: emit_eq compile_reset_def finsh_vm_run_def loaded_def split: if_splits)

lemma loaded_simps [simp]:
  "vm_stack (loaded bs s) = (vm_stack (vm s))[0 := 0]" "finsh_sp (loaded bs s) = 0" "finsh_pc (loaded bs s) = 0"
  "vm_mem (loaded bs s) = vm_mem (vm s)" "text_segment (loaded bs s) = bs @ replicate (FINSH_TEXT_MAX - length bs) 0"
  by (simp_all add: loaded_def)

lemma loaded_code: "length bs \<le> FINSH_TEXT_MAX \<Longrightarrow> code_at 0 bs (text_segment (loaded bs s)) \<and> length (text_segment (loaded bs s)) = FINSH_TEXT_MAX"
  by (simp add: code_at_def)

lemma run_to_end:
  assumes "reaches call (loaded bs s) st n (length bs) m" "length bs \<le> FINSH_TEXT_MAX"
  shows "vm_loop call (loaded bs s) = Some (upd st n FINSH_TEXT_MAX m (loaded bs s))"
proof -
  have "reaches call (upd st n (length bs) m (loaded bs s)) st n FINSH_TEXT_MAX m"
    using exec_noops [of "upd st n (length bs) m (loaded bs s)" call] assms(2) by (auto simp: nth_append)
  then have "reaches call (loaded bs s) st n FINSH_TEXT_MAX m" by (rule reaches_trans [OF assms(1)])
  then have "vm_loop call (loaded bs s) = vm_loop call (upd st n FINSH_TEXT_MAX m (loaded bs s))"
    unfolding reaches_def by (rule vm_loop_next)
  then show ?thesis by (simp add: vm_loop.simps [of call])
qed

text \<open>
  The compiled line, run by the virtual machine, has the effect on the memory and the result of the
  reference semantics.
\<close>

lemma line_runs:
  assumes "well_typed s es" "fits s (last es) w" "eval_line call s es (vm_mem (vm s)) = Some (m, x)"
    "node_count (line_of es) \<le> FINSH_NODE_MAX" "length (line_code s es) \<le> FINSH_TEXT_MAX"
    "length (vm_stack (vm s)) = FINSH_STACK_MAX"
  shows "\<exists>u p v. finsh_compiler_run (line_of es) s = Some (s\<lparr>vm := u, finsh_compile_pc := p\<rparr>)
    \<and> finsh_vm_run call u = Some v \<and> vm_mem v = m \<and> slot_value w (finsh_stack_bottom v) = x
    \<and> length (vm_stack v) = FINSH_STACK_MAX"
proof -
  let ?bs = "line_code s es" and ?v = "loaded (line_code s es) s"
  have "same_env s (compile_reset s)" by (simp add: same_env_def compile_reset_def)
  then have run: "finsh_compiler_run (line_of es) s = emit ?bs (compile_reset s)"
    using type_check_line [OF assms(1)] compile_line_emit [OF assms(1)] by (simp add: finsh_compiler_run_def FINSH_NODE_VALUE_def)
  obtain u p where s1: "emit ?bs (compile_reset s) = Some (s\<lparr>vm := u, finsh_compile_pc := p\<rparr>)"
    using assms(5) by (simp add: emit_eq compile_reset_def)
  have "args_ok e \<and> depth e \<le> length (vm_stack ?v)" if "e \<in> set es" for e
    using line_nodes [OF that] assms(4,6) depth_nodes(1) [of e] args_nodes(1) [of e]
    by (simp add: FINSH_NODE_MAX_def FINSH_STACK_MAX_def)
  then obtain st where st: "reaches call ?v st 1 (length ?bs) m" "pushed 0 w x (vm_stack ?v) st"
    using exec_line [OF assms(1,2), of call ?v m x] assms(3) loaded_code [OF assms(5)] by auto
  have "finsh_vm_run call u = Some (upd st 1 FINSH_TEXT_MAX m ?v)"
    using run_emitted(1) [OF s1, of call] run_to_end [OF st(1) assms(5)] by simp
  moreover have "slot_value w (finsh_stack_bottom (upd st 1 FINSH_TEXT_MAX m ?v)) = x"
    using st(2) by (simp add: finsh_stack_bottom_def pushed_def long_value_def)
  moreover have "length (vm_stack (upd st 1 FINSH_TEXT_MAX m ?v)) = FINSH_STACK_MAX"
    using st(2) assms(6) by (simp add: pushed_def)
  ultimately show ?thesis using run s1 by auto
qed

section \<open>Where the shell departs from C\<close>

text \<open>A sum whose left operand is a call: no operator is emitted, and the result is that of the call.\<close>

lemma call_operand_code:
  "finsh_compiler_run (node_of (EBin f (ECall g ANil) (EInt x))) s
     = emit (code s (ECall g ANil) @ code s (EInt x)) (compile_reset s)"
proof -
  have "finsh_type_check (node_of (EBin f (ECall g ANil) (EInt x))) 0 s
      = Some (sys_node (op_node f) 0 0 (set_sibling (tnode s (EInt x)) (tnode s (ECall g ANil))), s)"
    by (simp add: checks)
  moreover have "finsh_compile (set_sibling (tnode s (EInt x)) (tnode s (ECall g ANil))) s1
      = emit (code s (ECall g ANil) @ code s (EInt x)) s1" if "same_env s s1" for s1
  proof -
    have "finsh_compile (tnode s (EInt x)) s2 = emit (code s (EInt x)) s2" if "same_env s s2" for s2
      using compile_expr(1) [of s "EInt x" W32 s2 Null] that by simp
    then show ?thesis
      using compile_expr(1) [of s "ECall g ANil" W32 s1 "tnode s (EInt x)"] that
      by (auto simp: emit_append simp del: code.simps tnode.simps intro!: emit_bind_cong [of s])
  qed
  moreover have "same_env s (compile_reset s)" by (simp add: same_env_def compile_reset_def)
  ultimately show ?thesis
    by (simp add: finsh_compiler_run_def FINSH_NODE_VALUE_def sys_node_def compile_op_node compile_op_def finsh_type_defs
        del: emit.simps(2) code.simps tnode.simps node_of.simps)
qed

lemma call_operand_lost:
  assumes "call (syscall_func g) [] (vm_mem (vm s)) = Some (m, r)" "length (vm_stack (vm s)) = FINSH_STACK_MAX"
  shows "\<exists>s1 v. finsh_compiler_run (node_of (EBin f (ECall g ANil) (EInt x))) s = Some s1
    \<and> finsh_vm_run call (vm s1) = Some v \<and> finsh_stack_bottom v = r"
proof -
  let ?a = "code s (ECall g ANil)" and ?b = "code s (EInt x)"
  let ?v = "loaded (?a @ ?b) s"
  have l: "length (?a @ ?b) \<le> FINSH_TEXT_MAX" by (simp add: FINSH_TEXT_MAX_def)
  then obtain s1 where s1: "emit (?a @ ?b) (compile_reset s) = Some s1" by (simp add: emit_eq compile_reset_def)
  note v = run_emitted(1) [OF s1, of call] and c = loaded_code [OF l, of s]
  have c': "code_at 0 ?a (text_segment ?v)" "code_at (length ?a) ?b (text_segment ?v)"
    using c by (simp_all only: code_at_append add_0)
  obtain st1 where 1: "reaches call ?v st1 1 (length ?a) m" "pushed 0 W32 (sint r) (vm_stack ?v) st1"
    using exec_expr(1) [of s "ECall g ANil" W32 call ?v m "sint r"] c c' assms
    by (auto simp: FINSH_STACK_MAX_def simp del: code.simps)
  obtain st2 where 2: "reaches call (upd st1 1 (length ?a) m ?v) st2 2 (length ?a + length ?b) m"
      "pushed 1 W32 (sint x) st1 st2"
    using exec_expr(1) [of s "EInt x" W32 call "upd st1 1 (length ?a) m ?v" m "sint x"] c c' assms 1(2)
    by (auto simp: FINSH_STACK_MAX_def pushed_def numeral_2_eq_2 simp del: code.simps)
  have "vm_loop call ?v = Some (upd st2 2 FINSH_TEXT_MAX m ?v)"
    by (rule run_to_end [OF _ l]) (use reaches_trans [OF 1(1) 2(1)] in \<open>simp only: length_append\<close>)
  moreover have "st2 ! 0 = r" using pushed_pushed(1) [OF 1(2), of W32 "sint x" st2] 2(2) by (simp add: slot_32)
  ultimately show ?thesis using s1 v unfolding call_operand_code by (auto simp: finsh_stack_bottom_def long_value_def simp del: code.simps)
qed

text \<open>Casts store a number that the type check overwrites.\<close>

lemma type_check_Null:
  "finsh_type_check n a s = Some (n', s') \<Longrightarrow> n' = Null \<longleftrightarrow> n = Null"
  by (cases n) (auto simp: Option.bind_eq_Some_conv Let_def split: if_splits)

lemma type_check_data_type:
  assumes "child n \<noteq> Null"
  shows "finsh_type_check (set_data_type d n) a s = finsh_type_check n a s"
proof (cases n)
  case (Node t d' i v x sb ch)
  then show ?thesis using assms
    by (auto dest: type_check_Null split: bind_splits)
qed simp

lemma cast_ignored:
  "fits s e w \<Longrightarrow> finsh_type_check (set_data_type d (node_of e)) 0 s = finsh_type_check (node_of e) 0 s"
proof (cases e)
  case (EVar v)
  assume "fits s e w"
  with EVar show ?thesis by (cases v) (auto simp: checks type_of_id_width rt_assert_def split: if_splits)
qed ((simp add: type_check_data_type sys_node_def call_node_def del: set_data_type.simps(2) finsh_type_check.simps(2); fail)
    | simp add: checks)+

text \<open>A store through a \<^verbatim>\<open>void *\<close> variable: no address is loaded, and the store reaches below the stack.\<close>

lemma voidp_store_fails:
  assumes "i < length (global_variable s)" "var_type (global_variable s ! i) = finsh_type_voidp"
    "length (vm_stack (vm s)) = FINSH_STACK_MAX"
  shows "\<exists>s1. finsh_compiler_run (node_of (EAssign (Local i) (EInt k))) s = Some s1 \<and> finsh_vm_run call (vm s1) = None"
proof -
  let ?bs = "(FINSH_OP_LD_DWORD # le32 k) @ [FINSH_OP_ST_DWORD, FINSH_OP_LD_VALUE_DWORD_STACK]"
  let ?v = "loaded ?bs s"
  have "same_env s (compile_reset s)" by (simp add: same_env_def compile_reset_def)
  then have run: "finsh_compiler_run (node_of (EAssign (Local i) (EInt k))) s = emit ?bs (compile_reset s)"
    using assms(1,2) by (auto simp: finsh_compiler_run_def checks rt_assert_def type_of_id_def type_data_type_def same_env_def
        compile_node_def compile_assign_def compile_store_def compile_id_def compile_load_def load_op_def code_dword_emit emit_append)
  have l: "length ?bs \<le> FINSH_TEXT_MAX" by (simp add: FINSH_TEXT_MAX_def)
  then obtain s1 where s1: "emit ?bs (compile_reset s) = Some s1" by (simp add: emit_eq compile_reset_def)
  note c = loaded_code [OF l, of s]
  have c': "code_at 0 (FINSH_OP_LD_DWORD # le32 k) (text_segment ?v)" "code_at 5 [FINSH_OP_ST_DWORD, FINSH_OP_LD_VALUE_DWORD_STACK] (text_segment ?v)"
    using c by (simp_all only: code_at_append) (simp_all add: FINSH_TEXT_MAX_def)
  obtain st where st: "reaches call ?v st 1 5 (vm_mem (vm s))"
    using step_dword [of ?v k call] c c' assms(3) by (auto simp: FINSH_STACK_MAX_def)
  have "vm_step call (upd st 1 5 (vm_mem (vm s)) ?v) = None"
    using c'(2) by (simp add: vm_step_def vm_text_def FINSH_OP_ST_DWORD_def op_table_def rt_assert_def OP_st_dword_def vm_top_def)
  then have "vm_loop call (upd st 1 5 (vm_mem (vm s)) ?v) = None"
    by (simp add: vm_loop.simps [of call] FINSH_TEXT_MAX_def)
  then have "vm_loop call ?v = None" using vm_loop_next [OF st [unfolded reaches_def]] by simp
  then show ?thesis using run_emitted(1) [OF s1, of call] run s1 by auto
qed

text \<open>The text segment: what is too long for it is written past its end.\<close>

lemma text_overruns:
  assumes "well_typed s es"
  shows "finsh_compiler_run (line_of es) s = None \<longleftrightarrow> FINSH_TEXT_MAX < length (line_code s es)"
proof -
  have "same_env s (compile_reset s)" by (simp add: same_env_def compile_reset_def)
  then have "finsh_compiler_run (line_of es) s = emit (line_code s es) (compile_reset s)"
    using type_check_line [OF assms] compile_line_emit [OF assms] by (simp add: finsh_compiler_run_def FINSH_NODE_VALUE_def)
  then show ?thesis by (auto simp: emit_eq compile_reset_def)
qed

lemma increments_overrun:
  assumes "fvar_width s (Local i) = Some W32"
  shows "node_count (line_of (replicate 8 (EPost True i))) = FINSH_NODE_MAX
    \<and> finsh_compiler_run (line_of (replicate 8 (EPost True i))) s = None"
proof -
  have "well_typed s (replicate 8 (EPost True i))" using assms by (auto simp: well_typed_def)
  moreover have "FINSH_TEXT_MAX < length (line_code s (replicate 8 (EPost True i)))"
    using assms by (simp add: eval_nat_numeral step_code_def FINSH_TEXT_MAX_def fits_codes del: fvar_width.simps)
  moreover have "node_count (line_of (replicate 8 (EPost True i))) = FINSH_NODE_MAX"
    by (simp add: eval_nat_numeral sys_node_def FINSH_NODE_MAX_def)
  ultimately show ?thesis using text_overruns by blast
qed

end
