(* ===== verification/Finsh_Print.thy ===== *)
theory Finsh_Print
  imports Finsh_Parser Finsh_Lex Finsh_Line
begin

text \<open>
  Expressions written out, without parentheses, and what the parser makes of them: the tree of the
  expression, with as many nodes of the table taken as the tree has. Where an operand binds less tightly
  than its operator, the expression cannot be written this way.
\<close>

section \<open>Writing\<close>

primrec fvar_name :: "finsh \<Rightarrow> fvar \<Rightarrow> string" where
  "fvar_name s (Local i) = var_name (global_variable s ! i)"
| "fvar_name s (Sysvar v) = sysvar_name v"

primrec op_tok :: "fop \<Rightarrow> finsh_token_type" where
  "op_tok Add = finsh_token_type_add" | "op_tok Sub = finsh_token_type_sub" | "op_tok Mul = finsh_token_type_mul"
| "op_tok Div = finsh_token_type_div" | "op_tok Mod = finsh_token_type_mod" | "op_tok And = finsh_token_type_and"
| "op_tok Or = finsh_token_type_or" | "op_tok Xor = finsh_token_type_xor" | "op_tok Shl = finsh_token_type_shl"
| "op_tok Shr = finsh_token_type_shr"

definition step_tok :: "bool \<Rightarrow> finsh_token_type" where
  "step_tok up = (if up then finsh_token_type_inc else finsh_token_type_dec)"

primrec toks :: "finsh \<Rightarrow> fexpr \<Rightarrow> tok list" and arg_toks :: "finsh \<Rightarrow> fargs \<Rightarrow> tok list" where
  "toks s (EChar c) = [TChar c]"
| "toks s (EInt i) = [TInt i]"
| "toks s (ELong i) = [TLong i]"
| "toks s (EString p) = []"
| "toks s ENull = [TNull]"
| "toks s (EVar v) = [TId (fvar_name s v)]"
| "toks s (EAddr v) = [TOp finsh_token_type_and, TId (fvar_name s v)]"
| "toks s (EBin f a b) = toks s a @ TOp (op_tok f) # toks s b"
| "toks s (ENot a) = TOp finsh_token_type_bitwise # toks s a"
| "toks s (EAssign v e) = TId (fvar_name s v) # TOp finsh_token_type_assign # toks s e"
| "toks s (EStore p e) = TOp finsh_token_type_mul # toks s p @ TOp finsh_token_type_assign # toks s e"
| "toks s (EDeref p) = TOp finsh_token_type_mul # toks s p"
| "toks s (EPost up i) = [TId (fvar_name s (Local i)), TOp (step_tok up)]"
| "toks s (EPre up i) = [TOp (step_tok up), TId (fvar_name s (Local i))]"
| "toks s (ECall f as) = TId (syscall_name f) # TOp finsh_token_type_left_paren # arg_toks s as @ [TOp finsh_token_type_right_paren]"
| "arg_toks s ANil = []"
| "arg_toks s (ACons e as) = toks s e @ (case as of ANil \<Rightarrow> [] | ACons e' as' \<Rightarrow> TOp finsh_token_type_comma # arg_toks s as)"

text \<open>How loosely the outermost operator binds.\<close>

primrec op_height :: "fop \<Rightarrow> nat" where
  "op_height Mul = 1" | "op_height Div = 1" | "op_height Mod = 1" | "op_height Add = 2" | "op_height Sub = 2"
| "op_height Shl = 3" | "op_height Shr = 3" | "op_height And = 4" | "op_height Xor = 5" | "op_height Or = 6"

fun height :: "fexpr \<Rightarrow> nat" where
  "height (EBin f a b) = op_height f"
| "height (EAssign v e) = 7"
| "height (EStore p e) = 7"
| "height _ = 0"

text \<open>The names of the expression stand for its variables and calls.\<close>

definition good_name :: "string \<Rightarrow> bool" where
  "good_name x \<longleftrightarrow> is_identifier x \<and> length x \<le> FINSH_NAME_MAX"

primrec names_var :: "finsh \<Rightarrow> fvar \<Rightarrow> bool" where
  "names_var s (Local i) \<longleftrightarrow> good_name (fvar_name s (Local i)) \<and> finsh_var_lookup (fvar_name s (Local i)) s = Some i"
| "names_var s (Sysvar v) \<longleftrightarrow> good_name (sysvar_name v) \<and> finsh_var_lookup (sysvar_name v) s = None
     \<and> finsh_sysvar_lookup (sysvar_name v) s = Some (Some v)"

definition names_call :: "finsh \<Rightarrow> finsh_syscall \<Rightarrow> bool" where
  "names_call s f \<longleftrightarrow> good_name (syscall_name f) \<and> finsh_var_lookup (syscall_name f) s = None
     \<and> finsh_sysvar_lookup (syscall_name f) s = Some None \<and> finsh_syscall_lookup (syscall_name f) s = Some (Some f)"

primrec writable :: "finsh \<Rightarrow> fexpr \<Rightarrow> bool" and writable_args :: "finsh \<Rightarrow> fargs \<Rightarrow> bool" where
  "writable s (EChar c) \<longleftrightarrow> c \<noteq> 0 \<and> c \<noteq> 10 \<and> c \<noteq> 92"
| "writable s (EInt i) \<longleftrightarrow> True"
| "writable s (ELong i) \<longleftrightarrow> True"
| "writable s (EString p) \<longleftrightarrow> False"
| "writable s ENull \<longleftrightarrow> True"
| "writable s (EVar v) \<longleftrightarrow> names_var s v"
| "writable s (EAddr v) \<longleftrightarrow> names_var s v"
| "writable s (EBin f a b) \<longleftrightarrow> height a \<le> op_height f \<and> height b < op_height f \<and> writable s a \<and> writable s b"
| "writable s (ENot a) \<longleftrightarrow> height a = 0 \<and> writable s a"
| "writable s (EAssign v e) \<longleftrightarrow> names_var s v \<and> writable s e"
| "writable s (EStore p e) \<longleftrightarrow> height p = 0 \<and> writable s p \<and> writable s e"
| "writable s (EDeref p) \<longleftrightarrow> height p = 0 \<and> writable s p"
| "writable s (EPost up i) \<longleftrightarrow> names_var s (Local i)"
| "writable s (EPre up i) \<longleftrightarrow> names_var s (Local i)"
| "writable s (ECall f as) \<longleftrightarrow> names_call s f \<and> writable_args s as"
| "writable_args s ANil \<longleftrightarrow> True"
| "writable_args s (ACons e as) \<longleftrightarrow> writable s e \<and> writable_args s as"

section \<open>Levels of the parser\<close>

definition level_ops :: "nat \<Rightarrow> finsh_token_type \<Rightarrow> node_type option" where
  "level_ops d = map_of ([[(finsh_token_type_mul, FINSH_NODE_SYS_MUL), (finsh_token_type_div, FINSH_NODE_SYS_DIV),
      (finsh_token_type_mod, FINSH_NODE_SYS_MOD)],
     [(finsh_token_type_sub, FINSH_NODE_SYS_SUB), (finsh_token_type_add, FINSH_NODE_SYS_ADD)],
     [(finsh_token_type_shl, FINSH_NODE_SYS_SHL), (finsh_token_type_shr, FINSH_NODE_SYS_SHR)],
     [(finsh_token_type_and, FINSH_NODE_SYS_AND)], [(finsh_token_type_xor, FINSH_NODE_SYS_XOR)],
     [(finsh_token_type_or, FINSH_NODE_SYS_OR)]] ! d)"

primrec level_proc :: "nat \<Rightarrow> nat \<Rightarrow> finsh_node proc" where
  "level_proc n 0 = proc_cast_expr n"
| "level_proc n (Suc d) = proc_binary n (level_ops d) (level_proc n d)"

lemma level_proc_6:
  "proc_inclusive_or_expr n (proc_exclusive_or_expr n (proc_and_expr n (proc_shift_expr n
     (proc_additive_expr n (proc_multiplicative_expr n (proc_cast_expr n)))))) = level_proc n 6"
  by (simp add: eval_nat_numeral level_ops_def proc_inclusive_or_expr_def proc_exclusive_or_expr_def proc_and_expr_def
      proc_shift_expr_def proc_additive_expr_def proc_multiplicative_expr_def)

text \<open>The tokens that end an expression of level \<open>d\<close>.\<close>

definition stops :: "nat \<Rightarrow> finsh_token_type \<Rightarrow> bool" where
  "stops d k \<longleftrightarrow> (\<forall>i < min d 6. level_ops i k = None)
     \<and> (7 \<le> d \<longrightarrow> k \<noteq> finsh_token_type_assign) \<and> k \<notin> {finsh_token_type_inc, finsh_token_type_dec, finsh_token_type_left_paren}"

lemma stops_less: "stops d k \<Longrightarrow> d' \<le> d \<Longrightarrow> stops d' k"
  by (auto simp: stops_def)

lemma stops_ends [simp]:
  "d < 7 \<Longrightarrow> stops d finsh_token_type_assign" "stops d finsh_token_type_comma" "stops d finsh_token_type_right_paren" "stops d finsh_token_type_semicolon"
  by (auto simp: stops_def level_ops_def less_Suc_eq numeral_eq_Suc)

lemma op_tok_level: "level_ops (op_height f - 1) (op_tok f) = Some (op_node f)" "stops (op_height f - 1) (op_tok f)"
  "0 < op_height f" "op_height f \<le> 6"
  by (cases f; simp add: level_ops_def stops_def less_Suc_eq numeral_eq_Suc)+


section \<open>Reading back\<close>

lemma next_ahead:
  assumes "ahead t (k # ks)"
  obtains t' where "next_token t s = Some (tok_type k, t', s)" "holds k t'" "ahead t' ks" "ahead (finsh_token_replay t') (k # ks)"
  using token_ahead [OF assms, of s] by (auto simp: next_token_def behind_def)

text \<open>The state with \<open>m\<close> nodes taken.\<close>

definition taken :: "finsh \<Rightarrow> nat \<Rightarrow> finsh" where "taken s m = s\<lparr>nodes_used := m\<rparr>"

lemma lookups_taken [simp]:
  "finsh_var_lookup x (taken s m) = finsh_var_lookup x s" "finsh_sysvar_lookup x (taken s m) = finsh_sysvar_lookup x s"
  "finsh_syscall_lookup x (taken s m) = finsh_syscall_lookup x s"
  by (simp_all add: taken_def finsh_var_lookup_def finsh_sysvar_lookup_def finsh_syscall_lookup_def cong: option.case_cong)

lemma filled_taken:
  "m < FINSH_NODE_MAX \<Longrightarrow> node_filled t idt v x (taken s m) = (Node t 0 idt v x Null Null, taken s (Suc m))"
  by (simp add: node_filled_def finsh_node_allocate_def taken_def)

lemma make_sys_taken:
  "m < FINSH_NODE_MAX \<Longrightarrow> a \<noteq> Null \<Longrightarrow>
     make_sys_node t a b (taken s m) = (sys_node t 0 0 (set_sibling b a), taken s (Suc m))"
  by (simp add: make_sys_node_def finsh_node_allocate_def taken_def sys_node_def)

text \<open>
  The procedure \<open>p\<close> makes the node \<open>nd\<close> of the tokens \<open>ts\<close>, when a token that ends an expression of
  level \<open>d\<close> follows.
\<close>

definition reads :: "finsh \<Rightarrow> nat \<Rightarrow> finsh_node proc \<Rightarrow> tok list \<Rightarrow> finsh_node \<Rightarrow> bool" where
  "reads s d p ts nd \<longleftrightarrow>
     (\<forall>t m k ks. ahead t (ts @ k # ks) \<and> stops d (tok_type k) \<and> m + node_count nd \<le> FINSH_NODE_MAX \<longrightarrow>
        (\<exists>t'. p t (taken s m) = Some (nd, t', taken s (m + node_count nd)) \<and> ahead t' (k # ks)))"

lemma readsD:
  assumes "reads s d p ts nd" "ahead t (ts @ k # ks)" "stops d (tok_type k)" "m + node_count nd \<le> FINSH_NODE_MAX"
  obtains t' where "p t (taken s m) = Some (nd, t', taken s (m + node_count nd))" "ahead t' (k # ks)"
  using assms unfolding reads_def by blast

text \<open>The same for the loop of a level: it goes on with \<open>nd\<close> as its left operand.\<close>

definition loops :: "finsh \<Rightarrow> nat \<Rightarrow> nat \<Rightarrow> tok list \<Rightarrow> finsh_node \<Rightarrow> bool" where
  "loops s n d ts nd \<longleftrightarrow>
     (\<forall>t m k ks. ahead t (ts @ k # ks) \<and> stops d (tok_type k) \<and> m + node_count nd \<le> FINSH_NODE_MAX \<longrightarrow>
        (\<exists>t' j. n \<le> j + length ts \<and> ahead t' (k # ks)
          \<and> level_proc n (Suc d) t (taken s m) =
              (do { (k, t, s) \<leftarrow> next_token t' (taken s (m + node_count nd));
                    binary_loop j (level_ops d) (level_proc n d) nd k t s })))"

lemma loopsD:
  assumes "loops s n d ts nd" "ahead t (ts @ k # ks)" "stops d (tok_type k)" "m + node_count nd \<le> FINSH_NODE_MAX"
  obtains t' j where "n \<le> j + length ts" "ahead t' (k # ks)"
    "level_proc n (Suc d) t (taken s m) =
       (do { (k, t, s) \<leftarrow> next_token t' (taken s (m + node_count nd)); binary_loop j (level_ops d) (level_proc n d) nd k t s })"
  using assms unfolding loops_def by blast

lemma reads_loops:
  assumes "reads s d (level_proc n d) ts nd"
  shows "loops s n d ts nd"
  unfolding loops_def
proof (intro allI impI, elim conjE)
  fix t m k ks
  assume a: "ahead t (ts @ k # ks)" "stops d (tok_type k)" "m + node_count nd \<le> FINSH_NODE_MAX"
  obtain t' where "level_proc n d t (taken s m) = Some (nd, t', taken s (m + node_count nd))" "ahead t' (k # ks)"
    using readsD [OF assms a] .
  then show "\<exists>t' j. n \<le> j + length ts \<and> ahead t' (k # ks) \<and> level_proc n (Suc d) t (taken s m) =
      (do { (k, t, s) \<leftarrow> next_token t' (taken s (m + node_count nd)); binary_loop j (level_ops d) (level_proc n d) nd k t s })"
    by (intro exI [of _ t'] exI [of _ n]) (simp add: proc_binary_def)
qed

lemma loops_reads:
  assumes "loops s n d ts nd" "length ts < n" "d < 6"
  shows "reads s (Suc d) (level_proc n (Suc d)) ts nd"
  unfolding reads_def
proof (intro allI impI, elim conjE)
  fix t m k ks
  assume a: "ahead t (ts @ k # ks)" "stops (Suc d) (tok_type k)" "m + node_count nd \<le> FINSH_NODE_MAX"
  obtain t' j where 1: "n \<le> j + length ts" "ahead t' (k # ks)" "level_proc n (Suc d) t (taken s m) =
      (do { (k, t, s) \<leftarrow> next_token t' (taken s (m + node_count nd)); binary_loop j (level_ops d) (level_proc n d) nd k t s })"
    by (rule loopsD [OF assms(1) a(1) stops_less [OF a(2)] a(3)]) auto
  obtain t2 where "next_token t' (taken s (m + node_count nd)) = Some (tok_type k, t2, taken s (m + node_count nd))"
    "ahead (finsh_token_replay t2) (k # ks)" using next_ahead [OF 1(2)] by metis
  moreover have "level_ops d (tok_type k) = None" using a(2) assms(3) by (simp add: stops_def)
  moreover obtain j' where "j = Suc j'" using 1(1) assms(2) by (cases j) auto
  ultimately show "\<exists>t'. level_proc n (Suc d) t (taken s m) = Some (nd, t', taken s (m + node_count nd)) \<and> ahead t' (k # ks)"
    using 1(3) by simp
qed

lemma climb:
  assumes "reads s d (level_proc n d) ts nd" "length ts < n" "d \<le> d'" "d' \<le> 6"
  shows "reads s d' (level_proc n d') ts nd"
  using assms(3,4)
proof (induct d' rule: dec_induct)
  case (step d')
  then show ?case using loops_reads [OF reads_loops assms(2)] by simp
qed (use assms(1) in simp)

lemma loops_bin:
  assumes "loops s n d ta a" "reads s d (level_proc n d) tb b" "level_ops d op = Some nt" "stops d op"
    "a \<noteq> Null" "b \<noteq> Null" "length ta < n" "node_count (set_sibling b a) = node_count a + node_count b"
  shows "loops s n d (ta @ TOp op # tb) (sys_node nt 0 0 (set_sibling b a))"
  unfolding loops_def
proof (intro allI impI, elim conjE)
  let ?nd = "sys_node nt 0 0 (set_sibling b a)"
  fix t m k ks
  assume a: "ahead t ((ta @ TOp op # tb) @ k # ks)" "stops d (tok_type k)" "m + node_count ?nd \<le> FINSH_NODE_MAX"
  have m: "m + node_count a + node_count b < FINSH_NODE_MAX" using a(3) assms(8) by (simp add: sys_node_def)
  obtain t1 j where 1: "n \<le> j + length ta" "ahead t1 (TOp op # tb @ k # ks)" "level_proc n (Suc d) t (taken s m) =
      (do { (k, t, s) \<leftarrow> next_token t1 (taken s (m + node_count a)); binary_loop j (level_ops d) (level_proc n d) a k t s })"
    by (rule loopsD [OF assms(1), of t "TOp op" "tb @ k # ks" m]) (use a(1) assms(4) m in auto)
  obtain j' where j: "j = Suc j'" using 1(1) assms(7) by (cases j) auto
  obtain t2 where 2: "next_token t1 (taken s (m + node_count a)) = Some (op, t2, taken s (m + node_count a))" "ahead t2 (tb @ k # ks)"
    using next_ahead [OF 1(2)] by (metis tok_type.simps(6))
  obtain t3 where 3: "level_proc n d t2 (taken s (m + node_count a)) = Some (b, t3, taken s (m + node_count a + node_count b))" "ahead t3 (k # ks)"
    using readsD [OF assms(2) 2(2) a(2), of "m + node_count a"] m by auto
  have "level_proc n (Suc d) t (taken s m) =
      (do { (k, t, s) \<leftarrow> next_token t3 (taken s (m + node_count ?nd)); binary_loop j' (level_ops d) (level_proc n d) ?nd k t s })"
    using 1(3) 2(1) 3(1) j assms(3,5,6,8) m by (simp add: make_sys_taken sys_node_def add.assoc)
  then show "\<exists>t' j. n \<le> j + length (ta @ TOp op # tb) \<and> ahead t' (k # ks) \<and> level_proc n (Suc d) t (taken s m) =
      (do { (k, t, s) \<leftarrow> next_token t' (taken s (m + node_count ?nd)); binary_loop j (level_ops d) (level_proc n d) ?nd k t s })"
    using 1(1) 3(2) j by (intro exI [of _ t3] exI [of _ j']) simp
qed


section \<open>Operands\<close>

text \<open>What a procedure does at a token, and a token that starts no unary expression.\<close>

definition primary_tok :: "tok \<Rightarrow> bool" where
  "primary_tok k \<longleftrightarrow> (case k of TOp _ \<Rightarrow> False | _ \<Rightarrow> True)"

lemma primary_tok_type:
  "primary_tok k \<Longrightarrow> tok_type k \<noteq> finsh_token_type_left_paren \<and> tok_type k \<noteq> finsh_token_type_add
     \<and> tok_type k \<noteq> finsh_token_type_sub \<and> unary_node (tok_type k) = None"
  by (cases k) (auto simp: primary_tok_def unary_node_def)

lemma cast_unary:
  assumes "ahead t (k # ks)" "tok_type k \<noteq> finsh_token_type_left_paren"
  obtains t' where "ahead t' (k # ks)"
    "proc_cast_expr (Suc n) t s = proc_unary_expr n (proc_cast_expr n) (proc_assign_expr n) t' s"
proof -
  obtain t1 where "next_token t s = Some (tok_type k, t1, s)" "ahead (finsh_token_replay t1) (k # ks)"
    using next_ahead [OF assms(1)] by metis
  then show thesis using that [of "finsh_token_replay t1"] assms(2) by simp
qed

lemma cast_postfix:
  assumes "ahead t (k # ks)" "primary_tok k"
  obtains t' where "ahead t' (k # ks)" "proc_cast_expr (Suc n) t s = proc_postfix_expr n (proc_assign_expr n) t' s"
proof -
  obtain t1 where 1: "ahead t1 (k # ks)" "proc_cast_expr (Suc n) t s = proc_unary_expr n (proc_cast_expr n) (proc_assign_expr n) t1 s"
    using cast_unary [OF assms(1), of n s] primary_tok_type [OF assms(2)] by blast
  obtain t2 where "next_token t1 s = Some (tok_type k, t2, s)" "ahead (finsh_token_replay t2) (k # ks)"
    using next_ahead [OF 1(1)] by metis
  then show thesis using that [of "finsh_token_replay t2"] 1(2) primary_tok_type [OF assms(2)] by (simp add: proc_unary_expr_def)
qed

text \<open>An operand: the primary expression of one token, and the token behind it is still to come.\<close>

definition operand :: "finsh \<Rightarrow> tok \<Rightarrow> finsh_node \<Rightarrow> bool" where
  "operand s k nd \<longleftrightarrow> primary_tok k \<and> node_count nd = 1 \<and> nd \<noteq> Null \<and> sibling nd = Null
     \<and> (\<forall>t ks m expr. ahead t (k # ks) \<and> m < FINSH_NODE_MAX \<longrightarrow>
          (\<exists>t'. proc_primary_expr expr t (taken s m) = Some (nd, t', taken s (Suc m)) \<and> ahead t' ks))"

lemma operandI:
  assumes "primary_tok k" "nd = Node nt 0 i v x Null Null"
    "\<And>t ks m expr. ahead t (k # ks) \<Longrightarrow> m < FINSH_NODE_MAX \<Longrightarrow>
       \<exists>t'. proc_primary_expr expr t (taken s m) = Some (nd, t', taken s (Suc m)) \<and> ahead t' ks"
  shows "operand s k nd"
  using assms by (simp add: operand_def)

lemma operandD:
  assumes "operand s k nd" "ahead t (k # ks)" "m < FINSH_NODE_MAX"
  obtains t' where "proc_primary_expr expr t (taken s m) = Some (nd, t', taken s (Suc m))" "ahead t' ks"
  using assms unfolding operand_def by blast

lemma operand_value:
  assumes "primary_tok k" "nd = Node nt 0 0 v Id_none Null Null"
    "\<And>t u m expr. holds k t \<Longrightarrow> next_token u (taken s m) = Some (tok_type k, t, taken s m) \<Longrightarrow>
       proc_primary_expr expr u (taken s m) = (case node_filled nt 0 v Id_none (taken s m) of (nd, s) \<Rightarrow> Some (nd, t, s))"
  shows "operand s k nd"
proof (rule operandI [OF assms(1,2)])
  fix t ks m expr
  assume a: "ahead t (k # ks)" "m < FINSH_NODE_MAX"
  obtain t' where "next_token t (taken s m) = Some (tok_type k, t', taken s m)" "holds k t'" "ahead t' ks"
    using next_ahead [OF a(1)] by metis
  then show "\<exists>t'. proc_primary_expr expr t (taken s m) = Some (nd, t', taken s (Suc m)) \<and> ahead t' ks"
    using assms(2,3) a(2) by (simp add: filled_taken)
qed

lemma operand_values:
  "operand s (TInt i) (node_of (EInt i))" "operand s (TLong i) (node_of (ELong i))"
  "operand s (TChar c) (node_of (EChar c))" "operand s TNull (node_of ENull)"
  by (rule operand_value; simp add: primary_tok_def proc_primary_expr_def finsh_node_new_int_def finsh_node_new_long_def
      finsh_node_new_char_def finsh_node_new_ptr_def)+

lemma operand_id:
  assumes "good_name x" "\<And>m. m < FINSH_NODE_MAX \<Longrightarrow> finsh_node_new_id x (taken s m) = Some (nd, taken s (Suc m))"
    "nd = Node t 0 i v y Null Null"
  shows "operand s (TId x) nd"
proof (rule operandI [OF _ assms(3)])
  fix t ks m expr
  assume a: "ahead t (TId x # ks)" "m < FINSH_NODE_MAX"
  obtain t1 where 1: "next_token t (taken s m) = Some (finsh_token_type_identifier, t1, taken s m)" "ahead (finsh_token_replay t1) (TId x # ks)"
    using next_ahead [OF a(1)] by (metis tok_type.simps(1))
  obtain t2 where 2: "next_token (finsh_token_replay t1) (taken s m) = Some (finsh_token_type_identifier, t2, taken s m)" "holds (TId x) t2" "ahead t2 ks"
    using next_ahead [OF 1(2)] by (metis tok_type.simps(1))
  show "\<exists>t'. proc_primary_expr expr t (taken s m) = Some (nd, t', taken s (Suc m)) \<and> ahead t' ks"
    using 1 2 a(2) assms(1,2) by (auto simp: proc_primary_expr_def proc_identifier_def match_token_def check_token_def good_name_def)
qed (simp add: primary_tok_def)

lemma operand_var:
  assumes "names_var s v"
  shows "operand s (TId (fvar_name s v)) (node_of (EVar v))"
proof (cases v)
  case (Local i)
  then show ?thesis using assms
    by (intro operand_id) (auto simp: finsh_node_new_id_def filled_taken)
next
  case (Sysvar y)
  then show ?thesis using assms
    by (intro operand_id) (auto simp: finsh_node_new_id_def filled_taken)
qed

lemma operand_call:
  assumes "names_call s f"
  shows "operand s (TId (syscall_name f)) (Node FINSH_NODE_ID 0 FINSH_IDTYPE_SYSCALL 0 (Id_syscall f) Null Null)"
  using assms by (intro operand_id) (auto simp: finsh_node_new_id_def filled_taken names_call_def)

lemma operand_reads:
  assumes "operand s k nd" "0 < n"
  shows "reads s 0 (proc_cast_expr (Suc n)) [k] nd"
  unfolding reads_def
proof (intro allI impI, elim conjE)
  fix t m k' ks
  assume a: "ahead t ([k] @ k' # ks)" "stops 0 (tok_type k')" "m + node_count nd \<le> FINSH_NODE_MAX"
  obtain t1 where 1: "ahead t1 (k # k' # ks)" "proc_cast_expr (Suc n) t (taken s m) = proc_postfix_expr n (proc_assign_expr n) t1 (taken s m)"
    using cast_postfix [of t k "k' # ks" n "taken s m"] a(1) assms(1) by (auto simp: operand_def)
  obtain t2 where 2: "proc_primary_expr (proc_assign_expr n) t1 (taken s m) = Some (nd, t2, taken s (Suc m))" "ahead t2 (k' # ks)"
    using operandD [OF assms(1) 1(1), of m] a(3) assms(1) by (auto simp: operand_def)
  obtain t3 where 3: "next_token t2 (taken s (Suc m)) = Some (tok_type k', t3, taken s (Suc m))" "ahead (finsh_token_replay t3) (k' # ks)"
    using next_ahead [OF 2(2)] by metis
  obtain n' where "n = Suc n'" using assms(2) by (cases n) auto
  then show "\<exists>t'. proc_cast_expr (Suc n) t (taken s m) = Some (nd, t', taken s (m + node_count nd)) \<and> ahead t' (k' # ks)"
    using 1(2) 2(1) 3 a(2) assms(1) by (simp add: proc_postfix_expr_def stops_def operand_def)
qed

lemma unary_reads:
  assumes "reads s 0 (proc_cast_expr n) ts nd" "unary_node op = Some nt" "nd \<noteq> Null" "sibling nd = Null"
  shows "reads s 0 (proc_cast_expr (Suc n)) (TOp op # ts) (sys_node nt 0 0 nd)"
  unfolding reads_def
proof (intro allI impI, elim conjE)
  fix t m k ks
  assume a: "ahead t ((TOp op # ts) @ k # ks)" "stops 0 (tok_type k)" "m + node_count (sys_node nt 0 0 nd) \<le> FINSH_NODE_MAX"
  have op: "op \<noteq> finsh_token_type_left_paren" "op \<noteq> finsh_token_type_add" "op \<noteq> finsh_token_type_sub"
    using assms(2) by (auto simp: unary_node_def split: if_splits)
  obtain t1 where 1: "ahead t1 (TOp op # ts @ k # ks)"
    "proc_cast_expr (Suc n) t (taken s m) = proc_unary_expr n (proc_cast_expr n) (proc_assign_expr n) t1 (taken s m)"
    using cast_unary [of t "TOp op" "ts @ k # ks" n "taken s m"] a(1) op by auto
  obtain t2 where 2: "next_token t1 (taken s m) = Some (op, t2, taken s m)" "ahead t2 (ts @ k # ks)"
    using next_ahead [OF 1(1)] by (metis tok_type.simps(6))
  have m: "m + node_count nd < FINSH_NODE_MAX" using a(3) by (simp add: sys_node_def)
  obtain t3 where 3: "proc_cast_expr n t2 (taken s m) = Some (nd, t3, taken s (m + node_count nd))" "ahead t3 (k # ks)"
    using readsD [OF assms(1) 2(2) a(2), of m] m by auto
  show "\<exists>t'. proc_cast_expr (Suc n) t (taken s m) = Some (sys_node nt 0 0 nd, t', taken s (m + node_count (sys_node nt 0 0 nd))) \<and> ahead t' (k # ks)"
    using 1(2) 2(1) 3 op m assms(2-4) by (simp add: proc_unary_expr_def make_sys_taken set_sibling_id sys_node_def)
qed


lemma postfix_operand:
  assumes "operand s k nd" "ahead t (k # ks)" "m < FINSH_NODE_MAX"
  obtains t' where "ahead t' ks" "proc_cast_expr (Suc n) t (taken s m) =
    (do { (k, t, s) \<leftarrow> next_token t' (taken s (Suc m)); postfix_loop n (proc_param_list n (proc_assign_expr n)) nd k t s })"
proof -
  obtain t1 where 1: "ahead t1 (k # ks)" "proc_cast_expr (Suc n) t (taken s m) = proc_postfix_expr n (proc_assign_expr n) t1 (taken s m)"
    using cast_postfix [OF assms(2), of n "taken s m"] assms(1) by (auto simp: operand_def)
  obtain t2 where "proc_primary_expr (proc_assign_expr n) t1 (taken s m) = Some (nd, t2, taken s (Suc m))" "ahead t2 ks"
    using operandD [OF assms(1) 1(1) assms(3)] .
  then show thesis using that [of t2] 1(2) by (simp add: proc_postfix_expr_def)
qed

lemma post_reads:
  assumes "operand s k nd" "1 < n"
  shows "reads s 0 (proc_cast_expr (Suc n)) [k, TOp (step_tok up)]
    (sys_node (if up then FINSH_NODE_SYS_INC else FINSH_NODE_SYS_DEC) 0 0 nd)"
  unfolding reads_def
proof (intro allI impI, elim conjE)
  let ?nd = "sys_node (if up then FINSH_NODE_SYS_INC else FINSH_NODE_SYS_DEC) 0 0 nd"
  fix t m k' ks
  assume a: "ahead t ([k, TOp (step_tok up)] @ k' # ks)" "stops 0 (tok_type k')" "m + node_count ?nd \<le> FINSH_NODE_MAX"
  have nd: "nd \<noteq> Null" "sibling nd = Null" "node_count nd = 1" using assms(1) by (simp_all add: operand_def)
  have m: "Suc m < FINSH_NODE_MAX" using a(3) nd by (simp add: sys_node_def)
  obtain t1 where 1: "ahead t1 (TOp (step_tok up) # k' # ks)" "proc_cast_expr (Suc n) t (taken s m) =
    (do { (k, t, s) \<leftarrow> next_token t1 (taken s (Suc m)); postfix_loop n (proc_param_list n (proc_assign_expr n)) nd k t s })"
    using postfix_operand [OF assms(1), of t "TOp (step_tok up) # k' # ks" m n] a(1) m by auto
  obtain t2 where 2: "next_token t1 (taken s (Suc m)) = Some (step_tok up, t2, taken s (Suc m))" "ahead t2 (k' # ks)"
    using next_ahead [OF 1(1)] by (metis tok_type.simps(6))
  obtain t3 where 3: "next_token t2 (taken s (Suc (Suc m))) = Some (tok_type k', t3, taken s (Suc (Suc m)))" "ahead (finsh_token_replay t3) (k' # ks)"
    using next_ahead [OF 2(2)] by metis
  obtain n' where "n = Suc (Suc n')" using assms(2) by (cases n; cases "n - 1") auto
  then show "\<exists>t'. proc_cast_expr (Suc n) t (taken s m) = Some (?nd, t', taken s (m + node_count ?nd)) \<and> ahead t' (k' # ks)"
    using 1(2) 2(1) 3 a(2) m nd by (simp add: step_tok_def make_sys_taken set_sibling_id stops_def sys_node_def)
qed

section \<open>Calls\<close>

primrec arg_nodes :: "fargs \<Rightarrow> finsh_node list" where
  "arg_nodes ANil = []"
| "arg_nodes (ACons e as) = node_of e # arg_nodes as"

lemma chain_arg_nodes [simp]: "chain_of (arg_nodes as) = nodes_of as"
  by (induct as) simp_all

primrec args_read :: "finsh \<Rightarrow> finsh_node proc \<Rightarrow> fargs \<Rightarrow> bool" where
  "args_read s p ANil \<longleftrightarrow> True"
| "args_read s p (ACons e as) \<longleftrightarrow> reads s 7 p (toks s e) (node_of e) \<and> args_read s p as"

definition more_toks :: "finsh \<Rightarrow> fargs \<Rightarrow> tok list" where
  "more_toks s as = (case as of ANil \<Rightarrow> [] | ACons e as' \<Rightarrow> TOp finsh_token_type_comma # arg_toks s as)"

lemma arg_toks_ACons: "arg_toks s (ACons e as) = toks s e @ more_toks s as"
  by (cases as) (simp_all add: more_toks_def)

declare arg_toks_ACons [simp] arg_toks.simps(2) [simp del]

lemma node_count_nodes [simp]: "node_count (nodes_of (ACons e as)) = node_count (node_of e) + node_count (nodes_of as)"
  by simp

lemma more_toks_stop: "\<exists>k ks'. more_toks s as @ TOp finsh_token_type_right_paren # ks = k # ks' \<and> stops 7 (tok_type k)"
  by (cases as) (simp_all add: more_toks_def)

lemma param_loop_reads:
  assumes "args_read s p as" "size_args as < n" "ahead t (more_toks s as @ TOp finsh_token_type_right_paren # ks)"
    "m + node_count (nodes_of as) \<le> FINSH_NODE_MAX"
  shows "\<exists>t'. (do { (k, t, s) \<leftarrow> next_token t (taken s m); param_loop n p ns k t s }) =
      Some (ns @ arg_nodes as, t', taken s (m + node_count (nodes_of as))) \<and> ahead t' (TOp finsh_token_type_right_paren # ks)"
  using assms
proof (induct as arbitrary: n t m ns rule: fargs.induct [where ?P1.0 = "\<lambda>_. True"])
  case ANil
  then obtain t' where "next_token t (taken s m) = Some (finsh_token_type_right_paren, t', taken s m)"
    "ahead (finsh_token_replay t') (TOp finsh_token_type_right_paren # ks)"
    by (auto simp: more_toks_def elim: next_ahead [of t "TOp finsh_token_type_right_paren" ks "taken s m"])
  with ANil show ?case by (cases n) simp_all
next
  case (ACons e as)
  then have e: "reads s 7 p (toks s e) (node_of e)" and as: "args_read s p as" by simp_all
  obtain n' where n: "n = Suc n'" "size_args as < n'" using ACons.prems(2) by (cases n) auto
  obtain t1 where 1: "next_token t (taken s m) = Some (finsh_token_type_comma, t1, taken s m)"
    "ahead t1 (toks s e @ more_toks s as @ TOp finsh_token_type_right_paren # ks)"
    by (rule next_ahead [of t "TOp finsh_token_type_comma" "toks s e @ more_toks s as @ TOp finsh_token_type_right_paren # ks" "taken s m"])
      (use ACons.prems(3) in \<open>auto simp: more_toks_def\<close>)
  have m: "m + node_count (node_of e) + node_count (nodes_of as) \<le> FINSH_NODE_MAX" using ACons.prems(4) by simp
  obtain k ks' where k: "more_toks s as @ TOp finsh_token_type_right_paren # ks = k # ks'" "stops 7 (tok_type k)"
    using more_toks_stop by blast
  obtain t2 where 2: "p t1 (taken s m) = Some (node_of e, t2, taken s (m + node_count (node_of e)))" "ahead t2 (k # ks')"
    using readsD [OF e, of t1 k ks' m] 1(2) k m by auto
  obtain t3 where "(do { (k, t, s) \<leftarrow> next_token t2 (taken s (m + node_count (node_of e))); param_loop n' p (ns @ [node_of e]) k t s }) =
      Some ((ns @ [node_of e]) @ arg_nodes as, t3, taken s (m + node_count (node_of e) + node_count (nodes_of as)))"
    "ahead t3 (TOp finsh_token_type_right_paren # ks)"
    using ACons.hyps(2) [OF as n(2), of t2 "m + node_count (node_of e)" "ns @ [node_of e]"] 2(2) k(1) m by auto
  then show ?case using 1(1) 2(1) n(1) by (simp add: add_ac)
qed simp_all


lemma toks_hd:
  "writable s e \<Longrightarrow> \<exists>k ks. toks s e = k # ks \<and> tok_type k \<noteq> finsh_token_type_right_paren \<and> tok_type k \<noteq> finsh_token_type_semicolon
     \<and> tok_type k \<noteq> finsh_token_type_eof \<and> tok_type k \<noteq> finsh_token_type_bad \<and> \<not> is_type_token (tok_type k)"
  by (induct e rule: fexpr.induct [where ?P2.0 = "\<lambda>_. True"])
    (auto simp: step_tok_def is_type_token_def is_base_type_def)

lemma params_read:
  assumes "args_read s p (ACons e as)" "size_args as < n" "ahead t (arg_toks s (ACons e as) @ TOp finsh_token_type_right_paren # ks)"
    "m + node_count (nodes_of (ACons e as)) \<le> FINSH_NODE_MAX"
  obtains t' where "ahead t' (TOp finsh_token_type_right_paren # ks)"
    "proc_param_list n p t (taken s m) = Some (nodes_of (ACons e as), t', taken s (m + node_count (nodes_of (ACons e as))))"
proof -
  let ?rp = "TOp finsh_token_type_right_paren"
  have e: "reads s 7 p (toks s e) (node_of e)" "args_read s p as" using assms(1) by simp_all
  obtain k1 ks1 where k1: "more_toks s as @ ?rp # ks = k1 # ks1" "stops 7 (tok_type k1)" using more_toks_stop by blast
  have m: "m + node_count (node_of e) + node_count (nodes_of as) \<le> FINSH_NODE_MAX" using assms(4) by simp
  obtain t5 where 5: "p t (taken s m) = Some (node_of e, t5, taken s (m + node_count (node_of e)))" "ahead t5 (k1 # ks1)"
    using readsD [OF e(1), of t k1 ks1 m] assms(3) k1 m by auto
  obtain t6 where 6: "(do { (k, t, s) \<leftarrow> next_token t5 (taken s (m + node_count (node_of e))); param_loop n p [node_of e] k t s }) =
      Some (arg_nodes (ACons e as), t6, taken s (m + node_count (nodes_of (ACons e as))))" "ahead t6 (?rp # ks)"
    using param_loop_reads [OF e(2) assms(2), of t5 ks "m + node_count (node_of e)" "[node_of e]"] 5(2) k1(1) m
    by (auto simp: add_ac)
  have "proc_param_list n p t (taken s m) = Some (nodes_of (ACons e as), t6, taken s (m + node_count (nodes_of (ACons e as))))"
    using arg_cong [OF 6(1), of "\<lambda>r. do { (ns, t, s) \<leftarrow> r; Some (chain_of ns, t, s) }"] 5(1)
    by (simp add: proc_param_list_def case_prod_beta')
  with 6(2) show thesis by (rule that)
qed

lemma call_reads:
  assumes "operand s k nd" "args_read s (proc_assign_expr n) as" "size_args as < n" "1 < n" "writable_args s as"
  shows "reads s 0 (proc_cast_expr (Suc n)) (k # TOp finsh_token_type_left_paren # arg_toks s as @ [TOp finsh_token_type_right_paren])
    (sys_node FINSH_NODE_SYS_FUNC 0 0 (set_sibling (nodes_of as) nd))"
  unfolding reads_def
proof (intro allI impI, elim conjE)
  let ?nd = "sys_node FINSH_NODE_SYS_FUNC 0 0 (set_sibling (nodes_of as) nd)" and ?rp = "TOp finsh_token_type_right_paren"
  let ?pl = "proc_param_list n (proc_assign_expr n)" and ?m = "\<lambda>m. Suc m + node_count (nodes_of as)"
  fix t m k' ks
  assume a: "ahead t ((k # TOp finsh_token_type_left_paren # arg_toks s as @ [?rp]) @ k' # ks)" "stops 0 (tok_type k')"
    "m + node_count ?nd \<le> FINSH_NODE_MAX"
  have nd: "nd \<noteq> Null" "node_count (set_sibling (nodes_of as) nd) = Suc (node_count (nodes_of as))"
    using assms(1) by (cases nd; simp add: operand_def)+
  have m: "?m m < FINSH_NODE_MAX" using a(3) nd by (simp add: sys_node_def)
  obtain n' where n': "n = Suc (Suc n')" using assms(4) by (cases n; cases "n - 1") auto
  obtain t1 where 1: "ahead t1 (TOp finsh_token_type_left_paren # arg_toks s as @ ?rp # k' # ks)" "proc_cast_expr (Suc n) t (taken s m) =
    (do { (k, t, s) \<leftarrow> next_token t1 (taken s (Suc m)); postfix_loop n ?pl nd k t s })"
    using postfix_operand [OF assms(1), of t "TOp finsh_token_type_left_paren # arg_toks s as @ ?rp # k' # ks" m n] a(1) m by auto
  obtain t2 where 2: "next_token t1 (taken s (Suc m)) = Some (finsh_token_type_left_paren, t2, taken s (Suc m))" "ahead t2 (arg_toks s as @ ?rp # k' # ks)"
    using next_ahead [OF 1(1)] by (metis tok_type.simps(6))
  have nds: "m + node_count ?nd = Suc (?m m)" using nd by (simp add: sys_node_def)
  show "\<exists>t'. proc_cast_expr (Suc n) t (taken s m) = Some (?nd, t', taken s (m + node_count ?nd)) \<and> ahead t' (k' # ks)"
  proof (cases as)
    case ANil
    then obtain t3 where 3: "next_token t2 (taken s (Suc m)) = Some (finsh_token_type_right_paren, t3, taken s (Suc m))" "ahead t3 (k' # ks)"
      using 2(2) by (auto elim: next_ahead [of t2 ?rp "k' # ks" "taken s (Suc m)"])
    obtain t8 where "next_token t3 (taken s (Suc (Suc m))) = Some (tok_type k', t8, taken s (Suc (Suc m)))" "ahead (finsh_token_replay t8) (k' # ks)"
      using next_ahead [OF 3(2)] by metis
    then show ?thesis using ANil 1(2) 2(1) 3(1) a(2) m nds nd(1) n' by (simp add: make_sys_taken stops_def sys_node_def)
  next
    case (ACons e as')
    obtain k0 ks0 where k0: "toks s e = k0 # ks0" "tok_type k0 \<noteq> finsh_token_type_right_paren"
      using toks_hd [of s e] assms(5) ACons by auto
    obtain t3 where 3: "next_token t2 (taken s (Suc m)) = Some (tok_type k0, t3, taken s (Suc m))"
      "ahead (finsh_token_replay t3) (arg_toks s as @ ?rp # k' # ks)"
      by (rule next_ahead [of t2 k0 "ks0 @ more_toks s as' @ ?rp # k' # ks" "taken s (Suc m)"]) (use 2(2) ACons k0(1) in auto)
    obtain t6 where 6: "ahead t6 (?rp # k' # ks)" "?pl (finsh_token_replay t3) (taken s (Suc m)) = Some (nodes_of as, t6, taken s (?m m))"
      using params_read [of s "proc_assign_expr n" e as' n "finsh_token_replay t3" "k' # ks" "Suc m"] assms(2,3) 3(2) m
      unfolding ACons by auto
    obtain t7 where 7: "next_token t6 (taken s (?m m)) = Some (finsh_token_type_right_paren, t7, taken s (?m m))" "ahead t7 (k' # ks)"
      using next_ahead [OF 6(1)] by (metis tok_type.simps(6))
    obtain t8 where "next_token t7 (taken s (Suc (?m m))) = Some (tok_type k', t8, taken s (Suc (?m m)))" "ahead (finsh_token_replay t8) (k' # ks)"
      using next_ahead [OF 7(2)] by metis
    then show ?thesis using 1(2) 2(1) 3(1) 6(2) 7(1) k0(2) a(2) m nds nd(1) n'
      by (simp add: make_sys_taken stops_def sys_node_def match_token_def check_token_def)
  qed
qed


section \<open>Assignments\<close>

lemma expr_reads:
  assumes "reads s 6 (level_proc n 6) ts nd"
  shows "reads s 7 (proc_assign_expr (Suc n)) ts nd"
  unfolding reads_def
proof (intro allI impI, elim conjE)
  fix t m k ks
  assume a: "ahead t (ts @ k # ks)" "stops 7 (tok_type k)" "m + node_count nd \<le> FINSH_NODE_MAX"
  obtain t1 where 1: "level_proc n 6 t (taken s m) = Some (nd, t1, taken s (m + node_count nd))" "ahead t1 (k # ks)"
    using readsD [OF assms a(1) _ a(3)] stops_less [OF a(2), of 6] by auto
  obtain t2 where "next_token t1 (taken s (m + node_count nd)) = Some (tok_type k, t2, taken s (m + node_count nd))"
    "ahead (finsh_token_replay t2) (k # ks)" using next_ahead [OF 1(2)] by metis
  with 1(1) a(2) show "\<exists>t'. proc_assign_expr (Suc n) t (taken s m) = Some (nd, t', taken s (m + node_count nd)) \<and> ahead t' (k # ks)"
    by (simp add: level_proc_6 stops_def)
qed

lemma assign_reads:
  assumes "reads s 6 (level_proc n 6) ta l" "reads s 7 (proc_assign_expr n) tb r" "l \<noteq> Null"
    "node_count (set_sibling r l) = node_count l + node_count r"
  shows "reads s 7 (proc_assign_expr (Suc n)) (ta @ TOp finsh_token_type_assign # tb) (sys_node FINSH_NODE_SYS_ASSIGN 0 0 (set_sibling r l))"
  unfolding reads_def
proof (intro allI impI, elim conjE)
  let ?nd = "sys_node FINSH_NODE_SYS_ASSIGN 0 0 (set_sibling r l)" and ?as = finsh_token_type_assign
  fix t m k ks
  assume a: "ahead t ((ta @ TOp ?as # tb) @ k # ks)" "stops 7 (tok_type k)" "m + node_count ?nd \<le> FINSH_NODE_MAX"
  have m: "m + node_count l + node_count r < FINSH_NODE_MAX" using a(3) assms(4) by (simp add: sys_node_def)
  obtain t1 where 1: "level_proc n 6 t (taken s m) = Some (l, t1, taken s (m + node_count l))" "ahead t1 (TOp ?as # tb @ k # ks)"
    by (rule readsD [OF assms(1), of t "TOp ?as" "tb @ k # ks" m]) (use a(1) m in auto)
  obtain t2 where 2: "next_token t1 (taken s (m + node_count l)) = Some (?as, t2, taken s (m + node_count l))" "ahead t2 (tb @ k # ks)"
    using next_ahead [OF 1(2)] by (metis tok_type.simps(6))
  obtain t3 where 3: "proc_assign_expr n t2 (taken s (m + node_count l)) = Some (r, t3, taken s (m + node_count l + node_count r))" "ahead t3 (k # ks)"
    using readsD [OF assms(2) 2(2) a(2), of "m + node_count l"] m by auto
  show "\<exists>t'. proc_assign_expr (Suc n) t (taken s m) = Some (?nd, t', taken s (m + node_count ?nd)) \<and> ahead t' (k # ks)"
    using 1(1) 2(1) 3 assms(3,4) m by (simp add: level_proc_6 make_sys_taken sys_node_def add.assoc)
qed

section \<open>Every written expression\<close>

declare proc_cast_expr.simps [simp del] proc_assign_expr.simps [simp del]

text \<open>What is to be shown of an expression at its own level.\<close>

definition parsed :: "finsh \<Rightarrow> nat \<Rightarrow> fexpr \<Rightarrow> bool" where
  "parsed s n e \<longleftrightarrow>
     (if height e = 0 then reads s 0 (level_proc n 0) (toks s e) (node_of e)
      else if height e \<le> 6 then loops s n (height e - 1) (toks s e) (node_of e)
      else reads s 7 (proc_assign_expr (Suc n)) (toks s e) (node_of e))"

lemma height_le: "height e \<le> 7"
  by (cases e rule: height.cases) (auto simp: le_SucI op_tok_level(4) intro: le_trans [OF op_tok_level(4)])

lemma parsed_reads:
  assumes "parsed s n e" "length (toks s e) < n" "height e \<le> d" "d \<le> 6"
  shows "reads s d (level_proc n d) (toks s e) (node_of e)"
proof (cases "height e")
  case 0
  then show ?thesis using climb [of s 0 n] assms by (simp add: parsed_def)
next
  case (Suc h)
  then have "reads s (Suc h) (level_proc n (Suc h)) (toks s e) (node_of e)"
    using loops_reads [of s n h] assms by (simp add: parsed_def)
  then show ?thesis by (rule climb) (use assms Suc in simp_all)
qed

lemma parsed_loops:
  assumes "parsed s n e" "length (toks s e) < n" "height e \<le> Suc d" "d < 6"
  shows "loops s n d (toks s e) (node_of e)"
proof (cases "height e = Suc d")
  case True
  then show ?thesis using assms by (simp add: parsed_def)
next
  case False
  then show ?thesis using parsed_reads [OF assms(1,2), of d] assms by (intro reads_loops) simp
qed

lemma parsed_assign:
  assumes "parsed s n e" "length (toks s e) < n"
  shows "reads s 7 (proc_assign_expr (Suc n)) (toks s e) (node_of e)"
proof (cases "height e \<le> 6")
  case True
  then show ?thesis using parsed_reads [OF assms, of 6] by (intro expr_reads) simp
next
  case False
  then show ?thesis using assms by (simp add: parsed_def)
qed

lemma toks_pos: "writable s e \<Longrightarrow> 0 < length (toks s e)"
  using toks_hd [of s e] by auto

lemma size_arg_toks: "writable_args s as \<Longrightarrow> size_args as \<le> length (arg_toks s as)"
proof (induct as rule: fargs.induct [where ?P1.0 = "\<lambda>_. True"])
  case (ACons e as)
  then show ?case using toks_pos [of s e] by (cases as) (simp_all add: more_toks_def Suc_le_eq)
qed simp_all


lemma bin_parsed:
  assumes "parsed s n a" "parsed s n b" "height a \<le> op_height f" "height b < op_height f"
    "length (toks s a) < n" "length (toks s b) < n"
  shows "parsed s n (EBin f a b)"
proof -
  obtain d where d: "op_height f = Suc d" "d < 6" using op_tok_level(3,4) [of f] by (cases "op_height f") auto
  have op: "level_ops d (op_tok f) = Some (op_node f)" "stops d (op_tok f)" using op_tok_level(1,2) [of f] d by simp_all
  have "loops s n d (toks s a) (node_of a)" using assms d by (intro parsed_loops) simp_all
  moreover have "reads s d (level_proc n d) (toks s b) (node_of b)" using assms d by (intro parsed_reads) simp_all
  ultimately have "loops s n d (toks s a @ TOp (op_tok f) # toks s b) (sys_node (op_node f) 0 0 (set_sibling (node_of b) (node_of a)))"
    using op assms(5) by (intro loops_bin) simp_all
  then show ?thesis using d by (simp add: parsed_def)
qed

lemma step_tok_simps [simp]:
  "tok_type (TOp (step_tok up)) = step_tok up" "unary_node (step_tok up) = Some (if up then FINSH_NODE_SYS_PREINC else FINSH_NODE_SYS_PREDEC)"
  by (simp_all add: step_tok_def unary_node_def)

lemma unary_parsed:
  assumes "parsed s n e" "length (toks s e) < n" "height e = 0" "unary_node op = Some nt"
  shows "reads s 0 (proc_cast_expr (Suc n)) (TOp op # toks s e) (sys_node nt 0 0 (node_of e))"
  using parsed_reads [OF assms(1,2), of 0] assms(3,4) by (intro unary_reads) simp_all

lemma operand_parsed:
  assumes "operand s k nd" "1 < n"
  shows "reads s 0 (proc_cast_expr n) [k] nd"
  using operand_reads [OF assms(1), of "n - 1"] assms(2) by (simp add: Suc_diff_le)

lemma writable_parsed:
  "writable s e \<Longrightarrow> 2 * length (toks s e) \<le> n \<Longrightarrow> parsed s n e"
  "writable_args s as \<Longrightarrow> 2 * length (arg_toks s as) \<le> n \<Longrightarrow> args_read s (proc_assign_expr (Suc n)) as"
proof (induct e and as arbitrary: n and n rule: fexpr.induct fargs.induct)
  case (EAddr v)
  then obtain n' where n: "n = Suc n'" "1 < n'" by (cases n) auto
  have "reads s 0 (proc_cast_expr n') [TId (fvar_name s v)] (node_of (EVar v))"
    using EAddr operand_parsed [OF operand_var n(2)] by simp
  then show ?case using unary_reads [of s n' _ _ finsh_token_type_and FINSH_NODE_SYS_GETADDR] n
    by (cases v) (simp_all add: parsed_def unary_node_def)
next
  case (EBin f a b)
  then show ?case using toks_pos [of s a] toks_pos [of s b] by (intro bin_parsed) simp_all
next
  case (ENot a)
  then obtain n' where n: "n = Suc n'" by (cases n) auto
  with ENot show ?case using unary_parsed [of s n' a finsh_token_type_bitwise] toks_pos [of s a]
    by (simp add: parsed_def unary_node_def)
next
  case (EAssign v e)
  have l: "reads s 6 (level_proc n 6) [TId (fvar_name s v)] (node_of (EVar v))"
    by (rule climb [where d = 0]) (use EAssign operand_parsed [OF operand_var] in simp_all)
  obtain n' where n: "n = Suc n'" "2 * length (toks s e) \<le> n'" "length (toks s e) < n'"
    using EAssign(2,3) toks_pos [of s e] by (cases n) auto
  then have "reads s 7 (proc_assign_expr n) (toks s e) (node_of e)"
    using EAssign parsed_assign [of s n' e] by simp
  then show ?case using assign_reads [OF l] by (cases v) (simp_all add: parsed_def)
next
  case (EStore p e)
  obtain n' where n: "n = Suc n'" "2 * length (toks s p) \<le> n'" "length (toks s p) < n'" "2 * length (toks s e) \<le> n'" "length (toks s e) < n'"
    using EStore(3,4) toks_pos [of s p] toks_pos [of s e] by (cases n) auto
  have "reads s 0 (level_proc n 0) (TOp finsh_token_type_mul # toks s p) (sys_node FINSH_NODE_SYS_GETVALUE 0 0 (node_of p))"
    using unary_parsed [of s n' p finsh_token_type_mul] EStore n by (simp add: unary_node_def)
  then have l: "reads s 6 (level_proc n 6) (TOp finsh_token_type_mul # toks s p) (sys_node FINSH_NODE_SYS_GETVALUE 0 0 (node_of p))"
    by (rule climb [where d = 0]) (use n in simp_all)
  have "reads s 7 (proc_assign_expr n) (toks s e) (node_of e)"
    using EStore parsed_assign [of s n' e] n by simp
  then show ?case using assign_reads [OF l] by (simp add: parsed_def sys_node_def)
next
  case (EDeref a)
  then obtain n' where n: "n = Suc n'" by (cases n) auto
  with EDeref show ?case using unary_parsed [of s n' a finsh_token_type_mul] toks_pos [of s a]
    by (simp add: parsed_def unary_node_def)
next
  case (EPost up i)
  then obtain n' where n: "n = Suc n'" "1 < n'" by (cases n) auto
  then show ?case using post_reads [OF operand_var n(2), of s "Local i" up] EPost by (cases up) (simp_all add: parsed_def)
next
  case (EPre up i)
  then obtain n' where n: "n = Suc n'" "1 < n'" by (cases n) auto
  have "reads s 0 (proc_cast_expr n') [TId (fvar_name s (Local i))] (node_of (EVar (Local i)))"
    using EPre operand_parsed [OF operand_var n(2), of s "Local i"] by simp
  then show ?case using unary_reads [of s n' _ _ "step_tok up"] n by (simp add: parsed_def)
next
  case (ECall f as)
  obtain n' where n: "n = Suc (Suc n')" "2 * length (arg_toks s as) \<le> n'" "size_args as < Suc n'" "1 < Suc n'"
    using ECall(2,3) size_arg_toks [of s as] by (cases n; cases "n - 1") auto
  show ?case using call_reads [OF operand_call _ n(3,4)] ECall n by (simp add: parsed_def call_node_def sys_node_def)
next
  case (ACons e as)
  then have "length (toks s e) < n" using toks_pos [of s e] by (simp del: length_greater_0_conv)
  with ACons show ?case using parsed_assign [of s n e] by (cases as) (simp_all add: more_toks_def)
qed (use operand_values [THEN operand_parsed] operand_var [THEN operand_parsed] in \<open>auto simp: parsed_def\<close>)


section \<open>Lines\<close>

text \<open>The text of a line: its statements, each with a semicolon.\<close>

definition line_toks :: "finsh \<Rightarrow> fexpr list \<Rightarrow> tok list" where
  "line_toks s es = concat (map (\<lambda>e. toks s e @ [TOp finsh_token_type_semicolon]) es)"

definition line_text :: "finsh \<Rightarrow> fexpr list \<Rightarrow> string" where
  "line_text s es = toks_text (line_toks s es)"

lemma line_toks_simps [simp]:
  "line_toks s [] = []" "line_toks s (e # es) = toks s e @ TOp finsh_token_type_semicolon # line_toks s es"
  by (simp_all add: line_toks_def)

lemma statement_reads:
  assumes "writable s e" "2 * length (toks s e) < n" "ahead t (toks s e @ TOp finsh_token_type_semicolon # ks)"
    "m + node_count (node_of e) \<le> FINSH_NODE_MAX"
  obtains t' where "proc_expr_statement n t (taken s m) = Some (node_of e, t', taken s (m + node_count (node_of e)))" "ahead t' ks"
proof -
  let ?sc = "TOp finsh_token_type_semicolon"
  obtain n' where n: "n = Suc n'" "2 * length (toks s e) \<le> n'" "length (toks s e) < n'"
    using assms(2) toks_pos [OF assms(1)] by (cases n) (auto simp del: length_greater_0_conv)
  obtain k0 ks0 where k0: "toks s e = k0 # ks0" "tok_type k0 \<noteq> finsh_token_type_semicolon" using toks_hd [OF assms(1)] by blast
  obtain t1 where 1: "next_token t (taken s m) = Some (tok_type k0, t1, taken s m)"
    "ahead (finsh_token_replay t1) (toks s e @ ?sc # ks)"
    by (rule next_ahead [of t k0 "ks0 @ ?sc # ks" "taken s m"]) (use assms(3) k0(1) in auto)
  have r: "reads s 7 (proc_assign_expr n) (toks s e) (node_of e)"
    using parsed_assign [OF writable_parsed(1)] assms(1) n by simp
  obtain t2 where 2: "proc_assign_expr n (finsh_token_replay t1) (taken s m) = Some (node_of e, t2, taken s (m + node_count (node_of e)))"
    "ahead t2 (?sc # ks)"
    by (rule readsD [OF r 1(2) _ assms(4)]) auto
  obtain t3 where "next_token t2 (taken s (m + node_count (node_of e))) = Some (finsh_token_type_semicolon, t3, taken s (m + node_count (node_of e)))"
    "ahead t3 ks" using next_ahead [OF 2(2)] by (metis tok_type.simps(6))
  then show thesis
    using that [of t3] 1(1) 2(1) k0(2) by (simp add: proc_expr_statement_def proc_expr_def match_token_def check_token_def)
qed

lemma node_count_line [simp]: "node_count (line_of (e # es)) = node_count (node_of e) + node_count (line_of es)"
  by simp

lemma chain_nodes: "chain_of (map node_of es) = line_of es"
  by (induct es) simp_all

lemma parser_loop_reads:
  assumes "\<forall>e \<in> set es. writable s e" "2 * length (line_toks s es) < n" "ahead t (line_toks s es)"
    "m + node_count (line_of es) \<le> FINSH_NODE_MAX"
  shows "\<exists>t'. (do { (k, t, s) \<leftarrow> next_token t (taken s m); parser_loop n pre [] k t s }) =
     Some (pre @ map node_of es, t', taken s (m + node_count (line_of es)))"
  using assms
proof (induct es arbitrary: n t m pre)
  case Nil
  then obtain t' where "next_token t (taken s m) = Some (finsh_token_type_eof, t', taken s m)"
    using token_ahead_end [of t "taken s m"] by (auto simp: next_token_def)
  then show ?case using Nil by (cases n) simp_all
next
  case (Cons e es)
  let ?m = "m + node_count (node_of e)"
  have e: "writable s e" using Cons(2) by simp
  obtain n' where n: "n = Suc n'" "2 * length (toks s e) < n'" "2 * length (line_toks s es) < n'" using Cons(3) by (cases n) auto
  obtain k0 ks0 where k0: "toks s e = k0 # ks0" "tok_type k0 \<noteq> finsh_token_type_eof" "tok_type k0 \<noteq> finsh_token_type_bad"
    "\<not> is_type_token (tok_type k0)" using toks_hd [OF e] by blast
  have m: "?m \<le> FINSH_NODE_MAX" "?m + node_count (line_of es) \<le> FINSH_NODE_MAX" using Cons(5) by simp_all
  obtain t1 where 1: "next_token t (taken s m) = Some (tok_type k0, t1, taken s m)"
    "ahead (finsh_token_replay t1) (toks s e @ TOp finsh_token_type_semicolon # line_toks s es)"
    by (rule next_ahead [of t k0 "ks0 @ TOp finsh_token_type_semicolon # line_toks s es" "taken s m"]) (use Cons(4) k0(1) in auto)
  obtain t2 where 2: "proc_expr_statement n' (finsh_token_replay t1) (taken s m) = Some (node_of e, t2, taken s ?m)" "ahead t2 (line_toks s es)"
    using statement_reads [OF e n(2) 1(2) m(1)] .
  obtain t3 where "(do { (k, t, s) \<leftarrow> next_token t2 (taken s ?m); parser_loop n' (pre @ [node_of e]) [] k t s }) =
      Some ((pre @ [node_of e]) @ map node_of es, t3, taken s (?m + node_count (line_of es)))"
    using Cons(1) [of n' t2 ?m "pre @ [node_of e]"] Cons(2) n(3) 2(2) m(2) by auto
  then show ?case using 1(1) 2(1) k0 n(1) by (simp add: proc_statement_def add_ac)
qed

lemma writable_valid:
  "writable s e \<Longrightarrow> list_all valid_tok (toks s e)"
  "writable_args s as \<Longrightarrow> list_all valid_tok (arg_toks s as) \<and> list_all valid_tok (more_toks s as)"
proof (induct e and as rule: fexpr.induct fargs.induct)
  case (EBin f a b)
  then show ?case by (cases f) (simp_all add: op_text_def)
next
  case (EVar v)
  then show ?case by (cases v) (simp_all add: good_name_def)
next
  case (EAddr v)
  then show ?case by (cases v) (simp_all add: good_name_def op_text_def)
next
  case (EAssign v e)
  then show ?case by (cases v) (simp_all add: good_name_def op_text_def)
next
  case (ACons e as)
  then show ?case by (simp add: more_toks_def op_text_def)
qed (auto simp: op_text_def step_tok_def good_name_def names_call_def more_toks_def)

lemma line_valid: "\<forall>e \<in> set es. writable s e \<Longrightarrow> list_all valid_tok (line_toks s es)"
  by (induct es) (auto simp: writable_valid op_text_def)

text \<open>The parser makes of the text of a line the tree of its statements.\<close>

lemma parser_reads_line:
  assumes "\<forall>e \<in> set es. writable s e" "es \<noteq> []" "nodes_used s + node_count (line_of es) \<le> FINSH_NODE_MAX"
    "parser_root s = Null" "2 * length (line_toks s es) < n"
  shows "finsh_parser_run n (line_text s es) s =
    Some (s\<lparr>nodes_used := nodes_used s + node_count (line_of es), parser_root := line_of es\<rparr>)"
proof -
  let ?t = "finsh_token_init (line_text s es)"
  have a: "ahead ?t (line_toks s es)" using ahead_init [OF line_valid [OF assms(1)]] by (simp add: line_text_def)
  have s: "taken s (nodes_used s) = s" by (simp add: taken_def)
  obtain e es' where es: "es = e # es'" using assms(2) by (cases es) auto
  obtain k0 ks0 where k0: "toks s e = k0 # ks0" "tok_type k0 \<noteq> finsh_token_type_eof" "tok_type k0 \<noteq> finsh_token_type_bad"
    using toks_hd [of s e] assms(1) es by auto
  obtain t1 where 1: "next_token ?t s = Some (tok_type k0, t1, s)"
    by (rule next_ahead [of ?t k0 "ks0 @ TOp finsh_token_type_semicolon # line_toks s es'" s]) (use a es k0(1) in auto)
  obtain t2 where "(do { (k, t, s) \<leftarrow> next_token ?t s; parser_loop n [] [] k t s }) =
      Some (map node_of es, t2, taken s (nodes_used s + node_count (line_of es)))"
    using parser_loop_reads [OF assms(1,5) a assms(3), of "[]"] s by auto
  then show ?thesis using 1 k0 assms(4) by (simp add: finsh_parser_run_def chain_nodes taken_def)
qed

end
