(* ===== verification/Finsh_Repl.thy ===== *)
theory Finsh_Repl
  imports Finsh_Edit Finsh_Print
begin

text \<open>
  The shell from the keys to the console: what is typed is parsed, compiled and run, and the value of the
  reference semantics is printed; over a session the variables keep their values.
\<close>

section \<open>What the interpreter keeps\<close>

text \<open>The tables that give names a meaning.\<close>

definition same_tables :: "finsh \<Rightarrow> finsh \<Rightarrow> bool" where
  "same_tables f f' \<longleftrightarrow> global_variable f' = global_variable f \<and> global_variable_at f' = global_variable_at f
     \<and> sysvar_table f' = sysvar_table f \<and> global_sysvar_list f' = global_sysvar_list f
     \<and> syscall_table f' = syscall_table f \<and> global_syscall_list f' = global_syscall_list f"

lemma same_var:
  assumes "same_tables f f'"
  shows "fvar_width f' v = fvar_width f v" "fvar_at f' v = fvar_at f v" "fvar_name f' v = fvar_name f v"
  using assms by (cases v; simp add: same_tables_def var_value_at_def)+

lemma same_width: "same_tables f f' \<Longrightarrow> ewidth f' e = ewidth f e"
  by (induct e) (simp_all add: same_var del: fvar_width.simps)

lemma same_widths:
  "same_tables f f' \<Longrightarrow> var_width f' v = var_width f v" "same_tables f f' \<Longrightarrow> the_width f' e = the_width f e"
  by (simp_all add: var_width_def the_width_def same_var same_width del: fvar_width.simps)

lemma same_fits:
  "same_tables f f' \<Longrightarrow> fits f' e w = fits f e w" "same_tables f f' \<Longrightarrow> fits_all f' as = fits_all f as"
  by (induct e and as arbitrary: w rule: fexpr.induct fargs.induct) (simp_all add: same_var same_width del: fvar_width.simps)

lemma same_eval:
  "same_tables f f' \<Longrightarrow> eval call f' e m = eval call f e m"
  "same_tables f f' \<Longrightarrow> eval_all call f' as m = eval_all call f as m"
  by (induct e and as arbitrary: m and m rule: fexpr.induct fargs.induct)
    (simp_all add: same_var same_widths del: fvar_width.simps fvar_at.simps)

lemma same_toks:
  "same_tables f f' \<Longrightarrow> toks f' e = toks f e" "same_tables f f' \<Longrightarrow> arg_toks f' as = arg_toks f as"
proof (induct e and as rule: fexpr.induct fargs.induct)
  case (ACons e as)
  then have "more_toks f' as = more_toks f as" by (cases as) (simp_all only: more_toks_def fargs.case)
  then show ?case using ACons by (simp add: arg_toks_ACons)
qed (simp_all add: same_var del: fvar_name.simps)

lemma same_eval_line: "same_tables f f' \<Longrightarrow> eval_line call f' es m = eval_line call f es m"
proof (induct es arbitrary: m)
  case (Cons e es)
  then show ?case by (cases es; cases "eval call f e m") (auto simp: same_eval)
qed simp

lemma same_code:
  "same_tables f f' \<Longrightarrow> code f' e = code f e" "same_tables f f' \<Longrightarrow> codes f' as = codes f as"
  by (induct e and as rule: fexpr.induct fargs.induct)
    (simp_all add: same_var same_widths del: fvar_width.simps fvar_at.simps)

lemma same_lookups:
  assumes "same_tables f f'"
  shows "finsh_var_lookup x f' = finsh_var_lookup x f" "finsh_sysvar_lookup x f' = finsh_sysvar_lookup x f"
    "finsh_syscall_lookup x f' = finsh_syscall_lookup x f"
  using assms unfolding same_tables_def finsh_var_lookup_def finsh_sysvar_lookup_def finsh_syscall_lookup_def
  by (auto cong: option.case_cong)

lemma same_names:
  assumes "same_tables f f'"
  shows "names_var f' v = names_var f v" "names_call f' c = names_call f c"
proof -
  show "names_var f' v = names_var f v"
    using same_var(3) [OF assms] same_lookups [OF assms] by (cases v) (simp_all del: fvar_name.simps)
  show "names_call f' c = names_call f c" by (simp only: names_call_def same_lookups [OF assms])
qed

lemma same_writable:
  "same_tables f f' \<Longrightarrow> writable f' e = writable f e" "same_tables f f' \<Longrightarrow> writable_args f' as = writable_args f as"
  by (induct e and as rule: fexpr.induct fargs.induct) (simp_all add: same_names del: names_var.simps)


lemma same_line:
  assumes "same_tables f f'"
  shows "line_code f' es = line_code f es" "line_toks f' es = line_toks f es" "line_text f' es = line_text f es"
    "well_typed f' es = well_typed f es"
proof -
  show "line_code f' es = line_code f es"
  proof (induct es)
    case (Cons e es)
    then show ?case by (cases es) (simp_all add: same_code [OF assms])
  qed simp
  show "line_toks f' es = line_toks f es" "line_text f' es = line_text f es"
    by (simp_all add: line_toks_def line_text_def same_toks(1) [OF assms])
  show "well_typed f' es = well_typed f es" by (simp add: well_typed_def same_fits(1) [OF assms])
qed

section \<open>A line\<close>

text \<open>What the shell prints of a value: as a character if it can, in decimal and in hexadecimal.\<close>

definition result_text :: "u32 \<Rightarrow> string" where
  "result_text v =
     (let c = char_of (unat (ucast v :: u8)) in
      CHR 0x09 # (if 0x20 < (ucast v :: u8) \<and> (ucast v :: u8) < 0x7e then [CHR 0x27, c, CHR 0x27] @ '', '' else [])
        @ (if sint v < 0 then ''-'' else []) @ numeral_text small_digits 10 (nat \<bar>sint v\<bar>)
        @ '', 0x'' @ (let h = numeral_text small_digits 16 (unat v) in replicate (8 - length h) (CHR ''0'') @ h)
        @ [CHR 0x0A])"

lemma numeral_length: "n < b ^ k \<Longrightarrow> 2 \<le> b \<Longrightarrow> 0 < k \<Longrightarrow> length (numeral_text ds b n) \<le> k"
proof (induct k arbitrary: n)
  case (Suc k)
  show ?case
  proof (cases "n < b")
    case False
    then have "0 < k" using Suc(2) by (cases k) auto
    moreover have "n div b < b ^ k" using Suc(2) Suc(3) by (simp add: div_less_iff_less_mult mult.commute)
    ultimately show ?thesis using Suc(1) [of "n div b"] Suc(3) False by (simp add: numeral_text.simps [of ds b n])
  qed (simp add: numeral_text.simps)
qed simp

lemma numeral_set: "2 \<le> b \<Longrightarrow> b \<le> length ds \<Longrightarrow> set (numeral_text ds b n) \<subseteq> set ds"
proof (induct n rule: less_induct)
  case (less n)
  have "n mod b < length ds" using less(2,3) by (intro less_le_trans [OF mod_less_divisor]) simp_all
  then have "ds ! (n mod b) \<in> set ds" by (rule nth_mem)
  then show ?case using less by (cases "n < b") (auto simp: numeral_text.simps [of ds b n])
qed

lemma format_d:
  "format_text (''%d'' @ cs) (Arg_int v # args) = map_option ((@) (number_text v 10 (- 1) SIGN)) (format_text cs args)"
  by (cases "format_text cs args")
    (simp_all add: parse_spec_def flag_of_def parse_width_def isdigit_def parse_qualifier_def conversion_text_def
      integer_conversion_def number_arg_def)

lemma format_08x:
  "format_text (''%08x'' @ cs) (Arg_int v # args) = map_option ((@) (number_text v 16 8 ZEROPAD)) (format_text cs args)"
  by (cases "format_text cs args")
    (simp_all add: parse_spec_def flag_of_def parse_width_def isdigit_def parse_qualifier_def conversion_text_def
      integer_conversion_def number_arg_def)

lemma number_d: "number_text v 10 (- 1) SIGN = (if sint v < 0 then ''-'' else []) @ numeral_text small_digits 10 (nat \<bar>sint v\<bar>)"
  by (simp add: number_text_def field_def sign_text_def print_flags Let_def)

lemma number_08x:
  "number_text v 16 8 ZEROPAD = (let h = numeral_text small_digits 16 (unat v) in replicate (8 - length h) (CHR ''0'') @ h)"
  by (simp add: number_text_def field_def print_flags Let_def nat_diff_distrib')


lemma result_digits:
  "length (numeral_text small_digits 10 (nat \<bar>sint (v :: u32)\<bar>)) \<le> 10" "length (numeral_text small_digits 16 (unat v)) \<le> 8"
proof -
  have "nat \<bar>sint v\<bar> < 10 ^ 10" using sint_range [of v] by auto
  then show "length (numeral_text small_digits 10 (nat \<bar>sint v\<bar>)) \<le> 10" by (rule numeral_length) simp_all
  have "unat v < 2 ^ LENGTH(32)" by (rule unsigned_less)
  then have "unat v < 16 ^ 8" by simp
  then show "length (numeral_text small_digits 16 (unat v)) \<le> 8" by (rule numeral_length) simp_all
qed

lemma result_text_length: "length (result_text v) \<le> 126"
  using result_digits [of v] by (cases "sint v < 0") (auto simp: result_text_def Let_def)

lemma result_text_plain: "CHR 0x1B \<notin> set (result_text v)"
proof -
  have "char_of (unat b) \<noteq> CHR 0x1B" if "0x20 < b" for b :: u8
  proof
    assume e: "char_of (unat b) = CHR 0x1B"
    have "unat b < 2 ^ LENGTH(8)" by (rule unsigned_less)
    then have "unat b = of_char (char_of (unat b) :: char)" by (simp add: of_char_of)
    then have "unat b = 27" by (simp add: e)
    then show False using that by (simp add: word_less_nat_alt)
  qed
  then have "0x20 < (ucast v :: u8) \<Longrightarrow> CHR 0x1B \<noteq> char_of (unat (ucast v :: u8))" by metis
  moreover have "CHR 0x1B \<notin> set (numeral_text small_digits b k)" if "2 \<le> b" "b \<le> 16" for b k
    using numeral_set [of b small_digits k] that by (auto simp: small_digits_def)
  ultimately show ?thesis by (simp add: result_text_def Let_def)
qed

lemma print_result_printed:
  assumes "console_ok (con s)"
  shows "print_result v s = Some (printed (result_text v) s)"
proof -
  have c: "unat (ucast (ucast v :: u8) :: u32) = unat (ucast v :: u8)" 
    by (simp add: unsigned_ucast_eq unsigned_take_bit_eq)
  have c_format: "format_text (''%c'' @ cs) (Arg_int a # args) = map_option ((#) (char_of (unat a))) (format_text cs args)" for cs a args
    by (cases "format_text cs args")
      (simp_all add: parse_spec_def flag_of_def parse_width_def isdigit_def parse_qualifier_def conversion_text_def char_text_def)
  have tail: "format_text (''%d'' @ '', 0x'' @ ''%08x'' @ [CHR 0x0A]) [Arg_int v, Arg_int v]
      = Some (number_text v 10 (- 1) SIGN @ '', 0x'' @ number_text v 16 8 ZEROPAD @ [CHR 0x0A])"
    unfolding format_d using format_08x [of "[CHR 0x0A]" v "[]"] by simp
  show ?thesis
  proof (cases "0x20 < (ucast v :: u8) \<and> (ucast v :: u8) < 0x7e")
    case True
    have "format_text result_char_format [Arg_int (ucast (ucast v :: u8)), Arg_int v, Arg_int v] = Some (result_text v)"
      using tail c_format [of "CHR 0x27 # '', %d, 0x%08x'' @ [CHR 0x0A]" "ucast (ucast v :: u8)" "[Arg_int v, Arg_int v]"] True
      by (simp add: result_char_format_def result_text_def number_d number_08x c)
    then show ?thesis using True assms result_text_length by (simp add: print_result_def kprint_printed)
  next
    case False
    have "format_text result_format [Arg_int v, Arg_int v] = Some (result_text v)"
      using tail False by (auto simp: result_format_def result_text_def number_d number_08x)
    then show ?thesis using False assms result_text_length by (auto simp: print_result_def kprint_printed)
  qed
qed

text \<open>The interpreter between two lines.\<close>

definition ready :: "finsh \<Rightarrow> bool" where
  "ready f \<longleftrightarrow> global_errno f = FINSH_ERROR_OK \<and> parser_root f = Null \<and> nodes_used f = 0
     \<and> length (vm_stack (vm f)) = FINSH_STACK_MAX"

text \<open>A line that the shell can run: it can be written down, it fits the tables, and it has a meaning.\<close>

definition runnable :: "finsh \<Rightarrow> fexpr list \<Rightarrow> nat \<Rightarrow> bool" where
  "runnable f es n \<longleftrightarrow> (\<forall>e \<in> set es. writable f e) \<and> well_typed f es \<and> node_count (line_of es) \<le> FINSH_NODE_MAX
     \<and> length (line_code f es) \<le> FINSH_TEXT_MAX \<and> 2 * length (line_toks f es) < n"

lemma same_runnable: "same_tables f f' \<Longrightarrow> runnable f' es n = runnable f es n"
  by (simp add: runnable_def same_writable same_line)

lemma run_line_correct:
  assumes c: "console_ok (con s)" and f: "ready (interp s)" and r: "runnable (interp s) es n"
    and w: "fits (interp s) (last es) w" and ev: "eval_line call (interp s) es (vm_mem (vm (interp s))) = Some (m, x)"
  shows "\<exists>k f v. finsh_run_line call n (line_text (interp s) es) s = Some (s\<lparr>con := k, interp := f\<rparr>)
    \<and> console_ok k \<and> console_output k = console_output (con s) @ [CHR 0x0A] @ result_text v \<and> slot_value w v = x
    \<and> ready f \<and> same_tables (interp s) f \<and> vm_mem (vm f) = m"
proof -
  let ?f = "interp s"
  let ?f1 = "?f\<lparr>nodes_used := node_count (line_of es), parser_root := line_of es\<rparr>"
  have ne: "es \<noteq> []" using ev by (cases es) auto
  have "finsh_parser_run n (line_text ?f es) ?f = Some ?f1"
    using parser_reads_line [of es ?f n] r f ne by (simp add: runnable_def ready_def)
  moreover have t1: "same_tables ?f ?f1" by (simp add: same_tables_def)
  obtain u p v where run: "finsh_compiler_run (line_of es) ?f1 = Some (?f1\<lparr>vm := u, finsh_compile_pc := p\<rparr>)"
    "finsh_vm_run call u = Some v" "vm_mem v = m" "slot_value w (finsh_stack_bottom v) = x" "length (vm_stack v) = FINSH_STACK_MAX"
    using line_runs [of ?f1 es w call m x] r w ev f t1
    by (auto simp: runnable_def ready_def same_line [OF t1] same_fits [OF t1] same_eval_line [OF t1])
  let ?s = "printed [CHR 0x0A] s"
  let ?f2 = "?f1\<lparr>finsh_compile_pc := p, vm := v\<rparr>"
  have "finsh_run_line call n (line_text ?f es) s
      = Some ((printed (result_text (finsh_stack_bottom v)) (?s\<lparr>interp := ?f2\<rparr>))\<lparr>interp := finsh_flush ?f2\<rparr>)"
    using calculation run(1,2) c f
    by (simp add: finsh_run_line_def kprint_text print_result_printed ready_def finsh_errno_def FINSH_ERROR_OK_def)
  moreover have "ready (finsh_flush ?f2)" "same_tables ?f (finsh_flush ?f2)" "vm_mem (vm (finsh_flush ?f2)) = m"
    using run(3,5) by (simp_all add: ready_def same_tables_def finsh_flush_def finsh_error_init_def finsh_node_init_def finsh_parser_init_def)
  moreover have "console_ok (con (printed (result_text (finsh_stack_bottom v)) (?s\<lparr>interp := ?f2\<rparr>)))"
    using c by simp
  ultimately show ?thesis using run(4)
    by (intro exI [of _ "con (printed (result_text (finsh_stack_bottom v)) (?s\<lparr>interp := ?f2\<rparr>))"] exI [of _ "finsh_flush ?f2"]
        exI [of _ "finsh_stack_bottom v"]) (simp add: printed_def)
qed


section \<open>Enter\<close>

text \<open>The history takes a line that is not empty, and forgets the oldest one.\<close>

definition remember :: "string \<Rightarrow> string list \<Rightarrow> string list" where
  "remember x h = (if x = [] then h else drop (Suc (length h) - FINSH_HISTORY_LINES) (h @ [x]))"

lemma push_remembers:
  assumes h: "holds_past s h" and x: "good_line x" "shell_line s = padded x" "unat (line_position s) = length x"
  shows "\<exists>hs k. shell_push_history s = Some (s\<lparr>cmd_history := hs, history_count := k, current_history := k\<rparr>)
    \<and> holds_past (s\<lparr>cmd_history := hs, history_count := k, current_history := k\<rparr>) (remember x h)
    \<and> unat k = length (remember x h)"
proof (cases "x = []")
  case True
  then have "line_position s = 0" using x(3) by (simp add: unat_eq_zero)
  then show ?thesis using True h
    by (intro exI [of _ "cmd_history s"] exI [of _ "history_count s"]) (simp add: shell_push_history_def remember_def holds_past_def)
next
  case False
  then have p: "line_position s \<noteq> 0" using x(3) by auto
  have l: "history_entry s = Some (padded x)"
    using x by (simp add: history_entry_def Let_def padded_def good_line_def line_sizes)
  note d = h [unfolded holds_past_def]
  show ?thesis
  proof (cases "length h = FINSH_HISTORY_LINES")
    case True
    then have "of_nat FINSH_HISTORY_LINES \<le> history_count s" "unat (of_nat FINSH_HISTORY_LINES :: u16) = 5"
      using d by (simp_all add: word_le_nat_alt line_sizes)
    moreover have "cmd_history s = map padded h" using d True by (metis order_refl take_all)
    moreover have "h \<noteq> []" using True by (auto simp: line_sizes)
    ultimately show ?thesis using p l True d x(1) False
      by (intro exI [of _ "List.tl (cmd_history s) @ [padded x]"] exI [of _ "of_nat FINSH_HISTORY_LINES"])
        (cases h; auto simp: shell_push_history_def remember_def holds_past_def line_sizes)
  next
    case less: False
    then have lt: "length h < FINSH_HISTORY_LINES" using d by simp
    then have u: "\<not> of_nat FINSH_HISTORY_LINES \<le> history_count s" "unat (history_count s + 1) = Suc (length h)"
      using d by (auto simp: word_le_nat_alt line_sizes unat_add_lem [THEN iffD1])
    have "take (Suc (length h)) ((cmd_history s)[length h := padded x]) = map padded (h @ [x])"
      using d lt by (simp add: take_Suc_conv_app_nth take_update_cancel)
    then show ?thesis using p l u d x(1) False lt
      by (intro exI [of _ "(cmd_history s)[length h := padded x]"] exI [of _ "history_count s + 1"])
        (auto simp: shell_push_history_def remember_def holds_past_def)
  qed
qed

text \<open>The shell while the line runs, and when it has been run.\<close>

definition entered :: "finsh_shell \<Rightarrow> string list \<Rightarrow> bool" where
  "entered s h \<longleftrightarrow> stat s = WAIT_NORMAL \<and> echo_mode s \<and> holds_past s h \<and> unat (current_history s) = length h"

definition enter_done :: "finsh_shell \<Rightarrow> finsh_shell option" where
  "enter_done s =
     do { s \<leftarrow> kprint FINSH_PROMPT [] s;
          Some (s\<lparr>shell_line := replicate FINSH_CMD_SIZE NUL, line_curpos := 0, line_position := 0\<rparr>) }"

lemma semicolon_at_end:
  assumes "good_line x"
  shows "set_byte (length x) (CHR '';'') (padded x) = Some (padded (x @ '';''))" "string_at (padded (x @ '';'')) 0 = Some (x @ '';'')"
proof -
  have n: "NUL \<notin> set (x @ '';'')" using plain_NUL [of x] assms by (auto simp: good_line_def)
  have "takeWhile (\<lambda>c. c \<noteq> NUL) ((x @ '';'') @ replicate k NUL) = x @ '';''" for k
    by (subst takeWhile_append2) (use n in \<open>auto simp: takeWhile_replicate\<close>)
  then show "string_at (padded (x @ '';'')) 0 = Some (x @ '';'')"
    using assms by (simp add: string_at_def padded_def c_string_def good_line_def line_sizes)
qed (use assms in \<open>simp add: set_end good_line_def line_sizes\<close>)

lemma enter_starts:
  assumes e: "edits s a"
  shows "\<exists>s1. con s1 = con s \<and> interp s1 = interp s \<and> entered s1 (remember (edited a) (past a))
    \<and> enter_key call n s =
      do { s \<leftarrow> (if edited a \<noteq> [] then finsh_run_line call n (edited a @ '';'') s1 else kprint [CHR 0x0A] [] s1); enter_done s }"
proof -
  note d = e [unfolded edits_def]
  obtain hs k where h: "shell_push_history s = Some (s\<lparr>cmd_history := hs, history_count := k, current_history := k\<rparr>)"
    "holds_past (s\<lparr>cmd_history := hs, history_count := k, current_history := k\<rparr>) (remember (edited a) (past a))"
    "unat k = length (remember (edited a) (past a))"
    using push_remembers [of s "past a" "edited a"] d by auto
  let ?s1 = "s\<lparr>cmd_history := hs, history_count := k, current_history := k, shell_line := padded (edited a @ '';'')\<rparr>"
  have z: "line_position s \<noteq> 0 \<longleftrightarrow> edited a \<noteq> []" using d by (auto simp: word_unat_eq_iff)
  have g: "good_line (edited a)" using d by simp
  have "entered ?s1 (remember (edited a) (past a))" using h d by (simp add: entered_def holds_past_def)
  moreover have "enter_key call n s =
      do { s \<leftarrow> (if edited a \<noteq> [] then finsh_run_line call n (edited a @ '';'') ?s1 else kprint [CHR 0x0A] [] ?s1); enter_done s }"
    using h(1) d z semicolon_at_end [OF g] by (simp add: enter_key_def enter_done_def Let_def)
  ultimately show ?thesis by (intro exI [of _ ?s1]) simp
qed

text \<open>A text that ends a row without an escape sequence in it.\<close>

definition ends_row :: "string \<Rightarrow> bool" where
  "ends_row x \<longleftrightarrow> x \<noteq> [] \<and> last x = CHR 0x0A \<and> CHR 0x1B \<notin> set x"

lemma tty_no_escape: "CHR 0x1B \<notin> set x \<Longrightarrow> \<exists>r' c'. foldl tty (r, c, []) x = (r', c', [])"
  by (induct x arbitrary: r c) auto

lemma tty_ends_row:
  assumes "row_shows y c t" "ends_row x"
  shows "row_shows [] 0 (foldl tty t x)"
proof -
  obtain z where z: "x = z @ [CHR 0x0A]" using assms(2) by (metis append_butlast_last_id ends_row_def)
  obtain k where t: "t = (y @ replicate k (CHR '' ''), c, [])" using assms(1) by (auto simp: row_shows_def)
  obtain r' c' where "foldl tty t z = (r', c', [])"
    using tty_no_escape [of z "y @ replicate k (CHR '' '')" c] assms(2) t by (auto simp: ends_row_def z simp del: tty.simps)
  then show ?thesis by (auto simp: z row_shows_def intro: exI [of _ 0])
qed

abbreviation fresh_line :: "string list \<Rightarrow> editor" where
  "fresh_line h \<equiv> \<lparr>edited = [], cursor = 0, past = h, chosen = length h\<rparr>"

lemma enter_ends:
  assumes e: "entered s1 h" and k: "console_ok k" "console_output k = console_output (con s) @ x" "ends_row x"
    and shown: "row_shows y c (screen s)"
  shows "\<exists>s'. enter_done (s1\<lparr>con := k, interp := f\<rparr>) = Some s' \<and> edits s' (fresh_line h) \<and> interp s' = f
    \<and> console_output (con s') = console_output k @ FINSH_PROMPT"
proof -
  have "row_shows [] 0 (foldl tty ([], 0, []) (console_output k))"
    using tty_ends_row [OF shown k(3)] k(2) by (simp add: screen_def del: tty.simps)
  from row_shows_type [OF this, of FINSH_PROMPT]
  have "row_shows FINSH_PROMPT (length FINSH_PROMPT) (foldl tty ([], 0, []) (console_output k @ FINSH_PROMPT))"
    using plain_prompt by (simp del: tty.simps)
  moreover have "CHR 0x25 \<notin> set FINSH_PROMPT" "length FINSH_PROMPT \<le> 126" by (simp_all add: FINSH_PROMPT_def)
  ultimately show ?thesis using e k(1)
    by (simp add: enter_done_def kprint_text edits_def entered_def holds_past_def good_line_def padded_def screen_def del: tty.simps)
qed


section \<open>From the keys to the value\<close>

lemma result_text_ends: "ends_row ([CHR 0x0A] @ result_text v)"
  using result_text_plain [of v] by (simp add: ends_row_def result_text_def Let_def)

text \<open>The keys give the text of a line; Enter runs it.\<close>

lemma line_entered:
  assumes e: "edits s a" and t: "edited a @ '';'' = line_text (interp s) es" "edited a \<noteq> []"
    and f: "ready (interp s)" "runnable (interp s) es n" "fits (interp s) (last es) w"
    and ev: "eval_line call (interp s) es (vm_mem (vm (interp s))) = Some (m, x)"
  shows "\<exists>s' v. enter_key call n s = Some s' \<and> edits s' (fresh_line (remember (edited a) (past a)))
    \<and> console_output (con s') = console_output (con s) @ [CHR 0x0A] @ result_text v @ FINSH_PROMPT \<and> slot_value w v = x
    \<and> ready (interp s') \<and> same_tables (interp s) (interp s') \<and> vm_mem (vm (interp s')) = m"
proof -
  let ?h = "remember (edited a) (past a)"
  obtain s1 where s1: "con s1 = con s" "interp s1 = interp s" "entered s1 ?h"
    "enter_key call n s = do { s \<leftarrow> finsh_run_line call n (line_text (interp s1) es) s1; enter_done s }"
    using enter_starts [OF e, of call n] t by auto
  have c: "console_ok (con s1)" using e s1(1) by (simp add: edits_def)
  obtain k f' v where run: "finsh_run_line call n (line_text (interp s1) es) s1 = Some (s1\<lparr>con := k, interp := f'\<rparr>)"
    "console_ok k" "console_output k = console_output (con s) @ [CHR 0x0A] @ result_text v" "slot_value w v = x"
    "ready f'" "same_tables (interp s) f'" "vm_mem (vm f') = m"
    using run_line_correct [of s1 es n w call m x] c f ev s1(1,2) by auto
  have "row_shows (FINSH_PROMPT @ edited a) (length FINSH_PROMPT + cursor a) (screen s)" using e by (simp add: edits_def)
  from enter_ends [OF s1(3) run(2) run(3) result_text_ends this, of f']
  show ?thesis using s1(4) run by auto
qed

lemma shell_read_enter:
  "stat s = WAIT_NORMAL \<Longrightarrow> shell_read call n (CHR 0x0A # cs) s = do { s \<leftarrow> enter_key call n s; Some (cs, s) }"
  by (simp add: idle_escape next_key_def)

section \<open>Sessions\<close>

lemma character_echo:
  assumes "edits s a" "cursor a = length (edited a)" "length (edited a) < LINE_MAX" "character_key ch s = Some s'"
  shows "console_output (con s') = console_output (con s) @ [ch]"
proof -
  note d = assms(1) [unfolded edits_def]
  have "\<not> line_curpos s < line_position s" "\<not> FINSH_CMD_SIZE \<le> unat (line_position s)"
    using d assms(2,3) by (auto simp: word_less_nat_alt line_sizes)
  then show ?thesis using assms(4) d
    by (auto simp: character_key_def Let_def Option.bind_eq_Some_conv kprint_char)
qed

lemma typed:
  assumes "edits s a" "cursor a = length (edited a)" "list_all plain x" "length (edited a) + length x \<le> LINE_MAX"
  shows "\<exists>s'. shell_read call n (x @ cs) s = shell_read call n cs s' \<and> interp s' = interp s
    \<and> edits s' (a\<lparr>edited := edited a @ x, cursor := length (edited a @ x)\<rparr>)
    \<and> console_output (con s') = console_output (con s) @ x"
  using assms
proof (induct x arbitrary: s a)
  case Nil
  have "a\<lparr>edited := edited a @ [], cursor := length (edited a @ [])\<rparr> = a" using Nil(2) by (cases a) simp
  then show ?case using Nil(1) by auto
next
  case (Cons c x)
  have c: "plain c" "length (edited a) < LINE_MAX" using Cons(4,5) by auto
  let ?a = "a\<lparr>edited := edited a @ [c], cursor := length (edited a) + 1\<rparr>"
  obtain s1 where s1: "character_key c s = Some s1" "edits s1 ?a" "interp s1 = interp s"
    using character_edits [OF Cons(2) c] Cons(3) by auto
  have o1: "console_output (con s1) = console_output (con s) @ [c]" by (rule character_echo [OF Cons(2,3) c(2) s1(1)])
  have "c \<notin> {CHR 0x1B, CHR 0x09, CHR 0x7F, CHR 0x08, CHR 0x0D, CHR 0x0A}" using c(1) by (auto simp: plain_def)
  moreover have "stat s = WAIT_NORMAL" using Cons(2) by (simp add: edits_def)
  ultimately have step: "shell_read call n ((c # x) @ cs) s = shell_read call n (x @ cs) s1"
    using s1(1) by (simp add: idle_escape next_key_def)
  have a1: "cursor ?a = length (edited ?a)" "list_all plain x" "length (edited ?a) + length x \<le> LINE_MAX"
    using Cons(4,5) by auto
  show ?case using Cons(1) [OF s1(2) a1] s1(3) o1 step by auto
qed

text \<open>The lines of a session, one after the other: the last memory and the values.\<close>

primrec eval_session :: "vm_funs \<Rightarrow> finsh \<Rightarrow> fexpr list list \<Rightarrow> memory \<Rightarrow> (memory \<times> int list) option" where
  "eval_session call f [] m = Some (m, [])"
| "eval_session call f (es # ess) m =
     do { (m, x) \<leftarrow> eval_line call f es m; (m, xs) \<leftarrow> eval_session call f ess m; Some (m, x # xs) }"

lemma same_session: "same_tables f f' \<Longrightarrow> eval_session call f' ess m = eval_session call f ess m"
  by (induct ess arbitrary: m) (simp_all add: same_eval_line)

text \<open>What is typed for a line, without the last semicolon, and what the console shows of it.\<close>

definition typed_text :: "finsh \<Rightarrow> fexpr list \<Rightarrow> string" where
  "typed_text f es = butlast (line_text f es)"

definition transcript :: "finsh \<Rightarrow> fexpr list \<Rightarrow> int \<Rightarrow> string" where
  "transcript f es x = typed_text f es @ [CHR 0x0A] @ result_text (word_of_int x) @ FINSH_PROMPT"

text \<open>A line that can be typed: it is not too long, and its characters are no control characters.\<close>

definition typable :: "finsh \<Rightarrow> nat \<Rightarrow> fexpr list \<Rightarrow> bool" where
  "typable f n es \<longleftrightarrow> runnable f es n \<and> fits f (last es) W32 \<and> good_line (typed_text f es) \<and> typed_text f es \<noteq> []"

lemma toks_text_semicolon: "\<exists>y. toks_text (ks @ [TOp finsh_token_type_semicolon]) = y @ '';''"
  by (induct ks) auto

lemma line_text_semicolon: "es \<noteq> [] \<Longrightarrow> typed_text f es @ '';'' = line_text f es"
proof -
  assume "es \<noteq> []"
  then obtain es' e where "es = es' @ [e]" by (metis append_butlast_last_id)
  then have "line_toks f es = (concat (map (\<lambda>e. toks f e @ [TOp finsh_token_type_semicolon]) es') @ toks f e) @ [TOp finsh_token_type_semicolon]"
    by (simp add: line_toks_def)
  then obtain y where "line_text f es = y @ '';''" using toks_text_semicolon by (metis line_text_def)
  then show ?thesis by (simp add: typed_text_def)
qed

lemma slot_value_W32: "slot_value W32 v = sint v"
  by (simp add: slot_value_def wrap_def sint_uint)

lemma session_runs:
  assumes "edits s (fresh_line h)" "ready (interp s)" "same_tables f (interp s)"
    "\<forall>es \<in> set ess. typable f n es" "eval_session call f ess (vm_mem (vm (interp s))) = Some (m, xs)"
  shows "\<exists>s' h'. shell_loop call n (map (\<lambda>es. typed_text f es @ [CHR 0x0A]) ess) [] s = Some ([], s')
    \<and> edits s' (fresh_line h') \<and> vm_mem (vm (interp s')) = m
    \<and> console_output (con s') = console_output (con s) @ concat (map2 (transcript f) ess xs)"
  using assms
proof (induct ess arbitrary: s h xs)
  case Nil
  then show ?case by auto
next
  case (Cons es ess)
  obtain m1 x xs' where ev: "eval_line call f es (vm_mem (vm (interp s))) = Some (m1, x)"
    "eval_session call f ess m1 = Some (m, xs')" "xs = x # xs'"
    using Cons(6) by (auto simp: Option.bind_eq_Some_conv)
  note same = Cons(4)
  let ?t = "typed_text f es"
  have ty: "runnable f es n" "fits f (last es) W32" "good_line ?t" "?t \<noteq> []" using Cons(5) by (auto simp: typable_def)
  have ne: "es \<noteq> []" using ev(1) by (cases es) auto
  obtain s1 where s1: "shell_read call n (?t @ [CHR 0x0A]) s = shell_read call n [CHR 0x0A] s1" "interp s1 = interp s"
    "edits s1 ((fresh_line h)\<lparr>edited := ?t, cursor := length ?t\<rparr>)" "console_output (con s1) = console_output (con s) @ ?t"
    using typed [OF Cons(2), of ?t call n "[CHR 0x0A]"] ty(3) by (auto simp: good_line_def)
  obtain s2 v where s2: "enter_key call n s1 = Some s2" "edits s2 (fresh_line (remember ?t h))"
    "console_output (con s2) = console_output (con s1) @ [CHR 0x0A] @ result_text v @ FINSH_PROMPT" "slot_value W32 v = x"
    "ready (interp s2)" "same_tables (interp s) (interp s2)" "vm_mem (vm (interp s2)) = m1"
    using line_entered [OF s1(3), of es n W32 call m1 x] line_text_semicolon [OF ne, of f] ty ev(1) Cons(3) s1(2)
    by (auto simp: same_line [OF same] same_runnable [OF same] same_fits [OF same] same_eval_line [OF same])
  have "v = word_of_int x" using s2(4) by (auto simp: slot_value_W32)
  then have o2: "console_output (con s2) = console_output (con s) @ transcript f es x"
    using s2(3) s1(4) by (simp add: transcript_def)
  have "stat s1 = WAIT_NORMAL" using s1(3) by (simp add: edits_def)
  then have read: "shell_read call n (?t @ [CHR 0x0A]) s = Some ([], s2)"
    using s1(1) s2(1) by (simp only: shell_read_enter bind.bind_lunit)
  have "same_tables f (interp s2)" using same s2(6) by (simp add: same_tables_def)
  then obtain s3 h3 where "shell_loop call n (map (\<lambda>es. typed_text f es @ [CHR 0x0A]) ess) [] s2 = Some ([], s3)"
    "edits s3 (fresh_line h3)" "vm_mem (vm (interp s3)) = m"
    "console_output (con s3) = console_output (con s2) @ concat (map2 (transcript f) ess xs')"
    using Cons(1) [OF s2(2,5)] Cons(5) ev(2) s2(7) by fastforce
  then show ?case using read o2 ev(3) by (auto simp del: shell_read.simps)
qed

end
