(* ===== verification/Finsh_Results.thy ===== *)
theory Finsh_Results
  imports Finsh_Repl
begin

text \<open>
  What the library shows of the FinSH shell as a whole, each with a run of a small shell: a system
  variable \<^verbatim>\<open>count\<close> and a system call \<^verbatim>\<open>led\<close>.
\<close>

section \<open>A small shell\<close>

text \<open>The shell after \<^verbatim>\<open>memset\<close>, with its interpreter, console and tables.\<close>

definition new_shell :: "finsh \<Rightarrow> console \<Rightarrow> string list \<Rightarrow> string list \<Rightarrow> finsh_shell" where
  "new_shell f c ds vs =
     \<lparr>stat = WAIT_NORMAL, echo_mode = False, current_history = 0, history_count = 0,
      cmd_history = replicate FINSH_HISTORY_LINES (replicate FINSH_CMD_SIZE NUL),
      shell_line = replicate FINSH_CMD_SIZE NUL, line_position = 0, line_curpos = 0,
      interp = f, con = c, syscall_desc = ds, sysvar_desc = vs\<rparr>"

definition demo_var :: finsh_sysvar where
  "demo_var = \<lparr>sysvar_at = 0x08004000, sysvar_name = ''count'', sysvar_type = finsh_type_int, sysvar_var = 0x20000300\<rparr>"

definition demo_call :: finsh_syscall where
  "demo_call = \<lparr>syscall_name = ''led'', syscall_func = 0x08001001\<rparr>"

definition demo_finsh :: finsh where
  "demo_finsh =
     \<lparr>vm = \<lparr>vm_stack = replicate FINSH_STACK_MAX 0, finsh_sp = 0, text_segment = replicate FINSH_TEXT_MAX 0, finsh_pc = 0,
            vm_mem = (\<lambda>a. 0)\<rparr>,
      finsh_compile_pc = 0, global_errno = 0, parser_root = Null, nodes_used = 0,
      global_variable = replicate FINSH_VARIABLE_MAX empty_var, global_variable_at = 0x20000400,
      sysvar_table = [demo_var], global_sysvar_list = [], syscall_table = [demo_call], global_syscall_list = [],
      finsh_heap_at = 0x20000600, free_list = [\<lparr>block_at = 0, block_length = FINSH_HEAP_MAX - HEADER\<rparr>], allocate_list = []\<rparr>"

definition demo_console :: console where
  "demo_console = \<lparr>rt_log_buf = replicate RT_CONSOLEBUF_SIZE NUL, rt_log_buf_at = 0x20000800, console_output = []\<rparr>"

definition demo_shell :: finsh_shell where
  "demo_shell = new_shell demo_finsh demo_console [''switch the light''] [''a counter'']"

text \<open>The functions of the board: the light answers 7.\<close>

definition demo_call_fun :: vm_funs where
  "demo_call_fun a xs m = (if a = 0x08001001 then Some (m, 7) else None)"

lemmas demo_defs = demo_var_def demo_call_def demo_finsh_def demo_console_def demo_shell_def new_shell_def demo_call_fun_def

text \<open>\<^verbatim>\<open>count = 5\<close> and \<^verbatim>\<open>count + 1\<close>.\<close>

definition demo_set :: fexpr where "demo_set = EAssign (Sysvar demo_var) (EInt 5)"
definition demo_get :: fexpr where "demo_get = EBin Add (EVar (Sysvar demo_var)) (EInt 1)"

lemma shell_starts:
  assumes "console_ok c" "row_shows [] 0 (foldl tty ([], 0, []) (console_output c))" "length (vm_stack (vm f)) = FINSH_STACK_MAX"
  shows "\<exists>s. shell_start (new_shell f c ds vs) = Some s \<and> edits s (fresh_line []) \<and> ready (interp s)
    \<and> interp s = finsh_init f \<and> console_output (con s) = console_output c @ FINSH_PROMPT"
proof -
  from row_shows_type [OF assms(2), of FINSH_PROMPT]
  have "row_shows FINSH_PROMPT (length FINSH_PROMPT) (foldl tty ([], 0, []) (console_output c @ FINSH_PROMPT))"
    using plain_prompt by (simp del: tty.simps)
  moreover have "CHR 0x25 \<notin> set FINSH_PROMPT" "length FINSH_PROMPT \<le> 126" by (simp_all add: FINSH_PROMPT_def)
  ultimately show ?thesis using assms
    by (simp add: shell_start_def new_shell_def kprint_text edits_def holds_past_def good_line_def padded_def screen_def ready_def
        finsh_init_def finsh_heap_init_def finsh_error_init_def finsh_var_init_def finsh_node_init_def finsh_parser_init_def set_vm_mem_def
        del: tty.simps)
qed

lemma demo_keys: "map_of finsh_name_table ''count'' = None" "\<not> is_separator CHR ''c''" "\<not> is_separator CHR ''o''"
  "\<not> is_separator CHR ''u''" "\<not> is_separator CHR ''n''" "\<not> is_separator CHR ''t''" "\<not> is_digit CHR ''c''"
  by (simp_all add: finsh_name_table_def is_separator_def is_digit_def code_of_def)

lemma demo_named: "names_var demo_finsh (Sysvar demo_var)"
  by (simp add: good_name_def is_identifier_def is_name_def demo_keys FINSH_STRING_MAX_def FINSH_NAME_MAX_def
      finsh_var_lookup_def finsh_sysvar_lookup_def demo_defs FINSH_VARIABLE_MAX_def
      eval_nat_numeral same_name_def empty_var_def)

lemma demo_writable: "writable demo_finsh demo_set" "writable demo_finsh demo_get"
  using demo_named by (simp_all add: demo_set_def demo_get_def del: names_var.simps)

lemma digit_chars: "char_of (53 :: nat) = CHR ''5''" "char_of (49 :: nat) = CHR ''1''" "char_of (54 :: nat) = CHR ''6''"
  by (simp_all add: char_of_def bit_0)

lemma demo_text: "typed_text demo_finsh [demo_set] = ''count = 5 ''" "typed_text demo_finsh [demo_get] = ''count + 1 ''"
  by (simp_all add: typed_text_def line_text_def demo_set_def demo_get_def op_text_def digits.simps demo_var_def digit_chars)

lemma demo_typable: "typable demo_finsh 100 [demo_set]" "typable demo_finsh 100 [demo_get]"
proof -
  have w: "fvar_width demo_finsh (Sysvar demo_var) = Some W32" by (simp add: demo_var_def type_width_def)
  have n: "node_count (line_of [demo_set]) \<le> FINSH_NODE_MAX" "node_count (line_of [demo_get]) \<le> FINSH_NODE_MAX"
    by (simp_all add: demo_set_def demo_get_def FINSH_NODE_MAX_def sys_node_def)
  have c: "length (line_code demo_finsh [demo_set]) \<le> FINSH_TEXT_MAX" "length (line_code demo_finsh [demo_get]) \<le> FINSH_TEXT_MAX"
    by (simp_all add: demo_set_def demo_get_def FINSH_TEXT_MAX_def)
  have g: "good_line (typed_text demo_finsh [demo_set])" "good_line (typed_text demo_finsh [demo_get])"
    "typed_text demo_finsh [demo_set] \<noteq> []" "typed_text demo_finsh [demo_get] \<noteq> []"
    by (simp_all add: demo_text good_line_def plain_def line_sizes)
  have t: "fits demo_finsh demo_set W32" "fits demo_finsh demo_get W32"
    using w by (simp_all add: demo_set_def demo_get_def del: fvar_width.simps)
  have l: "length (line_toks demo_finsh [demo_set]) < 50" "length (line_toks demo_finsh [demo_get]) < 50"
    by (simp_all add: demo_set_def demo_get_def)
  show "typable demo_finsh 100 [demo_set]" "typable demo_finsh 100 [demo_get]"
    using n c g t l demo_writable by (auto simp: typable_def runnable_def well_typed_def simp del: line_of.simps line_code.simps line_toks_simps)
qed


section \<open>The shell as a whole\<close>

lemma same_init: "same_tables demo_finsh (finsh_init demo_finsh)"
  by (simp add: same_tables_def finsh_init_def finsh_heap_init_def finsh_error_init_def finsh_var_init_def finsh_node_init_def
      finsh_parser_init_def set_vm_mem_def demo_finsh_def)

lemma demo_start:
  "console_ok demo_console" "row_shows [] 0 (foldl tty ([], 0, []) (console_output demo_console))"
  "length (vm_stack (vm demo_finsh)) = FINSH_STACK_MAX"
  by (simp_all add: console_ok_def demo_console_def demo_finsh_def RT_CONSOLEBUF_SIZE_def row_shows_def)

lemma demo_eval:
  "\<exists>m. eval_session demo_call_fun (finsh_init demo_finsh) [[demo_set], [demo_get]] m0 = Some (m, [5, 6])"
  by (simp add: same_session [OF same_init] demo_set_def demo_get_def var_width_def demo_var_def type_width_def
      store_def fetch_def bin_def c_op_def wrap_def the_width_def)

lemma demo_transcript:
  "transcript demo_finsh [demo_set] 5 = ''count = 5 '' @ [CHR 0x0A, CHR 0x09] @ ''5, 0x00000005'' @ [CHR 0x0A] @ FINSH_PROMPT"
  "transcript demo_finsh [demo_get] 6 = ''count + 1 '' @ [CHR 0x0A, CHR 0x09] @ ''6, 0x00000006'' @ [CHR 0x0A] @ FINSH_PROMPT"
proof -
  have n: "numeral_text small_digits 10 5 = ''5''" "numeral_text small_digits 10 6 = ''6''"
    "numeral_text small_digits 16 5 = ''5''" "numeral_text small_digits 16 6 = ''6''"
    by (simp_all add: numeral_text.simps [of _ 10 5] numeral_text.simps [of _ 10 6] numeral_text.simps [of _ 16 5]
        numeral_text.simps [of _ 16 6] small_digits_def)
  have z: "replicate 7 CHR ''0'' = ''0000000''" by (simp add: eval_nat_numeral)
  show "transcript demo_finsh [demo_set] 5 = ''count = 5 '' @ [CHR 0x0A, CHR 0x09] @ ''5, 0x00000005'' @ [CHR 0x0A] @ FINSH_PROMPT"
    "transcript demo_finsh [demo_get] 6 = ''count + 1 '' @ [CHR 0x0A, CHR 0x09] @ ''6, 0x00000006'' @ [CHR 0x0A] @ FINSH_PROMPT"
    by (simp_all add: transcript_def demo_text result_text_def Let_def n z)
qed

text \<open>C4. A whole session: the thread of the shell starts, reads lines that are typed one after the
  other, and the console shows the prompt, each line as it is typed, and the value the reference semantics
  gives it, in decimal and hexadecimal; the memory at the end is that of the reference semantics, so
  variables keep their values from line to line.\<close>

theorem finsh_session:
  assumes "console_ok c" "row_shows [] 0 (foldl tty ([], 0, []) (console_output c))" "length (vm_stack (vm f)) = FINSH_STACK_MAX"
    and "\<forall>es \<in> set ess. typable (finsh_init f) n es"
    and "eval_session call (finsh_init f) ess (vm_mem (vm (finsh_init f))) = Some (m, xs)"
  shows "\<exists>s. finsh_thread_entry call n (map (\<lambda>es. typed_text (finsh_init f) es @ [CHR 0x0A]) ess) (new_shell f c ds vs) = Some ([], s)
    \<and> vm_mem (vm (interp s)) = m
    \<and> console_output (con s) = console_output c @ FINSH_PROMPT @ concat (map2 (transcript (finsh_init f)) ess xs)"
proof -
  obtain s where s: "shell_start (new_shell f c ds vs) = Some s" "edits s (fresh_line [])" "ready (interp s)"
    "interp s = finsh_init f" "console_output (con s) = console_output c @ FINSH_PROMPT"
    using shell_starts [OF assms(1-3)] by blast
  have "same_tables (finsh_init f) (interp s)" using s(4) by (simp add: same_tables_def)
  moreover have "eval_session call (finsh_init f) ess (vm_mem (vm (interp s))) = Some (m, xs)" using assms(5) s(4) by simp
  ultimately obtain s' where "shell_loop call n (map (\<lambda>es. typed_text (finsh_init f) es @ [CHR 0x0A]) ess) [] s = Some ([], s')"
    "vm_mem (vm (interp s')) = m"
    "console_output (con s') = console_output (con s) @ concat (map2 (transcript (finsh_init f)) ess xs)"
    using session_runs [OF s(2,3) _ assms(4)] by blast
  then show ?thesis using s(1,5) by (auto simp: finsh_thread_entry_def)
qed

lemma finsh_session_witness:
  "\<exists>s. finsh_thread_entry demo_call_fun 100 [''count = 5 '' @ [CHR 0x0A], ''count + 1 '' @ [CHR 0x0A]] demo_shell = Some ([], s)
    \<and> console_output (con s) = FINSH_PROMPT
      @ ''count = 5 '' @ [CHR 0x0A, CHR 0x09] @ ''5, 0x00000005'' @ [CHR 0x0A] @ FINSH_PROMPT
      @ ''count + 1 '' @ [CHR 0x0A, CHR 0x09] @ ''6, 0x00000006'' @ [CHR 0x0A] @ FINSH_PROMPT"
proof -
  let ?f = "finsh_init demo_finsh"
  obtain m where m: "eval_session demo_call_fun ?f [[demo_set], [demo_get]] (vm_mem (vm ?f)) = Some (m, [5, 6])"
    using demo_eval by blast
  have t: "typed_text ?f es = typed_text demo_finsh es" "transcript ?f es x = transcript demo_finsh es x"
    "typable ?f 100 es = typable demo_finsh 100 es" for es x
    by (simp_all add: typed_text_def transcript_def typable_def same_line [OF same_init] same_runnable [OF same_init] same_fits [OF same_init])
  have "\<forall>es \<in> set [[demo_set], [demo_get]]. typable ?f 100 es" using demo_typable by (simp add: t)
  from finsh_session [OF demo_start this m, of "[''switch the light'']" "[''a counter'']"]
  show ?thesis by (auto simp: t demo_text demo_transcript demo_shell_def demo_console_def)
qed



lemma demo_started:
  "\<exists>s. shell_start demo_shell = Some s \<and> edits s (fresh_line []) \<and> ready (interp s) \<and> interp s = finsh_init demo_finsh"
  using shell_starts [OF demo_start, of "[''switch the light'']" "[''a counter'']"] unfolding demo_shell_def by blast


text \<open>C37. The buffer of the line is too small by one: with 79 characters in it, Enter overwrites the last NUL with
  the semicolon, and the line is read beyond its buffer.\<close>

theorem full_line_overruns:
  assumes e: "edits s a" "cursor a = length (edited a)" "length (edited a) = LINE_MAX" and c: "plain c"
  shows "shell_read call n (c # CHR 0x0A # cs) s = None"
proof -
  note d = e(1) [unfolded edits_def]
  have l: "length (edited a) = 78" using e(3) by (simp add: line_sizes)
  have n: "\<not> line_curpos s < line_position s" "\<not> FINSH_CMD_SIZE \<le> unat (line_position s)"
    using d e(2) l by (auto simp: word_less_nat_alt line_sizes)
  have b: "set_byte (unat (line_position s)) c (shell_line s) = Some (padded (edited a @ [c]))"
    using set_end [of "edited a" c] d l by (simp add: line_sizes)
  obtain s1 where s1: "character_key c s = Some s1" "shell_line s1 = padded (edited a @ [c])" "unat (line_position s1) = 79"
    "stat s1 = WAIT_NORMAL"
    using n b d l by (auto simp: character_key_def Let_def kprint_char unat_Suc8)
  have "enter_key call n s1 = None"
  proof (cases "shell_push_history s1")
    case (Some s2)
    then have s2: "shell_line s2 = shell_line s1" "line_position s2 = line_position s1"
      by (auto simp: shell_push_history_def history_entry_def Let_def Option.bind_eq_Some_conv split: if_splits)
    have b2: "set_byte 79 (CHR '';'') (shell_line s2) = Some ((edited a @ [c]) @ '';'')"
      using s1(2) s2(1) l by (simp add: set_byte_def padded_def line_sizes list_update_append)
    have "NUL \<notin> set (edited a)" "c \<noteq> NUL" using plain_NUL [of "edited a"] d c by (auto simp: good_line_def plain_def)
    then have "string_at ((edited a @ [c]) @ '';'') 0 = None" by (simp add: string_at_def)
    then show ?thesis using Some s1(3) s2(2) b2 by (auto simp: enter_key_def Let_def)
  qed (simp add: enter_key_def)
  moreover have "shell_read call n (c # CHR 0x0A # cs) s = shell_read call n (CHR 0x0A # cs) s1"
    using s1(1) d c by (auto simp: plain_def idle_escape next_key_def)
  ultimately show ?thesis using s1(4) by (simp add: shell_read_enter del: shell_read.simps)
qed

lemma full_line_overruns_witness:
  "\<exists>s s1. shell_start demo_shell = Some s
    \<and> shell_read demo_call_fun 100 (replicate 78 (CHR ''1'')) s = Some ([], s1)
    \<and> shell_read demo_call_fun 100 [CHR ''1'', CHR 0x0A] s1 = None"
proof -
  obtain s where s: "shell_start demo_shell = Some s" "edits s (fresh_line [])" using demo_started by blast
  let ?x = "replicate 78 (CHR ''1'')"
  obtain s1 where s1: "shell_read demo_call_fun 100 (?x @ []) s = shell_read demo_call_fun 100 [] s1"
    "edits s1 ((fresh_line [])\<lparr>edited := [] @ ?x, cursor := length ([] @ ?x)\<rparr>)"
    using typed [OF s(2), of ?x demo_call_fun 100 "[]"] by (auto simp: plain_def line_sizes list_all_iff)
  have "shell_read demo_call_fun 100 (CHR ''1'' # CHR 0x0A # []) s1 = None"
    by (rule full_line_overruns [OF s1(2)]) (simp_all add: plain_def line_sizes)
  then show ?thesis using s(1) s1(1) by (intro exI [of _ s] exI [of _ s1]) simp
qed

lemma printed_interp: "printed t (s\<lparr>interp := f\<rparr>) = (printed t s)\<lparr>interp := f\<rparr>"
  by (simp add: printed_def)

text \<open>A line the parser rejects is answered with the message of its error on a row of its own; nothing is
  compiled or run, and the interpreter is made ready for the next line.\<close>

theorem parse_error_reported:
  assumes "console_ok (con s)" "finsh_parser_run n line (interp s) = Some f" "finsh_errno f = e" "e \<noteq> 0" "unat e < 15"
  shows "finsh_run_line call n line s =
    Some ((printed (finsh_error_string_table ! unat e @ [CHR 0x0A]) (printed [CHR 0x0A] s))\<lparr>interp := finsh_flush f\<rparr>)"
proof -
  let ?t = "finsh_error_string_table ! unat e"
  have all: "list_all (\<lambda>t. length t \<le> 100) finsh_error_string_table" "length finsh_error_string_table = 15"
    by (simp_all add: finsh_error_string_table_def)
  then have l: "length ?t \<le> 100" using assms(5) by (simp add: list_all_length)
  have str: "finsh_error_string e = Some ?t" using all assms(5) by (simp add: finsh_error_string_def)
  have "kprint (''%s'' @ [CHR 0x0A]) [Arg_str (Some ?t)] s1 = Some (printed (?t @ [CHR 0x0A]) s1)" if "console_ok (con s1)" for s1
    by (rule kprint_printed [OF that]) (use format_s [of "[CHR 0x0A]" ?t "[]"] l in simp_all)
  from this [of "(printed [CHR 0x0A] s)\<lparr>interp := f\<rparr>"] show ?thesis
    using assms str by (simp add: finsh_run_line_def kprint_text printed_interp)
qed


lemma demo_parse_error: "map_option finsh_errno (finsh_parser_run 40 ''nobody ;'' demo_finsh) = Some 13"
  by code_simp

lemma parse_error_reported_witness:
  "\<exists>s. finsh_run_line demo_call_fun 40 ''nobody ;'' demo_shell = Some s
    \<and> console_output (con s) = [CHR 0x0A] @ ''Unknown symbol'' @ [CHR 0x0A]"
proof -
  obtain f where f: "finsh_parser_run 40 ''nobody ;'' (interp demo_shell) = Some f" "finsh_errno f = 13"
    using demo_parse_error by (auto simp: demo_shell_def new_shell_def)
  have c: "console_ok (con demo_shell)" "console_output (con demo_shell) = []"
    using demo_start(1) by (simp_all add: demo_shell_def new_shell_def demo_console_def)
  show ?thesis
    using parse_error_reported [OF c(1) f, of demo_call_fun] c(2) by (simp add: finsh_error_string_table_def)
qed

section \<open>Its parts\<close>

text \<open>C13. The compiler and the virtual machine together compute what the reference semantics says of a line of
  well-typed statements: the memory afterwards, and the value of the last statement on the stack.\<close>

theorem finsh_line_correct:
  assumes "well_typed f es" "fits f (last es) w" "eval_line call f es (vm_mem (vm f)) = Some (m, x)"
    "node_count (line_of es) \<le> FINSH_NODE_MAX" "length (line_code f es) \<le> FINSH_TEXT_MAX"
    "length (vm_stack (vm f)) = FINSH_STACK_MAX"
  shows "\<exists>f1 v. finsh_compiler_run (line_of es) f = Some f1 \<and> finsh_errno f1 = finsh_errno f
    \<and> finsh_vm_run call (vm f1) = Some v \<and> vm_mem v = m \<and> slot_value w (finsh_stack_bottom v) = x"
proof -
  obtain u p v where "finsh_compiler_run (line_of es) f = Some (f\<lparr>vm := u, finsh_compile_pc := p\<rparr>)"
    "finsh_vm_run call u = Some v" "vm_mem v = m" "slot_value w (finsh_stack_bottom v) = x"
    using line_runs [OF assms] by blast
  then show ?thesis
    by (intro exI [of _ "f\<lparr>vm := u, finsh_compile_pc := p\<rparr>"] exI [of _ v]) (simp add: finsh_errno_def)
qed

text \<open>\<^verbatim>\<open>count = led()\<close>, then \<^verbatim>\<open>count - 9\<close>.\<close>

definition demo_es :: "fexpr list" where
  "demo_es = [EAssign (Sysvar demo_var) (ECall demo_call ANil), EBin Sub (EVar (Sysvar demo_var)) (EInt 9)]"

lemma demo_es_facts:
  "well_typed demo_finsh demo_es" "fits demo_finsh (last demo_es) W32" "node_count (line_of demo_es) \<le> FINSH_NODE_MAX"
  "length (line_code demo_finsh demo_es) \<le> FINSH_TEXT_MAX"
  by (auto simp: well_typed_def demo_es_def demo_var_def type_width_def FINSH_NODE_MAX_def FINSH_TEXT_MAX_def sys_node_def call_node_def)

lemma finsh_line_correct_witness:
  "\<exists>f1 v. finsh_compiler_run (line_of demo_es) demo_finsh = Some f1 \<and> finsh_vm_run demo_call_fun (vm f1) = Some v
    \<and> sint (finsh_stack_bottom v) = - 2 \<and> get_mem32 (vm_mem v) 0x20000300 = 7"
proof -
  let ?m = "store W32 0x20000300 7 (\<lambda>a. 0)"
  have ev: "eval_line demo_call_fun demo_finsh demo_es (vm_mem (vm demo_finsh)) = Some (?m, - 2)"
    by (simp add: demo_es_def demo_defs var_width_def type_width_def the_width_def fetch_def store_def bin_def c_op_def wrap_def)
  have "get_mem32 ?m 0x20000300 = 7" by (simp add: store_def)
  moreover have "length (vm_stack (vm demo_finsh)) = FINSH_STACK_MAX" by (rule demo_start(3))
  ultimately show ?thesis
    using finsh_line_correct [OF demo_es_facts(1,2) ev demo_es_facts(3,4)] unfolding slot_value_W32 by metis
qed

text \<open>C14. The parser makes of the text of a line the tree of its statements, takes as many nodes of the table as
  the tree has, and ends: fuel above twice the number of tokens is enough.\<close>

theorem finsh_parser_correct:
  assumes "\<forall>e \<in> set es. writable f e" "es \<noteq> []" "nodes_used f + node_count (line_of es) \<le> FINSH_NODE_MAX"
    "parser_root f = Null" "2 * length (line_toks f es) < n"
  shows "finsh_parser_run n (line_text f es) f =
    Some (f\<lparr>nodes_used := nodes_used f + node_count (line_of es), parser_root := line_of es\<rparr>)"
  by (rule parser_reads_line [OF assms])

lemma finsh_parser_correct_witness:
  "finsh_parser_run 100 ''count = 5 ;'' demo_finsh = Some (demo_finsh\<lparr>nodes_used := 3, parser_root := line_of [demo_set]\<rparr>)"
proof -
  have t: "line_text demo_finsh [demo_set] = ''count = 5 ;''"
    using line_text_semicolon [of "[demo_set]" demo_finsh] by (simp add: demo_text)
  have n: "node_count (line_of [demo_set]) = 3" by (simp add: demo_set_def sys_node_def)
  have u: "nodes_used demo_finsh = 0" "parser_root demo_finsh = Null" by (simp_all add: demo_finsh_def)
  have k: "2 * length (line_toks demo_finsh [demo_set]) < 100" by (simp add: demo_set_def)
  show ?thesis
    using finsh_parser_correct [of "[demo_set]" demo_finsh 100] demo_writable(1) n u k
    unfolding t by (simp add: FINSH_NODE_MAX_def del: line_of.simps line_toks_simps)
qed

text \<open>C15. The type check of a well-typed expression succeeds, changes no state, and gives every node of the tree
  the width it is compiled with.\<close>

theorem finsh_types_correct:
  "fits f e w \<Longrightarrow> finsh_type_check (node_of e) 0 f = Some (tnode f e, f)"
  using type_check_expr(1) [of f e w Null Null] by simp

lemma finsh_types_correct_witness:
  "finsh_type_check (node_of demo_get) 0 demo_finsh = Some (tnode demo_finsh demo_get, demo_finsh)
    \<and> data_type (tnode demo_finsh demo_get) = FINSH_DATA_TYPE_DWORD"
proof -
  have "fits demo_finsh demo_get W32" by (simp add: demo_get_def demo_var_def type_width_def)
  then have "finsh_type_check (node_of demo_get) 0 demo_finsh = Some (tnode demo_finsh demo_get, demo_finsh)"
    by (rule finsh_types_correct)
  moreover have "data_type (tnode demo_finsh demo_get) = FINSH_DATA_TYPE_DWORD"
    by (simp add: demo_get_def demo_var_def type_width_def sys_node_def ecode_def ocode_def FINSH_DATA_TYPE_DWORD_def)
  ultimately show ?thesis by (rule conjI)
qed

text \<open>C38. The compiler has no check of the end of the text segment: the compilation of a well-typed line goes
  wrong exactly when its code is longer than the segment.\<close>

theorem finsh_line_overruns:
  "well_typed f es \<Longrightarrow> finsh_compiler_run (line_of es) f = None \<longleftrightarrow> FINSH_TEXT_MAX < length (line_code f es)"
  by (rule text_overruns)


definition demo_local :: finsh where
  "demo_local = demo_finsh\<lparr>global_variable := [\<lparr>var_name = ''i'', var_type = finsh_type_int\<rparr>]\<rparr>"

text \<open>\<^verbatim>\<open>i++; i++; i++; i++; i++; i++; i++; i++\<close> fits the table of the nodes, but not the text segment.\<close>

lemma finsh_line_overruns_witness:
  "finsh_compiler_run (line_of (replicate 8 (EPost True 0))) demo_local = None
    \<and> node_count (line_of (replicate 8 (EPost True 0))) = FINSH_NODE_MAX"
proof -
  have w: "fvar_width demo_local (Local 0) = Some W32" by (simp add: demo_local_def type_width_def)
  then have "well_typed demo_local (replicate 8 (EPost True 0))" by (auto simp: well_typed_def)
  moreover have "FINSH_TEXT_MAX < length (line_code demo_local (replicate 8 (EPost True 0)))"
    using w by (simp add: eval_nat_numeral step_code_def FINSH_TEXT_MAX_def fits_codes del: fvar_width.simps)
  ultimately have "finsh_compiler_run (line_of (replicate 8 (EPost True 0))) demo_local = None"
    using finsh_line_overruns by blast
  then show ?thesis using increments_overrun [OF w] by blast
qed



end
