(* ===== verification/Spec2Isabelle.thy ===== *)
theory Spec2Isabelle
  imports RT_Core RT_Mailbox RT_MsgQueue
    RT_Mempool RT_Ringbuffer RT_HeapCalls Finsh_Results
begin

text \<open>
  The kernel of RT-Thread 1.2 in rt-thread-home/os-app, as a development over its source.
\<close>

end
